(* ===== verification/Prelude.thy ===== *)
theory Prelude
  imports Main "HOL-Library.Word" "HOL-Library.Signed_Division" "HOL-Library.Monad_Syntax"
begin

text \<open>
  Shared vocabulary of the development: machine word types, C arrays as lists whose
  accesses fail (the value None) outside their bounds, counting loops, block copies,
  truncating division and the power-of-two masks used by every ring buffer.
  A C \<open>int\<close> is modelled by an unbounded HOL \<open>int\<close>; the theorems that need it state
  the range in which the C value agrees with it.
\<close>

unbundle bit_operations_syntax

type_synonym u8 = "8 word"
type_synonym u16 = "16 word"
type_synonym u32 = "32 word"

named_theorems mem_simps \<open>evaluation of array accesses and loops\<close>

section \<open>Arrays\<close>

definition aget :: "'a list \<Rightarrow> int \<Rightarrow> 'a option" where
  "aget xs i = (if 0 \<le> i \<and> i < int (length xs) then Some (xs ! nat i) else None)"

definition aset :: "'a list \<Rightarrow> int \<Rightarrow> 'a \<Rightarrow> 'a list option" where
  "aset xs i v = (if 0 \<le> i \<and> i < int (length xs) then Some (xs[nat i := v]) else None)"

text \<open>\<open>memcpy (dst + off, src, length src)\<close>: every written cell must exist.\<close>

definition blit :: "'a list \<Rightarrow> int \<Rightarrow> 'a list \<Rightarrow> 'a list option" where
  "blit dst off src =
     (if 0 \<le> off \<and> off + int (length src) \<le> int (length dst)
      then Some (take (nat off) dst @ src @ drop (nat off + length src) dst) else None)"

text \<open>\<open>memcpy (buf, src + off, n)\<close>: the bytes read, when they all exist.\<close>

definition aslice :: "'a list \<Rightarrow> int \<Rightarrow> int \<Rightarrow> 'a list option" where
  "aslice xs off n =
     (if 0 \<le> off \<and> 0 \<le> n \<and> off + n \<le> int (length xs)
      then Some (take (nat n) (drop (nat off) xs)) else None)"

lemma aget_Some [mem_simps]:
  "0 \<le> i \<Longrightarrow> i < int (length xs) \<Longrightarrow> aget xs i = Some (xs ! nat i)"
  by (simp add: aget_def)

lemma aset_Some [mem_simps]:
  "0 \<le> i \<Longrightarrow> i < int (length xs) \<Longrightarrow> aset xs i v = Some (xs[nat i := v])"
  by (simp add: aset_def)

lemma blit_Some [mem_simps]:
  "0 \<le> off \<Longrightarrow> off + int (length src) \<le> int (length dst) \<Longrightarrow>
   blit dst off src = Some (take (nat off) dst @ src @ drop (nat off + length src) dst)"
  by (simp add: blit_def)

lemma aslice_Some [mem_simps]:
  "0 \<le> off \<Longrightarrow> 0 \<le> n \<Longrightarrow> off + n \<le> int (length xs) \<Longrightarrow>
   aslice xs off n = Some (take (nat n) (drop (nat off) xs))"
  by (simp add: aslice_def)

lemma blit_mid:
  "off = int (length a) \<Longrightarrow> length b = length src \<Longrightarrow> blit (a @ b @ c) off src = Some (a @ src @ c)"
  by (simp add: blit_def)

lemma aslice_mid: "off = int (length a) \<Longrightarrow> n = int (length b) \<Longrightarrow> aslice (a @ b @ c) off n = Some b"
  by (simp add: aslice_def)

lemma split_list_at: "n \<le> length xs \<Longrightarrow> \<exists>a r. xs = a @ r \<and> length a = n \<and> length r = length xs - n"
  by (intro exI [of _ "take n xs"] exI [of _ "drop n xs"]) simp

lemma aset_length: "aset xs i v = Some ys \<Longrightarrow> length ys = length xs"
  by (auto simp: aset_def split: if_splits)

lemma blit_length: "blit dst off src = Some ys \<Longrightarrow> length ys = length dst"
  by (auto simp: blit_def split: if_splits)

lemma aslice_length: "aslice xs off n = Some ys \<Longrightarrow> int (length ys) = n"
  by (auto simp: aslice_def split: if_splits)

lemma aget_aset_same: "aset xs i v = Some ys \<Longrightarrow> aget ys i = Some v"
  by (auto simp: aset_def aget_def split: if_splits)

lemma aget_aset_other: "aset xs i v = Some ys \<Longrightarrow> j \<noteq> i \<Longrightarrow> aget ys j = aget xs j"
  by (auto simp: aset_def aget_def nth_list_update split: if_splits)

section \<open>Counting loops\<close>

text \<open>A loop body may fail; the first failure stops the loop.\<close>

fun foldO :: "('i \<Rightarrow> 's \<Rightarrow> 's option) \<Rightarrow> 'i list \<Rightarrow> 's \<Rightarrow> 's option" where
  "foldO f [] s = Some s"
| "foldO f (x # xs) s = (case f x s of None \<Rightarrow> None | Some t \<Rightarrow> foldO f xs t)"

text \<open>\<open>for (i = lo; i < hi; i++) body\<close>, for a body that does not write \<open>i\<close>.\<close>

definition for_loop :: "int \<Rightarrow> int \<Rightarrow> (int \<Rightarrow> 's \<Rightarrow> 's option) \<Rightarrow> 's \<Rightarrow> 's option" where
  "for_loop lo hi f = foldO f [lo..hi - 1]"

lemma foldO_append:
  "foldO f (xs @ ys) s = (case foldO f xs s of None \<Rightarrow> None | Some t \<Rightarrow> foldO f ys t)"
  by (induction xs arbitrary: s) (auto split: option.splits)

lemma foldO_map: "foldO f (map g xs) s = foldO (\<lambda>x. f (g x)) xs s"
  by (induction xs arbitrary: s) (auto split: option.splits)

lemma foldO_cong: "(\<And>i s. i \<in> set is \<Longrightarrow> f i s = g i s) \<Longrightarrow> foldO f is s = foldO g is s"
  by (induction "is" arbitrary: s) (auto split: option.splits)

text \<open>Total correctness of a loop: a body that keeps \<open>P\<close> and never fails under \<open>P\<close>.\<close>

lemma foldO_total:
  assumes "P s"
    and "\<And>i s. i \<in> set is \<Longrightarrow> P s \<Longrightarrow> \<exists>t. f i s = Some t \<and> P t"
  shows "\<exists>t. foldO f is s = Some t \<and> P t"
  using assms
proof (induction "is" arbitrary: s)
  case Nil
  then show ?case by simp
next
  case (Cons i "is")
  then obtain t where "f i s = Some t" "P t" by (meson list.set_intros(1))
  moreover have "\<exists>u. foldO f is t = Some u \<and> P u"
    using Cons.IH [OF \<open>P t\<close>] Cons.prems(2) by (meson list.set_intros(2))
  ultimately show ?case by simp
qed

lemma foldO_invariant:
  assumes "foldO f is s = Some t" "P s"
    and "\<And>i s t. i \<in> set is \<Longrightarrow> P s \<Longrightarrow> f i s = Some t \<Longrightarrow> P t"
  shows "P t"
  using assms
proof (induction "is" arbitrary: s)
  case (Cons i "is")
  then obtain u where u: "f i s = Some u" "foldO f is u = Some t"
    by (auto split: option.splits)
  then have "P u" using Cons.prems(2,3) by (meson list.set_intros(1))
  then show ?case
    using Cons.IH [OF u(2)] Cons.prems(3) by (meson list.set_intros(2))
qed simp

lemma upto_append: "i \<le> j \<Longrightarrow> j \<le> k + 1 \<Longrightarrow> [i..k] = [i..j - 1] @ [j..(k :: int)]"
  using upto_split1 [of i j k] by (cases "j = k + 1") auto

lemma for_loop_empty [mem_simps]: "hi \<le> lo \<Longrightarrow> for_loop lo hi f s = Some s"
  by (simp add: for_loop_def)

lemma for_loop_step:
  "lo < hi \<Longrightarrow> for_loop lo hi f s =
     (case f lo s of None \<Rightarrow> None | Some t \<Rightarrow> for_loop (lo + 1) hi f t)"
  by (simp add: for_loop_def upto_rec1 split: option.splits)

lemma for_loop_total:
  assumes "P s"
    and "\<And>i s. lo \<le> i \<Longrightarrow> i < hi \<Longrightarrow> P s \<Longrightarrow> \<exists>t. f i s = Some t \<and> P t"
  shows "\<exists>t. for_loop lo hi f s = Some t \<and> P t"
  unfolding for_loop_def by (rule foldO_total [where P = P]) (auto intro: assms)

lemma for_loop_invariant:
  assumes "for_loop lo hi f s = Some t" "P s"
    and "\<And>i s t. lo \<le> i \<Longrightarrow> i < hi \<Longrightarrow> P s \<Longrightarrow> f i s = Some t \<Longrightarrow> P t"
  shows "P t"
  using assms(1,2) unfolding for_loop_def
  by (rule foldO_invariant) (auto intro: assms(3))

section \<open>Power-of-two masks\<close>

lemma and_mask_mod: "(a :: int) AND (2 ^ k - 1) = a mod 2 ^ k"
  by (simp add: take_bit_eq_mod [symmetric] take_bit_eq_mask mask_eq_exp_minus_1)

lemma push_or: "0 \<le> b \<Longrightarrow> b < 2 ^ k \<Longrightarrow> push_bit k a OR b = a * 2 ^ k + (b :: int)"
  using concat_bit_eq [of k b a] concat_bit_def [of k b a]
  by (simp add: take_bit_int_eq_self push_bit_eq_mult or.commute)

section \<open>C integer division\<close>

text \<open>C's \<open>/\<close> truncates towards zero: \<open>sdiv\<close> of the library.\<close>

lemma sdiv_nonneg: "0 \<le> a \<Longrightarrow> 0 < b \<Longrightarrow> (a :: int) sdiv b = a div b"
  by (simp add: signed_divide_int_def sgn_if)

lemma smod_nonneg: "0 \<le> a \<Longrightarrow> 0 < b \<Longrightarrow> (a :: int) smod b = a mod b"
  by (simp add: signed_modulo_int_def sgn_if)

lemma sdiv_neg_num: "a \<le> 0 \<Longrightarrow> 0 < b \<Longrightarrow> (a :: int) sdiv b = - ((- a) div b)"
  by (cases "a = 0") (auto simp: signed_divide_int_def sgn_if)

section \<open>Bytes\<close>

text \<open>The four bytes of an integer in memory, least significant first.\<close>

definition le32 :: "int \<Rightarrow> u8 list" where
  "le32 n = [word_of_int n, word_of_int (n div 2 ^ 8), word_of_int (n div 2 ^ 16), word_of_int (n div 2 ^ 24)]"

lemma length_le32 [simp]: "length (le32 n) = 4"
  by (simp add: le32_def)

end
