(* ===== verification/Loop_Buf.thy ===== *)
theory Loop_Buf
  imports Prelude
begin

text \<open>
  Ring buffers: \<open>LoopBufBase\<close> (common/misc/loop_buf_base), \<open>LoopBuffer\<close>
  (common/misc/loop_buffer.h), \<open>LoopPointer\<close> (common/misc/loop_pointer.h) and \<open>LoopBufSV\<close>
  (main/src/IED/loopbuf_sv.h).  The mask \<open>buf_size_\<close> is one less than a power of two, head
  and tail are array indices.  The invariant \<open>lb_inv\<close> makes every access safe, and the
  abstraction \<open>lb_list\<close> reads the stored elements from oldest to newest: the classes refine
  a bounded queue that drops its oldest element when it overflows.
\<close>

section \<open>State\<close>

record 'a loopbuf =
  lb_size :: int
  lb_head :: int
  lb_tail :: int
  lb_pos :: int
  lb_buffer :: "'a list"
  lb_trash :: 'a

section \<open>LoopBufBase\<close>

text \<open>
  The loop \<open>for (buf_size_=0xffff; sz<=buf_size_; buf_size_ >>= 1);\<close>.  The constructor
  runs it for a positive sz only, where \<open>sz \<le> b\<close> implies \<open>0 < b\<close>.
\<close>

function shrink_mask :: "int \<Rightarrow> int \<Rightarrow> int" where
  "shrink_mask sz b = (if sz \<le> b \<and> 0 < b then shrink_mask sz (b div 2) else b)"
  by pat_completeness auto
termination by (relation "measure (\<lambda>(sz, b). nat b)") auto

declare shrink_mask.simps [simp del]

definition base_mask :: "int \<Rightarrow> int" where
  "base_mask sz = (if sz > 0 then shrink_mask sz 0xffff * 2 + 1 else 0)"

definition DataNum :: "'a loopbuf \<Rightarrow> int" where
  "DataNum lb = (let i = lb_head lb - lb_tail lb in if i < 0 then lb_size lb + 1 + i else i)"

definition lb_Clear :: "'a loopbuf \<Rightarrow> 'a loopbuf" where
  "lb_Clear lb = lb\<lparr>lb_head := 0, lb_tail := 0\<rparr>"

definition Seek :: "int \<Rightarrow> 'a loopbuf \<Rightarrow> 'a loopbuf" where
  "Seek offset lb =
     (let offset = (if offset \<ge> lb_size lb then lb_size lb - 1 else offset)
      in lb\<lparr>lb_pos := (lb_tail lb + offset) AND lb_size lb\<rparr>)"

definition set_head :: "int \<Rightarrow> 'a loopbuf \<Rightarrow> 'a loopbuf" where
  "set_head v lb = lb\<lparr>lb_head := v\<rparr>"

definition set_tail :: "int \<Rightarrow> 'a loopbuf \<Rightarrow> 'a loopbuf" where
  "set_tail v lb = lb\<lparr>lb_tail := v\<rparr>"

section \<open>LoopBuffer\<close>

text \<open>The cells of \<open>new T[n]\<close> hold indeterminate values, given by \<open>junk\<close>.\<close>

definition new_loopbuf :: "(nat \<Rightarrow> 'a) \<Rightarrow> int \<Rightarrow> 'a loopbuf" where
  "new_loopbuf junk sz =
     (let m = base_mask sz; n = nat (m + 1)
      in \<lparr>lb_size = m, lb_head = 0, lb_tail = 0, lb_pos = 0, lb_buffer = map junk [0..<n], lb_trash = junk n\<rparr>)"

definition Push :: "'a \<Rightarrow> 'a loopbuf \<Rightarrow> (int \<times> 'a loopbuf) option" where
  "Push data lb = do {
     b \<leftarrow> aset (lb_buffer lb) (lb_head lb) data;
     let h = (lb_head lb + 1) AND lb_size lb;
     let lb = lb\<lparr>lb_buffer := b, lb_head := h\<rparr>;
     if lb_tail lb = h then do {
       t \<leftarrow> aget b (lb_tail lb);
       Some (1, lb\<lparr>lb_trash := t, lb_tail := (lb_tail lb + 1) AND lb_size lb\<rparr>)
     } else Some (0, lb)
   }"

definition Pop :: "'a \<Rightarrow> 'a loopbuf \<Rightarrow> (int \<times> 'a \<times> 'a loopbuf) option" where
  "Pop data lb =
     (if lb_tail lb = lb_head lb then Some (-1, data, lb)
      else do {
        v \<leftarrow> aget (lb_buffer lb) (lb_tail lb);
        Some (0, v, lb\<lparr>lb_tail := (lb_tail lb + 1) AND lb_size lb\<rparr>)
      })"

definition Read :: "'a \<Rightarrow> 'a loopbuf \<Rightarrow> (int \<times> 'a \<times> 'a loopbuf) option" where
  "Read data lb =
     (if lb_pos lb = lb_head lb then Some (-1, data, lb)
      else do {
        v \<leftarrow> aget (lb_buffer lb) (lb_pos lb);
        Some (0, v, lb\<lparr>lb_pos := (lb_pos lb + 1) AND lb_size lb\<rparr>)
      })"

definition GetTrash :: "'a loopbuf \<Rightarrow> 'a" where
  "GetTrash lb = lb_trash lb"

section \<open>LoopPointer and LoopBufSV\<close>

text \<open>
  \<open>LoopPointer\<close> stores pointers: its \<open>Push\<close> is \<open>LoopBuffer::Push\<close> on the pointer values,
  \<open>Pop\<close> and \<open>Read\<close> return NULL (the inner option) when there is
  nothing to return.
\<close>

definition ptr_Push :: "'a \<Rightarrow> 'a loopbuf \<Rightarrow> (int \<times> 'a loopbuf) option" where
  "ptr_Push data lb = do {
     b \<leftarrow> aset (lb_buffer lb) (lb_head lb) data;
     let h = (lb_head lb + 1) AND lb_size lb;
     let lb = lb\<lparr>lb_buffer := b, lb_head := h\<rparr>;
     if lb_tail lb = h then do {
       t \<leftarrow> aget b (lb_tail lb);
       Some (1, lb\<lparr>lb_trash := t, lb_tail := (lb_tail lb + 1) AND lb_size lb\<rparr>)
     } else Some (0, lb)
   }"

definition ptr_Pop :: "'a loopbuf \<Rightarrow> ('a option \<times> 'a loopbuf) option" where
  "ptr_Pop lb =
     (if lb_tail lb = lb_head lb then Some (None, lb)
      else do {
        v \<leftarrow> aget (lb_buffer lb) (lb_tail lb);
        Some (Some v, lb\<lparr>lb_tail := (lb_tail lb + 1) AND lb_size lb\<rparr>)
      })"

definition ptr_Read :: "int \<Rightarrow> 'a loopbuf \<Rightarrow> 'a option option" where
  "ptr_Read idx lb =
     (if idx \<ge> DataNum lb then Some None
      else do {
        v \<leftarrow> aget (lb_buffer lb) ((lb_tail lb + idx) AND lb_size lb);
        Some (Some v)
      })"

text \<open>
  \<open>LoopBufSV\<close> hands out addresses of cells: \<open>PushP\<close> reserves the head cell, whose content
  the caller writes afterwards; \<open>Pop\<close> and \<open>Read\<close> return the address of a stored cell.
  An address is the cell's index.
\<close>

definition sv_PushP :: "'a loopbuf \<Rightarrow> int \<times> 'a loopbuf" where
  "sv_PushP lb =
     (let p = lb_head lb; h = (lb_head lb + 1) AND lb_size lb; lb = lb\<lparr>lb_head := h\<rparr>
      in (p, if lb_tail lb = h then lb\<lparr>lb_tail := (lb_tail lb + 1) AND lb_size lb\<rparr> else lb))"

definition sv_Pop :: "'a loopbuf \<Rightarrow> int option \<times> 'a loopbuf" where
  "sv_Pop lb =
     (if lb_tail lb = lb_head lb then (None, lb)
      else (Some (lb_tail lb), lb\<lparr>lb_tail := (lb_tail lb + 1) AND lb_size lb\<rparr>))"

definition sv_Read :: "int \<Rightarrow> 'a loopbuf \<Rightarrow> int option" where
  "sv_Read idx lb =
     (if idx \<ge> DataNum lb then None else Some ((lb_tail lb + idx) AND lb_size lb))"


section \<open>Invariant and abstraction\<close>

definition lb_inv :: "nat \<Rightarrow> 'a loopbuf \<Rightarrow> bool" where
  "lb_inv k lb \<longleftrightarrow> lb_size lb = 2 ^ k - 1 \<and> length (lb_buffer lb) = 2 ^ k \<and>
     0 \<le> lb_head lb \<and> lb_head lb < 2 ^ k \<and> 0 \<le> lb_tail lb \<and> lb_tail lb < 2 ^ k \<and>
     0 \<le> lb_pos lb \<and> lb_pos lb < 2 ^ k"

definition lb_at :: "'a loopbuf \<Rightarrow> int \<Rightarrow> 'a" where
  "lb_at lb i = lb_buffer lb ! nat ((lb_tail lb + i) mod (lb_size lb + 1))"

definition lb_list :: "'a loopbuf \<Rightarrow> 'a list" where
  "lb_list lb = map (\<lambda>i. lb_at lb (int i)) [0..<nat (DataNum lb)]"

definition lb_cap :: "'a loopbuf \<Rightarrow> nat" where
  "lb_cap lb = nat (lb_size lb)"

text \<open>The abstract operation: append, and drop the oldest element beyond the capacity.\<close>

definition bq_push :: "nat \<Rightarrow> 'a \<Rightarrow> 'a list \<Rightarrow> int \<times> 'a list" where
  "bq_push cap x xs = (if length xs < cap then (0, xs @ [x]) else (1, tl (xs @ [x])))"

lemma length_lb_list: "length (lb_list lb) = nat (DataNum lb)"
  by (simp add: lb_list_def)

lemma nth_lb_list: "i < nat (DataNum lb) \<Longrightarrow> lb_list lb ! i = lb_at lb (int i)"
  by (simp add: lb_list_def)

subsection \<open>Index arithmetic modulo the number of cells\<close>

lemma DataNum_mod:
  assumes "lb_inv k lb"
  shows "DataNum lb = (lb_head lb - lb_tail lb) mod 2 ^ k"
proof (cases "lb_head lb - lb_tail lb < 0")
  case True
  then have "(lb_head lb - lb_tail lb) mod 2 ^ k = (lb_head lb - lb_tail lb + 2 ^ k) mod 2 ^ k"
    by simp
  also have "\<dots> = lb_head lb - lb_tail lb + 2 ^ k"
    using assms True by (intro mod_pos_pos_trivial) (auto simp: lb_inv_def)
  finally show ?thesis using True assms by (simp add: DataNum_def lb_inv_def)
next
  case False
  then show ?thesis
    using assms by (simp add: DataNum_def lb_inv_def mod_pos_pos_trivial)
qed

lemma DataNum_bounds:
  assumes "lb_inv k lb" shows "0 \<le> DataNum lb" "DataNum lb < 2 ^ k"
  using assms by (simp_all add: DataNum_mod)

lemma ring_distinct:
  fixes t i j N :: int
  assumes "(t + i) mod N = (t + j) mod N" "0 \<le> i" "i < N" "0 \<le> j" "j < N"
  shows "i = j"
proof -
  have "(i - j) mod N = 0" using assms(1) by (metis add_diff_cancel_left mod_eq_dvd_iff dvd_imp_mod_0)
  then have "N dvd i - j" by presburger
  then show ?thesis using assms(2-5) zdvd_imp_le [of N "i - j"] zdvd_imp_le [of N "j - i"]
    by (smt (verit) dvd_diff_commute)
qed

lemma ring_head:
  assumes "lb_inv k lb"
  shows "(lb_tail lb + DataNum lb) mod 2 ^ k = lb_head lb"
  using assms by (simp add: DataNum_mod mod_simps) (simp add: lb_inv_def)

lemma ring_full:
  assumes "lb_inv k lb"
  shows "lb_tail lb = (lb_head lb + 1) mod 2 ^ k \<longleftrightarrow> DataNum lb = 2 ^ k - 1"
proof -
  have "(lb_head lb + 1) mod 2 ^ k = (lb_tail lb + (DataNum lb + 1)) mod 2 ^ k"
    using ring_head [OF assms] by (metis add.assoc mod_add_left_eq)
  moreover have "lb_tail lb = (lb_tail lb + 0) mod 2 ^ k"
    using assms by (simp add: lb_inv_def)
  ultimately show ?thesis
    using DataNum_bounds [OF assms] ring_distinct [of "lb_tail lb" 0 "2 ^ k" "DataNum lb + 1"]
    by (cases "DataNum lb + 1 = 2 ^ k") auto
qed

lemma lb_inv_index: "lb_inv k lb \<Longrightarrow> nat (a mod (lb_size lb + 1)) < length (lb_buffer lb)"
  by (simp add: lb_inv_def nat_less_iff)

lemma lb_inv_cap: "lb_inv k lb \<Longrightarrow> int (lb_cap lb) = 2 ^ k - 1"
  by (simp add: lb_inv_def lb_cap_def)

lemma lb_and_mod: "lb_inv k lb \<Longrightarrow> (a :: int) AND lb_size lb = a mod 2 ^ k"
  by (simp add: lb_inv_def and_mask_mod)

lemma lb_list_length_cap: "lb_inv k lb \<Longrightarrow> length (lb_list lb) \<le> lb_cap lb"
  using DataNum_bounds [of k lb] lb_inv_cap [of k lb] by (simp add: length_lb_list)

lemma lb_list_empty_iff: "lb_inv k lb \<Longrightarrow> lb_list lb = [] \<longleftrightarrow> lb_tail lb = lb_head lb"
proof -
  assume inv: "lb_inv k lb"
  have "lb_list lb = [] \<longleftrightarrow> DataNum lb = 0"
    using DataNum_bounds [OF inv] by (simp add: lb_list_def)
  also have "\<dots> \<longleftrightarrow> lb_tail lb = lb_head lb"
    using ring_head [OF inv] inv by (auto simp: DataNum_def lb_inv_def)
  finally show ?thesis .
qed


section \<open>Correctness of the operations\<close>

lemma lb_list_eqI:
  assumes "DataNum lb = DataNum lc"
    and "\<And>i. 0 \<le> i \<Longrightarrow> i < DataNum lb \<Longrightarrow> lb_at lb i = lb_at lc i"
  shows "lb_list lb = lb_list lc"
  using assms by (auto simp: lb_list_def intro!: map_cong)

lemma lb_list_snoc:
  assumes "DataNum lb = DataNum lc + 1" "0 \<le> DataNum lc"
    and "\<And>i. 0 \<le> i \<Longrightarrow> i < DataNum lc \<Longrightarrow> lb_at lb i = lb_at lc i"
  shows "lb_list lb = lb_list lc @ [lb_at lb (DataNum lc)]"
proof -
  have "nat (DataNum lb) = Suc (nat (DataNum lc))" using assms(1,2) by simp
  then show ?thesis using assms by (auto simp: lb_list_def)
qed

lemma lb_list_Cons:
  assumes "DataNum lb = DataNum lc + 1" "0 \<le> DataNum lc"
    and "\<And>i. 0 \<le> i \<Longrightarrow> i < DataNum lc \<Longrightarrow> lb_at lb (i + 1) = lb_at lc i"
  shows "lb_list lb = lb_at lb 0 # lb_list lc"
proof -
  have n: "nat (DataNum lb) = Suc (nat (DataNum lc))" using assms(1,2) by simp
  have "lb_list lb = map (\<lambda>i. lb_at lb (int i)) (0 # map Suc [0..<nat (DataNum lc)])"
    by (simp only: lb_list_def n map_Suc_upt upt_conv_Cons)
  also have "\<dots> = lb_at lb 0 # lb_list lc"
    using assms(3) by (auto simp: lb_list_def add.commute [of 1])
  finally show ?thesis .
qed

text \<open>The state after the head cell was written and the head advanced.\<close>

definition lb_store :: "'a \<Rightarrow> 'a loopbuf \<Rightarrow> 'a loopbuf" where
  "lb_store x lb = lb\<lparr>lb_buffer := (lb_buffer lb)[nat (lb_head lb) := x],
                     lb_head := (lb_head lb + 1) AND lb_size lb\<rparr>"

definition lb_drop :: "'a loopbuf \<Rightarrow> 'a loopbuf" where
  "lb_drop lb = lb\<lparr>lb_tail := (lb_tail lb + 1) AND lb_size lb\<rparr>"

lemma lb_inv_store: "lb_inv k lb \<Longrightarrow> lb_inv k (lb_store x lb)"
  by (simp add: lb_store_def lb_inv_def and_mask_mod)

lemma lb_inv_drop: "lb_inv k lb \<Longrightarrow> lb_inv k (lb_drop lb)"
  by (simp add: lb_drop_def lb_inv_def and_mask_mod)

lemma lb_trash_store [simp]: "lb_trash (lb_store x lb) = lb_trash lb"
  by (simp add: lb_store_def)

lemma lb_drop_fields [simp]:
  "lb_size (lb_drop lb) = lb_size lb" "lb_trash (lb_drop lb) = lb_trash lb"
  "lb_size (lb_store x lb) = lb_size lb"
  by (simp_all add: lb_drop_def lb_store_def)

lemma lb_inv_trash: "lb_inv k (lb\<lparr>lb_trash := t\<rparr>) = lb_inv k lb"
  by (simp add: lb_inv_def)

lemma lb_list_trash: "lb_list (lb\<lparr>lb_trash := t\<rparr>) = lb_list lb"
  by (simp add: lb_list_def lb_at_def DataNum_def Let_def)

lemma lb_at_store_other:
  assumes "lb_inv k lb" "0 \<le> i" "i < 2 ^ k" "i \<noteq> DataNum lb"
  shows "lb_at (lb_store x lb) i = lb_at lb i"
proof -
  have "(lb_tail lb + i) mod 2 ^ k \<noteq> lb_head lb"
    using assms ring_head [OF assms(1)] DataNum_bounds [OF assms(1)]
      ring_distinct [of "lb_tail lb" i "2 ^ k" "DataNum lb"] by auto
  then show ?thesis
    using assms(1) by (simp add: lb_at_def lb_store_def lb_inv_def nat_eq_iff nth_list_update)
qed

lemma lb_at_store_head:
  assumes "lb_inv k lb"
  shows "lb_at (lb_store x lb) (DataNum lb) = x"
  using assms ring_head [OF assms]
  by (auto simp: lb_at_def lb_store_def lb_inv_def nat_less_iff)

lemma DataNum_store:
  assumes "lb_inv k lb" "DataNum lb \<noteq> 2 ^ k - 1"
  shows "DataNum (lb_store x lb) = DataNum lb + 1"
proof -
  have "DataNum (lb_store x lb) = (lb_head lb - lb_tail lb + 1) mod 2 ^ k"
    using assms(1) by (simp add: DataNum_mod [OF lb_inv_store [OF assms(1)]])
      (simp add: lb_store_def lb_and_mod [OF assms(1)] mod_simps algebra_simps)
  also have "\<dots> = (DataNum lb + 1) mod 2 ^ k"
    by (simp add: DataNum_mod [OF assms(1)] mod_simps)
  also have "\<dots> = DataNum lb + 1"
    using assms(2) DataNum_bounds [OF assms(1)] by (intro mod_pos_pos_trivial) auto
  finally show ?thesis .
qed

lemma lb_list_store:
  assumes "lb_inv k lb" "DataNum lb \<noteq> 2 ^ k - 1"
  shows "lb_list (lb_store x lb) = lb_list lb @ [x]"
  using lb_list_snoc [OF DataNum_store [OF assms]] assms DataNum_bounds [OF assms(1)]
  by (simp add: lb_at_store_head lb_at_store_other)

lemma DataNum_drop:
  assumes "lb_inv k lb" "lb_tail lb \<noteq> lb_head lb"
  shows "DataNum (lb_drop lb) = DataNum lb - 1"
proof -
  have "DataNum (lb_drop lb) = (lb_head lb - lb_tail lb - 1) mod 2 ^ k"
    using assms(1) by (simp add: DataNum_mod [OF lb_inv_drop [OF assms(1)]])
      (simp add: lb_drop_def lb_and_mod [OF assms(1)] mod_simps algebra_simps)
  also have "\<dots> = (DataNum lb - 1) mod 2 ^ k"
    by (simp add: DataNum_mod [OF assms(1)] mod_simps)
  also have "\<dots> = DataNum lb - 1"
  proof -
    have "DataNum lb \<noteq> 0"
      using ring_head [OF assms(1)] assms by (auto simp: lb_inv_def)
    then show ?thesis
      using DataNum_bounds [OF assms(1)] by (intro mod_pos_pos_trivial) auto
  qed
  finally show ?thesis .
qed

lemma lb_list_drop:
  assumes "lb_inv k lb" "lb_tail lb \<noteq> lb_head lb"
  shows "lb_list lb = lb_at lb 0 # lb_list (lb_drop lb)"
proof (rule lb_list_Cons)
  show "DataNum lb = DataNum (lb_drop lb) + 1" using DataNum_drop [OF assms] by simp
  show "0 \<le> DataNum (lb_drop lb)" using DataNum_bounds lb_inv_drop assms(1) by blast
  show "lb_at lb (i + 1) = lb_at (lb_drop lb) i" if "0 \<le> i" for i
  proof -
    have "((lb_tail lb + 1) mod 2 ^ k + i) mod 2 ^ k = (lb_tail lb + (i + 1)) mod 2 ^ k"
      by (simp add: mod_simps algebra_simps)
    then show ?thesis
      using assms(1) by (simp add: lb_at_def lb_drop_def lb_and_mod [OF assms(1)])
        (simp add: lb_inv_def)
  qed
qed

text \<open>
  On a full ring the new head meets the tail: the stored list is rotated once, its
  oldest element goes to \<open>trash_\<close> and the tail moves on.
\<close>

lemma lb_list_full:
  assumes inv: "lb_inv k lb" and full: "DataNum lb = 2 ^ k - 1"
  shows "lb_list (lb_drop (lb_store x lb)) = tl (lb_list lb @ [x])"
    and "lb_buffer (lb_store x lb) ! nat (lb_tail lb) = hd (lb_list lb @ [x])"
proof -
  let ?s = "lb_store x lb" and ?d = "lb_drop (lb_store x lb)"
  have s: "lb_inv k ?s" and d: "lb_inv k ?d" using inv by (simp_all add: lb_inv_store lb_inv_drop)
  have t: "lb_head ?s = lb_tail lb" "lb_tail ?s = lb_tail lb"
    using ring_full [OF inv] full by (simp_all add: lb_store_def lb_and_mod [OF inv])
  have n: "DataNum ?d = 2 ^ k - 1"
  proof -
    have "DataNum ?d = (- 1) mod 2 ^ k"
      using s t by (simp add: DataNum_mod [OF d]) (simp add: lb_drop_def lb_and_mod [OF inv] mod_simps)
    then show ?thesis by (simp add: zmod_minus1)
  qed
  have at_d: "lb_at ?d i = lb_at ?s (i + 1)" for i
  proof -
    have "((lb_tail ?s + 1) mod 2 ^ k + i) mod 2 ^ k = (lb_tail ?s + (i + 1)) mod 2 ^ k"
      by (simp add: mod_simps algebra_simps)
    then show ?thesis
      using s by (simp add: lb_at_def lb_drop_def lb_and_mod [OF inv]) (simp add: lb_inv_def)
  qed
  let ?n = "nat (2 ^ k - 1) :: nat"
  have app: "lb_at ?s (int i) = (lb_list lb @ [x]) ! i" if "i < Suc ?n" for i
  proof (cases "i = ?n")
    case True
    then have "int i = DataNum lb" using full by simp
    then show ?thesis using lb_at_store_head [OF inv, of x] full True
      by (simp add: nth_append length_lb_list)
  next
    case False
    then have "i < ?n" using that by simp
    then have i: "int i < 2 ^ k - 1" by (simp add: zless_nat_eq_int_zless)
    then have "lb_at ?s (int i) = lb_at lb (int i)"
      using full by (intro lb_at_store_other [OF inv]) linarith+
    then show ?thesis
      using full \<open>i < ?n\<close> by (simp add: nth_append length_lb_list nth_lb_list)
  qed
  show "lb_list ?d = tl (lb_list lb @ [x])"
  proof (rule nth_equalityI)
    show "length (lb_list ?d) = length (tl (lb_list lb @ [x]))"
      using n full by (simp add: length_lb_list)
    fix i assume "i < length (lb_list ?d)"
    then have i: "i < ?n" using n by (simp add: length_lb_list)
    then have "lb_list ?d ! i = lb_at ?s (int (Suc i))"
      using n at_d [of "int i"] by (simp add: nth_lb_list add.commute)
    also have "\<dots> = (lb_list lb @ [x]) ! Suc i" using i by (intro app) simp
    also have "\<dots> = tl (lb_list lb @ [x]) ! i"
      by (metis append_is_Nil_conv list.collapse nth_Cons_Suc snoc_eq_iff_butlast)
    finally show "lb_list ?d ! i = tl (lb_list lb @ [x]) ! i" .
  qed
  have "lb_buffer ?s ! nat (lb_tail lb) = lb_at ?s (int 0)"
    using t s inv by (simp add: lb_at_def) (simp add: lb_inv_def lb_store_def)
  also have "\<dots> = (lb_list lb @ [x]) ! 0" by (rule app) simp
  also have "\<dots> = hd (lb_list lb @ [x])" by (simp add: hd_conv_nth)
  finally show "lb_buffer ?s ! nat (lb_tail lb) = hd (lb_list lb @ [x])" .
qed


lemma lb_head_cell: "lb_inv k lb \<Longrightarrow> nat (lb_head lb) < length (lb_buffer lb)"
  by (simp add: lb_inv_def nat_less_iff)

lemma ring_meet:
  assumes "lb_inv k lb"
  shows "lb_tail lb = (lb_head lb + 1) AND lb_size lb \<longleftrightarrow> \<not> length (lb_list lb) < lb_cap lb"
  using ring_full [OF assms] DataNum_bounds [OF assms] lb_inv_cap [OF assms]
  by (auto simp: lb_and_mod [OF assms] length_lb_list)

lemma Push_eq:
  assumes inv: "lb_inv k lb"
  shows "Push x lb =
    (if length (lb_list lb) < lb_cap lb then Some (0, lb_store x lb)
     else Some (1, lb_drop (lb_store x lb)\<lparr>lb_trash := hd (lb_list lb @ [x])\<rparr>))"
proof -
  have set: "aset (lb_buffer lb) (lb_head lb) x = Some (lb_buffer (lb_store x lb))"
    using inv by (simp add: aset_def lb_inv_def lb_store_def)
  have full: "length (lb_list lb) < lb_cap lb \<longleftrightarrow> DataNum lb \<noteq> 2 ^ k - 1"
    using DataNum_bounds [OF inv] lb_inv_cap [OF inv] by (auto simp: length_lb_list)
  have meet: "lb_tail lb = (lb_head lb + 1) AND lb_size lb \<longleftrightarrow> DataNum lb = 2 ^ k - 1"
    using ring_full [OF inv] by (simp add: lb_and_mod [OF inv])
  show ?thesis
  proof (cases "DataNum lb = 2 ^ k - 1")
    case True
    have "aget (lb_buffer (lb_store x lb)) (lb_tail lb) = Some (hd (lb_list lb @ [x]))"
      using lb_list_full(2) [OF inv True] inv by (simp add: aget_def lb_inv_def lb_store_def)
    then show ?thesis using True set full meet
      by (simp add: Push_def Let_def) (simp add: lb_store_def lb_drop_def)
  next
    case False
    then show ?thesis using set full meet
      by (simp add: Push_def Let_def) (simp add: lb_store_def)
  qed
qed

lemma ptr_Push_is_Push: "ptr_Push x lb = Push x lb"
  by (simp add: ptr_Push_def Push_def)

lemma lb_cap_upd [simp]:
  "lb_cap (lb_store x lb) = lb_cap lb" "lb_cap (lb_drop lb) = lb_cap lb"
  "lb_cap (lb\<lparr>lb_trash := t\<rparr>) = lb_cap lb"
  by (simp_all add: lb_cap_def lb_store_def lb_drop_def)

lemma Push_spec:
  assumes inv: "lb_inv k lb"
  obtains r lc where "Push x lb = Some (r, lc)" "lb_inv k lc" "lb_cap lc = lb_cap lb"
    "(r, lb_list lc) = bq_push (lb_cap lb) x (lb_list lb)"
    "r = 1 \<Longrightarrow> GetTrash lc = hd (lb_list lb @ [x])"
    "r = 0 \<Longrightarrow> GetTrash lc = GetTrash lb"
proof (cases "length (lb_list lb) < lb_cap lb")
  case True
  then have "DataNum lb \<noteq> 2 ^ k - 1"
    using lb_inv_cap [OF inv] by (auto simp: length_lb_list)
  then show ?thesis
    using that [of 0 "lb_store x lb"] True inv
    by (simp add: Push_eq [OF inv] lb_list_store lb_inv_store bq_push_def GetTrash_def)
next
  case False
  then have "DataNum lb = 2 ^ k - 1"
    using lb_inv_cap [OF inv] DataNum_bounds [OF inv] by (auto simp: length_lb_list)
  then show ?thesis
    using that [of 1 "lb_drop (lb_store x lb)\<lparr>lb_trash := hd (lb_list lb @ [x])\<rparr>"] False inv
    by (simp add: Push_eq [OF inv] lb_list_full lb_list_trash lb_inv_trash lb_inv_store lb_inv_drop
        bq_push_def GetTrash_def)
qed

lemma lb_first_cell:
  assumes "lb_inv k lb" "lb_tail lb \<noteq> lb_head lb"
  shows "aget (lb_buffer lb) (lb_tail lb) = Some (hd (lb_list lb))"
  using assms lb_list_drop [OF assms] by (simp add: lb_at_def aget_def) (simp add: lb_inv_def)

lemma Pop_eq:
  assumes "lb_inv k lb"
  shows "Pop d lb =
    (if lb_list lb = [] then Some (-1, d, lb) else Some (0, hd (lb_list lb), lb_drop lb))"
  using lb_first_cell [OF assms] lb_list_empty_iff [OF assms]
  by (auto simp: Pop_def lb_drop_def)

lemma ptr_Pop_eq:
  assumes "lb_inv k lb"
  shows "ptr_Pop lb =
    (if lb_list lb = [] then Some (None, lb) else Some (Some (hd (lb_list lb)), lb_drop lb))"
  using lb_first_cell [OF assms] lb_list_empty_iff [OF assms]
  by (auto simp: ptr_Pop_def lb_drop_def)

lemma lb_list_tl:
  "lb_inv k lb \<Longrightarrow> lb_list lb \<noteq> [] \<Longrightarrow> lb_list (lb_drop lb) = tl (lb_list lb)"
  using lb_list_drop [of k lb] lb_list_empty_iff [of k lb] by simp

lemma ptr_Read_eq:
  assumes inv: "lb_inv k lb" and "0 \<le> idx"
  shows "ptr_Read idx lb =
    Some (if idx < DataNum lb then Some (lb_list lb ! nat idx) else None)"
proof (cases "idx < DataNum lb")
  case True
  have "aget (lb_buffer lb) ((lb_tail lb + idx) AND lb_size lb) = Some (lb_at lb idx)"
    using inv by (simp add: aget_def lb_at_def lb_and_mod [OF inv]) (simp add: lb_inv_def)
  then show ?thesis using True assms(2)
    by (simp add: ptr_Read_def nth_lb_list nat_less_iff)
qed (simp add: ptr_Read_def)

section \<open>The interface of a bounded queue\<close>

text \<open>
  What the code that keeps records, events and sample blocks relies on: a queue that never
  fails, keeps its capacity, and drops its oldest element when full.
\<close>

fun push_list :: "('a \<Rightarrow> 's \<Rightarrow> (int \<times> 's) option) \<Rightarrow> 'a list \<Rightarrow> 's \<Rightarrow> 's option" where
  "push_list push [] s = Some s"
| "push_list push (x # xs) s =
     (case push x s of None \<Rightarrow> None | Some (r, t) \<Rightarrow> push_list push xs t)"

text \<open>Popping \<open>n\<close> times, collecting what comes out.\<close>

fun pop_list :: "('s \<Rightarrow> ('a option \<times> 's) option) \<Rightarrow> nat \<Rightarrow> 's \<Rightarrow> ('a list \<times> 's) option" where
  "pop_list pop 0 s = Some ([], s)"
| "pop_list pop (Suc n) s =
     (case pop s of
        None \<Rightarrow> None
      | Some (None, t) \<Rightarrow> Some ([], t)
      | Some (Some x, t) \<Rightarrow>
          (case pop_list pop n t of None \<Rightarrow> None | Some (xs, u) \<Rightarrow> Some (x # xs, u)))"

locale bounded_queue =
  fixes inv :: "'s \<Rightarrow> bool"
    and abs :: "'s \<Rightarrow> 'a list"
    and cap :: "'s \<Rightarrow> nat"
    and push :: "'a \<Rightarrow> 's \<Rightarrow> (int \<times> 's) option"
    and pop :: "'s \<Rightarrow> ('a option \<times> 's) option"
  assumes bounded: "inv s \<Longrightarrow> length (abs s) \<le> cap s"
    and push: "inv s \<Longrightarrow> \<exists>r t. push x s = Some (r, t) \<and> inv t \<and> cap t = cap s \<and>
                 (r, abs t) = bq_push (cap s) x (abs s)"
    and pop_empty: "inv s \<Longrightarrow> abs s = [] \<Longrightarrow> pop s = Some (None, s)"
    and pop_first: "inv s \<Longrightarrow> abs s \<noteq> [] \<Longrightarrow>
                 \<exists>t. pop s = Some (Some (hd (abs s)), t) \<and> inv t \<and> cap t = cap s \<and> abs t = tl (abs s)"
begin

text \<open>Whatever is pushed, the queue holds the newest \<open>cap\<close> elements in order.\<close>

lemma push_list_newest:
  assumes "inv s"
  shows "\<exists>t. push_list push xs s = Some t \<and> inv t \<and> cap t = cap s \<and>
    abs t = drop (length (abs s @ xs) - cap s) (abs s @ xs)"
  using assms
proof (induction xs arbitrary: s)
  case Nil
  then show ?case using bounded [of s] by simp
next
  case (Cons x xs)
  obtain r t where t: "push x s = Some (r, t)" "inv t" "cap t = cap s"
    "(r, abs t) = bq_push (cap s) x (abs s)"
    using push [OF Cons.prems] by blast
  obtain u where u: "push_list push xs t = Some u" "inv u" "cap u = cap t"
    "abs u = drop (length (abs t @ xs) - cap t) (abs t @ xs)"
    using Cons.IH [OF t(2)] by blast
  have "abs u = drop (length (abs s @ x # xs) - cap s) (abs s @ x # xs)"
  proof (cases "length (abs s) < cap s")
    case True
    then have "abs t @ xs = abs s @ x # xs" using t(4) by (simp add: bq_push_def)
    then show ?thesis using u(4) t(3) by simp
  next
    case False
    then have l: "length (abs s) = cap s" using bounded [OF Cons.prems] by simp
    have at: "abs t = tl (abs s @ [x])" using False t(4) by (simp add: bq_push_def)
    define L where "L = abs s @ x # xs"
    have L: "abs t @ xs = drop 1 L" by (cases "abs s") (simp_all add: at L_def)
    have "length L = Suc (cap s + length xs)" by (simp add: L_def l)
    then have "abs u = drop (length L - cap s) L" using u(4) t(3) by (simp only: L) simp
    then show ?thesis by (simp only: L_def)
  qed
  then show ?case using t u by simp
qed

text \<open>Popping returns the stored elements oldest first.\<close>

lemma pop_list_all:
  assumes "inv s"
  shows "\<exists>t. pop_list pop n s = Some (take n (abs s), t) \<and> inv t \<and> cap t = cap s \<and>
    abs t = drop n (abs s)"
  using assms
proof (induction n arbitrary: s)
  case 0
  then show ?case by simp
next
  case (Suc n)
  show ?case
  proof (cases "abs s")
    case Nil
    then show ?thesis using pop_empty [OF Suc.prems Nil] Suc.prems by simp
  next
    case (Cons x xs)
    then obtain t where t: "pop s = Some (Some x, t)" "inv t" "cap t = cap s" "abs t = xs"
      using pop_first [OF Suc.prems] by auto
    then show ?thesis using Suc.IH [OF t(2)] Cons by auto
  qed
qed

end

text \<open>\<open>Pop\<close> with its output parameter, as an operation that returns an optional element.\<close>

definition lb_take :: "'a \<Rightarrow> 'a loopbuf \<Rightarrow> ('a option \<times> 'a loopbuf) option" where
  "lb_take d lb =
     (case Pop d lb of None \<Rightarrow> None
      | Some (r, v, lc) \<Rightarrow> Some (if r = 0 then Some v else None, lc))"

interpretation lbq: bounded_queue "lb_inv k" lb_list lb_cap Push "lb_take d" for k d
proof (unfold_locales, goal_cases)
  case (1 s)
  then show ?case by (rule lb_list_length_cap)
next
  case (2 s x)
  then show ?case by (rule Push_spec [of k s x]) blast
next
  case (3 s)
  then show ?case by (simp add: lb_take_def Pop_eq)
next
  case (4 s)
  then show ?case by (auto simp: lb_take_def Pop_eq lb_inv_drop lb_list_tl)
qed

interpretation ptrq: bounded_queue "lb_inv k" lb_list lb_cap ptr_Push ptr_Pop for k
proof (unfold_locales, goal_cases)
  case (1 s)
  then show ?case by (rule lb_list_length_cap)
next
  case (2 s x)
  then show ?case unfolding ptr_Push_is_Push by (rule Push_spec [of k s x]) blast
next
  case (3 s)
  then show ?case by (simp add: ptr_Pop_eq)
next
  case (4 s)
  then show ?case by (auto simp: ptr_Pop_eq lb_inv_drop lb_list_tl)
qed


section \<open>Sizes, cursors and reserved cells\<close>

lemma shrink_mask_pow:
  assumes "0 < sz"
  shows "\<exists>i\<le>j. shrink_mask sz (2 ^ j - 1) = 2 ^ i - 1 \<and> 2 ^ i - 1 < max sz (2 ^ j) \<and>
    (i < j \<longrightarrow> 2 ^ i - 1 < sz \<and> sz \<le> 2 ^ Suc i - 1) \<and> (i = j \<longrightarrow> 2 ^ j - 1 < sz)"
proof (induction j)
  case 0
  then show ?case using assms by (simp add: shrink_mask.simps [of sz 0])
next
  case (Suc j)
  show ?case
  proof (cases "sz \<le> 2 ^ Suc j - 1")
    case True
    have half: "(2 ^ Suc j - 1 :: int) div 2 = 2 ^ j - 1" by simp
    have "shrink_mask sz (2 ^ Suc j - 1) = shrink_mask sz (2 ^ j - 1)"
      using True assms half by (simp only: shrink_mask.simps [of sz "2 ^ Suc j - 1"]) simp
    moreover obtain i where "i \<le> j" "shrink_mask sz (2 ^ j - 1) = 2 ^ i - 1"
      "i < j \<longrightarrow> 2 ^ i - 1 < sz \<and> sz \<le> 2 ^ Suc i - 1" "i = j \<longrightarrow> 2 ^ j - 1 < sz"
      using Suc.IH by blast
    moreover from this have "2 ^ i - 1 < sz \<and> sz \<le> 2 ^ Suc i - 1" using True by (cases "i = j") auto
    ultimately show ?thesis by (intro exI [of _ i]) auto
  next
    case False
    then show ?thesis
      by (intro exI [of _ "Suc j"]) (simp add: shrink_mask.simps [of sz "2 * 2 ^ j - 1"])
  qed
qed

lemma base_mask_pow:
  assumes "0 < sz"
  obtains i where "i \<le> 16" "base_mask sz = 2 ^ Suc i - 1" "2 ^ i - 1 < sz"
    "i < 16 \<Longrightarrow> sz \<le> 2 ^ Suc i - 1"
proof -
  obtain i where "i \<le> 16" "shrink_mask sz (2 ^ 16 - 1) = 2 ^ i - 1"
    "i < 16 \<longrightarrow> 2 ^ i - 1 < sz \<and> sz \<le> 2 ^ Suc i - 1" "i = 16 \<longrightarrow> 2 ^ 16 - 1 < sz"
    using shrink_mask_pow [OF assms, of 16] by blast
  then show thesis using that [of i] assms by (cases "i = 16") (auto simp: base_mask_def)
qed

lemma lb_inv_new:
  assumes "base_mask sz = 2 ^ k - 1"
  shows "lb_inv k (new_loopbuf junk sz)" "lb_list (new_loopbuf junk sz) = []"
proof -
  have "nat (2 ^ k) = 2 ^ k" by (simp add: nat_power_eq)
  then show "lb_inv k (new_loopbuf junk sz)"
    using assms by (simp add: lb_inv_def new_loopbuf_def Let_def)
  show "lb_list (new_loopbuf junk sz) = []"
    by (simp add: lb_list_def new_loopbuf_def Let_def DataNum_def)
qed

lemma lb_cap_new: "lb_cap (new_loopbuf junk sz) = nat (base_mask sz)"
  by (simp add: lb_cap_def new_loopbuf_def Let_def)

definition lb_next :: "'a \<Rightarrow> 'a loopbuf \<Rightarrow> ('a option \<times> 'a loopbuf) option" where
  "lb_next d lb =
     (case Read d lb of None \<Rightarrow> None
      | Some (r, v, lc) \<Rightarrow> Some (if r = 0 then Some v else None, lc))"

lemma lb_list_pos: "lb_list (lb\<lparr>lb_pos := p\<rparr>) = lb_list lb"
  by (simp add: lb_list_def lb_at_def DataNum_def Let_def)

lemma lb_inv_pos: "lb_inv k lb \<Longrightarrow> 0 \<le> p \<Longrightarrow> p < 2 ^ k \<Longrightarrow> lb_inv k (lb\<lparr>lb_pos := p\<rparr>)"
  by (simp add: lb_inv_def)

text \<open>A read at offset \<open>j\<close> of the stored elements.\<close>

lemma lb_next_at:
  assumes inv: "lb_inv k lb" and p: "lb_pos lb = (lb_tail lb + j) mod 2 ^ k"
    and j: "0 \<le> j" "j < DataNum lb"
  shows "lb_next d lb =
    Some (Some (lb_list lb ! nat j), lb\<lparr>lb_pos := (lb_tail lb + (j + 1)) mod 2 ^ k\<rparr>)"
proof -
  have "lb_pos lb \<noteq> lb_head lb"
    using ring_head [OF inv] DataNum_bounds [OF inv] p j
      ring_distinct [of "lb_tail lb" j "2 ^ k" "DataNum lb"] by auto
  moreover have "aget (lb_buffer lb) (lb_pos lb) = Some (lb_list lb ! nat j)"
    using inv p j by (simp add: nth_lb_list lb_at_def aget_def) (simp add: lb_inv_def)
  moreover have "(lb_pos lb + 1) AND lb_size lb = (lb_tail lb + (j + 1)) mod 2 ^ k"
    using p by (simp add: lb_and_mod [OF inv] mod_simps algebra_simps)
  ultimately show ?thesis by (simp add: lb_next_def Read_def)
qed

lemma lb_next_end:
  assumes inv: "lb_inv k lb" and p: "lb_pos lb = (lb_tail lb + DataNum lb) mod 2 ^ k"
  shows "lb_next d lb = Some (None, lb)"
  using ring_head [OF inv] p by (simp add: lb_next_def Read_def)

lemma read_from:
  assumes "lb_inv k lb" "lb_pos lb = (lb_tail lb + j) mod 2 ^ k" "0 \<le> j" "j \<le> DataNum lb"
  shows "\<exists>t. pop_list (lb_next d) m lb = Some (take m (drop (nat j) (lb_list lb)), t) \<and>
    lb_inv k t \<and> lb_list t = lb_list lb"
  using assms
proof (induction m arbitrary: lb j)
  case 0
  then show ?case by simp
next
  case (Suc m)
  show ?case
  proof (cases "j = DataNum lb")
    case True
    then show ?thesis using Suc.prems lb_next_end [of k lb d] by (simp add: length_lb_list)
  next
    case False
    let ?c = "lb\<lparr>lb_pos := (lb_tail lb + (j + 1)) mod 2 ^ k\<rparr>"
    have j: "j < DataNum lb" using False Suc.prems by simp
    have "lb_inv k ?c" using Suc.prems(1) by (intro lb_inv_pos) simp_all
    moreover have "DataNum ?c = DataNum lb" by (simp add: DataNum_def Let_def)
    ultimately obtain t where
      "pop_list (lb_next d) m ?c = Some (take m (drop (nat (j + 1)) (lb_list lb)), t)"
      "lb_inv k t" "lb_list t = lb_list lb"
      using Suc.IH [of ?c "j + 1"] Suc.prems(3) j by (auto simp: lb_list_pos)
    moreover have "drop (nat j) (lb_list lb) =
      lb_list lb ! nat j # drop (nat (j + 1)) (lb_list lb)"
      using j Suc.prems(3) by (simp add: Cons_nth_drop_Suc nat_add_distrib length_lb_list nat_less_iff)
    ultimately show ?thesis
      using lb_next_at [OF Suc.prems(1-3) j, of d] by simp
  qed
qed

lemma Seek_pos:
  assumes "lb_inv k lb" "0 \<le> n" "n < DataNum lb"
  shows "Seek n lb = lb\<lparr>lb_pos := (lb_tail lb + n) mod 2 ^ k\<rparr>"
  using assms DataNum_bounds [OF assms(1)] lb_and_mod [OF assms(1)]
  by (simp add: Seek_def Let_def) (simp add: lb_inv_def)

lemma Seek_read:
  assumes "lb_inv k lb" "0 \<le> n" "n < DataNum lb"
  shows "\<exists>t. pop_list (lb_next d) m (Seek n lb) = Some (take m (drop (nat n) (lb_list lb)), t) \<and>
    lb_inv k t \<and> lb_list t = lb_list lb"
proof -
  let ?c = "lb\<lparr>lb_pos := (lb_tail lb + n) mod 2 ^ k\<rparr>"
  have "DataNum ?c = DataNum lb" by (simp add: DataNum_def Let_def)
  then have "\<exists>t. pop_list (lb_next d) m ?c = Some (take m (drop (nat n) (lb_list ?c)), t) \<and>
    lb_inv k t \<and> lb_list t = lb_list ?c"
    using assms by (intro read_from) (auto intro: lb_inv_pos)
  then show ?thesis by (simp add: Seek_pos [OF assms] lb_list_pos)
qed

text \<open>\<open>LoopBufSV\<close>: a reserved cell, once written, is what \<open>Push\<close> would have stored.\<close>

lemma sv_PushP_store:
  "(snd (sv_PushP lb))\<lparr>lb_buffer := (lb_buffer lb)[nat (lb_head lb) := x]\<rparr> =
    (if lb_tail lb = (lb_head lb + 1) AND lb_size lb then lb_drop (lb_store x lb) else lb_store x lb)"
  by (simp add: sv_PushP_def Let_def lb_drop_def lb_store_def)

lemma sv_PushP_Push:
  assumes inv: "lb_inv k lb"
  shows "\<exists>r lc. Push x lb = Some (r, lc) \<and> fst (sv_PushP lb) = lb_head lb \<and>
    lb_list lc = lb_list ((snd (sv_PushP lb))\<lparr>lb_buffer := (lb_buffer lb)[nat (lb_head lb) := x]\<rparr>)"
  unfolding sv_PushP_store ring_meet [OF inv] Push_eq [OF inv]
  by (auto simp: lb_list_trash sv_PushP_def Let_def)

lemma sv_Pop_oldest:
  assumes "lb_inv k lb" "lb_list lb \<noteq> []"
  shows "\<exists>a. sv_Pop lb = (Some a, lb_drop lb) \<and> aget (lb_buffer lb) a = Some (hd (lb_list lb))"
  using assms lb_list_empty_iff [OF assms(1)] lb_first_cell [OF assms(1)]
  by (auto simp: sv_Pop_def lb_drop_def)

section \<open>Properties\<close>

text \<open>
  C1. A ring buffer made for a positive size never accesses memory outside its array: any
  sequence of pushes succeeds, and the buffer then holds exactly the newest elements, oldest
  first, up to its capacity; popping returns them in that order.
\<close>

theorem loop_buffer_keeps_newest:
  assumes "0 < sz"
  shows "\<exists>lb. push_list Push xs (new_loopbuf junk sz) = Some lb \<and>
    lb_list lb = drop (length xs - nat (base_mask sz)) xs \<and>
    (\<exists>lc. pop_list (lb_take d) n lb = Some (take n (lb_list lb), lc) \<and> lb_list lc = drop n (lb_list lb))"
proof -
  obtain i where "base_mask sz = 2 ^ Suc i - 1" using base_mask_pow [OF assms] by blast
  note new = lb_inv_new [OF this]
  obtain lb where lb: "push_list Push xs (new_loopbuf junk sz) = Some lb" "lb_inv (Suc i) lb"
    "lb_list lb = drop (length xs - nat (base_mask sz)) xs"
    using lbq.push_list_newest [OF new(1), of xs] by (auto simp: new(2) lb_cap_new)
  then show ?thesis using lbq.pop_list_all [where n = n and d = d, OF lb(2)] by auto
qed

theorem loop_buffer_keeps_newest_witness:
  "\<exists>lb. push_list Push [1, 2, 3, 4, 5 :: int] (new_loopbuf (\<lambda>_. 0) 2) = Some lb \<and>
    lb_list lb = [3, 4, 5] \<and>
    (\<exists>lc. pop_list (lb_take 0) 2 lb = Some ([3, 4], lc) \<and> lb_list lc = [5])"
proof -
  have "base_mask 2 = 3" by code_simp
  then show ?thesis
    using loop_buffer_keeps_newest [of 2 "[1, 2, 3, 4, 5 :: int]" "\<lambda>_. 0" 0 2] by auto
qed

text \<open>
  The capacity chosen by the constructor: for a requested size of 1 to 131071 the mask is
  one less than a power of two, at least the requested size and less than twice that size.
\<close>

lemma base_mask_capacity:
  assumes "0 < sz" "sz \<le> 131071"
  shows "sz \<le> base_mask sz \<and> base_mask sz < 2 * sz \<and> (\<exists>k. base_mask sz = 2 ^ k - 1)"
proof -
  obtain i where i: "i \<le> 16" "base_mask sz = 2 ^ Suc i - 1" "2 ^ i - 1 < sz"
    "i < 16 \<Longrightarrow> sz \<le> 2 ^ Suc i - 1"
    using base_mask_pow [OF assms(1)] by blast
  have "sz \<le> 2 ^ Suc i - 1" using i(1,4) assms(2) by (cases "i = 16") auto
  moreover have "2 ^ Suc i - 1 < 2 * sz" using i(3) by simp
  ultimately show ?thesis using i(2) by (intro conjI exI [of _ "Suc i"]) simp_all
qed

lemma base_mask_capacity_example:
  "62 \<le> base_mask 62 \<and> base_mask 62 < 2 * 62 \<and> (\<exists>k. base_mask 62 = 2 ^ k - 1)"
  by (rule base_mask_capacity) simp_all

text \<open>
  The read cursor: after \<open>Seek n\<close> to a stored element, successive reads return the stored
  elements from the n-th on, in order, and leave the stored elements unchanged.
\<close>

lemma seek_then_read:
  assumes "lb_inv k lb" "0 \<le> n" "n < DataNum lb"
  shows "\<exists>t. pop_list (lb_next d) m (Seek n lb) = Some (take m (drop (nat n) (lb_list lb)), t) \<and>
    lb_list t = lb_list lb"
  using Seek_read [OF assms] by blast

definition example_ring :: "int loopbuf" where
  "example_ring = \<lparr>lb_size = 3, lb_head = 1, lb_tail = 2, lb_pos = 0,
                   lb_buffer = [30, 0, 10, 20], lb_trash = 0\<rparr>"

lemma lb_inv_example_ring: "lb_inv 2 example_ring" "lb_list example_ring = [10, 20, 30]"
  by (simp_all add: lb_inv_def example_ring_def lb_list_def lb_at_def DataNum_def upt_rec)

lemma seek_then_read_example:
  "\<exists>t. pop_list (lb_next 0) 5 (Seek 1 example_ring) = Some ([20, 30], t) \<and>
    lb_list t = [10, 20, 30]"
  using seek_then_read [OF lb_inv_example_ring(1), of 1 0 5]
  by (simp add: lb_inv_example_ring(2)) (simp add: example_ring_def DataNum_def)

end
