(* ===== verification/Generic.thy ===== *)
theory Generic
  imports Prelude
begin

text \<open>
  Free functions: the comparison handed to \<open>qsort\<close> and \<open>bsearch\<close>, the admissible save periods
  (common/misc/generic.cpp) and the packing of samples into three bytes
  (common/misc/format_convrt.cpp).
\<close>

definition CompareInt :: "int \<Rightarrow> int \<Rightarrow> int" where
  "CompareInt a b = (if a > b then 1 else if a < b then -1 else 0)"

section \<open>Save periods\<close>

definition ValidSaveSpaces3s :: "int list" where
  "ValidSaveSpaces3s = [3, 6, 12, 15, 30, 45, 60, 90, 120, 180, 240, 300, 360, 600, 720, 900]"

definition ValidSaveSpacesFrq :: "int list" where
  "ValidSaveSpacesFrq = [1, 3, 10, 60, 180, 600]"

fun first_space :: "int \<Rightarrow> int list \<Rightarrow> int option" where
  "first_space space [] = None"
| "first_space space (p # ps) = (if space \<le> p then Some p else first_space space ps)"

definition AdjSaveSpc :: "int \<Rightarrow> int \<Rightarrow> int" where
  "AdjSaveSpc space type =
     (let pk = (if type \<noteq> 0 then ValidSaveSpacesFrq else ValidSaveSpaces3s)
      in case first_space space pk of Some p \<Rightarrow> p | None \<Rightarrow> last pk)"

lemma first_space_sorted:
  "sorted pk \<Longrightarrow> first_space space pk = Some p \<Longrightarrow> p \<in> set pk \<and> space \<le> p \<and> (\<forall>q \<in> set pk. space \<le> q \<longrightarrow> p \<le> q)"
  by (induction pk) (auto split: if_splits)

lemma first_space_None: "first_space space pk = None \<longleftrightarrow> (\<forall>q \<in> set pk. q < space)"
  by (induction pk) (auto simp: not_le)

text \<open>The period chosen is the least admissible one that is not shorter, or else the longest.\<close>

lemma AdjSaveSpc_least:
  assumes "pk = (if type \<noteq> 0 then ValidSaveSpacesFrq else ValidSaveSpaces3s)"
  shows "AdjSaveSpc space type \<in> set pk \<and>
    (space \<le> last pk \<longrightarrow> space \<le> AdjSaveSpc space type \<and> (\<forall>q \<in> set pk. space \<le> q \<longrightarrow> AdjSaveSpc space type \<le> q)) \<and>
    (last pk < space \<longrightarrow> AdjSaveSpc space type = last pk)"
proof -
  have pk: "sorted pk" "pk \<noteq> []" "\<forall>q \<in> set pk. q \<le> last pk" "last pk \<in> set pk"
    unfolding assms by (simp_all add: ValidSaveSpacesFrq_def ValidSaveSpaces3s_def)
  show ?thesis
  proof (cases "first_space space pk")
    case None
    then have "\<forall>q \<in> set pk. q < space" by (simp only: first_space_None)
    then show ?thesis using pk None by (auto simp: AdjSaveSpc_def assms [symmetric])
  next
    case (Some p)
    then show ?thesis using first_space_sorted [OF pk(1) Some] pk(3)
      by (auto simp: AdjSaveSpc_def assms [symmetric])
  qed
qed

text \<open>
  \<open>FloatFmt\<close> after the conversion of its argument to \<open>long\<close>: how often 10 goes into the quotient.
\<close>

function digits :: "int \<Rightarrow> int \<Rightarrow> int" where
  "digits lj i = (if lj = 0 then i else digits (lj sdiv 10) (i + 1))"
  by pat_completeness auto
termination
proof (relation "measure (\<lambda>(lj, i). nat \<bar>lj\<bar>)")
  fix lj i :: int assume lj: "lj \<noteq> 0"
  then have "\<bar>lj\<bar> div 10 < \<bar>lj\<bar>" by presburger
  moreover have "\<bar>lj sdiv 10\<bar> = \<bar>lj\<bar> div 10"
    using lj by (simp add: signed_divide_int_def abs_mult)
  ultimately show "((lj sdiv 10, i + 1), lj, i) \<in> measure (\<lambda>(lj, i). nat \<bar>lj\<bar>)" by simp
qed simp

declare digits.simps [simp del]

definition FloatFmt :: "int \<Rightarrow> nat \<Rightarrow> int \<Rightarrow> int" where
  "FloatFmt fdata totl decim =
     (let li = 10 ^ totl - 1; lj = (if fdata = 0 then 1 else fdata);
          i = digits ((li sdiv lj) sdiv 10) 0
      in if i > decim then decim else i)"

text \<open>The examples of the comment, and the last one for a smaller number.\<close>

lemma FloatFmt_examples:
  "map (\<lambda>x. FloatFmt x 5 3) [123456, 12345, 1234, 123, 12, 1, - 123] = [0, 0, 1, 2, 3, 3, 2]"
  by code_simp

section \<open>Samples in three bytes\<close>

text \<open>The memory is little-endian: byte \<open>i\<close> of a word.\<close>

definition word_byte :: "u32 \<Rightarrow> nat \<Rightarrow> u8" where
  "word_byte w i = ucast (drop_bit (8 * i) w)"

fun Cpy32To24 :: "u32 list \<Rightarrow> u8 list" where
  "Cpy32To24 [] = []"
| "Cpy32To24 (w # ws) = word_byte w 0 # word_byte w 1 # word_byte w 2 # Cpy32To24 ws"

text \<open>The low byte of each target cell is not written before the arithmetic shift takes it out.\<close>

definition widen24 :: "u32 \<Rightarrow> u8 \<Rightarrow> u8 \<Rightarrow> u8 \<Rightarrow> u32" where
  "widen24 old a b c =
     signed_drop_bit 8 ((old AND 0xFF) OR push_bit 8 (ucast a) OR push_bit 16 (ucast b) OR push_bit 24 (ucast c))"

fun Cpy24To32 :: "u32 list \<Rightarrow> u8 list \<Rightarrow> nat \<Rightarrow> u32 list option" where
  "Cpy24To32 i32 i24 0 = Some i32"
| "Cpy24To32 (old # i32) (a # b # c # i24) (Suc n) = map_option ((#) (widen24 old a b c)) (Cpy24To32 i32 i24 n)"
| "Cpy24To32 i32 i24 (Suc n) = None"

lemma widen24_bytes: "widen24 old (word_byte w 0) (word_byte w 1) (word_byte w 2) = signed_take_bit 23 w"
proof (rule bit_word_eqI)
  fix n assume "n < LENGTH(32)"
  then have n: "n < 32" by simp
  have m: "(0xFF :: u32) = mask 8" by (simp add: mask_eq_exp_minus_1)
  have b: "bit (ucast x :: u32) k \<longleftrightarrow> k < 8 \<and> bit x k" if "k < 32" for x :: u8 and k
    using that bit_imp_le_length [of x k] by (auto simp: bit_simps)
  have k: "8 + n < 32 \<Longrightarrow> bit (widen24 old (word_byte w 0) (word_byte w 1) (word_byte w 2)) n = bit w n"
    unfolding widen24_def m word_byte_def
    by (cases "n < 8"; cases "n < 16") (auto simp: bit_simps less_diff_conv2 not_less)
  show "bit (widen24 old (word_byte w 0) (word_byte w 1) (word_byte w 2)) n = bit (signed_take_bit 23 w) n"
  proof (cases "n < 24")
    case True
    then show ?thesis using k by (cases "n = 23") (simp_all add: bit_simps min_def)
  next
    case False
    then have "bit (widen24 old (word_byte w 0) (word_byte w 1) (word_byte w 2)) n = bit w 23"
      using n unfolding widen24_def m word_byte_def by (simp add: bit_simps)
    then show ?thesis using False n by (simp add: bit_simps)
  qed
qed

lemma Cpy24To32_bytes:
  "length old = length ws \<Longrightarrow> Cpy24To32 old (Cpy32To24 ws) (length ws) = Some (map (signed_take_bit 23) ws)"
  by (induction old ws rule: list_induct2) (simp_all add: widen24_bytes [unfolded One_nat_def])

text \<open>
  Packing samples into three bytes each and widening them again gives the low 24 bits with their sign,
  whatever the target held before: the samples come back if and only if each of them fits in 24 bits.
\<close>

lemma samples_24_bit:
  assumes "length old = length ws"
  shows "Cpy24To32 old (Cpy32To24 ws) (length ws) = Some (map (signed_take_bit 23) ws) \<and>
    (Cpy24To32 old (Cpy32To24 ws) (length ws) = Some ws \<longleftrightarrow> (\<forall>w \<in> set ws. - (2 ^ 23) \<le> sint w \<and> sint w < 2 ^ 23))"
proof -
  have "signed_take_bit 23 w = w \<longleftrightarrow> - (2 ^ 23) \<le> sint w \<and> sint w < 2 ^ 23" for w :: u32
  proof -
    have "sint (signed_take_bit 23 w) = signed_take_bit 23 (sint w)"
      by (rule bit_eqI) (auto simp: bit_simps min_def)
    then have "signed_take_bit 23 w = w \<longleftrightarrow> signed_take_bit 23 (sint w) = sint w"
      by (metis signed_word_eqI)
    then show ?thesis by (simp add: signed_take_bit_int_eq_self_iff)
  qed
  moreover have "map f ws = ws \<longleftrightarrow> (\<forall>w \<in> set ws. f w = w)" for f :: "u32 \<Rightarrow> u32"
    by (induction ws) auto
  ultimately show ?thesis using Cpy24To32_bytes [OF assms] by simp
qed

lemma samples_24_bit_example:
  "Cpy24To32 [7, 8] (Cpy32To24 [5, - 3]) (Suc (Suc 0)) = Some [5, - 3] \<and>
   Cpy24To32 [7] (Cpy32To24 [0x800000]) (Suc 0) \<noteq> Some [0x800000]"
  using samples_24_bit [of "[7, 8]" "[5, - 3]"] samples_24_bit [of "[7]" "[0x800000]"]
  by (simp only: list.size add_0 plus_nat.add_Suc add_0_right) (simp del: Cpy24To32.simps Cpy32To24.simps)

end
