(* ===== verification/Loop_Buf_Sort.thy ===== *)
theory Loop_Buf_Sort
  imports Loop_Buf Generic
begin

text \<open>
  \<open>LoopBufSort\<close> (common/misc/loopbuf_sort.h): a ring buffer kept in ascending order, used for
  the dates of the record files on disk.  The object is its \<open>LoopBuffer\<close> base (\<open>sb_ring\<close>),
  the scratch array \<open>tmp_buf_\<close> and the four custom words that travel with the file.
  The C library's \<open>bsearch\<close> is the halving search, \<open>qsort\<close> an ascending sort by the
  comparison function.  The templates call \<open>data_num()\<close> where the base class declares
  \<open>DataNum()\<close>; the model uses the latter.
\<close>

section \<open>State and library routines\<close>

record 'a sortbuf =
  sb_ring :: "'a loopbuf"
  sb_tmp :: "'a list"
  sb_cust :: "int list"

function bsearch_loop :: "('a \<Rightarrow> 'a \<Rightarrow> int) \<Rightarrow> 'a \<Rightarrow> 'a list \<Rightarrow> nat \<Rightarrow> nat \<Rightarrow> bool" where
  "bsearch_loop cmp x xs l u =
     (if l < u then
        (let idx = (l + u) div 2; c = cmp x (xs ! idx)
         in if c < 0 then bsearch_loop cmp x xs l idx
            else if c > 0 then bsearch_loop cmp x xs (Suc idx) u
            else True)
      else False)"
  by pat_completeness auto
termination by (relation "measure (\<lambda>(cmp, x, xs, l, u). u - l)") auto

declare bsearch_loop.simps [simp del]

definition bsearch :: "('a \<Rightarrow> 'a \<Rightarrow> int) \<Rightarrow> 'a \<Rightarrow> 'a list \<Rightarrow> bool" where
  "bsearch cmp x xs = bsearch_loop cmp x xs 0 (length xs)"

fun cmp_insert :: "('a \<Rightarrow> 'a \<Rightarrow> int) \<Rightarrow> 'a \<Rightarrow> 'a list \<Rightarrow> 'a list" where
  "cmp_insert cmp x [] = [x]"
| "cmp_insert cmp x (y # ys) = (if cmp x y \<le> 0 then x # y # ys else y # cmp_insert cmp x ys)"

definition qsort :: "('a \<Rightarrow> 'a \<Rightarrow> int) \<Rightarrow> 'a list \<Rightarrow> 'a list" where
  "qsort cmp xs = foldr (cmp_insert cmp) xs []"

section \<open>Operations\<close>

text \<open>
  \<open>ptmp = tmp_buf_ + i; while (!this->Pop(ptmp++));\<close>.  A failing \<open>Pop\<close> leaves its output
  alone, so the value passed in does not matter.
\<close>

partial_function (option) pop_all ::
  "int \<Rightarrow> 'a list \<Rightarrow> 'a loopbuf \<Rightarrow> ('a list \<times> 'a loopbuf) option" where
  "pop_all i tmp lb = do {
     (r, v, lb) \<leftarrow> Pop (lb_trash lb) lb;
     if r \<noteq> 0 then Some (tmp, lb)
     else do { tmp \<leftarrow> aset tmp i v; pop_all (i + 1) tmp lb }
   }"

text \<open>\<open>ptmp = tmp_buf_; for (int i=0;i<num;i++) this->Push(ptmp++);\<close>\<close>

definition push_tmp :: "int \<Rightarrow> 'a list \<Rightarrow> 'a loopbuf \<Rightarrow> 'a loopbuf option" where
  "push_tmp num tmp = for_loop 0 num (\<lambda>i lb. do {
     v \<leftarrow> aget tmp i;
     (r, lb) \<leftarrow> Push v lb;
     Some lb })"

text \<open>The two reads at both ends; the locals \<open>min\<close> and \<open>max\<close> start indeterminate.\<close>

definition read_ends :: "'a \<Rightarrow> 'a \<Rightarrow> int \<Rightarrow> 'a loopbuf \<Rightarrow> ('a \<times> 'a \<times> 'a loopbuf) option" where
  "read_ends j1 j2 num lb = do {
     (r, mn, lb) \<leftarrow> Read j1 (Seek 0 lb);
     (r, mx, lb) \<leftarrow> Read j2 (Seek (num - 1) lb);
     Some (mn, mx, lb) }"

text \<open>The branch of \<open>Insert\<close> and \<open>InsertMax\<close> for data within [min, max].\<close>

definition insert_mid ::
  "('a \<Rightarrow> 'a \<Rightarrow> int) \<Rightarrow> 'a \<Rightarrow> int \<Rightarrow> 'a list \<Rightarrow> 'a loopbuf \<Rightarrow>
   (int \<times> int \<times> 'a list \<times> 'a loopbuf) option" where
  "insert_mid cmp data num tmp lb = do {
     (tmp, lb) \<leftarrow> pop_all 0 tmp lb;
     if bsearch cmp data (take (nat num) tmp) then Some (0, num, tmp, lb)
     else do {
       tmp \<leftarrow> aset tmp num data;
       let num = num + 1;
       let tmp = qsort cmp (take (nat num) tmp) @ drop (nat num) tmp;
       Some (if num > lb_size lb then 1 else 0, num, tmp, lb)
     }
   }"

definition Insert :: "('a \<Rightarrow> 'a \<Rightarrow> int) \<Rightarrow> 'a \<Rightarrow> 'a sortbuf \<Rightarrow> (int \<times> 'a sortbuf) option" where
  "Insert cmp data sb =
     (let num = DataNum (sb_ring sb) in
      if num = 0 then do {
        (r, lb) \<leftarrow> Push data (sb_ring sb);
        Some (0, sb\<lparr>sb_ring := lb\<rparr>)
      } else do {
        (mn, mx, lb) \<leftarrow> read_ends data data num (sb_ring sb);
        if cmp data mx > 0 then do {
          (r, lb) \<leftarrow> Push data lb;
          Some (r, sb\<lparr>sb_ring := lb\<rparr>)
        } else do {
          (retval, num, tmp, lb) \<leftarrow>
            (if cmp data mn < 0 then do {
               tmp \<leftarrow> aset (sb_tmp sb) 0 data;
               (tmp, lb) \<leftarrow> pop_all 1 tmp lb;
               if num < lb_size lb then Some (0, num + 1, tmp, lb)
               else do {
                 t \<leftarrow> aget tmp (lb_size lb);
                 Some (1, num, tmp, lb\<lparr>lb_trash := t\<rparr>)
               }
             } else insert_mid cmp data num (sb_tmp sb) lb);
          lb \<leftarrow> push_tmp num tmp lb;
          Some (retval, sb\<lparr>sb_ring := lb, sb_tmp := tmp\<rparr>)
        }
      })"

text \<open>
  \<open>InsertMax\<close>: its branch for data below the minimum is empty, so nothing is popped into
  \<open>tmp_buf_\<close>, but the final loop still pushes \<open>num\<close> cells of it.
\<close>

definition InsertMax :: "('a \<Rightarrow> 'a \<Rightarrow> int) \<Rightarrow> 'a \<Rightarrow> 'a sortbuf \<Rightarrow> (int \<times> 'a sortbuf) option" where
  "InsertMax cmp data sb =
     (let num = DataNum (sb_ring sb) in
      if num = 0 then do {
        (r, lb) \<leftarrow> Push data (sb_ring sb);
        Some (0, sb\<lparr>sb_ring := lb\<rparr>)
      } else do {
        (mn, mx, lb) \<leftarrow> read_ends data data num (sb_ring sb);
        if cmp data mx > 0 then do {
          (r, lb) \<leftarrow> Push data lb;
          Some (r, sb\<lparr>sb_ring := lb\<rparr>)
        } else do {
          (retval, num, tmp, lb) \<leftarrow>
            (if cmp data mn < 0 then Some (0, num, sb_tmp sb, lb)
             else insert_mid cmp data num (sb_tmp sb) lb);
          lb \<leftarrow> push_tmp num tmp lb;
          Some (retval, sb\<lparr>sb_ring := lb, sb_tmp := tmp\<rparr>)
        }
      })"

text \<open>The scan of \<open>Match\<close> from index \<open>i\<close>.\<close>

function match_scan ::
  "('a \<Rightarrow> 'a \<Rightarrow> int) \<Rightarrow> 'a \<Rightarrow> int \<Rightarrow> int \<Rightarrow> int \<Rightarrow> 'a \<Rightarrow> 'a loopbuf \<Rightarrow> (int \<times> 'a loopbuf) option" where
  "match_scan cmp data type i num tmpi lb =
     (if i < num then
        (case Read tmpi lb of None \<Rightarrow> None
         | Some (r, tmpi, lb) \<Rightarrow>
             if cmp tmpi data = 0 then Some (i, lb)
             else if cmp tmpi data > 0
               then Some (if type = 0 then -1 else if type > 0 then i - 1 else i, lb)
             else match_scan cmp data type (i + 1) num tmpi lb)
      else Some (i, lb))"
  by pat_completeness auto
termination by (relation "measure (\<lambda>(cmp, data, type, i, num, tmpi, lb). nat (num - i))") auto

declare match_scan.simps [simp del]

definition Match ::
  "('a \<Rightarrow> 'a \<Rightarrow> int) \<Rightarrow> 'a \<Rightarrow> 'a \<Rightarrow> 'a \<Rightarrow> 'a \<Rightarrow> int \<Rightarrow> 'a loopbuf \<Rightarrow> (int \<times> 'a loopbuf) option" where
  "Match cmp j1 j2 j3 data type lb = do {
     let num = DataNum lb;
     (mn, mx, lb) \<leftarrow> read_ends j1 j2 num lb;
     if cmp data mn < 0 then Some (if type < 0 then 0 else -1, lb)
     else if cmp data mx > 0 then Some (if type > 0 then 0 else -1, lb)
     else match_scan cmp data type 0 num j3 (Seek 0 lb)
   }"

section \<open>The save file\<close>

text \<open>
  A file holds the header \<open>LoopBufSave\<close> (size, head, tail, custom words), if it is long enough
  to hold one, and cells after it.
\<close>

record 'a rcfile =
  rf_head :: "(int \<times> int \<times> int \<times> int list) option"
  rf_cells :: "'a list"

definition new_sortbuf :: "(nat \<Rightarrow> 'a) \<Rightarrow> int list \<Rightarrow> int \<Rightarrow> 'a sortbuf" where
  "new_sortbuf junk cust0 sz =
     (let lb = new_loopbuf junk sz
      in \<lparr>sb_ring = lb, sb_tmp = map junk [0..<nat (lb_size lb + 1)], sb_cust = cust0\<rparr>)"

text \<open>
  \<open>LoadFile\<close>: a missing file is 1, a file without a header 2, a header with a size of 0 or
  less 3.  A short read of the cells assigns \<open>false\<close>, that is 0, to the return value.
  Writing cells beyond the new array is a memory error (None).
\<close>

definition LoadFile :: "(nat \<Rightarrow> 'a) \<Rightarrow> 'a rcfile option \<Rightarrow> 'a sortbuf \<Rightarrow> (int \<times> 'a sortbuf) option" where
  "LoadFile junk file sb =
     (case file of None \<Rightarrow> Some (1, sb)
      | Some f \<Rightarrow>
        (case rf_head f of None \<Rightarrow> Some (2, sb)
         | Some (hsz, hhead, htail, hcust) \<Rightarrow>
             (let sb = sb\<lparr>sb_cust := hcust\<rparr> in
              if hsz > 0 then do {
                let m = base_mask hsz;
                let fresh = map junk [0..<nat (m + 1)];
                b \<leftarrow> blit fresh 0 (take (nat (hsz + 1)) (rf_cells f));
                let lb = (sb_ring sb)\<lparr>lb_size := m, lb_head := hhead, lb_tail := htail, lb_buffer := b\<rparr>;
                Some (0, sb\<lparr>sb_ring := lb, sb_tmp := fresh\<rparr>)
              } else Some (3, sb))))"

text \<open>
  \<open>SaveFile\<close>: an existing file is opened for update and keeps what lies beyond the cells
  written; a missing one is created when \<open>can_create\<close>, otherwise the null stream is used (a
  memory error).  \<open>hd_ok\<close> and \<open>nw\<close> are the results of the two \<open>fwrite\<close> calls: whether the
  header was written, and how many cells.
\<close>

definition SaveFile ::
  "bool \<Rightarrow> bool \<Rightarrow> int \<Rightarrow> 'a rcfile option \<Rightarrow> 'a sortbuf \<Rightarrow> (int \<times> 'a rcfile) option" where
  "SaveFile can_create hd_ok nw file sb = do {
     old \<leftarrow> (case file of Some f \<Rightarrow> Some f
             | None \<Rightarrow> if can_create then Some \<lparr>rf_head = None, rf_cells = []\<rparr> else None);
     let lb = sb_ring sb;
     if hd_ok then do {
       cells \<leftarrow> aslice (lb_buffer lb) 0 (lb_size lb + 1);
       let f = \<lparr>rf_head = Some (lb_size lb, lb_head lb, lb_tail lb, sb_cust sb),
               rf_cells = take (nat nw) cells @ drop (nat nw) (rf_cells old)\<rparr>;
       Some (if nw \<noteq> lb_size lb + 1 then 2 else 0, f)
     } else Some (2, old)
   }"


section \<open>Loops over the scratch array\<close>

declare pop_all.simps [code]

lemma pop_all_all:
  assumes "lb_inv k lb" "0 \<le> i" "i + int (length (lb_list lb)) \<le> int (length tmp)"
  shows "\<exists>lc. pop_all i tmp lb =
      Some (take (nat i) tmp @ lb_list lb @ drop (nat i + length (lb_list lb)) tmp, lc) \<and>
    lb_inv k lc \<and> lb_list lc = [] \<and> lb_cap lc = lb_cap lb \<and> lb_size lc = lb_size lb \<and>
    lb_trash lc = lb_trash lb"
  using assms
proof (induction "lb_list lb" arbitrary: i tmp lb)
  case Nil
  then show ?case using Nil(1) by (subst pop_all.simps) (simp add: Pop_eq)
next
  case (Cons x xs)
  let ?lb = "lb_drop lb" and ?tmp = "tmp[nat i := x]"
  have ne: "lb_list lb \<noteq> []" and hd: "hd (lb_list lb) = x" using Cons(2) by (metis list.discI, metis list.sel(1))
  have tl: "lb_list ?lb = xs" using lb_list_tl [OF Cons.prems(1) ne] Cons(2) by (metis list.sel(3))
  have len: "length (lb_list lb) = Suc (length xs)" using Cons(2) by (metis length_Cons)
  have "nat i < length tmp" using Cons.prems(2,3) len by simp
  then have shift: "take (nat (i + 1)) ?tmp @ xs @ drop (nat (i + 1) + length xs) ?tmp =
      take (nat i) tmp @ (x # xs) @ drop (nat i + Suc (length xs)) tmp"
    using Cons.prems(2) by (simp add: nat_add_distrib take_Suc_conv_app_nth)
  obtain lc where lc: "pop_all (i + 1) ?tmp ?lb =
      Some (take (nat (i + 1)) ?tmp @ xs @ drop (nat (i + 1) + length xs) ?tmp, lc)"
    "lb_inv k lc" "lb_list lc = []" "lb_cap lc = lb_cap lb" "lb_size lc = lb_size lb"
    "lb_trash lc = lb_trash lb"
    using Cons(1) [of ?lb "i + 1" ?tmp] Cons.prems len tl by (auto simp: lb_inv_drop)
  have "pop_all i tmp lb = pop_all (i + 1) ?tmp ?lb"
    using Cons.prems len ne hd by (subst pop_all.simps) (simp add: Pop_eq aset_Some)
  then show ?case using lc Cons(2) [symmetric] by (simp only: shift len list.size) auto
qed

lemma push_tmp_from:
  assumes "0 \<le> i" "num \<le> int (length tmp)"
  shows "for_loop i num (\<lambda>i lb. do { v \<leftarrow> aget tmp i; (r, lb) \<leftarrow> Push v lb; Some lb }) lb =
    push_list Push (take (nat (num - i)) (drop (nat i) tmp)) lb"
  using assms(1)
proof (induction "nat (num - i)" arbitrary: i lb)
  case 0
  then show ?case by (simp add: for_loop_empty)
next
  case (Suc n)
  then have "i < num" "nat i < length tmp" using assms(2) by simp_all
  moreover from this have "take (nat (num - i)) (drop (nat i) tmp) =
      tmp ! nat i # take (nat (num - (i + 1))) (drop (nat (i + 1)) tmp)"
    using Suc.prems by (simp add: Cons_nth_drop_Suc [symmetric] nat_add_distrib nat_diff_distrib take_Cons')
  moreover have "n = nat (num - (i + 1))" using Suc.hyps(2) by simp
  ultimately show ?case using Suc.hyps(1) [of "i + 1"] Suc.prems assms(2)
    by (simp add: for_loop_step aget_def split: option.splits)
qed

lemma push_tmp_list:
  "num \<le> int (length tmp) \<Longrightarrow> push_tmp num tmp lb = push_list Push (take (nat num) tmp) lb"
  using push_tmp_from [of 0 num tmp lb] by (simp add: push_tmp_def)

text \<open>The element dropped last is in \<open>trash_\<close>; without overflow \<open>trash_\<close> is untouched.\<close>

lemma push_list_trash:
  assumes "lb_inv k lb"
  shows "\<exists>lc. push_list Push xs lb = Some lc \<and> lb_inv k lc \<and> lb_cap lc = lb_cap lb \<and>
    lb_list lc = drop (length (lb_list lb @ xs) - lb_cap lb) (lb_list lb @ xs) \<and>
    GetTrash lc = (if length (lb_list lb @ xs) \<le> lb_cap lb then GetTrash lb
      else (lb_list lb @ xs) ! (length (lb_list lb @ xs) - lb_cap lb - 1))"
  using assms
proof (induction xs rule: rev_induct)
  case Nil
  then show ?case using lb_list_length_cap [OF Nil] by simp
next
  case (snoc x xs)
  let ?L = "lb_list lb @ xs"
  obtain lc where lc: "push_list Push xs lb = Some lc" "lb_inv k lc" "lb_cap lc = lb_cap lb"
    "lb_list lc = drop (length ?L - lb_cap lb) ?L"
    "GetTrash lc = (if length ?L \<le> lb_cap lb then GetTrash lb else ?L ! (length ?L - lb_cap lb - 1))"
    using snoc.IH [OF snoc.prems] by blast
  obtain r ld where ld: "Push x lc = Some (r, ld)" "lb_inv k ld" "lb_cap ld = lb_cap lc"
    "(r, lb_list ld) = bq_push (lb_cap lc) x (lb_list lc)"
    "r = 1 \<Longrightarrow> GetTrash ld = hd (lb_list lc @ [x])" "r = 0 \<Longrightarrow> GetTrash ld = GetTrash lc"
    by (rule Push_spec [OF lc(2), of x]) blast
  have app: "push_list Push (ys @ [x]) s = (case push_list Push ys s of None \<Rightarrow> None
      | Some t \<Rightarrow> (case Push x t of None \<Rightarrow> None | Some (r, u) \<Rightarrow> Some u))" for ys s
    by (induction ys arbitrary: s) (auto split: option.splits)
  have run: "push_list Push (xs @ [x]) lb = Some ld" using lc(1) ld(1) by (simp add: app)
  have new: "lb_list ld = drop (length (?L @ [x]) - lb_cap lb) (?L @ [x]) \<and>
      GetTrash ld = (if length (?L @ [x]) \<le> lb_cap lb then GetTrash lb
        else (?L @ [x]) ! (length (?L @ [x]) - lb_cap lb - 1))"
  proof (cases "length ?L < lb_cap lb")
    case True
    then show ?thesis using lc ld by (simp add: bq_push_def)
  next
    case False
    then have "length (lb_list lc) = lb_cap lb" using lc(4) by simp
    then have r: "r = 1" "lb_list ld = tl (lb_list lc @ [x])" using ld(4) lc(3) by (simp_all add: bq_push_def)
    define M where "M = ?L @ [x]"
    have cut: "lb_list lc @ [x] = drop (length M - lb_cap lb - 1) M" using False by (simp add: lc(4) M_def)
    have len: "lb_cap lb < length M" using False by (simp add: M_def)
    then have "tl (lb_list lc @ [x]) = drop (length M - lb_cap lb) M"
      by (simp only: cut tl_drop drop_Suc [symmetric]) (simp add: Suc_diff_Suc)
    moreover have "hd (lb_list lc @ [x]) = M ! (length M - lb_cap lb - 1)"
      using len by (simp only: cut) (subst hd_drop_conv_nth; simp)
    ultimately have "lb_list ld = drop (length M - lb_cap lb) M"
      "GetTrash ld = M ! (length M - lb_cap lb - 1)" using r ld(5) by simp_all
    then show ?thesis unfolding M_def [symmetric] using len by simp
  qed
  then show ?case using run ld(2,3) lc(3) by (simp only: append_assoc) auto
qed


section \<open>Comparison functions\<close>

text \<open>
  What the class relies on: the comparison function orders the elements by a key in a linear
  order.  \<open>CompareInt\<close> on dates is the instance the program uses.
\<close>

definition key_sorted :: "('a \<Rightarrow> 'k :: linorder) \<Rightarrow> 'a list \<Rightarrow> bool" where
  "key_sorted key xs \<longleftrightarrow> sorted_wrt (\<lambda>x y. key x < key y) xs"

locale keyed_cmp =
  fixes cmp :: "'a \<Rightarrow> 'a \<Rightarrow> int"
    and key :: "'a \<Rightarrow> 'k :: linorder"
  assumes neg: "cmp x y < 0 \<longleftrightarrow> key x < key y"
    and pos: "cmp x y > 0 \<longleftrightarrow> key y < key x"
begin

lemma nonpos: "cmp x y \<le> 0 \<longleftrightarrow> key x \<le> key y"
  using pos [of x y] by (simp add: not_less [symmetric])

lemma zero: "cmp x y = 0 \<longleftrightarrow> key x = key y"
  using neg [of x y] pos [of x y] by (metis less_irrefl linorder_cases)

lemma cmp_insert_insort: "cmp_insert cmp x xs = insort_key key x xs"
  by (induction xs) (simp_all add: nonpos)

lemma qsort_sort_key: "qsort cmp xs = sort_key key xs"
  by (simp add: qsort_def cmp_insert_insort [abs_def] sort_key_def)

lemma qsort_snoc:
  assumes "key_sorted key xs" "\<forall>y\<in>set xs. key y \<noteq> key x"
  shows "qsort cmp (xs @ [x]) = insort_key key x xs"
proof -
  have "foldr (insort_key key) xs [x] = insort_key key x xs"
    using assms
  proof (induction xs)
    case (Cons a xs)
    then have IH: "foldr (insort_key key) xs [x] = insort_key key x xs"
      and lt: "\<forall>y\<in>set xs. key a < key y" by (simp_all add: key_sorted_def)
    show ?case
    proof (cases "key x < key a")
      case True
      then have "insort_key key x xs = x # xs" "insort_key key a xs = a # xs"
        using lt by (auto intro!: insort_is_Cons)
      moreover have "\<not> key a \<le> key x" "key x \<le> key a" using True by auto
      ultimately show ?thesis using IH by simp
    next
      case False
      then have "key a < key x" using Cons.prems(2) by auto
      moreover from this have "insort_key key a (insort_key key x xs) = a # insort_key key x xs"
        using lt by (intro insort_is_Cons) (auto simp: set_insort_key)
      moreover have "\<not> key x \<le> key a" using \<open>key a < key x\<close> by auto
      ultimately show ?thesis using IH by simp
    qed
  qed simp
  then show ?thesis by (simp add: qsort_sort_key sort_key_def)
qed

lemma bsearch_loop_iff:
  assumes "key_sorted key xs" "u \<le> length xs"
  shows "bsearch_loop cmp x xs l u \<longleftrightarrow> (\<exists>i. l \<le> i \<and> i < u \<and> key (xs ! i) = key x)"
  using assms(2)
proof (induction "u - l" arbitrary: l u rule: less_induct)
  case less
  have mono: "i < j \<Longrightarrow> j < u \<Longrightarrow> key (xs ! i) < key (xs ! j)" for i j
    using assms(1) less.prems sorted_wrt_nth_less [of "\<lambda>x y. key x < key y" xs i j]
    by (simp add: key_sorted_def)
  show ?case
  proof (cases "l < u")
    case False
    then show ?thesis by (simp add: bsearch_loop.simps [of cmp x xs l u])
  next
    case True
    define m where "m = (l + u) div 2"
    have m: "l \<le> m" "m < u" using True by (simp_all add: m_def)
    consider "cmp x (xs ! m) < 0" | "cmp x (xs ! m) > 0" | "cmp x (xs ! m) = 0" by linarith
    then show ?thesis
    proof cases
      case 1
      then have "bsearch_loop cmp x xs l u = bsearch_loop cmp x xs l m"
        using True by (simp add: bsearch_loop.simps [of cmp x xs l u] m_def Let_def)
      also have "\<dots> = (\<exists>i. l \<le> i \<and> i < m \<and> key (xs ! i) = key x)"
        using m less.prems by (intro less.hyps) simp_all
      also have "\<dots> = (\<exists>i. l \<le> i \<and> i < u \<and> key (xs ! i) = key x)"
        using 1 m mono [of m] by (metis neg nat_neq_iff order_less_trans less_irrefl)
      finally show ?thesis .
    next
      case 2
      then have "bsearch_loop cmp x xs l u = bsearch_loop cmp x xs (Suc m) u"
        using True by (simp add: bsearch_loop.simps [of cmp x xs l u] m_def Let_def)
      also have "\<dots> = (\<exists>i. Suc m \<le> i \<and> i < u \<and> key (xs ! i) = key x)"
        using m less.prems by (intro less.hyps) simp_all
      also have "\<dots> = (\<exists>i. l \<le> i \<and> i < u \<and> key (xs ! i) = key x)"
        using 2 m mono [of _ m] by (metis pos Suc_leD Suc_leI le_trans nat_neq_iff order_less_trans less_irrefl)
      finally show ?thesis .
    next
      case 3
      then have "bsearch_loop cmp x xs l u"
        using True by (simp add: bsearch_loop.simps [of cmp x xs l u] m_def Let_def)
      moreover have "key (xs ! m) = key x" using 3 zero by simp
      ultimately show ?thesis using m by blast
    qed
  qed
qed

lemma bsearch_iff:
  assumes "key_sorted key xs"
  shows "bsearch cmp x xs \<longleftrightarrow> (\<exists>y\<in>set xs. key y = key x)"
  using bsearch_loop_iff [OF assms, of "length xs" x 0]
  by (simp add: bsearch_def) (metis in_set_conv_nth)

end

interpretation dates: keyed_cmp CompareInt "\<lambda>a :: int. a"
  by unfold_locales (auto simp: CompareInt_def)

section \<open>Insertion\<close>

text \<open>
  What \<open>Insert\<close> does to the stored list: nothing for a key already present; otherwise the
  element goes to its place, and a full buffer drops its smallest element, except that an
  element below the minimum pushes the largest one out.
\<close>

definition ins_spec :: "nat \<Rightarrow> ('a \<Rightarrow> 'k :: linorder) \<Rightarrow> 'a \<Rightarrow> 'a list \<Rightarrow> int \<times> 'a list" where
  "ins_spec cap key x xs =
     (if \<exists>y\<in>set xs. key y = key x then (0, xs)
      else let ys = insort_key key x xs in
        if length xs < cap then (0, ys)
        else if key x < key (hd xs) then (1, butlast ys)
        else (1, tl ys))"

definition sb_inv :: "nat \<Rightarrow> 'a sortbuf \<Rightarrow> bool" where
  "sb_inv k sb \<longleftrightarrow> 0 < k \<and> lb_inv k (sb_ring sb) \<and> length (sb_tmp sb) = 2 ^ k"

abbreviation sb_list :: "'a sortbuf \<Rightarrow> 'a list" where
  "sb_list sb \<equiv> lb_list (sb_ring sb)"

lemma read_ends_eq:
  assumes inv: "lb_inv k lb" and ne: "lb_list lb \<noteq> []"
  shows "\<exists>p. 0 \<le> p \<and> p < 2 ^ k \<and>
    read_ends j1 j2 (DataNum lb) lb = Some (hd (lb_list lb), last (lb_list lb), lb\<lparr>lb_pos := p\<rparr>)"
proof -
  have n: "0 < DataNum lb" using ne DataNum_bounds [OF inv] by (simp add: lb_list_def)
  let ?a = "lb\<lparr>lb_pos := (lb_tail lb + 0) mod 2 ^ k\<rparr>"
  let ?b = "lb\<lparr>lb_pos := (lb_tail lb + (0 + 1)) mod 2 ^ k\<rparr>"
  let ?c = "lb\<lparr>lb_pos := (lb_tail lb + (DataNum lb - 1)) mod 2 ^ k\<rparr>"
  let ?d = "lb\<lparr>lb_pos := (lb_tail lb + (DataNum lb - 1 + 1)) mod 2 ^ k\<rparr>"
  have a: "lb_inv k ?a" and b: "lb_inv k ?b" and c: "lb_inv k ?c" using inv by (auto intro!: lb_inv_pos)
  have dn: "DataNum (lb\<lparr>lb_pos := p\<rparr>) = DataNum lb" for p by (simp add: DataNum_def Let_def)
  have read: "Read j lc = Some (0, v, ld)" if "lb_next j lc = Some (Some v, ld)" for j v and lc ld :: "'a loopbuf"
    using that by (auto simp: lb_next_def split: option.splits prod.splits if_splits)
  have r1: "Read j1 ?a = Some (0, lb_list lb ! 0, ?b)"
    by (rule read) (use lb_next_at [OF a, of 0 j1] n dn in \<open>simp add: lb_list_pos\<close>)
  have r2: "Read j2 ?c = Some (0, lb_list lb ! nat (DataNum lb - 1), ?d)"
    by (rule read) (use lb_next_at [OF c, of "DataNum lb - 1" j2] n dn in \<open>simp add: lb_list_pos\<close>)
  have "Seek 0 lb = ?a" using Seek_pos [OF inv, of 0] n by simp
  moreover have "Seek (DataNum lb - 1) ?b = ?c"
    using Seek_pos [OF b, of "DataNum lb - 1"] n dn by simp
  moreover have "lb_list lb ! 0 = hd (lb_list lb)" using ne by (simp add: hd_conv_nth)
  moreover have "lb_list lb ! nat (DataNum lb - 1) = last (lb_list lb)"
    using ne n by (simp add: last_conv_nth length_lb_list nat_diff_distrib)
  ultimately show ?thesis using r1 r2 by (intro exI [of _ "lb_pos ?d"]) (simp add: read_ends_def)
qed

lemma lb_cap_Suc: "lb_inv k lb \<Longrightarrow> Suc (lb_cap lb) = 2 ^ k"
  using lb_inv_cap [of k lb]
  by (metis of_nat_Suc of_nat_eq_iff of_nat_power of_nat_numeral diff_add_cancel add.commute)

text \<open>Pushing a prepared scratch array into an emptied ring.\<close>

lemma push_tmp_empty:
  assumes "lb_inv k lb" "lb_list lb = []" "nat num \<le> length tmp" "take (nat num) tmp = ys"
    "length ys \<le> Suc (lb_cap lb)"
  shows "\<exists>lc. push_tmp num tmp lb = Some lc \<and> lb_inv k lc \<and> lb_cap lc = lb_cap lb \<and>
    lb_list lc = (if length ys \<le> lb_cap lb then ys else tl ys) \<and>
    GetTrash lc = (if length ys \<le> lb_cap lb then GetTrash lb else hd ys)"
proof -
  obtain lc where lc: "push_list Push ys lb = Some lc" "lb_inv k lc" "lb_cap lc = lb_cap lb"
    "lb_list lc = drop (length ys - lb_cap lb) ys"
    "GetTrash lc = (if length ys \<le> lb_cap lb then GetTrash lb else ys ! (length ys - lb_cap lb - 1))"
    using push_list_trash [OF assms(1), of ys] assms(2) by auto
  moreover have "num \<le> int (length tmp)" using assms(3) by simp
  then have "push_tmp num tmp lb = push_list Push ys lb" by (simp add: push_tmp_list assms(4))
  moreover have "length ys - lb_cap lb = 1" if "\<not> length ys \<le> lb_cap lb" using that assms(5) by simp
  moreover have "ys \<noteq> []" if "\<not> length ys \<le> lb_cap lb" using that by auto
  ultimately show ?thesis by (auto simp: hd_conv_nth drop_Suc)
qed

context keyed_cmp
begin

lemma insert_mid_eq:
  fixes x :: 'a
  assumes inv: "lb_inv k lb" and tmp: "length tmp = 2 ^ k"
    and num: "num = DataNum lb" and srt: "key_sorted key (lb_list lb)"
  defines "ys \<equiv> if \<exists>y\<in>set (lb_list lb). key y = key x then lb_list lb else insort_key key x (lb_list lb)"
  shows "\<exists>tmp' lc. insert_mid cmp x num tmp lb =
      Some (if length ys \<le> lb_cap lb then 0 else 1, int (length ys), tmp', lc) \<and>
    length tmp' = 2 ^ k \<and> take (length ys) tmp' = ys \<and> length ys \<le> Suc (lb_cap lb) \<and>
    lb_inv k lc \<and> lb_list lc = [] \<and> lb_cap lc = lb_cap lb \<and> GetTrash lc = GetTrash lb"
proof -
  let ?xs = "lb_list lb" and ?n = "length (lb_list lb)"
  have n: "nat num = ?n" "int ?n = num" using DataNum_bounds [OF inv] by (simp_all add: num length_lb_list)
  have cap: "?n \<le> lb_cap lb" by (rule lb_list_length_cap [OF inv])
  note capk = lb_cap_Suc [OF inv]
  have nlt: "?n < length tmp" using cap capk tmp by simp
  obtain lc where lc: "pop_all 0 tmp lb = Some (?xs @ drop ?n tmp, lc)" "lb_inv k lc"
    "lb_list lc = []" "lb_cap lc = lb_cap lb" "lb_size lc = lb_size lb" "lb_trash lc = lb_trash lb"
    using pop_all_all [OF inv, of 0 tmp] nlt by auto
  show ?thesis
  proof (cases "\<exists>y\<in>set ?xs. key y = key x")
    case True
    have len: "length (?xs @ drop ?n tmp) = 2 ^ k" using nlt tmp by simp
    then show ?thesis using True lc bsearch_iff [OF srt, of x] n cap
      by (simp add: insert_mid_def ys_def GetTrash_def)
  next
    case False
    define t where "t = (?xs @ drop ?n tmp)[?n := x]"
    have t: "t = ?xs @ x # drop (Suc ?n) tmp" using nlt
      by (simp add: t_def list_update_append Cons_nth_drop_Suc [symmetric])
    have t_set: "aset (?xs @ drop ?n tmp) num x = Some t" using n nlt by (simp add: aset_Some t_def)
    have sz: "lb_size lc = int (lb_cap lb)" using lc(2,4) lb_inv_cap [OF lc(2)] by (simp add: lb_inv_def)
    have q: "qsort cmp (take (nat (num + 1)) t) = insort_key key x ?xs"
      using qsort_snoc [OF srt, of x] False n by (simp add: t nat_add_distrib)
    have len: "length (insort_key key x ?xs @ drop (Suc ?n) tmp) = 2 ^ k" using nlt tmp by simp
    have "insert_mid cmp x num tmp lb =
      Some (if num + 1 > lb_size lc then 1 else 0, num + 1, insort_key key x ?xs @ drop (Suc ?n) tmp, lc)"
      using False lc(1) bsearch_iff [OF srt, of x] n t_set q
      by (simp add: insert_mid_def Let_def nat_add_distrib t)
    then show ?thesis using False lc n cap len sz by (auto simp: ys_def GetTrash_def)
  qed
qed

lemma insort_key_last:
  assumes "\<forall>y\<in>set xs. key y < key x"
  shows "insort_key key x xs = xs @ [x]"
  using assms by (induction xs) auto

lemma insort_key_first:
  assumes "\<forall>y\<in>set xs. key x < key y"
  shows "insort_key key x xs = x # xs"
  using assms by (cases xs) auto

lemma key_sorted_ends:
  assumes "key_sorted key xs" "y \<in> set xs"
  shows "key (hd xs) \<le> key y" "key y \<le> key (last xs)"
proof -
  obtain i where i: "y = xs ! i" "i < length xs" using assms(2) by (auto simp: in_set_conv_nth)
  then have "xs \<noteq> []" by auto
  moreover have "i < j \<Longrightarrow> j < length xs \<Longrightarrow> key (xs ! i) < key (xs ! j)" for i j
    using assms(1) sorted_wrt_nth_less [of "\<lambda>x y. key x < key y" xs i j] by (simp add: key_sorted_def)
  ultimately show "key (hd xs) \<le> key y" "key y \<le> key (last xs)" using i
    by (cases "i = 0", simp_all add: hd_conv_nth less_imp_le)
      (cases "i = length xs - 1", simp_all add: last_conv_nth less_imp_le)
qed

text \<open>The branch for data below the minimum: the scratch array starts with the new element.\<close>

lemma insert_low_eq:
  assumes inv: "lb_inv k lb" and tmp: "length tmp = 2 ^ k" and ne: "lb_list lb \<noteq> []"
  shows "\<exists>t1 t2 lc. aset tmp 0 x = Some t1 \<and> pop_all 1 t1 lb = Some (t2, lc) \<and>
    length t2 = 2 ^ k \<and> take (Suc (length (lb_list lb))) t2 = x # lb_list lb \<and>
    lb_inv k lc \<and> lb_list lc = [] \<and> lb_cap lc = lb_cap lb \<and> lb_size lc = lb_size lb \<and>
    lb_trash lc = lb_trash lb"
proof -
  let ?n = "length (lb_list lb)"
  note capk = lb_cap_Suc [OF inv]
  then have le: "Suc ?n \<le> length tmp" using lb_list_length_cap [OF inv] tmp by simp
  then obtain y ys where tl: "tmp = y # ys" by (cases tmp) auto
  obtain lc where "pop_all 1 (x # ys) lb =
      Some (take (nat 1) (x # ys) @ lb_list lb @ drop (nat 1 + ?n) (x # ys), lc)"
    "lb_inv k lc \<and> lb_list lc = [] \<and> lb_cap lc = lb_cap lb \<and> lb_size lc = lb_size lb \<and>
     lb_trash lc = lb_trash lb"
    using pop_all_all [OF inv, of 1 "x # ys"] le tl by auto
  then show ?thesis using tl le tmp by (auto simp: aset_def)
qed

lemma Insert_spec:
  assumes inv: "sb_inv k sb" and srt: "key_sorted key (sb_list sb)"
  shows "\<exists>r sc. Insert cmp x sb = Some (r, sc) \<and> sb_inv k sc \<and> sb_cust sc = sb_cust sb \<and>
    lb_cap (sb_ring sc) = lb_cap (sb_ring sb) \<and>
    (r, sb_list sc) = ins_spec (lb_cap (sb_ring sb)) key x (sb_list sb) \<and>
    (r = 1 \<longrightarrow> GetTrash (sb_ring sc) =
      (if key x < key (hd (sb_list sb)) then last (sb_list sb) else hd (sb_list sb)))"
proof -
  let ?lb = "sb_ring sb" and ?xs = "sb_list sb" and ?cap = "lb_cap (sb_ring sb)"
  have lb: "lb_inv k ?lb" and k: "0 < k" and tmp: "length (sb_tmp sb) = 2 ^ k"
    using inv by (simp_all add: sb_inv_def)
  have "(2 :: int) \<le> 2 ^ k" using k power_increasing [of 1 k "2 :: int"] by simp
  then have cap: "0 < ?cap" using lb_inv_cap [OF lb] by simp
  have size: "lb_size ?lb = int ?cap" using lb_inv_cap [OF lb] lb by (simp add: lb_inv_def)
  have num: "DataNum ?lb = int (length ?xs)" using DataNum_bounds [OF lb] by (simp add: length_lb_list)
  show ?thesis
  proof (cases "?xs = []")
    case True
    obtain r lc where "Push x ?lb = Some (r, lc)" "lb_inv k lc" "lb_cap lc = ?cap"
      "(r, lb_list lc) = bq_push ?cap x ?xs"
      by (rule Push_spec [OF lb, of x]) blast
    then show ?thesis using True num cap inv
      by (auto simp: Insert_def Let_def bq_push_def ins_spec_def sb_inv_def)
  next
    case False
    obtain p where p: "0 \<le> p" "p < 2 ^ k" and ends: "read_ends x x (DataNum ?lb) ?lb =
      Some (hd ?xs, last ?xs, ?lb\<lparr>lb_pos := p\<rparr>)"
      using read_ends_eq [OF lb False, of x x] by blast
    let ?pl = "?lb\<lparr>lb_pos := p\<rparr>"
    have pl: "lb_inv k ?pl" "lb_list ?pl = ?xs" "lb_cap ?pl = ?cap" "lb_size ?pl = lb_size ?lb"
      using p lb by (simp_all add: lb_inv_pos lb_list_pos lb_cap_def)
    consider (high) "key (last ?xs) < key x" | (low) "key x < key (hd ?xs)" "\<not> key (last ?xs) < key x"
      | (mid) "\<not> key x < key (hd ?xs)" "\<not> key (last ?xs) < key x" by blast
    then show ?thesis
    proof cases
      case high
      then have above: "\<forall>y\<in>set ?xs. key y < key x" using key_sorted_ends [OF srt] by fastforce
      obtain r lc where push: "Push x ?pl = Some (r, lc)" "lb_inv k lc" "lb_cap lc = ?cap"
        "(r, lb_list lc) = bq_push ?cap x ?xs" "r = 1 \<Longrightarrow> GetTrash lc = hd (?xs @ [x])"
        by (rule Push_spec [OF pl(1), of x]) (metis pl(2,3))
      have "\<not> key x < key (hd ?xs)" using above False by (auto dest: bspec [of _ _ "hd ?xs"])
      moreover have "\<not> (\<exists>y\<in>set ?xs. key y = key x)" using above by auto
      ultimately have "(r, lb_list lc) = ins_spec ?cap key x ?xs"
        using push(4) by (simp add: bq_push_def ins_spec_def Let_def insort_key_last [OF above])
      then show ?thesis using push ends high num False inv \<open>\<not> key x < key (hd ?xs)\<close>
        by (auto simp: Insert_def Let_def pos sb_inv_def)
    next
      case low
      then have below: "\<forall>y\<in>set ?xs. key x < key y" using key_sorted_ends [OF srt] by fastforce
      then have new: "\<not> (\<exists>y\<in>set ?xs. key y = key x)" by auto
      obtain t1 t2 lc where low_run: "aset (sb_tmp sb) 0 x = Some t1" "pop_all 1 t1 ?pl = Some (t2, lc)"
        "length t2 = 2 ^ k" "take (Suc (length ?xs)) t2 = x # ?xs" "lb_inv k lc" "lb_list lc = []"
        "lb_cap lc = ?cap" "lb_size lc = int ?cap" "lb_trash lc = lb_trash ?pl"
        using insert_low_eq [OF pl(1) tmp, of x] False pl size by auto
      have le: "length ?xs \<le> ?cap" by (rule lb_list_length_cap [OF lb])
      show ?thesis
      proof (cases "length ?xs < ?cap")
        case True
        obtain ld where "push_tmp (int (length ?xs) + 1) t2 lc = Some ld" "lb_inv k ld"
          "lb_cap ld = ?cap" "lb_list ld = x # ?xs"
          using push_tmp_empty [OF low_run(5,6), of "int (length ?xs) + 1" t2 "x # ?xs"] low_run True
            lb_cap_Suc [OF lb] by (auto simp: nat_add_distrib)
        then show ?thesis
          using ends low num False inv low_run new True
          by (auto simp: Insert_def Let_def pos neg sb_inv_def ins_spec_def insort_key_first [OF below])
      next
        case full: False
        have t: "take (length ?xs) t2 = x # butlast ?xs"
          using arg_cong [OF low_run(4), of "take (length ?xs)"] False
          by (cases ?xs) (auto simp: butlast_conv_take)
        have len: "length ?xs = ?cap" using full le by simp
        have "t2 ! ?cap = (x # ?xs) ! ?cap"
          using arg_cong [OF low_run(4), of "\<lambda>ys. ys ! ?cap"] len by simp
        also have "\<dots> = last ?xs" using False len by (cases ?cap) (auto simp: last_conv_nth)
        finally have last: "aget t2 (int ?cap) = Some (last ?xs)"
          using low_run(3) lb_cap_Suc [OF lb] by (simp add: aget_def)
        let ?lc = "lc\<lparr>lb_trash := last ?xs\<rparr>"
        have lc: "lb_inv k ?lc" "lb_list ?lc = []" using low_run by (simp_all add: lb_inv_trash lb_list_trash)
        have "\<exists>ld. push_tmp (int (length ?xs)) t2 ?lc = Some ld \<and> lb_inv k ld \<and> lb_cap ld = lb_cap ?lc \<and>
          lb_list ld = (if length (x # butlast ?xs) \<le> lb_cap ?lc then x # butlast ?xs else tl (x # butlast ?xs)) \<and>
          GetTrash ld = (if length (x # butlast ?xs) \<le> lb_cap ?lc then GetTrash ?lc else hd (x # butlast ?xs))"
          using low_run len lb_cap_Suc [OF lb] t cap by (intro push_tmp_empty [OF lc]) auto
        then obtain ld where "push_tmp (int (length ?xs)) t2 ?lc = Some ld" "lb_inv k ld"
          "lb_cap ld = ?cap" "lb_list ld = x # butlast ?xs" "GetTrash ld = last ?xs"
          using len low_run(7) cap by (auto simp: GetTrash_def)
        then show ?thesis
          using ends low num False inv low_run new len last
          by (auto simp: Insert_def Let_def pos neg sb_inv_def ins_spec_def insort_key_first [OF below])
      qed
    next
      case mid
      have dn: "DataNum ?lb = DataNum ?pl" by (simp add: DataNum_def Let_def)
      define ys where "ys = (if \<exists>y\<in>set ?xs. key y = key x then ?xs else insort_key key x ?xs)"
      obtain t lc where m: "insert_mid cmp x (DataNum ?lb) (sb_tmp sb) ?pl =
          Some (if length ys \<le> ?cap then 0 else 1, int (length ys), t, lc)"
        "length t = 2 ^ k" "take (length ys) t = ys" "length ys \<le> Suc ?cap" "lb_inv k lc"
        "lb_list lc = []" "lb_cap lc = ?cap" "GetTrash lc = GetTrash ?pl"
        using insert_mid_eq [OF pl(1) tmp dn, of x, unfolded pl(2,3), OF srt, folded ys_def] by blast
      obtain ld where ld: "push_tmp (int (length ys)) t lc = Some ld" "lb_inv k ld" "lb_cap ld = ?cap"
        "lb_list ld = (if length ys \<le> ?cap then ys else tl ys)"
        "GetTrash ld = (if length ys \<le> ?cap then GetTrash lc else hd ys)"
        using push_tmp_empty [OF m(5,6), of "int (length ys)" t ys] m lb_cap_Suc [OF lb] by auto
      have le: "length ?xs \<le> ?cap" by (rule lb_list_length_cap [OF lb])
      have hd: "hd (insort_key key x ?xs) = hd ?xs" if "\<not> (\<exists>y\<in>set ?xs. key y = key x)"
        using that mid(1) False by (cases ?xs) auto
      have "(if length ys \<le> ?cap then 0 else 1, lb_list ld) = ins_spec ?cap key x ?xs"
        using mid(1) le by (auto simp: ld(4) ins_spec_def Let_def ys_def)
      moreover have "\<not> length ys \<le> ?cap \<Longrightarrow> GetTrash ld = hd ?xs"
        using ld(5) hd le by (auto simp: ys_def split: if_splits)
      ultimately show ?thesis
        using ends mid num False inv m ld
        by (auto simp: Insert_def Let_def pos neg sb_inv_def)
    qed
  qed
qed

section \<open>Lookup\<close>

text \<open>\<open>first_ge\<close> is the index of the first stored element that is not below \<open>x\<close>.\<close>

lemma first_ge_bound:
  assumes "key_sorted key xs" "\<forall>i < m. key (xs ! i) < key x" "m \<le> length xs"
    "m < length xs \<Longrightarrow> key x \<le> key (xs ! m)"
  shows "length (takeWhile (\<lambda>y. key y < key x) xs) = m"
proof -
  have "takeWhile (\<lambda>y. key y < key x) xs = take m xs"
  proof (cases "m < length xs")
    case True
    then show ?thesis using assms(2,4) by (intro takeWhile_eq_take_P_nth) (auto simp: not_less)
  next
    case False
    then have "\<forall>y\<in>set xs. key y < key x" using assms(2,3) by (auto simp: in_set_conv_nth)
    then show ?thesis using False by simp
  qed
  then show ?thesis using assms(3) by simp
qed

lemma match_scan_eq:
  fixes x :: 'a
  assumes "lb_inv k lb" "key_sorted key (lb_list lb)" "lb_pos lb = (lb_tail lb + i) mod 2 ^ k"
    "0 \<le> i" "i < DataNum lb" "\<forall>l < nat i. key (lb_list lb ! l) < key x"
    "key x \<le> key (last (lb_list lb))"
  defines "m \<equiv> length (takeWhile (\<lambda>y. key y < key x) (lb_list lb))"
  shows "\<exists>lc. match_scan cmp x type i (DataNum lb) j lb =
    Some (if key (lb_list lb ! m) = key x then int m
          else if type = 0 then -1 else if type > 0 then int m - 1 else int m, lc)"
  using assms(1-7) unfolding m_def
proof (induction "nat (DataNum lb - i)" arbitrary: i j lb)
  case 0
  then show ?case by simp
next
  case (Suc n)
  let ?xs = "lb_list lb" and ?lc = "lb\<lparr>lb_pos := (lb_tail lb + (i + 1)) mod 2 ^ k\<rparr>"
  have "lb_next j lb = Some (Some (?xs ! nat i), ?lc)"
    by (rule lb_next_at [OF Suc.prems(1,3,4,5)])
  then have read: "Read j lb = Some (0, ?xs ! nat i, ?lc)"
    by (auto simp: lb_next_def split: option.splits prod.splits if_splits)
  have i: "nat i < length ?xs" "int (nat i) = i" using Suc.prems by (simp_all add: length_lb_list)
  show ?case
  proof (cases "key (?xs ! nat i) < key x")
    case False
    then have "length (takeWhile (\<lambda>y. key y < key x) ?xs) = nat i"
      using Suc.prems i by (intro first_ge_bound) auto
    then show ?thesis using False read Suc.prems(5) i
      by (auto simp: match_scan.simps [of cmp x type i _ j lb] zero pos not_less_iff_gr_or_eq)
  next
    case True
    have dn: "DataNum ?lc = DataNum lb" by (simp add: DataNum_def Let_def)
    have "i + 1 < DataNum lb"
    proof (rule ccontr)
      assume "\<not> i + 1 < DataNum lb"
      then have "nat i = length ?xs - 1" using Suc.prems by (simp add: length_lb_list nat_diff_distrib)
      then show False using True Suc.prems(7) i by (metis last_conv_nth length_greater_0_conv not_less less_nat_zero_code list.size(3) gr_zeroI)
    qed
    moreover have "\<forall>l < nat (i + 1). key (lb_list ?lc ! l) < key x"
      using Suc.prems(4,6) True by (auto simp: lb_list_pos nat_add_distrib less_Suc_eq)
    ultimately have IH: "\<exists>ld. match_scan cmp x type (i + 1) (DataNum ?lc) (?xs ! nat i) ?lc =
      Some (if key (lb_list ?lc ! length (takeWhile (\<lambda>y. key y < key x) (lb_list ?lc))) = key x
            then int (length (takeWhile (\<lambda>y. key y < key x) (lb_list ?lc)))
            else if type = 0 then -1
            else if type > 0 then int (length (takeWhile (\<lambda>y. key y < key x) (lb_list ?lc))) - 1
            else int (length (takeWhile (\<lambda>y. key y < key x) (lb_list ?lc))), ld)"
      using Suc.prems Suc.hyps(2) dn by (intro Suc.hyps(1)) (auto simp: lb_list_pos intro!: lb_inv_pos)
    have "match_scan cmp x type i (DataNum lb) j lb = match_scan cmp x type (i + 1) (DataNum lb) (?xs ! nat i) ?lc"
      using True read Suc.prems(5) by (subst match_scan.simps) (auto simp: zero pos)
    then show ?thesis using IH by (simp only: dn lb_list_pos)
  qed
qed

lemma Match_spec:
  fixes x :: 'a
  assumes inv: "lb_inv k lb" and srt: "key_sorted key (lb_list lb)" and ne: "lb_list lb \<noteq> []"
  defines "m \<equiv> length (takeWhile (\<lambda>y. key y < key x) (lb_list lb))"
  shows "\<exists>lc. Match cmp j1 j2 j3 x type lb = Some
    (if m = length (lb_list lb) then (if type > 0 then 0 else -1)
     else if key (lb_list lb ! m) = key x then int m
     else if type = 0 then -1 else if type > 0 then int m - 1 else int m, lc)"
proof -
  let ?xs = "lb_list lb"
  obtain p where p: "0 \<le> p" "p < 2 ^ k"
    "read_ends j1 j2 (DataNum lb) lb = Some (hd ?xs, last ?xs, lb\<lparr>lb_pos := p\<rparr>)"
    using read_ends_eq [OF inv ne, of j1 j2] by blast
  let ?pl = "lb\<lparr>lb_pos := p\<rparr>"
  have pl: "lb_inv k ?pl" "lb_list ?pl = ?xs" "DataNum ?pl = DataNum lb"
    using p inv by (simp_all add: lb_inv_pos lb_list_pos DataNum_def Let_def)
  have n: "0 < DataNum lb" using ne DataNum_bounds [OF inv] by (simp add: lb_list_def)
  note ends = key_sorted_ends [OF srt]
  consider (low) "key x < key (hd ?xs)" | (high) "key (last ?xs) < key x" "\<not> key x < key (hd ?xs)"
    | (mid) "\<not> key x < key (hd ?xs)" "\<not> key (last ?xs) < key x" by blast
  then show ?thesis
  proof cases
    case low
    then have "m = 0" using ne unfolding m_def by (cases ?xs) auto
    moreover have "?xs ! 0 = hd ?xs" using ne by (simp add: hd_conv_nth)
    ultimately show ?thesis using low p(3) ne by (auto simp: Match_def neg Let_def)
  next
    case high
    then have "\<forall>y\<in>set ?xs. key y < key x" using ends by fastforce
    then have "takeWhile (\<lambda>y. key y < key x) ?xs = ?xs" by (simp only: takeWhile_eq_all_conv)
    then have "m = length ?xs" by (simp only: m_def)
    then show ?thesis using high p(3) by (auto simp: Match_def neg pos Let_def)
  next
    case mid
    have "m < length ?xs"
      using mid(2) ne unfolding m_def
      by (metis last_in_set length_takeWhile_le nat_less_le takeWhile_eq_all_conv append_eq_conv_conj takeWhile_dropWhile_id take_all_iff order_refl)
    let ?ql = "?pl\<lparr>lb_pos := (lb_tail ?pl + 0) mod 2 ^ k\<rparr>"
    have q: "Seek 0 ?pl = ?ql" using Seek_pos [OF pl(1), of 0] n pl(3) by simp
    have ql: "lb_inv k ?ql" "lb_list ?ql = ?xs" "DataNum ?ql = DataNum lb"
      using inv by (auto simp: lb_list_pos DataNum_def Let_def intro!: lb_inv_pos)
    have "\<exists>lc. match_scan cmp x type 0 (DataNum ?ql) j3 ?ql =
      Some (if key (?xs ! m) = key x then int m
            else if type = 0 then -1 else if type > 0 then int m - 1 else int m, lc)"
      unfolding m_def
      by (rule match_scan_eq [OF ql(1), where i = 0 and x = x and type = type and j = j3, unfolded ql(2)])
        (use srt n ql(3) mid(2) in \<open>auto simp: not_less\<close>)
    then obtain lc where "match_scan cmp x type 0 (DataNum ?ql) j3 ?ql =
      Some (if key (?xs ! m) = key x then int m
            else if type = 0 then -1 else if type > 0 then int m - 1 else int m, lc)" by blast
    then show ?thesis using mid p(3) q ql \<open>m < length ?xs\<close>
      by (auto simp: Match_def neg pos Let_def)
  qed
qed

end

lemma key_sorted_insort:
  assumes "key_sorted key xs" "\<forall>y\<in>set xs. key y \<noteq> key x"
  shows "key_sorted key (insort_key key x xs)"
  using assms
  by (induction xs) (auto simp: key_sorted_def set_insort_key)

lemma key_sorted_sub:
  assumes "key_sorted key xs" shows "key_sorted key (tl xs)" "key_sorted key (butlast xs)"
  using assms by (cases xs; simp add: key_sorted_def butlast_conv_take sorted_wrt_take)+

lemma ins_spec_sorted:
  assumes "key_sorted key xs" "length xs \<le> cap"
  shows "key_sorted key (snd (ins_spec cap key x xs)) \<and> length (snd (ins_spec cap key x xs)) \<le> cap \<and>
    set (snd (ins_spec cap key x xs)) \<subseteq> insert x (set xs)"
proof (cases "\<exists>y\<in>set xs. key y = key x")
  case True
  then show ?thesis using assms by (auto simp: ins_spec_def)
next
  case False
  then have "key_sorted key (insort_key key x xs)" using assms(1) by (intro key_sorted_insort) auto
  moreover have "set (tl ys) \<subseteq> set ys" "set (butlast ys) \<subseteq> set ys" for ys :: "'a list"
    by (auto dest: in_set_butlastD) (cases ys; simp)
  from this [of "insort_key key x xs"] have "set (tl (insort_key key x xs)) \<subseteq> insert x (set xs)"
    "set (butlast (insort_key key x xs)) \<subseteq> insert x (set xs)"
    by (simp_all only: set_insort_key)
  ultimately show ?thesis using False assms(2)
    by (auto simp: ins_spec_def Let_def key_sorted_sub set_insort_key)
qed

section \<open>Sequences of insertions, and the save file\<close>

fun insert_all :: "('a \<Rightarrow> 'a \<Rightarrow> int) \<Rightarrow> 'a list \<Rightarrow> 'a sortbuf \<Rightarrow> 'a sortbuf option" where
  "insert_all cmp [] sb = Some sb"
| "insert_all cmp (x # xs) sb =
     (case Insert cmp x sb of None \<Rightarrow> None | Some (r, sb) \<Rightarrow> insert_all cmp xs sb)"

lemma sb_inv_new:
  assumes "0 < sz"
  shows "\<exists>k. sb_inv k (new_sortbuf junk cust sz) \<and> sb_list (new_sortbuf junk cust sz) = [] \<and>
    lb_cap (sb_ring (new_sortbuf junk cust sz)) = nat (base_mask sz)"
proof -
  obtain i where i: "base_mask sz = 2 ^ Suc i - 1" using base_mask_pow [OF assms] by blast
  note new = lb_inv_new [OF this, where junk = junk]
  have "nat (2 * 2 ^ i) = 2 * 2 ^ i" by (simp add: nat_mult_distrib nat_power_eq)
  then show ?thesis using new lb_cap_new [of junk sz]
    by (intro exI [of _ "Suc i"]) (simp add: new_sortbuf_def Let_def sb_inv_def new_loopbuf_def i)
qed

context keyed_cmp
begin

lemma insert_all_sorted:
  assumes "sb_inv k sb" "key_sorted key (sb_list sb)"
  shows "\<exists>sc. insert_all cmp xs sb = Some sc \<and> sb_inv k sc \<and> key_sorted key (sb_list sc) \<and>
    lb_cap (sb_ring sc) = lb_cap (sb_ring sb) \<and> set (sb_list sc) \<subseteq> set (sb_list sb) \<union> set xs"
  using assms
proof (induction xs arbitrary: sb)
  case Nil
  then show ?case by simp
next
  case (Cons x xs)
  obtain r sc where sc: "Insert cmp x sb = Some (r, sc)" "sb_inv k sc"
    "lb_cap (sb_ring sc) = lb_cap (sb_ring sb)"
    "(r, sb_list sc) = ins_spec (lb_cap (sb_ring sb)) key x (sb_list sb)"
    using Insert_spec [OF Cons.prems] by blast
  have "length (sb_list sb) \<le> lb_cap (sb_ring sb)"
    using Cons.prems(1) lb_list_length_cap by (auto simp: sb_inv_def)
  from ins_spec_sorted [OF Cons.prems(2) this, of x]
  have "key_sorted key (sb_list sc)" "set (sb_list sc) \<subseteq> insert x (set (sb_list sb))"
    using sc(4) by (metis snd_conv)+
  then show ?case using Cons.IH [of sc] sc by auto
qed

end

lemma base_mask_id:
  assumes "0 < k" "k \<le> 17" shows "base_mask (2 ^ k - 1) = 2 ^ k - 1"
proof -
  have "(2 :: int) ^ 1 \<le> 2 ^ k" using assms(1) by (intro power_increasing) auto
  then obtain i where i: "i \<le> 16" "base_mask (2 ^ k - 1) = 2 ^ Suc i - 1"
    "(2 :: int) ^ i - 1 < 2 ^ k - 1" "i < 16 \<Longrightarrow> 2 ^ k - 1 \<le> (2 :: int) ^ Suc i - 1"
    using base_mask_pow [of "2 ^ k - 1"] by auto
  have "i < k" using i(3) by simp
  moreover have "k \<le> Suc i"
  proof (cases "i = 16")
    case True
    then show ?thesis using assms(2) by simp
  next
    case False
    then have "(2 :: int) ^ k \<le> 2 ^ Suc i" using i(1,4) by simp
    then show ?thesis by (metis one_less_numeral_iff power_increasing_iff semiring_norm(76))
  qed
  ultimately have "k = Suc i" by simp
  then show ?thesis using i(2) by simp
qed

lemma SaveFile_eq:
  assumes "sb_inv k sb"
  shows "SaveFile can True (2 ^ k) (Some old) sb =
    Some (0, \<lparr>rf_head = Some (lb_size (sb_ring sb), lb_head (sb_ring sb), lb_tail (sb_ring sb), sb_cust sb),
              rf_cells = lb_buffer (sb_ring sb) @ drop (2 ^ k) (rf_cells old)\<rparr>)"
  using assms by (simp add: SaveFile_def sb_inv_def lb_inv_def aslice_Some nat_power_eq Let_def)

lemma LoadFile_eq:
  assumes "0 < k" "k \<le> 17" "length b = 2 ^ k"
  shows "LoadFile junk (Some \<lparr>rf_head = Some (2 ^ k - 1, h, t, c), rf_cells = b @ rest\<rparr>) sb =
    Some (0, sb\<lparr>sb_cust := c, sb_ring := (sb_ring sb)\<lparr>lb_size := 2 ^ k - 1, lb_head := h, lb_tail := t, lb_buffer := b\<rparr>,
                sb_tmp := map junk [0..<2 ^ k]\<rparr>)"
proof -
  have "(2 :: int) ^ 1 \<le> 2 ^ k" using assms(1) by (intro power_increasing) auto
  then have "0 < (2 :: int) ^ k - 1" by simp
  then show ?thesis using assms(3)
    by (simp add: LoadFile_def base_mask_id [OF assms(1,2)] Let_def blit_Some nat_power_eq)
qed

section \<open>Properties\<close>

text \<open>
  Inserting a date into a sorted buffer of dates: nothing happens when the date is there;
  otherwise it goes to its place, and when the buffer is full the smallest date is dropped,
  except that a date below the minimum drops the largest one.  The result is 1 exactly when a
  date was dropped, and that date is then in \<open>trash_\<close>.
\<close>

lemma insert_date:
  assumes "sb_inv k sb" "key_sorted (\<lambda>a. a) (sb_list sb)"
  shows "\<exists>r sc. Insert CompareInt x sb = Some (r, sc) \<and> sb_inv k sc \<and>
    (r, sb_list sc) = ins_spec (lb_cap (sb_ring sb)) (\<lambda>a. a) x (sb_list sb) \<and>
    (r = 1 \<longrightarrow> GetTrash (sb_ring sc) =
      (if x < hd (sb_list sb) then last (sb_list sb) else hd (sb_list sb)))"
  using dates.Insert_spec [OF assms, of x] by blast

definition example_dates :: "int sortbuf" where
  "example_dates = \<lparr>sb_ring = example_ring, sb_tmp = [7, 7, 7, 7], sb_cust = [0, 0, 0, 0]\<rparr>"

lemma example_dates_inv: "sb_inv 2 example_dates" "sb_list example_dates = [10, 20, 30]"
    "lb_cap (sb_ring example_dates) = 3"
  using lb_inv_example_ring by (simp_all add: sb_inv_def example_dates_def)
    (simp add: lb_cap_def example_ring_def)

lemma insert_date_example:
  "\<exists>r sc. Insert CompareInt 25 example_dates = Some (r, sc) \<and> sb_inv 2 sc \<and>
    (r, sb_list sc) = (1, [20, 25, 30]) \<and> (r = 1 \<longrightarrow> GetTrash (sb_ring sc) = 10)"
  using insert_date [of 2 example_dates 25]
  by (simp add: example_dates_inv key_sorted_def ins_spec_def)

text \<open>
  C31. Any sequence of insertions into a new buffer of dates succeeds without a memory error,
  and the buffer holds distinct dates, all of them inserted, in strictly ascending order and
  never more than its capacity.
\<close>

theorem inserts_stay_sorted:
  assumes "0 < sz"
  shows "\<exists>sb. insert_all CompareInt xs (new_sortbuf junk cust sz) = Some sb \<and>
    sorted_wrt (<) (sb_list sb) \<and> set (sb_list sb) \<subseteq> set xs \<and>
    length (sb_list sb) \<le> nat (base_mask sz)"
proof -
  obtain k where k: "sb_inv k (new_sortbuf junk cust sz)" "sb_list (new_sortbuf junk cust sz) = []"
    "lb_cap (sb_ring (new_sortbuf junk cust sz)) = nat (base_mask sz)"
    using sb_inv_new [OF assms] by blast
  then obtain sb where "insert_all CompareInt xs (new_sortbuf junk cust sz) = Some sb" "sb_inv k sb"
    "key_sorted (\<lambda>a. a) (sb_list sb)" "lb_cap (sb_ring sb) = nat (base_mask sz)"
    "set (sb_list sb) \<subseteq> set xs"
    using dates.insert_all_sorted [OF k(1), of xs] by (auto simp: key_sorted_def)
  then show ?thesis using lb_list_length_cap [of k "sb_ring sb"] by (auto simp: key_sorted_def sb_inv_def)
qed

theorem inserts_stay_sorted_witness:
  "\<exists>sb. insert_all CompareInt [3, 1, 2, 3] (new_sortbuf (\<lambda>_. 0) [0, 0, 0, 0] 62) = Some sb \<and>
    sorted_wrt (<) (sb_list sb) \<and> set (sb_list sb) \<subseteq> {1, 2, 3} \<and>
    length (sb_list sb) \<le> nat (base_mask 62)"
  using inserts_stay_sorted [of 62 "[3, 1, 2, 3]" "\<lambda>_. 0" "[0, 0, 0, 0]"]
  by (simp add: insert_commute)

text \<open>
  Lookup in a sorted buffer of dates, m being the number of dates below the one asked for:
  an exact match is m; without one, type -1 gives the first date above, type 0 gives -1 and a
  positive type the last date below.  For a date above the maximum the result is -1, and 0 for
  a positive type, although the last date would be the one below.
\<close>

lemma match_date:
  assumes "sb_inv k sb" "key_sorted (\<lambda>a. a) (sb_list sb)" "sb_list sb \<noteq> []"
  shows "\<exists>lc. Match CompareInt j1 j2 j3 x type (sb_ring sb) = Some
    (let xs = sb_list sb; m = length (takeWhile (\<lambda>y. y < x) xs) in
     if m = length xs then (if type > 0 then 0 else -1)
     else if xs ! m = x then int m
     else if type = 0 then -1 else if type > 0 then int m - 1 else int m, lc)"
  using dates.Match_spec [of k "sb_ring sb" j1 j2 j3 x type] assms by (simp add: sb_inv_def Let_def)

lemma match_date_example:
  "\<exists>lc. Match CompareInt 0 0 0 15 1 (sb_ring example_dates) = Some (0, lc)"
  using match_date [of 2 example_dates 0 0 0 15 1]
  by (simp add: example_dates_inv key_sorted_def)

text \<open>
  Saving a buffer of up to 131071 dates and loading the file into any other buffer gives
  back the stored dates, in order, and the custom words, also when the file was longer before.
\<close>

lemma save_load_roundtrip:
  assumes "sb_inv k sb" "k \<le> 17"
  shows "\<exists>f sc. SaveFile can True (2 ^ k) (Some old) sb = Some (0, f) \<and>
    LoadFile junk (Some f) sd = Some (0, sc) \<and>
    sb_list sc = sb_list sb \<and> sb_cust sc = sb_cust sb \<and> DataNum (sb_ring sc) = DataNum (sb_ring sb)"
proof -
  have k: "0 < k" and lb: "lb_inv k (sb_ring sb)" using assms(1) by (simp_all add: sb_inv_def)
  then have "lb_size (sb_ring sb) = 2 ^ k - 1" "length (lb_buffer (sb_ring sb)) = 2 ^ k"
    by (simp_all add: lb_inv_def)
  then show ?thesis using LoadFile_eq [OF k assms(2), of "lb_buffer (sb_ring sb)"]
    by (simp add: SaveFile_eq [OF assms(1)] lb_list_def lb_at_def DataNum_def Let_def)
qed

lemma save_load_roundtrip_example:
  "\<exists>f sc. SaveFile True True (2 ^ 2) (Some \<lparr>rf_head = None, rf_cells = [0]\<rparr>) example_dates = Some (0, f) \<and>
    LoadFile (\<lambda>_. 0) (Some f) (new_sortbuf (\<lambda>_. 5) [1, 2, 3, 4] 62) = Some (0, sc) \<and>
    sb_list sc = sb_list example_dates \<and> sb_cust sc = sb_cust example_dates \<and>
    DataNum (sb_ring sc) = DataNum (sb_ring example_dates)"
  by (rule save_load_roundtrip [OF example_dates_inv(1)]) simp

text \<open>
  \<open>InsertMax\<close> of a date below the minimum does not leave the buffer alone: it appends as
  many cells of the scratch array as there are stored dates, dropping the oldest elements
  beyond the capacity.
\<close>

lemma insert_max_below:
  assumes "sb_inv k sb" "key_sorted (\<lambda>a. a) (sb_list sb)" "sb_list sb \<noteq> []" "x < hd (sb_list sb)"
  shows "\<exists>sc. InsertMax CompareInt x sb = Some (0, sc) \<and>
    (let xs = sb_list sb; ys = xs @ take (length xs) (sb_tmp sb)
     in sb_list sc = drop (length ys - lb_cap (sb_ring sb)) ys)"
proof -
  let ?lb = "sb_ring sb" and ?xs = "sb_list sb"
  have lb: "lb_inv k ?lb" and tmp: "length (sb_tmp sb) = 2 ^ k" using assms(1) by (simp_all add: sb_inv_def)
  obtain p where p: "0 \<le> p" "p < 2 ^ k" and ends: "read_ends x x (DataNum ?lb) ?lb =
    Some (hd ?xs, last ?xs, ?lb\<lparr>lb_pos := p\<rparr>)"
    using read_ends_eq [OF lb assms(3), of x x] by blast
  have pl: "lb_inv k (?lb\<lparr>lb_pos := p\<rparr>)" "lb_list (?lb\<lparr>lb_pos := p\<rparr>) = ?xs"
    using lb_inv_pos [OF lb p] by (simp_all add: lb_list_pos)
  have cap: "lb_cap (?lb\<lparr>lb_pos := p\<rparr>) = lb_cap ?lb" by (simp add: lb_cap_def)
  have num: "DataNum ?lb = int (length ?xs)" using DataNum_bounds [OF lb] by (simp add: length_lb_list)
  have fits: "length ?xs \<le> length (sb_tmp sb)"
    using lb_list_length_cap [OF lb] lb_cap_Suc [OF lb] tmp by simp
  have "x < last ?xs" using dates.key_sorted_ends(1) [OF assms(2) last_in_set [OF assms(3)]] assms(4) by simp
  moreover obtain lc where "push_list Push (take (length ?xs) (sb_tmp sb)) (?lb\<lparr>lb_pos := p\<rparr>) = Some lc"
    "lb_list lc = drop (length (?xs @ take (length ?xs) (sb_tmp sb)) - lb_cap ?lb)
      (?xs @ take (length ?xs) (sb_tmp sb))"
    using push_list_trash [OF pl(1), of "take (length ?xs) (sb_tmp sb)"] unfolding pl(2) cap by blast
  ultimately show ?thesis using assms(3,4) ends num fits
    by (simp add: InsertMax_def Let_def CompareInt_def push_tmp_list)
qed

lemma insert_max_below_example:
  "\<exists>sc. InsertMax CompareInt 5 example_dates = Some (0, sc) \<and> sb_list sc = [7, 7, 7]"
  using insert_max_below [of 2 example_dates 5]
  by (simp add: example_dates_inv key_sorted_def) (simp add: example_dates_def)

end
