(* ===== verification/Thread_Queue.thy ===== *)
theory Thread_Queue
  imports Prelude
begin

text \<open>
  The linked queues of common/thread/queue.c and the thread controls of common/thread/control.c.
  Nodes live in a heap, a map from addresses to nodes; NULL is the address None.  The invariant
  \<open>q_inv\<close> says that following \<open>next\<close> from the head visits the nodes of the queue and ends at
  the tail, and the abstraction is the list of these addresses: \<open>queue_put\<close> and
  \<open>queue_get\<close> are the two operations of a first-in first-out queue.
\<close>

section \<open>queue.c\<close>

record 'a node =
  n_next :: "nat option"
  n_body :: 'a

type_synonym 'a nheap = "nat \<Rightarrow> 'a node option"

record queue =
  q_head :: "nat option"
  q_tail :: "nat option"
  q_count :: int

definition queue_init :: queue where
  "queue_init = \<lparr>q_head = None, q_tail = None, q_count = 0\<rparr>"

text \<open>Following a pointer to an address that holds no node is a memory error (None).\<close>

definition set_next :: "'a nheap \<Rightarrow> nat \<Rightarrow> nat option \<Rightarrow> 'a nheap option" where
  "set_next h a p = (case h a of None \<Rightarrow> None | Some n \<Rightarrow> Some (h(a \<mapsto> n\<lparr>n_next := p\<rparr>)))"

definition queue_put :: "nat \<Rightarrow> 'a nheap \<times> queue \<Rightarrow> ('a nheap \<times> queue) option" where
  "queue_put a s = (case s of (h, q) \<Rightarrow> do {
     h \<leftarrow> set_next h a None;
     h \<leftarrow> (case q_tail q of None \<Rightarrow> Some h | Some t \<Rightarrow> set_next h t (Some a));
     let q = q\<lparr>q_tail := Some a\<rparr>;
     let q = (if q_head q = None then q\<lparr>q_head := Some a\<rparr> else q);
     Some (h, q\<lparr>q_count := q_count q + 1\<rparr>)
   })"

definition queue_get :: "'a nheap \<times> queue \<Rightarrow> (nat option \<times> 'a nheap \<times> queue) option" where
  "queue_get s = (case s of (h, q) \<Rightarrow> do {
     let mynode = q_head q;
     q \<leftarrow> (case q_head q of None \<Rightarrow> Some q
           | Some a \<Rightarrow> (case h a of None \<Rightarrow> None
              | Some n \<Rightarrow> Some (q\<lparr>q_head := n_next n, q_count := q_count q - 1\<rparr>)));
     let q = (if q_head q = None then q\<lparr>q_tail := None\<rparr> else q);
     Some (mynode, h, q)
   })"

section \<open>Invariant and abstraction\<close>

fun chain :: "'a nheap \<Rightarrow> nat option \<Rightarrow> nat list \<Rightarrow> bool" where
  "chain h p [] \<longleftrightarrow> p = None"
| "chain h p (a # as) \<longleftrightarrow> p = Some a \<and> (\<exists>n. h a = Some n \<and> chain h (n_next n) as)"

definition q_inv :: "nat list \<Rightarrow> 'a nheap \<times> queue \<Rightarrow> bool" where
  "q_inv as s \<longleftrightarrow> (case s of (h, q) \<Rightarrow> chain h (q_head q) as \<and> distinct as \<and>
     q_tail q = (if as = [] then None else Some (last as)) \<and> q_count q = int (length as))"

text \<open>The contents of the nodes of a queue.\<close>

definition bodies :: "nat list \<Rightarrow> 'a nheap \<Rightarrow> 'a list" where
  "bodies as h = map (\<lambda>a. n_body (the (h a))) as"

lemma chain_upd [simp]: "a \<notin> set as \<Longrightarrow> chain (h(a := v)) p as = chain h p as"
  by (induction as arbitrary: p) auto

lemma chain_alloc: "chain h p as \<Longrightarrow> a \<in> set as \<Longrightarrow> \<exists>n. h a = Some n"
  by (induction as arbitrary: p) auto

lemma chain_unique: "chain h p as \<Longrightarrow> chain h p bs \<Longrightarrow> as = bs"
proof (induction as arbitrary: p bs)
  case Nil
  then show ?case by (cases bs) auto
next
  case (Cons a as)
  then show ?case by (cases bs) auto
qed

lemma chain_append:
  assumes "chain h p (as @ [t])" "distinct (as @ [t])" "a \<notin> set (as @ [t])"
    "h t = Some n" "h a = Some m" "n_next m = None"
  shows "chain (h(t \<mapsto> n\<lparr>n_next := Some a\<rparr>)) p (as @ [t, a])"
  using assms by (induction as arbitrary: p) auto

lemma chain_frame: "\<forall>a\<in>set as. h' a = h a \<Longrightarrow> chain h' p as = chain h p as"
  by (induction as arbitrary: p) auto

lemma q_inv_frame: "q_inv as (h, q) \<Longrightarrow> \<forall>a\<in>set as. h' a = h a \<Longrightarrow> q_inv as (h', q)"
  using chain_frame [of as h' h "q_head q"] by (simp add: q_inv_def)

lemma q_inv_alloc: "q_inv as (h, q) \<Longrightarrow> a \<in> set as \<Longrightarrow> h a \<noteq> None"
  using chain_alloc by (fastforce simp: q_inv_def)

lemma q_inv_init: "q_inv [] (h, queue_init)"
  by (simp add: q_inv_def queue_init_def)

lemma queue_put_spec:
  assumes "q_inv as (h, q)" "h a = Some n" "a \<notin> set as"
  shows "\<exists>h' q'. queue_put a (h, q) = Some (h', q') \<and> q_inv (as @ [a]) (h', q') \<and>
    dom h' = dom h \<and> (\<forall>b. n_body (the (h' b)) = n_body (the (h b))) \<and>
    (\<forall>b. b \<notin> insert a (set as) \<longrightarrow> h' b = h b)"
proof (cases as rule: rev_cases)
  case Nil
  then show ?thesis using assms
    by (auto simp: queue_put_def q_inv_def set_next_def)
next
  case (snoc bs t)
  let ?g = "h(a \<mapsto> n\<lparr>n_next := None\<rparr>)"
  have ch: "chain h (q_head q) (bs @ [t])" and d: "distinct (bs @ [t])" and t: "q_tail q = Some t"
    and c: "q_count q = int (Suc (length bs))"
    using assms(1) snoc by (auto simp: q_inv_def)
  obtain m where m: "h t = Some m" using chain_alloc [OF ch, of t] by auto
  have g: "chain ?g (q_head q) (bs @ [t])" using ch assms(3) snoc by simp
  have ne: "a \<noteq> t" "q_head q \<noteq> None" using assms(3) snoc ch by (cases bs; auto)+
  have "chain (?g(t \<mapsto> m\<lparr>n_next := Some a\<rparr>)) (q_head q) (bs @ [t, a])"
    using m ne assms(3) snoc by (intro chain_append [OF g d, of a m "n\<lparr>n_next := None\<rparr>"]) auto
  then show ?thesis
    using assms(2,3) snoc d t c m ne
    by (auto simp: queue_put_def q_inv_def set_next_def)
qed

lemma queue_get_empty: "q_inv [] (h, q) \<Longrightarrow> queue_get (h, q) = Some (None, h, q)"
  by (simp add: queue_get_def q_inv_def)

lemma queue_get_spec:
  assumes "q_inv (a # as) (h, q)"
  shows "\<exists>q'. queue_get (h, q) = Some (Some a, h, q') \<and> q_inv as (h, q')"
  using assms by (cases as) (auto simp: queue_get_def q_inv_def)

section \<open>The first-in first-out interface\<close>

text \<open>
  Clients rely on this much: a node that is in memory and not yet queued can be put, and nodes
  come out in the order they went in.
\<close>

datatype 'n qop = Put 'n | Get

fun q_run :: "('n \<Rightarrow> 's \<Rightarrow> 's option) \<Rightarrow> ('s \<Rightarrow> ('n option \<times> 's) option) \<Rightarrow>
    'n qop list \<Rightarrow> 's \<Rightarrow> ('n option list \<times> 's) option" where
  "q_run put get [] s = Some ([], s)"
| "q_run put get (Put a # ops) s =
     (case put a s of None \<Rightarrow> None | Some t \<Rightarrow> q_run put get ops t)"
| "q_run put get (Get # ops) s =
     (case get s of None \<Rightarrow> None
      | Some (r, t) \<Rightarrow> (case q_run put get ops t of None \<Rightarrow> None | Some (rs, u) \<Rightarrow> Some (r # rs, u)))"

text \<open>The specification on a list of nodes, and when a sequence puts no queued node again.\<close>

fun fifo_run :: "'n qop list \<Rightarrow> 'n list \<Rightarrow> 'n option list \<times> 'n list" where
  "fifo_run [] xs = ([], xs)"
| "fifo_run (Put a # ops) xs = fifo_run ops (xs @ [a])"
| "fifo_run (Get # ops) [] = (let (rs, ys) = fifo_run ops [] in (None # rs, ys))"
| "fifo_run (Get # ops) (x # xs) = (let (rs, ys) = fifo_run ops xs in (Some x # rs, ys))"

fun fifo_ok :: "'n qop list \<Rightarrow> 'n list \<Rightarrow> bool" where
  "fifo_ok [] xs = True"
| "fifo_ok (Put a # ops) xs = (a \<notin> set xs \<and> fifo_ok ops (xs @ [a]))"
| "fifo_ok (Get # ops) xs = fifo_ok ops (tl xs)"

fun put_nodes :: "'n qop list \<Rightarrow> 'n set" where
  "put_nodes [] = {}"
| "put_nodes (Put a # ops) = insert a (put_nodes ops)"
| "put_nodes (Get # ops) = put_nodes ops"

locale fifo =
  fixes put :: "'n \<Rightarrow> 's \<Rightarrow> 's option"
    and get :: "'s \<Rightarrow> ('n option \<times> 's) option"
    and items :: "'n list \<Rightarrow> 's \<Rightarrow> bool"
    and avail :: "'s \<Rightarrow> 'n set"
  assumes put_ok: "items xs s \<Longrightarrow> a \<in> avail s \<Longrightarrow> a \<notin> set xs \<Longrightarrow>
      \<exists>t. put a s = Some t \<and> items (xs @ [a]) t \<and> avail t = avail s"
    and get_empty: "items [] s \<Longrightarrow> \<exists>t. get s = Some (None, t) \<and> items [] t \<and> avail t = avail s"
    and get_ok: "items (x # xs) s \<Longrightarrow> \<exists>t. get s = Some (Some x, t) \<and> items xs t \<and> avail t = avail s"
begin

lemma run_fifo:
  assumes "items xs s" "put_nodes ops \<subseteq> avail s" "fifo_ok ops xs"
  shows "\<exists>t. q_run put get ops s = Some (fst (fifo_run ops xs), t) \<and>
    items (snd (fifo_run ops xs)) t \<and> avail t = avail s"
  using assms
proof (induction ops xs arbitrary: s rule: fifo_run.induct)
  case (1 xs)
  then show ?case by simp
next
  case (2 a ops xs)
  then obtain t where t: "put a s = Some t" "items (xs @ [a]) t" "avail t = avail s"
    using put_ok [of xs s a] by auto
  then show ?case using 2(1) [OF t(2)] 2(3,4) by simp
next
  case (3 ops)
  then obtain t where t: "get s = Some (None, t)" "items [] t" "avail t = avail s"
    using get_empty by blast
  then show ?case using 3(1) [OF t(2)] 3(3,4) by (auto split: prod.splits)
next
  case (4 ops x xs)
  then obtain t where t: "get s = Some (Some x, t)" "items xs t" "avail t = avail s"
    using get_ok by blast
  then show ?case using 4(1) [OF t(2)] 4(3,4) by (auto split: prod.splits)
qed

end

interpretation lq: fifo queue_put queue_get q_inv "\<lambda>s. dom (fst s)"
proof (unfold_locales, goal_cases)
  case (1 xs s a)
  then show ?case using queue_put_spec [of xs "fst s" "snd s" a] by fastforce
next
  case (2 s)
  then show ?case using queue_get_empty [of "fst s" "snd s"] by simp
next
  case (3 x xs s)
  then show ?case using queue_get_spec [of x xs "fst s" "snd s"] by auto
qed

section \<open>control.c\<close>

text \<open>
  A \<open>data_control\<close> holds the mutex, the condition and \<open>active\<close>.  The mutex is modelled by
  whether it is held, the condition by the number of signals and broadcasts sent.  Locking a
  mutex that is held does not return (None) unless the library reports an error; the results
  of the pthread calls that can fail are parameters, 0 for success.
\<close>

record control =
  c_locked :: bool
  c_signals :: nat
  c_active :: int

record pthqueue =
  pq_control :: control
  pq_task :: queue

definition QUITCMD :: int where
  "QUITCMD = 0xabcd"

definition control_init :: "int \<Rightarrow> int \<Rightarrow> control \<Rightarrow> int \<times> control" where
  "control_init mret cret c =
     (if mret \<noteq> 0 then (1, c)
      else let c = c\<lparr>c_locked := False\<rparr> in
        if cret \<noteq> 0 then (1, c)
        else (0, c\<lparr>c_signals := 0, c_active := 0\<rparr>))"

definition control_destroy :: "int \<Rightarrow> int \<Rightarrow> control \<Rightarrow> int \<times> control" where
  "control_destroy cret mret c =
     (if cret \<noteq> 0 then (1, c) else if mret \<noteq> 0 then (1, c) else (0, c\<lparr>c_active := 0\<rparr>))"

definition mutex_lock :: "control \<Rightarrow> control option" where
  "mutex_lock c = (if c_locked c then None else Some (c\<lparr>c_locked := True\<rparr>))"

definition mutex_unlock :: "control \<Rightarrow> control" where
  "mutex_unlock c = c\<lparr>c_locked := False\<rparr>"

definition cond_signal :: "control \<Rightarrow> control" where
  "cond_signal c = c\<lparr>c_signals := c_signals c + 1\<rparr>"

definition control_activate :: "int \<Rightarrow> control \<Rightarrow> (int \<times> control) option" where
  "control_activate lret c =
     (if lret \<noteq> 0 then Some (0, c)
      else do {
        c \<leftarrow> mutex_lock c;
        let c = mutex_unlock (c\<lparr>c_active := 1\<rparr>);
        Some (1, cond_signal c)
      })"

definition control_deactivate :: "int \<Rightarrow> control \<Rightarrow> (int \<times> control) option" where
  "control_deactivate lret c =
     (if lret \<noteq> 0 then Some (0, c)
      else do {
        c \<leftarrow> mutex_lock c;
        let c = mutex_unlock (c\<lparr>c_active := QUITCMD\<rparr>);
        Some (1, cond_signal c)
      })"

section \<open>Notices between threads\<close>

datatype thread_type = kTTDisplay | kTTSave | kTTMain | kTTOther

text \<open>
  A node is a \<open>WorkNode\<close> (major type, minor type, payload) or a \<open>CleanupNode\<close>.  The
  threads' queues are the globals \<open>disq\<close>, \<open>saveq\<close>, \<open>cwq\<close> and \<open>clrq\<close>.
\<close>

datatype 'p work = WorkNode int int 'p | CleanupNode int

record 'p threads =
  th_heap :: "'p work nheap"
  disq :: pthqueue
  saveq :: pthqueue
  cwq :: pthqueue
  clrq :: pthqueue

definition put_notice :: "nat \<Rightarrow> 'a nheap \<Rightarrow> pthqueue \<Rightarrow> ('a nheap \<times> pthqueue) option" where
  "put_notice a h pq = do {
     c \<leftarrow> mutex_lock (pq_control pq);
     (h, q) \<leftarrow> queue_put a (h, pq_task pq);
     Some (h, \<lparr>pq_control = mutex_unlock (cond_signal c), pq_task = q\<rparr>)
   }"

text \<open>\<open>mem\<close> is what \<open>malloc\<close> returns for the node: an address, or None for NULL.\<close>

definition notice_pthread ::
  "nat option \<Rightarrow> thread_type \<Rightarrow> int \<Rightarrow> int \<Rightarrow> 'p \<Rightarrow> 'p threads \<Rightarrow> (int \<times> 'p threads) option" where
  "notice_pthread mem ty major minor point th =
     (case mem of None \<Rightarrow> Some (-1, th)
      | Some a \<Rightarrow>
         (let h = (th_heap th)(a \<mapsto> \<lparr>n_next = None, n_body = WorkNode major minor point\<rparr>) in
          case ty of
            kTTDisplay \<Rightarrow> do { (h, q) \<leftarrow> put_notice a h (disq th); Some (0, th\<lparr>th_heap := h, disq := q\<rparr>) }
          | kTTSave \<Rightarrow> do { (h, q) \<leftarrow> put_notice a h (saveq th); Some (0, th\<lparr>th_heap := h, saveq := q\<rparr>) }
          | kTTMain \<Rightarrow> do { (h, q) \<leftarrow> put_notice a h (cwq th); Some (0, th\<lparr>th_heap := h, cwq := q\<rparr>) }
          | kTTOther \<Rightarrow> Some (0, th\<lparr>th_heap := h\<rparr>)))"

text \<open>\<open>notice_clrq\<close> signals after unlocking, and prints the number in the node.\<close>

definition notice_clrq :: "nat \<Rightarrow> 'p threads \<Rightarrow> 'p threads option" where
  "notice_clrq a th = do {
     c \<leftarrow> mutex_lock (pq_control (clrq th));
     (h, q) \<leftarrow> queue_put a (th_heap th, pq_task (clrq th));
     let c = cond_signal (mutex_unlock c);
     Some (th\<lparr>th_heap := h, clrq := \<lparr>pq_control = c, pq_task = q\<rparr>\<rparr>)
   }"

text \<open>
  All mutexes are free, every queue is well formed, and no node is in two queues.
\<close>

definition th_inv :: "nat list \<Rightarrow> nat list \<Rightarrow> nat list \<Rightarrow> nat list \<Rightarrow> 'p threads \<Rightarrow> bool" where
  "th_inv ds ss ms cs th \<longleftrightarrow>
     (\<forall>pq \<in> {disq th, saveq th, cwq th, clrq th}. \<not> c_locked (pq_control pq)) \<and>
     q_inv ds (th_heap th, pq_task (disq th)) \<and> q_inv ss (th_heap th, pq_task (saveq th)) \<and>
     q_inv ms (th_heap th, pq_task (cwq th)) \<and> q_inv cs (th_heap th, pq_task (clrq th)) \<and>
     distinct (ds @ ss @ ms @ cs)"

lemma put_notice_spec:
  assumes "\<not> c_locked (pq_control pq)" "q_inv as (h, pq_task pq)" "h a = None"
  shows "\<exists>g p. put_notice a (h(a \<mapsto> n)) pq = Some (g, p) \<and> q_inv (as @ [a]) (g, pq_task p) \<and>
    \<not> c_locked (pq_control p) \<and> c_signals (pq_control p) = Suc (c_signals (pq_control pq)) \<and>
    n_body (the (g a)) = n_body n \<and> (\<forall>b. n_body (the (g b)) = n_body (the ((h(a \<mapsto> n)) b))) \<and>
    (\<forall>b. b \<notin> insert a (set as) \<longrightarrow> g b = h b)"
proof -
  have a: "a \<notin> set as" using q_inv_alloc [OF assms(2), of a] assms(3) by auto
  have "q_inv as (h(a \<mapsto> n), pq_task pq)" using a by (intro q_inv_frame [OF assms(2)]) auto
  from queue_put_spec [OF this _ a] obtain g q where
    "queue_put a (h(a \<mapsto> n), pq_task pq) = Some (g, q)" "q_inv (as @ [a]) (g, q)"
    "\<forall>b. n_body (the (g b)) = n_body (the ((h(a \<mapsto> n)) b))"
    "\<forall>b. b \<notin> insert a (set as) \<longrightarrow> g b = (h(a \<mapsto> n)) b"
    by (auto simp del: fun_upd_apply) (metis fun_upd_same)
  then show ?thesis using assms(1)
    by (auto simp: put_notice_def mutex_lock_def mutex_unlock_def cond_signal_def)
qed

lemma th_inv_alloc:
  assumes "th_inv ds ss ms cs th" "th_heap th a = None"
  shows "a \<notin> set ds" "a \<notin> set ss" "a \<notin> set ms" "a \<notin> set cs"
  using assms by (auto simp: th_inv_def dest!: q_inv_alloc)

section \<open>Properties\<close>

text \<open>
  C34. The linked queue is first-in first-out: for any sequence of puts of nodes in memory (none
  put again while queued) and gets on an initialised queue, every call succeeds, each get
  returns the oldest node not yet returned, or NULL when there is none, and \<open>count\<close> is the
  number of nodes left.
\<close>

theorem queue_is_fifo:
  assumes "put_nodes ops \<subseteq> dom h" "fifo_ok ops []"
  shows "\<exists>g q. q_run queue_put queue_get ops (h, queue_init) = Some (fst (fifo_run ops []), g, q) \<and>
    q_count q = int (length (snd (fifo_run ops [])))"
proof -
  obtain g q where "q_run queue_put queue_get ops (h, queue_init) = Some (fst (fifo_run ops []), g, q)"
    "q_inv (snd (fifo_run ops [])) (g, q)"
    using lq.run_fifo [OF q_inv_init, of ops h] assms by (auto simp del: fifo_run.simps)
  then show ?thesis by (auto simp: q_inv_def)
qed

theorem queue_is_fifo_witness:
  "\<exists>g q. q_run queue_put queue_get [Put 1, Put 2, Get, Put 1, Get, Get, Get]
      (\<lambda>a. Some \<lparr>n_next = None, n_body = ()\<rparr>, queue_init) =
    Some ([Some 1, Some 2, Some 1, None], g, q) \<and> q_count q = 0"
  using queue_is_fifo [of "[Put 1, Put 2, Get, Put 1, Get, Get, Get]" "\<lambda>a. Some \<lparr>n_next = None, n_body = ()\<rparr>"]
  by (simp add: dom_def)

text \<open>
  A notice with a fresh node is appended to the queue of the thread it is for, and to no
  other queue; it carries the types and the payload given, no mutex stays locked, the thread
  is signalled, and all queues stay well formed and disjoint.
\<close>

lemma notice_delivered:
  assumes "th_inv ds ss ms cs th" "th_heap th a = None"
  shows "\<exists>t. notice_pthread (Some a) ty major minor point th = Some (0, t) \<and>
    n_body (the (th_heap t a)) = WorkNode major minor point \<and>
    th_inv (if ty = kTTDisplay then ds @ [a] else ds) (if ty = kTTSave then ss @ [a] else ss)
      (if ty = kTTMain then ms @ [a] else ms) cs t \<and>
    (ty = kTTSave \<longrightarrow> c_signals (pq_control (saveq t)) = Suc (c_signals (pq_control (saveq th))))"
proof -
  note fr = th_inv_alloc [OF assms]
  let ?n = "\<lparr>n_next = None, n_body = WorkNode major minor point\<rparr>"
  have unl: "\<not> c_locked (pq_control (disq th))" "\<not> c_locked (pq_control (saveq th))" "\<not> c_locked (pq_control (cwq th))"
    "\<not> c_locked (pq_control (clrq th))"
    and qs: "q_inv ds (th_heap th, pq_task (disq th))" "q_inv ss (th_heap th, pq_task (saveq th))"
    "q_inv ms (th_heap th, pq_task (cwq th))" "q_inv cs (th_heap th, pq_task (clrq th))"
    and dj: "distinct (ds @ ss @ ms @ cs)"
    using assms(1) by (simp_all add: th_inv_def)
  show ?thesis
  proof (cases ty)
    case kTTDisplay
    obtain g p where "put_notice a ((th_heap th)(a \<mapsto> ?n)) (disq th) = Some (g, p)"
      "q_inv (ds @ [a]) (g, pq_task p)" "\<not> c_locked (pq_control p)" "n_body (the (g a)) = n_body ?n"
      "\<forall>b. b \<notin> insert a (set ds) \<longrightarrow> g b = th_heap th b"
      using put_notice_spec [OF unl(1) qs(1) assms(2)] by metis
    moreover from this(5) have "q_inv ss (g, pq_task (saveq th))" "q_inv ms (g, pq_task (cwq th))"
      "q_inv cs (g, pq_task (clrq th))"
      using fr dj by (intro q_inv_frame [OF qs(2)] q_inv_frame [OF qs(3)] q_inv_frame [OF qs(4)]; auto)+
    moreover have "distinct ((ds @ [a]) @ ss @ ms @ cs)" using dj fr by auto
    ultimately show ?thesis using unl
      by (simp add: notice_pthread_def th_inv_def Let_def kTTDisplay del: distinct_append)
  next
    case kTTSave
    obtain g p where "put_notice a ((th_heap th)(a \<mapsto> ?n)) (saveq th) = Some (g, p)"
      "q_inv (ss @ [a]) (g, pq_task p)" "\<not> c_locked (pq_control p)" "n_body (the (g a)) = n_body ?n"
      "c_signals (pq_control p) = Suc (c_signals (pq_control (saveq th)))"
      "\<forall>b. b \<notin> insert a (set ss) \<longrightarrow> g b = th_heap th b"
      using put_notice_spec [OF unl(2) qs(2) assms(2)] by metis
    moreover from this(6) have "q_inv ds (g, pq_task (disq th))" "q_inv ms (g, pq_task (cwq th))"
      "q_inv cs (g, pq_task (clrq th))"
      using fr dj by (intro q_inv_frame [OF qs(1)] q_inv_frame [OF qs(3)] q_inv_frame [OF qs(4)]; auto)+
    moreover have "distinct (ds @ (ss @ [a]) @ ms @ cs)" using dj fr by auto
    ultimately show ?thesis using unl
      by (simp add: notice_pthread_def th_inv_def Let_def kTTSave del: distinct_append)
  next
    case kTTMain
    obtain g p where "put_notice a ((th_heap th)(a \<mapsto> ?n)) (cwq th) = Some (g, p)"
      "q_inv (ms @ [a]) (g, pq_task p)" "\<not> c_locked (pq_control p)" "n_body (the (g a)) = n_body ?n"
      "\<forall>b. b \<notin> insert a (set ms) \<longrightarrow> g b = th_heap th b"
      using put_notice_spec [OF unl(3) qs(3) assms(2)] by metis
    moreover from this(5) have "q_inv ds (g, pq_task (disq th))" "q_inv ss (g, pq_task (saveq th))"
      "q_inv cs (g, pq_task (clrq th))"
      using fr dj by (intro q_inv_frame [OF qs(1)] q_inv_frame [OF qs(2)] q_inv_frame [OF qs(4)]; auto)+
    moreover have "distinct (ds @ ss @ (ms @ [a]) @ cs)" using dj fr by auto
    ultimately show ?thesis using unl
      by (simp add: notice_pthread_def th_inv_def Let_def kTTMain del: distinct_append)
  next
    case kTTOther
    then show ?thesis using unl dj fr
      by (auto simp: notice_pthread_def th_inv_def intro: q_inv_frame [OF qs(1)]
        q_inv_frame [OF qs(2)] q_inv_frame [OF qs(3)] q_inv_frame [OF qs(4)])
  qed
qed

definition idle_queue :: pthqueue where
  "idle_queue = \<lparr>pq_control = \<lparr>c_locked = False, c_signals = 0, c_active = 1\<rparr>, pq_task = queue_init\<rparr>"

definition idle_threads :: "unit threads" where
  "idle_threads = \<lparr>th_heap = (\<lambda>_. None), disq = idle_queue, saveq = idle_queue, cwq = idle_queue, clrq = idle_queue\<rparr>"

lemma notice_delivered_example:
  "\<exists>t. notice_pthread (Some 7) kTTSave 90 1 () idle_threads = Some (0, t) \<and>
    n_body (the (th_heap t 7)) = WorkNode 90 1 () \<and> th_inv [] [7] [] [] t \<and>
    c_signals (pq_control (saveq t)) = 1"
proof -
  have "th_inv [] [] [] [] idle_threads"
    by (simp add: th_inv_def idle_threads_def idle_queue_def q_inv_init)
  then show ?thesis using notice_delivered [of "[]" "[]" "[]" "[]" idle_threads 7 kTTSave 90 1 "()"]
    by (simp add: idle_threads_def idle_queue_def)
qed

end
