(* ===== verification/Msg_Queue.thy ===== *)
theory Msg_Queue
  imports Thread_Queue
begin

text \<open>
  The message queues between the protocol threads and the GUI: \<open>MessageQueue\<close>
  (common/data/message_queue.cpp) and its clients \<open>MessageQGuiC\<close> and \<open>MessageQGuiS\<close>
  (common/data/messageq_guic.cpp, messageq_guis.cpp).  An object owns an array of thread queues
  whose nodes are \<open>WorkNode\<close>s; the payload of a node points to a buffer on the heap or on a
  stack frame, and only the first kind may be deleted.
\<close>

section \<open>MessageQueue\<close>

datatype payload = Heap_buf "u8 list" | Stack_buf "u8 list"

record mqueue =
  mq_max :: int
  mq_queues :: "pthqueue list"
  mq_state :: "int list"
  mq_heap :: "payload option work nheap"

definition kMaxNodeNum :: int where
  "kMaxNodeNum = 32"

text \<open>
  \<open>InitQueue\<close>: \<open>ini i\<close> gives the results of the pthread calls for queue i; a failure aborts
  the program (None), as does a negative size.
\<close>

definition blank_control :: control where
  "blank_control = \<lparr>c_locked = False, c_signals = 0, c_active = 0\<rparr>"

definition InitQueue :: "(int \<Rightarrow> int \<times> int) \<Rightarrow> int \<Rightarrow> mqueue \<Rightarrow> mqueue option" where
  "InitQueue ini mx mq =
     (if mx < 0 then None
      else do {
        qs \<leftarrow> for_loop 0 mx (\<lambda>i qs.
          (case control_init (fst (ini i)) (snd (ini i)) blank_control of
             (r, c) \<Rightarrow> if r \<noteq> 0 then None else Some (qs @ [\<lparr>pq_control = c, pq_task = queue_init\<rparr>]))) [];
        Some (mq\<lparr>mq_max := mx, mq_queues := qs, mq_state := replicate (nat mx) 0\<rparr>)
      })"

definition BindQueue :: "int \<Rightarrow> mqueue \<Rightarrow> (int \<times> mqueue) option" where
  "BindQueue idx mq = do {
     st \<leftarrow> aget (mq_state mq) idx;
     if st \<noteq> 0 then Some (-1, mq)
     else do { sts \<leftarrow> aset (mq_state mq) idx 1; Some (idx, mq\<lparr>mq_state := sts\<rparr>) }
   }"

text \<open>\<open>if (nd->point) delete [] nd->point; free(nd);\<close>: nothing of this can be done to NULL.\<close>

definition free_node :: "nat option \<Rightarrow> payload option work nheap \<Rightarrow> payload option work nheap option" where
  "free_node nd h =
     (case nd of None \<Rightarrow> None
      | Some a \<Rightarrow> (case h a of None \<Rightarrow> None
         | Some n \<Rightarrow> (case n_body n of CleanupNode _ \<Rightarrow> None
            | WorkNode _ _ p \<Rightarrow> (case p of Some (Stack_buf _) \<Rightarrow> None | _ \<Rightarrow> Some (h(a := None))))))"

partial_function (option) free_loop ::
  "payload option work nheap \<times> queue \<Rightarrow> (payload option work nheap \<times> queue) option" where
  "free_loop s = do {
     (nd, h, q) \<leftarrow> queue_get s;
     h \<leftarrow> free_node nd h;
     if nd \<noteq> None then free_loop (h, q) else Some (h, q)
   }"

definition FreeQueue :: "int \<Rightarrow> mqueue \<Rightarrow> mqueue option" where
  "FreeQueue idx mq =
     (if idx \<ge> mq_max mq \<or> idx < 0 then Some mq
      else do {
        pq \<leftarrow> aget (mq_queues mq) idx;
        c \<leftarrow> mutex_lock (pq_control pq);
        (h, q) \<leftarrow> free_loop (mq_heap mq, pq_task pq);
        qs \<leftarrow> aset (mq_queues mq) idx \<lparr>pq_control = mutex_unlock c, pq_task = q\<rparr>;
        sts \<leftarrow> aset (mq_state mq) idx 0;
        Some (mq\<lparr>mq_heap := h, mq_queues := qs, mq_state := sts\<rparr>)
      })"

text \<open>\<open>mem\<close> is what \<open>malloc\<close> returns for the node: an address, or None for NULL.\<close>

definition PushQueue ::
  "nat option \<Rightarrow> int \<Rightarrow> int \<Rightarrow> int \<Rightarrow> payload option \<Rightarrow> mqueue \<Rightarrow> (int \<times> mqueue) option" where
  "PushQueue mem idx major minor point mq =
     (if idx \<ge> mq_max mq \<or> idx < 0 then Some (-1, mq)
      else do {
        st \<leftarrow> aget (mq_state mq) idx;
        if st \<noteq> 0 then
          (case mem of None \<Rightarrow> Some (-1, mq)
           | Some a \<Rightarrow> do {
               let h = (mq_heap mq)(a \<mapsto> \<lparr>n_next = None, n_body = WorkNode major minor point\<rparr>);
               pq \<leftarrow> aget (mq_queues mq) idx;
               c \<leftarrow> mutex_lock (pq_control pq);
               (h, q) \<leftarrow> queue_put a (h, pq_task pq);
               (h, q) \<leftarrow> (if q_count q > kMaxNodeNum then do {
                   (nd, h, q) \<leftarrow> queue_get (h, q);
                   h \<leftarrow> free_node nd h;
                   Some (h, q)
                 } else Some (h, q));
               qs \<leftarrow> aset (mq_queues mq) idx \<lparr>pq_control = mutex_unlock c, pq_task = q\<rparr>;
               Some (0, mq\<lparr>mq_heap := h, mq_queues := qs\<rparr>)
             })
        else Some (0, mq)
      })"

text \<open>\<open>Pop\<close> returns before its unlock.\<close>

definition PopQueue :: "int \<Rightarrow> mqueue \<Rightarrow> (nat option \<times> mqueue) option" where
  "PopQueue idx mq =
     (if idx \<ge> mq_max mq \<or> idx < 0 then Some (None, mq)
      else do {
        pq \<leftarrow> aget (mq_queues mq) idx;
        c \<leftarrow> mutex_lock (pq_control pq);
        (nd, h, q) \<leftarrow> queue_get (mq_heap mq, pq_task pq);
        qs \<leftarrow> aset (mq_queues mq) idx \<lparr>pq_control = c, pq_task = q\<rparr>;
        Some (nd, mq\<lparr>mq_heap := h, mq_queues := qs\<rparr>)
      })"

section \<open>The GUI client and server queues\<close>

record guic =
  gc_mq :: mqueue
  gc_wait :: "u8 list list"

definition kCmdBufNum :: int where
  "kCmdBufNum = 64"

definition kGUICommuCmd :: int where
  "kGUICommuCmd = 100"

text \<open>
  \<open>InitQGui\<close> of the client: the counters of \<open>new uint8_t[kCmdBufNum]\<close> are indeterminate.
\<close>

definition InitQGui :: "(int \<Rightarrow> int \<times> int) \<Rightarrow> (nat \<Rightarrow> u8) \<Rightarrow> int \<Rightarrow> guic \<Rightarrow> guic option" where
  "InitQGui ini junk mx g = do {
     mq \<leftarrow> InitQueue ini mx (gc_mq g);
     Some (g\<lparr>gc_mq := mq, gc_wait := replicate (nat mx) (map junk [0..<nat kCmdBufNum])\<rparr>)
   }"

text \<open>
  The message buffer \<open>char buf[sz]\<close>: total size, optional index byte, and the data, which is
  always copied to offset 5.  \<open>junk\<close> fills the new stack frame; sizes are below 2 ^ 31 - 5.
\<close>

definition msg_buf :: "(nat \<Rightarrow> u8) \<Rightarrow> int \<Rightarrow> u8 list \<Rightarrow> u8 option \<Rightarrow> u8 list option" where
  "msg_buf junk sz data idx = do {
     let n = sz + 4 + (if idx = None then 0 else 1);
     buf \<leftarrow> blit (map junk [0..<nat n]) 0 (le32 n);
     buf \<leftarrow> (case idx of None \<Rightarrow> Some buf | Some b \<Rightarrow> aset buf 4 b);
     d \<leftarrow> aslice data 0 sz;
     blit buf 5 d
   }"

definition guic_Push ::
  "nat option \<Rightarrow> (nat \<Rightarrow> u8) \<Rightarrow> int \<Rightarrow> int \<Rightarrow> int \<Rightarrow> u8 list \<Rightarrow> u8 option \<Rightarrow> guic \<Rightarrow> (int \<times> guic) option" where
  "guic_Push mem junk qidx ty sz data idx g = do {
     buf \<leftarrow> msg_buf junk sz data idx;
     (r, mq) \<leftarrow> PushQueue mem qidx kGUICommuCmd ty (Some (Stack_buf buf)) (gc_mq g);
     Some (r, g\<lparr>gc_mq := mq\<rparr>)
   }"

definition ClearWaitCnt :: "int \<Rightarrow> int \<Rightarrow> guic \<Rightarrow> guic option" where
  "ClearWaitCnt idx sn g =
     (if idx \<ge> mq_max (gc_mq g) \<or> idx < 0 then Some g
      else do {
        pq \<leftarrow> aget (mq_queues (gc_mq g)) idx;
        c \<leftarrow> mutex_lock (pq_control pq);
        row \<leftarrow> aget (gc_wait g) idx;
        row \<leftarrow> aset row sn 0;
        w \<leftarrow> aset (gc_wait g) idx row;
        qs \<leftarrow> aset (mq_queues (gc_mq g)) idx (pq\<lparr>pq_control := mutex_unlock c\<rparr>);
        Some (g\<lparr>gc_wait := w, gc_mq := (gc_mq g)\<lparr>mq_queues := qs\<rparr>\<rparr>)
      })"

text \<open>
  \<open>for (int j=0; j<kCmdBufNum; i++) wait_cnt_[i][j]++;\<close>: the inner loop advances i and not j.
\<close>

partial_function (option) inc_inner :: "int \<Rightarrow> int \<Rightarrow> u8 list list \<Rightarrow> (int \<times> u8 list list) option" where
  "inc_inner i j w =
     (if j < kCmdBufNum then do {
        row \<leftarrow> aget w i;
        v \<leftarrow> aget row j;
        row \<leftarrow> aset row j (v + 1);
        w \<leftarrow> aset w i row;
        inc_inner (i + 1) j w
      } else Some (i, w))"

partial_function (option) inc_outer :: "int \<Rightarrow> guic \<Rightarrow> guic option" where
  "inc_outer i g =
     (if i < mq_max (gc_mq g) then do {
        st \<leftarrow> aget (mq_state (gc_mq g)) i;
        if st \<noteq> 0 then do {
          pq \<leftarrow> aget (mq_queues (gc_mq g)) i;
          c \<leftarrow> mutex_lock (pq_control pq);
          (k, w) \<leftarrow> inc_inner i 0 (gc_wait g);
          pk \<leftarrow> aget (mq_queues (gc_mq g)) k;
          qs \<leftarrow> aset (mq_queues (gc_mq g)) k (pk\<lparr>pq_control := mutex_unlock (pq_control pk)\<rparr>);
          inc_outer (k + 1) (g\<lparr>gc_wait := w, gc_mq := (gc_mq g)\<lparr>mq_queues := qs\<rparr>\<rparr>)
        } else inc_outer (i + 1) g
      } else Some g)"

definition IncreaseCount :: "guic \<Rightarrow> guic option" where
  "IncreaseCount g = inc_outer 0 g"

text \<open>
  \<open>FetchParam\<close> skips the queues that are bound and asks the others for the parameters of the
  device and of its four channels.
\<close>

definition FetchParam :: "nat option \<Rightarrow> (nat \<Rightarrow> u8) \<Rightarrow> guic \<Rightarrow> guic option" where
  "FetchParam mem junk g = for_loop 0 (mq_max (gc_mq g)) (\<lambda>i g. do {
     st \<leftarrow> aget (mq_state (gc_mq g)) i;
     if st \<noteq> 0 then Some g
     else do {
       (r, g) \<leftarrow> guic_Push mem junk i 1 1 [0] None g;
       for_loop 0 4 (\<lambda>j g. do {
         (r, g) \<leftarrow> guic_Push mem junk i 2 1 [0] (Some (word_of_int j)) g;
         (r, g) \<leftarrow> guic_Push mem junk i 3 1 [0] (Some (word_of_int j)) g;
         Some g }) g
     }
   }) g"

text \<open>\<open>PushCtrlSig\<close> passes its three 16-bit words with a size of 3 bytes.\<close>

definition PushCtrlSig ::
  "nat option \<Rightarrow> (nat \<Rightarrow> u8) \<Rightarrow> int \<Rightarrow> u16 \<Rightarrow> u16 \<Rightarrow> u16 \<Rightarrow> guic \<Rightarrow> guic option" where
  "PushCtrlSig mem junk qidx ty val1 val2 g = do {
     let buf = concat (map (\<lambda>v. [ucast v, ucast (drop_bit 8 v)]) [ty, val1, val2]);
     (r, g) \<leftarrow> guic_Push mem junk qidx 5 3 buf None g;
     Some g
   }"

text \<open>
  \<open>MessageQGuiS::Push\<close> puts a pointer to one stack buffer into every queue and stops at the first
  failure; \<open>mems\<close> are the results of the successive \<open>malloc\<close> calls.
\<close>

fun guis_loop :: "(int \<Rightarrow> nat option) \<Rightarrow> int \<Rightarrow> u8 list \<Rightarrow> int list \<Rightarrow> int \<Rightarrow> mqueue \<Rightarrow> (int \<times> mqueue) option" where
  "guis_loop mems ty buf [] retv mq = Some (retv, mq)"
| "guis_loop mems ty buf (i # is) retv mq =
     (case PushQueue (mems i) i kGUICommuCmd ty (Some (Stack_buf buf)) mq of None \<Rightarrow> None
      | Some (r, mq) \<Rightarrow> if r < 0 then Some (r, mq) else guis_loop mems ty buf is r mq)"

definition guis_Push ::
  "(int \<Rightarrow> nat option) \<Rightarrow> (nat \<Rightarrow> u8) \<Rightarrow> int \<Rightarrow> int \<Rightarrow> int \<Rightarrow> u8 list \<Rightarrow> u8 option \<Rightarrow> mqueue \<Rightarrow>
   (int \<times> mqueue) option" where
  "guis_Push mems junk retv0 ty sz data idx mq = do {
     buf \<leftarrow> msg_buf junk sz data idx;
     guis_loop mems ty buf [0..mq_max mq - 1] retv0 mq
   }"

section \<open>Invariant\<close>

text \<open>
  \<open>L ! i\<close> are the nodes of queue i: at most 32, in no other queue, with payloads that may be
  deleted; every mutex is free.
\<close>

definition deletable :: "payload option work \<Rightarrow> bool" where
  "deletable b = (case b of CleanupNode _ \<Rightarrow> False
     | WorkNode _ _ p \<Rightarrow> (case p of Some (Stack_buf _) \<Rightarrow> False | _ \<Rightarrow> True))"

definition mq_inv :: "nat list list \<Rightarrow> mqueue \<Rightarrow> bool" where
  "mq_inv L mq \<longleftrightarrow>
     mq_max mq = int (length L) \<and> length (mq_queues mq) = length L \<and> length (mq_state mq) = length L \<and>
     (\<forall>i < length L. q_inv (L ! i) (mq_heap mq, pq_task (mq_queues mq ! i)) \<and>
        \<not> c_locked (pq_control (mq_queues mq ! i)) \<and> length (L ! i) \<le> 32 \<and>
        (\<forall>a\<in>set (L ! i). deletable (n_body (the (mq_heap mq a))))) \<and>
     (\<forall>i < length L. \<forall>j < length L. i \<noteq> j \<longrightarrow> set (L ! i) \<inter> set (L ! j) = {})"

text \<open>The newest 32 of a list.\<close>

definition newest :: "'a list \<Rightarrow> 'a list" where
  "newest xs = drop (length xs - 32) xs"

lemma newest_map: "newest (map f xs) = map f (newest xs)"
  by (simp add: newest_def drop_map)

lemma mq_inv_alloc: "mq_inv L mq \<Longrightarrow> mq_heap mq a = None \<Longrightarrow> i < length L \<Longrightarrow> a \<notin> set (L ! i)"
  by (auto simp: mq_inv_def dest: q_inv_alloc)

lemma free_node_deletable:
  "h a = Some n \<Longrightarrow> deletable (n_body n) \<Longrightarrow> free_node (Some a) h = Some (h(a := None))"
  by (auto simp: free_node_def deletable_def split: work.splits option.splits payload.splits)

lemma PushQueue_unbound:
  "mq_inv L mq \<Longrightarrow> i < length L \<Longrightarrow> mq_state mq ! i = 0 \<Longrightarrow> PushQueue mem (int i) mj mn p mq = Some (0, mq)"
  by (simp add: PushQueue_def mq_inv_def aget_def)

text \<open>The queue operations of one push, on the heap that already holds the new node.\<close>

lemma put_and_trim:
  assumes inv: "q_inv as (h, q)" and a: "h a = Some n" "a \<notin> set as" and le: "length as \<le> 32"
    and del: "\<forall>b \<in> insert a (set as). deletable (n_body (the (h b)))"
  shows "\<exists>g p. (do { (h, q) \<leftarrow> queue_put a (h, q);
        if q_count q > kMaxNodeNum
        then do { (nd, h, q) \<leftarrow> queue_get (h, q); h \<leftarrow> free_node nd h; Some (h, q) }
        else Some (h, q) }) = Some (g, p) \<and>
    q_inv (newest (as @ [a])) (g, p) \<and>
    (\<forall>b. b \<notin> insert a (set as) \<longrightarrow> g b = h b) \<and>
    (\<forall>b \<in> set (newest (as @ [a])). n_body (the (g b)) = n_body (the (h b)))"
proof -
  obtain g q' where put: "queue_put a (h, q) = Some (g, q')" "q_inv (as @ [a]) (g, q')"
    "\<forall>b. n_body (the (g b)) = n_body (the (h b))" "\<forall>b. b \<notin> insert a (set as) \<longrightarrow> g b = h b"
    using queue_put_spec [OF inv a] by blast
  have cnt: "q_count q' = int (Suc (length as))" using put(2) by (simp add: q_inv_def)
  show ?thesis
  proof (cases "length as < 32")
    case True
    then show ?thesis using put cnt by (simp add: kMaxNodeNum_def newest_def)
  next
    case False
    then have len: "length as = 32" using le by simp
    then obtain x xs where as: "as = x # xs" by (cases as) auto
    obtain p where get: "queue_get (g, q') = Some (Some x, g, p)" "q_inv (xs @ [a]) (g, p)"
      using queue_get_spec [of x "xs @ [a]" g q'] put(2) as by auto
    obtain m where m: "g x = Some m" using q_inv_alloc [OF put(2), of x] as by auto
    have "deletable (n_body m)" using put(3) del as m by (metis insert_iff list.set_intros(1) option.sel)
    note fr = free_node_deletable [of g, OF m this]
    have new: "newest (as @ [a]) = xs @ [a]" using len as by (simp add: newest_def)
    have "x \<notin> set (xs @ [a])" using inv a(2) as by (auto simp: q_inv_def)
    then have "q_inv (xs @ [a]) (g(x := None), p)" by (intro q_inv_frame [OF get(2)]) auto
    then show ?thesis using put get fr new cnt len as \<open>x \<notin> set (xs @ [a])\<close>
      by (auto simp: kMaxNodeNum_def)
  qed
qed

lemma set_newest: "set (newest xs) \<subseteq> set xs"
  by (simp add: newest_def set_drop_subset)

lemma PushQueue_spec:
  assumes inv: "mq_inv L mq" and i: "i < length L" and st: "mq_state mq ! i \<noteq> 0"
    and fresh: "mq_heap mq a = None" and del: "deletable (WorkNode mj mn p)"
  shows "\<exists>mc. PushQueue (Some a) (int i) mj mn p mq = Some (0, mc) \<and>
    mq_inv (L[i := newest (L ! i @ [a])]) mc \<and> mq_state mc = mq_state mq \<and>
    bodies (newest (L ! i @ [a])) (mq_heap mc) = newest (bodies (L ! i) (mq_heap mq) @ [WorkNode mj mn p]) \<and>
    (\<forall>j < length L. j \<noteq> i \<longrightarrow> bodies (L ! j) (mq_heap mc) = bodies (L ! j) (mq_heap mq))"
proof -
  let ?as = "L ! i" and ?pq = "mq_queues mq ! i" and ?n = "\<lparr>n_next = None, n_body = WorkNode mj mn p\<rparr>"
  let ?h = "(mq_heap mq)(a \<mapsto> ?n)" and ?new = "newest (L ! i @ [a])"
  have mx: "mq_max mq = int (length L)" "length (mq_queues mq) = length L" "length (mq_state mq) = length L"
    and q: "\<And>j. j < length L \<Longrightarrow> q_inv (L ! j) (mq_heap mq, pq_task (mq_queues mq ! j))"
    and unl: "\<And>j. j < length L \<Longrightarrow> \<not> c_locked (pq_control (mq_queues mq ! j))"
    and le: "\<And>j. j < length L \<Longrightarrow> length (L ! j) \<le> 32"
    and dl: "\<And>j b. j < length L \<Longrightarrow> b \<in> set (L ! j) \<Longrightarrow> deletable (n_body (the (mq_heap mq b)))"
    and dj: "\<And>j k. j < length L \<Longrightarrow> k < length L \<Longrightarrow> j \<noteq> k \<Longrightarrow> set (L ! j) \<inter> set (L ! k) = {}"
    using inv by (auto simp: mq_inv_def)
  have new: "a \<notin> set (L ! j)" if "j < length L" for j using mq_inv_alloc [OF inv fresh that] .
  have qi: "q_inv ?as (?h, pq_task ?pq)" using new [OF i] by (intro q_inv_frame [OF q [OF i]]) auto
  have "\<forall>b \<in> insert a (set ?as). deletable (n_body (the (?h b)))" using dl [OF i] del by auto
  from put_and_trim [OF qi fun_upd_same new [OF i] le [OF i] this] obtain g q' where
    run: "(do { (h, q) \<leftarrow> queue_put a (?h, pq_task ?pq);
        if q_count q > kMaxNodeNum
        then do { (nd, h, q) \<leftarrow> queue_get (h, q); h \<leftarrow> free_node nd h; Some (h, q) }
        else Some (h, q) }) = Some (g, q')"
    and g: "q_inv ?new (g, q')" "\<forall>b. b \<notin> insert a (set ?as) \<longrightarrow> g b = ?h b"
    "\<forall>b \<in> set ?new. n_body (the (g b)) = n_body (the (?h b))" by blast
  let ?c = "(pq_control ?pq)\<lparr>c_locked := True\<rparr>"
  let ?mc = "mq\<lparr>mq_heap := g, mq_queues := (mq_queues mq)[i := \<lparr>pq_control = mutex_unlock ?c, pq_task = q'\<rparr>]\<rparr>"
  have push: "PushQueue (Some a) (int i) mj mn p mq = Some (0, ?mc)"
  proof -
    obtain h1 q1 where put: "queue_put a (?h, pq_task ?pq) = Some (h1, q1)"
      and rest: "(if q_count q1 > kMaxNodeNum
        then do { (nd, h, q) \<leftarrow> queue_get (h1, q1); h \<leftarrow> free_node nd h; Some (h, q) }
        else Some (h1, q1)) = Some (g, q')"
      using run by (auto split: Option.bind_splits prod.splits)
    show ?thesis using i st mx unl [OF i]
      by (simp add: PushQueue_def aget_def aset_def mutex_lock_def put rest)
  qed
  have old: "g b = mq_heap mq b" if "j < length L" "j \<noteq> i" "b \<in> set (L ! j)" for j b
  proof -
    have "b \<notin> set ?as" using dj [OF that(1) i that(2)] that(3) by auto
    moreover have "b \<noteq> a" using new [OF that(1)] that(3) by auto
    ultimately show ?thesis using g(2) by simp
  qed
  have sub: "set ?new \<subseteq> insert a (set ?as)" using set_newest [of "?as @ [a]"] by auto
  have len: "length ?new \<le> 32" by (simp add: newest_def)
  have delnew: "deletable (n_body (the (g b)))" if "b \<in> set ?new" for b
    using g(3) that sub dl [OF i] del by (cases "b = a") auto
  have inv': "mq_inv (L[i := ?new]) ?mc"
    unfolding mq_inv_def
  proof (intro conjI allI impI)
    fix j assume "j < length (L[i := ?new])"
    then have j: "j < length L" by simp
    show "q_inv (L[i := ?new] ! j) (mq_heap ?mc, pq_task (mq_queues ?mc ! j))"
      using g(1) i j mx old [OF j] q_inv_frame [OF q [OF j], of g] by (cases "j = i") auto
    show "\<not> c_locked (pq_control (mq_queues ?mc ! j))"
      using unl [OF j] i j mx by (cases "j = i") (auto simp: mutex_unlock_def)
    show "length (L[i := ?new] ! j) \<le> 32" using len le [OF j] i j by (cases "j = i") auto
    show "\<forall>b\<in>set (L[i := ?new] ! j). deletable (n_body (the (mq_heap ?mc b)))"
      using delnew old [OF j] dl [OF j] i j by (cases "j = i") auto
  next
    fix j k assume jk: "j < length (L[i := ?new])" "k < length (L[i := ?new])" "j \<noteq> k"
    show "set (L[i := ?new] ! j) \<inter> set (L[i := ?new] ! k) = {}"
      using jk dj [of j k] dj [of i k] dj [of i j] sub new [of j] new [of k] i
      by (auto simp: nth_list_update)
  qed (use mx in simp_all)
  have body: "bodies ?new g = newest (bodies ?as (mq_heap mq) @ [WorkNode mj mn p])"
  proof -
    have "bodies ?new g = map (\<lambda>b. n_body (the (?h b))) ?new" using g(3) by (simp add: bodies_def)
    also have "\<dots> = newest (map (\<lambda>b. n_body (the (?h b))) (?as @ [a]))" by (rule newest_map [symmetric])
    also have "map (\<lambda>b. n_body (the (?h b))) (?as @ [a]) = bodies ?as (mq_heap mq) @ [WorkNode mj mn p]"
      using new [OF i] by (auto simp: bodies_def)
    finally show ?thesis .
  qed
  have "\<forall>j < length L. j \<noteq> i \<longrightarrow> bodies (L ! j) g = bodies (L ! j) (mq_heap mq)"
    using old by (auto simp: bodies_def)
  then show ?thesis using push inv' body by auto
qed

section \<open>Calls that do not return\<close>

lemma free_loop_diverges: "free_loop s = Some r \<Longrightarrow> False"
proof (rule free_loop.raw_induct [where P = "\<lambda>_ _. False"])
  fix f s and r :: "payload option work nheap \<times> queue"
  assume step: "\<And>s r. f s = Some r \<Longrightarrow> False"
    and body: "(do { (nd, h, q) \<leftarrow> queue_get s; h \<leftarrow> free_node nd h;
      if nd \<noteq> None then f (h, q) else Some (h, q) }) = Some r"
  have never: "f s = None" for s using step [of s] by (cases "f s") auto
  show False using body
    by (auto simp: never free_node_def split: Option.bind_splits prod.splits if_splits)
qed

lemma free_loop_never: "free_loop s = None"
  by (rule ccontr) (use free_loop_diverges [of s] in blast)

lemma inc_inner_diverges: "inc_inner i j w = Some r \<Longrightarrow> j = 0 \<Longrightarrow> False"
proof (rule inc_inner.raw_induct [where P = "\<lambda>i j w r. j = 0 \<longrightarrow> False", THEN mp])
  fix f :: "int \<Rightarrow> int \<Rightarrow> u8 list list \<Rightarrow> (int \<times> u8 list list) option" and i j w r
  assume step: "\<And>i j w r. f i j w = Some r \<Longrightarrow> j = 0 \<longrightarrow> False"
    and body: "(if j < kCmdBufNum then do { row \<leftarrow> aget w i; v \<leftarrow> aget row j; row \<leftarrow> aset row j (v + 1);
        w \<leftarrow> aset w i row; f (i + 1) j w } else Some (i, w)) = Some r"
  show "j = 0 \<longrightarrow> False"
    using body step by (auto simp: kCmdBufNum_def split: Option.bind_splits if_splits)
qed

lemma inc_inner_never: "inc_inner i 0 w = None"
  by (rule ccontr) (use inc_inner_diverges [of i 0 w] in blast)

lemma inc_outer_never:
  assumes "i \<le> k" "k < mq_max (gc_mq g)" "0 \<le> i" "mq_state (gc_mq g) ! nat k \<noteq> 0"
  shows "inc_outer i g = None"
  using assms
proof (induction "nat (k - i)" arbitrary: i)
  case 0
  then have "i = k" by simp
  then show ?case using 0 by (subst inc_outer.simps) (auto simp: aget_def inc_inner_never split: Option.bind_splits)
next
  case (Suc n)
  then have "inc_outer (i + 1) g = None" by (intro Suc.hyps(1)) auto
  then show ?case using Suc.prems
    by (subst inc_outer.simps) (auto simp: inc_inner_never split: Option.bind_splits)
qed

section \<open>Properties\<close>

text \<open>
  Pushing a message with a deletable payload into a bound queue appends it, drops (and
  frees) the oldest message beyond 32, leaves the other queues as they are, and keeps the
  invariant of the whole object.
\<close>

lemma push_message:
  assumes "mq_inv L mq" "i < length L" "mq_state mq ! i \<noteq> 0" "mq_heap mq a = None"
    "deletable (WorkNode major minor p)"
  shows "\<exists>mc M. PushQueue (Some a) (int i) major minor p mq = Some (0, mc) \<and> mq_inv M mc \<and>
    bodies (M ! i) (mq_heap mc) = newest (bodies (L ! i) (mq_heap mq) @ [WorkNode major minor p]) \<and>
    (\<forall>j < length L. j \<noteq> i \<longrightarrow> M ! j = L ! j \<and> bodies (L ! j) (mq_heap mc) = bodies (L ! j) (mq_heap mq))"
proof -
  from PushQueue_spec [OF assms] obtain mc where
    "PushQueue (Some a) (int i) major minor p mq = Some (0, mc)"
    "mq_inv (L[i := newest (L ! i @ [a])]) mc"
    "bodies (newest (L ! i @ [a])) (mq_heap mc) = newest (bodies (L ! i) (mq_heap mq) @ [WorkNode major minor p])"
    "\<forall>j < length L. j \<noteq> i \<longrightarrow> bodies (L ! j) (mq_heap mc) = bodies (L ! j) (mq_heap mq)"
    by blast
  then show ?thesis using assms(2)
    by (intro exI [of _ mc] exI [of _ "L[i := newest (L ! i @ [a])]"]) auto
qed

definition example_mq :: mqueue where
  "example_mq = \<lparr>mq_max = 2, mq_queues = [idle_queue, idle_queue], mq_state = [1, 0], mq_heap = (\<lambda>_. None)\<rparr>"

lemma example_mq_inv: "mq_inv [[], []] example_mq"
  by (auto simp: mq_inv_def example_mq_def idle_queue_def q_inv_init less_Suc_eq)

lemma push_message_example:
  "\<exists>mc M. PushQueue (Some 9) (int 0) 100 1 (Some (Heap_buf [5])) example_mq = Some (0, mc) \<and> mq_inv M mc \<and>
    bodies (M ! 0) (mq_heap mc) = [WorkNode 100 1 (Some (Heap_buf [5]))]"
proof -
  have "mq_state example_mq ! 0 \<noteq> 0" "mq_heap example_mq 9 = None" "deletable (WorkNode 100 1 (Some (Heap_buf [5])))"
    by (simp_all add: example_mq_def deletable_def)
  from push_message [OF example_mq_inv _ this] obtain mc M where
    "PushQueue (Some 9) (int 0) 100 1 (Some (Heap_buf [5])) example_mq = Some (0, mc)" "mq_inv M mc"
    "bodies (M ! 0) (mq_heap mc) =
      newest (bodies ([[], []] ! 0) (mq_heap example_mq) @ [WorkNode 100 1 (Some (Heap_buf [5]))])"
    by auto
  moreover have "newest (bodies ([[], []] ! 0) (mq_heap example_mq) @ [w]) = [w]" for w
    by (simp add: bodies_def newest_def)
  ultimately show ?thesis by metis
qed

text \<open>
  \<open>Pop\<close> returns the oldest message of a queue but leaves the mutex of the queue locked:
  the next push into that queue, if it is bound, does not return.
\<close>

lemma pop_keeps_lock:
  assumes "mq_inv L mq" "i < length L" "L ! i = a # as" "mq_state mq ! i \<noteq> 0"
  shows "\<exists>mc. PopQueue (int i) mq = Some (Some a, mc) \<and>
    PushQueue (Some b) (int i) major minor p mc = None"
proof -
  have mx: "mq_max mq = int (length L)" "length (mq_queues mq) = length L" "length (mq_state mq) = length L"
    and q: "q_inv (a # as) (mq_heap mq, pq_task (mq_queues mq ! i))"
    and unl: "\<not> c_locked (pq_control (mq_queues mq ! i))"
    using assms(1-3) by (auto simp: mq_inv_def)
  from queue_get_spec [OF q] obtain q' where
    get: "queue_get (mq_heap mq, pq_task (mq_queues mq ! i)) = Some (Some a, mq_heap mq, q')" by blast
  let ?mc = "mq\<lparr>mq_queues := (mq_queues mq)[i := \<lparr>pq_control = (pq_control (mq_queues mq ! i))\<lparr>c_locked := True\<rparr>,
    pq_task = q'\<rparr>]\<rparr>"
  have "PopQueue (int i) mq = Some (Some a, ?mc)"
    using mx assms(2) unl get by (simp add: PopQueue_def aget_def aset_def mutex_lock_def)
  moreover have "PushQueue (Some b) (int i) major minor p ?mc = None"
    using mx assms(2,4) by (simp add: PushQueue_def aget_def mutex_lock_def)
  ultimately show ?thesis by blast
qed

definition example_mq1 :: mqueue where
  "example_mq1 = \<lparr>mq_max = 1, mq_queues = [idle_queue\<lparr>pq_task := \<lparr>q_head = Some 9, q_tail = Some 9, q_count = 1\<rparr>\<rparr>],
     mq_state = [1], mq_heap = [9 \<mapsto> \<lparr>n_next = None, n_body = WorkNode 100 1 None\<rparr>]\<rparr>"

lemma example_mq1_inv: "mq_inv [[9]] example_mq1"
  by (auto simp: mq_inv_def example_mq1_def idle_queue_def q_inv_def deletable_def)

lemma pop_keeps_lock_example:
  "\<exists>mc. PopQueue (int 0) example_mq1 = Some (Some 9, mc) \<and>
    PushQueue (Some 2) (int 0) 100 1 None mc = None"
  using pop_keeps_lock [OF example_mq1_inv, of 0 9 "[]" 2 100 1 None] by (simp add: example_mq1_def)

text \<open>
  Freeing a queue never ends normally: its loop dereferences the NULL that \<open>queue_get\<close>
  returns once the queue is empty.
\<close>

lemma free_queue_fails:
  assumes "0 \<le> idx" "idx < mq_max mq"
  shows "FreeQueue idx mq = None"
  using assms by (auto simp: FreeQueue_def free_loop_never split: Option.bind_splits)

lemma free_queue_fails_example: "FreeQueue 1 example_mq = None"
  by (rule free_queue_fails) (simp_all add: example_mq_def)

text \<open>
  As soon as one queue is bound, incrementing the wait counters never ends normally: the
  inner loop advances the queue index until it leaves the array.
\<close>

lemma increase_count_fails:
  assumes "0 \<le> i" "i < mq_max (gc_mq g)" "mq_state (gc_mq g) ! nat i \<noteq> 0"
  shows "IncreaseCount g = None"
  using inc_outer_never [of 0 i g] assms by (simp add: IncreaseCount_def)

lemma increase_count_fails_example:
  "IncreaseCount \<lparr>gc_mq = example_mq, gc_wait = [replicate 64 0, replicate 64 0]\<rparr> = None"
  by (rule increase_count_fails [of 0]) (simp_all add: example_mq_def)

text \<open>
  A GUI message with an index byte is its total size in four bytes, the index and the
  data; without an index byte, copying one or more bytes of data overruns the buffer.
\<close>

lemma gui_message_layout:
  assumes "length data = n"
  shows "msg_buf junk (int n) data (Some b) = Some (le32 (int n + 5) @ b # data) \<and>
    (0 < n \<longrightarrow> msg_buf junk (int n) data None = None)"
proof -
  have n5: "nat (int n + 5) = n + 5" "nat 5 = 5" "nat 4 = 4" by simp_all
  have "(le32 m @ drop 4 (map junk [0..<n + 5]))[4 := b] = le32 m @ b # drop 5 (map junk [0..<n + 5])" for m
  proof -
    have "(drop 4 L)[0 := b] = b # drop 5 L" if "4 < length L" for L
      using that drop_Suc [of 4 L] tl_drop [of 4 L] by (cases "drop 4 L") (auto simp: numeral_eq_Suc)
    then show ?thesis by (simp add: list_update_append)
  qed
  then show ?thesis using assms
    by (simp add: msg_buf_def blit_def aset_def aslice_def Let_def n5 add.commute [of 5 "int n"])
qed

lemma gui_message_layout_example:
  "msg_buf (\<lambda>_. 0) 1 [7] (Some 3) = Some (le32 6 @ [3, 7]) \<and> msg_buf (\<lambda>_. 0) 1 [7] None = None"
  using gui_message_layout [of "[7]" 1 "\<lambda>_. 0" 3] by simp

end
