(* ===== verification/Phy_PqB.thy ===== *)
theory Phy_PqB
  imports Prelude
begin

text \<open>
  The physical layer of protocol type B (common/commu/protocol/phy_prtcl_pqb.cpp, .h): framing
  with a start mark, the packed header \<open>CommDataHead\<close>, an Adler-32 check sum and optional
  compression.  zlib's \<open>adler32\<close> and \<open>compress\<close> are parameters.  A received frame starts with
  5c 7c 3b cf, a sent one with ee ee 55 aa 3c c3.
\<close>

section \<open>The packed header\<close>

record commhead =
  adler_sum :: u32
  dev_num :: u16
  prtcl_type :: u8
  prtcl_ver :: u8
  hd_cmd :: u8
  body_len :: u16
  hd_compress :: u8
  compress_alg :: u8
  frm_sn :: u8
  window_sz :: u8
  equip_type :: u8
  unit_scale :: u8
  hd_reserve :: "u8 list"

definition HeadSz :: int where "HeadSz = 20"
definition FrmHdSz :: int where "FrmHdSz = 4"
definition RxMaxNum :: int where "RxMaxNum = 2048"
definition TxBufNum :: int where "TxBufNum = 15360"

definition le2 :: "u16 \<Rightarrow> u8 list" where
  "le2 w = [ucast w, ucast (drop_bit 8 w)]"

definition le4 :: "u32 \<Rightarrow> u8 list" where
  "le4 w = [ucast w, ucast (drop_bit 8 w), ucast (drop_bit 16 w), ucast (drop_bit 24 w)]"

definition of_le2 :: "u8 \<Rightarrow> u8 \<Rightarrow> u16" where
  "of_le2 a b = ucast a OR push_bit 8 (ucast b)"

definition of_le4 :: "u8 \<Rightarrow> u8 \<Rightarrow> u8 \<Rightarrow> u8 \<Rightarrow> u32" where
  "of_le4 a b c d = ucast a OR push_bit 8 (ucast b) OR push_bit 16 (ucast c) OR push_bit 24 (ucast d)"

text \<open>The header in memory: 4-byte \<open>unsigned long\<close>, no padding.\<close>

definition head_tail_bytes :: "commhead \<Rightarrow> u8 list" where
  "head_tail_bytes h = le2 (dev_num h) @ [prtcl_type h, prtcl_ver h, hd_cmd h] @ le2 (body_len h) @
     [hd_compress h, compress_alg h, frm_sn h, window_sz h, equip_type h, unit_scale h] @ hd_reserve h"

definition head_bytes :: "commhead \<Rightarrow> u8 list" where
  "head_bytes h = le4 (adler_sum h) @ head_tail_bytes h"

definition head_of :: "u8 list \<Rightarrow> commhead" where
  "head_of b = \<lparr>adler_sum = of_le4 (b ! 0) (b ! 1) (b ! 2) (b ! 3), dev_num = of_le2 (b ! 4) (b ! 5),
     prtcl_type = b ! 6, prtcl_ver = b ! 7, hd_cmd = b ! 8, body_len = of_le2 (b ! 9) (b ! 10),
     hd_compress = b ! 11, compress_alg = b ! 12, frm_sn = b ! 13, window_sz = b ! 14,
     equip_type = b ! 15, unit_scale = b ! 16, hd_reserve = [b ! 17, b ! 18, b ! 19]\<rparr>"

lemma of_le2_le2 [simp]: "of_le2 (ucast w) (ucast (drop_bit 8 w)) = w"
  unfolding of_le2_def by (rule bit_word_eqI) (auto simp: bit_simps)

lemma of_le4_le4 [simp]:
  "of_le4 (ucast w) (ucast (drop_bit 8 w)) (ucast (drop_bit 16 w)) (ucast (drop_bit 24 w)) = w"
  unfolding of_le4_def
proof (rule bit_word_eqI)
  fix n assume n: "n < LENGTH(32)"
  consider "n < 8" | "8 \<le> n" "n < 16" | "16 \<le> n" "n < 24" | "24 \<le> n" by linarith
  then show "bit ((ucast (ucast w :: u8) :: u32) OR push_bit 8 (ucast (ucast (drop_bit 8 w) :: u8)) OR
      push_bit 16 (ucast (ucast (drop_bit 16 w) :: u8)) OR
      push_bit 24 (ucast (ucast (drop_bit 24 w) :: u8))) n = bit w n"
    using n by cases (auto simp: bit_simps)
qed

lemma length_head_bytes: "length (hd_reserve h) = 3 \<Longrightarrow> length (head_bytes h) = 20"
  by (simp add: head_bytes_def head_tail_bytes_def le2_def le4_def)

lemma head_of_bytes:
  assumes "length (hd_reserve h) = 3" shows "head_of (head_bytes h) = h"
proof -
  obtain a b c where "hd_reserve h = [a, b, c]"
    using assms by (auto simp: numeral_eq_Suc length_Suc_conv)
  then show ?thesis
    by (simp add: head_of_def head_bytes_def head_tail_bytes_def le2_def le4_def)
qed

section \<open>State and operations\<close>

record pqb =
  m_rx_cnt :: int
  m_data_hd :: commhead
  pb_dev_num :: u16
  m_tx_buf :: "u8 list"

definition blank_head :: commhead where
  "blank_head = head_of (replicate 20 0)"

text \<open>The constructor sets \<open>m_rx_cnt\<close> to 1; everything else is indeterminate.\<close>

definition new_pqb :: "commhead \<Rightarrow> u16 \<Rightarrow> (nat \<Rightarrow> u8) \<Rightarrow> pqb" where
  "new_pqb h dev junk = \<lparr>m_rx_cnt = 1, m_data_hd = h, pb_dev_num = dev,
     m_tx_buf = map junk [0..<nat TxBufNum]\<rparr>"

definition get_rxmaxn :: int where
  "get_rxmaxn = RxMaxNum * 2"

definition set_dev_num :: "u16 \<Rightarrow> pqb \<Rightarrow> pqb" where
  "set_dev_num v p = p\<lparr>pb_dev_num := v\<rparr>"

text \<open>The search for the start mark; the comparisons are short-circuit.\<close>

fun starts_at :: "u8 list \<Rightarrow> int \<Rightarrow> u8 list \<Rightarrow> bool option" where
  "starts_at buf j [] = Some True"
| "starts_at buf j (m # ms) =
     (case aget buf j of None \<Rightarrow> None
      | Some b \<Rightarrow> if b = m then starts_at buf (j + 1) ms else Some False)"

function scan_head :: "u8 list \<Rightarrow> int \<Rightarrow> int \<Rightarrow> (bool \<times> int) option" where
  "scan_head buf cnt j =
     (if j + FrmHdSz \<le> cnt then
        (case starts_at buf j [0x5c, 0x7c, 0x3b, 0xcf] of None \<Rightarrow> None
         | Some True \<Rightarrow> Some (True, j)
         | Some False \<Rightarrow> scan_head buf cnt (j + 1))
      else Some (False, j))"
  by pat_completeness auto
termination by (relation "measure (\<lambda>(buf, cnt, j). nat (cnt - j))") (auto simp: FrmHdSz_def)

declare scan_head.simps [simp del]

text \<open>\<open>for (i=0;(j+i)<m_rx_cnt;i++) rxbuf[i] = rxbuf[j+i];\<close>\<close>

definition copy_down :: "u8 list \<Rightarrow> int \<Rightarrow> int \<Rightarrow> u8 list option" where
  "copy_down buf cnt j = for_loop 0 (cnt - j) (\<lambda>i buf. do { b \<leftarrow> aget buf (j + i); aset buf i b }) buf"

text \<open>
  One turn of the do-while loop from position \<open>j\<close>: either the call is over (\<open>Inl\<close> of the new
  buffer, count and number of frames), or a complete frame was handled (\<open>Inr\<close> with the next
  position).  The offset array is \<open>ofst\<close>, written at index \<open>retval\<close>.
\<close>

record unpack =
  u_buf :: "u8 list"
  u_cnt :: int
  u_hd :: commhead
  u_ret :: int
  u_ofst :: "int list"

definition take_frame ::
  "u32 \<Rightarrow> (u32 \<Rightarrow> u8 list \<Rightarrow> u32) \<Rightarrow> u16 \<Rightarrow> int \<Rightarrow> unpack \<Rightarrow> unpack option" where
  "take_frame ad0 adl dev j u =
     (let k = j + FrmHdSz; h = u_hd u in
      if dev_num h = dev \<or> dev_num h = 0 then do {
        bs \<leftarrow> aslice (u_buf u) (k + 4)
          (if hd_compress h \<noteq> 0 then HeadSz - 4 else uint (body_len h) + HeadSz - 4);
        if adl ad0 bs = adler_sum h then do {
          o' \<leftarrow> aset (u_ofst u) (u_ret u) (j + FrmHdSz);
          let u = u\<lparr>u_ret := u_ret u + 1, u_ofst := o'\<rparr>;
          Some (if u_ret u > 8 then u\<lparr>u_cnt := 0\<rparr> else u)
        } else Some u
      } else Some u)"

definition keep_rest :: "int \<Rightarrow> unpack \<Rightarrow> unpack option" where
  "keep_rest j u = do {
     b \<leftarrow> copy_down (u_buf u) (u_cnt u) j;
     Some (u\<lparr>u_buf := b, u_cnt := max 0 (u_cnt u - j)\<rparr>)
   }"

definition no_head :: "int \<Rightarrow> unpack \<Rightarrow> unpack option" where
  "no_head j u = do {
     b0 \<leftarrow> aget (u_buf u) j;
     buf \<leftarrow> aset (u_buf u) 0 b0;
     b1 \<leftarrow> aget buf (j + 1);
     buf \<leftarrow> aset buf 1 b1;
     b2 \<leftarrow> aget buf (j + 2);
     buf \<leftarrow> aset buf 2 b2;
     Some (u\<lparr>u_buf := buf, u_cnt := 3\<rparr>)
   }"

definition unpack_turn ::
  "u32 \<Rightarrow> (u32 \<Rightarrow> u8 list \<Rightarrow> u32) \<Rightarrow> u16 \<Rightarrow> int \<Rightarrow> unpack \<Rightarrow> (unpack + unpack \<times> int) option" where
  "unpack_turn ad0 adl dev j u = do {
     (reved_hd, j) \<leftarrow> scan_head (u_buf u) (u_cnt u) j;
     if reved_hd then
       (let hd_end = j + FrmHdSz + HeadSz in
        if hd_end \<le> u_cnt u then do {
          hb \<leftarrow> aslice (u_buf u) (j + FrmHdSz) HeadSz;
          let u = u\<lparr>u_hd := head_of hb\<rparr>;
          let bl = uint (body_len (u_hd u));
          if bl > RxMaxNum then Some (Inl (u\<lparr>u_cnt := 0\<rparr>))
          else if hd_end + bl \<le> u_cnt u then do {
            u \<leftarrow> take_frame ad0 adl dev j u;
            Some (if hd_end + bl - 1 < u_cnt u then Inr (u, hd_end + bl - 1) else Inl u)
          } else do { u \<leftarrow> keep_rest j u; Some (Inl u) }
        } else do { u \<leftarrow> keep_rest j u; Some (Inl u) })
     else do { u \<leftarrow> no_head j u; Some (Inl u) }
   }"

lemma scan_head_found:
  assumes "scan_head buf cnt j = Some (r, k)"
  shows "j \<le> k \<and> (r \<longrightarrow> 0 \<le> k \<and> k + 4 \<le> cnt) \<and> (\<not> r \<longrightarrow> (if j + 4 \<le> cnt then k + 3 = cnt else k = j))"
  using assms
proof (induction buf cnt j rule: scan_head.induct)
  case (1 buf cnt j)
  show ?case
  proof (cases "j + 4 \<le> cnt")
    case False
    then show ?thesis using 1(2) by (simp add: scan_head.simps [of buf cnt j] FrmHdSz_def)
  next
    case True
    then obtain f where f: "starts_at buf j [0x5c, 0x7c, 0x3b, 0xcf] = Some f" using 1(2)
      by (auto simp: scan_head.simps [of buf cnt j] FrmHdSz_def split: option.splits)
    show ?thesis
    proof (cases f)
      case True
      then have "r" "k = j" using 1(2) f \<open>j + 4 \<le> cnt\<close>
        by (auto simp: scan_head.simps [of buf cnt j] FrmHdSz_def)
      moreover have "0 \<le> j" using f by (auto simp: aget_def split: if_splits)
      ultimately show ?thesis using \<open>j + 4 \<le> cnt\<close> by simp
    next
      case False
      then have "scan_head buf cnt (j + 1) = Some (r, k)" using 1(2) f \<open>j + 4 \<le> cnt\<close>
        by (auto simp: scan_head.simps [of buf cnt j] FrmHdSz_def)
      then have "j + 1 \<le> k \<and> (r \<longrightarrow> 0 \<le> k \<and> k + 4 \<le> cnt) \<and>
          (\<not> r \<longrightarrow> (if j + 1 + 4 \<le> cnt then k + 3 = cnt else k = j + 1))"
        using 1(1) [OF _ f] False \<open>j + 4 \<le> cnt\<close> by (simp add: FrmHdSz_def)
      then show ?thesis using \<open>j + 4 \<le> cnt\<close> by (auto split: if_splits)
    qed
  qed
qed

lemma take_frame_cnt:
  "take_frame ad0 adl dev j u = Some v \<Longrightarrow> u_cnt v = u_cnt u \<or> u_cnt v = 0"
  by (auto simp: take_frame_def Let_def split: Option.bind_splits if_splits)

lemma unpack_turn_progress:
  assumes "unpack_turn ad0 adl dev j u = Some (Inr (v, k))"
  shows "j < k \<and> k < u_cnt v \<and> u_cnt v = u_cnt u"
proof -
  from assms obtain i w where i: "scan_head (u_buf u) (u_cnt u) j = Some (True, i)"
    and w: "take_frame ad0 adl dev i w = Some v" "u_cnt w = u_cnt u"
    and k: "k = i + FrmHdSz + HeadSz + uint (body_len (u_hd w)) - 1" "k < u_cnt v"
    by (auto simp: unpack_turn_def Let_def split: Option.bind_splits if_splits prod.splits)
  have "0 \<le> i" "j \<le> i" using scan_head_found [OF i] by auto
  moreover have "0 \<le> uint (body_len (u_hd w))" by simp
  moreover have "k = i + 24 + uint (body_len (u_hd w)) - 1" using k(1) by (simp add: FrmHdSz_def HeadSz_def)
  moreover have "u_cnt v = u_cnt u \<or> u_cnt v = 0" using take_frame_cnt [OF w(1)] w(2) by simp
  ultimately show ?thesis using k(2) by linarith
qed

function unpack_loop ::
  "u32 \<Rightarrow> (u32 \<Rightarrow> u8 list \<Rightarrow> u32) \<Rightarrow> u16 \<Rightarrow> int \<Rightarrow> unpack \<Rightarrow> unpack option" where
  "unpack_loop ad0 adl dev j u =
     (case unpack_turn ad0 adl dev j u of
        None \<Rightarrow> None
      | Some (Inl v) \<Rightarrow> Some v
      | Some (Inr (v, k)) \<Rightarrow> unpack_loop ad0 adl dev k v)"
  by pat_completeness auto
termination
  by (relation "measure (\<lambda>(ad0, adl, dev, j, u). nat (u_cnt u - j))")
    (auto dest!: unpack_turn_progress)

declare unpack_loop.simps [simp del]

text \<open>
  \<open>UnpackData\<close>: the received bytes are appended to \<open>rxbuf\<close>; a read of 2048 bytes or more is
  ignored.  The result is the number of frames, the buffer and the frame offsets.
\<close>

definition UnpackData ::
  "u32 \<Rightarrow> (u32 \<Rightarrow> u8 list \<Rightarrow> u32) \<Rightarrow> u8 list \<Rightarrow> int \<Rightarrow> u8 list \<Rightarrow> int list \<Rightarrow> pqb \<Rightarrow>
   (int \<times> u8 list \<times> int list \<times> pqb) option" where
  "UnpackData ad0 adl rxdata cnt rxbuf ofst p =
     (if cnt > 0 \<and> cnt < RxMaxNum then do {
        rxbuf \<leftarrow> for_loop 0 cnt (\<lambda>i b. do { x \<leftarrow> aget rxdata i; aset b (m_rx_cnt p + i) x }) rxbuf;
        u \<leftarrow> unpack_loop ad0 adl (pb_dev_num p) 0
          \<lparr>u_buf = rxbuf, u_cnt = m_rx_cnt p + cnt, u_hd = m_data_hd p, u_ret = 0, u_ofst = ofst\<rparr>;
        Some (u_ret u, u_buf u, u_ofst u, p\<lparr>m_rx_cnt := u_cnt u, m_data_hd := u_hd u\<rparr>)
      } else Some (0, rxbuf, ofst, p))"

text \<open>
  \<open>PackData\<close>: \<open>cmprs src cap\<close> is what \<open>compress\<close> writes for \<open>src\<close> into a destination of
  \<open>cap\<close> bytes; its length becomes the body length.  A negative byte count is not passed.
\<close>

definition PackData ::
  "u32 \<Rightarrow> (u32 \<Rightarrow> u8 list \<Rightarrow> u32) \<Rightarrow> (u8 list \<Rightarrow> int \<Rightarrow> u8 list) \<Rightarrow> u8 list \<Rightarrow> int \<Rightarrow> pqb \<Rightarrow>
   (int \<times> u8 list \<times> int \<times> pqb) option" where
  "PackData ad0 adl cmprs idata num p =
     (let li = (num * 101) sdiv 100 + 20 in
      if li > TxBufNum then Some (1, [], num, p)
      else do {
        tx \<leftarrow> blit (m_tx_buf p) 0 [0xee, 0xee, 0x55, 0xaa, 0x3c, 0xc3];
        hb \<leftarrow> aslice idata 0 HeadSz;
        let h = head_of hb;
        body \<leftarrow> aslice idata HeadSz (uint (body_len h));
        (tx, h, i) \<leftarrow>
          (if hd_compress h \<noteq> 0 then do {
             let out = cmprs body li;
             tx \<leftarrow> blit tx (6 + HeadSz) out;
             Some (tx, h\<lparr>body_len := word_of_int (int (length out))\<rparr>, HeadSz - 4)
           } else do {
             tx \<leftarrow> blit tx (6 + HeadSz) body;
             Some (tx, h, HeadSz - 4 + uint (body_len h))
           });
        tx \<leftarrow> blit tx 10 (head_tail_bytes h);
        bs \<leftarrow> aslice tx 10 i;
        let h = h\<lparr>adler_sum := adl ad0 bs\<rparr>;
        tx \<leftarrow> blit tx 6 (le4 (adler_sum h));
        let n = 6 + HeadSz + uint (body_len h);
        out \<leftarrow> aslice tx 0 n;
        Some (0, out, n, p\<lparr>m_tx_buf := tx, m_data_hd := h\<rparr>)
      })"

section \<open>Memory safety\<close>

lemma starts_at_total:
  "0 \<le> j \<Longrightarrow> j + int (length ms) \<le> int (length buf) \<Longrightarrow> \<exists>r. starts_at buf j ms = Some r"
  by (induction ms arbitrary: j) (auto simp: aget_def)

lemma scan_head_total: "0 \<le> j \<Longrightarrow> cnt \<le> int (length buf) \<Longrightarrow> \<exists>r k. scan_head buf cnt j = Some (r, k)"
proof (induction buf cnt j rule: scan_head.induct)
  case (1 buf cnt j)
  show ?case
  proof (cases "j + 4 \<le> cnt")
    case True
    then obtain r where r: "starts_at buf j [0x5c, 0x7c, 0x3b, 0xcf] = Some r"
      using starts_at_total [of j "[0x5c, 0x7c, 0x3b, 0xcf]" buf] 1(2,3) by auto
    have "\<not> r \<Longrightarrow> \<exists>r k. scan_head buf cnt (j + 1) = Some (r, k)"
      using 1(1) [OF _ r] True 1(2,3) by (simp add: FrmHdSz_def)
    then show ?thesis using r by (cases r; subst scan_head.simps) (auto split: option.splits)
  next
    case False
    then show ?thesis by (intro exI) (subst scan_head.simps, simp add: FrmHdSz_def)
  qed
qed

lemma copy_down_total:
  assumes "0 \<le> j" "cnt \<le> int (length buf)"
  shows "\<exists>b. copy_down buf cnt j = Some b \<and> length b = length buf"
  unfolding copy_down_def
  by (rule for_loop_total [where P = "\<lambda>b. length b = length buf"])
    (use assms in \<open>auto simp: aget_def aset_def\<close>)

definition u_ok :: "nat \<Rightarrow> nat \<Rightarrow> int \<Rightarrow> unpack \<Rightarrow> bool" where
  "u_ok n m tp u \<longleftrightarrow> length (u_buf u) = n \<and> length (u_ofst u) = m \<and> 0 \<le> u_cnt u \<and> u_cnt u \<le> tp \<and>
     0 \<le> u_ret u"

lemma take_frame_total:
  assumes "u_ok n m tp u" "0 \<le> j" "j + 24 + uint (body_len (u_hd u)) \<le> u_cnt u" "tp \<le> int n"
    "u_ret u \<le> 8" "9 \<le> m"
  shows "\<exists>v. take_frame ad0 adl dev j u = Some v \<and> u_ok n m tp v \<and> u_ret v \<le> 9 \<and>
    (u_ret v \<le> 8 \<or> u_cnt v = 0)"
proof -
  let ?bl = "uint (body_len (u_hd u))"
  have bl: "0 \<le> ?bl" by simp
  have n: "u_cnt u \<le> int (length (u_buf u))" using assms(1,4) by (simp add: u_ok_def)
  have "j + 24 \<le> u_cnt u" using bl assms(3) by linarith
  then obtain b1 where b1: "aslice (u_buf u) (j + FrmHdSz + 4) (HeadSz - 4) = Some b1"
    using n assms(2) by (simp add: aslice_def FrmHdSz_def HeadSz_def)
  obtain b2 where b2: "aslice (u_buf u) (j + FrmHdSz + 4) (?bl + HeadSz - 4) = Some b2"
    using n assms(2,3) bl by (simp add: aslice_def FrmHdSz_def HeadSz_def)
  obtain b where "adl ad0 (if hd_compress (u_hd u) \<noteq> 0 then b1 else b2) = b" by blast
  moreover obtain o' where "aset (u_ofst u) (u_ret u) (j + FrmHdSz) = Some o'" "length o' = length (u_ofst u)"
    using assms(1,5,6) by (simp add: u_ok_def aset_def)
  ultimately show ?thesis using assms(1,5)
    by (cases "dev_num (u_hd u) = dev \<or> dev_num (u_hd u) = 0"; cases "b = adler_sum (u_hd u)";
        cases "hd_compress (u_hd u) \<noteq> 0")
      (auto simp: take_frame_def Let_def u_ok_def b1 b2)
qed

lemma keep_rest_total:
  assumes "u_ok n m tp u" "0 \<le> j" "u_cnt u \<le> j + 2071" "tp \<le> int n"
  shows "\<exists>v. keep_rest j u = Some v \<and> u_ok n m 2071 v \<and> u_ret v = u_ret u"
  using copy_down_total [of j "u_cnt u" "u_buf u"] assms by (auto simp: keep_rest_def u_ok_def)

lemma no_head_total:
  assumes "u_ok n m tp u" "0 \<le> j" "j + 2 < int n"
  shows "\<exists>v. no_head j u = Some v \<and> u_ok n m 2071 v \<and> u_ret v = u_ret u"
  using assms by (auto simp: no_head_def u_ok_def aget_def aset_def)

lemma unpack_turn_total:
  assumes u: "u_ok n m tp u" and j: "0 \<le> j" "j < u_cnt u" and sz: "tp + 2 \<le> int n" and r: "u_ret u \<le> 8" "9 \<le> m"
  shows "\<exists>r. unpack_turn ad0 adl dev j u = Some r \<and>
    (case r of Inl v \<Rightarrow> u_ok n m 2071 v \<and> u_ret v \<le> 9
     | Inr (v, k) \<Rightarrow> u_ok n m tp v \<and> u_ret v \<le> 8 \<and> 0 \<le> k \<and> k < u_cnt v)"
proof -
  obtain h k where s: "scan_head (u_buf u) (u_cnt u) j = Some (h, k)"
    using scan_head_total [OF j(1), of "u_cnt u" "u_buf u"] u sz by (auto simp: u_ok_def)
  note f = scan_head_found [OF s]
  show ?thesis
  proof (cases h)
    case False
    then have "k < u_cnt u" using f j by (auto split: if_splits)
    then have "0 \<le> k" "k + 2 < int n" using f j u sz by (auto simp: u_ok_def)
    from no_head_total [OF u this] show ?thesis using s False r by (auto simp: unpack_turn_def)
  next
    case True
    then have k: "0 \<le> k" "j \<le> k" using f by auto
    show ?thesis
    proof (cases "k + 24 \<le> u_cnt u")
      case False
      then have "u_cnt u \<le> k + 2071" by simp
      from keep_rest_total [OF u k(1) this] sz show ?thesis using s True False r
        by (auto simp: unpack_turn_def FrmHdSz_def HeadSz_def)
    next
      case hd: True
      obtain hb where hb: "aslice (u_buf u) (k + 4) 20 = Some hb"
        using hd k u sz by (auto simp: aslice_def u_ok_def)
      let ?w = "u\<lparr>u_hd := head_of hb\<rparr>" and ?bl = "uint (body_len (head_of hb))"
      have w: "u_ok n m tp ?w" "u_ret ?w \<le> 8" using u r by (simp_all add: u_ok_def)
      consider (big) "?bl > 2048" | (part) "?bl \<le> 2048" "\<not> k + 24 + ?bl \<le> u_cnt u"
        | (all) "?bl \<le> 2048" "k + 24 + ?bl \<le> u_cnt u" by linarith
      then show ?thesis
      proof cases
        case big
        then show ?thesis using s True hd hb u r
          by (auto simp: unpack_turn_def FrmHdSz_def HeadSz_def RxMaxNum_def u_ok_def)
      next
        case part
        then have "u_cnt ?w \<le> k + 2071" by simp
        from keep_rest_total [OF w(1) k(1) this] sz show ?thesis using s True hd hb part r
          by (auto simp: unpack_turn_def FrmHdSz_def HeadSz_def RxMaxNum_def)
      next
        case all
        obtain v where v: "take_frame ad0 adl dev k ?w = Some v" "u_ok n m tp v" "u_ret v \<le> 9"
          "u_ret v \<le> 8 \<or> u_cnt v = 0"
          using take_frame_total [OF w(1) k(1) _ _ w(2) r(2)] all(2) sz by fastforce
        have nn: "0 \<le> k + 23 + ?bl" using k by (simp add: add_nonneg_nonneg)
        have turn: "unpack_turn ad0 adl dev j u =
            Some (if k + 23 + ?bl < u_cnt v then Inr (v, k + 23 + ?bl) else Inl v)"
          using s True hd hb all v(1) by (simp add: unpack_turn_def FrmHdSz_def HeadSz_def RxMaxNum_def)
        have "u_cnt v \<noteq> 0 \<Longrightarrow> u_cnt v = u_cnt u" using take_frame_cnt [OF v(1)] by simp
        then have "\<not> k + 23 + ?bl < u_cnt v \<Longrightarrow> u_cnt v = 0" using all(2) by linarith
        then show ?thesis using turn v nn by (auto simp: u_ok_def)
      qed
    qed
  qed
qed

lemma unpack_loop_total:
  assumes "u_ok n m tp u" "0 \<le> j" "j < u_cnt u" "tp + 2 \<le> int n" "u_ret u \<le> 8" "9 \<le> m"
  shows "\<exists>v. unpack_loop ad0 adl dev j u = Some v \<and> u_ok n m 2071 v \<and> u_ret v \<le> 9"
  using assms
proof (induction ad0 adl dev j u rule: unpack_loop.induct)
  case (1 ad0 adl dev j u)
  from unpack_turn_total [OF 1(2-7)] obtain r where
    r: "unpack_turn ad0 adl dev j u = Some r"
    "case r of Inl v \<Rightarrow> u_ok n m 2071 v \<and> u_ret v \<le> 9
     | Inr (v, k) \<Rightarrow> u_ok n m tp v \<and> u_ret v \<le> 8 \<and> 0 \<le> k \<and> k < u_cnt v" by blast
  then show ?case
    using 1(1) [of r] 1(5,7) by (cases r) (auto simp: unpack_loop.simps [of ad0 adl dev j u])
qed

lemma receive_total:
  assumes "0 \<le> off" "off + cnt \<le> int (length buf)" "cnt \<le> int (length rx)"
  shows "\<exists>b. for_loop 0 cnt (\<lambda>i b. do { x \<leftarrow> aget rx i; aset b (off + i) x }) buf = Some b \<and>
    length b = length buf"
  by (rule for_loop_total [where P = "\<lambda>b. length b = length buf"])
    (use assms in \<open>auto simp: aget_def aset_def\<close>)

lemma UnpackData_total:
  assumes "0 \<le> m_rx_cnt p" "m_rx_cnt p \<le> 2071" "4120 \<le> length buf" "9 \<le> length ofst" "cnt \<le> int (length rx)"
  shows "\<exists>r b o' q. UnpackData ad0 adl rx cnt buf ofst p = Some (r, b, o', q) \<and>
    0 \<le> r \<and> r \<le> 9 \<and> 0 \<le> m_rx_cnt q \<and> m_rx_cnt q \<le> 2071 \<and> length b = length buf \<and> length o' = length ofst"
proof (cases "cnt > 0 \<and> cnt < RxMaxNum")
  case False
  then have "UnpackData ad0 adl rx cnt buf ofst p = Some (0, buf, ofst, p)"
    unfolding UnpackData_def by (rule if_not_P)
  then show ?thesis using assms by simp
next
  case True
  then have c: "0 < cnt" "cnt \<le> 2047" by (auto simp: RxMaxNum_def)
  obtain b where b: "for_loop 0 cnt (\<lambda>i b. do { x \<leftarrow> aget rx i; aset b (m_rx_cnt p + i) x }) buf = Some b"
    "length b = length buf"
    using receive_total [OF assms(1), of cnt buf rx] assms c by auto
  let ?u = "\<lparr>u_buf = b, u_cnt = m_rx_cnt p + cnt, u_hd = m_data_hd p, u_ret = 0, u_ofst = ofst\<rparr>"
  have "u_ok (length buf) (length ofst) 4118 ?u" using assms c b(2) by (simp add: u_ok_def)
  from unpack_loop_total [OF this, of 0 ad0 adl "pb_dev_num p"] obtain v where
    "unpack_loop ad0 adl (pb_dev_num p) 0 ?u = Some v" "u_ok (length buf) (length ofst) 2071 v" "u_ret v \<le> 9"
    using assms c by auto
  then show ?thesis using True b by (auto simp: UnpackData_def u_ok_def)
qed

section \<open>Complete and split frames\<close>

definition rx_mark :: "u8 list" where
  "rx_mark = [0x5c, 0x7c, 0x3b, 0xcf]"

definition rx_frame :: "commhead \<Rightarrow> u8 list \<Rightarrow> u8 list" where
  "rx_frame h body = rx_mark @ head_bytes h @ body"

definition frame_ok ::
  "u32 \<Rightarrow> (u32 \<Rightarrow> u8 list \<Rightarrow> u32) \<Rightarrow> u16 \<Rightarrow> commhead \<Rightarrow> u8 list \<Rightarrow> bool" where
  "frame_ok ad0 adl dev h body \<longleftrightarrow> length (hd_reserve h) = 3 \<and> uint (body_len h) = int (length body) \<and>
     length body \<le> 2048 \<and> (dev_num h = dev \<or> dev_num h = 0) \<and>
     adler_sum h = adl ad0 (head_tail_bytes h @ (if hd_compress h \<noteq> 0 then [] else body))"

lemma length_rx_mark: "length rx_mark = 4"
  by (simp add: rx_mark_def)

lemma length_rx_frame: "length (hd_reserve h) = 3 \<Longrightarrow> length (rx_frame h body) = 24 + length body"
  by (simp add: rx_frame_def rx_mark_def length_head_bytes)

lemma receive_from:
  assumes "0 \<le> i" "0 \<le> off" "off + int (length rx) \<le> int (length b)"
  shows "for_loop i (int (length rx)) (\<lambda>i b. do { x \<leftarrow> aget rx i; aset b (off + i) x }) b =
    Some (take (nat (off + i)) b @ drop (nat i) rx @ drop (nat (off + max i (int (length rx)))) b)"
  using assms
proof (induction "nat (int (length rx) - i)" arbitrary: i b)
  case 0
  then show ?case by (simp add: for_loop_empty)
next
  case (Suc n)
  then have i: "i < int (length rx)" "nat i < length rx" "nat (off + i) < length b" by linarith+
  let ?b = "b[nat (off + i) := rx ! nat i]"
  have "for_loop i (int (length rx)) (\<lambda>i b. do { x \<leftarrow> aget rx i; aset b (off + i) x }) b =
      for_loop (i + 1) (int (length rx)) (\<lambda>i b. do { x \<leftarrow> aget rx i; aset b (off + i) x }) ?b"
    using i Suc.prems by (simp add: for_loop_step aget_def aset_def)
  also have "\<dots> = Some (take (nat (off + i + 1)) ?b @ drop (nat i + 1) rx @ drop (nat (off + int (length rx))) ?b)"
    using Suc.hyps(1) [of "i + 1" ?b] Suc.hyps(2) Suc.prems i
    by (simp add: nat_add_distrib add.assoc max_def)
  also have "take (nat (off + i + 1)) ?b = take (nat (off + i)) b @ [rx ! nat i]"
    using i Suc.prems by (simp add: nat_add_distrib [of "off + i" 1] take_Suc_conv_app_nth)
  also have "drop (nat (off + int (length rx))) ?b = drop (nat (off + int (length rx))) b"
    using i Suc.prems by simp
  finally show ?case using i Cons_nth_drop_Suc [OF i(2)] by (simp add: max_def)
qed

lemma receive_eq:
  assumes "off \<le> length b" "off + length rx \<le> length b"
  shows "for_loop 0 (int (length rx)) (\<lambda>i b. do { x \<leftarrow> aget rx i; aset b (int off + i) x }) b =
    Some (take off b @ rx @ drop (off + length rx) b)"
  using receive_from [of 0 "int off" rx b] assms by (simp add: nat_add_distrib)

lemma copy_down_0:
  assumes "cnt \<le> int (length buf)" shows "copy_down buf cnt 0 = Some buf"
proof -
  have "\<exists>t. copy_down buf cnt 0 = Some t \<and> t = buf"
    unfolding copy_down_def
    by (rule for_loop_total [where P = "\<lambda>b. b = buf"]) (use assms in \<open>auto simp: aget_def aset_def\<close>)
  then show ?thesis by simp
qed

lemma no_head_at:
  assumes "0 \<le> j" "j + 2 < int (length (u_buf u))"
  shows "\<exists>v. no_head j u = Some v \<and> u_ret v = u_ret u \<and> u_ofst v = u_ofst u \<and>
    drop 3 (u_buf v) = drop 3 (u_buf u) \<and> u_cnt v = 3"
  using assms by (auto simp: no_head_def aget_def aset_def)

lemma no_head_0: "3 \<le> length (u_buf u) \<Longrightarrow> no_head 0 u = Some (u\<lparr>u_cnt := 3\<rparr>)"
  by (cases u) (auto simp: no_head_def aget_def aset_def)

lemma starts_at_mark: "starts_at (rx_mark @ b) 0 [0x5c, 0x7c, 0x3b, 0xcf] = Some True"
  by (simp add: rx_mark_def aget_def)

lemma scan_head_mark: "4 \<le> cnt \<Longrightarrow> scan_head (rx_mark @ b) cnt 0 = Some (True, 0)"
  by (subst scan_head.simps) (simp only: starts_at_mark FrmHdSz_def, simp)

lemma scan_head_short: "cnt < j + 4 \<Longrightarrow> scan_head b cnt j = Some (False, j)"
  by (subst scan_head.simps) (simp add: FrmHdSz_def)

lemma aslice_head:
  assumes "length (hd_reserve h) = 3"
  shows "aslice (rx_frame h body @ rest) 4 20 = Some (head_bytes h)"
    "aslice (rx_frame h body @ rest) 8 16 = Some (head_tail_bytes h)"
    "aslice (rx_frame h body @ rest) 8 (int (length body) + 16) = Some (head_tail_bytes h @ body)"
proof -
  have t: "length (head_tail_bytes h) = 16" "length (le4 (adler_sum h)) = 4"
    using assms by (simp_all add: head_tail_bytes_def le2_def le4_def)
  have "nat (int (length body) + 16) = 16 + length body" by simp
  then show "aslice (rx_frame h body @ rest) 4 20 = Some (head_bytes h)"
    "aslice (rx_frame h body @ rest) 8 16 = Some (head_tail_bytes h)"
    "aslice (rx_frame h body @ rest) 8 (int (length body) + 16) = Some (head_tail_bytes h @ body)"
    using t length_head_bytes [OF assms]
    by (simp_all add: aslice_def rx_frame_def rx_mark_def head_bytes_def)
qed

lemma take_frame_ok:
  assumes ok: "frame_ok ad0 adl dev h body" and u: "u_buf u = rx_frame h body @ rest" "u_hd u = h" "u_ret u = 0"
    and o': "9 \<le> length (u_ofst u)"
  shows "take_frame ad0 adl dev 0 u = Some (u\<lparr>u_ret := 1, u_ofst := (u_ofst u)[0 := 4]\<rparr>)"
proof -
  have "length (hd_reserve h) = 3" using ok by (simp add: frame_ok_def)
  note sl = aslice_head [OF this]
  have "0 < length (u_ofst u)" using o' by linarith
  then show ?thesis using ok u sl [of body rest]
    by (auto simp: take_frame_def Let_def frame_ok_def FrmHdSz_def HeadSz_def aset_def add.commute [of 16])
qed

lemma unpack_frame:
  assumes ok: "frame_ok ad0 adl dev h body" and u: "u_buf u = rx_frame h body @ rest" "u_ret u = 0"
    "u_cnt u = int (length (rx_frame h body))" and o': "9 \<le> length (u_ofst u)" and r: "2 \<le> length rest"
  shows "\<exists>v. unpack_loop ad0 adl dev 0 u = Some v \<and> u_ret v = 1 \<and> u_ofst v = (u_ofst u)[0 := 4] \<and>
    drop 3 (u_buf v) = drop 3 (u_buf u) \<and> u_cnt v = 3"
proof -
  have l: "length (hd_reserve h) = 3" and bl: "uint (body_len h) = int (length body)" "length body \<le> 2048"
    using ok by (simp_all add: frame_ok_def)
  note len = length_rx_frame [OF l, of body]
  let ?w = "u\<lparr>u_hd := h, u_ret := 1, u_ofst := (u_ofst u)[0 := 4]\<rparr>"
  have s: "scan_head (u_buf u) (u_cnt u) 0 = Some (True, 0)"
    unfolding u(1,3) using len by (simp add: rx_frame_def scan_head_mark)
  have "take_frame ad0 adl dev 0 (u\<lparr>u_hd := h\<rparr>) = Some ?w"
    using take_frame_ok [OF ok, of "u\<lparr>u_hd := h\<rparr>" rest] u o' by simp
  then have turn: "unpack_turn ad0 adl dev 0 u = Some (Inr (?w, 23 + int (length body)))"
    using s u len bl aslice_head(1) [OF l, of body rest] head_of_bytes [OF l]
    by (simp add: unpack_turn_def FrmHdSz_def HeadSz_def RxMaxNum_def)
  have s2: "scan_head (u_buf ?w) (u_cnt ?w) (23 + int (length body)) = Some (False, 23 + int (length body))"
    using u len by (intro scan_head_short) simp
  obtain v where v: "no_head (23 + int (length body)) ?w = Some v" "u_ret v = 1" "u_ofst v = (u_ofst u)[0 := 4]"
    "drop 3 (u_buf v) = drop 3 (u_buf u)" "u_cnt v = 3"
    using no_head_at [of "23 + int (length body)" ?w] u(1) len r by auto
  have "unpack_turn ad0 adl dev (23 + int (length body)) ?w = Some (Inl v)"
    using s2 v(1) by (simp add: unpack_turn_def)
  then show ?thesis using turn v
    by (simp add: unpack_loop.simps [of ad0 adl dev 0 u] unpack_loop.simps [of ad0 adl dev "23 + int (length body)" ?w])
qed

lemma UnpackData_frame:
  assumes ok: "frame_ok ad0 adl (pb_dev_num p) h body" and n: "n < length (rx_frame h body)"
    and buf: "take n buf = take n (rx_frame h body)" "4120 \<le> length buf" and cnt: "m_rx_cnt p = int n"
    and o': "9 \<le> length ofst" and len: "length (drop n (rx_frame h body)) < 2048"
  shows "\<exists>b q. UnpackData ad0 adl (drop n (rx_frame h body)) (int (length (drop n (rx_frame h body)))) buf ofst p =
      Some (1, b, ofst[0 := 4], q) \<and> take (20 + length body) (drop 4 b) = head_bytes h @ body"
proof -
  let ?f = "rx_frame h body"
  have l: "length (hd_reserve h) = 3" and bl: "length body \<le> 2048" using ok by (simp_all add: frame_ok_def)
  note lf = length_rx_frame [OF l, of body]
  let ?u = "\<lparr>u_buf = ?f @ drop (length ?f) buf, u_cnt = int (length ?f), u_hd = m_data_hd p, u_ret = 0, u_ofst = ofst\<rparr>"
  have r: "2 \<le> length (drop (length ?f) buf)" using buf lf bl by simp
  have "for_loop 0 (int (length (drop n ?f))) (\<lambda>i b. do { x \<leftarrow> aget (drop n ?f) i; aset b (m_rx_cnt p + i) x }) buf =
      Some (?f @ drop (length ?f) buf)"
    using receive_eq [of n buf "drop n ?f"] n buf cnt lf bl
    by (simp add: append_take_drop_id flip: append_assoc)
  moreover obtain v where v: "unpack_loop ad0 adl (pb_dev_num p) 0 ?u = Some v" "u_ret v = 1"
    "u_ofst v = ofst[0 := 4]" "drop 3 (u_buf v) = drop 3 (?f @ drop (length ?f) buf)"
    using unpack_frame [OF ok, of ?u "drop (length ?f) buf"] o' r by auto
  moreover have "m_rx_cnt p + int (length (drop n ?f)) = int (length ?f)" using n cnt by simp
  moreover have "drop 4 (u_buf v) = drop 1 (drop 3 (u_buf v))" by simp
  then have "take (20 + length body) (drop 4 (u_buf v)) = head_bytes h @ body"
    unfolding v(4) using length_head_bytes [OF l] by (simp add: rx_frame_def rx_mark_def)
  ultimately show ?thesis using n len by (simp add: UnpackData_def RxMaxNum_def)
qed

lemma UnpackData_part:
  assumes ok: "frame_ok ad0 adl dev h body" and n: "3 \<le> n" "n < length (rx_frame h body)" "n < 2048"
    and buf: "4120 \<le> length buf" and cnt: "m_rx_cnt p = 0"
  shows "\<exists>b q. UnpackData ad0 adl (take n (rx_frame h body)) (int n) buf ofst p = Some (0, b, ofst, q) \<and>
    take n b = take n (rx_frame h body) \<and> length b = length buf \<and> m_rx_cnt q = int n \<and> pb_dev_num q = pb_dev_num p"
proof -
  let ?f = "rx_frame h body"
  have l: "length (hd_reserve h) = 3" and bl: "uint (body_len h) = int (length body)" "length body \<le> 2048"
    using ok by (simp_all add: frame_ok_def)
  note lf = length_rx_frame [OF l, of body]
  let ?b = "take n ?f @ drop n buf"
  let ?u = "\<lparr>u_buf = ?b, u_cnt = int n, u_hd = m_data_hd p, u_ret = 0, u_ofst = ofst\<rparr>"
  have rx: "for_loop 0 (int n) (\<lambda>i b. do { x \<leftarrow> aget (take n ?f) i; aset b (m_rx_cnt p + i) x }) buf = Some ?b"
    using receive_eq [of 0 buf "take n ?f"] n buf cnt by simp
  have "\<exists>w. unpack_turn ad0 adl (pb_dev_num p) 0 ?u = Some (Inl w) \<and> u_ret w = 0 \<and> u_buf w = ?b \<and>
      u_cnt w = int n \<and> u_ofst w = ofst"
  proof (cases "n = 3")
    case True
    have "scan_head ?b 3 0 = Some (False, 0)" by (rule scan_head_short) simp
    moreover have "3 \<le> length ?b" using n buf by simp
    ultimately show ?thesis using True no_head_0 [of ?u] by (simp add: unpack_turn_def)
  next
    case False
    then have "?b = rx_mark @ take (n - 4) (head_bytes h @ body) @ drop n buf"
      using n False by (simp add: rx_frame_def length_rx_mark)
    then have s: "scan_head ?b (int n) 0 = Some (True, 0)" using n False by (simp add: scan_head_mark)
    have keep: "keep_rest 0 w = Some w" if "u_buf w = ?b" "u_cnt w = int n" for w
      using that copy_down_0 [of "int n" ?b] n by (cases w) (simp add: keep_rest_def)
    show ?thesis
    proof (cases "24 \<le> n")
      case False
      then show ?thesis using s keep [of ?u] by (simp add: unpack_turn_def FrmHdSz_def HeadSz_def)
    next
      case True
      have "?b = rx_frame h (take (n - 24) body) @ drop n buf"
        using True length_head_bytes [OF l] by (simp add: rx_frame_def length_rx_mark)
      then have "aslice ?b 4 20 = Some (head_bytes h)" using aslice_head(1) [OF l] by metis
      then show ?thesis using s keep [of "?u\<lparr>u_hd := h\<rparr>"] True bl head_of_bytes [OF l] n(2) lf
        by (simp add: unpack_turn_def FrmHdSz_def HeadSz_def RxMaxNum_def)
    qed
  qed
  then obtain w where "unpack_loop ad0 adl (pb_dev_num p) 0 ?u = Some w" "u_ret w = 0" "u_buf w = ?b"
    "u_cnt w = int n" "u_ofst w = ofst" by (auto simp: unpack_loop.simps [of _ _ _ 0 ?u])
  then show ?thesis using rx n cnt buf by (simp add: UnpackData_def RxMaxNum_def min_def)
qed

lemma UnpackData_tiny:
  assumes "0 < n" "n < 3" "n \<le> length rx" "4120 \<le> length buf" "m_rx_cnt p = 0"
  shows "\<exists>b q. UnpackData ad0 adl rx (int n) buf ofst p = Some (0, b, ofst, q) \<and> m_rx_cnt q = 3"
proof -
  obtain b where b: "for_loop 0 (int n) (\<lambda>i b. do { x \<leftarrow> aget rx i; aset b (m_rx_cnt p + i) x }) buf = Some b"
    "length b = length buf"
    using receive_total [of 0 "int n" buf rx] assms by auto
  let ?u = "\<lparr>u_buf = b, u_cnt = int n, u_hd = m_data_hd p, u_ret = 0, u_ofst = ofst\<rparr>"
  have "scan_head b (int n) 0 = Some (False, 0)" using assms(2) by (intro scan_head_short) simp
  then have "unpack_turn ad0 adl (pb_dev_num p) 0 ?u = Some (Inl (?u\<lparr>u_cnt := 3\<rparr>))"
    using no_head_0 [of ?u] b(2) assms(4) by (simp add: unpack_turn_def)
  then show ?thesis using b assms by (simp add: UnpackData_def RxMaxNum_def unpack_loop.simps [of _ _ _ 0 ?u])
qed

definition tx_mark :: "u8 list" where
  "tx_mark = [0xee, 0xee, 0x55, 0xaa, 0x3c, 0xc3]"

text \<open>The header that goes out with an uncompressed body.\<close>

definition stamped :: "u32 \<Rightarrow> (u32 \<Rightarrow> u8 list \<Rightarrow> u32) \<Rightarrow> commhead \<Rightarrow> u8 list \<Rightarrow> commhead" where
  "stamped ad0 adl h body = h\<lparr>adler_sum := adl ad0 (head_tail_bytes h @ body)\<rparr>"

lemma PackData_plain:
  assumes l: "length (hd_reserve h) = 3" and bl: "uint (body_len h) = int (length body)"
    and plain: "hd_compress h = 0" and sz: "length body \<le> 15000" and tx: "length (m_tx_buf p) = 15360"
  shows "\<exists>q. PackData ad0 adl cm (head_bytes h @ body) (20 + int (length body)) p =
    Some (0, tx_mark @ head_bytes (stamped ad0 adl h body) @ body, 26 + int (length body), q)"
proof -
  let ?n = "length body" and ?tx = "m_tx_buf p"
  have len: "length (head_tail_bytes h) = 16" "length (le4 w) = 4" "length tx_mark = 6" for w
    using l by (simp_all add: head_tail_bytes_def le2_def le4_def tx_mark_def)
  obtain a r1 where t1: "?tx = a @ r1" "length a = 6" "length r1 = 15354"
    using split_list_at [of 6 ?tx] tx by auto
  obtain b r2 where t2: "r1 = b @ r2" "length b = 4" "length r2 = 15350"
    using split_list_at [of 4 r1] t1(3) by auto
  obtain c r3 where t3: "r2 = c @ r3" "length c = 16" "length r3 = 15334"
    using split_list_at [of 16 r2] t2(3) by auto
  obtain d e where t4: "r3 = d @ e" "length d = ?n" using split_list_at [of ?n r3] t3(3) sz by auto
  let ?h = "head_tail_bytes h" and ?sum = "adl ad0 (head_tail_bytes h @ body)"
  have li: "\<not> ((20 + int ?n) * 101) sdiv 100 + 20 > TxBufNum"
    using sz by (subst sdiv_nonneg) (auto simp: TxBufNum_def)
  have b1: "blit ?tx 0 [0xee, 0xee, 0x55, 0xaa, 0x3c, 0xc3] = Some (tx_mark @ b @ c @ d @ e)"
    using blit_mid [of 0 "[]" a tx_mark r1] t1 t2 t3 t4 len by (simp add: tx_mark_def)
  have b2: "blit (tx_mark @ b @ c @ d @ e) 26 body = Some (tx_mark @ b @ c @ body @ e)"
    using blit_mid [of 26 "tx_mark @ b @ c" d body e] t2 t3 t4 len by simp
  have b3: "blit (tx_mark @ b @ c @ body @ e) 10 ?h = Some (tx_mark @ b @ ?h @ body @ e)"
    using blit_mid [of 10 "tx_mark @ b" c ?h "body @ e"] t2 t3 len by simp
  have s1: "aslice (tx_mark @ b @ ?h @ body @ e) 10 (16 + int ?n) = Some (?h @ body)"
    using aslice_mid [of 10 "tx_mark @ b" "16 + int ?n" "?h @ body" e] t2 len by simp
  have b4: "blit (tx_mark @ b @ ?h @ body @ e) 6 (le4 ?sum) = Some (tx_mark @ le4 ?sum @ ?h @ body @ e)"
    using blit_mid [of 6 tx_mark b "le4 ?sum" "?h @ body @ e"] t2 len by simp
  have s2: "aslice (tx_mark @ le4 ?sum @ ?h @ body @ e) 0 (26 + int ?n) =
      Some (tx_mark @ le4 ?sum @ ?h @ body)"
    using aslice_mid [of 0 "[]" "26 + int ?n" "tx_mark @ le4 ?sum @ ?h @ body" e] len by simp
  have i1: "aslice (head_bytes h @ body) 0 20 = Some (head_bytes h)"
    using aslice_mid [of 0 "[]" 20 "head_bytes h" body] length_head_bytes [OF l] by simp
  have i2: "aslice (head_bytes h @ body) 20 (int ?n) = Some body"
    using aslice_mid [of 20 "head_bytes h" "int ?n" body "[]"] length_head_bytes [OF l] bl by simp
  have out: "head_bytes (stamped ad0 adl h body) = le4 ?sum @ ?h"
    by (simp add: head_bytes_def stamped_def head_tail_bytes_def)
  show ?thesis
    using li plain bl by (simp add: PackData_def Let_def HeadSz_def head_of_bytes [OF l] b1 b2 b3 b4 s1 s2 i1 i2 out)
qed

lemma stamped_ok:
  assumes "length (hd_reserve h) = 3" "uint (body_len h) = int (length body)" "hd_compress h = 0"
    "length body \<le> 2048" "dev_num h = dev \<or> dev_num h = 0"
  shows "frame_ok ad0 adl dev (stamped ad0 adl h body) body"
  using assms by (simp add: frame_ok_def stamped_def head_tail_bytes_def)

section \<open>Properties\<close>

text \<open>
  C28. Unpacking never leaves its buffers: with at most 2071 bytes pending, a receive buffer of
  at least 4120 bytes (the dispatcher allocates 8192) and room for nine offsets, it succeeds on
  any input, reports at most nine frames and again leaves at most 2071 bytes pending.
\<close>

theorem unpack_memory_safe:
  assumes "0 \<le> m_rx_cnt p" "m_rx_cnt p \<le> 2071" "4120 \<le> length buf" "9 \<le> length ofst" "cnt \<le> int (length rx)"
  shows "\<exists>r b o' q. UnpackData ad0 adl rx cnt buf ofst p = Some (r, b, o', q) \<and>
    0 \<le> r \<and> r \<le> 9 \<and> 0 \<le> m_rx_cnt q \<and> m_rx_cnt q \<le> 2071 \<and> length b = length buf \<and> length o' = length ofst"
  by (rule UnpackData_total [OF assms])

theorem unpack_memory_safe_witness:
  "\<exists>r b o' q. UnpackData 1 (\<lambda>a bs. a + sum_list (map ucast bs)) [0x5c, 0x7c] 2 (replicate 8192 0) (replicate 10 0)
      (new_pqb blank_head 3 (\<lambda>_. 0)) = Some (r, b, o', q) \<and>
    0 \<le> r \<and> r \<le> 9 \<and> 0 \<le> m_rx_cnt q \<and> m_rx_cnt q \<le> 2071 \<and>
    length b = length (replicate 8192 (0 :: u8)) \<and> length o' = length (replicate 10 (0 :: int))"
  by (rule unpack_memory_safe) (simp_all add: new_pqb_def)

text \<open>
  C27. Packing an uncompressed message puts the check sum into its header and the send mark in
  front; a receiver of the same device number with nothing pending, given these bytes behind
  the receive mark, finds one frame at offset 4 with that header and body.
\<close>

theorem pack_unpack:
  assumes "length (hd_reserve h) = 3" "uint (body_len h) = int (length body)" "hd_compress h = 0"
    "length body \<le> 2000" "dev_num h = pb_dev_num q" "length (m_tx_buf p) = 15360" "m_rx_cnt q = 0"
    "4120 \<le> length buf" "9 \<le> length ofst"
  shows "\<exists>out p'. PackData ad0 adl cm (head_bytes h @ body) (20 + int (length body)) p =
      Some (0, tx_mark @ out, 26 + int (length body), p') \<and>
    drop 4 out = drop 4 (head_bytes h) @ body \<and>
    (\<exists>b q'. UnpackData ad0 adl (rx_mark @ out) (24 + int (length body)) buf ofst q =
      Some (1, b, ofst[0 := 4], q') \<and> take (20 + length body) (drop 4 b) = out)"
proof -
  let ?h = "stamped ad0 adl h body"
  have ok: "frame_ok ad0 adl (pb_dev_num q) ?h body" using assms by (intro stamped_ok) auto
  have len: "length (rx_frame ?h body) = 24 + length body"
    using assms(1) by (intro length_rx_frame) (simp add: stamped_def)
  obtain p' where "PackData ad0 adl cm (head_bytes h @ body) (20 + int (length body)) p =
      Some (0, tx_mark @ head_bytes ?h @ body, 26 + int (length body), p')"
    using PackData_plain [OF assms(1-3) _ assms(6)] assms(4) by fastforce
  moreover have "drop 4 (head_bytes ?h @ body) = drop 4 (head_bytes h) @ body"
    using assms(1) by (simp add: head_bytes_def stamped_def head_tail_bytes_def le4_def)
  moreover have "\<exists>b q'. UnpackData ad0 adl (rx_mark @ head_bytes ?h @ body) (24 + int (length body)) buf ofst q =
      Some (1, b, ofst[0 := 4], q') \<and> take (20 + length body) (drop 4 b) = head_bytes ?h @ body"
    using UnpackData_frame [OF ok, of 0 buf ofst, unfolded drop_0 len] assms
    by (simp add: rx_frame_def)
  ultimately show ?thesis by blast
qed

definition example_head :: commhead where
  "example_head = \<lparr>adler_sum = 0, dev_num = 3, prtcl_type = 3, prtcl_ver = 0, hd_cmd = 5, body_len = 2,
     hd_compress = 0, compress_alg = 1, frm_sn = 9, window_sz = 0, equip_type = 0, unit_scale = 0,
     hd_reserve = [0, 0, 0]\<rparr>"

theorem pack_unpack_witness:
  "\<exists>out p'. PackData 1 (\<lambda>a bs. a + sum_list (map ucast bs)) (\<lambda>s c. s) (head_bytes example_head @ [7, 8])
      (20 + int (length [7, 8 :: u8])) (new_pqb blank_head 3 (\<lambda>_. 0)) =
      Some (0, tx_mark @ out, 26 + int (length [7, 8 :: u8]), p') \<and>
    drop 4 out = drop 4 (head_bytes example_head) @ [7, 8] \<and>
    (\<exists>b q'. UnpackData 1 (\<lambda>a bs. a + sum_list (map ucast bs)) (rx_mark @ out) (24 + int (length [7, 8 :: u8]))
        (replicate 8192 0) (replicate 10 0) ((new_pqb blank_head 3 (\<lambda>_. 0))\<lparr>m_rx_cnt := 0\<rparr>) =
      Some (1, b, (replicate 10 0)[0 := 4], q') \<and> take (20 + length [7, 8 :: u8]) (drop 4 b) = out)"
  by (rule pack_unpack) (simp_all add: example_head_def new_pqb_def TxBufNum_def)

text \<open>
  A frame that arrives in two reads is recognised as well as one that arrives at once, if
  the first read holds at least three bytes: the first call reports no frame, the second one
  reports it whole.  After a first read of one or two bytes the counter of pending bytes is
  three, that is, it counts bytes that never arrived.
\<close>

lemma split_frame:
  assumes "frame_ok ad0 adl (pb_dev_num p) h body" "3 \<le> n" "n < length (rx_frame h body)" "n < 2048"
    "length (rx_frame h body) < n + 2048" "4120 \<le> length buf" "9 \<le> length ofst" "m_rx_cnt p = 0"
  shows "(\<exists>b q. UnpackData ad0 adl (take n (rx_frame h body)) (int n) buf ofst p = Some (0, b, ofst, q) \<and>
      (\<exists>c r. UnpackData ad0 adl (drop n (rx_frame h body)) (int (length (drop n (rx_frame h body)))) b ofst q =
        Some (1, c, ofst[0 := 4], r) \<and> take (20 + length body) (drop 4 c) = head_bytes h @ body)) \<and>
    (\<forall>m rx. 0 < m \<and> m < 3 \<and> m \<le> length rx \<longrightarrow>
      (\<exists>b q. UnpackData ad0 adl rx (int m) buf ofst p = Some (0, b, ofst, q) \<and> m_rx_cnt q = 3))"
proof -
  obtain b q where b: "UnpackData ad0 adl (take n (rx_frame h body)) (int n) buf ofst p = Some (0, b, ofst, q)"
    "take n b = take n (rx_frame h body)" "length b = length buf" "m_rx_cnt q = int n" "pb_dev_num q = pb_dev_num p"
    using UnpackData_part [OF assms(1-4) assms(6,8), of ofst] by blast
  have ok: "frame_ok ad0 adl (pb_dev_num q) h body" using assms(1) b(5) by simp
  have "length (drop n (rx_frame h body)) < 2048" using assms(3,5) by simp
  note fr = UnpackData_frame [OF ok assms(3) b(2) _ b(4) assms(7) this]
  have "4120 \<le> length b" using assms(6) b(3) by simp
  from fr [OF this] obtain c r where
    "UnpackData ad0 adl (drop n (rx_frame h body)) (int (length (drop n (rx_frame h body)))) b ofst q =
      Some (1, c, ofst[0 := 4], r)" "take (20 + length body) (drop 4 c) = head_bytes h @ body" by blast
  then show ?thesis using b(1) UnpackData_tiny assms(6,8) by blast
qed

definition example_frame_head :: commhead where
  "example_frame_head = stamped 1 (\<lambda>a bs. a + sum_list (map ucast bs)) example_head [7, 8]"

lemma split_frame_example:
  "\<exists>b q. UnpackData 1 (\<lambda>a bs. a + sum_list (map ucast bs)) (take 10 (rx_frame example_frame_head [7, 8])) (int 10)
      (replicate 8192 0) (replicate 10 0) ((new_pqb blank_head 3 (\<lambda>_. 0))\<lparr>m_rx_cnt := 0\<rparr>) =
      Some (0, b, replicate 10 0, q)"
proof -
  let ?p = "(new_pqb blank_head 3 (\<lambda>_. 0))\<lparr>m_rx_cnt := 0\<rparr>"
  have ok: "frame_ok 1 (\<lambda>a bs. a + sum_list (map ucast bs)) (pb_dev_num ?p) example_frame_head [7, 8]"
    unfolding example_frame_head_def by (rule stamped_ok) (simp_all add: example_head_def new_pqb_def)
  have "length (rx_frame example_frame_head [7, 8]) = 26"
    using length_rx_frame [of example_frame_head "[7, 8]"] by (simp add: example_frame_head_def stamped_def example_head_def)
  then show ?thesis using split_frame [OF ok, of 10 "replicate 8192 0" "replicate 10 0"] by auto
qed

end
