(* ===== verification/Clock.thy ===== *)
theory Clock
  imports Prelude
begin

text \<open>
  Time of day (\<open>common/time\<close>): the thread-safe conversions between seconds since 1970 and broken
  down time with the calendar of the C library underneath them, the stop watches, the comparison of
  time stamps, and the two timers.  The mutex around the C functions and \<open>poll\<close> are left out.
  \<open>tzoff\<close> is the offset of the C library's own time zone in seconds (0 on the target), \<open>tz\<close> what the call of
  \<open>TimeZone\<close> in the operation returns: in the configured build (CUSTOMIZED_TZ) that is an uninitialised variable, so that it can be
  another number at each call.
\<close>

section \<open>The calendar\<close>

record ctm =
  tm_sec :: int
  tm_min :: int
  tm_hour :: int
  tm_mday :: int
  tm_mon :: int
  tm_year :: int
  tm_isdst :: int

definition leap_year :: "int \<Rightarrow> bool" where
  "leap_year y \<longleftrightarrow> y mod 4 = 0 \<and> (y mod 100 \<noteq> 0 \<or> y mod 400 = 0)"

definition month_lens :: "int \<Rightarrow> int list" where
  "month_lens y = [31, if leap_year y then 29 else 28, 31, 30, 31, 30, 31, 31, 30, 31, 30, 31]"

definition year_len :: "int \<Rightarrow> int" where
  "year_len y = (if leap_year y then 366 else 365)"

lemma year_len_pos: "0 < year_len y" "365 \<le> year_len y"
  by (simp_all add: year_len_def)

function year_from :: "int \<Rightarrow> int \<Rightarrow> int \<times> int" where
  "year_from y d = (if d < year_len y then (y, d) else year_from (y + 1) (d - year_len y))"
  by pat_completeness auto
termination by (relation "measure (\<lambda>(y, d). nat d)") (auto simp: year_len_def split: if_splits)

declare year_from.simps [simp del]

fun month_from :: "int list \<Rightarrow> int \<Rightarrow> int \<Rightarrow> int \<times> int" where
  "month_from [] m d = (m, d)"
| "month_from (l # ls) m d = (if d < l then (m, d) else month_from ls (m + 1) (d - l))"

text \<open>\<open>gmtime\<close> of the C library, for times from 1970 on.\<close>

definition gmtime :: "int \<Rightarrow> ctm" where
  "gmtime t =
     (let s = t mod 86400;
          (y, d) = year_from 1970 (t div 86400);
          (m, d) = month_from (month_lens y) 0 d
      in \<lparr>tm_sec = s mod 60, tm_min = s div 60 mod 60, tm_hour = s div 3600,
          tm_mday = d + 1, tm_mon = m, tm_year = y - 1900, tm_isdst = 0\<rparr>)"

text \<open>Days from 1970 to the first of January of a year; \<open>mktime\<close> of the C library in UTC.\<close>

definition leaps :: "int \<Rightarrow> int" where
  "leaps y = y div 4 - y div 100 + y div 400"

definition days_before :: "int \<Rightarrow> int" where
  "days_before y = 365 * (y - 1970) + leaps (y - 1) - leaps 1969"

definition timegm :: "ctm \<Rightarrow> int" where
  "timegm t =
     (let y = tm_year t + 1900 + tm_mon t div 12; m = tm_mon t mod 12
      in (days_before y + sum_list (take (nat m) (month_lens y)) + tm_mday t - 1) * 86400
         + tm_hour t * 3600 + tm_min t * 60 + tm_sec t)"

section \<open>The conversions\<close>

text \<open>The argument is what is found in the uninitialised local variable at this call.\<close>

definition TimeZone :: "int \<Rightarrow> int" where
  "TimeZone junk = junk"

definition GmTime :: "int \<Rightarrow> ctm" where
  "GmTime src = gmtime src"

definition LocalTime :: "int \<Rightarrow> int \<Rightarrow> int \<Rightarrow> ctm" where
  "LocalTime tzoff tz src = gmtime (src + TimeZone tz * 3600 + tzoff)"

definition MakeTime :: "int \<Rightarrow> int \<Rightarrow> ctm \<Rightarrow> int \<Rightarrow> int" where
  "MakeTime tzoff tz src ty =
     (let tm_t = timegm (src\<lparr>tm_isdst := 0\<rparr>) - tzoff
      in if ty \<noteq> 0 then tm_t - TimeZone tz * 3600 else tm_t)"

text \<open>\<open>NowTime\<close>: the formats of \<open>strftime\<close> it uses.\<close>

definition dec_digit :: "int \<Rightarrow> char" where
  "dec_digit n = ''0123456789'' ! nat (n mod 10)"

definition dec2 :: "int \<Rightarrow> string" where
  "dec2 n = [dec_digit (n div 10), dec_digit n]"

definition dec4 :: "int \<Rightarrow> string" where
  "dec4 n = dec2 (n div 100) @ dec2 n"

definition NowTime :: "int \<Rightarrow> int \<Rightarrow> int \<Rightarrow> int \<Rightarrow> string" where
  "NowTime tzoff tz now ty =
     (let t = LocalTime tzoff tz now; y = tm_year t + 1900;
          ymd = dec2 (y mod 100) @ dec2 (tm_mon t + 1) @ dec2 (tm_mday t);
          hms = dec2 (tm_hour t) @ dec2 (tm_min t) @ dec2 (tm_sec t)
      in if ty = 1 then ymd @ ''_'' @ hms
         else if ty = 2 then ymd
         else if ty = 3 then hms
         else dec4 y @ ''-'' @ dec2 (tm_mon t + 1) @ ''-'' @ dec2 (tm_mday t) @ '' '' @
              dec2 (tm_hour t) @ '':'' @ dec2 (tm_min t) @ '':'' @ dec2 (tm_sec t))"

section \<open>Time stamps\<close>

datatype timeval = Timeval (tv_sec: int) (tv_usec: int)

text \<open>Time stamps are ordered by seconds, then microseconds.\<close>

instantiation timeval :: linorder
begin

definition less_eq_timeval :: "timeval \<Rightarrow> timeval \<Rightarrow> bool" where
  "less_eq_timeval a b \<longleftrightarrow> tv_sec a < tv_sec b \<or> (tv_sec a = tv_sec b \<and> tv_usec a \<le> tv_usec b)"

definition less_timeval :: "timeval \<Rightarrow> timeval \<Rightarrow> bool" where
  "less_timeval a b \<longleftrightarrow> tv_sec a < tv_sec b \<or> (tv_sec a = tv_sec b \<and> tv_usec a < tv_usec b)"

instance
  by standard (auto simp: less_eq_timeval_def less_timeval_def intro: timeval.expand)

end

definition TimevalCmp :: "timeval \<Rightarrow> timeval \<Rightarrow> int" where
  "TimevalCmp a b =
     (if tv_sec a < tv_sec b then - 1
      else if tv_sec a > tv_sec b then 1
      else if tv_usec a < tv_usec b then - 1
      else if tv_sec a > tv_sec b then 1
      else 0)"

text \<open>
  The stop watches.  The printed line is part of the result: the description, which is None when it
  has never been given, the seconds and the microseconds.
\<close>

record watches =
  time_st :: "timeval list"
  time_end :: "timeval list"
  pdsc :: "string option list"

definition no_watches :: watches where
  "no_watches = \<lparr>time_st = replicate 10 (Timeval 0 0), time_end = replicate 10 (Timeval 0 0), pdsc = replicate 10 None\<rparr>"

definition elapsed :: "timeval \<Rightarrow> timeval \<Rightarrow> timeval" where
  "elapsed st en =
     (let sec = tv_sec en - tv_sec st; usec = tv_usec en;
          (usec, sec) = (if usec < tv_usec st then (usec + 1000000, sec - 1) else (usec, sec))
      in Timeval sec (usec - tv_usec st))"

definition StopWatch ::
  "timeval \<Rightarrow> int \<Rightarrow> bool \<Rightarrow> string option \<Rightarrow> watches \<Rightarrow> (watches \<times> (string option \<times> timeval) option) option" where
  "StopWatch now i se desc w =
     (if i \<ge> 10 then Some (w, None)
      else do {
        ds \<leftarrow> (case desc of None \<Rightarrow> Some (pdsc w) | Some s \<Rightarrow> aset (pdsc w) i (Some s));
        let w = w\<lparr>pdsc := ds\<rparr>;
        (if se then do { st \<leftarrow> aset (time_st w) i now; Some (w\<lparr>time_st := st\<rparr>, None) }
         else do {
           st \<leftarrow> aget (time_st w) i;
           let el = elapsed st now;
           en \<leftarrow> aset (time_end w) i el;
           d \<leftarrow> aget ds i;
           Some (w\<lparr>time_end := en\<rparr>, Some (d, el)) }) })"

section \<open>Timers\<close>

record interval_timer =
  ti_interval :: int
  ti_curr :: int
  ti_next :: int

definition new_interval_timer :: interval_timer where
  "new_interval_timer = \<lparr>ti_interval = 10, ti_curr = 0, ti_next = 0\<rparr>"

definition set_interval :: "int \<Rightarrow> interval_timer \<Rightarrow> interval_timer" where
  "set_interval v t = t\<lparr>ti_interval := v\<rparr>"

text \<open>
  \<open>TimeInerval::TimeOut\<close>, for a time from 1970 on: the new state and the local \<open>ret\<close>.  The function ends without
  a return statement, so what the caller gets (\<open>interval_TimeOut\<close>) is whatever was there (\<open>junk\<close>).
\<close>

definition interval_step :: "int \<Rightarrow> interval_timer \<Rightarrow> interval_timer \<times> int" where
  "interval_step time t =
     (if time < ti_curr t \<or> time \<ge> ti_next t then
        (let ret = (if time = ti_next t then 1 else 2);
             n = time smod ti_interval t;
             nxt = (if n = 0 then time + ti_interval t
                    else if n < ti_interval t sdiv 3 then time - n + ti_interval t
                    else time - n + ti_interval t * 2)
         in (t\<lparr>ti_curr := time, ti_next := nxt\<rparr>, ret))
      else (t, 0))"

definition interval_TimeOut :: "int \<Rightarrow> int \<Rightarrow> interval_timer \<Rightarrow> interval_timer \<times> int" where
  "interval_TimeOut junk time t = (fst (interval_step time t), junk)"

record timer_cstm =
  tc_stime :: int
  tc_duration :: int

definition timer_Start :: "int \<Rightarrow> int \<Rightarrow> timer_cstm \<Rightarrow> timer_cstm" where
  "timer_Start now dur t = t\<lparr>tc_stime := now, tc_duration := dur\<rparr>"

definition timer_TimeOut :: "int \<Rightarrow> timer_cstm \<Rightarrow> bool" where
  "timer_TimeOut now t = (now - tc_stime t > tc_duration t)"

section \<open>The calendar is invertible\<close>

lemma div_step: "0 < n \<Longrightarrow> (y :: int) div n = (y - 1) div n + (if y mod n = 0 then 1 else 0)"
proof -
  assume n: "0 < n"
  have y: "y = y div n * n + y mod n" by simp
  have r: "0 \<le> y mod n" "y mod n < n" using n by simp_all
  show ?thesis
  proof (cases "y mod n = 0")
    case True
    have "y - 1 = (y div n - 1) * n + (n - 1)" using y True by (simp add: algebra_simps)
    then have "(y - 1) div n = y div n - 1" using n by (simp only: div_mult_self3) simp
    then show ?thesis using True by simp
  next
    case False
    have "y - 1 = y div n * n + (y mod n - 1)" using y by simp
    moreover have "(y mod n - 1) div n = 0" using r False by (intro div_pos_pos_trivial) auto
    ultimately have "(y - 1) div n = y div n" using n by (metis add_0_right div_mult_self3 less_irrefl)
    then show ?thesis using False by simp
  qed
qed

lemma inclusion_exclusion:
  fixes a b c :: int
  assumes "a = a' + (if p then 1 else 0)" "b = b' + (if q then 1 else 0)" "c = c' + (if r then 1 else 0)"
    "r \<longrightarrow> q" "q \<longrightarrow> p"
  shows "a - b + c = a' - b' + c' + (if p \<and> (\<not> q \<or> r) then 1 else 0)"
proof -
  consider "\<not> p \<and> \<not> q \<and> \<not> r" | "p \<and> \<not> q \<and> \<not> r" | "p \<and> q \<and> \<not> r" | "p \<and> q \<and> r" using assms(4,5) by blast
  then show ?thesis unfolding assms(1-3) by cases simp_all
qed

lemma leaps_step: "leaps y = leaps (y - 1) + (if leap_year y then 1 else 0)"
  unfolding leaps_def leap_year_def
proof (rule inclusion_exclusion [OF div_step div_step div_step])
  show "y mod 400 = 0 \<longrightarrow> y mod 100 = 0" unfolding mod_eq_0_iff_dvd by (intro impI dvd_trans [of 100 400 y] dvdI [of 400 100 4]) simp
  show "y mod 100 = 0 \<longrightarrow> y mod 4 = 0" unfolding mod_eq_0_iff_dvd by (intro impI dvd_trans [of 4 100 y] dvdI [of 100 4 25]) simp
qed simp_all

lemma days_before_Suc: "days_before (y + 1) = days_before y + year_len y"
  using leaps_step [of y] by (simp add: days_before_def year_len_def)

lemma year_from_days:
  "0 \<le> d \<Longrightarrow> year_from y d = (z, e) \<Longrightarrow> y \<le> z \<and> 0 \<le> e \<and> e < year_len z \<and> days_before z + e = days_before y + d"
proof (induction y d rule: year_from.induct)
  case (1 y d)
  show ?case
  proof (cases "d < year_len y")
    case True
    then show ?thesis using 1(2,3) by (simp add: year_from.simps)
  next
    case False
    then have "year_from (y + 1) (d - year_len y) = (z, e)" using 1(3) by (simp add: year_from.simps [of y d])
    then show ?thesis using 1(1) [OF False] False days_before_Suc [of y] by auto
  qed
qed

lemma month_from_days:
  "0 \<le> d \<Longrightarrow> d < sum_list ls \<Longrightarrow> month_from ls m d = (k, e) \<Longrightarrow>
   m \<le> k \<and> k < m + int (length ls) \<and> 0 \<le> e \<and> e < ls ! nat (k - m) \<and> sum_list (take (nat (k - m)) ls) + e = d"
proof (induction ls arbitrary: m d)
  case (Cons l ls)
  show ?case
  proof (cases "d < l")
    case False
    then have ih: "m + 1 \<le> k \<and> k < m + 1 + int (length ls) \<and> 0 \<le> e \<and> e < ls ! nat (k - (m + 1)) \<and>
        sum_list (take (nat (k - (m + 1))) ls) + e = d - l"
      using Cons.prems by (intro Cons.IH) auto
    then have "nat (k - m) = Suc (nat (k - (m + 1)))" by auto
    then show ?thesis using ih by auto
  qed (use Cons.prems in auto)
qed simp

lemma month_lens_sum: "sum_list (month_lens y) = year_len y"
  by (simp add: month_lens_def year_len_def)

lemma gmtime_fields:
  assumes "0 \<le> t"
  shows "0 \<le> tm_sec (gmtime t) \<and> tm_sec (gmtime t) < 60 \<and> 0 \<le> tm_min (gmtime t) \<and> tm_min (gmtime t) < 60 \<and>
    0 \<le> tm_hour (gmtime t) \<and> tm_hour (gmtime t) < 24 \<and> 0 \<le> tm_mon (gmtime t) \<and> tm_mon (gmtime t) < 12 \<and>
    1 \<le> tm_mday (gmtime t) \<and> tm_mday (gmtime t) \<le> month_lens (tm_year (gmtime t) + 1900) ! nat (tm_mon (gmtime t)) \<and>
    70 \<le> tm_year (gmtime t) \<and> timegm (gmtime t) = t \<and>
    tm_hour (gmtime t) * 3600 + tm_min (gmtime t) * 60 + tm_sec (gmtime t) = t mod 86400"
proof -
  obtain y d where y: "year_from 1970 (t div 86400) = (y, d)" by (cases "year_from 1970 (t div 86400)")
  obtain m e where m: "month_from (month_lens y) 0 d = (m, e)" by (cases "month_from (month_lens y) 0 d")
  have dy: "1970 \<le> y" "0 \<le> d" "d < year_len y" "days_before y + d = t div 86400"
    using year_from_days [OF _ y] assms by (auto simp: pos_imp_zdiv_nonneg_iff days_before_def)
  have dm: "0 \<le> m" "m < 12" "0 \<le> e" "e < month_lens y ! nat m" "sum_list (take (nat m) (month_lens y)) + e = d"
    using month_from_days [OF dy(2) _ m] dy(3) month_lens_sum [of y] by (auto simp: month_lens_def)
  define s where "s = t mod 86400"
  have s: "0 \<le> s" "s < 86400" by (simp_all add: s_def)
  have split: "s div 3600 * 3600 + s div 60 mod 60 * 60 + s mod 60 = s"
  proof -
    have "s div 60 div 60 = s div 3600" using zdiv_zmult2_eq [of 60 s 60] by simp
    moreover have "c * 3600 + e * 60 + b = s" if "a * 60 + b = s" "c * 60 + e = a" for a b c e :: int
      unfolding that [symmetric] by simp
    ultimately show ?thesis using div_mult_mod_eq [of s 60] div_mult_mod_eq [of "s div 60" 60] by metis
  qed
  have g: "gmtime t = \<lparr>tm_sec = s mod 60, tm_min = s div 60 mod 60, tm_hour = s div 3600,
      tm_mday = e + 1, tm_mon = m, tm_year = y - 1900, tm_isdst = 0\<rparr>"
    by (simp add: gmtime_def y m s_def Let_def)
  have "timegm (gmtime t) = (days_before y + d) * 86400 + s"
  proof -
    have "timegm (gmtime t) = (days_before y + (sum_list (take (nat m) (month_lens y)) + e)) * 86400 +
        (s div 3600 * 3600 + s div 60 mod 60 * 60 + s mod 60)"
      using dm(1,2) by (simp add: g timegm_def)
    then show ?thesis unfolding dm(5) split .
  qed
  also have "\<dots> = t" unfolding dy(4) s_def by simp
  finally have t: "timegm (gmtime t) = t" .
  have "s div 3600 \<le> 86399 div 3600" using s by (intro zdiv_mono1) auto
  moreover have "0 \<le> s div 3600" "0 \<le> s mod 60" "0 \<le> s div 60 mod 60" "s mod 60 < 60" "s div 60 mod 60 < 60"
    using s by (simp_all add: pos_imp_zdiv_nonneg_iff)
  ultimately have h: "0 \<le> tm_sec (gmtime t) \<and> tm_sec (gmtime t) < 60 \<and> 0 \<le> tm_min (gmtime t) \<and> tm_min (gmtime t) < 60 \<and>
    0 \<le> tm_hour (gmtime t) \<and> tm_hour (gmtime t) < 24" unfolding g by (simp only: ctm.simps) simp
  have "0 \<le> tm_mon (gmtime t) \<and> tm_mon (gmtime t) < 12 \<and> 1 \<le> tm_mday (gmtime t) \<and>
      tm_mday (gmtime t) \<le> month_lens (tm_year (gmtime t) + 1900) ! nat (tm_mon (gmtime t)) \<and> 70 \<le> tm_year (gmtime t)"
    unfolding g using dm(1-4) dy(1) by simp
  moreover have "tm_hour (gmtime t) * 3600 + tm_min (gmtime t) * 60 + tm_sec (gmtime t) = t mod 86400"
    unfolding g ctm.simps split by (rule s_def)
  ultimately show ?thesis using h t by blast
qed

section \<open>Properties\<close>

text \<open>
  C36. Converting a time from 1970 on to broken down time and back: in UTC (GmTime and the raw MakeTime, for a C library set to UTC) it is
  the identity, and the fields are those of a calendar date: second, minute and hour of the day, a month and a day it
  has.  Through LocalTime and MakeTime with the zone it is off by the difference of the hours that the two calls of TimeZone
  return, so it is the identity just when both return the same; each returns an uninitialised variable, and nothing makes
  them equal.
\<close>

theorem time_roundtrip:
  assumes "0 \<le> t" "0 \<le> t + tz1 * 3600 + tzoff"
  shows "MakeTime 0 tz (GmTime t) 0 = t \<and> MakeTime tzoff tz2 (LocalTime tzoff tz1 t) 1 = t + (tz1 - tz2) * 3600 \<and>
    (MakeTime tzoff tz2 (LocalTime tzoff tz1 t) 1 = t \<longleftrightarrow> tz1 = tz2) \<and>
    tm_hour (GmTime t) * 3600 + tm_min (GmTime t) * 60 + tm_sec (GmTime t) = t mod 86400 \<and>
    tm_sec (GmTime t) \<in> {0..<60} \<and> tm_min (GmTime t) \<in> {0..<60} \<and> tm_hour (GmTime t) \<in> {0..<24} \<and>
    tm_mon (GmTime t) \<in> {0..<12} \<and>
    tm_mday (GmTime t) \<in> {1..month_lens (tm_year (GmTime t) + 1900) ! nat (tm_mon (GmTime t))}"
proof -
  have "timegm (c\<lparr>tm_isdst := 0\<rparr>) = timegm c" for c by (simp add: timegm_def)
  then show ?thesis using gmtime_fields [OF assms(1)] gmtime_fields [OF assms(2)]
    by (simp add: MakeTime_def GmTime_def LocalTime_def TimeZone_def Let_def algebra_simps)
qed

theorem time_roundtrip_witness:
  "MakeTime 0 8 (GmTime 951827696) 0 = 951827696 \<and> MakeTime 0 8 (LocalTime 0 8 951827696) 1 = 951827696 \<and>
    MakeTime 0 (- 3) (LocalTime 0 8 951827696) 1 = 951867296"
  using time_roundtrip [of 951827696 8 0 8 8] time_roundtrip [of 951827696 8 0 8 "- 3"] by simp

lemma leap_day: "GmTime 951827696 = \<lparr>tm_sec = 56, tm_min = 34, tm_hour = 12, tm_mday = 29, tm_mon = 1, tm_year = 100, tm_isdst = 0\<rparr>"
  by code_simp

text \<open>
  \<open>TimevalCmp\<close> is the comparison of time stamps with one exception: stamps of the same second whose
  first has more microseconds compare as equal, because the third test looks at the seconds again.
\<close>

lemma timeval_cmp:
  "(TimevalCmp a b = - 1 \<longleftrightarrow> a < b) \<and>
   (TimevalCmp a b = 1 \<longleftrightarrow> b < a \<and> tv_sec a \<noteq> tv_sec b) \<and>
   (TimevalCmp a b = 0 \<longleftrightarrow> a = b \<or> (b < a \<and> tv_sec a = tv_sec b))"
  by (cases a; cases b) (auto simp: TimevalCmp_def less_timeval_def)

text \<open>The stop watch prints the true difference, for normalised stamps.\<close>

lemma elapsed_normalised:
  assumes "0 \<le> tv_usec st" "tv_usec st < 1000000" "0 \<le> tv_usec en" "tv_usec en < 1000000"
  shows "0 \<le> tv_usec (elapsed st en) \<and> tv_usec (elapsed st en) < 1000000 \<and>
    tv_sec (elapsed st en) * 1000000 + tv_usec (elapsed st en) =
      (tv_sec en * 1000000 + tv_usec en) - (tv_sec st * 1000000 + tv_usec st)"
  using assms by (auto simp: elapsed_def Let_def)

text \<open>
  Outside its time frame the interval timer moves the frame to start now and to end at a multiple of the
  interval that is later than now by at most two intervals; inside it changes nothing.  Whether the
  timer has run out never reaches the caller: the result of the call is the indeterminate value
  whatever the time, also at the very second the frame ends.
\<close>

lemma interval_timer_result_lost:
  assumes "0 < ti_interval t" "0 \<le> time"
  shows "snd (interval_TimeOut junk time t) = junk \<and>
    (time = ti_next t \<and> ti_curr t \<le> time \<longrightarrow> snd (interval_step time t) = 1) \<and>
    (let t' = fst (interval_TimeOut junk time t) in
       if ti_curr t \<le> time \<and> time < ti_next t then t' = t
       else ti_curr t' = time \<and> time < ti_next t' \<and> ti_next t' \<le> time + 2 * ti_interval t \<and> ti_next t' mod ti_interval t = 0)"
proof -
  have "time smod ti_interval t = time mod ti_interval t" "ti_interval t sdiv 3 = ti_interval t div 3"
    using assms by (simp_all add: smod_nonneg sdiv_nonneg)
  moreover have "0 \<le> time mod ti_interval t" "time mod ti_interval t < ti_interval t" using assms by simp_all
  moreover have "(time - time mod ti_interval t + ti_interval t) mod ti_interval t = 0"
    "(time - time mod ti_interval t + ti_interval t * 2) mod ti_interval t = 0"
    by (simp_all add: minus_mod_eq_mult_div)
  ultimately show ?thesis by (auto simp: interval_TimeOut_def interval_step_def Let_def)
qed

lemma interval_timer_result_lost_example:
  "snd (interval_TimeOut 77 10 \<lparr>ti_interval = 10, ti_curr = 0, ti_next = 10\<rparr>) = 77 \<and>
   snd (interval_step 10 \<lparr>ti_interval = 10, ti_curr = 0, ti_next = 10\<rparr>) = 1"
  using interval_timer_result_lost [of "\<lparr>ti_interval = 10, ti_curr = 0, ti_next = 10\<rparr>" 10 77] by simp

end
