(* ===== verification/Irig.thy ===== *)
theory Irig
  imports Clock
begin

text \<open>
  The GPS clock (common/commu/protocol/app_prtcl_gps.cpp): \<open>AppPrtclGps\<close> decodes the
  elements of an IRIG-B time code into BCD registers, waits for consecutive seconds and then
  sets the system clock.  The system services (local time, \<open>MakeTime\<close>, the clock, the
  parameters of the configuration) are an environment record; what the code does to the
  outside is a list of actions.
\<close>

section \<open>State\<close>

record gps =
  p_cnt :: int
  pr_find :: int
  element_id :: int
  sec_old :: int
  right_cnt :: int
  timesyn_spc :: int
  set_rtc_spc :: int
  syn_cnt :: int
  seconds :: int
  minutes :: int
  hours :: int
  days :: int
  note2dsp :: int

record gps_env =
  ge_local :: ctm
  ge_mktime :: "ctm \<Rightarrow> int"
  ge_usec :: int
  ge_single_type :: int
  ge_time_intr :: int
  ge_modify :: int

datatype gps_act = Refresh_daram int | Set_rtc int | Set_time int int

text \<open>The constructor leaves the decoder's own fields as they are.\<close>

definition gps_init :: "gps \<Rightarrow> gps \<times> gps_act list" where
  "gps_init g = (g\<lparr>timesyn_spc := 20, sec_old := 0, right_cnt := 0, set_rtc_spc := 1, syn_cnt := 0,
     note2dsp := 0\<rparr>, [Refresh_daram 0])"

section \<open>Day of the year\<close>

definition Yday2Mday :: "ctm \<Rightarrow> int \<Rightarrow> ctm" where
  "Yday2Mday t yday =
     (let leap = (if tm_year t smod 400 = 0 \<or> (tm_year t smod 4 = 0 \<and> tm_year t smod 100 \<noteq> 0) then 1 else 0);
          t = (if tm_mon t = 0 \<and> yday > 334 + leap then t\<lparr>tm_year := tm_year t - 1\<rparr>
               else if tm_mon t = 11 \<and> yday < 32 then t\<lparr>tm_year := tm_year t + 1\<rparr> else t)
      in if yday \<ge> 1 \<and> yday \<le> 31 then t\<lparr>tm_mon := 0, tm_mday := yday\<rparr>
         else if yday \<le> 59 + leap then t\<lparr>tm_mon := 1, tm_mday := yday - 31\<rparr>
         else if yday \<le> 90 + leap then t\<lparr>tm_mon := 2, tm_mday := yday - 59 - leap\<rparr>
         else if yday \<le> 120 + leap then t\<lparr>tm_mon := 3, tm_mday := yday - 90 - leap\<rparr>
         else if yday \<le> 151 + leap then t\<lparr>tm_mon := 4, tm_mday := yday - 120 - leap\<rparr>
         else if yday \<le> 181 + leap then t\<lparr>tm_mon := 5, tm_mday := yday - 151 - leap\<rparr>
         else if yday \<le> 212 + leap then t\<lparr>tm_mon := 6, tm_mday := yday - 181 - leap\<rparr>
         else if yday \<le> 243 + leap then t\<lparr>tm_mon := 7, tm_mday := yday - 212 - leap\<rparr>
         else if yday \<le> 273 + leap then t\<lparr>tm_mon := 8, tm_mday := yday - 243 - leap\<rparr>
         else if yday \<le> 304 + leap then t\<lparr>tm_mon := 9, tm_mday := yday - 273 - leap\<rparr>
         else if yday \<le> 334 + leap then t\<lparr>tm_mon := 10, tm_mday := yday - 304 - leap\<rparr>
         else if yday \<le> 365 + leap then t\<lparr>tm_mon := 11, tm_mday := yday - 334 - leap\<rparr>
         else t)"

section \<open>Setting the clock\<close>

text \<open>Arithmetic shift right and the low four bits of a register.\<close>

definition bcd2 :: "int \<Rightarrow> int" where
  "bcd2 r = drop_bit 4 r * 10 + (r AND 0xf)"

definition bcd3 :: "int \<Rightarrow> int" where
  "bcd3 r = drop_bit 8 r * 100 + (drop_bit 4 r AND 0xf) * 10 + (r AND 0xf)"

definition SetIRIGBTime :: "gps_env \<Rightarrow> int \<Rightarrow> int \<Rightarrow> gps \<Rightarrow> (gps \<times> gps_act list) option" where
  "SetIRIGBTime env cnt ofst g =
     (let sec = bcd2 (seconds g); mnt = bcd2 (minutes g); hour = bcd2 (hours g); yday = bcd3 (days g);
          sec_new = hour * 3600 + mnt * 60 + sec;
          g = (if sec_new \<noteq> sec_old g + 1 then g\<lparr>right_cnt := 0\<rparr> else g);
          g = g\<lparr>sec_old := sec_new\<rparr>
      in if right_cnt g < 4 then Some (g\<lparr>right_cnt := right_cnt g + 1\<rparr>, [])
         else
           (let t = (ge_local env)\<lparr>tm_sec := sec + 1, tm_min := mnt, tm_hour := hour\<rparr>;
                t = (Yday2Mday t yday)\<lparr>tm_isdst := 0\<rparr>;
                tsec = ge_mktime env t;
                usec = (cnt - ofst) * 10000 + 350 + ge_modify env * 1000;
                (tsec, usec) = (if usec < 0 then (tsec - 1, usec + 1000000) else (tsec, usec));
                g = g\<lparr>timesyn_spc := timesyn_spc g - 1\<rparr>
            in do {
                 (g, acts) \<leftarrow>
                   (if timesyn_spc g \<le> 0 then
                      (let g = (if \<bar>usec - ge_usec env\<bar> < 1000 then g\<lparr>syn_cnt := syn_cnt g + 1\<rparr>
                                else g\<lparr>syn_cnt := 0\<rparr>)
                       in if syn_cnt g \<ge> 3 then do {
                            let g = g\<lparr>syn_cnt := 0\<rparr>;
                            (g, a) \<leftarrow>
                              (if set_rtc_spc g \<le> 0 then
                                 (if ge_time_intr env = 0 then None
                                  else Some (g\<lparr>set_rtc_spc := 1800 sdiv ge_time_intr env\<rparr>, [Set_rtc tsec]))
                               else Some (g, []));
                            Some (g\<lparr>timesyn_spc := ge_time_intr env, note2dsp := note2dsp g XOR 0xff\<rparr>,
                                  a @ [Refresh_daram (note2dsp g)])
                          } else Some (g, [Set_time tsec usec]))
                    else Some (g, []));
                 Some (if set_rtc_spc g > 0 then g\<lparr>set_rtc_spc := set_rtc_spc g - 1\<rparr> else g, acts)
               }))"

section \<open>Decoding\<close>

text \<open>One element behind the reference mark, by its position.\<close>

definition irig_element :: "int \<Rightarrow> gps \<Rightarrow> gps" where
  "irig_element v g =
     (let e = element_id g;
          g = (if 1 \<le> e \<and> e \<le> 4 then g\<lparr>seconds := seconds g + push_bit (nat (e - 1)) v\<rparr>
               else if 6 \<le> e \<and> e \<le> 8 then g\<lparr>seconds := seconds g + push_bit (nat (e - 2)) v\<rparr>
               else if 10 \<le> e \<and> e \<le> 13 then g\<lparr>minutes := minutes g + push_bit (nat (e - 10)) v\<rparr>
               else if 15 \<le> e \<and> e \<le> 17 then g\<lparr>minutes := minutes g + push_bit (nat (e - 11)) v\<rparr>
               else if 20 \<le> e \<and> e \<le> 23 then g\<lparr>hours := hours g + push_bit (nat (e - 20)) v\<rparr>
               else if 25 \<le> e \<and> e \<le> 26 then g\<lparr>hours := hours g + push_bit (nat (e - 21)) v\<rparr>
               else if 30 \<le> e \<and> e \<le> 33 then g\<lparr>days := days g + push_bit (nat (e - 30)) v\<rparr>
               else if 35 \<le> e \<and> e \<le> 38 then g\<lparr>days := days g + push_bit (nat (e - 31)) v\<rparr>
               else if 40 \<le> e \<and> e \<le> 41 then g\<lparr>days := days g + push_bit (nat (e - 32)) v\<rparr>
               else if e = 98 then g\<lparr>pr_find := 0\<rparr> else g)
      in g\<lparr>element_id := e + 1\<rparr>)"

definition gps_byte :: "gps_env \<Rightarrow> int \<Rightarrow> int \<Rightarrow> int \<Rightarrow> gps \<Rightarrow> (gps \<times> gps_act list) option" where
  "gps_byte env cnt i v g =
     (if pr_find g = 0 then
        (if v = 82 then
           (let g = g\<lparr>p_cnt := p_cnt g + 1\<rparr>
            in if p_cnt g = 2 then do {
                 let g = g\<lparr>p_cnt := 0\<rparr>;
                 (g, acts) \<leftarrow> (if ge_single_type env \<le> 1 then SetIRIGBTime env cnt (i - 1) g else Some (g, []));
                 Some (g\<lparr>pr_find := 1, element_id := 1, seconds := 0, minutes := 0, hours := 0, days := 0\<rparr>, acts)
               } else Some (g, []))
         else Some (g\<lparr>p_cnt := 0\<rparr>, []))
      else if v = 0xcc then Some (g\<lparr>pr_find := 0\<rparr>, [])
      else Some (irig_element v g, []))"

text \<open>\<open>rbuf[0]\<close> is the number of elements; reading beyond the buffer is a memory error.\<close>

definition gps_CmdReceive :: "gps_env \<Rightarrow> u8 list \<Rightarrow> gps \<Rightarrow> (int \<times> gps \<times> gps_act list) option" where
  "gps_CmdReceive env rbuf g = do {
     c \<leftarrow> aget rbuf 0;
     (g, acts) \<leftarrow> for_loop 1 (uint c + 1) (\<lambda>i (g, acts). do {
       v \<leftarrow> aget rbuf i;
       (g, a) \<leftarrow> gps_byte env (uint c) i (uint v) g;
       Some (g, acts @ a) }) (g, []);
     Some (0, g, acts)
   }"

section \<open>A time code and its decoding\<close>

text \<open>The element at position p (1 to 98) of the code for a time and a day of the year.\<close>

definition code_bit :: "int \<Rightarrow> int \<Rightarrow> int" where
  "code_bit n k = n div 2 ^ nat k mod 2"

definition irig_code :: "int \<Rightarrow> int \<Rightarrow> int \<Rightarrow> int \<Rightarrow> int \<Rightarrow> int" where
  "irig_code s m h d p =
     (if 1 \<le> p \<and> p \<le> 4 then code_bit (s mod 10) (p - 1)
      else if 6 \<le> p \<and> p \<le> 8 then code_bit (s div 10) (p - 6)
      else if 10 \<le> p \<and> p \<le> 13 then code_bit (m mod 10) (p - 10)
      else if 15 \<le> p \<and> p \<le> 17 then code_bit (m div 10) (p - 15)
      else if 20 \<le> p \<and> p \<le> 23 then code_bit (h mod 10) (p - 20)
      else if 25 \<le> p \<and> p \<le> 26 then code_bit (h div 10) (p - 25)
      else if 30 \<le> p \<and> p \<le> 33 then code_bit (d mod 10) (p - 30)
      else if 35 \<le> p \<and> p \<le> 38 then code_bit (d div 10 mod 10) (p - 35)
      else if 40 \<le> p \<and> p \<le> 41 then code_bit (d div 100) (p - 40)
      else if p mod 10 = 9 then 82 else 0)"

lemma irig_code_range: "0 \<le> irig_code s m h d p \<and> irig_code s m h d p \<le> 82"
proof -
  have "0 \<le> code_bit n k \<and> code_bit n k \<le> 1" for n k
    using pos_mod_bound [of 2 "n div 2 ^ nat k"] by (simp add: code_bit_def)
  then show ?thesis unfolding irig_code_def by (smt (verit))
qed

text \<open>
  The weight of a position in a register: the register's fields are given by their first and
  last position and the position that would have weight one.
\<close>

fun weight :: "(int \<times> int \<times> int) list \<Rightarrow> int \<Rightarrow> int" where
  "weight [] p = 0"
| "weight ((lo, hi, off) # rs) p = (if lo \<le> p \<and> p \<le> hi then 2 ^ nat (p - off) else weight rs p)"

abbreviation sec_fields :: "(int \<times> int \<times> int) list" where
  "sec_fields \<equiv> [(1, 4, 1), (6, 8, 2)]"

abbreviation min_fields :: "(int \<times> int \<times> int) list" where
  "min_fields \<equiv> [(10, 13, 10), (15, 17, 11)]"

abbreviation hour_fields :: "(int \<times> int \<times> int) list" where
  "hour_fields \<equiv> [(20, 23, 20), (25, 26, 21)]"

abbreviation day_fields :: "(int \<times> int \<times> int) list" where
  "day_fields \<equiv> [(30, 33, 30), (35, 38, 31), (40, 41, 32)]"

lemma irig_element_code:
  assumes "element_id g = p"
  shows "irig_element v g = g\<lparr>element_id := p + 1, seconds := seconds g + v * weight sec_fields p,
    minutes := minutes g + v * weight min_fields p, hours := hours g + v * weight hour_fields p,
    days := days g + v * weight day_fields p, pr_find := (if p = 98 then 0 else pr_find g)\<rparr>"
  using assms by (cases g) (auto simp: irig_element_def Let_def push_bit_eq_mult)

definition code_sum :: "(int \<times> int \<times> int) list \<Rightarrow> (int \<Rightarrow> int) \<Rightarrow> int \<Rightarrow> int" where
  "code_sum fs c n = sum_list (map (\<lambda>p. c p * weight fs p) [1..n])"

lemma upto_snoc: "1 \<le> n \<Longrightarrow> [1..n] = [1..n - 1] @ [n :: int]"
  by (rule upto_rec2) simp

lemma code_sum_step: "1 \<le> n \<Longrightarrow> code_sum fs c n = code_sum fs c (n - 1) + c n * weight fs n"
  by (simp add: code_sum_def upto_snoc [of n])

lemma feed_elements:
  assumes "element_id g = 1" "n \<le> 98"
  shows "foldl (\<lambda>g p. irig_element (c p) g) g [1..int n] =
    g\<lparr>element_id := int n + 1, seconds := seconds g + code_sum sec_fields c (int n),
      minutes := minutes g + code_sum min_fields c (int n), hours := hours g + code_sum hour_fields c (int n),
      days := days g + code_sum day_fields c (int n), pr_find := (if n = 98 then 0 else pr_find g)\<rparr>"
  using assms(2)
proof (induction n)
  case 0
  then show ?case using assms(1) by (cases g) (simp add: code_sum_def)
next
  case (Suc n)
  then have IH: "foldl (\<lambda>g p. irig_element (c p) g) g [1..int n] =
    g\<lparr>element_id := int n + 1, seconds := seconds g + code_sum sec_fields c (int n),
      minutes := minutes g + code_sum min_fields c (int n), hours := hours g + code_sum hour_fields c (int n),
      days := days g + code_sum day_fields c (int n), pr_find := pr_find g\<rparr>" by simp
  have "[1..int (Suc n)] = [1..int n] @ [int n + 1]" using upto_snoc [of "int (Suc n)"] by (simp add: add.commute)
  moreover have "code_sum fs c (int (Suc n)) = code_sum fs c (int n) + c (int n + 1) * weight fs (int n + 1)" for fs
    using code_sum_step [of "int (Suc n)" fs c] by (simp add: add.commute)
  ultimately show ?case using Suc.prems
    by (simp only: foldl_append foldl_Cons foldl_Nil IH)
      (simp add: irig_element_code [where p = "int n + 1"] algebra_simps del: weight.simps)
qed

lemma bits4:
  assumes "0 \<le> n" "n < 16"
  shows "n mod 2 + n div 2 mod 2 * 2 + n div 4 mod 2 * 4 + n div 8 mod 2 * 8 = (n :: int)"
proof -
  have "n \<in> set [0..15]" using assms by simp
  then have "n \<in> set (map int [0..<16])" by (simp del: set_upto add: upto_rec1 upt_rec)
  then show ?thesis by (simp del: set_map set_upt add: upt_rec) (elim disjE; simp)
qed

lemma bits3: "0 \<le> n \<Longrightarrow> n < 8 \<Longrightarrow> n mod 2 + n div 2 mod 2 * 2 + n div 4 mod 2 * 4 = (n :: int)"
  using bits4 [of n] by simp

lemma bits2: "0 \<le> n \<Longrightarrow> n < 4 \<Longrightarrow> n mod 2 + n div 2 mod 2 * 2 = (n :: int)"
  using bits3 [of n] by simp

lemma code_sum_98:
  assumes "\<forall>p > 42. weight fs p = 0"
  shows "code_sum fs c 98 = code_sum fs c 42"
proof -
  have "code_sum fs c 98 = code_sum fs c 42 + sum_list (map (\<lambda>p. c p * weight fs p) [43..98])"
    using upto_split1 [of 1 43 98] by (simp add: code_sum_def upto_split2 [of 1 42 98])
  also have "sum_list (map (\<lambda>p. c p * weight fs p) [43..98]) = sum_list (map (\<lambda>p. 0) [43 :: int..98])"
    using assms by (intro arg_cong [where f = sum_list] map_cong) auto
  finally show ?thesis by (simp add: sum_list_0)
qed

lemma code_sum_seconds:
  assumes "0 \<le> s" "s < 60"
  shows "code_sum sec_fields (irig_code s m h d) 98 = s mod 10 + 16 * (s div 10)"
proof -
  have "0 \<le> s mod 10" "s mod 10 < 16" using pos_mod_bound [of 10 s] by simp_all
  note units = bits4 [OF this]
  have "0 \<le> s div 10" "s div 10 < 8" using assms by auto
  note tens = bits3 [OF this]
  have "code_sum sec_fields (irig_code s m h d) 98 =
    s mod 10 mod 2 + s mod 10 div 2 mod 2 * 2 + s mod 10 div 4 mod 2 * 4 + s mod 10 div 8 mod 2 * 8 +
    16 * (s div 10 mod 2 + s div 10 div 2 mod 2 * 2 + s div 10 div 4 mod 2 * 4)"
    by (simp add: code_sum_98) (simp add: code_sum_def upto_rec1 irig_code_def code_bit_def)
  then show ?thesis by (simp only: units tens)
qed

lemma code_sum_minutes:
  assumes "0 \<le> m" "m < 60"
  shows "code_sum min_fields (irig_code s m h d) 98 = m mod 10 + 16 * (m div 10)"
proof -
  have "0 \<le> m mod 10" "m mod 10 < 16" using pos_mod_bound [of 10 m] by simp_all
  note units = bits4 [OF this]
  have "0 \<le> m div 10" "m div 10 < 8" using assms by auto
  note tens = bits3 [OF this]
  have "code_sum min_fields (irig_code s m h d) 98 =
    m mod 10 mod 2 + m mod 10 div 2 mod 2 * 2 + m mod 10 div 4 mod 2 * 4 + m mod 10 div 8 mod 2 * 8 +
    16 * (m div 10 mod 2 + m div 10 div 2 mod 2 * 2 + m div 10 div 4 mod 2 * 4)"
    by (simp add: code_sum_98) (simp add: code_sum_def upto_rec1 irig_code_def code_bit_def)
  then show ?thesis by (simp only: units tens)
qed

lemma code_sum_hours:
  assumes "0 \<le> h" "h < 24"
  shows "code_sum hour_fields (irig_code s m h d) 98 = h mod 10 + 16 * (h div 10)"
proof -
  have "0 \<le> h mod 10" "h mod 10 < 16" using pos_mod_bound [of 10 h] by simp_all
  note units = bits4 [OF this]
  have "0 \<le> h div 10" "h div 10 < 4" using assms by auto
  note tens = bits2 [OF this]
  have "code_sum hour_fields (irig_code s m h d) 98 =
    h mod 10 mod 2 + h mod 10 div 2 mod 2 * 2 + h mod 10 div 4 mod 2 * 4 + h mod 10 div 8 mod 2 * 8 +
    16 * (h div 10 mod 2 + h div 10 div 2 mod 2 * 2)"
    by (simp add: code_sum_98) (simp add: code_sum_def upto_rec1 irig_code_def code_bit_def)
  then show ?thesis by (simp only: units tens)
qed

lemma code_sum_days:
  assumes "0 \<le> d" "d < 400"
  shows "code_sum day_fields (irig_code s m h d) 98 = d mod 10 + 16 * (d div 10 mod 10) + 256 * (d div 100)"
proof -
  have "0 \<le> d mod 10" "d mod 10 < 16" using pos_mod_bound [of 10 d] by simp_all
  note units = bits4 [OF this]
  have "0 \<le> d div 10 mod 10" "d div 10 mod 10 < 16" using pos_mod_bound [of 10 "d div 10"] by simp_all
  note tens = bits4 [OF this]
  have "0 \<le> d div 100" "d div 100 < 4" using assms by auto
  note hundreds = bits2 [OF this]
  have "code_sum day_fields (irig_code s m h d) 98 =
    d mod 10 mod 2 + d mod 10 div 2 mod 2 * 2 + d mod 10 div 4 mod 2 * 4 + d mod 10 div 8 mod 2 * 8 +
    16 * (d div 10 mod 10 mod 2 + d div 10 mod 10 div 2 mod 2 * 2 + d div 10 mod 10 div 4 mod 2 * 4 +
      d div 10 mod 10 div 8 mod 2 * 8) +
    256 * (d div 100 mod 2 + d div 100 div 2 mod 2 * 2)"
    by (simp add: code_sum_98) (simp add: code_sum_def upto_rec1 irig_code_def code_bit_def)
  then show ?thesis by (simp only: units tens hundreds)
qed

lemma bcd_fields:
  assumes "0 \<le> u" "u < 16" "0 \<le> t" "t < 16" "0 \<le> (c :: int)"
  shows "drop_bit 4 (u + 16 * t) = t" "(u + 16 * t) AND 15 = u"
    "drop_bit 8 (u + 16 * t + 256 * c) = c" "drop_bit 4 (u + 16 * t + 256 * c) AND 15 = t"
    "(u + 16 * t + 256 * c) AND 15 = u"
proof -
  have m: "x AND 15 = x mod 16" for x :: int using and_mask_mod [of x 4] by simp
  have split: "(a + 256 * c) div 256 = c" if "0 \<le> a" "a < 256" for a using that by simp
  have "(u + 16 * t + 256 * c) div 256 = c" by (rule split) (use assms in linarith)+
  then show "drop_bit 8 (u + 16 * t + 256 * c) = c" by (simp add: drop_bit_eq_div)
  have e: "u + 16 * t + 256 * c = u + 16 * (t + 16 * c)" by simp
  have "(u + 16 * (t + 16 * c)) div 16 = t + 16 * c" using assms by simp
  then show "drop_bit 4 (u + 16 * t + 256 * c) AND 15 = t" using assms
    unfolding e by (simp add: drop_bit_eq_div m)
  show "(u + 16 * t + 256 * c) AND 15 = u" unfolding e m mod_mult_self2 using assms(1,2) by simp
  show "drop_bit 4 (u + 16 * t) = t" "(u + 16 * t) AND 15 = u" unfolding m using assms
    by (simp_all add: drop_bit_eq_div)
qed

section \<open>Receiving a whole time code\<close>

lemma gps_byte_code:
  assumes "pr_find g = 1" "v \<noteq> 0xcc"
  shows "gps_byte env cnt i v g = Some (irig_element v g, [])"
  using assms by (simp add: gps_byte_def)

lemma receive_code:
  assumes g: "pr_find g = 1" "element_id g = 1" and n: "n \<le> 98"
    and c: "\<And>p. 0 \<le> c p \<and> c p \<le> 82"
    and buf: "\<And>p. 1 \<le> p \<Longrightarrow> p \<le> 98 \<Longrightarrow> aget rbuf p = Some (word_of_int (c p) :: u8)"
  shows "foldO (\<lambda>i (g, acts). do { v \<leftarrow> aget rbuf i; (g, a) \<leftarrow> gps_byte env cnt i (uint v) g; Some (g, acts @ a) })
      [1..int n] (g, []) = Some (foldl (\<lambda>g p. irig_element (c p) g) g [1..int n], [])"
  using n
proof (induction n)
  case 0
  then show ?case by simp
next
  case (Suc n)
  let ?g = "foldl (\<lambda>g p. irig_element (c p) g) g [1..int n]"
  have "[1..int (Suc n)] = [1..int n] @ [int n + 1]" using upto_snoc [of "int (Suc n)"] by (simp add: add.commute)
  moreover have "pr_find ?g = 1" using feed_elements [OF g(2), of n c] Suc.prems g(1) by simp
  moreover have "uint (word_of_int (c p) :: u8) = c p" for p
    using c [of p] by (simp add: uint_word_of_int)
  moreover have "c (int n + 1) \<noteq> 0xcc" using c [of "int n + 1"] by linarith
  ultimately show ?case using Suc buf [of "int n + 1"]
    by (simp add: foldO_append gps_byte_code)
qed

definition code_rbuf :: "int \<Rightarrow> int \<Rightarrow> int \<Rightarrow> int \<Rightarrow> u8 list" where
  "code_rbuf s m h d = 98 # map (\<lambda>p. word_of_int (irig_code s m h d p)) [1..98]"

lemma aget_code_rbuf:
  "1 \<le> p \<Longrightarrow> p \<le> 98 \<Longrightarrow> aget (code_rbuf s m h d) p = Some (word_of_int (irig_code s m h d p))"
proof -
  assume p: "1 \<le> p" "p \<le> 98"
  then have "nat p = Suc (nat (p - 1))" "[1..98] ! nat (p - 1) = p" using nth_upto [of 1 "nat (p - 1)" 98] by simp_all
  then show ?thesis using p by (simp add: aget_def code_rbuf_def)
qed

lemma gps_receive_code:
  assumes "pr_find g = 1" "element_id g = 1"
  shows "gps_CmdReceive env (code_rbuf s m h d) g =
    Some (0, foldl (\<lambda>g p. irig_element (irig_code s m h d p) g) g [1..98], [])"
proof -
  have "aget (code_rbuf s m h d) 0 = Some 98" by (simp add: aget_def code_rbuf_def)
  then show ?thesis
    using receive_code [OF assms, of 98 "irig_code s m h d" "code_rbuf s m h d" env 98]
    by (simp add: gps_CmdReceive_def for_loop_def irig_code_range aget_code_rbuf)
qed

section \<open>Runs of consecutive seconds\<close>

text \<open>Calls of \<open>SetIRIGBTime\<close> with the registers of successive codes.\<close>

definition load_regs :: "int \<times> int \<times> int \<times> int \<Rightarrow> gps \<Rightarrow> gps" where
  "load_regs r g = (case r of (s, m, h, d) \<Rightarrow> g\<lparr>seconds := s, minutes := m, hours := h, days := d\<rparr>)"

definition reg_time :: "int \<times> int \<times> int \<times> int \<Rightarrow> int" where
  "reg_time r = (case r of (s, m, h, d) \<Rightarrow> bcd2 h * 3600 + bcd2 m * 60 + bcd2 s)"

fun set_times :: "gps_env \<Rightarrow> (int \<times> int \<times> int \<times> int) list \<Rightarrow> gps \<Rightarrow> (gps \<times> gps_act list list) option" where
  "set_times env [] g = Some (g, [])"
| "set_times env (r # rs) g =
     (case SetIRIGBTime env 0 0 (load_regs r g) of None \<Rightarrow> None
      | Some (g, a) \<Rightarrow> (case set_times env rs g of None \<Rightarrow> None | Some (g, as) \<Rightarrow> Some (g, a # as)))"

text \<open>
  Against the history of times (newest first): the counter is at most four and not more than
  the length of the run of consecutive seconds.
\<close>

definition run_ok :: "int list \<Rightarrow> gps \<Rightarrow> bool" where
  "run_ok ts g \<longleftrightarrow> 0 \<le> right_cnt g \<and> right_cnt g \<le> 4 \<and> nat (right_cnt g) \<le> length ts \<and>
     (ts \<noteq> [] \<longrightarrow> sec_old g = hd ts) \<and>
     (\<forall>i. Suc i < nat (right_cnt g) \<longrightarrow> ts ! i = ts ! Suc i + 1)"

lemma SetIRIGBTime_cases:
  assumes "SetIRIGBTime env 0 0 (load_regs r g) = Some (g', a)"
  shows "sec_old g' = reg_time r \<and>
    (if reg_time r = sec_old g + 1 \<and> 4 \<le> right_cnt g then right_cnt g' = right_cnt g
     else a = [] \<and> right_cnt g' = (if reg_time r = sec_old g + 1 then right_cnt g else 0) + 1)"
  using assms
  by (auto simp: SetIRIGBTime_def Let_def load_regs_def reg_time_def split: prod.splits if_splits Option.bind_splits)

lemma run_ok_step:
  assumes "run_ok ts g" "SetIRIGBTime env 0 0 (load_regs r g) = Some (g', a)"
  shows "run_ok (reg_time r # ts) g'"
proof -
  note c = SetIRIGBTime_cases [OF assms(2)]
  have hd: "ts ! 0 = sec_old g" if "0 < right_cnt g" using assms(1) that by (cases ts) (auto simp: run_ok_def)
  show ?thesis
  proof (cases "reg_time r = sec_old g + 1")
    case False
    then show ?thesis using c by (auto simp: run_ok_def)
  next
    case True
    have "(reg_time r # ts) ! i = (reg_time r # ts) ! Suc i + 1"
      if "Suc i < nat (right_cnt g')" "right_cnt g' \<le> right_cnt g + 1" for i
    proof (cases i)
      case 0
      then show ?thesis using that True hd by simp
    next
      case (Suc j)
      then have "Suc j < nat (right_cnt g)" using that by linarith
      then show ?thesis using assms(1) Suc by (simp add: run_ok_def)
    qed
    moreover have "right_cnt g' \<le> right_cnt g + 1" using c True by (auto split: if_splits)
    ultimately show ?thesis using c assms(1) True by (auto simp: run_ok_def split: if_splits)
  qed
qed

lemma action_needs_run:
  assumes "run_ok ts g" "SetIRIGBTime env 0 0 (load_regs r g) = Some (g', a)" "a \<noteq> []"
  shows "4 \<le> length ts \<and> (\<forall>i < 4. (reg_time r # ts) ! i = ts ! i + 1)"
proof -
  have c: "reg_time r = sec_old g + 1" "4 \<le> right_cnt g"
    using SetIRIGBTime_cases [OF assms(2)] assms(3) by (auto split: if_splits)
  then have n: "right_cnt g = 4" "4 \<le> length ts" using assms(1) by (auto simp: run_ok_def)
  then have h: "ts ! 0 = sec_old g" using assms(1) by (cases ts) (auto simp: run_ok_def)
  have "(reg_time r # ts) ! i = ts ! i + 1" if "i < 4" for i
    using that c(1) h assms(1) n(1) by (cases i) (auto simp: run_ok_def)
  then show ?thesis using n(2) by blast
qed

lemma set_times_run:
  assumes "run_ok ts g" "set_times env rs g = Some (g', as)" "n < length rs" "as ! n \<noteq> []"
  shows "4 \<le> length ts + n \<and>
    (\<forall>i < 4. (rev (map reg_time (take (Suc n) rs)) @ ts) ! i = (rev (map reg_time (take (Suc n) rs)) @ ts) ! Suc i + 1)"
  using assms
proof (induction rs arbitrary: ts g as n)
  case Nil
  then show ?case by simp
next
  case (Cons r rs)
  from Cons.prems(2) obtain g1 a as' where s: "SetIRIGBTime env 0 0 (load_regs r g) = Some (g1, a)"
    "set_times env rs g1 = Some (g', as')" "as = a # as'"
    by (auto split: option.splits prod.splits)
  show ?case
  proof (cases n)
    case 0
    then show ?thesis using action_needs_run [OF Cons.prems(1) s(1)] Cons.prems(4) s(3) by simp
  next
    case (Suc k)
    then show ?thesis
      using Cons.IH [OF run_ok_step [OF Cons.prems(1) s(1)] s(2), of k] Cons.prems(3,4) s(3) by simp
  qed
qed

section \<open>The calendar\<close>

definition day_of_year :: "int \<Rightarrow> int \<Rightarrow> int \<Rightarrow> int" where
  "day_of_year y mon d = sum_list (take (nat mon) (month_lens y)) + d"

lemma leap_flag:
  assumes "101 \<le> y" "y \<le> 199"
  shows "(y smod 400 = 0 \<or> (y smod 4 = 0 \<and> y smod 100 \<noteq> 0)) \<longleftrightarrow> leap_year (1900 + y)"
proof -
  have r: "(y - 100) mod 100 = y - 100" using assms by (intro mod_pos_pos_trivial) auto
  have m: "y smod 400 = y mod 400" "y smod 4 = y mod 4" "y smod 100 = y mod 100"
    using assms by (simp_all add: signed_modulo_int_def)
  have "y mod 400 = y" using assms by (intro mod_pos_pos_trivial) auto
  then have a: "y smod 400 \<noteq> 0" using m(1) assms(1) by linarith
  have "y mod 100 = y - 100" using r mod_add_self2 [of "y - 100" 100] by (simp only: diff_add_cancel)
  then have b: "y smod 100 \<noteq> 0" using m(3) assms(1) by linarith
  have "y - 100 + 100 * 20 = 1900 + y" by simp
  then have "(1900 + y) mod 100 = y - 100" using r mod_mult_self2 [of "y - 100" 100 20] by metis
  then have c: "(1900 + y) mod 100 \<noteq> 0" using assms(1) by linarith
  have "y + 4 * 475 = 1900 + y" by simp
  then have "(1900 + y) mod 4 = y mod 4" using mod_mult_self2 [of y 4 475] by metis
  then show ?thesis using a b c m(2) unfolding leap_year_def by metis
qed

section \<open>Properties\<close>

text \<open>
  C37. A whole time code for a time of day and a day of the year, received in one call, element by element behind its reference mark and
  with zeros for the elements that carry neither time nor day and are no position marks, is decoded into registers whose BCD
  values are that time and day, without touching the clock, and leaves the decoder waiting for the next mark.
\<close>

theorem irig_decode:
  assumes "0 \<le> s" "s < 60" "0 \<le> m" "m < 60" "0 \<le> h" "h < 24" "0 \<le> d" "d < 400"
    "pr_find g = 1" "element_id g = 1" "seconds g = 0" "minutes g = 0" "hours g = 0" "days g = 0"
  shows "\<exists>g'. gps_CmdReceive env (code_rbuf s m h d) g = Some (0, g', []) \<and> pr_find g' = 0 \<and>
    bcd2 (seconds g') = s \<and> bcd2 (minutes g') = m \<and> bcd2 (hours g') = h \<and> bcd3 (days g') = d"
proof -
  let ?g = "foldl (\<lambda>g p. irig_element (irig_code s m h d p) g) g [1..98]"
  have int98: "int 98 = 98" "98 + 1 = (99 :: int)" by simp_all
  have feed: "?g = g\<lparr>element_id := 99, seconds := s mod 10 + 16 * (s div 10),
      minutes := m mod 10 + 16 * (m div 10), hours := h mod 10 + 16 * (h div 10),
      days := d mod 10 + 16 * (d div 10 mod 10) + 256 * (d div 100), pr_find := 0\<rparr>"
    using feed_elements [OF assms(10) order_refl, of "irig_code s m h d", unfolded int98]
    by (simp only: assms code_sum_seconds code_sum_minutes code_sum_hours code_sum_days if_True add_0 simp_thms)
  have two: "bcd2 (x mod 10 + 16 * (x div 10)) = x" if "0 \<le> x" "x < 100" for x
  proof -
    have r: "0 \<le> x mod 10" "x mod 10 < 16" "0 \<le> x div 10" "x div 10 < 16"
      using that pos_mod_bound [of 10 x] by auto
    show ?thesis using mult_div_mod_eq [of 10 x] by (simp only: bcd2_def bcd_fields(1,2) [OF r, of 0])
  qed
  have r: "0 \<le> d mod 10" "d mod 10 < 16" "0 \<le> d div 10 mod 10" "d div 10 mod 10 < 16" "0 \<le> d div 100"
    using assms(7) pos_mod_bound [of 10 d] pos_mod_bound [of 10 "d div 10"] by auto
  have "d div 100 = d div 10 div 10" by simp
  then have "d div 100 * 100 + d div 10 mod 10 * 10 + d mod 10 = d"
    using mult_div_mod_eq [of 10 d] mult_div_mod_eq [of 10 "d div 10"] by linarith
  then have three: "bcd3 (d mod 10 + 16 * (d div 10 mod 10) + 256 * (d div 100)) = d"
    by (simp only: bcd3_def bcd_fields(3-5) [OF r])
  have "bcd2 (seconds ?g) = s" "bcd2 (minutes ?g) = m" "bcd2 (hours ?g) = h" "bcd3 (days ?g) = d" "pr_find ?g = 0"
    unfolding feed using assms two three by simp_all
  moreover have "gps_CmdReceive env (code_rbuf s m h d) g = Some (0, ?g, [])"
    by (rule gps_receive_code [OF assms(9,10)])
  ultimately show ?thesis by blast
qed

definition marked_gps :: gps where
  "marked_gps = \<lparr>p_cnt = 0, pr_find = 1, element_id = 1, sec_old = 0, right_cnt = 0, timesyn_spc = 20,
     set_rtc_spc = 1, syn_cnt = 0, seconds = 0, minutes = 0, hours = 0, days = 0, note2dsp = 0\<rparr>"

definition example_env :: gps_env where
  "example_env = \<lparr>ge_local = \<lparr>tm_sec = 0, tm_min = 0, tm_hour = 0, tm_mday = 1, tm_mon = 5, tm_year = 118, tm_isdst = 0\<rparr>,
     ge_mktime = (\<lambda>t. tm_hour t * 3600 + tm_min t * 60 + tm_sec t), ge_usec = 0, ge_single_type = 0,
     ge_time_intr = 60, ge_modify = 0\<rparr>"

theorem irig_decode_witness:
  "\<exists>g'. gps_CmdReceive example_env (code_rbuf 59 34 23 365) marked_gps = Some (0, g', []) \<and> pr_find g' = 0 \<and>
    bcd2 (seconds g') = 59 \<and> bcd2 (minutes g') = 34 \<and> bcd2 (hours g') = 23 \<and> bcd3 (days g') = 365"
  by (rule irig_decode) (simp_all add: marked_gps_def)

text \<open>
  The clock is disciplined only by a run of five time codes that are each one second after
  the one before: after the constructor, whatever codes arrive, an action at the n-th of them
  implies that it and its four predecessors are consecutive.
\<close>

lemma clock_needs_five_codes:
  assumes "set_times env rs (fst (gps_init g0)) = Some (g, as)" "n < length rs" "as ! n \<noteq> []"
  shows "4 \<le> n \<and> (\<forall>i < 4. reg_time (rs ! (n - i)) = reg_time (rs ! (n - i - 1)) + 1)"
proof -
  have "run_ok [] (fst (gps_init g0))" by (simp add: run_ok_def gps_init_def)
  from set_times_run [OF this assms] have n: "4 \<le> n"
    and run: "\<And>i. i < 4 \<Longrightarrow> rev (map reg_time (take (Suc n) rs)) ! i = rev (map reg_time (take (Suc n) rs)) ! Suc i + 1"
    by auto
  have "rev (map reg_time (take (Suc n) rs)) ! i = reg_time (rs ! (n - i))" if "i \<le> n" for i
    using that assms(2) by (simp add: rev_nth)
  then have "\<forall>i < 4. reg_time (rs ! (n - i)) = reg_time (rs ! (n - i - 1)) + 1" using run n by simp
  then show ?thesis using n by blast
qed

definition second_codes :: "(int \<times> int \<times> int \<times> int) list" where
  "second_codes = map (\<lambda>n. (16 * (n div 10) + n mod 10, 0, 0, 1)) [0..23]"

lemma clock_needs_five_codes_example:
  "\<exists>g as. set_times example_env second_codes (fst (gps_init marked_gps)) = Some (g, as) \<and> as ! 23 \<noteq> [] \<and>
     (\<forall>i < 4. reg_time (second_codes ! (23 - i)) = reg_time (second_codes ! (23 - i - 1)) + 1)"
proof -
  have "(case set_times example_env second_codes (fst (gps_init marked_gps)) of
      Some (g, as) \<Rightarrow> as ! 23 \<noteq> [] | None \<Rightarrow> False)" by code_simp
  then obtain g as where r: "set_times example_env second_codes (fst (gps_init marked_gps)) = Some (g, as)"
    "as ! 23 \<noteq> []" by (auto split: option.splits)
  moreover have "23 < length second_codes" by (simp add: second_codes_def)
  ultimately show ?thesis using clock_needs_five_codes [of example_env second_codes marked_gps g as 23] by blast
qed

text \<open>
  From 2001 to 2099, and away from the turn of the year, the day of the year is converted
  into the month and the day of the month on which it falls in the Gregorian calendar.
\<close>

lemma day_of_year_converted:
  assumes "101 \<le> tm_year t" "tm_year t \<le> 199" "1 \<le> yday" "yday \<le> (if leap_year (1900 + tm_year t) then 366 else 365)"
    "\<not> (tm_mon t = 0 \<and> yday > 334)" "\<not> (tm_mon t = 11 \<and> yday < 32)"
  shows "let r = Yday2Mday t yday; y = 1900 + tm_year t
    in tm_year r = tm_year t \<and> 0 \<le> tm_mon r \<and> tm_mon r \<le> 11 \<and> 1 \<le> tm_mday r \<and>
      tm_mday r \<le> month_lens y ! nat (tm_mon r) \<and> day_of_year y (tm_mon r) (tm_mday r) = yday"
proof -
  let ?L = "leap_year (1900 + tm_year t)"
  define l where "l = (if ?L then 1 else (0 :: int))"
  have l: "0 \<le> l" "l \<le> 1" "yday \<le> 365 + l" and ml: "month_lens (1900 + tm_year t) =
      [31, 28 + l, 31, 30, 31, 30, 31, 31, 30, 31, 30, 31]"
    using assms(4) by (auto simp: l_def month_lens_def)
  have flag: "(if tm_year t smod 400 = 0 \<or> (tm_year t smod 4 = 0 \<and> tm_year t smod 100 \<noteq> 0) then 1 else 0) = l"
    using leap_flag [OF assms(1,2)] by (simp add: l_def)
  have keep: "(if tm_mon t = 0 \<and> yday > 334 + l then u else if tm_mon t = 11 \<and> yday < 32 then v else t) = t" for u v
    using assms(5,6) l(1) by auto
  note E = Yday2Mday_def [of t yday, unfolded Let_def flag keep]
  consider "yday \<le> 31" | "31 < yday" "yday \<le> 59 + l" | "59 + l < yday" "yday \<le> 90 + l"
    | "90 + l < yday" "yday \<le> 120 + l" | "120 + l < yday" "yday \<le> 151 + l" | "151 + l < yday" "yday \<le> 181 + l"
    | "181 + l < yday" "yday \<le> 212 + l" | "212 + l < yday" "yday \<le> 243 + l" | "243 + l < yday" "yday \<le> 273 + l"
    | "273 + l < yday" "yday \<le> 304 + l" | "304 + l < yday" "yday \<le> 334 + l" | "334 + l < yday"
    by linarith
  then show ?thesis
    by cases (use assms(3) l in \<open>simp add: E Let_def day_of_year_def ml\<close>)+
qed

lemma day_of_year_converted_example:
  "let r = Yday2Mday (ge_local example_env) 60; y = 1900 + tm_year (ge_local example_env)
    in tm_year r = tm_year (ge_local example_env) \<and> 0 \<le> tm_mon r \<and> tm_mon r \<le> 11 \<and> 1 \<le> tm_mday r \<and>
      tm_mday r \<le> month_lens y ! nat (tm_mon r) \<and> day_of_year y (tm_mon r) (tm_mday r) = 60"
  by (rule day_of_year_converted) (simp_all add: example_env_def)

text \<open>
  At the turn of the year the leap flag is that of the wrong year: with the local clock already
  in January of a leap year, day 365 of the year before becomes December 30.
\<close>

lemma new_year_off_by_one:
  assumes "101 \<le> tm_year t" "tm_year t \<le> 199" "leap_year (1900 + tm_year t)" "tm_mon t = 0"
  shows "Yday2Mday t 365 = t\<lparr>tm_year := tm_year t - 1, tm_mon := 11, tm_mday := 30\<rparr>"
  using assms leap_flag [OF assms(1,2)] by (simp add: Yday2Mday_def)

end
