(* ===== verification/Md5.thy ===== *)
theory Md5
  imports Phy_PqB
begin

text \<open>
  The MD5 sums of gui/src/security/md5.cpp: the block transformation, the streaming interface
  (init, write, final) and the sum of a string or a file read in chunks of 4096 bytes.  The
  specification is RFC 1321: padding with 80, zeros and the length in bits as 64 bits, and the
  transformation folded over the blocks.  \<open>size_t\<close> and the lengths of buffers are naturals.
\<close>

section \<open>State\<close>

record md5ctx =
  md_A :: u32
  md_B :: u32
  md_C :: u32
  md_D :: u32
  md_nblocks :: u32
  md_buf :: "u8 list"
  md_count :: nat

definition md5_init :: "md5ctx \<Rightarrow> md5ctx" where
  "md5_init ctx = ctx\<lparr>md_A := 0x67452301, md_B := 0xefcdab89, md_C := 0x98badcfe, md_D := 0x10325476,
     md_nblocks := 0, md_count := 0\<rparr>"

section \<open>The transformation\<close>

definition FF :: "u32 \<Rightarrow> u32 \<Rightarrow> u32 \<Rightarrow> u32" where
  "FF b c d = d XOR (b AND (c XOR d))"

definition FG :: "u32 \<Rightarrow> u32 \<Rightarrow> u32 \<Rightarrow> u32" where
  "FG b c d = FF d b c"

definition FH :: "u32 \<Rightarrow> u32 \<Rightarrow> u32 \<Rightarrow> u32" where
  "FH b c d = b XOR c XOR d"

definition FI :: "u32 \<Rightarrow> u32 \<Rightarrow> u32 \<Rightarrow> u32" where
  "FI b c d = c XOR (b OR NOT d)"

definition rol :: "u32 \<Rightarrow> nat \<Rightarrow> u32" where
  "rol x n = push_bit n x OR drop_bit (32 - n) x"

text \<open>
  One \<open>OP\<close> updates its first variable; the next one is called with the variables rotated, so
  the step returns them in the order of the next call.
\<close>

definition md5_op ::
  "(u32 \<Rightarrow> u32 \<Rightarrow> u32 \<Rightarrow> u32) \<Rightarrow> u32 list \<Rightarrow> nat \<times> nat \<times> u32 \<Rightarrow> u32 \<times> u32 \<times> u32 \<times> u32 \<Rightarrow>
   u32 \<times> u32 \<times> u32 \<times> u32" where
  "md5_op f cw x v = (case x of (k, s, t) \<Rightarrow> case v of (a, b, c, d) \<Rightarrow>
     (d, rol (a + (f b c d + cw ! k + t)) s + b, b, c))"

definition round1 :: "(nat \<times> nat \<times> u32) list" where
  "round1 = [(0, 7, 0xd76aa478), (1, 12, 0xe8c7b756), (2, 17, 0x242070db), (3, 22, 0xc1bdceee),
    (4, 7, 0xf57c0faf), (5, 12, 0x4787c62a), (6, 17, 0xa8304613), (7, 22, 0xfd469501),
    (8, 7, 0x698098d8), (9, 12, 0x8b44f7af), (10, 17, 0xffff5bb1), (11, 22, 0x895cd7be),
    (12, 7, 0x6b901122), (13, 12, 0xfd987193), (14, 17, 0xa679438e), (15, 22, 0x49b40821)]"

definition round2 :: "(nat \<times> nat \<times> u32) list" where
  "round2 = [(1, 5, 0xf61e2562), (6, 9, 0xc040b340), (11, 14, 0x265e5a51), (0, 20, 0xe9b6c7aa),
    (5, 5, 0xd62f105d), (10, 9, 0x02441453), (15, 14, 0xd8a1e681), (4, 20, 0xe7d3fbc8),
    (9, 5, 0x21e1cde6), (14, 9, 0xc33707d6), (3, 14, 0xf4d50d87), (8, 20, 0x455a14ed),
    (13, 5, 0xa9e3e905), (2, 9, 0xfcefa3f8), (7, 14, 0x676f02d9), (12, 20, 0x8d2a4c8a)]"

definition round3 :: "(nat \<times> nat \<times> u32) list" where
  "round3 = [(5, 4, 0xfffa3942), (8, 11, 0x8771f681), (11, 16, 0x6d9d6122), (14, 23, 0xfde5380c),
    (1, 4, 0xa4beea44), (4, 11, 0x4bdecfa9), (7, 16, 0xf6bb4b60), (10, 23, 0xbebfbc70),
    (13, 4, 0x289b7ec6), (0, 11, 0xeaa127fa), (3, 16, 0xd4ef3085), (6, 23, 0x04881d05),
    (9, 4, 0xd9d4d039), (12, 11, 0xe6db99e5), (15, 16, 0x1fa27cf8), (2, 23, 0xc4ac5665)]"

definition round4 :: "(nat \<times> nat \<times> u32) list" where
  "round4 = [(0, 6, 0xf4292244), (7, 10, 0x432aff97), (14, 15, 0xab9423a7), (5, 21, 0xfc93a039),
    (12, 6, 0x655b59c3), (3, 10, 0x8f0ccc92), (10, 15, 0xffeff47d), (1, 21, 0x85845dd1),
    (8, 6, 0x6fa87e4f), (15, 10, 0xfe2ce6e0), (6, 15, 0xa3014314), (13, 21, 0x4e0811a1),
    (4, 6, 0xf7537e82), (11, 10, 0xbd3af235), (2, 15, 0x2ad7d2bb), (9, 21, 0xeb86d391)]"

definition words_of :: "u8 list \<Rightarrow> u32 list" where
  "words_of data = map (\<lambda>i. of_le4 (data ! (4 * i)) (data ! (4 * i + 1)) (data ! (4 * i + 2)) (data ! (4 * i + 3))) [0..<16]"

definition md5_rounds :: "u32 list \<Rightarrow> u32 \<times> u32 \<times> u32 \<times> u32 \<Rightarrow> u32 \<times> u32 \<times> u32 \<times> u32" where
  "md5_rounds cw v =
     (let v = fold (md5_op FF cw) round1 v;
          v = fold (md5_op FG cw) round2 v;
          v = fold (md5_op FH cw) round3 v
      in fold (md5_op FI cw) round4 v)"

definition transform :: "md5ctx \<Rightarrow> u8 list \<Rightarrow> md5ctx" where
  "transform ctx data =
     (case md5_rounds (words_of data) (md_A ctx, md_B ctx, md_C ctx, md_D ctx) of (a, b, c, d) \<Rightarrow>
        ctx\<lparr>md_A := md_A ctx + a, md_B := md_B ctx + b, md_C := md_C ctx + c, md_D := md_D ctx + d\<rparr>)"

section \<open>Streaming\<close>

text \<open>\<open>md5_write(cx, NULL, 0)\<close>: flush a full buffer.\<close>

definition md5_flush :: "md5ctx \<Rightarrow> md5ctx" where
  "md5_flush cx =
     (if md_count cx = 64
      then (transform cx (md_buf cx))\<lparr>md_count := 0, md_nblocks := md_nblocks cx + 1\<rparr> else cx)"

definition put_byte :: "u8 \<Rightarrow> md5ctx \<Rightarrow> md5ctx" where
  "put_byte b cx = cx\<lparr>md_buf := (md_buf cx)[md_count cx := b], md_count := md_count cx + 1\<rparr>"

fun md5_fill :: "md5ctx \<Rightarrow> u8 list \<Rightarrow> md5ctx \<times> u8 list" where
  "md5_fill cx [] = (cx, [])"
| "md5_fill cx (b # bs) = (if md_count cx < 64 then md5_fill (put_byte b cx) bs else (cx, b # bs))"

function md5_blocks :: "md5ctx \<Rightarrow> u8 list \<Rightarrow> md5ctx \<times> u8 list" where
  "md5_blocks cx inbuf =
     (if length inbuf \<ge> 64
      then md5_blocks ((transform cx (take 64 inbuf))\<lparr>md_count := 0, md_nblocks := md_nblocks cx + 1\<rparr>) (drop 64 inbuf)
      else (cx, inbuf))"
  by pat_completeness auto
termination by (relation "measure (\<lambda>(cx, inbuf). length inbuf)") auto

declare md5_blocks.simps [simp del]

definition md5_write :: "md5ctx \<Rightarrow> u8 list \<Rightarrow> md5ctx" where
  "md5_write cx inbuf =
     (let cx = md5_flush cx;
          (cx, inbuf, done) =
            (if md_count cx \<noteq> 0 then
               (case md5_fill cx inbuf of (cx, inbuf) \<Rightarrow> (md5_flush cx, inbuf, inbuf = []))
             else (cx, inbuf, False))
      in if done then cx
         else (case md5_blocks cx inbuf of (cx, inbuf) \<Rightarrow> fst (md5_fill cx inbuf)))"

fun pad_zeros :: "nat \<Rightarrow> nat \<Rightarrow> md5ctx \<Rightarrow> md5ctx" where
  "pad_zeros n 0 cx = cx"
| "pad_zeros n (Suc fuel) cx = (if md_count cx < n then pad_zeros n fuel (put_byte 0 cx) else cx)"

text \<open>
  \<open>md5_final\<close>; the padding loops run at most 64 times.  The digest is in the first 16 bytes of
  the buffer.
\<close>

definition md5_final :: "md5ctx \<Rightarrow> md5ctx" where
  "md5_final cx =
     (let cx = md5_flush cx;
          t = md_nblocks cx;
          lsb = push_bit 6 t;
          msb = drop_bit 26 t;
          t = lsb;
          lsb = lsb + of_nat (md_count cx);
          msb = (if lsb < t then msb + 1 else msb);
          t = lsb;
          lsb = push_bit 3 lsb;
          msb = push_bit 3 msb;
          msb = msb OR drop_bit 29 t;
          cx = (if md_count cx < 56 then pad_zeros 56 64 (put_byte 0x80 cx)
                else (let cx = md5_flush (pad_zeros 64 64 (put_byte 0x80 cx))
                      in cx\<lparr>md_buf := replicate 56 0 @ drop 56 (md_buf cx)\<rparr>));
          cx = cx\<lparr>md_buf := take 56 (md_buf cx) @ le4 lsb @ le4 msb\<rparr>;
          cx = transform cx (md_buf cx)
      in cx\<lparr>md_buf := le4 (md_A cx) @ le4 (md_B cx) @ le4 (md_C cx) @ le4 (md_D cx) @ drop 16 (md_buf cx)\<rparr>)"

definition md5_digest :: "md5ctx \<Rightarrow> u8 list" where
  "md5_digest cx = take 16 (md_buf (md5_final cx))"

text \<open>
  \<open>md5_sum\<close> of a file, given by the chunks \<open>fread\<close> delivers, or None if it cannot be opened,
  and of a string.  \<open>ctx\<close> is the indeterminate stack variable, \<open>err\<close> the stream's error flag.
\<close>

definition hex_digit :: "u8 \<Rightarrow> char" where
  "hex_digit d = ''0123456789abcdef'' ! unat d"

definition hex2 :: "u8 \<Rightarrow> string" where
  "hex2 b = [hex_digit (drop_bit 4 b), hex_digit (b AND 15)]"

definition md5_sum_string :: "md5ctx \<Rightarrow> u8 list \<Rightarrow> string" where
  "md5_sum_string ctx src = concat (map hex2 (md5_digest (md5_write (md5_init ctx) src)))"

definition md5_sum_file :: "md5ctx \<Rightarrow> u8 list list option \<Rightarrow> bool \<Rightarrow> int \<times> string" where
  "md5_sum_file ctx file err =
     (case file of None \<Rightarrow> (1, [])
      | Some chunks \<Rightarrow>
          if err then (1, [])
          else (0, concat (map hex2 (md5_digest (fold (\<lambda>c cx. md5_write cx c) chunks (md5_init ctx))))))"

text \<open>
  \<open>md5_check\<close>: the pairs \<open>fscanf\<close> reads from the sum file, or None if it cannot be opened,
  and, for each name, what reading that file gives.  A file that cannot be read counts as failed.
\<close>

fun check_sums :: "md5ctx \<Rightarrow> (string \<Rightarrow> u8 list list option \<times> bool) \<Rightarrow> (string \<times> string) list \<Rightarrow> int \<Rightarrow> int" where
  "check_sums ctx files [] ret = ret"
| "check_sums ctx files ((md5, name) # ls) ret =
     (case md5_sum_file ctx (fst (files name)) (snd (files name)) of (r, ck) \<Rightarrow>
        check_sums ctx files ls (if r = 0 \<and> md5 = ck then ret else 2))"

definition md5_check ::
  "md5ctx \<Rightarrow> (string \<Rightarrow> u8 list list option \<times> bool) \<Rightarrow> (string \<times> string) list option \<Rightarrow> int" where
  "md5_check ctx files md5_file = (case md5_file of None \<Rightarrow> 1 | Some ls \<Rightarrow> check_sums ctx files ls 0)"

section \<open>RFC 1321\<close>

text \<open>The auxiliary functions, the word and shift schedules, and a block as one fold.\<close>

definition rfc_F :: "u32 \<Rightarrow> u32 \<Rightarrow> u32 \<Rightarrow> u32" where "rfc_F x y z = (x AND y) OR (NOT x AND z)"
definition rfc_G :: "u32 \<Rightarrow> u32 \<Rightarrow> u32 \<Rightarrow> u32" where "rfc_G x y z = (x AND z) OR (y AND NOT z)"
definition rfc_H :: "u32 \<Rightarrow> u32 \<Rightarrow> u32 \<Rightarrow> u32" where "rfc_H x y z = x XOR y XOR z"
definition rfc_I :: "u32 \<Rightarrow> u32 \<Rightarrow> u32 \<Rightarrow> u32" where "rfc_I x y z = y XOR (x OR NOT z)"

definition rfc_k :: "nat \<Rightarrow> nat" where
  "rfc_k i = (if i < 16 then i else if i < 32 then (5 * i + 1) mod 16 else if i < 48 then (3 * i + 5) mod 16
     else 7 * i mod 16)"

definition rfc_s :: "nat \<Rightarrow> nat" where
  "rfc_s i = [[7, 12, 17, 22], [5, 9, 14, 20], [4, 11, 16, 23], [6, 10, 15, 21]] ! (i div 16) ! (i mod 4)"

definition rfc_f :: "nat \<Rightarrow> u32 \<Rightarrow> u32 \<Rightarrow> u32 \<Rightarrow> u32" where
  "rfc_f i = [rfc_F, rfc_G, rfc_H, rfc_I] ! (i div 16)"

lemma FF_rfc: "FF = rfc_F" and FG_rfc: "FG = rfc_G" and FH_rfc: "FH = rfc_H" and FI_rfc: "FI = rfc_I"
proof -
  show "FF = rfc_F" by (intro ext bit_word_eqI) (auto simp: FF_def rfc_F_def bit_simps)
  show "FG = rfc_G" by (intro ext bit_word_eqI) (auto simp: FG_def FF_def rfc_G_def bit_simps)
  show "FH = rfc_H" by (intro ext) (simp add: FH_def rfc_H_def)
  show "FI = rfc_I" by (intro ext) (simp add: FI_def rfc_I_def)
qed

lemma rol_rotl:
  assumes "0 < n" "n < 32" shows "rol x n = word_rotl n x"
proof (rule bit_word_eqI)
  fix i assume i: "i < LENGTH(32)"
  show "bit (rol x n) i = bit (word_rotl n x) i"
  proof (cases "n \<le> i")
    case True
    then have "(i + 32 - n) mod 32 = i - n" using i by (simp add: le_mod_geq)
    then show ?thesis using True i assms bit_imp_le_length [of x "32 + i - n"]
      by (auto simp: rol_def bit_simps bit_word_rotl_iff)
  next
    case False
    then have "(i + 32 - n) mod 32 = 32 + i - n" using i assms by simp
    then show ?thesis using False i assms by (auto simp: rol_def bit_simps bit_word_rotl_iff)
  qed
qed

text \<open>
  The table of RFC 1321, from its section 3.4: entry \<open>i\<close> (from 1 on) is the integer part of 4294967296 times the absolute value of
  the sine of \<open>i\<close> radians.  It is written out here on its own; that the rounds of the code have these constants is
  \<open>rfc_schedule\<close>.
\<close>

definition rfc_T :: "u32 list" where
  "rfc_T = [
     0xd76aa478, 0xe8c7b756, 0x242070db, 0xc1bdceee, 0xf57c0faf, 0x4787c62a, 0xa8304613, 0xfd469501,
     0x698098d8, 0x8b44f7af, 0xffff5bb1, 0x895cd7be, 0x6b901122, 0xfd987193, 0xa679438e, 0x49b40821,
     0xf61e2562, 0xc040b340, 0x265e5a51, 0xe9b6c7aa, 0xd62f105d, 0x02441453, 0xd8a1e681, 0xe7d3fbc8,
     0x21e1cde6, 0xc33707d6, 0xf4d50d87, 0x455a14ed, 0xa9e3e905, 0xfcefa3f8, 0x676f02d9, 0x8d2a4c8a,
     0xfffa3942, 0x8771f681, 0x6d9d6122, 0xfde5380c, 0xa4beea44, 0x4bdecfa9, 0xf6bb4b60, 0xbebfbc70,
     0x289b7ec6, 0xeaa127fa, 0xd4ef3085, 0x04881d05, 0xd9d4d039, 0xe6db99e5, 0x1fa27cf8, 0xc4ac5665,
     0xf4292244, 0x432aff97, 0xab9423a7, 0xfc93a039, 0x655b59c3, 0x8f0ccc92, 0xffeff47d, 0x85845dd1,
     0x6fa87e4f, 0xfe2ce6e0, 0xa3014314, 0x4e0811a1, 0xf7537e82, 0xbd3af235, 0x2ad7d2bb, 0xeb86d391]"

definition rfc_step :: "u32 list \<Rightarrow> nat \<Rightarrow> u32 \<times> u32 \<times> u32 \<times> u32 \<Rightarrow> u32 \<times> u32 \<times> u32 \<times> u32" where
  "rfc_step x i v = (case v of (a, b, c, d) \<Rightarrow>
     (d, b + word_rotl (rfc_s i) (a + rfc_f i b c d + x ! rfc_k i + rfc_T ! i), b, c))"

definition rfc_block :: "u32 list \<Rightarrow> u32 \<times> u32 \<times> u32 \<times> u32 \<Rightarrow> u32 \<times> u32 \<times> u32 \<times> u32" where
  "rfc_block x v = (case fold (rfc_step x) [0..<64] v of (a, b, c, d) \<Rightarrow>
     (case v of (a0, b0, c0, d0) \<Rightarrow> (a0 + a, b0 + b, c0 + c, d0 + d)))"

lemma rfc_schedule:
  "round1 = map (\<lambda>i. (rfc_k i, rfc_s i, rfc_T ! i)) [0..<16]"
  "round2 = map (\<lambda>i. (rfc_k i, rfc_s i, rfc_T ! i)) [16..<32]"
  "round3 = map (\<lambda>i. (rfc_k i, rfc_s i, rfc_T ! i)) [32..<48]"
  "round4 = map (\<lambda>i. (rfc_k i, rfc_s i, rfc_T ! i)) [48..<64]"
  by code_simp+

lemma rfc_s_range: "i < 64 \<Longrightarrow> 0 < rfc_s i \<and> rfc_s i < 32"
proof -
  have "\<forall>i \<in> set [0..<64]. 0 < rfc_s i \<and> rfc_s i < 32" by code_simp
  then show "i < 64 \<Longrightarrow> 0 < rfc_s i \<and> rfc_s i < 32" by simp
qed

lemma md5_op_rfc: "i < 64 \<Longrightarrow> rfc_f i = f \<Longrightarrow> md5_op f x (rfc_k i, rfc_s i, rfc_T ! i) = rfc_step x i"
  using rfc_s_range [of i] by (auto simp: md5_op_def rfc_step_def rol_rotl add.commute add.left_commute fun_eq_iff)

lemma round_rfc:
  assumes "\<forall>i \<in> set is. i < 64 \<and> rfc_f i = f"
  shows "fold (md5_op f x) (map (\<lambda>i. (rfc_k i, rfc_s i, rfc_T ! i)) is) v = fold (rfc_step x) is v"
  using assms by (induction "is" arbitrary: v) (auto simp: md5_op_rfc)

lemma rfc_f_rounds:
  "\<forall>i \<in> set [0..<16]. i < 64 \<and> rfc_f i = FF" "\<forall>i \<in> set [16..<32]. i < 64 \<and> rfc_f i = FG"
  "\<forall>i \<in> set [32..<48]. i < 64 \<and> rfc_f i = FH" "\<forall>i \<in> set [48..<64]. i < 64 \<and> rfc_f i = FI"
  by (auto simp: rfc_f_def FF_rfc FG_rfc FH_rfc FI_rfc div_nat_eqI)

lemma md5_rounds_rfc: "md5_rounds x v = fold (rfc_step x) [0..<64] v"
proof -
  have "[0..<64] = [0..<16] @ [16..<32] @ [32..<48] @ [48..<64]" by code_simp
  then show ?thesis
    by (simp only: md5_rounds_def Let_def rfc_schedule round_rfc [OF rfc_f_rounds(1)] round_rfc [OF rfc_f_rounds(2)]
        round_rfc [OF rfc_f_rounds(3)] round_rfc [OF rfc_f_rounds(4)] fold_append comp_apply)
qed

definition chaining :: "md5ctx \<Rightarrow> u32 \<times> u32 \<times> u32 \<times> u32" where
  "chaining cx = (md_A cx, md_B cx, md_C cx, md_D cx)"

lemma transform_rfc:
  "chaining (transform cx data) = rfc_block (words_of data) (chaining cx) \<and>
   md_buf (transform cx data) = md_buf cx \<and> md_count (transform cx data) = md_count cx \<and>
   md_nblocks (transform cx data) = md_nblocks cx"
  by (simp add: transform_def chaining_def rfc_block_def md5_rounds_rfc split: prod.splits)

section \<open>What the context has absorbed\<close>

function absorb :: "u32 \<times> u32 \<times> u32 \<times> u32 \<Rightarrow> u8 list \<Rightarrow> u32 \<times> u32 \<times> u32 \<times> u32" where
  "absorb v xs = (if length xs \<ge> 64 then absorb (rfc_block (words_of (take 64 xs)) v) (drop 64 xs) else v)"
  by pat_completeness auto
termination by (relation "measure (\<lambda>(v, xs). length xs)") auto

declare absorb.simps [simp del]

definition init_chain :: "u32 \<times> u32 \<times> u32 \<times> u32" where
  "init_chain = (0x67452301, 0xefcdab89, 0x98badcfe, 0x10325476)"

definition rest :: "u8 list \<Rightarrow> u8 list" where
  "rest xs = drop (64 * (length xs div 64)) xs"

definition absorbed :: "md5ctx \<Rightarrow> u8 list \<Rightarrow> bool" where
  "absorbed cx xs \<longleftrightarrow> length (md_buf cx) = 64 \<and> md_count cx = length xs mod 64 \<and>
     take (md_count cx) (md_buf cx) = rest xs \<and> md_nblocks cx = of_nat (length xs div 64) \<and>
     chaining cx = absorb init_chain xs"

lemma length_rest: "length (rest xs) = length xs mod 64"
  by (simp add: rest_def minus_mult_div_eq_mod)

lemma absorb_short: "length xs < 64 \<Longrightarrow> absorb v xs = v"
  by (subst absorb.simps) simp

lemma absorb_one: "length b = 64 \<Longrightarrow> absorb v b = rfc_block (words_of b) v"
  by (subst absorb.simps) (simp add: absorb_short)

lemma absorb_append: "absorb v (xs @ ys) = absorb (absorb v xs) (rest xs @ ys)"
proof (induction v xs rule: absorb.induct)
  case (1 v xs)
  show ?case
  proof (cases "64 \<le> length xs")
    case False
    then show ?thesis by (simp add: absorb_short rest_def)
  next
    case True
    have "64 * (length xs div 64) = 64 + 64 * ((length xs - 64) div 64)" using True by (simp add: le_div_geq)
    then have r: "rest (drop 64 xs) = rest xs" by (simp add: rest_def add.commute)
    show ?thesis using 1 [OF True] True r
      by (subst absorb.simps, subst (2) absorb.simps) simp
  qed
qed

lemma absorbed_extend:
  assumes "absorbed cx xs" "length xs mod 64 + length ys < 64" "length (md_buf dx) = 64"
    "md_count dx = length xs mod 64 + length ys" "take (md_count dx) (md_buf dx) = rest xs @ ys"
    "md_nblocks dx = md_nblocks cx" "chaining dx = chaining cx"
  shows "absorbed dx (xs @ ys)"
proof -
  have d: "(length xs + length ys) div 64 = length xs div 64" "(length xs + length ys) mod 64 = length xs mod 64 + length ys"
    using assms(2) div_add1_eq [of "length xs" "length ys" 64] mod_add_left_eq [of "length xs" 64 "length ys"] by auto
  moreover have "rest (xs @ ys) = rest xs @ ys" by (simp add: rest_def d(1))
  moreover have "absorb init_chain (xs @ ys) = absorb init_chain xs"
    using assms(2) absorb_append [of init_chain xs ys] by (simp add: absorb_short length_rest)
  ultimately show ?thesis using assms by (simp add: absorbed_def)
qed

lemma to_next_block: "(n :: nat) + (64 - n mod 64) = 64 * Suc (n div 64)"
proof -
  have step: "n + (64 - r) = 64 * Suc q" if "64 * q + r = n" "r < 64" for q r :: nat using that by simp
  show ?thesis by (rule step) simp_all
qed

lemma absorbed_block:
  assumes "absorbed cx xs" "length ys = 64 - length xs mod 64" "length b = 64" "b = rest xs @ ys"
    "length (md_buf dx) = 64" "chaining dx = chaining cx" "md_nblocks dx = md_nblocks cx"
  shows "absorbed ((transform dx b)\<lparr>md_count := 0, md_nblocks := md_nblocks dx + 1\<rparr>) (xs @ ys)"
proof -
  have len: "length (xs @ ys) = 64 * Suc (length xs div 64)"
    unfolding length_append assms(2) by (rule to_next_block)
  have "64 * (length (xs @ ys) div 64) = length (xs @ ys)" unfolding len by simp
  then have r: "rest (xs @ ys) = []" unfolding rest_def by (simp only: drop_all order_refl)
  have "absorb init_chain (xs @ ys) = rfc_block (words_of b) (absorb init_chain xs)"
    using absorb_append [of init_chain xs ys] assms(3,4) by (simp add: absorb_one)
  then show ?thesis using assms r transform_rfc [of dx b] unfolding absorbed_def len
    by (simp add: chaining_def)
qed

lemma md5_fill_eq:
  assumes "length (md_buf cx) = 64" "md_count cx \<le> 64"
  shows "md5_fill cx bs = (let n = min (length bs) (64 - md_count cx) in
    (cx\<lparr>md_buf := take (md_count cx) (md_buf cx) @ take n bs @ drop (md_count cx + n) (md_buf cx),
        md_count := md_count cx + n\<rparr>, drop n bs))"
  using assms
proof (induction bs arbitrary: cx)
  case Nil
  then show ?case by (cases cx) (simp add: Let_def)
next
  case (Cons b bs)
  show ?case
  proof (cases "md_count cx < 64")
    case False
    then show ?thesis using Cons.prems by (cases cx) simp
  next
    case True
    then have m: "min (length (b # bs)) (64 - md_count cx) = Suc (min (length bs) (64 - Suc (md_count cx)))" by auto
    show ?thesis using True Cons.prems Cons.IH [of "put_byte b cx"] unfolding m
      by (simp add: put_byte_def Let_def take_Suc_conv_app_nth)
  qed
qed

lemma absorbed_count: "absorbed cx xs \<Longrightarrow> md_count cx < 64"
  by (simp add: absorbed_def)

lemma flush_absorbed: "absorbed cx xs \<Longrightarrow> md5_flush cx = cx"
  using absorbed_count [of cx xs] by (simp add: md5_flush_def)

lemma fill_absorbed:
  assumes "absorbed cx xs" "length ys < 64 - md_count cx"
  shows "absorbed (fst (md5_fill cx ys)) (xs @ ys) \<and> snd (md5_fill cx ys) = []"
proof -
  let ?c = "md_count cx"
  have c: "?c = length xs mod 64" "?c < 64" "length (md_buf cx) = 64" "take ?c (md_buf cx) = rest xs"
    using assms(1) absorbed_count by (auto simp: absorbed_def)
  have "md5_fill cx ys = (cx\<lparr>md_buf := take ?c (md_buf cx) @ ys @ drop (?c + length ys) (md_buf cx),
      md_count := ?c + length ys\<rparr>, [])"
    using md5_fill_eq [of cx ys] c assms(2) by (simp add: Let_def min_def)
  moreover have "absorbed (cx\<lparr>md_buf := take ?c (md_buf cx) @ ys @ drop (?c + length ys) (md_buf cx),
      md_count := ?c + length ys\<rparr>) (xs @ ys)"
    using c assms by (intro absorbed_extend [OF assms(1)]) (auto simp: chaining_def length_rest)
  ultimately show ?thesis by simp
qed

lemma blocks_absorbed:
  assumes "absorbed cx xs" "length xs mod 64 = 0"
  shows "absorbed (case md5_blocks cx ys of (dx, r) \<Rightarrow> fst (md5_fill dx r)) (xs @ ys)"
  using assms
proof (induction cx ys arbitrary: xs rule: md5_blocks.induct)
  case (1 cx ys)
  show ?case
  proof (cases "64 \<le> length ys")
    case False
    have "md_count cx = 0" using 1(2,3) by (simp add: absorbed_def)
    then have "absorbed (fst (md5_fill cx ys)) (xs @ ys)"
      using fill_absorbed [OF 1(2), of ys] False by simp
    then show ?thesis using False by (subst md5_blocks.simps) simp
  next
    case True
    let ?dx = "(transform cx (take 64 ys))\<lparr>md_count := 0, md_nblocks := md_nblocks cx + 1\<rparr>"
    have "length (take 64 ys) = 64" using True by simp
    moreover have "rest xs = []" using 1(3) length_rest [of xs] by simp
    ultimately have a: "absorbed ?dx (xs @ take 64 ys)"
      using 1(2,3) by (intro absorbed_block [OF 1(2)]) (auto simp: absorbed_def)
    have "length (xs @ take 64 ys) mod 64 = 0" using 1(3) True by simp
    from 1(1) [OF True a this] show ?thesis using True by (subst md5_blocks.simps) simp
  qed
qed

lemma write_absorbed:
  assumes "absorbed cx xs"
  shows "absorbed (md5_write cx ys) (xs @ ys)"
proof -
  let ?c = "md_count cx"
  note fl = flush_absorbed [OF assms]
  have c: "?c = length xs mod 64" "?c < 64" "length (md_buf cx) = 64" "take ?c (md_buf cx) = rest xs"
    using assms absorbed_count by (auto simp: absorbed_def)
  consider (aligned) "?c = 0" | (short) "?c \<noteq> 0" "length ys < 64 - ?c" | (full) "?c \<noteq> 0" "64 - ?c \<le> length ys"
    by linarith
  then show ?thesis
  proof cases
    case aligned
    then show ?thesis using blocks_absorbed [OF assms, of ys] c fl by (simp add: md5_write_def)
  next
    case short
    note f = fill_absorbed [OF assms short(2)]
    note g = flush_absorbed [OF conjunct1 [OF f]]
    obtain dx r where e: "md5_fill cx ys = (dx, r)" by force
    then have "md5_write cx ys = dx" using short(1) f g fl by (simp add: md5_write_def)
    then show ?thesis using f e by simp
  next
    case full
    let ?ys = "take (64 - ?c) ys" and ?zs = "drop (64 - ?c) ys"
    let ?dx = "cx\<lparr>md_buf := rest xs @ ?ys, md_count := 64\<rparr>"
    have fill: "md5_fill cx ys = (?dx, ?zs)"
      using md5_fill_eq [of cx ys] c full by (simp add: Let_def min_def)
    have len: "length (rest xs @ ?ys) = 64" using full c by (simp add: length_rest)
    have "absorbed (md5_flush ?dx) (xs @ ?ys)"
      unfolding md5_flush_def using absorbed_block [OF assms, of ?ys "rest xs @ ?ys" ?dx] len full c
      by (simp add: chaining_def)
    note a = this
    have ys: "length ?ys = 64 - ?c" using full by simp
    have "length (xs @ ?ys) mod 64 = 0"
    proof -
      have "length (xs @ ?ys) = 64 * Suc (length xs div 64)"
        using to_next_block [of "length xs"] by (simp only: length_append ys) (simp only: c(1))
      then show ?thesis by (metis mod_mult_self1_is_0)
    qed
    from blocks_absorbed [OF a this, of ?zs] have b: "absorbed (case md5_blocks (md5_flush ?dx) ?zs of (dx, r) \<Rightarrow> fst (md5_fill dx r)) (xs @ ys)"
      by simp
    show ?thesis
    proof (cases "?zs = []")
      case True
      then show ?thesis using full fill fl a by (simp add: md5_write_def)
    next
      case False
      then show ?thesis using full fill fl b by (simp add: md5_write_def)
    qed
  qed
qed

lemma init_absorbed: "length (md_buf cx) = 64 \<Longrightarrow> absorbed (md5_init cx) []"
  by (simp add: absorbed_def md5_init_def chaining_def init_chain_def absorb_short rest_def)

section \<open>The final block\<close>

text \<open>The padded message and its digest, by RFC 1321.\<close>

definition length_bytes :: "nat \<Rightarrow> u8 list" where
  "length_bytes n = map (\<lambda>i. of_nat (8 * n div 2 ^ (8 * i))) [0..<8]"

definition padded :: "u8 list \<Rightarrow> u8 list" where
  "padded xs = xs @ [0x80] @ replicate ((119 - length xs mod 64) mod 64) 0 @ length_bytes (length xs)"

definition chain_bytes :: "u32 \<times> u32 \<times> u32 \<times> u32 \<Rightarrow> u8 list" where
  "chain_bytes v = (case v of (a, b, c, d) \<Rightarrow> le4 a @ le4 b @ le4 c @ le4 d)"

definition rfc_md5 :: "u8 list \<Rightarrow> u8 list" where
  "rfc_md5 xs = chain_bytes (absorb init_chain (padded xs))"

lemma pad_zeros_eq:
  assumes "md_count cx \<le> n" "n \<le> length (md_buf cx)" "n - md_count cx \<le> f"
  shows "pad_zeros n f cx = cx\<lparr>md_buf := take (md_count cx) (md_buf cx) @ replicate (n - md_count cx) 0 @ drop n (md_buf cx),
    md_count := n\<rparr>"
  using assms
proof (induction f arbitrary: cx)
  case 0
  then show ?case by (cases cx) simp
next
  case (Suc f)
  show ?case
  proof (cases "md_count cx < n")
    case False
    then show ?thesis using Suc.prems by (cases cx) simp
  next
    case True
    then have "n - md_count cx = Suc (n - Suc (md_count cx))" by simp
    then show ?thesis using True Suc.prems Suc.IH [of "put_byte 0 cx"]
      by (simp add: put_byte_def take_Suc_conv_app_nth)
  qed
qed

lemma put_pad:
  assumes "length (md_buf cx) = 64" "md_count cx < n" "n \<le> 64"
  shows "pad_zeros n 64 (put_byte b cx) = cx\<lparr>md_buf := take (md_count cx) (md_buf cx) @ b #
    replicate (n - Suc (md_count cx)) 0 @ drop n (md_buf cx), md_count := n\<rparr>"
  using assms pad_zeros_eq [of "put_byte b cx" n 64] by (simp add: put_byte_def take_Suc_conv_app_nth)

lemma le4_nat: "le4 w = map (\<lambda>i. of_nat (unat w div 2 ^ (8 * i))) [0..<4]"
proof -
  have u: "ucast v = (of_nat (unat v) :: u8)" for v :: u32 by simp
  have "ucast (drop_bit k w) = (of_nat (unat w div 2 ^ k) :: u8)" for k
    by (simp only: u unat_drop_bit_eq) (simp only: drop_bit_eq_div)
  from this [of 0] this [of 8] this [of 16] this [of 24] show ?thesis
    by (simp add: le4_def upt_rec)
qed

lemma low_bytes:
  "i < 4 \<Longrightarrow> (of_nat (m mod 2 ^ 32 div 2 ^ (8 * i)) :: u8) = of_nat (m div 2 ^ (8 * i))"
  unfolding word_of_nat_eq_iff take_bit_eq_mod [symmetric, where n = 32] drop_bit_eq_div [symmetric]
  by (rule bit_eqI) (auto simp: bit_simps)

text \<open>The two words \<open>md5_final\<close> computes from the counters are the length in bits.\<close>

lemma bit_count:
  assumes "n < 2 ^ 38" and nb: "nb = (of_nat (n div 64) :: u32)"
  shows "push_bit 6 nb + of_nat (n mod 64) = (of_nat n :: u32)"
    and "\<not> push_bit 6 nb + of_nat (n mod 64) < push_bit 6 nb"
    and "unat (push_bit 3 (drop_bit 26 nb) OR drop_bit 29 (of_nat n :: u32)) = 8 * n div 2 ^ 32"
proof -
  have "push_bit 6 nb + of_nat (n mod 64) = of_nat (64 * (n div 64) + n mod 64)"
    by (simp only: nb push_bit_eq_mult of_nat_add of_nat_mult mult.commute) simp
  then show s: "push_bit 6 nb + of_nat (n mod 64) = (of_nat n :: u32)"
    by (simp only: mult_div_mod_eq)
  have t: "push_bit 6 nb = of_nat (64 * (n div 64))" by (simp add: nb push_bit_eq_mult)
  have "unat (push_bit 6 nb) = (64 * (n div 64)) mod 2 ^ 32" unfolding t unat_of_nat by simp
  moreover have "(64 * (n div 64)) mod 2 ^ 32 = 64 * (n div 64 mod 2 ^ 26)"
    using mult_mod_right [of 64 "n div 64" "2 ^ 26"] by simp
  moreover have "unat (of_nat n :: u32) = n mod 2 ^ 32" by (simp add: unat_of_nat)
  moreover have "n mod 2 ^ 32 = 64 * (n div 64 mod 2 ^ 26) + n mod 64"
    using mod_mult2_eq [of n 64 "2 ^ 26"] by simp
  ultimately show "\<not> push_bit 6 nb + of_nat (n mod 64) < push_bit 6 nb"
    unfolding s by (simp add: word_less_nat_alt)
  show "unat (push_bit 3 (drop_bit 26 nb) OR drop_bit 29 (of_nat n :: u32)) = 8 * n div 2 ^ 32"
  proof -
    have "unat nb = n div 64" using assms(1) by (simp add: nb unat_of_nat)
    then have d: "unat (drop_bit 26 nb) = n div 2 ^ 32"
      by (simp only: unat_drop_bit_eq) (simp add: drop_bit_eq_div div_mult2_eq [symmetric])
    have "n div 2 ^ 32 < 64" using assms(1) by (simp add: less_mult_imp_div_less)
    then have u: "unat (push_bit 3 (drop_bit 26 nb)) = 8 * (n div 2 ^ 32)"
      using d by (simp add: push_bit_eq_mult unat_mult_lem [THEN iffD1])
    have l: "unat (drop_bit 29 (of_nat n :: u32)) = n mod 2 ^ 32 div 2 ^ 29"
      by (simp only: unat_drop_bit_eq unat_of_nat) (simp add: drop_bit_eq_div)
    have "push_bit 3 (drop_bit 26 nb) AND drop_bit 29 (of_nat n :: u32) = 0"
      by (rule bit_word_eqI) (auto simp: bit_simps dest: bit_imp_le_length)
    then have "push_bit 3 (drop_bit 26 nb) OR drop_bit 29 (of_nat n :: u32) =
        push_bit 3 (drop_bit 26 nb) + drop_bit 29 (of_nat n)"
      by (rule disjunctive_add_eq_or [symmetric])
    moreover have m: "n mod 2 ^ 32 div 2 ^ 29 = n div 2 ^ 29 mod 8"
      using mod_mult2_eq [of n "2 ^ 29" 8] by simp
    ultimately have "unat (push_bit 3 (drop_bit 26 nb) OR drop_bit 29 (of_nat n :: u32)) =
        8 * (n div 2 ^ 32) + n div 2 ^ 29 mod 8"
      using u l \<open>n div 2 ^ 32 < 64\<close> mod_less_divisor [of 8 "n div 2 ^ 29"] by (simp add: unat_plus_if' del: mod_less_divisor)
    also have "\<dots> = n div 2 ^ 29" using mult_div_mod_eq [of 8 "n div 2 ^ 29"] by (simp add: div_mult2_eq [symmetric])
    also have "\<dots> = 8 * n div 2 ^ 32" using div_mult_mult1 [of 8 n "2 ^ 29"] by simp
    finally show ?thesis .
  qed
qed

lemma length_bytes_le4:
  assumes "unat lsb = 8 * n mod 2 ^ 32" "unat msb = 8 * n div 2 ^ 32"
  shows "le4 lsb @ le4 msb = length_bytes n"
proof -
  have e: "[0..<8] = [0..<4] @ map ((+) 4) [0..<4]" by code_simp
  have "map (\<lambda>i. of_nat (8 * n mod 2 ^ 32 div 2 ^ (8 * i)) :: u8) [0..<4] =
      map (\<lambda>i. of_nat (8 * n div 2 ^ (8 * i))) [0..<4]"
    by (intro map_cong refl low_bytes) simp
  moreover have "8 * n div 2 ^ 32 div 2 ^ (8 * i) = 8 * n div 2 ^ (8 * (4 + i))" for i
    by (simp only: div_mult2_eq [symmetric] power_add [symmetric] distrib_left) simp
  ultimately show ?thesis unfolding length_bytes_def le4_nat assms e map_append map_map o_def by simp
qed

definition final_words :: "md5ctx \<Rightarrow> u8 list" where
  "final_words cx =
     (let lsb = push_bit 6 (md_nblocks cx) + of_nat (md_count cx);
          msb = (if lsb < push_bit 6 (md_nblocks cx) then drop_bit 26 (md_nblocks cx) + 1 else drop_bit 26 (md_nblocks cx))
      in le4 (push_bit 3 lsb) @ le4 (push_bit 3 msb OR drop_bit 29 lsb))"

lemma final_words_eq:
  assumes "absorbed cx xs" "length xs < 2 ^ 38"
  shows "final_words cx = length_bytes (length xs)"
proof -
  have nb: "md_nblocks cx = of_nat (length xs div 64)" "md_count cx = length xs mod 64"
    using assms(1) by (simp_all add: absorbed_def)
  note b = bit_count [OF assms(2) nb(1)]
  have "unat (push_bit 3 (of_nat (length xs)) :: u32) = 8 * length xs mod 2 ^ 32"
  proof -
    have "push_bit 3 (of_nat (length xs)) = (of_nat (8 * length xs) :: u32)" by (simp add: push_bit_eq_mult)
    then show ?thesis by (simp only: unat_of_nat) simp
  qed
  then show ?thesis
    using length_bytes_le4 [OF _ b(3)] b(2) unfolding final_words_def Let_def nb(2) b(1) by simp
qed

lemma md5_final_split:
  assumes "md5_flush cx = cx"
  shows "md5_digest cx =
    (let dx = (if md_count cx < 56 then pad_zeros 56 64 (put_byte 0x80 cx)
               else (let dx = md5_flush (pad_zeros 64 64 (put_byte 0x80 cx))
                     in dx\<lparr>md_buf := replicate 56 0 @ drop 56 (md_buf dx)\<rparr>));
         b = take 56 (md_buf dx) @ final_words cx
     in chain_bytes (chaining (transform (dx\<lparr>md_buf := b\<rparr>) b)))"
  using assms by (simp add: md5_digest_def md5_final_def final_words_def chain_bytes_def chaining_def Let_def le4_def)

lemma pad_short:
  assumes "(c :: nat) < 56" shows "(119 - c) mod 64 = 55 - c"
proof -
  have "c \<le> 55" using assms by simp
  then obtain e where "55 = c + e" using le_Suc_ex by blast
  then have "119 - c = e + 64" "55 - c = e" "e < 64" by simp_all
  then show ?thesis by simp
qed

lemma pad_long:
  assumes "\<not> (c :: nat) < 56" "c < 64" shows "(119 - c) mod 64 = (63 - c) + 56"
proof -
  have "119 - c < 64" "(63 - c) + 56 = 119 - c" using assms by simp_all
  then show ?thesis by (simp only: mod_less)
qed

lemma md5_final_rfc:
  assumes abs: "absorbed cx xs" and small: "length xs < 2 ^ 38"
  shows "md5_digest cx = rfc_md5 xs"
proof -
  let ?c = "length xs mod 64" and ?L = "length_bytes (length xs)"
  have c: "md_count cx = ?c" "?c < 64" "length (md_buf cx) = 64" "take ?c (md_buf cx) = rest xs" "length (rest xs) = ?c"
    using abs by (auto simp: absorbed_def length_rest)
  have L: "length ?L = 8" by (simp add: length_bytes_def)
  note d = md5_final_split [OF flush_absorbed [OF abs], unfolded final_words_eq [OF abs small]]
  show ?thesis
  proof (cases "?c < 56")
    case True
    let ?p = "0x80 # replicate (55 - ?c) 0"
    let ?dx = "cx\<lparr>md_buf := rest xs @ ?p @ drop 56 (md_buf cx), md_count := 56\<rparr>" and ?b = "rest xs @ ?p @ ?L"
    have pad: "pad_zeros 56 64 (put_byte 0x80 cx) = ?dx" using put_pad [of cx 56 "0x80"] c True by simp
    have "absorbed ((transform (?dx\<lparr>md_buf := ?b\<rparr>) ?b)\<lparr>md_count := 0, md_nblocks := md_nblocks (?dx\<lparr>md_buf := ?b\<rparr>) + 1\<rparr>)
        (xs @ ?p @ ?L)"
      using c L True by (intro absorbed_block [OF abs]) (auto simp: chaining_def)
    then have "chaining (transform (?dx\<lparr>md_buf := ?b\<rparr>) ?b) = absorb init_chain (xs @ ?p @ ?L)"
      by (simp add: absorbed_def chaining_def)
    moreover have z: "(119 - ?c) mod 64 = 55 - ?c" by (rule pad_short [OF True])
    have "padded xs = xs @ ?p @ ?L" unfolding padded_def z by simp
    moreover have "length (rest xs @ ?p) = 56" using c(5) True by simp
    then have "take 56 ((rest xs @ ?p) @ drop 56 (md_buf cx)) = rest xs @ ?p"
      by (metis append_eq_conv_conj)
    then have "take 56 (md_buf ?dx) = rest xs @ ?p" by simp
    ultimately show ?thesis unfolding d c(1) Let_def if_P [OF True] pad rfc_md5_def by (simp only: append_assoc)
  next
    case False
    let ?p = "0x80 # replicate (63 - ?c) 0" and ?z = "replicate 56 0 :: u8 list"
    let ?dx = "cx\<lparr>md_buf := rest xs @ ?p, md_count := 64\<rparr>"
    have pad: "pad_zeros 64 64 (put_byte 0x80 cx) = ?dx" using put_pad [of cx 64 "0x80"] c by simp
    have len: "length (rest xs @ ?p) = 64" "length ?p = 64 - ?c" using c by simp_all
    let ?ex = "md5_flush ?dx"
    have ex: "absorbed ?ex (xs @ ?p)"
      unfolding md5_flush_def using absorbed_block [OF abs len(2,1) refl, of ?dx] len by (simp add: chaining_def)
    have "length (xs @ ?p) = 64 * Suc (length xs div 64)"
      using to_next_block [of "length xs"] by (simp only: length_append len(2))
    then have m: "length (xs @ ?p) mod 64 = 0" by (metis mod_mult_self1_is_0)
    then have r: "rest (xs @ ?p) = []" using length_rest [of "xs @ ?p"] by simp
    let ?fx = "?ex\<lparr>md_buf := ?z @ drop 56 (md_buf ?ex)\<rparr>" and ?b = "?z @ ?L"
    have "absorbed ((transform (?fx\<lparr>md_buf := ?b\<rparr>) ?b)\<lparr>md_count := 0, md_nblocks := md_nblocks (?fx\<lparr>md_buf := ?b\<rparr>) + 1\<rparr>)
        ((xs @ ?p) @ ?z @ ?L)"
      using L r m by (intro absorbed_block [OF ex]) (auto simp: chaining_def)
    then have "chaining (transform (?fx\<lparr>md_buf := ?b\<rparr>) ?b) = absorb init_chain ((xs @ ?p) @ ?z @ ?L)"
      by (simp add: absorbed_def chaining_def)
    moreover have z: "(119 - ?c) mod 64 = (63 - ?c) + 56" by (rule pad_long [OF False c(2)])
    have "padded xs = (xs @ ?p) @ ?z @ ?L" unfolding padded_def z by (simp only: replicate_add append_assoc append_Cons append_Nil)
    moreover have "take 56 (md_buf ?fx) = ?z" by simp
    ultimately show ?thesis unfolding d c(1) Let_def if_not_P [OF False] pad rfc_md5_def by (simp only: append_assoc)
  qed
qed

section \<open>The streaming interface\<close>

text \<open>
  What the users of a streaming hash rely on: a context absorbs what is written into it, and
  its result depends on what it has absorbed only.
\<close>

locale stream_hash =
  fixes fresh :: "'c \<Rightarrow> bool"
    and wr :: "'c \<Rightarrow> u8 list \<Rightarrow> 'c"
    and result :: "'c \<Rightarrow> u8 list"
    and abs :: "'c \<Rightarrow> u8 list \<Rightarrow> bool"
    and spec :: "u8 list \<Rightarrow> u8 list"
    and small :: "u8 list \<Rightarrow> bool"
  assumes abs_fresh: "fresh c \<Longrightarrow> abs c []"
    and abs_wr: "abs c xs \<Longrightarrow> abs (wr c ys) (xs @ ys)"
    and abs_result: "abs c xs \<Longrightarrow> small xs \<Longrightarrow> result c = spec xs"
begin

lemma abs_chunks: "abs c xs \<Longrightarrow> abs (fold (\<lambda>ys c. wr c ys) yss c) (xs @ concat yss)"
proof (induction yss arbitrary: c xs)
  case (Cons ys yss)
  then show ?case using Cons.IH [OF abs_wr [OF Cons.prems, of ys]] by simp
qed simp

lemma result_chunks:
  "fresh c \<Longrightarrow> small (concat yss) \<Longrightarrow> result (fold (\<lambda>ys c. wr c ys) yss c) = spec (concat yss)"
  using abs_chunks [OF abs_fresh, of c yss] abs_result by simp

end

interpretation md5: stream_hash "\<lambda>c. \<exists>cx. length (md_buf cx) = 64 \<and> c = md5_init cx" md5_write md5_digest
  absorbed rfc_md5 "\<lambda>xs. length xs < 2 ^ 38"
  by unfold_locales (auto simp: init_absorbed write_absorbed md5_final_rfc)

section \<open>Properties\<close>

text \<open>
  The optimised block transformation (the rewritten auxiliary functions, the rotation by
  shifts, the unrolled calls with rotating variables) is the block function of RFC 1321, and
  touches neither the buffer nor the counters.
\<close>

lemma transform_is_rfc:
  "chaining (transform cx data) = rfc_block (words_of data) (chaining cx) \<and>
   md_buf (transform cx data) = md_buf cx \<and> md_count (transform cx data) = md_count cx \<and>
   md_nblocks (transform cx data) = md_nblocks cx"
  by (rule transform_rfc)

text \<open>
  C29. The sum of a readable file of less than 2 ^ 38 bytes does not depend on how the reads cut
  it into chunks: it is the RFC 1321 digest of the contents in hexadecimal, whatever the context
  on the stack held before.
\<close>

theorem file_sum_is_rfc:
  assumes "length (md_buf cx) = 64" "length (concat chunks) < 2 ^ 38"
  shows "md5_sum_file cx (Some chunks) False = (0, concat (map hex2 (rfc_md5 (concat chunks))))"
proof -
  have "\<exists>c. length (md_buf c) = 64 \<and> md5_init cx = md5_init c" using assms(1) by blast
  from md5.result_chunks [OF this assms(2)] show ?thesis by (simp add: md5_sum_file_def)
qed

definition some_ctx :: md5ctx where
  "some_ctx = \<lparr>md_A = 1, md_B = 2, md_C = 3, md_D = 4, md_nblocks = 5, md_buf = replicate 64 6, md_count = 7\<rparr>"

theorem file_sum_is_rfc_witness:
  "md5_sum_file some_ctx (Some [[0x61], [0x62, 0x63]]) False = (0, concat (map hex2 (rfc_md5 [0x61, 0x62, 0x63])))"
  using file_sum_is_rfc [of some_ctx "[[0x61], [0x62, 0x63]]"] by (simp add: some_ctx_def)

text \<open>The test value for the string abc that the source lists.\<close>

lemma md5_abc: "md5_sum_string some_ctx [0x61, 0x62, 0x63] = ''900150983cd24fb0d6963f7d28e17f72''"
  by code_simp

end
