(* ===== verification/Display.thy ===== *)
theory Display
  imports Prelude
begin

text \<open>
  The display buffer (\<open>gui/src/GUI/display/display_buf.cpp\<close>): one 32-bit cell per pixel, row
  after row, with sixteen spare rows behind the last one.  Every drawing operation computes
  cell numbers and does not check them, so an operation here returns None as soon as it
  touches a cell that is not in the buffer.  Colours are the 32 bits of the \<open>int\<close> the callers
  pass.
\<close>

section \<open>State\<close>

record disbuf =
  dis_buf :: "u32 list"
  disbufw :: int
  disbufh :: int
  op_mode :: int
  chinese_font :: int
  ascii_font :: int
  ascfont_8x16 :: "u8 list option"
  ascfont_8x12 :: "u8 list option"
  ascfont_8x10 :: "u8 list option"
  hzfont_16x16 :: "u8 list option"
  hzfont_14x14 :: "u8 list option"
  hzfont_12x12 :: "u8 list option"

text \<open>
  The constructor, for a screen of \<open>w\<close> by \<open>h\<close> pixels.  The new cells and the two font sizes are
  indeterminate (\<open>cells\<close>, \<open>cf\<close>, \<open>af\<close>); the font libraries are static and start empty.
\<close>

definition new_disbuf :: "u32 list \<Rightarrow> int \<Rightarrow> int \<Rightarrow> int \<Rightarrow> int \<Rightarrow> disbuf" where
  "new_disbuf cells cf af w h =
     \<lparr>dis_buf = cells, disbufw = w, disbufh = h, op_mode = 0, chinese_font = cf, ascii_font = af,
      ascfont_8x16 = None, ascfont_8x12 = None, ascfont_8x10 = None,
      hzfont_16x16 = None, hzfont_14x14 = None, hzfont_12x12 = None\<rparr>"

definition DISOPUN :: int where "DISOPUN = 0"
definition DISOPXOR :: int where "DISOPXOR = 3"

text \<open>
  A display whose cells are there.  It is at most 8192 pixels wide and high (the screens have 320 by 240 and 480 by 272), so that no
  number of a cell and no product of a line is beyond the range of \<open>int\<close>.
\<close>

definition wf_dis :: "disbuf \<Rightarrow> bool" where
  "wf_dis d \<longleftrightarrow> 0 < disbufw d \<and> disbufw d \<le> 8192 \<and> 0 < disbufh d \<and> disbufh d \<le> 8192 \<and>
     int (length (dis_buf d)) = disbufw d * disbufh d + disbufw d * 16"

definition inside :: "disbuf \<Rightarrow> int \<Rightarrow> int \<Rightarrow> bool" where
  "inside d x y \<longleftrightarrow> 0 \<le> x \<and> x < disbufw d \<and> 0 \<le> y \<and> y < disbufh d"

section \<open>Pixels\<close>

text \<open>\<open>dis_buf_[i] = f (dis_buf_[i])\<close>; \<open>f\<close> is constant for a plain store.\<close>

definition put_cell :: "int \<Rightarrow> (u32 \<Rightarrow> u32) \<Rightarrow> disbuf \<Rightarrow> disbuf option" where
  "put_cell i f d =
     (case aget (dis_buf d) i of None \<Rightarrow> None
      | Some v \<Rightarrow> map_option (\<lambda>b. d\<lparr>dis_buf := b\<rparr>) (aset (dis_buf d) i (f v)))"

definition plot :: "(u32 \<Rightarrow> u32) \<Rightarrow> int \<times> int \<Rightarrow> disbuf \<Rightarrow> disbuf option" where
  "plot f p d = (case p of (x, y) \<Rightarrow> put_cell (y * disbufw d + x) f d)"

definition pix :: "disbuf \<Rightarrow> int \<times> int \<Rightarrow> u32" where
  "pix d p = (case p of (x, y) \<Rightarrow> dis_buf d ! nat (y * disbufw d + x))"

definition set_pixel :: "int \<Rightarrow> int \<Rightarrow> u32 \<Rightarrow> disbuf \<Rightarrow> disbuf option" where
  "set_pixel x y color d = plot (\<lambda>_. color) (x, y) d"

definition set_wpixel :: "int \<Rightarrow> int \<Rightarrow> u32 \<Rightarrow> disbuf \<Rightarrow> disbuf option" where
  "set_wpixel x y color d =
     do { d \<leftarrow> plot (\<lambda>_. color) (x, y - 1) d;
          d \<leftarrow> plot (\<lambda>_. color) (x, y) d;
          plot (\<lambda>_. color) (x, y + 1) d }"

definition setmode :: "int \<Rightarrow> disbuf \<Rightarrow> disbuf" where
  "setmode ty d = d\<lparr>op_mode := ty\<rparr>"

definition set_font :: "int \<Rightarrow> int \<Rightarrow> disbuf \<Rightarrow> disbuf" where
  "set_font chs asc d = d\<lparr>chinese_font := chs, ascii_font := asc\<rparr>"

section \<open>Rectangles\<close>

definition rectangle :: "int \<Rightarrow> int \<Rightarrow> int \<Rightarrow> int \<Rightarrow> u32 \<Rightarrow> disbuf \<Rightarrow> disbuf option" where
  "rectangle x1 y1 x2 y2 color = for_loop y1 y2 (\<lambda>i. for_loop x1 x2 (\<lambda>j. plot (\<lambda>_. color) (j, i)))"

definition rectangle_xor :: "int \<Rightarrow> int \<Rightarrow> int \<Rightarrow> int \<Rightarrow> u32 \<Rightarrow> disbuf \<Rightarrow> disbuf option" where
  "rectangle_xor x1 y1 x2 y2 color =
     for_loop y1 y2 (\<lambda>i. for_loop x1 x2 (\<lambda>j. plot (\<lambda>v. v XOR color) (j, i)))"

definition clear_rect :: "int \<Rightarrow> int \<Rightarrow> int \<Rightarrow> int \<Rightarrow> u32 \<Rightarrow> disbuf \<Rightarrow> disbuf option" where
  "clear_rect x1 y1 x2 y2 color = rectangle x1 y1 x2 y2 color"

text \<open>\<open>clear(color)\<close> is a \<open>memset\<close>: every byte of a cell gets the low byte of the colour.\<close>

definition clear_all :: "u32 \<Rightarrow> disbuf \<Rightarrow> disbuf option" where
  "clear_all color d =
     (let n = nat (disbufw d * disbufh d); b = color AND 0xFF in
      if n \<le> length (dis_buf d)
      then Some (d\<lparr>dis_buf := replicate n (b OR push_bit 8 b OR push_bit 16 b OR push_bit 24 b) @ drop n (dis_buf d)\<rparr>)
      else None)"

text \<open>The destination and the source of these two are buffers of the caller: a list grown, a list consumed.\<close>

definition read_rect :: "int \<Rightarrow> int \<Rightarrow> int \<Rightarrow> int \<Rightarrow> disbuf \<Rightarrow> u32 list option" where
  "read_rect x1 y1 x2 y2 d =
     for_loop y1 y2 (\<lambda>i. for_loop x1 x2 (\<lambda>j buf.
       map_option (\<lambda>v. buf @ [v]) (aget (dis_buf d) (i * disbufw d + j)))) []"

definition write_rect :: "int \<Rightarrow> int \<Rightarrow> int \<Rightarrow> int \<Rightarrow> u32 list \<Rightarrow> disbuf \<Rightarrow> disbuf option" where
  "write_rect x1 y1 x2 y2 frombuf d =
     map_option snd (for_loop y1 y2 (\<lambda>i. for_loop x1 x2 (\<lambda>j (buf, d).
       (case buf of [] \<Rightarrow> None
        | v # buf \<Rightarrow> map_option (\<lambda>d. (buf, d)) (plot (\<lambda>_. v) (j, i) d)))) (frombuf, d))"

section \<open>Lines\<close>

text \<open>
  The pattern of a dashed line: \<open>lc\<close> pixels drawn, then \<open>kc + 1\<close> left out.  A type other than the
  four leaves \<open>lc\<close> as it was on the stack (\<open>junk\<close>).
\<close>

definition line_pattern :: "int \<Rightarrow> int \<Rightarrow> int" where
  "line_pattern junk ty = (if ty = 0 then 6000 else if ty = 1 then 4 else if ty = 2 then 9 else if ty = 3 then 1 else junk)"

text \<open>A result of type \<open>int\<close>: overflow is undefined; and a quotient: so is division by zero.\<close>

definition cint :: "int \<Rightarrow> int option" where
  "cint n = (if - (2 ^ 31) \<le> n \<and> n < 2 ^ 31 then Some n else None)"

definition cquot :: "int \<Rightarrow> int \<Rightarrow> int option" where
  "cquot a b = (if b = 0 then None else cint (a sdiv b))"

text \<open>The offset across the longer axis at step \<open>x\<close>: \<open>(x * s * k + h) / n\<close>.\<close>

definition raster_at :: "int \<Rightarrow> int \<Rightarrow> int \<Rightarrow> int \<Rightarrow> int \<Rightarrow> int option" where
  "raster_at s k h n x = do { p \<leftarrow> cint (x * s * k); p \<leftarrow> cint (p + h); cquot p n }"

text \<open>One step: the offset is computed also where no pixel is drawn.\<close>

definition line_step ::
  "int \<Rightarrow> int \<Rightarrow> (int \<Rightarrow> int option) \<Rightarrow> (int \<Rightarrow> int \<Rightarrow> disbuf \<Rightarrow> disbuf option) \<Rightarrow> int \<Rightarrow> int \<times> int \<times> disbuf \<Rightarrow>
   (int \<times> int \<times> disbuf) option" where
  "line_step lc kc off dot x s =
     (case s of (l, k, d) \<Rightarrow>
        (case off x of None \<Rightarrow> None
         | Some y \<Rightarrow>
             if l \<ge> 1 then map_option (\<lambda>d. (l - 1, kc, d)) (dot x y d)
             else Some (if k < 1 then lc else l - 1, k - 1, d)))"

definition line_run ::
  "int \<Rightarrow> int \<Rightarrow> int \<Rightarrow> (int \<Rightarrow> int option) \<Rightarrow> (int \<Rightarrow> int \<Rightarrow> disbuf \<Rightarrow> disbuf option) \<Rightarrow> disbuf \<Rightarrow> disbuf option" where
  "line_run lc kc n off dot d = map_option (\<lambda>(l, k, d). d) (for_loop 0 n (line_step lc kc off dot) (lc, kc, d))"

definition line :: "int \<Rightarrow> int \<Rightarrow> int \<Rightarrow> int \<Rightarrow> int \<Rightarrow> u32 \<Rightarrow> int \<Rightarrow> disbuf \<Rightarrow> disbuf option" where
  "line junk x1 y1 x2 y2 color ty d =
     (let kx = x2 - x1; ky = y2 - y1;
          (akx, sx) = (if kx < 0 then (- kx, - 1) else (kx, 1));
          (aky, sy) = (if ky < 0 then (- ky, - 1) else (ky, 1));
          kc = 3; lc = line_pattern junk ty
      in do {
        ky \<leftarrow> cint (ky * 8); kx \<leftarrow> cint (kx * 8);
        let hlfky = (sx * ky) sdiv 2; hlfkx = (sy * kx) sdiv 2 in
        if akx > aky then
          (if op_mode d = DISOPUN then
             line_run lc kc akx (raster_at sx ky hlfkx kx) (\<lambda>x y. plot (\<lambda>_. color) (x1 + x * sx, y1 + y)) d
           else if op_mode d = DISOPXOR then
             line_run lc kc akx (raster_at sx ky hlfkx kx) (\<lambda>x y. plot (\<lambda>v. v XOR color) (x1 + x * sx, y1 + y)) d
           else Some d)
        else
          (if op_mode d = DISOPUN then
             line_run lc kc aky (raster_at sy kx hlfky ky) (\<lambda>y x. plot (\<lambda>_. color) (x1 + x, y1 + y * sy)) d
           else if op_mode d = DISOPXOR then
             line_run lc kc aky (raster_at sy kx hlfky ky) (\<lambda>y x. plot (\<lambda>v. v XOR color) (x1 + x, y1 + y * sy)) d
           else Some d) })"

definition rectframe :: "int \<Rightarrow> int \<Rightarrow> int \<Rightarrow> int \<Rightarrow> int \<Rightarrow> u32 \<Rightarrow> disbuf \<Rightarrow> disbuf option" where
  "rectframe junk x1 y1 x2 y2 color d =
     do { d \<leftarrow> line junk x1 y1 x1 y2 color 0 d;
          d \<leftarrow> line junk x1 y1 x2 y1 color 0 d;
          d \<leftarrow> line junk (x2 - 1) y1 (x2 - 1) y2 color 0 d;
          line junk x1 (y2 - 1) x2 (y2 - 1) color 0 d }"

text \<open>A wide line; \<open>pts\<close> of \<open>wline_turn\<close> are the offsets across the line.\<close>

definition plot_all :: "u32 \<Rightarrow> (int \<times> int) list \<Rightarrow> disbuf \<Rightarrow> disbuf option" where
  "plot_all color = foldO (plot (\<lambda>_. color))"

definition wline_turn :: "int \<Rightarrow> int \<Rightarrow> int \<Rightarrow> int \<Rightarrow> u32 \<Rightarrow> int list \<Rightarrow> disbuf \<Rightarrow> disbuf option" where
  "wline_turn x1 y1 x2 y2 color ws d =
     (let kx = x2 - x1; ky = y2 - y1;
          (akx, sx) = (if kx < 0 then (- kx, - 1) else (kx, 1));
          (aky, sy) = (if ky < 0 then (- ky, - 1) else (ky, 1))
      in do {
        ky \<leftarrow> cint (ky * 8); kx \<leftarrow> cint (kx * 8);
        let hlfky = (sx * ky) sdiv 2; hlfkx = (sy * kx) sdiv 2 in
        if akx > aky then do {
          d \<leftarrow> for_loop 0 akx (\<lambda>x d. do {
                 y \<leftarrow> raster_at sx ky hlfkx kx x;
                 plot_all color (map (\<lambda>w. (x1 + x * sx, y1 + y + w)) ws) d }) d;
          plot_all color (map (\<lambda>w. (x2, y2 + w)) ws) d }
        else do {
          d \<leftarrow> for_loop 0 aky (\<lambda>y d. do {
                 x \<leftarrow> raster_at sy kx hlfky ky y;
                 plot_all color (map (\<lambda>w. (x1 + x + w, y1 + y * sy)) ws) d }) d;
          plot_all color (map (\<lambda>w. (x2 + w, y2)) ws) d } })"

function wline :: "int \<Rightarrow> int \<Rightarrow> int \<Rightarrow> int \<Rightarrow> u32 \<Rightarrow> int \<Rightarrow> disbuf \<Rightarrow> disbuf option" where
  "wline x1 y1 x2 y2 color width d =
     (if width > 3 then
        (case wline_turn x1 y1 x2 y2 color [- (width sdiv 2), width sdiv 2] d of
           None \<Rightarrow> None | Some d \<Rightarrow> wline x1 y1 x2 y2 color (width - 2) d)
      else wline_turn x1 y1 x2 y2 color [- 1, 0, 1] d)"
  by pat_completeness auto
termination by (relation "measure (\<lambda>(x1, y1, x2, y2, color, width, d). nat width)") auto

declare wline.simps [simp del]

section \<open>Text\<close>

text \<open>
  A glyph is a place \<open>off\<close> in a font library; its rows are \<open>(w + 7) / 8\<close> bytes, the leftmost
  pixel in the highest bit.  A row above the display is skipped, a row below \<open>disbufh_\<close> ends the
  glyph, and a pixel right of the display is left out.
\<close>

definition drawchar :: "u8 list \<Rightarrow> int \<Rightarrow> int \<Rightarrow> int \<Rightarrow> int \<Rightarrow> int \<Rightarrow> u32 \<Rightarrow> disbuf \<Rightarrow> disbuf option" where
  "drawchar lib off w h x y fg =
     for_loop 0 h (\<lambda>hi d.
       let yi = y + hi in
       if yi < 0 \<or> yi > disbufh d then Some d
       else for_loop 0 w (\<lambda>wi d.
         case aget lib (off + hi * ((w + 7) sdiv 8) + wi div 8) of None \<Rightarrow> None
         | Some m \<Rightarrow>
             if drop_bit (nat (7 - wi mod 8)) m AND 1 \<noteq> 0 \<and> x + wi < disbufw d
             then plot (\<lambda>_. fg) (x + wi, yi) d else Some d) d)"

definition gb_index :: "int \<Rightarrow> u8 \<Rightarrow> u8 \<Rightarrow> int" where
  "gb_index sz l r = ((uint l - 0xa1) * 94 + (uint r - 0xa1)) * sz"

definition ascii_char_8x16 :: "u8 \<Rightarrow> int \<Rightarrow> int \<Rightarrow> u32 \<Rightarrow> disbuf \<Rightarrow> disbuf option" where
  "ascii_char_8x16 c x0 y0 color d =
     (case ascfont_8x16 d of None \<Rightarrow> Some d | Some p \<Rightarrow> drawchar p (uint c * 16 + 0) 8 16 x0 (y0 - 16) color d)"

definition ascii_char_8x12 :: "u8 \<Rightarrow> int \<Rightarrow> int \<Rightarrow> u32 \<Rightarrow> disbuf \<Rightarrow> disbuf option" where
  "ascii_char_8x12 c x0 y0 color d =
     (case ascfont_8x12 d of None \<Rightarrow> Some d | Some p \<Rightarrow> drawchar p (uint c * 12 + 0) 8 12 x0 (y0 - 10) color d)"

definition ascii_char_8x10 :: "u8 \<Rightarrow> int \<Rightarrow> int \<Rightarrow> u32 \<Rightarrow> disbuf \<Rightarrow> disbuf option" where
  "ascii_char_8x10 c x0 y0 color d =
     (case ascfont_8x10 d of None \<Rightarrow> Some d | Some p \<Rightarrow> drawchar p (uint c * 10 + 1) 8 8 x0 (y0 - 8) color d)"

definition chinese_char_16x16 :: "u8 \<Rightarrow> u8 \<Rightarrow> int \<Rightarrow> int \<Rightarrow> u32 \<Rightarrow> disbuf \<Rightarrow> disbuf option" where
  "chinese_char_16x16 c1 c2 x0 y0 color d =
     (case hzfont_16x16 d of None \<Rightarrow> Some d | Some p \<Rightarrow> drawchar p (gb_index 32 c1 c2) 16 16 x0 (y0 - 16) color d)"

definition chinese_char_14x14 :: "u8 \<Rightarrow> u8 \<Rightarrow> int \<Rightarrow> int \<Rightarrow> u32 \<Rightarrow> disbuf \<Rightarrow> disbuf option" where
  "chinese_char_14x14 c1 c2 x0 y0 color d =
     (case hzfont_14x14 d of None \<Rightarrow> Some d | Some p \<Rightarrow> drawchar p (gb_index 28 c1 c2) 14 14 x0 (y0 - 14) color d)"

definition chinese_char_12x12 :: "u8 \<Rightarrow> u8 \<Rightarrow> int \<Rightarrow> int \<Rightarrow> u32 \<Rightarrow> disbuf \<Rightarrow> disbuf option" where
  "chinese_char_12x12 c1 c2 x0 y0 color d =
     (case hzfont_12x12 d of None \<Rightarrow> Some d | Some p \<Rightarrow> drawchar p (gb_index 24 c1 c2) 12 12 x0 (y0 - 12) color d)"

text \<open>One character of \<open>puts\<close>: the display and the advance.\<close>

definition put_chinese :: "u8 \<Rightarrow> u8 \<Rightarrow> int \<Rightarrow> int \<Rightarrow> u32 \<Rightarrow> disbuf \<Rightarrow> (disbuf \<times> int) option" where
  "put_chinese c1 c2 x y fg d =
     (if chinese_font d = 16 then map_option (\<lambda>d. (d, 16)) (chinese_char_16x16 c1 c2 x y fg d)
      else if chinese_font d = 14 then map_option (\<lambda>d. (d, 14)) (chinese_char_14x14 c1 c2 x y fg d)
      else map_option (\<lambda>d. (d, 12)) (chinese_char_12x12 c1 c2 x (y + 1) fg d))"

definition put_ascii :: "u8 \<Rightarrow> int \<Rightarrow> int \<Rightarrow> u32 \<Rightarrow> disbuf \<Rightarrow> (disbuf \<times> int) option" where
  "put_ascii c x y fg d =
     (if ascii_font d = 16 then map_option (\<lambda>d. (d, 7)) (ascii_char_8x16 c x y fg d)
      else if ascii_font d = 12 then map_option (\<lambda>d. (d, 7)) (ascii_char_8x12 c x y fg d)
      else map_option (\<lambda>d. (d, 7)) (ascii_char_8x10 c x y fg d))"

text \<open>
  \<open>puts\<close>: \<open>pnt\<close> is the array the string is in, terminator included; reading behind it is a failure.
  The result also gives the final \<open>x\<close>.
\<close>

function puts_from :: "u8 list \<Rightarrow> int \<Rightarrow> int \<Rightarrow> int \<Rightarrow> u32 \<Rightarrow> int \<Rightarrow> disbuf \<Rightarrow> (disbuf \<times> int) option" where
  "puts_from pnt i x y fg spc d =
     (case aget pnt i of None \<Rightarrow> None
      | Some c \<Rightarrow>
          if c = 0 then Some (d, x)
          else if c \<ge> 0xa1 then
            (case aget pnt (i + 1) of None \<Rightarrow> None
             | Some c2 \<Rightarrow>
                 (case put_chinese c c2 x y fg d of None \<Rightarrow> None
                  | Some (d, adv) \<Rightarrow> puts_from pnt (i + 2) (x + adv + spc) y fg spc d))
          else
            (case put_ascii c x y fg d of None \<Rightarrow> None
             | Some (d, adv) \<Rightarrow> puts_from pnt (i + 1) (x + adv + spc) y fg spc d))"
  by pat_completeness auto
termination
  by (relation "measure (\<lambda>(pnt, i, x, y, fg, spc, d). nat (int (length pnt) - i))")
    (auto simp: aget_def split: if_splits)

declare puts_from.simps [simp del]

definition puts :: "u8 list \<Rightarrow> int \<Rightarrow> int \<Rightarrow> u32 \<Rightarrow> int \<Rightarrow> disbuf \<Rightarrow> disbuf option" where
  "puts pnt x y fg spc d = map_option fst (puts_from pnt 0 x y fg spc d)"

text \<open>\<open>vputs\<close> draws each character by \<open>puts\<close> on the one display of the program.\<close>

function vputs_from :: "u8 list \<Rightarrow> int \<Rightarrow> int \<Rightarrow> int \<Rightarrow> int \<Rightarrow> int \<Rightarrow> u32 \<Rightarrow> int \<Rightarrow> disbuf \<Rightarrow> disbuf option" where
  "vputs_from pnt k n i x y color spc d =
     (if n < k then
        (case aget pnt n of None \<Rightarrow> None
         | Some c \<Rightarrow>
             if c \<ge> 0xa1 then
               (case aget pnt (n + 1) of None \<Rightarrow> None
                | Some c2 \<Rightarrow>
                    let i = i + chinese_font d in
                    (case puts [c, c2, 0] x (y + i) color spc d of None \<Rightarrow> None
                     | Some d \<Rightarrow> vputs_from pnt k (n + 2) (i + spc) x y color spc d))
             else
               (let i = i + ascii_font d in
                (case puts [c, 0] x (y + i) color spc d of None \<Rightarrow> None
                 | Some d \<Rightarrow> vputs_from pnt k (n + 1) (i + spc) x y color spc d)))
      else Some d)"
  by pat_completeness auto
termination by (relation "measure (\<lambda>(pnt, k, n, i, x, y, color, spc, d). nat (k - n))") auto

declare vputs_from.simps [simp del]

definition vputs :: "u8 list \<Rightarrow> int \<Rightarrow> int \<Rightarrow> u32 \<Rightarrow> int \<Rightarrow> disbuf \<Rightarrow> disbuf option" where
  "vputs pnt x y color spc d = vputs_from pnt (int (length (takeWhile (\<lambda>c. c \<noteq> 0) pnt))) 0 0 x y color spc d"

section \<open>Font libraries\<close>

text \<open>
  The font files: \<open>fs\<close> gives a file's bytes and whether all of them could be read, or None if it
  cannot be opened.
\<close>

datatype font = CHINESE_16X16 | ASC_8X16 | CHINESE_14X14 | ASC_8X10 | CHINESE_12X12 | ASC_8X12

definition font_of :: "int \<Rightarrow> font option" where
  "font_of ty = (if ty = 0 then Some CHINESE_16X16 else if ty = 1 then Some ASC_8X16
     else if ty = 2 then Some CHINESE_14X14 else if ty = 3 then Some ASC_8X10
     else if ty = 4 then Some CHINESE_12X12 else if ty = 5 then Some ASC_8X12 else None)"

fun font_file :: "font \<Rightarrow> string" where
  "font_file CHINESE_16X16 = ''./chs16.fon''"
| "font_file CHINESE_14X14 = ''./chs14.fon''"
| "font_file CHINESE_12X12 = ''./chs12.fon''"
| "font_file ASC_8X16 = ''./asc16.fon''"
| "font_file ASC_8X12 = ''./asc12.fon''"
| "font_file ASC_8X10 = ''./asc10.fon''"

fun font_lib :: "font \<Rightarrow> disbuf \<Rightarrow> u8 list option" where
  "font_lib CHINESE_16X16 d = hzfont_16x16 d"
| "font_lib CHINESE_14X14 d = hzfont_14x14 d"
| "font_lib CHINESE_12X12 d = hzfont_12x12 d"
| "font_lib ASC_8X16 d = ascfont_8x16 d"
| "font_lib ASC_8X12 d = ascfont_8x12 d"
| "font_lib ASC_8X10 d = ascfont_8x10 d"

fun set_font_lib :: "font \<Rightarrow> u8 list \<Rightarrow> disbuf \<Rightarrow> disbuf" where
  "set_font_lib CHINESE_16X16 p d = d\<lparr>hzfont_16x16 := Some p\<rparr>"
| "set_font_lib CHINESE_14X14 p d = d\<lparr>hzfont_14x14 := Some p\<rparr>"
| "set_font_lib CHINESE_12X12 p d = d\<lparr>hzfont_12x12 := Some p\<rparr>"
| "set_font_lib ASC_8X16 p d = d\<lparr>ascfont_8x16 := Some p\<rparr>"
| "set_font_lib ASC_8X12 p d = d\<lparr>ascfont_8x12 := Some p\<rparr>"
| "set_font_lib ASC_8X10 p d = d\<lparr>ascfont_8x10 := Some p\<rparr>"

definition input_font_lib :: "(string \<Rightarrow> (u8 list \<times> bool) option) \<Rightarrow> int \<Rightarrow> disbuf \<Rightarrow> disbuf" where
  "input_font_lib fs ty d =
     (case font_of ty of None \<Rightarrow> d
      | Some f \<Rightarrow>
          if font_lib f d \<noteq> None then d
          else (case fs (font_file f) of None \<Rightarrow> d
                | Some (bytes, complete) \<Rightarrow> if complete then set_font_lib f bytes d else d))"

section \<open>Icons\<close>

definition ArrowIcon :: "nat list" where
  "ArrowIcon =
     replicate 33 0 @
     [0, 0, 0, 0, 0, 1, 0, 0, 0, 0, 0] @
     [0, 0, 0, 0, 1, 1, 1, 0, 0, 0, 0] @
     [0, 0, 0, 1, 1, 1, 1, 1, 0, 0, 0] @
     [0, 0, 1, 1, 1, 1, 1, 1, 1, 0, 0] @
     replicate 44 0"

definition arrow_shaft :: "nat list" where
  "arrow_shaft = [0, 0, 0, 0, 1, 1, 1, 0, 0, 0, 0]"

definition ArrowIcon1 :: "nat list" where
  "ArrowIcon1 =
     replicate 11 0 @
     [0, 0, 0, 0, 0, 1, 0, 0, 0, 0, 0] @
     arrow_shaft @
     [0, 0, 0, 1, 1, 1, 1, 1, 0, 0, 0] @
     [0, 0, 1, 1, 1, 1, 1, 1, 1, 0, 0] @
     [0, 1, 1, 1, 1, 1, 1, 1, 1, 1, 0] @
     arrow_shaft @ arrow_shaft @ arrow_shaft @ arrow_shaft @
     replicate 11 0"

definition ArrowIconD :: "nat list" where
  "ArrowIconD =
     [0, 0, 0, 0, 0, 1, 0, 0, 0, 0, 0] @
     [0, 0, 0, 0, 1, 1, 1, 0, 0, 0, 0] @
     [0, 0, 0, 1, 1, 1, 1, 1, 0, 0, 0] @
     [0, 0, 1, 1, 1, 1, 1, 1, 1, 0, 0] @
     replicate 33 0 @
     [0, 0, 1, 1, 1, 1, 1, 1, 1, 0, 0] @
     [0, 0, 0, 1, 1, 1, 1, 1, 0, 0, 0] @
     [0, 0, 0, 0, 1, 1, 1, 0, 0, 0, 0] @
     [0, 0, 0, 0, 0, 1, 0, 0, 0, 0, 0]"

text \<open>\<open>pch\<close> starts at \<open>p\<close> and moves by \<open>dir\<close> with every pixel.\<close>

definition draw_table :: "nat list \<Rightarrow> int \<Rightarrow> int \<Rightarrow> int \<Rightarrow> int \<Rightarrow> u32 \<Rightarrow> disbuf \<Rightarrow> disbuf option" where
  "draw_table icon p dir x y color d =
     map_option snd
       (for_loop y (y + 11) (\<lambda>i. for_loop x (x + 11) (\<lambda>j (p, d).
          (case aget icon p of None \<Rightarrow> None
           | Some v \<Rightarrow> map_option (\<lambda>d. (p + dir, d)) (if v \<noteq> 0 then plot (\<lambda>_. color) (j, i) d else Some d)))) (p, d))"

definition icon_of :: "int \<Rightarrow> nat list option" where
  "icon_of ty = (if ty = 1 then Some ArrowIcon else if ty = 2 then Some ArrowIcon1
     else if ty = 3 then Some ArrowIconD else None)"

definition draw_icon :: "int \<Rightarrow> int \<Rightarrow> int \<Rightarrow> u32 \<Rightarrow> int \<Rightarrow> disbuf \<Rightarrow> disbuf option" where
  "draw_icon x y ty color direct d =
     (case icon_of ty of None \<Rightarrow> Some d
      | Some icon \<Rightarrow>
          if direct = 0 then draw_table icon 0 1 x y color d
          else if direct = 1 then draw_table icon 120 (- 1) x y color d
          else Some d)"

end
