(* ===== verification/Canvas.thy ===== *)
theory Canvas
  imports Display
begin

text \<open>
  What the drawing operations rely on is that a pixel inside the display can be changed
  without touching another one.  This contract is a locale; loops over points are lemmas of it,
  and the display buffer is its instance.
\<close>

section \<open>The contract of a canvas\<close>

locale canvas =
  fixes draw :: "('c \<Rightarrow> 'c) \<Rightarrow> 'p \<Rightarrow> 'd \<Rightarrow> 'd option"
    and look :: "'d \<Rightarrow> 'p \<Rightarrow> 'c"
    and inner :: "'d \<Rightarrow> 'p \<Rightarrow> bool"
    and ok :: "'d \<Rightarrow> bool"
    and same :: "'d \<Rightarrow> 'd \<Rightarrow> bool"
  assumes same_refl: "same d d"
    and same_trans: "same d e \<Longrightarrow> same e g \<Longrightarrow> same d g"
    and same_inner: "same d e \<Longrightarrow> inner e = inner d"
    and same_ok: "same d e \<Longrightarrow> ok d \<Longrightarrow> ok e"
    and draw_inner: "ok d \<Longrightarrow> inner d p \<Longrightarrow>
      \<exists>e. draw f p d = Some e \<and> same d e \<and> look e p = f (look d p) \<and>
          (\<forall>q. inner d q \<longrightarrow> q \<noteq> p \<longrightarrow> look e q = look d q)"
begin

lemma draw_points:
  fixes f :: "'c \<Rightarrow> 'c"
  assumes "ok d" "\<forall>p \<in> set ps. inner d p"
  shows "\<exists>e. foldO (draw f) ps d = Some e \<and> same d e \<and>
     (\<forall>q. inner d q \<longrightarrow> look e q = (f ^^ count_list ps q) (look d q))"
  using assms
proof (induction ps arbitrary: d)
  case Nil
  then show ?case by (simp add: same_refl)
next
  case (Cons p ps)
  then obtain e where e: "draw f p d = Some e" "same d e" "look e p = f (look d p)"
      "\<And>q. inner d q \<Longrightarrow> q \<noteq> p \<Longrightarrow> look e q = look d q"
    using draw_inner [of d p f] by auto
  obtain g where g: "foldO (draw f) ps e = Some g" "same e g"
      "\<And>q. inner e q \<Longrightarrow> look g q = (f ^^ count_list ps q) (look e q)"
    using Cons.IH [of e] same_ok [OF e(2) Cons.prems(1)] same_inner [OF e(2)] Cons.prems(2) by auto
  have "look g q = (f ^^ count_list (p # ps) q) (look d q)" if "inner d q" for q
    using g(3) [of q] e(3) e(4) [of q] that same_inner [OF e(2)]
    by (cases "q = p") (simp_all add: funpow_swap1)
  then show ?case using e(1) g(1) same_trans [OF e(2) g(2)] by auto
qed

lemma paint_points:
  assumes "ok d" "\<forall>p \<in> set ps. inner d p"
  shows "\<exists>e. foldO (draw (\<lambda>_. c)) ps d = Some e \<and> same d e \<and>
     (\<forall>q. inner d q \<longrightarrow> look e q = (if q \<in> set ps then c else look d q))"
proof -
  have "((\<lambda>_. c) ^^ count_list ps q) v = (if q \<in> set ps then c else v)" for q v
    by (cases "count_list ps q") (auto simp: count_list_0_iff)
  then show ?thesis using draw_points [OF assms, of "\<lambda>_. c"] by (simp only:)
qed

lemma change_points:
  assumes "ok d" "\<forall>p \<in> set ps. inner d p" "distinct ps"
  shows "\<exists>e. foldO (draw f) ps d = Some e \<and> same d e \<and>
     (\<forall>q. inner d q \<longrightarrow> look e q = (if q \<in> set ps then f (look d q) else look d q))"
proof -
  have "count_list ps q = (if q \<in> set ps then 1 else 0)" for q
    using assms(3) by (induction ps) auto
  moreover have "(f ^^ (if b then 1 else 0)) v = (if b then f v else v)" for b :: bool and v by simp
  ultimately show ?thesis using draw_points [OF assms(1,2), of f] by (simp only:)
qed

text \<open>Points that get different colours, one each.\<close>

lemma copy_points:
  assumes "ok d" "\<forall>p \<in> set ps. inner d p" "distinct ps" "length cs = length ps"
  shows "\<exists>e. foldO (\<lambda>(p, c). draw (\<lambda>_. c) p) (zip ps cs) d = Some e \<and> same d e \<and>
     (\<forall>q. inner d q \<longrightarrow> q \<notin> set ps \<longrightarrow> look e q = look d q) \<and> map (look e) ps = cs"
  using assms
proof (induction ps arbitrary: d cs)
  case Nil
  then show ?case by (simp add: same_refl)
next
  case (Cons p ps)
  then obtain c cs' where cs: "cs = c # cs'" "length cs' = length ps" by (cases cs) auto
  from Cons.prems obtain e where e: "draw (\<lambda>_. c) p d = Some e" "same d e" "look e p = c"
      "\<And>q. inner d q \<Longrightarrow> q \<noteq> p \<Longrightarrow> look e q = look d q"
    using draw_inner [of d p "\<lambda>_. c"] by auto
  obtain g where g: "foldO (\<lambda>(p, c). draw (\<lambda>_. c) p) (zip ps cs') e = Some g" "same e g"
      "\<And>q. inner e q \<Longrightarrow> q \<notin> set ps \<Longrightarrow> look g q = look e q" "map (look g) ps = cs'"
    using Cons.IH [of e cs'] same_ok [OF e(2) Cons.prems(1)] same_inner [OF e(2)] Cons.prems(2,3) cs(2) by auto
  show ?case using e g Cons.prems(2,3) same_trans [OF e(2) g(2)] same_inner [OF e(2)] cs(1) by auto
qed

end

section \<open>The display buffer is a canvas\<close>

definition same_shape :: "disbuf \<Rightarrow> disbuf \<Rightarrow> bool" where
  "same_shape d e \<longleftrightarrow> (\<exists>b. e = d\<lparr>dis_buf := b\<rparr> \<and> length b = length (dis_buf d))"

definition inner_pix :: "disbuf \<Rightarrow> int \<times> int \<Rightarrow> bool" where
  "inner_pix d p = inside d (fst p) (snd p)"

lemma cell_range:
  fixes x y w h :: int
  assumes "0 \<le> x" "x < w" "0 \<le> y" "y < h"
  shows "0 \<le> y * w + x \<and> y * w + x < w * h"
proof -
  have "(y + 1) * w \<le> h * w" using assms by (intro mult_right_mono) auto
  then have "y * w + w \<le> w * h" by (simp add: algebra_simps)
  moreover have "0 \<le> y * w" using assms by simp
  ultimately show ?thesis using assms by simp
qed

lemma cell_inj:
  fixes x y u v w :: int
  assumes "0 \<le> x" "x < w" "0 \<le> u" "u < w" "y * w + x = v * w + u"
  shows "x = u \<and> y = v"
proof -
  have "x = (x + y * w) mod w" "u = (u + v * w) mod w" using assms by simp_all
  moreover have "x + y * w = u + v * w" using assms(5) by simp
  ultimately have "x = u" by metis
  then show ?thesis using assms by auto
qed

lemma put_cell_Some:
  "0 \<le> i \<Longrightarrow> i < int (length (dis_buf d)) \<Longrightarrow>
   put_cell i f d = Some (d\<lparr>dis_buf := (dis_buf d)[nat i := f (dis_buf d ! nat i)]\<rparr>)"
  by (simp add: put_cell_def mem_simps)

lemma plot_inside:
  assumes "wf_dis d" "inner_pix d p"
  shows "\<exists>e. plot f p d = Some e \<and> same_shape d e \<and> pix e p = f (pix d p) \<and>
     (\<forall>q. inner_pix d q \<longrightarrow> q \<noteq> p \<longrightarrow> pix e q = pix d q)"
proof -
  obtain x y where p: "p = (x, y)" by (cases p)
  let ?i = "\<lambda>x y. y * disbufw d + x"
  have r: "0 \<le> ?i u v \<and> ?i u v < int (length (dis_buf d))" if "inner_pix d (u, v)" for u v
  proof -
    have "0 < disbufw d" "int (length (dis_buf d)) = disbufw d * disbufh d + disbufw d * 16"
      using assms(1) by (auto simp: wf_dis_def)
    then show ?thesis using cell_range [of u "disbufw d" v "disbufh d"] that by (auto simp: inner_pix_def inside_def)
  qed
  let ?e = "d\<lparr>dis_buf := (dis_buf d)[nat (?i x y) := f (dis_buf d ! nat (?i x y))]\<rparr>"
  have "plot f p d = Some ?e" using r [of x y] assms(2) p by (simp add: plot_def put_cell_Some)
  moreover have "same_shape d ?e" by (auto simp: same_shape_def)
  moreover have "pix ?e p = f (pix d p)"
  proof -
    have "nat (?i x y) < length (dis_buf d)" using r [of x y] assms(2) p by (simp add: nat_less_iff)
    then show ?thesis using p by (simp add: pix_def)
  qed
  moreover have "pix ?e q = pix d q" if "inner_pix d q" "q \<noteq> p" for q
  proof (cases q)
    case (Pair u v)
    have "?i u v \<noteq> ?i x y"
      using cell_inj [of u "disbufw d" x v y] that assms(2) p Pair by (auto simp: inner_pix_def inside_def)
    then have "nat (?i u v) \<noteq> nat (?i x y)"
      using r [of u v] r [of x y] that assms(2) p Pair by (metis eq_nat_nat_iff)
    then show ?thesis using Pair by (simp add: pix_def)
  qed
  ultimately show ?thesis by blast
qed

interpretation dis: canvas plot pix inner_pix wf_dis same_shape
proof unfold_locales
  show "same_shape d d" for d by (auto simp: same_shape_def intro: exI [of _ "dis_buf d"])
  show "same_shape d f" if "same_shape d e" "same_shape e f" for d e f
    using that by (auto simp: same_shape_def)
  show "inner_pix e = inner_pix d" if "same_shape d e" for d e
    using that by (auto simp: same_shape_def inner_pix_def inside_def fun_eq_iff)
  show "wf_dis e" if "same_shape d e" "wf_dis d" for d e
    using that by (auto simp: same_shape_def wf_dis_def)
qed (rule plot_inside)

section \<open>Rectangles\<close>

lemma nested_loop:
  "foldO (\<lambda>i. foldO (\<lambda>j. f (j, i)) js) is s = foldO f (concat (map (\<lambda>i. map (\<lambda>j. (j, i)) js) is)) s"
  by (induction "is" arbitrary: s) (auto simp: foldO_append foldO_map split: option.splits)

definition rect_points :: "int \<Rightarrow> int \<Rightarrow> int \<Rightarrow> int \<Rightarrow> (int \<times> int) list" where
  "rect_points x1 y1 x2 y2 = concat (map (\<lambda>i. map (\<lambda>j. (j, i)) [x1..x2 - 1]) [y1..y2 - 1])"

lemma set_rect_points: "set (rect_points x1 y1 x2 y2) = {(x, y). x1 \<le> x \<and> x < x2 \<and> y1 \<le> y \<and> y < y2}"
  by (auto simp: rect_points_def)

lemma distinct_rows: "distinct is \<Longrightarrow> distinct js \<Longrightarrow> distinct (concat (map (\<lambda>i. map (\<lambda>j. (j, i)) js) is))"
  by (induction "is") (auto simp: distinct_map inj_on_def)

lemma distinct_rect_points: "distinct (rect_points x1 y1 x2 y2)"
  by (simp add: rect_points_def distinct_rows)

lemma rect_loop: "for_loop y1 y2 (\<lambda>i. for_loop x1 x2 (\<lambda>j. f (j, i))) = foldO f (rect_points x1 y1 x2 y2)"
  by (simp add: for_loop_def nested_loop rect_points_def fun_eq_iff)

lemma rect_inside:
  "x1 < x2 \<Longrightarrow> y1 < y2 \<Longrightarrow> inside d x1 y1 \<Longrightarrow> inside d (x2 - 1) (y2 - 1) \<Longrightarrow>
   \<forall>p \<in> set (rect_points x1 y1 x2 y2). inner_pix d p"
  by (auto simp: set_rect_points inner_pix_def inside_def)

text \<open>
  Filling a rectangle that lies in the display succeeds, gives every pixel of it the colour,
  its right and bottom edge excluded, and keeps every other pixel and everything else.
\<close>

lemma rectangle_fills:
  assumes "wf_dis d" "x1 < x2" "y1 < y2" "inside d x1 y1" "inside d (x2 - 1) (y2 - 1)"
  shows "\<exists>e. rectangle x1 y1 x2 y2 c d = Some e \<and> e = d\<lparr>dis_buf := dis_buf e\<rparr> \<and>
    (\<forall>x y. inside d x y \<longrightarrow>
       pix e (x, y) = (if x1 \<le> x \<and> x < x2 \<and> y1 \<le> y \<and> y < y2 then c else pix d (x, y)))"
proof -
  from dis.paint_points [OF assms(1) rect_inside [OF assms(2-5)], of c] obtain e
    where e: "foldO (plot (\<lambda>_. c)) (rect_points x1 y1 x2 y2) d = Some e" "same_shape d e"
      "\<And>q. inner_pix d q \<Longrightarrow> pix e q = (if q \<in> set (rect_points x1 y1 x2 y2) then c else pix d q)" by blast
  have "e = d\<lparr>dis_buf := dis_buf e\<rparr>" using e(2) by (auto simp: same_shape_def)
  moreover have "pix e (x, y) = (if x1 \<le> x \<and> x < x2 \<and> y1 \<le> y \<and> y < y2 then c else pix d (x, y))"
    if "inside d x y" for x y
    using e(3) [of "(x, y)"] that by (simp add: inner_pix_def set_rect_points)
  ultimately show ?thesis using e(1) by (auto simp: rectangle_def rect_loop [of _ _ _ _ "plot (\<lambda>_. c)"])
qed

section \<open>Saving and restoring a rectangle\<close>

lemma read_cells:
  assumes "wf_dis d"
  shows "\<forall>p \<in> set ps. inner_pix d p \<Longrightarrow>
    foldO (\<lambda>(j, i) buf. map_option (\<lambda>v. buf @ [v]) (aget (dis_buf d) (i * disbufw d + j))) ps buf =
      Some (buf @ map (pix d) ps)"
proof (induction ps arbitrary: buf)
  case (Cons p ps)
  obtain x y where p: "p = (x, y)" by (cases p)
  have "aget (dis_buf d) (y * disbufw d + x) = Some (pix d (x, y))"
    using cell_range [of x "disbufw d" y "disbufh d"] Cons.prems assms p
    by (auto simp: aget_def pix_def inner_pix_def inside_def wf_dis_def)
  then show ?case using Cons.IH [of "buf @ [pix d p]"] Cons.prems p by simp
qed simp

lemma read_rect_pixels:
  assumes "wf_dis d" "\<forall>p \<in> set (rect_points x1 y1 x2 y2). inner_pix d p"
  shows "read_rect x1 y1 x2 y2 d = Some (map (pix d) (rect_points x1 y1 x2 y2))"
  using read_cells [OF assms, of "[]"]
    rect_loop [of y1 y2 x1 x2 "\<lambda>(j, i) buf. map_option (\<lambda>v. buf @ [v]) (aget (dis_buf d) (i * disbufw d + j))"]
  by (simp add: read_rect_def)

lemma write_cells:
  "length ps \<le> length buf \<Longrightarrow>
   map_option snd (foldO (\<lambda>p (buf, d). case buf of [] \<Rightarrow> None
     | v # buf \<Rightarrow> map_option (\<lambda>d. (buf, d)) (plot (\<lambda>_. v) p d)) ps (buf, d)) =
   foldO (\<lambda>(p, c). plot (\<lambda>_. c) p) (zip ps buf) d"
proof (induction ps arbitrary: buf d)
  case (Cons p ps)
  then obtain v buf' where b: "buf = v # buf'" by (cases buf) auto
  then show ?case using Cons.IH [of buf'] Cons.prems by (auto split: option.splits)
qed simp

lemma write_rect_pixels:
  assumes "wf_dis d" "\<forall>p \<in> set (rect_points x1 y1 x2 y2). inner_pix d p" "length buf = length (rect_points x1 y1 x2 y2)"
  shows "\<exists>e. write_rect x1 y1 x2 y2 buf d = Some e \<and> same_shape d e \<and>
    (\<forall>q. inner_pix d q \<longrightarrow> q \<notin> set (rect_points x1 y1 x2 y2) \<longrightarrow> pix e q = pix d q) \<and>
    map (pix e) (rect_points x1 y1 x2 y2) = buf"
  using dis.copy_points [OF assms(1,2) distinct_rect_points assms(3)]
    write_cells [of "rect_points x1 y1 x2 y2" buf d] assms(3)
    rect_loop [of y1 y2 x1 x2 "\<lambda>p (buf, d). case buf of [] \<Rightarrow> None
      | v # buf \<Rightarrow> map_option (\<lambda>d. (buf, d)) (plot (\<lambda>_. v) p d)"]
  by (simp add: write_rect_def)

lemma restore_rect:
  assumes "wf_dis d" "x1 < x2" "y1 < y2" "inside d x1 y1" "inside d (x2 - 1) (y2 - 1)"
    and "same_shape d d'"
    and "\<forall>x y. inside d x y \<longrightarrow> \<not> (x1 \<le> x \<and> x < x2 \<and> y1 \<le> y \<and> y < y2) \<longrightarrow> pix d' (x, y) = pix d (x, y)"
  shows "\<exists>buf e. read_rect x1 y1 x2 y2 d = Some buf \<and> write_rect x1 y1 x2 y2 buf d' = Some e \<and>
    same_shape d e \<and> (\<forall>x y. inside d x y \<longrightarrow> pix e (x, y) = pix d (x, y))"
proof -
  let ?ps = "rect_points x1 y1 x2 y2"
  note ps = rect_inside [OF assms(2-5)]
  have d': "wf_dis d'" "inner_pix d' = inner_pix d"
    using dis.same_ok [OF assms(6,1)] dis.same_inner [OF assms(6)] by auto
  obtain e where e: "write_rect x1 y1 x2 y2 (map (pix d) ?ps) d' = Some e" "same_shape d' e"
      "\<And>q. inner_pix d q \<Longrightarrow> q \<notin> set ?ps \<Longrightarrow> pix e q = pix d' q" "map (pix e) ?ps = map (pix d) ?ps"
    using write_rect_pixels [of d' x1 y1 x2 y2 "map (pix d) ?ps"] d' ps by auto
  have "pix e (x, y) = pix d (x, y)" if "inside d x y" for x y
    using e(3) [of "(x, y)"] e(4) assms(7) that by (cases "(x, y) \<in> set ?ps") (auto simp: inner_pix_def set_rect_points)
  then show ?thesis using read_rect_pixels [OF assms(1) ps] e(1) dis.same_trans [OF assms(6) e(2)] by blast
qed

text \<open>
  The cells \<open>read_rect\<close> saves from a rectangle of the display are what \<open>write_rect\<close> needs to
  restore it: whatever was drawn inside the rectangle in between, all pixels of the display are
  then as they were when the rectangle was saved.
\<close>

lemma rectangle_restored:
  assumes "wf_dis d" "x1 < x2" "y1 < y2" "inside d x1 y1" "inside d (x2 - 1) (y2 - 1)"
    and "same_shape d d'"
    and "\<forall>x y. inside d x y \<longrightarrow> \<not> (x1 \<le> x \<and> x < x2 \<and> y1 \<le> y \<and> y < y2) \<longrightarrow> pix d' (x, y) = pix d (x, y)"
  shows "\<exists>buf e. read_rect x1 y1 x2 y2 d = Some buf \<and> write_rect x1 y1 x2 y2 buf d' = Some e \<and>
    same_shape d e \<and> (\<forall>x y. inside d x y \<longrightarrow> pix e (x, y) = pix d (x, y))"
  by (rule restore_rect [OF assms])

section \<open>Lines\<close>

text \<open>The whole number nearest to \<open>t * m / n\<close>, halves upwards.\<close>

definition nearest :: "int \<Rightarrow> int \<Rightarrow> int \<Rightarrow> int" where
  "nearest m n t = (2 * t * m + n) div (2 * n)"

lemma nearest_close: "0 < n \<Longrightarrow> \<bar>2 * n * nearest m n t - 2 * t * m\<bar> \<le> n"
proof -
  assume n: "0 < n"
  have "2 * n * nearest m n t = 2 * t * m + n - (2 * t * m + n) mod (2 * n)"
    unfolding nearest_def by (simp only: minus_mod_eq_mult_div)
  moreover have "0 \<le> (2 * t * m + n) mod (2 * n)" "(2 * t * m + n) mod (2 * n) < 2 * n" using n by simp_all
  ultimately show ?thesis by linarith
qed

lemma nearest_range:
  assumes "0 \<le> t" "t < n" "0 \<le> m"
  shows "0 \<le> nearest m n t \<and> nearest m n t \<le> m"
proof -
  have "2 * t * m \<le> 2 * n * m" using assms by (intro mult_right_mono) auto
  then have "2 * t * m + n < (m + 1) * (2 * n)" using assms by (simp add: algebra_simps)
  moreover have "nearest m n t * (2 * n) \<le> 2 * t * m + n"
    using pos_mod_sign [of "2 * n" "2 * t * m + n"] assms div_mult_mod_eq [of "2 * t * m + n" "2 * n"]
    unfolding nearest_def by linarith
  ultimately have "nearest m n t * (2 * n) < (m + 1) * (2 * n)" by simp
  then have "nearest m n t < m + 1" using assms by (simp add: mult_less_cancel_right)
  moreover have "0 \<le> nearest m n t" unfolding nearest_def using assms by (intro pos_imp_zdiv_nonneg_iff [THEN iffD2]) auto
  ultimately show ?thesis by simp
qed

text \<open>The division of the code, for a line of \<open>n > 0\<close> steps along its major axis.\<close>

lemma raster:
  fixes t m n s r :: int
  assumes "0 \<le> t" "0 < n" "0 \<le> m" "s = 1 \<or> s = - 1" "r = 1 \<or> r = - 1"
  shows "(t * s * (r * m * 8) + (r * (s * n * 8)) sdiv 2) sdiv (s * n * 8) = r * nearest m n t"
proof -
  have pos: "0 < 8 * (t * m) + 4 * n" using assms by (simp add: add_nonneg_pos)
  have h: "(r * (s * n * 8)) sdiv 2 = r * s * (4 * n)"
    using assms by (auto simp: signed_divide_int_def sgn_if)
  have q: "8 * (t * m) + 4 * n = 4 * (2 * t * m + n)" "8 * n = 4 * (2 * n)" by simp_all
  have d: "(8 * (t * m) + 4 * n) div (8 * n) = nearest m n t"
    unfolding nearest_def q by (rule div_mult_mult1) simp
  have "t * s * (r * m * 8) + r * s * (4 * n) = r * s * (8 * (t * m) + 4 * n)" by (simp add: algebra_simps)
  moreover have "(r * s * (8 * (t * m) + 4 * n)) sdiv (s * n * 8) = r * ((8 * (t * m) + 4 * n) div (8 * n))"
    using assms(2,4,5) pos by (auto simp: signed_divide_int_def sgn_if abs_mult mult.commute)
  ultimately show ?thesis using d h by simp
qed

text \<open>Nothing of it leaves the range of \<open>int\<close> on a line of at most 8192 steps.\<close>

lemma cint_Some: "\<bar>n\<bar> < 2 ^ 31 \<Longrightarrow> cint n = Some n"
  by (auto simp: cint_def)

lemma raster_at_eq:
  fixes t m n s r :: int
  assumes "0 \<le> t" "t < n" "n \<le> 8192" "0 \<le> m" "m \<le> 8192" "s = 1 \<or> s = - 1" "r = 1 \<or> r = - 1"
  shows "raster_at s (r * m * 8) ((r * (s * n * 8)) sdiv 2) (s * n * 8) t = Some (r * nearest m n t)"
proof -
  have tm: "0 \<le> t * m" "t * m \<le> 8192 * 8192" using assms mult_mono [of t 8192 m 8192] by simp_all
  have a: "\<bar>t * s * (r * m * 8)\<bar> = t * m * 8" using assms(1,4,6,7) by (auto simp: abs_mult)
  have h: "(r * (s * n * 8)) sdiv 2 = r * s * (4 * n)"
    using assms(1,2,6,7) by (auto simp: signed_divide_int_def sgn_if)
  have "\<bar>r * s * (4 * n)\<bar> = 4 * n" using assms(1,2,6,7) by (auto simp: abs_mult)
  then have sum: "\<bar>t * s * (r * m * 8) + (r * (s * n * 8)) sdiv 2\<bar> < 2 ^ 31"
  proof -
    have "\<bar>t * s * (r * m * 8) + r * s * (4 * n)\<bar> \<le> t * m * 8 + 4 * n"
      using abs_triangle_ineq [of "t * s * (r * m * 8)" "r * s * (4 * n)"] a \<open>\<bar>r * s * (4 * n)\<bar> = 4 * n\<close> by simp
    also have "\<dots> < 2 ^ 31" using tm assms(3) by simp
    finally show ?thesis unfolding h .
  qed
  have "0 \<le> nearest m n t" "nearest m n t \<le> m" using nearest_range [of t n m] assms(1,2,4) by simp_all
  then have q: "\<bar>r * nearest m n t\<bar> < 2 ^ 31" using assms(5,7) by (auto simp: abs_mult)
  have "s * n * 8 \<noteq> 0" using assms(1,2,6) by auto
  moreover have "\<bar>t * s * (r * m * 8)\<bar> < 2 ^ 31" unfolding a using mult_right_mono [OF tm(2), of 8] by simp
  ultimately show ?thesis
    using raster [OF assms(1) _ assms(4,6,7)] assms(1,2) sum q
    by (simp add: raster_at_def cquot_def cint_Some)
qed

text \<open>The pattern counters: which steps of the line are drawn.\<close>

definition dash_step ::
  "int \<Rightarrow> int \<Rightarrow> (int \<Rightarrow> disbuf \<Rightarrow> disbuf option) \<Rightarrow> int \<Rightarrow> int \<times> int \<times> disbuf \<Rightarrow> (int \<times> int \<times> disbuf) option" where
  "dash_step lc kc dot x s =
     (case s of (l, k, d) \<Rightarrow>
        if l \<ge> 1 then map_option (\<lambda>d. (l - 1, kc, d)) (dot x d)
        else Some (if k < 1 then lc else l - 1, k - 1, d))"

lemma line_run_dashes:
  assumes "\<And>x. 0 \<le> x \<Longrightarrow> x < n \<Longrightarrow> off x = Some (y x)"
  shows "line_run lc kc n off dot d = map_option (\<lambda>(l, k, d). d) (for_loop 0 n (dash_step lc kc (\<lambda>x. dot x (y x))) (lc, kc, d))"
proof -
  have "for_loop 0 n (line_step lc kc off dot) st = for_loop 0 n (dash_step lc kc (\<lambda>x. dot x (y x))) st" for st
    unfolding for_loop_def using assms by (intro foldO_cong) (auto simp: line_step_def dash_step_def split: prod.splits)
  then show ?thesis by (simp add: line_run_def)
qed

lemma mod_next: "0 < b \<Longrightarrow> ((i :: int) + 1) mod b = (if i mod b = b - 1 then 0 else i mod b + 1)"
proof -
  assume b: "0 < b"
  have m: "(i + 1) mod b = (i mod b + 1) mod b" by (simp add: mod_add_left_eq)
  have "0 \<le> i mod b" "i mod b < b" using b by simp_all
  then show ?thesis unfolding m by (auto intro: mod_pos_pos_trivial)
qed

lemma dash_step_simps:
  "1 \<le> l \<Longrightarrow> dash_step lc kc dot t (l, k, d) = map_option (\<lambda>d. (l - 1, kc, d)) (dot t d)"
  "l \<le> 0 \<Longrightarrow> dash_step lc kc dot t (l, k, d) = Some (if k < 1 then lc else l - 1, k - 1, d)"
  by (simp_all add: dash_step_def)

lemma run_points:
  assumes "1 \<le> lc" "0 \<le> kc"
  shows "0 \<le> i \<Longrightarrow> l = lc - i mod (lc + kc + 1) \<Longrightarrow>
    (lc \<le> i mod (lc + kc + 1) \<Longrightarrow> k = kc - (i mod (lc + kc + 1) - lc)) \<Longrightarrow>
    map_option (\<lambda>(l, k, d). d) (foldO (dash_step lc kc (\<lambda>t. plot f (pt t))) [i..i + int n - 1] (l, k, d)) =
    foldO (plot f) (map pt (filter (\<lambda>t. t mod (lc + kc + 1) < lc) [i..i + int n - 1])) d"
proof (induction n arbitrary: i l k d)
  case (Suc n)
  let ?P = "lc + kc + 1"
  have u: "[i..i + int (Suc n) - 1] = i # [i + 1..(i + 1) + int n - 1]" by (simp add: upto_rec1)
  note nx = mod_next [of ?P i]
  have b: "0 \<le> i mod ?P" "i mod ?P < ?P" using assms pos_mod_bound [of ?P i] pos_mod_sign [of ?P i] by linarith+
  show ?case
  proof (cases "i mod ?P < lc")
    case True
    have "\<And>e. map_option (\<lambda>(l, k, d). d) (foldO (dash_step lc kc (\<lambda>t. plot f (pt t))) [i + 1..(i + 1) + int n - 1] (l - 1, kc, e)) =
        foldO (plot f) (map pt (filter (\<lambda>t. t mod ?P < lc) [i + 1..(i + 1) + int n - 1])) e"
      using True Suc.prems nx assms b by (intro Suc.IH) auto
    then show ?thesis unfolding u using True Suc.prems(2) by (auto simp: dash_step_simps split: option.splits)
  next
    case False
    have k: "k = kc - (i mod ?P - lc)" using False Suc.prems(3) by simp
    have "map_option (\<lambda>(l, k, d). d) (foldO (dash_step lc kc (\<lambda>t. plot f (pt t))) [i + 1..(i + 1) + int n - 1]
          (if k < 1 then lc else l - 1, k - 1, d)) =
        foldO (plot f) (map pt (filter (\<lambda>t. t mod ?P < lc) [i + 1..(i + 1) + int n - 1])) d"
      using False Suc.prems(1,2) k nx assms b by (intro Suc.IH) auto
    then show ?thesis unfolding u using False Suc.prems(2) by (auto simp: dash_step_simps)
  qed
qed simp

lemma run_dashes:
  assumes "1 \<le> lc" "0 \<le> kc" "0 \<le> n"
    and "\<And>t. 0 \<le> t \<Longrightarrow> t < n \<Longrightarrow> off t = Some (y t) \<and> dot t (y t) = plot f (pt t)"
  shows "line_run lc kc n off dot d =
    foldO (plot f) (map pt (filter (\<lambda>t. t mod (lc + kc + 1) < lc) [0..n - 1])) d"
proof -
  have "for_loop 0 n (dash_step lc kc (\<lambda>t. dot t (y t))) st = for_loop 0 n (dash_step lc kc (\<lambda>t. plot f (pt t))) st" for st
    unfolding for_loop_def using assms(4) by (intro foldO_cong) (auto simp: dash_step_def)
  then show ?thesis
    using run_points [OF assms(1,2), where i = 0 and l = lc and k = kc and n = "nat n" and f = f and pt = pt and d = d] assms
      line_run_dashes [of n off y lc kc dot d]
    by (simp add: for_loop_def)
qed

text \<open>Step \<open>t\<close> of the ideal line.\<close>

definition line_point :: "int \<Rightarrow> int \<Rightarrow> int \<Rightarrow> int \<Rightarrow> int \<Rightarrow> int \<times> int" where
  "line_point x1 y1 x2 y2 t =
     (let m = \<bar>x2 - x1\<bar>; n = \<bar>y2 - y1\<bar>;
          sx = if x2 - x1 < 0 then - 1 else 1; sy = if y2 - y1 < 0 then - 1 else 1
      in if m > n then (x1 + sx * t, y1 + sy * nearest n m t) else (x1 + sx * nearest m n t, y1 + sy * t))"

definition line_length :: "int \<Rightarrow> int \<Rightarrow> int \<Rightarrow> int \<Rightarrow> int" where
  "line_length x1 y1 x2 y2 = max \<bar>x2 - x1\<bar> \<bar>y2 - y1\<bar>"

definition mode_fun :: "int \<Rightarrow> u32 \<Rightarrow> u32 \<Rightarrow> u32" where
  "mode_fun mode c v = (if mode = DISOPXOR then v XOR c else c)"

lemma sign_split: "(if (k :: int) < 0 then (- k, - 1) else (k, 1)) = (\<bar>k\<bar>, if k < 0 then - 1 else 1)"
  by simp

lemma modes: "(DISOPXOR = DISOPUN) = False"
  by (simp add: DISOPUN_def DISOPXOR_def)

text \<open>The division of the code at step \<open>t\<close>, along the horizontal and along the vertical axis.\<close>

lemma raster_wide:
  assumes "\<bar>x2 - x1\<bar> > \<bar>y2 - y1\<bar>" "\<bar>x2 - x1\<bar> \<le> 8192" "0 \<le> t" "t < \<bar>x2 - x1\<bar>"
  shows "raster_at (if x2 - x1 < 0 then - 1 else 1) ((y2 - y1) * 8) (((if y2 - y1 < 0 then - 1 else 1) * ((x2 - x1) * 8)) sdiv 2)
      ((x2 - x1) * 8) t = Some (snd (line_point x1 y1 x2 y2 t) - y1)"
    and "(x1 + t * (if x2 - x1 < 0 then - 1 else 1), y1 + (snd (line_point x1 y1 x2 y2 t) - y1)) = line_point x1 y1 x2 y2 t"
proof -
  let ?m = "\<bar>x2 - x1\<bar>" and ?n = "\<bar>y2 - y1\<bar>"
  let ?sx = "if x2 - x1 < 0 then - 1 else 1 :: int" and ?sy = "if y2 - y1 < 0 then - 1 else 1 :: int"
  have kx: "x2 - x1 = ?sx * ?m" "y2 - y1 = ?sy * ?n" by auto
  have p: "line_point x1 y1 x2 y2 t = (x1 + ?sx * t, y1 + ?sy * nearest ?n ?m t)"
    using assms(1) by (simp only: line_point_def Let_def if_True)
  have "raster_at ?sx (?sy * ?n * 8) ((?sy * (?sx * ?m * 8)) sdiv 2) (?sx * ?m * 8) t = Some (?sy * nearest ?n ?m t)"
    using assms by (intro raster_at_eq) auto
  then show "raster_at ?sx ((y2 - y1) * 8) ((?sy * ((x2 - x1) * 8)) sdiv 2) ((x2 - x1) * 8) t = Some (snd (line_point x1 y1 x2 y2 t) - y1)"
    unfolding p kx(1) [symmetric] kx(2) [symmetric] by simp
  show "(x1 + t * ?sx, y1 + (snd (line_point x1 y1 x2 y2 t) - y1)) = line_point x1 y1 x2 y2 t"
    unfolding p by (simp only: mult.commute [of t]) simp
qed

lemma raster_steep:
  assumes "\<not> \<bar>x2 - x1\<bar> > \<bar>y2 - y1\<bar>" "\<bar>y2 - y1\<bar> \<le> 8192" "0 \<le> t" "t < \<bar>y2 - y1\<bar>"
  shows "raster_at (if y2 - y1 < 0 then - 1 else 1) ((x2 - x1) * 8) (((if x2 - x1 < 0 then - 1 else 1) * ((y2 - y1) * 8)) sdiv 2)
      ((y2 - y1) * 8) t = Some (fst (line_point x1 y1 x2 y2 t) - x1)"
    and "(x1 + (fst (line_point x1 y1 x2 y2 t) - x1), y1 + t * (if y2 - y1 < 0 then - 1 else 1)) = line_point x1 y1 x2 y2 t"
proof -
  let ?m = "\<bar>x2 - x1\<bar>" and ?n = "\<bar>y2 - y1\<bar>"
  let ?sx = "if x2 - x1 < 0 then - 1 else 1 :: int" and ?sy = "if y2 - y1 < 0 then - 1 else 1 :: int"
  have kx: "x2 - x1 = ?sx * ?m" "y2 - y1 = ?sy * ?n" by auto
  have p: "line_point x1 y1 x2 y2 t = (x1 + ?sx * nearest ?m ?n t, y1 + ?sy * t)"
    using assms(1) by (simp only: line_point_def Let_def if_False)
  have "raster_at ?sy (?sx * ?m * 8) ((?sx * (?sy * ?n * 8)) sdiv 2) (?sy * ?n * 8) t = Some (?sx * nearest ?m ?n t)"
    using assms by (intro raster_at_eq) auto
  then show "raster_at ?sy ((x2 - x1) * 8) ((?sx * ((y2 - y1) * 8)) sdiv 2) ((y2 - y1) * 8) t = Some (fst (line_point x1 y1 x2 y2 t) - x1)"
    unfolding p kx(1) [symmetric] kx(2) [symmetric] by simp
  show "(x1 + (fst (line_point x1 y1 x2 y2 t) - x1), y1 + t * ?sy) = line_point x1 y1 x2 y2 t"
    unfolding p by (simp only: mult.commute [of t]) simp
qed

text \<open>Neither axis of the line is longer than a display can be.\<close>

definition short_line :: "int \<Rightarrow> int \<Rightarrow> int \<Rightarrow> int \<Rightarrow> bool" where
  "short_line x1 y1 x2 y2 \<longleftrightarrow> \<bar>x2 - x1\<bar> \<le> 8192 \<and> \<bar>y2 - y1\<bar> \<le> 8192"

lemma short_inside: "wf_dis d \<Longrightarrow> inside d x1 y1 \<Longrightarrow> inside d x2 y2 \<Longrightarrow> short_line x1 y1 x2 y2"
  by (auto simp: wf_dis_def inside_def short_line_def)

lemma short_eighths: "short_line x1 y1 x2 y2 \<Longrightarrow> cint ((y2 - y1) * 8) = Some ((y2 - y1) * 8) \<and> cint ((x2 - x1) * 8) = Some ((x2 - x1) * 8)"
  by (auto simp: short_line_def intro!: cint_Some)

lemma line_points:
  assumes "op_mode d = DISOPUN \<or> op_mode d = DISOPXOR" "ty \<in> {0, 1, 2, 3}" "short_line x1 y1 x2 y2"
  shows "line junk x1 y1 x2 y2 c ty d =
    foldO (plot (mode_fun (op_mode d) c))
      (map (line_point x1 y1 x2 y2)
        (filter (\<lambda>t. t mod (line_pattern junk ty + 4) < line_pattern junk ty) [0..line_length x1 y1 x2 y2 - 1])) d"
proof -
  let ?lc = "line_pattern junk ty"
  let ?m = "\<bar>x2 - x1\<bar>" and ?n = "\<bar>y2 - y1\<bar>"
  have lc: "1 \<le> ?lc" using assms(2) by (auto simp: line_pattern_def)
  have four: "?lc + 3 + 1 = ?lc + 4" by simp
  have f: "mode_fun DISOPUN c = (\<lambda>_. c)" "mode_fun DISOPXOR c = (\<lambda>v. v XOR c)"
    by (simp_all add: mode_fun_def DISOPUN_def DISOPXOR_def fun_eq_iff)
  have run: "line_run ?lc 3 k off dot d =
      foldO (plot g) (map (line_point x1 y1 x2 y2) (filter (\<lambda>t. t mod (?lc + 4) < ?lc) [0..k - 1])) d"
    if "0 \<le> k" "\<And>t. 0 \<le> t \<Longrightarrow> t < k \<Longrightarrow> off t = Some (y t) \<and> dot t (y t) = plot g (line_point x1 y1 x2 y2 t)" for g off dot y k
    using run_dashes [OF lc _ that(1), of 3 off y dot g "line_point x1 y1 x2 y2" d] that(2) unfolding four by simp
  note start = line_def Let_def sign_split prod.case short_eighths [OF assms(3), THEN conjunct1] short_eighths [OF assms(3), THEN conjunct2]
    Option.bind.bind_lunit
  show ?thesis
  proof (cases "?m > ?n")
    case True
    have len: "line_length x1 y1 x2 y2 = ?m" using True by (simp add: line_length_def)
    have m: "?m \<le> 8192" using assms(3) by (simp add: short_line_def)
    note r = raster_wide [OF True m]
    have "line junk x1 y1 x2 y2 c ty d = foldO (plot (mode_fun (op_mode d) c)) (map (line_point x1 y1 x2 y2)
        (filter (\<lambda>t. t mod (?lc + 4) < ?lc) [0..?m - 1])) d"
      unfolding start if_P [OF True] using assms(1)
      by (elim disjE) (simp_all only: f modes simp_thms if_True if_False,
        (rule run [OF abs_ge_zero], rule conjI, rule r(1), assumption+, simp only: r(2))+)
    then show ?thesis by (simp only: len)
  next
    case False
    have len: "line_length x1 y1 x2 y2 = ?n" using False by (simp add: line_length_def)
    have n: "?n \<le> 8192" using assms(3) by (simp add: short_line_def)
    note r = raster_steep [OF False n]
    have "line junk x1 y1 x2 y2 c ty d = foldO (plot (mode_fun (op_mode d) c)) (map (line_point x1 y1 x2 y2)
        (filter (\<lambda>t. t mod (?lc + 4) < ?lc) [0..?n - 1])) d"
      unfolding start if_not_P [OF False] using assms(1)
      by (elim disjE) (simp_all only: f modes simp_thms if_True if_False,
        (rule run [OF abs_ge_zero], rule conjI, rule r(1), assumption+, simp only: r(2))+)
    then show ?thesis by (simp only: len)
  qed
qed

lemma line_point_inside:
  assumes "inside d x1 y1" "inside d x2 y2" "0 \<le> t" "t < line_length x1 y1 x2 y2"
  shows "inner_pix d (line_point x1 y1 x2 y2 t)"
proof (cases "\<bar>x2 - x1\<bar> > \<bar>y2 - y1\<bar>")
  case True
  then have "t < \<bar>x2 - x1\<bar>" using assms(4) by (simp add: line_length_def)
  then show ?thesis using nearest_range [of t "\<bar>x2 - x1\<bar>" "\<bar>y2 - y1\<bar>"] assms True
    by (auto simp: inner_pix_def inside_def line_point_def Let_def)
next
  case False
  then have "t < \<bar>y2 - y1\<bar>" using assms(4) by (simp add: line_length_def)
  then show ?thesis using nearest_range [of t "\<bar>y2 - y1\<bar>" "\<bar>x2 - x1\<bar>"] assms False
    by (auto simp: inner_pix_def inside_def line_point_def Let_def)
qed

lemma line_point_inj: "inj (line_point x1 y1 x2 y2)"
  by (rule injI) (auto simp: line_point_def Let_def split: if_splits)

text \<open>
  C30. A line between two pixels of a display of at most 8192 by 8192 pixels, in one of the two implemented modes, never leaves the
  buffer, divides by zero or leaves the range of \<open>int\<close>.  Along its longer axis it takes one pixel per step, end point excluded,
  the other coordinate rounded to the nearest pixel; of every \<open>lc + 4\<close> steps the first \<open>lc\<close> are drawn (\<open>lc\<close>
  from the line type), set or inverted as the mode says, and no other pixel changes.
\<close>

theorem line_drawn:
  assumes "wf_dis d" "inside d x1 y1" "inside d x2 y2" "op_mode d = DISOPUN \<or> op_mode d = DISOPXOR" "ty \<in> {0, 1, 2, 3}"
  shows "\<exists>e. line junk x1 y1 x2 y2 c ty d = Some e \<and> same_shape d e \<and>
    (\<forall>q. inner_pix d q \<longrightarrow>
       pix e q = (if \<exists>t. 0 \<le> t \<and> t < line_length x1 y1 x2 y2 \<and>
                         t mod (line_pattern junk ty + 4) < line_pattern junk ty \<and> q = line_point x1 y1 x2 y2 t
                  then mode_fun (op_mode d) c (pix d q) else pix d q))"
proof -
  let ?drawn = "\<lambda>t. t mod (line_pattern junk ty + 4) < line_pattern junk ty"
  let ?ps = "map (line_point x1 y1 x2 y2) (filter ?drawn [0..line_length x1 y1 x2 y2 - 1])"
  have "\<forall>p \<in> set ?ps. inner_pix d p" using line_point_inside [OF assms(2,3)] by auto
  moreover have "distinct ?ps"
    unfolding distinct_map using line_point_inj [of x1 y1 x2 y2] by (auto intro: inj_on_subset)
  ultimately obtain e where e: "foldO (plot (mode_fun (op_mode d) c)) ?ps d = Some e" "same_shape d e"
      "\<And>q. inner_pix d q \<Longrightarrow> pix e q = (if q \<in> set ?ps then mode_fun (op_mode d) c (pix d q) else pix d q)"
    using dis.change_points [OF assms(1), of ?ps "mode_fun (op_mode d) c"] by blast
  have "q \<in> set ?ps \<longleftrightarrow> (\<exists>t. 0 \<le> t \<and> t < line_length x1 y1 x2 y2 \<and> ?drawn t \<and> q = line_point x1 y1 x2 y2 t)" for q
    by auto
  then show ?thesis using e line_points [OF assms(4,5) short_inside [OF assms(1-3)], of junk c] by auto
qed

text \<open>A small display for concrete instances.\<close>

definition small_dis :: disbuf where
  "small_dis = new_disbuf (replicate 152 0) 12 10 8 3"

lemma small_dis_simps [simp]: "wf_dis small_dis" "inside small_dis x y \<longleftrightarrow> 0 \<le> x \<and> x < 8 \<and> 0 \<le> y \<and> y < 3"
  "inner_pix small_dis (x, y) \<longleftrightarrow> 0 \<le> x \<and> x < 8 \<and> 0 \<le> y \<and> y < 3" "op_mode small_dis = DISOPUN"
  by (auto simp: small_dis_def new_disbuf_def wf_dis_def inside_def inner_pix_def DISOPUN_def)

lemma small_dis_pix: "0 \<le> x \<Longrightarrow> x < 8 \<Longrightarrow> 0 \<le> y \<Longrightarrow> y < 3 \<Longrightarrow> pix small_dis (x, y) = 0"
proof -
  assume a: "0 \<le> x" "x < 8" "0 \<le> y" "y < 3"
  then have "nat (y * 8 + x) < 152" by simp
  then show ?thesis by (simp add: pix_def small_dis_def new_disbuf_def)
qed

theorem line_drawn_witness:
  "\<exists>e. line 0 1 0 7 2 5 3 small_dis = Some e \<and> pix e (1, 0) = 5 \<and> pix e (6, 2) = 5 \<and> pix e (2, 0) = 0"
proof -
  obtain e where e: "line 0 1 0 7 2 5 3 small_dis = Some e"
      "\<And>q. inner_pix small_dis q \<Longrightarrow>
       pix e q = (if \<exists>t. 0 \<le> t \<and> t < line_length 1 0 7 2 \<and> t mod (line_pattern 0 3 + 4) < line_pattern 0 3 \<and> q = line_point 1 0 7 2 t
                  then mode_fun (op_mode small_dis) 5 (pix small_dis q) else pix small_dis q)"
    using line_drawn [of small_dis 1 0 7 2 3 0 5] by auto
  have p: "line_point 1 0 7 2 t = (1 + t, nearest 2 6 t)" "line_length 1 0 7 2 = 6" "line_pattern 0 3 = 1" for t
    by (simp_all add: line_point_def line_length_def line_pattern_def)
  have "nearest 2 6 0 = 0" "nearest 2 6 5 = 2" "nearest 2 6 1 = 0" by (simp_all add: nearest_def)
  moreover have "pix small_dis (2, 0) = 0" by (simp add: small_dis_pix)
  ultimately have "pix e (1, 0) = 5" "pix e (6, 2) = 5" "pix e (2, 0) = 0"
    using e(2) [of "(1, 0)"] e(2) [of "(6, 2)"] e(2) [of "(2, 0)"]
    by (auto simp: p mode_fun_def DISOPUN_def DISOPXOR_def intro: exI [of _ 0] exI [of _ 5])
  then show ?thesis using e(1) by blast
qed

lemma rectangle_fills_example:
  "\<exists>e. rectangle 2 0 4 2 9 small_dis = Some e \<and> pix e (3, 1) = 9 \<and> pix e (4, 1) = 0"
proof -
  obtain e where "rectangle 2 0 4 2 9 small_dis = Some e"
      "\<And>x y. inside small_dis x y \<Longrightarrow> pix e (x, y) = (if 2 \<le> x \<and> x < 4 \<and> 0 \<le> y \<and> y < 2 then 9 else pix small_dis (x, y))"
    using rectangle_fills [of small_dis 2 4 0 2 9] by auto
  then show ?thesis by (auto simp: small_dis_pix)
qed

lemma rectangle_restored_example:
  "\<exists>d' buf e. rectangle 2 0 4 2 9 small_dis = Some d' \<and> read_rect 2 0 4 2 small_dis = Some buf \<and>
     write_rect 2 0 4 2 buf d' = Some e \<and> pix d' (3, 1) = 9 \<and> pix e (3, 1) = 0"
proof -
  obtain d' where d': "rectangle 2 0 4 2 9 small_dis = Some d'" "same_shape small_dis d'"
      "\<And>q. inner_pix small_dis q \<Longrightarrow> pix d' q = (if q \<in> set (rect_points 2 0 4 2) then 9 else pix small_dis q)"
    using dis.paint_points [of small_dis "rect_points 2 0 4 2" 9]
    by (auto simp: rectangle_def rect_loop [of _ _ _ _ "plot (\<lambda>_. 9)"] set_rect_points)
  have "\<exists>buf e. read_rect 2 0 4 2 small_dis = Some buf \<and> write_rect 2 0 4 2 buf d' = Some e \<and>
      same_shape small_dis e \<and> (\<forall>x y. inside small_dis x y \<longrightarrow> pix e (x, y) = pix small_dis (x, y))"
    by (rule rectangle_restored) (use d'(2,3) in \<open>auto simp: set_rect_points\<close>)
  moreover have "pix small_dis (3, 1) = 0" by (simp add: small_dis_pix)
  moreover have "pix d' (3, 1) = 9" using d'(3) [of "(3, 1)"] by (simp add: set_rect_points)
  moreover have "inside small_dis 3 1" by simp
  ultimately show ?thesis using d'(1) by metis
qed

section \<open>Text\<close>

lemma for_loop_same_shape:
  assumes "\<And>i e. lo \<le> i \<Longrightarrow> i < hi \<Longrightarrow> same_shape d e \<Longrightarrow> \<exists>g. f i e = Some g \<and> same_shape e g"
  shows "\<exists>e. for_loop lo hi f d = Some e \<and> same_shape d e"
  by (rule for_loop_total [where P = "same_shape d"]) (use assms dis.same_refl dis.same_trans in blast)+

text \<open>
  A glyph right of the left edge stays in the buffer wherever its rows are: rows above the display
  are skipped, the one below it is a spare row.
\<close>

lemma drawchar_safe:
  assumes "wf_dis d" "0 \<le> x" "0 \<le> off" "0 \<le> w" "off + h * ((w + 7) div 8) \<le> int (length lib)"
  shows "\<exists>e. drawchar lib off w h x y fg d = Some e \<and> same_shape d e"
  unfolding drawchar_def
proof (intro for_loop_same_shape, goal_cases)
  case (1 hi e)
  have e: "wf_dis e" using dis.same_ok [OF 1(3) assms(1)] .
  show ?case
  proof (cases "y + hi < 0 \<or> y + hi > disbufh e")
    case True
    then show ?thesis by (simp add: Let_def dis.same_refl)
  next
    case False
    have "\<exists>g. (case aget lib (off + hi * ((w + 7) sdiv 8) + wi div 8) of None \<Rightarrow> None
         | Some m \<Rightarrow>
             if drop_bit (nat (7 - wi mod 8)) m AND 1 \<noteq> 0 \<and> x + wi < disbufw e'
             then plot (\<lambda>_. fg) (x + wi, y + hi) e' else Some e') = Some g \<and> same_shape e' g"
      if wi: "0 \<le> wi" "wi < w" and e': "same_shape e e'" for wi e'
    proof -
      have s: "(w + 7) sdiv 8 = (w + 7) div 8" using assms(4) by (simp add: sdiv_nonneg)
      have "wi div 8 \<le> (w - 1) div 8" using wi by (intro zdiv_mono1) auto
      moreover have "(w + 7) div 8 = (w - 1) div 8 + 1" using div_add_self2 [of 8 "w - 1"] by (simp add: add.commute)
      moreover have "(hi + 1) * ((w + 7) div 8) \<le> h * ((w + 7) div 8)" using 1(2) assms(4) by (intro mult_right_mono) auto
      moreover have "0 \<le> hi * ((w + 7) div 8)" using 1(1) assms(4) by simp
      moreover have "0 \<le> wi div 8" using wi by (simp add: div_int_pos_iff)
      ultimately obtain m where m: "aget lib (off + hi * ((w + 7) sdiv 8) + wi div 8) = Some m"
        using assms(3,5) wi s by (simp add: aget_def distrib_right)
      have w': "wf_dis e'" using dis.same_ok [OF e' e] .
      have "disbufh e' = disbufh e" using e' by (auto simp: same_shape_def)
      then have "(y + hi) * disbufw e' + (x + wi) < int (length (dis_buf e'))" if "x + wi < disbufw e'"
      proof -
        have "(y + hi) * disbufw e' \<le> disbufh e' * disbufw e'"
          using False w' \<open>disbufh e' = disbufh e\<close> by (intro mult_right_mono) (auto simp: wf_dis_def)
        moreover have "int (length (dis_buf e')) = disbufh e' * disbufw e' + 16 * disbufw e'" "0 < disbufw e'"
          using w' by (simp_all add: wf_dis_def mult.commute)
        ultimately show ?thesis using that by linarith
      qed
      moreover have "0 \<le> (y + hi) * disbufw e' + (x + wi)" using False w' assms(2) wi by (simp add: wf_dis_def)
      ultimately show ?thesis using m dis.same_refl
        by (auto simp: plot_def put_cell_Some same_shape_def intro: exI [of _ "dis_buf e'"])
    qed
    then have "\<exists>g. for_loop 0 w (\<lambda>wi d.
         case aget lib (off + hi * ((w + 7) sdiv 8) + wi div 8) of None \<Rightarrow> None
         | Some m \<Rightarrow>
             if drop_bit (nat (7 - wi mod 8)) m AND 1 \<noteq> 0 \<and> x + wi < disbufw d
             then plot (\<lambda>_. fg) (x + wi, y + hi) d else Some d) e = Some g \<and> same_shape e g"
      by (intro for_loop_same_shape)
    then show ?thesis using False by (simp add: Let_def)
  qed
qed

text \<open>Strings of one-byte characters and two-byte characters of the table, and what they advance.\<close>

fun gb_chars :: "u8 list \<Rightarrow> bool" where
  "gb_chars [] = True"
| "gb_chars [c] = (c \<noteq> 0 \<and> c < 0xa1)"
| "gb_chars (c # c2 # cs) =
     (c \<noteq> 0 \<and> (if c \<ge> 0xa1 then c \<le> 0xfe \<and> 0xa1 \<le> c2 \<and> c2 \<le> 0xfe \<and> gb_chars cs else gb_chars (c2 # cs)))"

fun text_width :: "int \<Rightarrow> int \<Rightarrow> u8 list \<Rightarrow> int" where
  "text_width cf spc [] = 0"
| "text_width cf spc [c] = 7 + spc"
| "text_width cf spc (c # c2 # cs) =
     (if c \<ge> 0xa1 then (if cf = 16 then 16 else if cf = 14 then 14 else 12) + spc + text_width cf spc cs
      else 7 + spc + text_width cf spc (c2 # cs))"

definition lib_ok :: "u8 list option \<Rightarrow> nat \<Rightarrow> bool" where
  "lib_ok lib n = (case lib of None \<Rightarrow> True | Some p \<Rightarrow> n \<le> length p)"

definition fonts_ok :: "disbuf \<Rightarrow> bool" where
  "fonts_ok d \<longleftrightarrow> lib_ok (ascfont_8x16 d) (161 * 16) \<and> lib_ok (ascfont_8x12 d) (161 * 12) \<and>
     lib_ok (ascfont_8x10 d) (161 * 10) \<and> lib_ok (hzfont_16x16 d) (94 * 94 * 32) \<and>
     lib_ok (hzfont_14x14 d) (94 * 94 * 28) \<and> lib_ok (hzfont_12x12 d) (94 * 94 * 24)"

lemma same_shape_fonts: "same_shape d e \<Longrightarrow> fonts_ok e = fonts_ok d \<and> chinese_font e = chinese_font d \<and> ascii_font e = ascii_font d"
  by (auto simp: same_shape_def fonts_ok_def)

lemma put_ascii_safe:
  assumes "wf_dis d" "fonts_ok d" "0 \<le> x" "c < 0xa1"
  shows "\<exists>e. put_ascii c x y fg d = Some (e, 7) \<and> same_shape d e"
proof -
  have c: "0 \<le> uint c" "uint c \<le> 160" using assms(4) by (simp_all add: word_less_def)
  have "\<exists>e. (case lib of None \<Rightarrow> Some d | Some p \<Rightarrow> drawchar p (uint c * b + k) 8 h x y' fg d) = Some e \<and> same_shape d e"
    if "lib_ok lib (161 * nat b)" "0 \<le> b" "h + k \<le> b" "0 \<le> k" for lib b k h y'
  proof (cases lib)
    case (Some p)
    have "uint c * b \<le> 160 * b" using c that(2) by (intro mult_right_mono) auto
    moreover have "161 * b \<le> int (length p)" using that(1,2) Some by (simp add: lib_ok_def)
    moreover have "0 \<le> uint c * b" using c that(2) by simp
    ultimately show ?thesis using Some assms(1,3) that by (auto intro!: drawchar_safe)
  qed (simp add: dis.same_refl)
  from this [of "ascfont_8x16 d" 16 16 0 "y - 16"] this [of "ascfont_8x12 d" 12 12 0 "y - 10"] this [of "ascfont_8x10 d" 10 8 1 "y - 8"]
  show ?thesis using assms(2)
    by (auto simp: put_ascii_def ascii_char_8x16_def ascii_char_8x12_def ascii_char_8x10_def fonts_ok_def)
qed

lemma put_chinese_safe:
  assumes "wf_dis d" "fonts_ok d" "0 \<le> x" "0xa1 \<le> c" "c \<le> 0xfe" "0xa1 \<le> c2" "c2 \<le> 0xfe"
  shows "\<exists>e. put_chinese c c2 x y fg d = Some (e, if chinese_font d = 16 then 16 else if chinese_font d = 14 then 14 else 12) \<and> same_shape d e"
proof -
  have c: "161 \<le> uint c" "uint c \<le> 254" "161 \<le> uint c2" "uint c2 \<le> 254" using assms(4-7) by (simp_all add: word_le_def)
  have "\<exists>e. (case lib of None \<Rightarrow> Some d | Some p \<Rightarrow> drawchar p (gb_index b c c2) w h x y' fg d) = Some e \<and> same_shape d e"
    if "lib_ok lib (94 * 94 * nat b)" "0 \<le> b" "0 \<le> w" "h * ((w + 7) div 8) = b" for lib b w h y'
  proof (cases lib)
    case (Some p)
    have "((uint c - 161) * 94 + (uint c2 - 161)) * b \<le> (94 * 94 - 1) * b" using c that(2) by (intro mult_right_mono) auto
    moreover have "94 * 94 * b \<le> int (length p)" using that(1,2) Some by (simp add: lib_ok_def)
    moreover have "0 \<le> ((uint c - 161) * 94 + (uint c2 - 161)) * b" using c that(2) by simp
    ultimately show ?thesis using Some assms(1,3) that by (auto simp: gb_index_def intro!: drawchar_safe)
  qed (simp add: dis.same_refl)
  from this [of "hzfont_16x16 d" 32 16 16 "y - 16"] this [of "hzfont_14x14 d" 28 14 14 "y - 14"] this [of "hzfont_12x12 d" 24 12 12 "y + 1 - 12"]
  show ?thesis using assms(2)
    by (auto simp: put_chinese_def chinese_char_16x16_def chinese_char_14x14_def chinese_char_12x12_def fonts_ok_def)
qed

lemma puts_from_chars:
  assumes "- 7 \<le> spc"
  shows "gb_chars s \<Longrightarrow> wf_dis d \<Longrightarrow> fonts_ok d \<Longrightarrow> 0 \<le> x \<Longrightarrow>
    \<exists>e. puts_from (pre @ s @ 0 # tail) (int (length pre)) x y fg spc d =
      Some (e, x + text_width (chinese_font d) spc s) \<and> same_shape d e"
proof (induction s arbitrary: pre x d rule: gb_chars.induct)
  case 1
  then show ?case by (subst puts_from.simps) (simp add: aget_def dis.same_refl)
next
  case (2 c)
  obtain e where e: "put_ascii c x y fg d = Some (e, 7)" "same_shape d e"
    using put_ascii_safe [of d x c y fg] 2 by auto
  have "puts_from (pre @ [c] @ 0 # tail) (int (length pre) + 1) (x + 7 + spc) y fg spc e = Some (e, x + 7 + spc)"
    by (subst puts_from.simps) (simp add: aget_def nth_append nat_add_distrib)
  then show ?case using 2 e
    by (subst puts_from.simps) (auto simp: aget_def nth_append not_le)
next
  case (3 c c2 cs)
  show ?case
  proof (cases "c \<ge> 0xa1")
    case True
    then have g: "c \<le> 0xfe" "0xa1 \<le> c2" "c2 \<le> 0xfe" "gb_chars cs" using 3(3) by auto
    let ?a = "if chinese_font d = 16 then 16 else if chinese_font d = 14 then 14 else 12 :: int"
    obtain e where e: "put_chinese c c2 x y fg d = Some (e, ?a)" "same_shape d e"
      using put_chinese_safe [OF 3(4,5,6) True g(1-3), of y fg] by blast
    have "0 \<le> x + ?a + spc" using 3(6) assms by auto
    then obtain e' where e': "puts_from ((pre @ [c, c2]) @ cs @ 0 # tail) (int (length (pre @ [c, c2]))) (x + ?a + spc) y fg spc e =
        Some (e', x + ?a + spc + text_width (chinese_font e) spc cs)" "same_shape e e'"
      using 3(1) [OF True g(4) dis.same_ok [OF e(2) 3(4)], of "x + ?a + spc" "pre @ [c, c2]"]
        same_shape_fonts [OF e(2)] 3(3,5) by auto
    have "aget (pre @ (c # c2 # cs) @ 0 # tail) (int (length pre)) = Some c"
      "aget (pre @ (c # c2 # cs) @ 0 # tail) (int (length pre) + 1) = Some c2"
      by (simp_all add: aget_def nth_append nat_add_distrib)
    then show ?thesis using e e' True same_shape_fonts [OF e(2)] dis.same_trans [OF e(2) e'(2)] 3(3)
      by (subst puts_from.simps) (auto simp: add_ac)
  next
    case False
    obtain e where e: "put_ascii c x y fg d = Some (e, 7)" "same_shape d e"
      using put_ascii_safe [OF 3(4,5,6), of c y fg] False by (auto simp: not_le)
    obtain e' where e': "puts_from ((pre @ [c]) @ (c2 # cs) @ 0 # tail) (int (length (pre @ [c]))) (x + 7 + spc) y fg spc e =
        Some (e', x + 7 + spc + text_width (chinese_font e) spc (c2 # cs))" "same_shape e e'"
      using 3(2) [OF False _ dis.same_ok [OF e(2) 3(4)], of "x + 7 + spc" "pre @ [c]"]
        same_shape_fonts [OF e(2)] 3(3,5,6) assms False by auto
    have "aget (pre @ (c # c2 # cs) @ 0 # tail) (int (length pre)) = Some c"
      by (simp add: aget_def nth_append)
    then show ?thesis using e e' False same_shape_fonts [OF e(2)] dis.same_trans [OF e(2) e'(2)] 3(3)
      by (subst puts_from.simps) (auto simp: add_ac)
  qed
qed



lemma puts_from_lone:
  assumes "c \<ge> 0xa1"
  shows "gb_chars s \<Longrightarrow> puts_from (pre @ s @ [c, 0]) (int (length pre)) x y fg spc d = None"
proof (induction s arbitrary: pre x d rule: gb_chars.induct)
  case 1
  have "c \<noteq> 0" using assms by auto
  moreover have "puts_from (pre @ [c, 0]) (int (length pre) + 2) x' y fg spc e = None" for x' e
    by (subst puts_from.simps) (simp add: aget_def)
  ultimately show ?case using assms
    by (subst puts_from.simps) (auto simp: aget_def nth_append nat_add_distrib split: option.splits)
next
  case (2 c1)
  have "c \<noteq> 0" using assms by auto
  have "puts_from (pre @ [c1, c, 0]) (3 + int (length pre)) x' y fg spc e = None" for x' e
    by (subst puts_from.simps) (simp add: aget_def)
  then have "puts_from (pre @ [c1, c, 0]) (int (length pre) + 1) x' y fg spc e = None" for x' e
    using assms \<open>c \<noteq> 0\<close>
    by (subst puts_from.simps) (auto simp: aget_def nth_append nat_add_distrib split: option.splits)
  then show ?case using 2
    by (subst puts_from.simps) (auto simp: aget_def nth_append not_le split: option.splits)
next
  case (3 c1 c2 cs)
  have g: "aget (pre @ (c1 # c2 # cs) @ [c, 0]) (int (length pre)) = Some c1"
      "aget (pre @ (c1 # c2 # cs) @ [c, 0]) (int (length pre) + 1) = Some c2"
    by (simp_all add: aget_def nth_append nat_add_distrib)
  show ?case
  proof (cases "c1 \<ge> 0xa1")
    case True
    then have "puts_from ((pre @ [c1, c2]) @ cs @ [c, 0]) (int (length (pre @ [c1, c2]))) x' y fg spc e = None" for x' e
      using 3(1) [OF True, of "pre @ [c1, c2]"] 3(3) True by auto
    then show ?thesis using g True 3(3) by (subst puts_from.simps) (auto simp: add_ac split: option.splits)
  next
    case False
    then have "puts_from ((pre @ [c1]) @ (c2 # cs) @ [c, 0]) (int (length (pre @ [c1]))) x' y fg spc e = None" for x' e
      using 3(2) [OF False, of "pre @ [c1]"] 3(3) False by auto
    then show ?thesis using g False 3(3) by (subst puts_from.simps) (auto simp: add_ac split: option.splits)
  qed
qed

text \<open>
  A string cut in the middle of a two-byte character makes \<open>puts\<close> step over the terminator: the
  lone byte takes it as its second half, and whatever the fonts, the next read is behind the array.
\<close>

lemma puts_runs_past_end:
  assumes "gb_chars s" "c \<ge> 0xa1"
  shows "puts (s @ [c, 0]) x y fg spc d = None"
  using puts_from_lone [OF assms(2,1), where pre = "[]"] by (simp add: puts_def)

lemma puts_runs_past_end_example: "puts ([0x31, 0xb5, 0xe7] @ [0xb1, 0]) 0 16 7 0 small_dis = None"
  by (rule puts_runs_past_end) simp_all

end
