(* ===== verification/Vga.thy ===== *)
theory Vga
  imports Display
begin

text \<open>
  The frame buffer (\<open>gui/src/GUI/display/vga.c\<close>) and the colour table (\<open>vga_color.cpp\<close>).  The
  mapped memory is a byte list; what the kernel reports about the screen is an argument.  The
  toolchains of the repository differ in the sign of a plain \<open>char\<close> (ARM: unsigned, x86: signed),
  which the mask of \<open>vga_bit_memcpy\<close> depends on; \<open>sc\<close> says whether it is signed.
\<close>

section \<open>The frame buffer\<close>

record fix_screeninfo =
  smem_len :: nat
  line_length :: int

record var_screeninfo =
  xres :: int
  yres :: int
  bits_per_pixel :: int

record vga =
  map_len :: nat
  fb_mem :: "u8 list"
  fb_mem_sz :: int
  line_len_b :: int
  line_len_p :: int
  vga_bits :: int
  vga_bytes :: int

definition vga_clear :: "vga \<Rightarrow> vga option" where
  "vga_clear v =
     (if 0 \<le> fb_mem_sz v \<and> nat (fb_mem_sz v) \<le> length (fb_mem v)
      then Some (v\<lparr>fb_mem := replicate (nat (fb_mem_sz v)) 0 @ drop (nat (fb_mem_sz v)) (fb_mem v)\<rparr>)
      else None)"

text \<open>
  \<open>vga_init\<close>: \<open>fd\<close> is the result of \<open>open\<close>; \<open>finfo\<close>, \<open>vinfo\<close> and \<open>mapped\<close> are None when the call fails
  (which they do for the invalid descriptor -1).  The result has the return value and, on success,
  width, height and bits per pixel.  None is a failed access of memory.
\<close>

definition vga_init ::
  "int \<Rightarrow> fix_screeninfo option \<Rightarrow> var_screeninfo option \<Rightarrow> u8 list option \<Rightarrow> vga \<Rightarrow>
   (vga \<times> int \<times> (int \<times> int \<times> int) option) option" where
  "vga_init fd finfo vinfo mapped v =
     (if fd = 0 then Some (v, - 1, None)
      else case finfo of None \<Rightarrow> Some (v, - 1, None)
      | Some fi \<Rightarrow>
          (case vinfo of None \<Rightarrow> Some (v, - 1, None)
           | Some vi \<Rightarrow>
               let v = v\<lparr>line_len_b := line_length fi, line_len_p := xres vi, vga_bits := bits_per_pixel vi,
                         vga_bytes := (bits_per_pixel vi - 1) sdiv 8 + 1\<rparr>
               in if vga_bits v < 8 \<and> 8 smod vga_bits v \<noteq> 0 then Some (v, - 1, None)
                  else
                    let v = v\<lparr>fb_mem_sz := (if vga_bits v < 8 then (line_length fi * yres vi * 8) sdiv vga_bits v
                                            else xres vi * yres vi * vga_bytes v),
                              map_len := smem_len fi\<rparr>
                    in case mapped of None \<Rightarrow> Some (v, - 1, None)
                       | Some mem \<Rightarrow>
                           (case vga_clear (v\<lparr>fb_mem := mem\<rparr>) of None \<Rightarrow> None
                            | Some v \<Rightarrow> Some (v, 0, Some (xres vi, yres vi, vga_bits v)))))"

section \<open>Packed pixels\<close>

text \<open>The masks: \<open>rmask\<close> of a pixel at the right end, \<open>lumask >> k\<close> converted back to a byte.\<close>

definition rmask :: "int \<Rightarrow> u8" where
  "rmask bits = (if bits = 1 then 0x01 else if bits = 2 then 0x03 else 0x0f)"

definition lumask :: "int \<Rightarrow> u8" where
  "lumask bits = (if bits = 1 then 0x80 else if bits = 2 then 0xc0 else 0xf0)"

definition lumask_at :: "bool \<Rightarrow> int \<Rightarrow> int \<Rightarrow> u8" where
  "lumask_at sc bits k = (if sc then signed_drop_bit (nat k) (lumask bits) else drop_bit (nat k) (lumask bits))"

text \<open>
  \<open>src\<close> reads the source bytes from \<open>pfrom\<close> on.  \<open>to\<close> is the place of the first byte in the
  frame buffer.  The three loops: pixels of the first byte, whole bytes, pixels of the last byte.
\<close>

definition put_bits :: "bool \<Rightarrow> int \<Rightarrow> int \<Rightarrow> u8 \<Rightarrow> u8 \<Rightarrow> u8" where
  "put_bits sc bits k chj chi =
     (chi AND NOT (lumask_at sc bits k)) OR push_bit (nat (8 - k - bits)) (chj AND rmask bits)"

definition first_byte :: "bool \<Rightarrow> int \<Rightarrow> (int \<Rightarrow> u8 option) \<Rightarrow> int \<Rightarrow> int \<Rightarrow> int \<Rightarrow> u8 \<Rightarrow> u8 option" where
  "first_byte sc bits src from_tp bx b_num =
     for_loop 0 b_num (\<lambda>i chi. map_option (\<lambda>c. put_bits sc bits ((bx + i) * bits) c chi) (src (i * from_tp)))"

definition whole_byte :: "int \<Rightarrow> (int \<Rightarrow> u8 option) \<Rightarrow> int \<Rightarrow> int \<Rightarrow> int \<Rightarrow> u8 option" where
  "whole_byte bits src from_tp k ppb =
     for_loop 0 ppb (\<lambda>j chi. map_option (\<lambda>c. chi OR push_bit (nat (8 - (j + 1) * bits)) (c AND rmask bits))
       (src (j * from_tp + k))) 0"

definition last_byte :: "bool \<Rightarrow> int \<Rightarrow> (int \<Rightarrow> u8 option) \<Rightarrow> int \<Rightarrow> int \<Rightarrow> int \<Rightarrow> u8 \<Rightarrow> u8 option" where
  "last_byte sc bits src from_tp done e_num =
     for_loop 0 e_num (\<lambda>i chi. map_option (\<lambda>c. put_bits sc bits (i * bits) c chi) (src ((i + done) * from_tp)))"

definition vga_bit_memcpy ::
  "bool \<Rightarrow> int \<Rightarrow> int \<Rightarrow> int \<Rightarrow> (int \<Rightarrow> u8 option) \<Rightarrow> int \<Rightarrow> int \<Rightarrow> u8 list \<Rightarrow> u8 list option" where
  "vga_bit_memcpy sc bits to bx src from_tp num fb =
     (let ppb = 8 sdiv bits;
          b0 = (ppb - bx) smod ppb;
          (b_num, m_num, e_num) =
            (if b0 < num then (b0, (num - b0) sdiv ppb, (num - b0) smod ppb) else (num, 0, 0))
      in do {
        (fb, place) \<leftarrow>
          (if b_num > 0 then
             do { chi \<leftarrow> aget fb to;
                  chi \<leftarrow> first_byte sc bits src from_tp bx b_num chi;
                  fb \<leftarrow> aset fb to chi;
                  Some (fb, 1) }
           else Some (fb, 0));
        (fb, place) \<leftarrow>
          for_loop 0 m_num (\<lambda>i (fb, place).
            do { chi \<leftarrow> whole_byte bits src from_tp ((b_num + i * ppb) * from_tp) ppb;
                 fb \<leftarrow> aset fb (to + place) chi;
                 Some (fb, place + 1) }) (fb, place);
        (if e_num > 0 then
           do { chi \<leftarrow> aget fb (to + place);
                chi \<leftarrow> last_byte sc bits src from_tp (b_num + m_num * ppb) e_num chi;
                aset fb (to + place) chi }
         else Some fb) })"

definition vga_memcpy :: "int \<Rightarrow> int \<Rightarrow> (int \<Rightarrow> u8 option) \<Rightarrow> int \<Rightarrow> int \<Rightarrow> u8 list \<Rightarrow> u8 list option" where
  "vga_memcpy to to_tp src from_tp num fb =
     (let i = (if from_tp < to_tp then from_tp else to_tp) in
      do { fb \<leftarrow> blit fb to (replicate (nat (num * to_tp)) 0);
           for_loop 0 i (\<lambda>k. for_loop 0 num (\<lambda>j fb.
             do { c \<leftarrow> src (j * from_tp + k); aset fb (to + (j * to_tp + k)) c })) fb })"

text \<open>The bytes of the display buffer in memory.\<close>

definition cell_byte :: "u32 list \<Rightarrow> int \<Rightarrow> u8 option" where
  "cell_byte cells i =
     (case aget cells (i div 4) of None \<Rightarrow> None | Some c \<Rightarrow> Some (ucast (drop_bit (8 * nat (i mod 4)) c)))"

definition vga_update :: "bool \<Rightarrow> u32 list \<Rightarrow> int \<Rightarrow> int \<Rightarrow> int \<Rightarrow> int \<Rightarrow> vga \<Rightarrow> vga option" where
  "vga_update sc buf x1 y1 x2 y2 v =
     (let pbuf = (y1 * line_len_p v + x1) * 4 in
      map_option (\<lambda>(fb, pbuf). v\<lparr>fb_mem := fb\<rparr>)
       (for_loop y1 y2 (\<lambda>y (fb, pbuf).
          let row = (\<lambda>i. cell_byte buf (pbuf + i)) in
          map_option (\<lambda>fb. (fb, pbuf + line_len_p v * 4))
           (if vga_bits v < 8 then
              (let i = 8 sdiv vga_bits v
               in vga_bit_memcpy sc (vga_bits v) (y * line_len_b v + x1 sdiv i) (x1 smod i) row 4 (x2 - x1) fb)
            else if vga_bytes v = 4 then
              (case those (map row [0..(x2 - x1) * vga_bytes v - 1]) of None \<Rightarrow> None
               | Some bs \<Rightarrow> blit fb (y * line_len_b v + x1 * vga_bytes v) bs)
            else vga_memcpy (y * line_len_b v + x1 * vga_bytes v) (vga_bytes v) row 4 (x2 - x1) fb))
        (fb_mem v, pbuf)))"

text \<open>\<open>DisplayBuf::refresh\<close>, of a rectangle and of everything.\<close>

definition refresh_rect :: "bool \<Rightarrow> int \<Rightarrow> int \<Rightarrow> int \<Rightarrow> int \<Rightarrow> disbuf \<Rightarrow> vga \<Rightarrow> vga option" where
  "refresh_rect sc x1 y1 x2 y2 d v = vga_update sc (dis_buf d) x1 y1 x2 y2 v"

definition refresh :: "bool \<Rightarrow> disbuf \<Rightarrow> vga \<Rightarrow> vga option" where
  "refresh sc d v = vga_update sc (dis_buf d) 0 0 (disbufw d) (disbufh d) v"

section \<open>Colours\<close>

text \<open>The table in the order of \<open>VGAColorType\<close>; the default colour is white.\<close>

datatype VGAColorType =
    kVGA_Black | kVGA_White | kVGA_Red | kVGA_HiRed | kVGA_Orange | kVGA_HiOrange
  | kVGA_Yellow | kVGA_HiYellow | kVGA_Green | kVGA_HiGreen | kVGA_Cyan | kVGA_HiCyan
  | kVGA_Blue | kVGA_HiBlue | kVGA_Purple | kVGA_HiPurple | kVGA_HiWhite | kVGA_Grey
  | kVGA_HiGrey | kVGA_LightYellow | kVGA_Blue1 | kVGA_Green1 | kVGA_Grey1
  | kVGA_BlackGrey | kVGA_Default

fun IniColorBit32 :: "VGAColorType \<Rightarrow> int" where
  "IniColorBit32 kVGA_Black = 0"
| "IniColorBit32 kVGA_White = 0xC0C0C0"
| "IniColorBit32 kVGA_Red = 0x800000"
| "IniColorBit32 kVGA_HiRed = 0xFF0000"
| "IniColorBit32 kVGA_Orange = 0xFFA000"
| "IniColorBit32 kVGA_HiOrange = 0xFFA000"
| "IniColorBit32 kVGA_Yellow = 0x808000"
| "IniColorBit32 kVGA_HiYellow = 0xE0C000"
| "IniColorBit32 kVGA_Green = 0x008000"
| "IniColorBit32 kVGA_HiGreen = 0x00F000"
| "IniColorBit32 kVGA_Cyan = 0x008080"
| "IniColorBit32 kVGA_HiCyan = 0x00FFFF"
| "IniColorBit32 kVGA_Blue = 0x000080"
| "IniColorBit32 kVGA_HiBlue = 0x0000FF"
| "IniColorBit32 kVGA_Purple = 0x800080"
| "IniColorBit32 kVGA_HiPurple = 0xFF00FF"
| "IniColorBit32 kVGA_HiWhite = 0xFAFAFA"
| "IniColorBit32 kVGA_Grey = 0x808080"
| "IniColorBit32 kVGA_HiGrey = 0x888888"
| "IniColorBit32 kVGA_LightYellow = 0xE2E2A7"
| "IniColorBit32 kVGA_Blue1 = 0x0070C0"
| "IniColorBit32 kVGA_Green1 = 0x006000"
| "IniColorBit32 kVGA_Grey1 = 0xA0A0A0"
| "IniColorBit32 kVGA_BlackGrey = 0x404040"
| "IniColorBit32 kVGA_Default = 0xC0C0C0"

definition color8 :: "int \<Rightarrow> int" where
  "color8 c =
     (let red = drop_bit 16 c * 0x7 sdiv 0xff;
          green = (drop_bit 8 c AND 0xff) * 0x7 sdiv 0xff;
          blue = (c AND 0xff) * 0x3 sdiv 0xff
      in push_bit 5 red OR push_bit 2 green OR blue)"

definition color16 :: "int \<Rightarrow> int" where
  "color16 c =
     (let red = drop_bit 16 c * 0x1f sdiv 0xff;
          green = (drop_bit 8 c AND 0xff) * 0x3f sdiv 0xff;
          blue = (c AND 0xff) * 0x1f sdiv 0xff
      in push_bit 11 red OR push_bit 5 green OR blue)"

text \<open>The loops start at 1: black stays as it is.\<close>

definition SetColorSys :: "int \<Rightarrow> (VGAColorType \<Rightarrow> int) \<Rightarrow> VGAColorType \<Rightarrow> int" where
  "SetColorSys bits color t =
     (if t = kVGA_Black then color t
      else if bits = 8 then color8 (color t)
      else if bits = 16 then color16 (color t)
      else color t)"

section \<open>The reference: one pixel at a time\<close>

definition slot_put :: "int \<Rightarrow> int \<Rightarrow> u8 \<Rightarrow> u8 \<Rightarrow> u8" where
  "slot_put bits s c b =
     (let sh = nat (8 - (s + 1) * bits)
      in (b AND NOT (push_bit sh (rmask bits))) OR push_bit sh (c AND rmask bits))"

definition pixel_step :: "int \<Rightarrow> int \<Rightarrow> int \<Rightarrow> (int \<Rightarrow> u8 option) \<Rightarrow> int \<Rightarrow> int \<Rightarrow> u8 list \<Rightarrow> u8 list option" where
  "pixel_step bits to bx src from_tp i fb =
     do { c \<leftarrow> src (i * from_tp);
          b \<leftarrow> aget fb (to + (bx + i) div (8 div bits));
          aset fb (to + (bx + i) div (8 div bits)) (slot_put bits ((bx + i) mod (8 div bits)) c b) }"

definition draw_packed ::
  "int \<Rightarrow> int \<Rightarrow> int \<Rightarrow> (int \<Rightarrow> u8 option) \<Rightarrow> int \<Rightarrow> int \<Rightarrow> u8 list \<Rightarrow> u8 list option" where
  "draw_packed bits to bx src from_tp num = for_loop 0 num (pixel_step bits to bx src from_tp)"

definition slot_step :: "int \<Rightarrow> int \<Rightarrow> (int \<Rightarrow> u8 option) \<Rightarrow> int \<Rightarrow> int \<Rightarrow> u8 \<Rightarrow> u8 option" where
  "slot_step bits bx src from_tp i b =
     map_option (\<lambda>c. slot_put bits ((bx + i) mod (8 div bits)) c b) (src (i * from_tp))"

lemma byte_run:
  "is \<noteq> [] \<Longrightarrow> \<forall>i \<in> set is. (bx + i) div (8 div bits) = q \<Longrightarrow>
   foldO (pixel_step bits to bx src tp) is fb =
     do { b \<leftarrow> aget fb (to + q); b \<leftarrow> foldO (slot_step bits bx src tp) is b; aset fb (to + q) b }"
proof (induction "is" arbitrary: fb)
  case (Cons i "is")
  have q: "(bx + i) div (8 div bits) = q" using Cons.prems(2) by simp
  show ?case
  proof (cases "src (i * tp)")
    case None
    then show ?thesis by (cases "aget fb (to + q)") (simp_all add: pixel_step_def slot_step_def)
  next
    case (Some c)
    show ?thesis
    proof (cases "aget fb (to + q)")
      case None
      then show ?thesis using q by (simp add: pixel_step_def)
    next
      case b: (Some b)
      let ?b = "slot_put bits ((bx + i) mod (8 div bits)) c b"
      have r: "0 \<le> to + q" "to + q < int (length fb)" using b by (auto simp: aget_def split: if_splits)
      then have a: "aset fb (to + q) ?b = Some (fb[nat (to + q) := ?b])" by (simp add: mem_simps)
      have st: "pixel_step bits to bx src tp i fb = Some (fb[nat (to + q) := ?b])"
        using Some b q a by (simp add: pixel_step_def)
      show ?thesis
      proof (cases "is = []")
        case True
        then show ?thesis using st Some b a by (simp add: slot_step_def)
      next
        case False
        have "aget (fb[nat (to + q) := ?b]) (to + q) = Some ?b"
          "\<And>x. aset (fb[nat (to + q) := ?b]) (to + q) x = aset fb (to + q) x"
          using r by (simp_all add: aget_def aset_def)
        then show ?thesis using Cons.IH [OF False, of "fb[nat (to + q) := ?b]"] Cons.prems(2) st Some b
          by (simp add: slot_step_def split: option.splits)
      qed
    qed
  qed
qed simp

lemma put_bits_slot:
  assumes "bits = 1 \<or> bits = 2 \<or> bits = 4" "0 \<le> s" "s < 8 div bits"
  shows "put_bits False bits (s * bits) c b = slot_put bits s c b"
proof -
  have "s \<in> {0, 1, 2, 3, 4, 5, 6, 7}" using assms by auto
  then have "lumask_at False bits (s * bits) = push_bit (nat (8 - (s + 1) * bits)) (rmask bits)"
    using assms by (auto simp: lumask_at_def lumask_def rmask_def)
  moreover have "8 - s * bits - bits = 8 - (s + 1) * bits" by (simp add: algebra_simps)
  ultimately show ?thesis by (simp only: put_bits_def slot_put_def Let_def)
qed

lemma slot_put_prefix:
  fixes chi b c :: u8
  assumes "\<forall>n < sh + k. \<not> bit chi n"
  shows "((chi OR (b AND mask (sh + k))) AND NOT (push_bit sh (mask k))) OR push_bit sh (c AND mask k) =
    (chi OR push_bit sh (c AND mask k)) OR (b AND mask sh)"
proof (rule bit_word_eqI)
  fix n
  assume "n < LENGTH(8)"
  consider "n < sh" | "sh \<le> n" "n < sh + k" | "sh + k \<le> n" by linarith
  then show "bit (((chi OR (b AND mask (sh + k))) AND NOT (push_bit sh (mask k))) OR push_bit sh (c AND mask k)) n =
      bit ((chi OR push_bit sh (c AND mask k)) OR (b AND mask sh)) n"
    using \<open>n < LENGTH(8)\<close> assms by cases (auto simp: bit_simps)
qed

lemma rmask_mask: "bits = 1 \<or> bits = 2 \<or> bits = 4 \<Longrightarrow> rmask bits = mask (nat bits)"
  by (auto simp: rmask_def mask_eq_exp_minus_1)

lemma slots_prefix:
  assumes bits: "bits = 1 \<or> bits = 2 \<or> bits = 4"
  defines "g \<equiv> \<lambda>f j chi. map_option (\<lambda>c. chi OR push_bit (nat (8 - (j + 1) * bits)) (c AND rmask bits)) (f j)"
  shows "int j * bits \<le> 8 \<Longrightarrow>
    foldO (\<lambda>j b. map_option (\<lambda>c. slot_put bits j c b) (f j)) [0..int j - 1] b =
      map_option (\<lambda>chi. chi OR (b AND mask (nat (8 - int j * bits)))) (foldO (g f) [0..int j - 1] 0) \<and>
    (\<forall>chi. foldO (g f) [0..int j - 1] 0 = Some chi \<longrightarrow> (\<forall>n < nat (8 - int j * bits). \<not> bit chi n))"
proof (induction j)
  case 0
  have "b AND mask 8 = b" by (intro bit_word_eqI) (auto simp: bit_simps)
  then show ?case by simp
next
  case (Suc j)
  let ?sh = "nat (8 - (int j + 1) * bits)"
  have le: "int j * bits \<le> 8" using Suc.prems bits by auto
  have sh: "nat (8 - int j * bits) = ?sh + nat bits" using Suc.prems bits by (auto simp: nat_add_distrib [symmetric] algebra_simps)
  have up: "[0..int j] = [0..int j - 1] @ [int j]" by (simp add: upto_rec2)
  show ?case
  proof (cases "foldO (g f) [0..int j - 1] 0")
    case None
    then show ?thesis using Suc.IH [OF le] by (simp add: up foldO_append)
  next
    case (Some chi)
    have z: "\<forall>n < ?sh + nat bits. \<not> bit chi n" using Suc.IH [OF le] Some sh by auto
    show ?thesis
    proof (cases "f (int j)")
      case None
      then show ?thesis using Suc.IH [OF le] Some by (simp add: up foldO_append g_def)
    next
      case c: (Some c)
      have "\<not> bit (chi OR push_bit ?sh (c AND mask (nat bits))) n" if "n < ?sh" for n
        using z that by (auto simp: bit_simps)
      then show ?thesis using Suc.IH [OF le] Some c slot_put_prefix [OF z, of b c] sh
        by (simp add: up foldO_append g_def slot_put_def rmask_mask [OF bits] Let_def add.commute)
    qed
  qed
qed

lemma slots_overwrite:
  assumes "bits = 1 \<or> bits = 2 \<or> bits = 4"
  shows "foldO (\<lambda>j b. map_option (\<lambda>c. slot_put bits j c b) (f j)) [0..8 div bits - 1] b =
    for_loop 0 (8 div bits) (\<lambda>j chi. map_option (\<lambda>c. chi OR push_bit (nat (8 - (j + 1) * bits)) (c AND rmask bits)) (f j)) 0"
  using slots_prefix [OF assms, of "nat (8 div bits)" f b] assms
  by (auto simp: for_loop_def option.map_ident)

lemma upto_shift: "[k..k + n - 1] = map (\<lambda>j. j + k) [0..(n :: int) - 1]"
proof (cases "0 \<le> n")
  case True
  then obtain m where n: "n = int m" using nonneg_int_cases by blast
  have "[k..k + int m - 1] = map (\<lambda>j. j + k) [0..int m - 1]" for m
    by (induction m) (simp_all add: upto_rec2 add.commute)
  then show ?thesis using n by simp
qed simp

lemma whole_byte_slots:
  assumes "bits = 1 \<or> bits = 2 \<or> bits = 4" "(bx + k) mod (8 div bits) = 0"
  shows "foldO (slot_step bits bx src tp) [k..k + 8 div bits - 1] b = whole_byte bits src tp (k * tp) (8 div bits)"
proof -
  have "(bx + (j + k)) mod (8 div bits) = j" if "0 \<le> j" "j < 8 div bits" for j
  proof -
    have "(bx + (j + k)) mod (8 div bits) = (j + (bx + k) mod (8 div bits)) mod (8 div bits)"
      by (simp add: mod_add_right_eq add.left_commute)
    then show ?thesis using that assms(2) by simp
  qed
  then have "foldO (slot_step bits bx src tp) [k..k + 8 div bits - 1] b =
      foldO (\<lambda>j b. map_option (\<lambda>c. slot_put bits j c b) (src (j * tp + k * tp))) [0..8 div bits - 1] b"
    unfolding upto_shift foldO_map by (intro foldO_cong) (simp add: slot_step_def distrib_right)
  then show ?thesis using slots_overwrite [OF assms(1), of "\<lambda>j. src (j * tp + k * tp)" b]
    by (simp add: whole_byte_def)
qed

lemma edge_slots:
  assumes "bits = 1 \<or> bits = 2 \<or> bits = 4" "\<And>i. 0 \<le> i \<Longrightarrow> i < n \<Longrightarrow> (bx + (i + k)) mod (8 div bits) = s + i"
    "0 \<le> s" "s + n \<le> 8 div bits"
  shows "foldO (slot_step bits bx src tp) [k..k + n - 1] b =
    for_loop 0 n (\<lambda>i chi. map_option (\<lambda>c. put_bits False bits ((s + i) * bits) c chi) (src ((i + k) * tp))) b"
  unfolding for_loop_def upto_shift [of k] foldO_map
  using assms put_bits_slot [OF assms(1)] by (intro foldO_cong) (simp add: slot_step_def)

text \<open>The whole bytes of the code are a run of the reference.\<close>

lemma whole_bytes:
  assumes "bits = 1 \<or> bits = 2 \<or> bits = 4" "bx + k = q * (8 div bits)"
  shows "for_loop 0 (int m) (\<lambda>i (fb, place).
            do { chi \<leftarrow> whole_byte bits src tp ((k + i * (8 div bits)) * tp) (8 div bits);
                 fb \<leftarrow> aset fb (to + place) chi;
                 Some (fb, place + 1) }) (fb, q) =
    map_option (\<lambda>fb. (fb, q + int m)) (foldO (pixel_step bits to bx src tp) [k..k + int m * (8 div bits) - 1] fb)"
proof (induction m)
  case (Suc m)
  let ?P = "8 div bits" and ?k = "k + int m * (8 div bits)"
  have P: "0 < ?P" using assms(1) by auto
  have up: "[k..k + int (Suc m) * ?P - 1] = [k..?k - 1] @ [?k..?k + ?P - 1]"
    using P upto_split1 [of k "?k" "?k + ?P - 1"] by (simp add: distrib_right add.assoc add.commute [of ?P])
  have q: "bx + ?k = (q + int m) * ?P" using assms(2) by (simp add: distrib_right)
  have m0: "(bx + ?k) mod ?P = 0" unfolding q by simp
  have dv: "(bx + i) div ?P = q + int m" if "i \<in> set [?k..?k + ?P - 1]" for i
  proof -
    have "bx + i = (i - ?k) + (q + int m) * ?P" using q by simp
    then have "(bx + i) div ?P = q + int m + (i - ?k) div ?P" using P by (metis div_mult_self1 less_irrefl)
    moreover have "(i - ?k) div ?P = 0" using that by (intro div_pos_pos_trivial) auto
    ultimately show ?thesis by simp
  qed
  have "foldO (pixel_step bits to bx src tp) [?k..?k + ?P - 1] fb =
      do { chi \<leftarrow> whole_byte bits src tp (?k * tp) ?P; aset fb (to + (q + int m)) chi }" for fb
  proof -
    have "[?k..?k + ?P - 1] \<noteq> []" using P by simp
    from byte_run [OF this, of bx bits "q + int m" to src tp fb] dv
    show ?thesis unfolding whole_byte_slots [OF assms(1) m0]
      by (cases "whole_byte bits src tp (?k * tp) ?P") (auto simp: aget_def aset_def)
  qed
  then have st: "foldO (pixel_step bits to bx src tp) [k..k + int (Suc m) * ?P - 1] fb =
      (case foldO (pixel_step bits to bx src tp) [k..?k - 1] fb of None \<Rightarrow> None
       | Some fb \<Rightarrow> do { chi \<leftarrow> whole_byte bits src tp (?k * tp) ?P; aset fb (to + (q + int m)) chi })"
    unfolding up foldO_append by (simp split: option.splits)
  have up2: "[0..int m] = [0..int m - 1] @ [int m]" by (simp add: upto_rec2)
  show ?case unfolding st using Suc.IH
    by (simp add: for_loop_def up2 foldO_append add.assoc split: option.splits bind_splits)
qed (simp add: for_loop_def)

text \<open>
  C33. Where plain characters are unsigned (the ARM target), packing a row into a frame buffer of 1, 2
  or 4 bits per pixel by partial, whole and partial bytes is the same as putting its pixels one by
  one into their places, for every start in a byte and every length; both fail on the same inputs.
\<close>

theorem bit_memcpy_is_pixelwise:
  assumes bits: "bits = 1 \<or> bits = 2 \<or> bits = 4" and bx: "0 \<le> bx" "bx < 8 div bits" and num: "0 \<le> num"
  shows "vga_bit_memcpy False bits to bx src tp num fb = draw_packed bits to bx src tp num fb"
proof -
  let ?P = "8 div bits" and ?step = "pixel_step bits to bx src tp"
  have P: "0 < ?P" "8 sdiv bits = ?P" using bits by (auto simp: sdiv_nonneg)
  define b0 where "b0 = (if bx = 0 then 0 else ?P - bx)"
  have "(?P - bx) mod ?P = b0"
  proof (cases "bx = 0")
    case False
    then show ?thesis using bx by (simp only: b0_def if_False) (rule mod_pos_pos_trivial; simp)
  qed (simp add: b0_def)
  then have b0: "(8 sdiv bits - bx) smod (8 sdiv bits) = b0" "0 \<le> b0" "bx + b0 = (if b0 = 0 then 0 else 1) * ?P"
    using bx P(1) unfolding P(2) by (auto simp: b0_def smod_nonneg)
  define b where "b = (if b0 < num then b0 else num)"
  define m where "m = (if b0 < num then (num - b0) div ?P else 0)"
  define e where "e = (if b0 < num then (num - b0) mod ?P else 0)"
  have parts: "(if b0 < num then (b0, (num - b0) sdiv ?P, (num - b0) smod ?P) else (num, 0, 0)) = (b, m, e)"
    using P by (auto simp: b_def m_def e_def sdiv_nonneg smod_nonneg)
  have bme: "0 \<le> b" "0 \<le> m" "0 \<le> e" "e < ?P" "num = b + m * ?P + e"
    using P num b0(2) div_mult_mod_eq [of "num - b0" ?P] by (auto simp: b_def m_def e_def pos_imp_zdiv_nonneg_iff)
  define q0 :: int where "q0 = (if b > 0 then 1 else 0)"
  have first: "(if b > 0 then
             do { chi \<leftarrow> aget fb to;
                  chi \<leftarrow> first_byte False bits src tp bx b chi;
                  fb \<leftarrow> aset fb to chi;
                  Some (fb, 1) }
           else Some (fb, 0)) = map_option (\<lambda>fb. (fb, q0)) (foldO ?step [0..b - 1] fb)"
  proof (cases "b > 0")
    case True
    have lt: "bx + i < ?P" if "i < b" for i
      using that bx by (auto simp: b_def b0_def split: if_splits)
    have "foldO ?step [0..b - 1] fb =
        do { c \<leftarrow> aget fb (to + 0); c \<leftarrow> foldO (slot_step bits bx src tp) [0..b - 1] c; aset fb (to + 0) c }"
      using True lt bx by (intro byte_run) (auto intro: div_pos_pos_trivial)
    moreover have "foldO (slot_step bits bx src tp) [0..0 + b - 1] c = first_byte False bits src tp bx b c" for c
      using edge_slots [OF bits, of b bx 0 bx src tp c] lt bx True b0 P
      by (auto simp: first_byte_def b_def b0_def split: if_splits intro: mod_pos_pos_trivial)
    ultimately show ?thesis using True by (simp add: q0_def split: option.splits bind_splits)
  qed (simp add: q0_def)
  have middle: "for_loop 0 m (\<lambda>i (fb, place).
            do { chi \<leftarrow> whole_byte bits src tp ((b + i * ?P) * tp) ?P;
                 fb \<leftarrow> aset fb (to + place) chi;
                 Some (fb, place + 1) }) (fb, q0) =
      map_option (\<lambda>fb. (fb, q0 + m)) (foldO ?step [b..b + m * ?P - 1] fb)" for fb
  proof (cases "b0 < num")
    case True
    then have "bx + b = q0 * ?P" using b0 by (auto simp: b_def q0_def)
    then show ?thesis using whole_bytes [OF bits, where k = b and q = q0 and m = "nat m" and fb = fb and bx = bx and src = src and tp = tp and to = to] bme(2) by simp
  next
    case False
    then show ?thesis by (simp add: m_def for_loop_def)
  qed
  have last: "(if e > 0 then
           do { chi \<leftarrow> aget fb (to + (q0 + m));
                chi \<leftarrow> last_byte False bits src tp (b + m * ?P) e chi;
                aset fb (to + (q0 + m)) chi }
         else Some fb) = foldO ?step [b + m * ?P..num - 1] fb" for fb
  proof (cases "e > 0")
    case True
    then have "b0 < num" by (auto simp: e_def split: if_splits)
    then have bb: "bx + b = q0 * ?P" using b0 by (auto simp: b_def q0_def)
    have up: "[b + m * ?P..num - 1] = [b + m * ?P..b + m * ?P + e - 1]" using bme(5) by simp
    have i: "(bx + (i + (b + m * ?P))) mod ?P = 0 + i \<and> (bx + (i + (b + m * ?P))) div ?P = q0 + m"
      if "0 \<le> i" "i < e" for i
    proof -
      have "bx + (i + (b + m * ?P)) = i + (q0 + m) * ?P" using bb by (simp add: distrib_right)
      moreover have "i mod ?P = i" "i div ?P = 0" using that bme(4) by (auto intro: mod_pos_pos_trivial div_pos_pos_trivial)
      ultimately show ?thesis using P(1) by (metis add_0 add_0_right div_mult_self1 less_irrefl mod_mult_self1)
    qed
    have "foldO ?step [b + m * ?P..b + m * ?P + e - 1] fb =
        do { c \<leftarrow> aget fb (to + (q0 + m));
             c \<leftarrow> foldO (slot_step bits bx src tp) [b + m * ?P..b + m * ?P + e - 1] c; aset fb (to + (q0 + m)) c }"
    proof (rule byte_run)
      show "\<forall>j \<in> set [b + m * ?P..b + m * ?P + e - 1]. (bx + j) div ?P = q0 + m"
        using i [of "j - (b + m * ?P)" for j] by force
    qed (use True in simp)
    moreover have "foldO (slot_step bits bx src tp) [b + m * ?P..b + m * ?P + e - 1] c =
        last_byte False bits src tp (b + m * ?P) e c" for c
      using edge_slots [OF bits, of e bx "b + m * ?P" 0 src tp c] i bme(4) by (simp add: last_byte_def)
    ultimately show ?thesis unfolding up using True by simp
  next
    case False
    then show ?thesis using bme by simp
  qed
  have up: "[0..num - 1] = [0..b - 1] @ [b..b + m * ?P - 1] @ [b + m * ?P..num - 1]"
  proof -
    have "0 \<le> m * ?P" using bme(2) P by simp
    then have "[b..num - 1] = [b..b + m * ?P - 1] @ [b + m * ?P..num - 1]"
      using bme \<open>0 \<le> m * ?P\<close> by (intro upto_append) auto
    moreover have "[0..num - 1] = [0..b - 1] @ [b..num - 1]"
      using bme \<open>0 \<le> m * ?P\<close> by (intro upto_append) auto
    ultimately show ?thesis by simp
  qed
  show ?thesis
    unfolding vga_bit_memcpy_def Let_def P(2) b0(1) [unfolded P(2)] parts prod.case first draw_packed_def for_loop_def [of 0 num] up foldO_append
    by (simp add: middle last for_loop_def [symmetric] split: option.splits)
qed

theorem bit_memcpy_is_pixelwise_witness:
  "vga_bit_memcpy False 2 0 3 (\<lambda>i. Some (if i = 0 then 1 else 2)) 4 6 [0xff, 0xff] =
   draw_packed 2 0 3 (\<lambda>i. Some (if i = 0 then 1 else 2)) 4 6 [0xff, 0xff]"
  by (rule bit_memcpy_is_pixelwise) simp_all

text \<open>
  Where they are signed, the mask of a pixel covers everything to its left: drawing one black pixel
  at place 3 of a white byte blackens places 0 to 2 as well.
\<close>

lemma signed_char_clears_left:
  "vga_bit_memcpy True 1 0 3 (\<lambda>_. Some 0) 4 1 [0xff] = Some [0x0f]"
  "vga_bit_memcpy False 1 0 3 (\<lambda>_. Some 0) 4 1 [0xff] = Some [0xef]"
  by code_simp+

section \<open>Colours of 8 and 16 bits\<close>

lemma scaled_bound: "0 \<le> (n :: int) \<Longrightarrow> n \<le> 255 \<Longrightarrow> 0 \<le> m \<Longrightarrow> 0 \<le> n * m div 255 \<and> n * m div 255 \<le> m"
proof -
  assume a: "0 \<le> n" "n \<le> 255" "0 \<le> m"
  then have "n * m div 255 \<le> 255 * m div 255" by (intro zdiv_mono1 mult_right_mono) auto
  then show ?thesis using a by (simp add: pos_imp_zdiv_nonneg_iff)
qed

lemma pack_bounds:
  fixes x y z :: int
  shows "0 \<le> x \<Longrightarrow> x \<le> 7 \<Longrightarrow> 0 \<le> y \<Longrightarrow> y \<le> 7 \<Longrightarrow> 0 \<le> z \<Longrightarrow> z \<le> 3 \<Longrightarrow> 0 \<le> x * 32 + y * 4 + z \<and> x * 32 + y * 4 + z < 2 ^ 8"
    and "0 \<le> x \<Longrightarrow> x \<le> 31 \<Longrightarrow> 0 \<le> y \<Longrightarrow> y \<le> 63 \<Longrightarrow> 0 \<le> z \<Longrightarrow> z \<le> 31 \<Longrightarrow> 0 \<le> x * 2048 + y * 32 + z \<and> x * 2048 + y * 32 + z < 2 ^ 16"
  by simp_all

lemma byte_of: "drop_bit 16 c = c div 65536" "drop_bit 8 c = c div 256" "c AND 255 = c mod (256 :: int)"
  using and_mask_mod [of c 8] by (simp_all add: drop_bit_eq_div)

text \<open>
  In the 8-bit (3-3-2) and 16-bit (5-6-5) colour systems every table colour below 2 ^ 24 becomes
  the packed value of its three components, each scaled down to its field without spilling into
  the next one, so it fits the pixel; other depths keep the table, and black stays black.
\<close>

lemma colors_packed:
  assumes "0 \<le> color t" "color t < 2 ^ 24" "color kVGA_Black = 0"
  defines "r \<equiv> color t div 65536" and "g \<equiv> color t div 256 mod 256" and "b \<equiv> color t mod 256"
  shows "SetColorSys 8 color t = (r * 7 div 255) * 32 + (g * 7 div 255) * 4 + b * 3 div 255 \<and>
    0 \<le> SetColorSys 8 color t \<and> SetColorSys 8 color t < 2 ^ 8 \<and>
    SetColorSys 16 color t = (r * 31 div 255) * 2048 + (g * 63 div 255) * 32 + b * 31 div 255 \<and>
    0 \<le> SetColorSys 16 color t \<and> SetColorSys 16 color t < 2 ^ 16 \<and>
    (bits \<noteq> 8 \<and> bits \<noteq> 16 \<longrightarrow> SetColorSys bits color t = color t)"
proof -
  have r: "0 \<le> r" "r \<le> 255" and g: "0 \<le> g" "g \<le> 255" and b: "0 \<le> b" "b \<le> 255"
    using assms(1,2) by (auto simp: r_def g_def b_def pos_imp_zdiv_nonneg_iff)
  have s: "0 \<le> x * m div 255" "x * m div 255 \<le> m" if "x \<in> {r, g, b}" "0 \<le> m" for x m
    using scaled_bound [of x m] r g b that by auto
  have k: "x * m sdiv 255 = x * m div 255" if "x \<in> {r, g, b}" "0 \<le> m" for x m
    using r g b that by (intro sdiv_nonneg) auto
  have c8: "color8 (color t) = (r * 7 div 255) * 32 + (g * 7 div 255) * 4 + b * 3 div 255"
    using s(1) [of b 3] s(2) [of b 3] s(1) [of g 7] s(2) [of g 7]
      push_or [of "b * 3 div 255" 2 "g * 7 div 255"]
      push_or [of "g * 7 div 255 * 4 + b * 3 div 255" 5 "r * 7 div 255"]
    unfolding color8_def Let_def byte_of r_def [symmetric] g_def [symmetric] b_def [symmetric]
    by (simp add: k)
  have c16: "color16 (color t) = (r * 31 div 255) * 2048 + (g * 63 div 255) * 32 + b * 31 div 255"
    using s(1) [of b 31] s(2) [of b 31] s(1) [of g 63] s(2) [of g 63]
      push_or [of "b * 31 div 255" 5 "g * 63 div 255"]
      push_or [of "g * 63 div 255 * 32 + b * 31 div 255" 11 "r * 31 div 255"]
    unfolding color16_def Let_def byte_of r_def [symmetric] g_def [symmetric] b_def [symmetric]
    by (simp add: k)
  have z: "t = kVGA_Black \<Longrightarrow> r = 0 \<and> g = 0 \<and> b = 0" using assms(3) by (simp add: r_def g_def b_def)
  show ?thesis
  proof (cases "t = kVGA_Black")
    case True
    then show ?thesis using z assms(3) by (simp add: SetColorSys_def)
  next
    case False
    then have "SetColorSys 8 color t = color8 (color t)" "SetColorSys 16 color t = color16 (color t)"
      "bits \<noteq> 8 \<and> bits \<noteq> 16 \<longrightarrow> SetColorSys bits color t = color t"
      by (simp_all add: SetColorSys_def)
    moreover have "0 \<le> color8 (color t) \<and> color8 (color t) < 2 ^ 8" unfolding c8 by (rule pack_bounds(1)) (simp_all only: s insert_iff simp_thms zero_le_numeral)
    moreover have "0 \<le> color16 (color t) \<and> color16 (color t) < 2 ^ 16" unfolding c16 by (rule pack_bounds(2)) (simp_all only: s insert_iff simp_thms zero_le_numeral)
    ultimately show ?thesis using c8 c16 by (simp only: simp_thms)
  qed
qed

lemma colors_packed_example:
  "SetColorSys 8 IniColorBit32 kVGA_HiOrange = 240 \<and> SetColorSys 16 IniColorBit32 kVGA_HiOrange = 64736"
  using colors_packed [of IniColorBit32 kVGA_HiOrange 24] by simp

end
