(* ===== verification/Save_Sched.thy ===== *)
theory Save_Sched
  imports Clock
begin

text \<open>
  When records are saved (\<open>main/src/pqm_func/save_func.cpp\<close>): the time frames of the four record
  files and of the harmonics, the handler that runs every second and notifies the save thread, and
  the file of the power on and off times.  What the handler calls in other parts of the program is
  a list of actions.
\<close>

section \<open>State\<close>

datatype SaveFileType = kPstSave | kFreqSave | kUnblcSave | kVoltdvSave

record syspara =
  harm_rcd_space :: int
  freq_rcd_space :: int
  unbalance_rcd_space :: int
  voltdv_rcd_space :: int

record savefunc =
  last_time :: "SaveFileType \<Rightarrow> int"
  next_time :: "SaveFileType \<Rightarrow> int"
  adj_time :: "SaveFileType \<Rightarrow> bool"
  harm_last :: int
  harm_next :: int
  hrm_save_time :: int
  harm_save_delay :: int
  pst_save_delay :: int

datatype save_act = AggregateRcd SaveFileType int bool | InitRcd SaveFileType
  | AggregateHarm int | GetThd | InitAggregation | NoticeSave int

text \<open>The constructor; the adjustment flags and the time of the harmonics are indeterminate.\<close>

definition new_savefunc :: "(SaveFileType \<Rightarrow> bool) \<Rightarrow> int \<Rightarrow> savefunc" where
  "new_savefunc adj hst =
     \<lparr>last_time = (\<lambda>_. 0), next_time = (\<lambda>_. 0), adj_time = adj, harm_last = 0, harm_next = 0,
      hrm_save_time = hst, harm_save_delay = 20, pst_save_delay = 600\<rparr>"

text \<open>\<open>RcdSaveTypes\<close>\<close>

definition kHarmRcd :: int where "kHarmRcd = 1"

fun rcd_type :: "SaveFileType \<Rightarrow> int" where
  "rcd_type kFreqSave = 2"
| "rcd_type kUnblcSave = 3"
| "rcd_type kVoltdvSave = 4"
| "rcd_type kPstSave = 5"

fun rcd_space :: "syspara \<Rightarrow> SaveFileType \<Rightarrow> int" where
  "rcd_space sp kPstSave = 600"
| "rcd_space sp kFreqSave = freq_rcd_space sp"
| "rcd_space sp kUnblcSave = unbalance_rcd_space sp"
| "rcd_space sp kVoltdvSave = voltdv_rcd_space sp"

section \<open>Time frames\<close>

definition ChgTimeFrame :: "int \<Rightarrow> int \<Rightarrow> int \<times> int" where
  "ChgTimeFrame time space =
     (let tmi = GmTime time;
          k = (tm_min tmi * 60 + tm_sec tmi) smod space;
          last_tm = (if k \<noteq> 0 then time - k else time)
      in (last_tm, last_tm + space))"

definition DetectSaveRcd :: "syspara \<Rightarrow> int \<Rightarrow> SaveFileType \<Rightarrow> savefunc \<Rightarrow> savefunc \<times> save_act list \<times> int" where
  "DetectSaveRcd sp time ty s =
     (if time < last_time s ty \<or> time \<ge> next_time s ty then
        (let due = (time = next_time s ty);
             acts = (if due then [AggregateRcd ty time (adj_time s ty)] else []);
             s = s\<lparr>adj_time := (adj_time s)(ty := \<not> due)\<rparr>;
             (l, n) = ChgTimeFrame time (rcd_space sp ty);
             s = s\<lparr>last_time := (last_time s)(ty := l), next_time := (next_time s)(ty := n)\<rparr>
         in (s, acts @ [InitRcd ty], if due then rcd_type ty else 0))
      else (s, [], 0))"

definition DetectSaveHarm :: "syspara \<Rightarrow> int \<Rightarrow> savefunc \<Rightarrow> savefunc \<times> save_act list \<times> int" where
  "DetectSaveHarm sp time s =
     (if time < harm_last s \<or> time \<ge> harm_next s then
        (let due = (time = harm_next s);
             acts = (if due then [AggregateHarm time, GetThd] else []);
             s = (if due then s\<lparr>hrm_save_time := time\<rparr> else s);
             (l, n) = ChgTimeFrame time (harm_rcd_space sp);
             s = s\<lparr>harm_last := l, harm_next := n\<rparr>
         in (s, acts @ [InitAggregation], if due then kHarmRcd else 0))
      else (s, [], 0))"

text \<open>\<open>SaveHandle\<close>, called every second; during the first seconds nothing is notified.\<close>

definition notice_if :: "int \<Rightarrow> save_act list" where
  "notice_if n = (if n \<noteq> 0 then [NoticeSave n] else [])"

definition SaveHandle :: "syspara \<Rightarrow> int \<Rightarrow> savefunc \<Rightarrow> savefunc \<times> save_act list" where
  "SaveHandle sp timei s =
     (let (s, a1, t1) = DetectSaveRcd sp timei kFreqSave s;
          (s, a2, t2) = DetectSaveRcd sp timei kUnblcSave s;
          (s, a3, t3) = DetectSaveRcd sp timei kVoltdvSave s;
          (s, a4, t4) = DetectSaveRcd sp timei kPstSave s;
          (s, a0, t0) = DetectSaveHarm sp timei s;
          (s, n4) = (if pst_save_delay s = 0 then (s, notice_if t4)
                     else (s\<lparr>pst_save_delay := pst_save_delay s - 1\<rparr>, []));
          (s, ns) = (if harm_save_delay s = 0
                     then (s, notice_if t3 @ notice_if t2 @ notice_if t1 @ notice_if t0)
                     else (s\<lparr>harm_save_delay := harm_save_delay s - 1\<rparr>, []))
      in (s, a1 @ a2 @ a3 @ a4 @ a0 @ n4 @ ns))"

section \<open>Power on and off times\<close>

definition kPower01MaxSz :: nat where "kPower01MaxSz = 10"

text \<open>
  The file is its list of times, None when it does not exist.  A short read leaves the rest of
  the buffer as it was on the stack (\<open>junk\<close>, ten values).
\<close>

definition read_times :: "int list \<Rightarrow> nat \<Rightarrow> int list \<Rightarrow> int list" where
  "read_times junk n file = take n file @ drop (length (take n file)) (take n junk)"

definition SavePower01Time :: "int list \<Rightarrow> bool \<Rightarrow> int \<Rightarrow> int \<Rightarrow> int list option \<Rightarrow> int list option" where
  "SavePower01Time junk can_create off on file =
     (case file of
        None \<Rightarrow> if can_create then Some ([on, off] @ replicate (kPower01MaxSz - 2) 0) else None
      | Some ts \<Rightarrow>
          Some (([on, off] @ read_times (drop 2 junk) (kPower01MaxSz - 2) ts) @ drop kPower01MaxSz ts))"

definition ReadPower01Time :: "int list \<Rightarrow> int \<Rightarrow> int list option \<Rightarrow> int list" where
  "ReadPower01Time junk cnt file =
     (case file of None \<Rightarrow> []
      | Some ts \<Rightarrow>
          let cnt = (if cnt > int kPower01MaxSz then int kPower01MaxSz else cnt)
          in takeWhile (\<lambda>t. t \<noteq> 0) (take (nat cnt) (read_times junk kPower01MaxSz ts)))"

section \<open>A record is due at every multiple of its period\<close>

lemma minute_second:
  assumes "0 \<le> t"
  shows "tm_min (GmTime t) * 60 + tm_sec (GmTime t) = t mod 3600"
proof -
  note f = gmtime_fields [OF assms]
  have "t mod 3600 = t mod 86400 mod 3600" by (simp add: mod_mod_cancel)
  also have "\<dots> = (tm_min (gmtime t) * 60 + tm_sec (gmtime t) + tm_hour (gmtime t) * 3600) mod 3600"
    using f by (simp add: algebra_simps)
  also have "\<dots> = tm_min (gmtime t) * 60 + tm_sec (gmtime t)"
    using f by (simp only: mod_mult_self1) (intro mod_pos_pos_trivial; simp)
  finally show ?thesis by (simp add: GmTime_def)
qed

lemma time_frame:
  assumes "0 \<le> t" "0 < space" "space dvd 3600"
  shows "ChgTimeFrame t space = (t - t mod space, t - t mod space + space)"
proof -
  have "t mod 3600 smod space = t mod space"
    using assms by (simp add: smod_nonneg mod_mod_cancel)
  then show ?thesis by (simp add: ChgTimeFrame_def minute_second [OF assms(1)] Let_def)
qed

text \<open>The results of one call per time of the list.\<close>

fun detect_run :: "syspara \<Rightarrow> SaveFileType \<Rightarrow> int list \<Rightarrow> savefunc \<Rightarrow> int list" where
  "detect_run sp ty [] s = []"
| "detect_run sp ty (t # ts) s = (case DetectSaveRcd sp t ty s of (s, _, r) \<Rightarrow> r # detect_run sp ty ts s)"

lemma in_frame_run:
  assumes "0 < rcd_space sp ty" "rcd_space sp ty dvd 3600"
  shows "0 \<le> t \<Longrightarrow> last_time s ty = t - t mod rcd_space sp ty \<Longrightarrow> next_time s ty = t - t mod rcd_space sp ty + rcd_space sp ty \<Longrightarrow>
    detect_run sp ty [t + 1..t + int n] s =
      map (\<lambda>u. if u mod rcd_space sp ty = 0 then rcd_type ty else 0) [t + 1..t + int n]"
proof (induction n arbitrary: t s)
  case (Suc n)
  let ?p = "rcd_space sp ty"
  have up: "[t + 1..t + int (Suc n)] = (t + 1) # [(t + 1) + 1..(t + 1) + int n]" by (simp add: upto_rec1 add_ac)
  have b: "0 \<le> t mod ?p" "t mod ?p < ?p" using assms(1) by simp_all
  have m: "(t + 1) mod ?p = (if t mod ?p = ?p - 1 then 0 else t mod ?p + 1)"
  proof -
    have "(t + 1) mod ?p = (t mod ?p + 1) mod ?p" by (simp add: mod_add_left_eq)
    then show ?thesis using b by (auto intro: mod_pos_pos_trivial)
  qed
  show ?case
  proof (cases "t mod ?p = ?p - 1")
    case True
    then have z: "(t + 1) mod ?p = 0" and nx: "next_time s ty = t + 1" using m Suc.prems(3) by auto
    define s' where "s' = fst (DetectSaveRcd sp (t + 1) ty s)"
    have fr: "ChgTimeFrame (t + 1) ?p = (t + 1, t + 1 + ?p)"
      using time_frame [of "t + 1" ?p] assms Suc.prems(1) z by simp
    then have d: "DetectSaveRcd sp (t + 1) ty s = (s', [AggregateRcd ty (t + 1) (adj_time s ty), InitRcd ty], rcd_type ty)"
      "last_time s' ty = t + 1" "next_time s' ty = t + 1 + ?p"
      using nx by (simp_all add: s'_def DetectSaveRcd_def Let_def)
    have "detect_run sp ty [(t + 1) + 1..(t + 1) + int n] s' = map (\<lambda>u. if u mod ?p = 0 then rcd_type ty else 0) [(t + 1) + 1..(t + 1) + int n]"
      using d(2,3) z Suc.prems(1) by (intro Suc.IH) simp_all
    then show ?thesis unfolding up using d(1) z by simp
  next
    case False
    then have nz: "(t + 1) mod ?p = t mod ?p + 1" using m by simp
    then have "t + 1 < next_time s ty" "last_time s ty \<le> t + 1" using Suc.prems(2,3) b False by auto
    then have d: "DetectSaveRcd sp (t + 1) ty s = (s, [], 0)" by (simp add: DetectSaveRcd_def)
    have "detect_run sp ty [(t + 1) + 1..(t + 1) + int n] s = map (\<lambda>u. if u mod ?p = 0 then rcd_type ty else 0) [(t + 1) + 1..(t + 1) + int n]"
      using Suc.prems nz by (intro Suc.IH) simp_all
    then show ?thesis unfolding up using d nz b by simp
  qed
qed simp

text \<open>
  C35. Called once a second from a time outside its frame on (as it is after a start or after the clock was
  set), for a period that divides an hour, a record becomes due at exactly the multiples of the
  period that follow: never at the first call, and in every period once.
\<close>

theorem record_due_every_period:
  assumes "0 < rcd_space sp ty" "rcd_space sp ty dvd 3600" "0 \<le> t"
    and "t < last_time s ty \<or> next_time s ty \<le> t" "t \<noteq> next_time s ty"
  shows "detect_run sp ty [t..t + int n] s =
    0 # map (\<lambda>u. if u mod rcd_space sp ty = 0 then rcd_type ty else 0) [t + 1..t + int n]"
proof -
  let ?s = "fst (DetectSaveRcd sp t ty s)"
  have "last_time ?s ty = t - t mod rcd_space sp ty" "next_time ?s ty = t - t mod rcd_space sp ty + rcd_space sp ty"
    "snd (snd (DetectSaveRcd sp t ty s)) = (if t = next_time s ty then rcd_type ty else 0)"
    using assms(4) time_frame [OF assms(3,1,2)] by (auto simp: DetectSaveRcd_def Let_def)
  moreover have "[t..t + int n] = t # [t + 1..t + int n]" by (simp add: upto_rec1)
  ultimately show ?thesis
    using in_frame_run [OF assms(1,2,3), of ?s n] assms(5)
    by (cases "DetectSaveRcd sp t ty s") auto
qed

definition quarter_hours :: syspara where
  "quarter_hours = \<lparr>harm_rcd_space = 180, freq_rcd_space = 3, unbalance_rcd_space = 900, voltdv_rcd_space = 3\<rparr>"

theorem record_due_every_period_witness:
  "detect_run quarter_hours kFreqSave [1000..1000 + int 5] (new_savefunc (\<lambda>_. False) 0) = [0, 0, 2, 0, 0, 2]"
proof -
  have "detect_run quarter_hours kFreqSave [1000..1000 + int 5] (new_savefunc (\<lambda>_. False) 0) =
      0 # map (\<lambda>u. if u mod 3 = 0 then 2 else 0) [1000 + 1..1000 + int 5]"
    using record_due_every_period [of quarter_hours kFreqSave 1000 "new_savefunc (\<lambda>_. False) 0" 5]
    by (simp add: quarter_hours_def new_savefunc_def)
  then show ?thesis by (simp add: upto_rec1)
qed

section \<open>The power file\<close>

text \<open>Saving the pairs of off and on times one after the other, from no file on.\<close>

definition save_pairs :: "int list \<Rightarrow> (int \<times> int) list \<Rightarrow> int list option" where
  "save_pairs junk ps = fold (\<lambda>(off, on). SavePower01Time junk True off on) ps None"

definition newest_first :: "(int \<times> int) list \<Rightarrow> int list" where
  "newest_first ps = concat (map (\<lambda>(off, on). [on, off]) (rev ps))"

lemma saved_pairs:
  assumes "ps \<noteq> []" "length junk = 10"
  shows "save_pairs junk ps = Some (take 10 (newest_first ps @ replicate 10 0))"
  using assms(1)
proof (induction ps rule: rev_nonempty_induct)
  case (single p)
  then show ?case by (cases p) (simp add: save_pairs_def newest_first_def SavePower01Time_def kPower01MaxSz_def numeral_eq_Suc)
next
  case (snoc p ps)
  obtain off on where p: "p = (off, on)" by (cases p)
  let ?old = "take 10 (newest_first ps @ replicate 10 0)"
  have len: "length ?old = 10" by simp
  have "read_times (drop 2 junk) 8 ?old = take 8 (newest_first ps @ replicate 10 0)"
    using len assms(2) by (simp add: read_times_def del: take_append)
  then have "SavePower01Time junk True off on (Some ?old) =
      Some ([on, off] @ take 8 (newest_first ps @ replicate 10 0))"
    using len by (simp add: SavePower01Time_def kPower01MaxSz_def del: take_append)
  moreover have "take 10 (newest_first (ps @ [p]) @ replicate 10 0) = [on, off] @ take 8 (newest_first ps @ replicate 10 0)"
    by (simp add: newest_first_def p numeral_eq_Suc)
  ultimately show ?case using snoc.IH p by (simp add: save_pairs_def del: take_append)
qed

text \<open>
  The power file keeps the five newest pairs of off and on times: reading it back after any sequence of
  saves (of times that are not 0, from no file on) gives the on and off times newest first, cut at the number
  asked for or at ten, and nothing from the uninitialised buffers.
\<close>

lemma power_times_roundtrip:
  assumes "ps \<noteq> []" "length junk = 10" "\<forall>(off, on) \<in> set ps. off \<noteq> 0 \<and> on \<noteq> 0"
  shows "ReadPower01Time junk2 cnt (save_pairs junk ps) = take (nat (min cnt 10)) (newest_first ps)"
proof -
  let ?xs = "newest_first ps"
  have nz: "\<forall>x \<in> set ?xs. x \<noteq> 0" using assms(3) by (auto simp: newest_first_def)
  have z: "takeWhile (\<lambda>t. t \<noteq> 0) (ys @ replicate k 0) = ys" if "\<forall>y \<in> set ys. y \<noteq> 0" for ys :: "int list" and k
    using that by (induction ys) (auto simp: takeWhile_eq_Nil_iff)
  have t: "takeWhile (\<lambda>t. t \<noteq> 0) (take n (take 10 (?xs @ replicate 10 0))) = take (min n 10) ?xs" for n
  proof -
    have "take n (take 10 (?xs @ replicate 10 0)) = take (min n 10) (?xs @ replicate 10 0)" by (rule take_take)
    also have "\<dots> = take (min n 10) ?xs @ replicate (min (min n 10 - length ?xs) 10) 0"
      by (simp only: take_append take_replicate)
    finally have "take n (take 10 (?xs @ replicate 10 0)) = take (min n 10) ?xs @ replicate (min (min n 10 - length ?xs) 10) 0" .
    moreover have "\<forall>y \<in> set (take (min n 10) ?xs). y \<noteq> 0" using nz set_take_subset by fast
    ultimately show ?thesis using z by (simp only:)
  qed
  have "read_times junk2 10 (take 10 (?xs @ replicate 10 0)) = take 10 (?xs @ replicate 10 0)"
    by (simp add: read_times_def del: take_append)
  moreover have "nat (if cnt > int kPower01MaxSz then int kPower01MaxSz else cnt) = nat (min cnt 10)"
    "min (nat (min cnt 10)) 10 = nat (min cnt 10)"
    by (auto simp: kPower01MaxSz_def min_def nat_le_iff)
  moreover have "kPower01MaxSz = 10" by (simp add: kPower01MaxSz_def)
  ultimately show ?thesis using t [of "nat (min cnt 10)"]
    by (simp only: saved_pairs [OF assms(1,2)] ReadPower01Time_def Let_def option.case)
qed

lemma power_times_roundtrip_example:
  "ReadPower01Time [] 3 (save_pairs (replicate 10 77) [(100, 110), (200, 230)]) = [230, 200, 110]"
  using power_times_roundtrip [of "[(100, 110), (200, 230)]" "replicate 10 77" "[]" 3]
  by (simp add: newest_first_def)

end
