(* ===== verification/Rec_File.thy ===== *)
theory Rec_File
  imports Save_Sched Loop_Buf_Sort
begin

text \<open>
  The record files (\<open>main/src/pqm_func/save_func.cpp\<close>): one file per day with a head, and per hour a
  head and the records of the hour.  A stream is its bytes and a position; the bytes are those of
  the 32-bit target.  The model is that of one of the four record types.
\<close>

section \<open>Streams\<close>

record fstream =
  fdata :: "u8 list"
  fpos :: int

definition fopen_at_start :: "u8 list \<Rightarrow> fstream" where
  "fopen_at_start bs = \<lparr>fdata = bs, fpos = 0\<rparr>"

text \<open>A seek before the start fails and leaves the position.\<close>

definition fseek_set :: "int \<Rightarrow> fstream \<Rightarrow> fstream" where
  "fseek_set p f = (if p < 0 then f else f\<lparr>fpos := p\<rparr>)"

definition fseek_cur :: "int \<Rightarrow> fstream \<Rightarrow> fstream" where
  "fseek_cur off f = fseek_set (fpos f + off) f"

text \<open>Writing behind the end fills the gap with zeros.\<close>

definition fwrite :: "u8 list \<Rightarrow> fstream \<Rightarrow> fstream" where
  "fwrite bs f =
     (let p = nat (fpos f); d = fdata f @ replicate (p - length (fdata f)) 0
      in f\<lparr>fdata := take p d @ bs @ drop (p + length bs) d, fpos := fpos f + int (length bs)\<rparr>)"

text \<open>
  \<open>fread\<close> of one object whose bytes were \<open>old\<close>: whether all of them were read, and the bytes of the
  object afterwards.
\<close>

definition fread :: "u8 list \<Rightarrow> fstream \<Rightarrow> bool \<times> u8 list \<times> fstream" where
  "fread old f =
     (let bs = take (length old) (drop (nat (fpos f)) (fdata f))
      in (length bs = length old, bs @ drop (length bs) old, f\<lparr>fpos := fpos f + int (length bs)\<rparr>))"

section \<open>The structures in the file\<close>

definition le16 :: "int \<Rightarrow> u8 list" where
  "le16 n = [word_of_int n, word_of_int (n div 2 ^ 8)]"

definition short_of :: "u8 list \<Rightarrow> int" where
  "short_of bs = (let n = uint (bs ! 0) + 256 * uint (bs ! 1) in if n < 32768 then n else n - 65536)"

text \<open>What an assignment to a \<open>short\<close> stores.\<close>

definition s16 :: "int \<Rightarrow> int" where
  "s16 n = (n + 32768) mod 65536 - 32768"

lemma s16_id: "- 32768 \<le> n \<Longrightarrow> n < 32768 \<Longrightarrow> s16 n = n"
  by (simp add: s16_def)

definition long_of :: "u8 list \<Rightarrow> int" where
  "long_of bs =
     (let n = uint (bs ! 0) + 256 * uint (bs ! 1) + 65536 * uint (bs ! 2) + 16777216 * uint (bs ! 3)
      in if n < 2147483648 then n else n - 4294967296)"

record oclk =
  oc_hour :: int
  oc_unit :: int
  oc_count :: int

definition oclk_bytes :: "oclk \<Rightarrow> u8 list" where
  "oclk_bytes oc = [word_of_int (oc_hour oc), word_of_int (oc_unit oc)] @ le16 (oc_count oc)"

definition oclk_of :: "u8 list \<Rightarrow> oclk" where
  "oclk_of bs = \<lparr>oc_hour = uint (bs ! 0), oc_unit = uint (bs ! 1), oc_count = short_of (drop 2 bs)\<rparr>"

record rcdhead =
  rh_date :: int
  rh_count :: int
  rh_rsv :: "u8 list"

definition rcdhead_bytes :: "rcdhead \<Rightarrow> u8 list" where
  "rcdhead_bytes h = le32 (rh_date h) @ le16 (rh_count h) @ rh_rsv h"

definition rcdhead_of :: "u8 list \<Rightarrow> rcdhead" where
  "rcdhead_of bs = \<lparr>rh_date = long_of bs, rh_count = short_of (drop 4 bs), rh_rsv = drop 6 bs\<rparr>"

definition read_oclk :: "oclk \<Rightarrow> fstream \<Rightarrow> bool \<times> oclk \<times> fstream" where
  "read_oclk oc f = (case fread (oclk_bytes oc) f of (ok, bs, f) \<Rightarrow> (ok, oclk_of bs, f))"

definition read_short :: "int \<Rightarrow> fstream \<Rightarrow> bool \<times> int \<times> fstream" where
  "read_short n f = (case fread (le16 n) f of (ok, bs, f) \<Rightarrow> (ok, short_of bs, f))"

section \<open>Macros\<close>

definition SAVE_OCLOCK :: "oclk \<Rightarrow> int \<Rightarrow> fstream \<Rightarrow> fstream" where
  "SAVE_OCLOCK oc d_sz f =
     (let f = fseek_cur (- ((d_sz + 2) * oc_count oc) - 4) f;
          f = fwrite (oclk_bytes oc) f
      in fseek_cur ((d_sz + 2) * oc_count oc) f)"

definition SAVE_RCDHEAD :: "rcdhead \<Rightarrow> fstream \<Rightarrow> fstream" where
  "SAVE_RCDHEAD h f = (let p = fpos f in fseek_set p (fwrite (rcdhead_bytes h) (fseek_set 0 f)))"

function scan_oclock :: "int \<Rightarrow> int \<Rightarrow> int \<Rightarrow> int \<Rightarrow> oclk \<Rightarrow> fstream \<Rightarrow> int \<times> oclk \<times> fstream" where
  "scan_oclock hour rec_sz count i oc f =
     (if i < count then
        (case read_oclk oc f of (ok, oc, f) \<Rightarrow>
           if oc_hour oc \<ge> hour then (i, oc, f)
           else scan_oclock hour rec_sz count (i + 1) oc (fseek_cur (rec_sz * oc_count oc) f))
      else (i, oc, f))"
  by pat_completeness auto
termination by (relation "measure (\<lambda>(hour, rec_sz, count, i, oc, f). nat (count - i))") auto

declare scan_oclock.simps [simp del]

function scan_secs :: "int \<Rightarrow> int \<Rightarrow> int \<Rightarrow> int \<Rightarrow> int \<Rightarrow> fstream \<Rightarrow> int \<times> int \<times> fstream" where
  "scan_secs hsec dsz count i secs f =
     (if i < count then
        (case read_short secs f of (ok, secs, f) \<Rightarrow>
           if secs \<ge> hsec then (i, secs, fseek_cur (- 2) f)
           else scan_secs hsec dsz count (i + 1) secs (fseek_cur dsz f))
      else (i, secs, f))"
  by pat_completeness auto
termination by (relation "measure (\<lambda>(hsec, dsz, count, i, secs, f). nat (count - i))") auto

declare scan_secs.simps [simp del]

section \<open>Locating\<close>

text \<open>\<open>junk\<close> is the uninitialised \<open>secs\<close> of the function.\<close>

definition LocateSave ::
  "int \<Rightarrow> ctm \<Rightarrow> int \<Rightarrow> int \<Rightarrow> rcdhead \<Rightarrow> oclk \<Rightarrow> fstream \<Rightarrow> rcdhead \<times> oclk \<times> fstream" where
  "LocateSave junk tim dsz unit rec_hd oc f =
     (let rec_sz = dsz + 2;
          (i, oc, f) = scan_oclock (tm_hour tim) rec_sz (rh_count rec_hd) 0 oc (fseek_set 12 f);
          apd = (i \<ge> rh_count rec_hd);
          rec_hd = rec_hd\<lparr>rh_count := s16 (i + 1)\<rparr>;
          oc = oc\<lparr>oc_unit := unit\<rparr>;
          (oc, f) =
            (if oc_hour oc = tm_hour tim then
               (case scan_secs (tm_min tim * 60 + tm_sec tim) dsz (oc_count oc) 0 junk f of (i, secs, f) \<Rightarrow>
                  (oc\<lparr>oc_count := s16 i\<rparr>, f))
             else (oc\<lparr>oc_hour := tm_hour tim, oc_count := 0\<rparr>, f));
          f = (if \<not> apd then SAVE_OCLOCK oc dsz f else fwrite (oclk_bytes oc) f)
      in (rec_hd, oc, f))"

definition LocateRead ::
  "int \<Rightarrow> ctm \<Rightarrow> int \<Rightarrow> rcdhead \<Rightarrow> oclk \<Rightarrow> fstream \<Rightarrow> bool \<times> rcdhead \<times> oclk \<times> fstream" where
  "LocateRead junk tim dsz rec_hd oc f =
     (let rec_sz = dsz + 2;
          (i, oc, f) = scan_oclock (tm_hour tim) rec_sz (rh_count rec_hd) 0 oc (fseek_set 12 f);
          rec_hd = rec_hd\<lparr>rh_count := rh_count rec_hd - i\<rparr>
      in if oc_hour oc < tm_hour tim then (False, rec_hd, oc, f)
         else if oc_hour oc > tm_hour tim then (True, rec_hd, oc, f)
         else
           (let hsec = tm_min tim * 60 + tm_sec tim;
                (i, secs, f) = scan_secs hsec dsz (oc_count oc) 0 junk f;
                oc = oc\<lparr>oc_count := oc_count oc - i\<rparr>
            in if secs < hsec then
                 (if rh_count rec_hd > 1 then
                    (case read_oclk oc f of (ok, oc, f) \<Rightarrow> (True, rec_hd\<lparr>rh_count := rh_count rec_hd - 1\<rparr>, oc, f))
                  else (False, rec_hd, oc, f))
               else (True, rec_hd, oc, f)))"

section \<open>Saving a record\<close>

text \<open>
  The state of one record type: the disk (the closed files by date), the open file, the heads, and
  the sorted ring of the dates with its own file.
\<close>

record recsave =
  disk :: "int \<Rightarrow> u8 list option"
  f_rcd :: "(int \<times> fstream) option"
  rcd_file_head :: rcdhead
  oclock_rcd :: oclk
  psave_status :: "int sortbuf"
  status_file :: "int rcfile option"

definition date_of :: "ctm \<Rightarrow> int" where
  "date_of t = (tm_year t + 1900) * 10000 + (tm_mon t + 1) * 100 + tm_mday t"

definition with_file :: "(fstream \<Rightarrow> fstream) \<Rightarrow> recsave \<Rightarrow> recsave" where
  "with_file g s = s\<lparr>f_rcd := map_option (\<lambda>(n, f). (n, g f)) (f_rcd s)\<rparr>"

definition close_rcd :: "recsave \<Rightarrow> recsave" where
  "close_rcd s =
     (case f_rcd s of None \<Rightarrow> s
      | Some (n, f) \<Rightarrow> s\<lparr>disk := (disk s)(n := Some (fdata f)), f_rcd := None\<rparr>)"

text \<open>The date is entered; when the ring is full the file of the date it drops is removed.\<close>

definition enter_date :: "int \<Rightarrow> recsave \<Rightarrow> recsave option" where
  "enter_date date s =
     (case Insert CompareInt date (psave_status s) of None \<Rightarrow> None
      | Some (r, st) \<Rightarrow>
          Some (let s = s\<lparr>psave_status := st\<rparr>
                in if r \<noteq> 0 then s\<lparr>disk := (disk s)(GetTrash (sb_ring st) := None)\<rparr> else s))"

definition SaveStatus :: "int \<Rightarrow> int \<Rightarrow> recsave \<Rightarrow> recsave option" where
  "SaveStatus nw date s =
     (case enter_date date s of None \<Rightarrow> None
      | Some s \<Rightarrow>
          (case SaveFile True True nw (status_file s) (psave_status s) of None \<Rightarrow> None
           | Some (_, sf) \<Rightarrow> Some (s\<lparr>status_file := Some sf\<rparr>)))"

definition GetUnitVal :: "(nat \<Rightarrow> int) \<Rightarrow> SaveFileType \<Rightarrow> int" where
  "GetUnitVal units_type ty =
     (case ty of kFreqSave \<Rightarrow> push_bit 4 (units_type 2)
      | kUnblcSave \<Rightarrow> 0 + push_bit 2 1
      | kVoltdvSave \<Rightarrow> units_type 0
      | kPstSave \<Rightarrow> 1)"

text \<open>
  \<open>OpenRecFile\<close>: an existing file of the right date is positioned, any other is replaced by a new one.
  \<open>creatable\<close> is whether a file can be created.  The \<open>bool\<close> is the code's result.
\<close>

definition OpenRecFile ::
  "int \<Rightarrow> int \<Rightarrow> bool \<Rightarrow> int \<Rightarrow> int \<Rightarrow> ctm \<Rightarrow> recsave \<Rightarrow> (bool \<times> recsave) option" where
  "OpenRecFile junk nw creatable unit data_sz tim s =
     (let date = date_of tim;
          s = (case disk s date of None \<Rightarrow> s\<lparr>f_rcd := None\<rparr>
               | Some bs \<Rightarrow>
                   (case fread (rcdhead_bytes (rcd_file_head s)) (fopen_at_start bs) of (_, hb, f) \<Rightarrow>
                      let s = s\<lparr>rcd_file_head := rcdhead_of hb\<rparr>
                      in if rh_date (rcd_file_head s) \<noteq> date
                         then s\<lparr>disk := (disk s)(date := None), f_rcd := None\<rparr>
                         else (case LocateSave junk tim data_sz unit (rcd_file_head s) (oclock_rcd s) f of (h, oc, f) \<Rightarrow>
                                 s\<lparr>rcd_file_head := h, oclock_rcd := oc, f_rcd := Some (date, SAVE_RCDHEAD h f)\<rparr>)))
      in if f_rcd s \<noteq> None then Some (True, s)
         else if \<not> creatable then Some (False, s)
         else
           (let h = (rcd_file_head s)\<lparr>rh_date := date, rh_count := 0\<rparr>;
                f = fwrite (rcdhead_bytes h) (fopen_at_start []);
                oc = \<lparr>oc_hour = tm_hour tim, oc_unit = unit, oc_count = 0\<rparr>;
                f = fwrite (oclk_bytes oc) f;
                h = h\<lparr>rh_count := s16 (rh_count h + 1)\<rparr>;
                f = SAVE_RCDHEAD h f
            in map_option (\<lambda>s. (True, s))
                 (SaveStatus nw date (s\<lparr>rcd_file_head := h, oclock_rcd := oc, f_rcd := Some (date, f)\<rparr>))))"

text \<open>The part of \<open>SaveRecData\<close> after the file is open: the hour, then the record.\<close>

definition put_record :: "int \<Rightarrow> int \<Rightarrow> ctm \<Rightarrow> u8 list \<Rightarrow> recsave \<Rightarrow> recsave" where
  "put_record unit data_sz tmi data s =
     (let s = (if tm_hour tmi \<noteq> oc_hour (oclock_rcd s) then
                 (let s = with_file (SAVE_OCLOCK (oclock_rcd s) data_sz) s;
                      oc = \<lparr>oc_hour = tm_hour tmi, oc_unit = unit, oc_count = 0\<rparr>;
                      h = (rcd_file_head s)\<lparr>rh_count := s16 (rh_count (rcd_file_head s) + 1)\<rparr>
                  in with_file (\<lambda>f. SAVE_RCDHEAD h (fwrite (oclk_bytes oc) f)) (s\<lparr>oclock_rcd := oc, rcd_file_head := h\<rparr>))
               else if tm_sec tmi = 0 then with_file (SAVE_OCLOCK (oclock_rcd s) data_sz) s
               else s);
          s = with_file (\<lambda>f. fwrite data (fwrite (le16 (tm_min tmi * 60 + tm_sec tmi)) f)) s
      in s\<lparr>oclock_rcd := (oclock_rcd s)\<lparr>oc_count := s16 (oc_count (oclock_rcd s) + 1)\<rparr>\<rparr>)"

text \<open>
  \<open>SaveRecData\<close>: \<open>ret\<close>, \<open>tmi\<close> and \<open>data\<close> are the result of \<open>get_save_data\<close>, the broken down time of the
  record and its \<open>data_sz\<close> bytes.
\<close>

definition SaveRecData ::
  "int \<Rightarrow> int \<Rightarrow> bool \<Rightarrow> int \<Rightarrow> int \<Rightarrow> int \<Rightarrow> ctm \<Rightarrow> u8 list \<Rightarrow> recsave \<Rightarrow> recsave option" where
  "SaveRecData junk nw creatable unit data_sz ret tmi data s =
     (if ret < 0 then Some s
      else
        (let date = date_of tmi;
             opened =
               (case f_rcd s of
                  None \<Rightarrow> OpenRecFile junk nw creatable unit data_sz tmi s
                | Some _ \<Rightarrow>
                    if date \<noteq> rh_date (rcd_file_head s) then
                      (case enter_date date (close_rcd (with_file (SAVE_OCLOCK (oclock_rcd s) data_sz) s)) of None \<Rightarrow> None
                       | Some s \<Rightarrow> OpenRecFile junk nw creatable unit data_sz tmi s)
                    else if ret = 1 then
                      (let s = with_file (SAVE_OCLOCK (oclock_rcd s) data_sz) s
                       in case f_rcd s of None \<Rightarrow> None
                          | Some (n, f) \<Rightarrow>
                              (case LocateSave junk tmi data_sz unit (rcd_file_head s) (oclock_rcd s) f of (h, oc, f) \<Rightarrow>
                                 Some (True, s\<lparr>rcd_file_head := h, oclock_rcd := oc, f_rcd := Some (n, SAVE_RCDHEAD h f)\<rparr>)))
                    else Some (True, s))
         in case opened of None \<Rightarrow> None
            | Some (ok, s) \<Rightarrow> if ok then Some (put_record unit data_sz tmi data s) else Some s))"

section \<open>Reading records\<close>

text \<open>
  The records of one hour, from the stream to the output buffer: at most \<open>mx - num\<close> of them, up to the
  end time, which lowers \<open>mx\<close> to end all loops.  \<open>tz\<close> is only used by the zone that is not applied.
\<close>

function read_recs ::
  "int \<Rightarrow> int \<Rightarrow> int \<Rightarrow> int \<Rightarrow> int \<Rightarrow> int \<Rightarrow> u8 list \<Rightarrow> oclk \<Rightarrow> ctm \<Rightarrow> fstream \<Rightarrow>
   int \<times> int \<times> int \<times> u8 list \<times> oclk \<times> ctm \<times> fstream" where
  "read_recs tz dsz etime mx num secs out oc tmi f =
     (let more = oc_count oc > 0 \<and> num < mx; oc' = oc\<lparr>oc_count := oc_count oc - 1\<rparr>
      in if \<not> more then (mx, num, secs, out, oc', tmi, f)
         else
           (case read_short secs f of (ok, secs, f) \<Rightarrow>
              if \<not> ok then (mx, num, secs, out, oc', tmi, f)
              else
                (let tmi = tmi\<lparr>tm_hour := oc_hour oc, tm_min := secs sdiv 60, tm_sec := secs smod 60, tm_isdst := 0\<rparr>;
                     mtime = MakeTime 0 tz tmi 0
                 in if mtime > etime then (num, num, secs, out, oc', tmi, f)
                    else
                      (case fread (replicate (nat dsz) 0) f of (ok, data, f) \<Rightarrow>
                         if \<not> ok then (mx, num, secs, out @ le32 mtime, oc', tmi, f)
                         else read_recs tz dsz etime mx (num + 1) secs (out @ le32 mtime @ data) oc' tmi f))))"
  by pat_completeness auto
termination by (relation "measure (\<lambda>(tz, dsz, etime, mx, num, secs, out, oc, tmi, f). nat (oc_count oc))") auto

declare read_recs.simps [simp del]

text \<open>
  To the head of the next later hour: hours that are not later (written after the clock went back) are
  skipped by their count.  The loop has no other end than a failed read.
\<close>

partial_function (option) next_hour :: "int \<Rightarrow> oclk \<Rightarrow> oclk \<Rightarrow> fstream \<Rightarrow> (oclk \<times> oclk \<times> fstream) option" where
  "next_hour dsz oc oc2 f =
     (case read_oclk oc2 f of (ok, oc2, f) \<Rightarrow>
        if \<not> ok then Some (oc\<lparr>oc_count := 0\<rparr>, oc2, f)
        else if oc_hour oc2 \<le> oc_hour oc then
          next_hour dsz (oc\<lparr>oc_count := oc_count oc - 1\<rparr>) oc2 (fseek_cur ((dsz + 2) * oc_count oc2) f)
        else Some (oc2, oc2, f))"

function read_hours ::
  "int \<Rightarrow> int \<Rightarrow> int \<Rightarrow> int \<Rightarrow> int \<Rightarrow> int \<Rightarrow> int \<Rightarrow> u8 list \<Rightarrow> oclk \<Rightarrow> oclk \<Rightarrow> ctm \<Rightarrow> fstream \<Rightarrow>
   (int \<times> int \<times> int \<times> u8 list \<times> oclk \<times> oclk \<times> ctm) option" where
  "read_hours tz dsz etime count mx num secs out oc oc2 tmi f =
     (if count > 0 \<and> num < mx then
        (case read_recs tz dsz etime mx num secs out oc tmi f of (mx, num, secs, out, oc, tmi, f) \<Rightarrow>
           (case next_hour dsz oc oc2 f of None \<Rightarrow> None
            | Some (oc, oc2, f) \<Rightarrow> read_hours tz dsz etime (count - 1) mx num secs out oc oc2 tmi f))
      else Some (mx, num, secs, out, oc, oc2, tmi))"
  by pat_completeness auto
termination by (relation "measure (\<lambda>(tz, dsz, etime, count, mx, num, secs, out, oc, oc2, tmi, f). nat count)") auto

declare read_hours.simps [simp del]

text \<open>
  One file of \<open>ReadRecData\<close>; a file that is missing, too short or of another date gives nothing.  \<open>unit\<close> is
  the first byte of the output.
\<close>

definition read_file ::
  "int \<Rightarrow> int \<Rightarrow> int \<Rightarrow> int \<Rightarrow> int \<Rightarrow> int \<Rightarrow> int \<Rightarrow> (int \<Rightarrow> u8 list option) \<Rightarrow> rcdhead \<Rightarrow> oclk \<Rightarrow> oclk \<Rightarrow> ctm \<Rightarrow>
   int option \<Rightarrow> int \<Rightarrow> u8 list \<Rightarrow>
   (int \<times> int \<times> int \<times> u8 list \<times> int option \<times> rcdhead \<times> oclk \<times> oclk \<times> ctm) option" where
  "read_file junk tz dsz etime date date1 mx fs hd0 oc oc2 tmi unit num out =
     (case fs date of None \<Rightarrow> Some (mx, num, junk, out, unit, hd0, oc, oc2, tmi)
      | Some bs \<Rightarrow>
          (case fread (rcdhead_bytes hd0) (fopen_at_start bs) of (ok, hb, f) \<Rightarrow>
             let h = rcdhead_of hb in
             if \<not> ok \<or> rh_date h \<noteq> date then Some (mx, num, junk, out, unit, h, oc, oc2, tmi)
             else
               (let tmi = (if date \<noteq> date1
                           then tmi\<lparr>tm_year := date sdiv 10000 - 1900, tm_mon := (date smod 10000) sdiv 100 - 1,
                                    tm_mday := date smod 100, tm_hour := 0, tm_min := 0, tm_sec := 0\<rparr>
                           else tmi)
                in case LocateRead junk tmi dsz h oc f of (found, h, oc, f) \<Rightarrow>
                     if \<not> found then Some (mx, num, junk, out, unit, h, oc, oc2, tmi)
                     else
                       (case read_hours tz dsz etime (rh_count h) mx num junk out oc oc2 tmi f of None \<Rightarrow> None
                        | Some (mx, num, secs, out, oc', oc2, tmi) \<Rightarrow>
                            Some (mx, num, secs, out, Some (oc_unit oc), h, oc', oc2, tmi)))))"

partial_function (option) read_files ::
  "int \<Rightarrow> int \<Rightarrow> int \<Rightarrow> int \<Rightarrow> int \<Rightarrow> int \<Rightarrow> int \<Rightarrow> (int \<Rightarrow> u8 list option) \<Rightarrow> rcdhead \<Rightarrow> oclk \<Rightarrow> oclk \<Rightarrow> ctm \<Rightarrow>
   int option \<Rightarrow> int \<Rightarrow> u8 list \<Rightarrow> int loopbuf \<Rightarrow> (int option \<times> u8 list \<times> int \<times> int loopbuf) option" where
  "read_files junk tz dsz etime date date1 mx fs h oc oc2 tmi unit num out lb =
     (if num < mx then
        (case Read date lb of None \<Rightarrow> None
         | Some (r, date, lb) \<Rightarrow>
             if r < 0 then Some (unit, out, num, lb)
             else
               (case read_file junk tz dsz etime date date1 mx fs h oc oc2 tmi unit num out of None \<Rightarrow> None
                | Some (mx, num, secs, out, unit, h, oc, oc2, tmi) \<Rightarrow>
                    read_files junk tz dsz etime date date1 mx fs h oc oc2 tmi unit num out lb))
      else Some (unit, out, num, lb))"

text \<open>
  \<open>ReadRecData\<close>: the unit byte (None: not written), the bytes from \<open>buf + 3\<close> on, the number of records and
  the ring, whose read position moves.  \<open>h0\<close>, \<open>oc0\<close>, \<open>oc2\<close> and \<open>junk\<close> are the uninitialised variables.
\<close>

definition ReadRecData ::
  "int \<Rightarrow> int \<Rightarrow> rcdhead \<Rightarrow> oclk \<Rightarrow> oclk \<Rightarrow> int \<Rightarrow> (int \<Rightarrow> u8 list option) \<Rightarrow> int \<Rightarrow> int \<Rightarrow> int \<Rightarrow> int loopbuf \<Rightarrow>
   (int option \<times> u8 list \<times> int \<times> int loopbuf) option" where
  "ReadRecData junk tz h0 oc0 oc2 dsz fs stime etime max_num lb =
     (let mx = (if max_num = 0 then 255 else max_num);
          tmi = GmTime (stime + 1);
          date1 = date_of tmi
      in case Match CompareInt junk junk junk date1 (- 1) lb of None \<Rightarrow> None
         | Some (ofst, lb) \<Rightarrow>
             if ofst < 0 then Some (None, [], 0, lb)
             else read_files junk tz dsz etime junk date1 mx fs h0 oc0 oc2 tmi None 0 [] (Seek ofst lb))"

section \<open>Bytes\<close>

named_theorems file_simps \<open>reading and writing at a known place\<close>

lemma uint_byte: "uint (word_of_int n :: u8) = n mod 256"
  by (simp add: unsigned_of_int take_bit_eq_mod)

lemma mod_split: "0 \<le> c \<Longrightarrow> n mod (b * c) = b * (n div b mod c) + n mod (b :: int)"
  by (rule zmod_zmult2_eq)

lemma mod_65536: "n mod 256 + 256 * (n div 256 mod 256) = n mod (65536 :: int)"
proof -
  have "n mod (256 * 256) = 256 * (n div 256 mod 256) + n mod 256" by (rule mod_split) (rule zero_le_numeral)
  moreover have "256 * 256 = (65536 :: int)" by simp
  ultimately show ?thesis by (simp only: add.commute)
qed

lemma mod_2_32:
  "n mod 256 + 256 * (n div 256 mod 256) + 65536 * (n div 65536 mod 256) + 16777216 * (n div 16777216 mod 256) = n mod (4294967296 :: int)"
proof -
  have a: "n mod (65536 * 256) = 65536 * (n div 65536 mod 256) + n mod 65536" by (rule mod_split) (rule zero_le_numeral)
  have b: "n mod (16777216 * 256) = 16777216 * (n div 16777216 mod 256) + n mod 16777216" by (rule mod_split) (rule zero_le_numeral)
  have k: "65536 * 256 = (16777216 :: int)" "16777216 * 256 = (4294967296 :: int)" by simp_all
  show ?thesis using a b unfolding k mod_65536 by (simp only: add.commute)
qed

lemma wrapped:
  fixes n b m :: int
  assumes "0 < b" "m = 2 * b" "- b \<le> n" "n < b"
  shows "(if n mod m < b then n mod m else n mod m - m) = n"
proof (cases "0 \<le> n")
  case True
  then have "n mod m = n" using assms by (intro mod_pos_pos_trivial) auto
  then show ?thesis using assms(4) by simp
next
  case False
  have "n mod m = (n + m) mod m" by simp
  also have "\<dots> = n + m" using assms False by (intro mod_pos_pos_trivial) auto
  finally show ?thesis using assms False by simp
qed

lemma short_of_le16 [file_simps]: "- 32768 \<le> n \<Longrightarrow> n < 32768 \<Longrightarrow> short_of (le16 n @ r) = n"
  using wrapped [of 32768 65536 n] by (simp add: short_of_def le16_def uint_byte mod_65536 Let_def)

lemma long_of_le32 [file_simps]: "- 2147483648 \<le> n \<Longrightarrow> n < 2147483648 \<Longrightarrow> long_of (le32 n @ r) = n"
  using wrapped [of 2147483648 4294967296 n] by (simp add: long_of_def le32_def uint_byte mod_2_32 Let_def)

lemma length_le16 [simp]: "length (le16 n) = 2"
  by (simp add: le16_def)

lemma length_oclk_bytes [simp]: "length (oclk_bytes oc) = 4"
  by (simp add: oclk_bytes_def)

lemma oclk_of_bytes [file_simps]:
  "0 \<le> h \<Longrightarrow> h < 256 \<Longrightarrow> 0 \<le> u \<Longrightarrow> u < 256 \<Longrightarrow> - 32768 \<le> c \<Longrightarrow> c < 32768 \<Longrightarrow>
   oclk_of (oclk_bytes \<lparr>oc_hour = h, oc_unit = u, oc_count = c\<rparr>) = \<lparr>oc_hour = h, oc_unit = u, oc_count = c\<rparr>"
  using short_of_le16 [of c "[]"]
  by (simp add: oclk_of_def oclk_bytes_def uint_byte)

lemma rcdhead_of_bytes [file_simps]:
  "- 2147483648 \<le> d \<Longrightarrow> d < 2147483648 \<Longrightarrow> - 32768 \<le> c \<Longrightarrow> c < 32768 \<Longrightarrow>
   rcdhead_of (rcdhead_bytes \<lparr>rh_date = d, rh_count = c, rh_rsv = r\<rparr>) = \<lparr>rh_date = d, rh_count = c, rh_rsv = r\<rparr>"
  using short_of_le16 [of c r] long_of_le32 [of d "le16 c @ r"]
  by (simp add: rcdhead_of_def rcdhead_bytes_def)

lemma fread_at:
  assumes "fdata f = a @ b @ c" "fpos f = int (length a)" "length old = length b"
  shows "fread old f = (True, b, f\<lparr>fpos := int (length (a @ b))\<rparr>)"
  using assms by (simp add: fread_def Let_def)

lemma fwrite_at:
  assumes "fdata f = a @ b @ c" "fpos f = int (length a)" "length bs = length b"
  shows "fwrite bs f = f\<lparr>fdata := a @ bs @ c, fpos := int (length (a @ bs))\<rparr>"
  using assms by (simp add: fwrite_def Let_def)

lemma fwrite_end:
  assumes "fpos f = int (length (fdata f))"
  shows "fwrite bs f = f\<lparr>fdata := fdata f @ bs, fpos := int (length (fdata f @ bs))\<rparr>"
  using assms by (simp add: fwrite_def Let_def)

lemma read_oclk_at:
  assumes "fdata f = a @ oclk_bytes \<lparr>oc_hour = h, oc_unit = u, oc_count = n\<rparr> @ c" "fpos f = int (length a)"
    "0 \<le> h" "h < 256" "0 \<le> u" "u < 256" "- 32768 \<le> n" "n < 32768"
  shows "read_oclk old f = (True, \<lparr>oc_hour = h, oc_unit = u, oc_count = n\<rparr>, f\<lparr>fpos := int (length a) + 4\<rparr>)"
  using fread_at [OF assms(1,2), of "oclk_bytes old"] assms(3-8)
  by (simp add: read_oclk_def oclk_of_bytes)

lemma read_short_at:
  assumes "fdata f = a @ le16 n @ c" "fpos f = int (length a)" "- 32768 \<le> n" "n < 32768"
  shows "read_short old f = (True, n, f\<lparr>fpos := int (length a) + 2\<rparr>)"
  using fread_at [OF assms(1,2), of "le16 old"] assms(3,4) short_of_le16 [of n "[]"]
  by (simp add: read_short_def)

section \<open>The layout of a file\<close>

text \<open>A block is an hour, its unit byte and its records: seconds in the hour and data.\<close>

type_synonym block = "int \<times> int \<times> (int \<times> u8 list) list"

definition rec_bytes :: "int \<times> u8 list \<Rightarrow> u8 list" where
  "rec_bytes r = le16 (fst r) @ snd r"

definition block_head :: "block \<Rightarrow> oclk" where
  "block_head b = (case b of (h, u, rs) \<Rightarrow> \<lparr>oc_hour = h, oc_unit = u, oc_count = int (length rs)\<rparr>)"

lemma block_head_hour: "oc_hour (block_head b) = fst b"
  by (cases b) (simp add: block_head_def)

definition recs_bytes :: "(int \<times> u8 list) list \<Rightarrow> u8 list" where
  "recs_bytes rs = concat (map rec_bytes rs)"

definition block_bytes :: "block \<Rightarrow> u8 list" where
  "block_bytes b = oclk_bytes (block_head b) @ recs_bytes (snd (snd b))"

definition blocks_bytes :: "block list \<Rightarrow> u8 list" where
  "blocks_bytes bs = concat (map block_bytes bs)"

definition block_ok :: "int \<Rightarrow> block \<Rightarrow> bool" where
  "block_ok dsz b \<longleftrightarrow> 0 \<le> fst b \<and> fst b < 24 \<and> 0 \<le> fst (snd b) \<and> fst (snd b) < 256 \<and>
     length (snd (snd b)) < 32768 \<and> (\<forall>r \<in> set (snd (snd b)). 0 \<le> fst r \<and> fst r < 3600 \<and> int (length (snd r)) = dsz)"

lemma bytes_append [simp]:
  "recs_bytes [] = []" "recs_bytes (r # rs) = rec_bytes r @ recs_bytes rs" "recs_bytes (rs @ rs') = recs_bytes rs @ recs_bytes rs'"
  "blocks_bytes [] = []" "blocks_bytes (b # bs) = block_bytes b @ blocks_bytes bs" "blocks_bytes (bs @ bs') = blocks_bytes bs @ blocks_bytes bs'"
  by (simp_all add: recs_bytes_def blocks_bytes_def)

lemma length_rec_bytes: "int (length (snd r)) = dsz \<Longrightarrow> int (length (rec_bytes r)) = dsz + 2"
  by (simp add: rec_bytes_def)

lemma length_recs_bytes:
  "\<forall>r \<in> set rs. int (length (snd r)) = dsz \<Longrightarrow> int (length (recs_bytes rs)) = (dsz + 2) * int (length rs)"
  by (induction rs) (auto simp: length_rec_bytes distrib_left)

lemma read_block_head:
  assumes "fdata f = a @ block_bytes b @ c" "fpos f = int (length a)" "block_ok dsz b"
  shows "read_oclk old f = (True, block_head b, f\<lparr>fpos := int (length a) + 4\<rparr>)"
proof (cases b)
  case (fields h u rs)
  then show ?thesis using assms read_oclk_at [of f a h u "int (length rs)" "recs_bytes rs @ c" old]
    by (simp add: block_bytes_def block_head_def block_ok_def)
qed

lemma fseek_cur_nonneg: "0 \<le> fpos f + k \<Longrightarrow> fseek_cur k f = f\<lparr>fpos := fpos f + k\<rparr>"
  by (simp add: fseek_cur_def fseek_set_def)

lemma skip_records:
  assumes "block_ok dsz b" "0 \<le> fpos f" "0 \<le> dsz"
  shows "fseek_cur ((dsz + 2) * oc_count (block_head b)) (f\<lparr>fpos := fpos f + 4\<rparr>) = f\<lparr>fpos := fpos f + int (length (block_bytes b))\<rparr>"
proof (cases b)
  case (fields h u rs)
  then have "int (length (recs_bytes rs)) = (dsz + 2) * int (length rs)"
    using assms(1) by (intro length_recs_bytes) (simp add: block_ok_def)
  then show ?thesis using fields assms(2,3)
    by (simp add: block_bytes_def block_head_def fseek_cur_def fseek_set_def)
qed

section \<open>Scanning\<close>

lemma fpos_same: "fpos f = n \<Longrightarrow> f\<lparr>fpos := n\<rparr> = f"
  by (cases f) simp

lemma scan_oclock_skip:
  assumes "0 \<le> dsz"
  shows "\<forall>b \<in> set bs. block_ok dsz b \<and> fst b < hour \<Longrightarrow> fdata f = a @ blocks_bytes bs @ c \<Longrightarrow> fpos f = int (length a) \<Longrightarrow>
    count = i + int (length bs) + int k \<Longrightarrow>
    scan_oclock hour (dsz + 2) count i oc f =
      scan_oclock hour (dsz + 2) count (i + int (length bs)) (if bs = [] then oc else block_head (last bs))
        (f\<lparr>fpos := int (length (a @ blocks_bytes bs))\<rparr>)"
proof (induction bs arbitrary: a i oc f)
  case Nil
  then show ?case by (simp add: fpos_same)
next
  case (Cons b bs)
  have ok: "block_ok dsz b" "fst b < hour" using Cons.prems(1) by auto
  have d: "fdata f = a @ block_bytes b @ blocks_bytes bs @ c" using Cons.prems(2) by simp
  have r: "read_oclk oc f = (True, block_head b, f\<lparr>fpos := fpos f + 4\<rparr>)"
    using read_block_head [OF d Cons.prems(3) ok(1)] Cons.prems(3) by simp
  let ?f = "f\<lparr>fpos := fpos f + int (length (block_bytes b))\<rparr>"
  have "scan_oclock hour (dsz + 2) count i oc f = scan_oclock hour (dsz + 2) count (i + 1) (block_head b) ?f"
    using r ok skip_records [OF ok(1) _ assms, of f] Cons.prems(3,4)
    by (subst scan_oclock.simps) (auto simp: block_head_def split: prod.splits)
  also have "\<dots> = scan_oclock hour (dsz + 2) count (i + 1 + int (length bs)) (if bs = [] then block_head b else block_head (last bs))
      (?f\<lparr>fpos := int (length ((a @ block_bytes b) @ blocks_bytes bs))\<rparr>)"
    using Cons.prems by (intro Cons.IH) auto
  finally show ?case by (simp add: add.assoc)
qed

lemma scan_oclock_stop:
  assumes "fdata f = a @ block_bytes b @ c" "fpos f = int (length a)" "block_ok dsz b" "hour \<le> fst b" "i < count"
  shows "scan_oclock hour (dsz + 2) count i oc f = (i, block_head b, f\<lparr>fpos := int (length a) + 4\<rparr>)"
  using read_block_head [OF assms(1-3)] assms(4,5)
  by (subst scan_oclock.simps) (auto simp: block_head_def split: prod.splits)

lemma scan_oclock_end: "count \<le> i \<Longrightarrow> scan_oclock hour rs count i oc f = (i, oc, f)"
  by (subst scan_oclock.simps) simp

lemma scan_secs_skip:
  assumes "0 \<le> dsz"
  shows "\<forall>r \<in> set rs. fst r < hsec \<and> - 32768 \<le> fst r \<and> fst r < 32768 \<and> int (length (snd r)) = dsz \<Longrightarrow>
    fdata f = a @ recs_bytes rs @ c \<Longrightarrow> fpos f = int (length a) \<Longrightarrow> count = i + int (length rs) + int k \<Longrightarrow>
    scan_secs hsec dsz count i secs f =
      scan_secs hsec dsz count (i + int (length rs)) (if rs = [] then secs else fst (last rs))
        (f\<lparr>fpos := int (length (a @ recs_bytes rs))\<rparr>)"
proof (induction rs arbitrary: a i secs f)
  case Nil
  then show ?case by (simp add: fpos_same)
next
  case (Cons r rs)
  have "fdata f = a @ le16 (fst r) @ snd r @ recs_bytes rs @ c" using Cons.prems(2) by (simp add: rec_bytes_def)
  from read_short_at [OF this Cons.prems(3)] Cons.prems(1)
  have r: "read_short secs f = (True, fst r, f\<lparr>fpos := int (length a) + 2\<rparr>)" by simp
  let ?f = "f\<lparr>fpos := int (length (a @ rec_bytes r))\<rparr>"
  have "fseek_cur dsz (f\<lparr>fpos := int (length a) + 2\<rparr>) = ?f"
    using assms Cons.prems(1) by (simp add: fseek_cur_nonneg length_rec_bytes)
  then have "scan_secs hsec dsz count i secs f = scan_secs hsec dsz count (i + 1) (fst r) ?f"
    using r Cons.prems(1,4) by (subst scan_secs.simps) auto
  also have "\<dots> = scan_secs hsec dsz count (i + 1 + int (length rs)) (if rs = [] then fst r else fst (last rs))
      (?f\<lparr>fpos := int (length ((a @ rec_bytes r) @ recs_bytes rs))\<rparr>)"
    using Cons.prems by (intro Cons.IH) auto
  finally show ?case by (simp add: add.assoc)
qed

lemma scan_secs_stop:
  assumes "fdata f = a @ rec_bytes r @ c" "fpos f = int (length a)" "hsec \<le> fst r" "- 32768 \<le> fst r" "fst r < 32768" "i < count"
  shows "scan_secs hsec dsz count i secs f = (i, fst r, f)"
proof -
  have "fdata f = a @ le16 (fst r) @ snd r @ c" using assms(1) by (simp add: rec_bytes_def)
  from read_short_at [OF this assms(2,4,5)] show ?thesis
    using assms(2,3,6) by (subst scan_secs.simps) (simp add: fseek_cur_nonneg)
qed

lemma scan_secs_end: "count \<le> i \<Longrightarrow> scan_secs hsec dsz count i secs f = (i, secs, f)"
  by (subst scan_secs.simps) simp

section \<open>The first record not before a time\<close>

text \<open>
  A file of a day: the head and the blocks.  \<open>early t\<close> says of a record of an hour that it is before
  second \<open>t\<close> of the day.
\<close>

definition day_file :: "rcdhead \<Rightarrow> block list \<Rightarrow> u8 list" where
  "day_file h bs = rcdhead_bytes h @ blocks_bytes bs"

definition early :: "int \<Rightarrow> block \<Rightarrow> bool" where
  "early t b \<longleftrightarrow> (\<forall>r \<in> set (snd (snd b)). fst b * 3600 + fst r < t)"

lemma early_hour:
  assumes "early (h * 3600 + s) b" "block_ok dsz b" "snd (snd b) \<noteq> []" "0 \<le> s" "s < 3600"
  shows "fst b \<le> h" "fst b = h \<Longrightarrow> \<forall>r \<in> set (snd (snd b)). fst r < s"
proof -
  obtain r where r: "r \<in> set (snd (snd b))" using assms(3) by (cases "snd (snd b)") auto
  then have "fst b * 3600 + fst r < h * 3600 + s" "0 \<le> fst r" using assms(1,2) by (auto simp: early_def block_ok_def)
  then show "fst b \<le> h" using assms(5) by linarith
  show "\<forall>r \<in> set (snd (snd b)). fst r < s" if "fst b = h" using assms(1) that by (auto simp: early_def)
qed

lemma length_rcdhead: "length (rh_rsv h) = 6 \<Longrightarrow> length (rcdhead_bytes h) = 12"
  by (simp add: rcdhead_bytes_def)

text \<open>The scan for the hour, over the blocks \<open>pre\<close> of earlier hours to block \<open>b\<close>.\<close>

lemma scan_to_block:
  assumes "0 \<le> dsz" "length (rh_rsv h) = 6" "fdata f = day_file h (pre @ b # post)"
    "\<forall>x \<in> set pre. block_ok dsz x \<and> fst x < hour" "block_ok dsz b" "hour \<le> fst b" "count = int (length (pre @ b # post))"
  shows "scan_oclock hour (dsz + 2) count 0 oc (f\<lparr>fpos := 12\<rparr>) =
    (int (length pre), block_head b, f\<lparr>fpos := int (length (rcdhead_bytes h @ blocks_bytes pre)) + 4\<rparr>)"
proof -
  let ?a = "rcdhead_bytes h"
  have d: "fdata (f\<lparr>fpos := 12\<rparr>) = ?a @ blocks_bytes pre @ block_bytes b @ blocks_bytes post"
    using assms(3) by (simp add: day_file_def)
  have p: "fpos (f\<lparr>fpos := 12\<rparr>) = int (length ?a)" using length_rcdhead [OF assms(2)] by simp
  have c: "count = 0 + int (length pre) + int (Suc (length post))" using assms(7) by simp
  note scan_oclock_skip [OF assms(1,4) d p c]
  moreover have "scan_oclock hour (dsz + 2) count (0 + int (length pre)) oc' (f\<lparr>fpos := int (length (?a @ blocks_bytes pre))\<rparr>) =
      (0 + int (length pre), block_head b, f\<lparr>fpos := int (length (?a @ blocks_bytes pre))\<rparr>\<lparr>fpos := int (length (?a @ blocks_bytes pre)) + 4\<rparr>)" for oc'
    using assms(3,5,6,7) by (intro scan_oclock_stop [where c = "blocks_bytes post"]) (auto simp: day_file_def)
  ultimately show ?thesis by simp
qed

lemma locate_in_hour:
  assumes "0 \<le> dsz" "length (rh_rsv h) = 6" "fdata f = day_file h (pre @ (hr, u, skip @ r # rest) # post)"
    "rh_count h = int (length (pre @ (hr, u, skip @ r # rest) # post))"
    "\<forall>x \<in> set pre. block_ok dsz x \<and> fst x < hr" "block_ok dsz (hr, u, skip @ r # rest)"
    "\<forall>x \<in> set skip. fst x < tm_min tim * 60 + tm_sec tim" "tm_min tim * 60 + tm_sec tim \<le> fst r" "tm_hour tim = hr"
  shows "LocateRead junk tim dsz h oc f =
    (True, h\<lparr>rh_count := 1 + int (length post)\<rparr>, block_head (hr, u, r # rest),
     f\<lparr>fpos := int (length (rcdhead_bytes h @ blocks_bytes pre)) + 4 + int (length (recs_bytes skip))\<rparr>)"
proof -
  let ?b = "(hr, u, skip @ r # rest)" and ?s = "tm_min tim * 60 + tm_sec tim"
  let ?a = "rcdhead_bytes h @ blocks_bytes pre @ oclk_bytes (block_head ?b)"
  let ?f = "f\<lparr>fpos := int (length (rcdhead_bytes h @ blocks_bytes pre)) + 4\<rparr>"
  have scan: "scan_oclock hr (dsz + 2) (rh_count h) 0 oc (f\<lparr>fpos := 12\<rparr>) = (int (length pre), block_head ?b, ?f)"
    using assms by (intro scan_to_block) auto
  have d: "fdata ?f = ?a @ recs_bytes skip @ rec_bytes r @ recs_bytes rest @ blocks_bytes post"
    using assms(3) by (simp add: day_file_def block_bytes_def)
  have p: "fpos ?f = int (length ?a)" by simp
  have ok: "\<forall>x \<in> set skip. fst x < ?s \<and> - 32768 \<le> fst x \<and> fst x < 32768 \<and> int (length (snd x)) = dsz"
    using assms(6,7) by (force simp: block_ok_def)
  have "scan_secs ?s dsz (oc_count (block_head ?b)) 0 junk ?f =
      scan_secs ?s dsz (oc_count (block_head ?b)) (0 + int (length skip)) (if skip = [] then junk else fst (last skip))
        (?f\<lparr>fpos := int (length (?a @ recs_bytes skip))\<rparr>)"
    by (rule scan_secs_skip [OF assms(1) ok d p, of _ _ "Suc (length rest)"]) (simp add: block_head_def)
  also have "\<dots> = (0 + int (length skip), fst r, ?f\<lparr>fpos := int (length (?a @ recs_bytes skip))\<rparr>)"
    using d assms(6,8) by (intro scan_secs_stop [where c = "recs_bytes rest @ blocks_bytes post" and a = "?a @ recs_bytes skip"])
      (auto simp: block_ok_def block_head_def)
  finally show ?thesis
    using scan assms(1,4,8,9)
    by (simp add: LocateRead_def Let_def fseek_set_def block_head_def)
qed

lemma locate_next_hour:
  assumes "0 \<le> dsz" "length (rh_rsv h) = 6" "fdata f = day_file h (pre @ b # post)"
    "rh_count h = int (length (pre @ b # post))"
    "\<forall>x \<in> set pre. block_ok dsz x \<and> fst x < tm_hour tim" "block_ok dsz b" "tm_hour tim < fst b"
  shows "LocateRead junk tim dsz h oc f =
    (True, h\<lparr>rh_count := 1 + int (length post)\<rparr>, block_head b, f\<lparr>fpos := int (length (rcdhead_bytes h @ blocks_bytes pre)) + 4\<rparr>)"
proof -
  have "scan_oclock (tm_hour tim) (dsz + 2) (rh_count h) 0 oc (f\<lparr>fpos := 12\<rparr>) =
      (int (length pre), block_head b, f\<lparr>fpos := int (length (rcdhead_bytes h @ blocks_bytes pre)) + 4\<rparr>)"
    using assms by (intro scan_to_block) auto
  then show ?thesis using assms(4,7) by (auto simp: LocateRead_def Let_def fseek_set_def block_head_def split: prod.splits)
qed

lemma locate_after_hour:
  assumes "0 \<le> dsz" "length (rh_rsv h) = 6" "fdata f = day_file h (pre @ (hr, u, rs) # post)"
    "rh_count h = int (length (pre @ (hr, u, rs) # post))"
    "\<forall>x \<in> set pre. block_ok dsz x \<and> fst x < hr" "block_ok dsz (hr, u, rs)" "rs \<noteq> []"
    "\<forall>x \<in> set rs. fst x < tm_min tim * 60 + tm_sec tim" "tm_hour tim = hr"
  shows "post = [] \<Longrightarrow> \<not> fst (LocateRead junk tim dsz h oc f)"
    and "post = b # post' \<Longrightarrow> block_ok dsz b \<Longrightarrow> LocateRead junk tim dsz h oc f =
      (True, h\<lparr>rh_count := 1 + int (length post')\<rparr>, block_head b,
       f\<lparr>fpos := int (length (rcdhead_bytes h @ blocks_bytes (pre @ [(hr, u, rs)]))) + 4\<rparr>)"
proof -
  let ?b = "(hr, u, rs)" and ?s = "tm_min tim * 60 + tm_sec tim"
  let ?a = "rcdhead_bytes h @ blocks_bytes pre @ oclk_bytes (block_head ?b)"
  let ?f = "f\<lparr>fpos := int (length (rcdhead_bytes h @ blocks_bytes pre)) + 4\<rparr>"
  let ?g = "?f\<lparr>fpos := int (length (?a @ recs_bytes rs))\<rparr>"
  have scan: "scan_oclock hr (dsz + 2) (rh_count h) 0 oc (f\<lparr>fpos := 12\<rparr>) = (int (length pre), block_head ?b, ?f)"
    using assms by (intro scan_to_block) auto
  have d: "fdata ?f = ?a @ recs_bytes rs @ blocks_bytes post"
    using assms(3) by (simp add: day_file_def block_bytes_def)
  have p: "fpos ?f = int (length ?a)" by simp
  have ok: "\<forall>x \<in> set rs. fst x < ?s \<and> - 32768 \<le> fst x \<and> fst x < 32768 \<and> int (length (snd x)) = dsz"
    using assms(6,8) by (force simp: block_ok_def)
  have "scan_secs ?s dsz (oc_count (block_head ?b)) 0 junk ?f =
      scan_secs ?s dsz (oc_count (block_head ?b)) (0 + int (length rs)) (if rs = [] then junk else fst (last rs)) ?g"
    by (rule scan_secs_skip [OF assms(1) ok d p, of _ _ 0]) (simp add: block_head_def)
  then have secs: "scan_secs ?s dsz (oc_count (block_head ?b)) 0 junk ?f = (int (length rs), fst (last rs), ?g)"
    using assms(7) by (simp add: block_head_def scan_secs_end)
  have lt: "fst (last rs) < ?s" using assms(7,8) by simp
  have hour: "oc_hour (block_head ?b) = tm_hour tim" "oc_count (block_head ?b) = int (length rs)"
    using assms(9) by (simp_all add: block_head_def)
  show "\<not> fst (LocateRead junk tim dsz h oc f)" if "post = []"
    using that scan secs lt hour assms(4,9) by (simp add: LocateRead_def Let_def fseek_set_def)
  show "LocateRead junk tim dsz h oc f = (True, h\<lparr>rh_count := 1 + int (length post')\<rparr>, block_head b,
      f\<lparr>fpos := int (length (rcdhead_bytes h @ blocks_bytes (pre @ [?b]))) + 4\<rparr>)" if "post = b # post'" "block_ok dsz b"
  proof -
    have "fdata ?g = (?a @ recs_bytes rs) @ block_bytes b @ blocks_bytes post'" using d that(1) by simp
    from read_block_head [OF this _ that(2)]
    have "read_oclk x ?g = (True, block_head b, ?g\<lparr>fpos := int (length (?a @ recs_bytes rs)) + 4\<rparr>)" for x by simp
    then show ?thesis using that(1) scan secs lt hour assms(4,9)
      by (simp add: LocateRead_def Let_def fseek_set_def block_bytes_def add.assoc)
  qed
qed

lemma locate_no_hour:
  assumes "0 \<le> dsz" "length (rh_rsv h) = 6" "fdata f = day_file h bs" "rh_count h = int (length bs)" "bs \<noteq> []"
    "\<forall>x \<in> set bs. block_ok dsz x \<and> fst x < tm_hour tim"
  shows "\<not> fst (LocateRead junk tim dsz h oc f)"
proof -
  have d: "fdata (f\<lparr>fpos := 12\<rparr>) = rcdhead_bytes h @ blocks_bytes bs @ []" using assms(3) by (simp add: day_file_def)
  have p: "fpos (f\<lparr>fpos := 12\<rparr>) = int (length (rcdhead_bytes h))" using length_rcdhead [OF assms(2)] by simp
  have c: "rh_count h = 0 + int (length bs) + int 0" using assms(4) by simp
  have "fst (snd (scan_oclock (tm_hour tim) (dsz + 2) (rh_count h) 0 oc (f\<lparr>fpos := 12\<rparr>))) = block_head (last bs)"
    unfolding scan_oclock_skip [OF assms(1,6) d p c] using assms(4,5) by (simp add: scan_oclock_end)
  moreover have "oc_hour (block_head (last bs)) < tm_hour tim"
    unfolding block_head_hour using last_in_set [OF assms(5)] assms(6) by blast
  ultimately show ?thesis
    by (auto simp: LocateRead_def Let_def fseek_set_def split: prod.splits)
qed

lemma sorted_after:
  "sorted_wrt (<) (map fst (p @ b # q)) \<Longrightarrow> (\<forall>x \<in> set p. fst x < (fst b :: int)) \<and> (\<forall>x \<in> set q. fst b < fst x)"
  by (auto simp: sorted_wrt_append)

lemma locate_found:
  assumes "0 \<le> dsz" "length (rh_rsv h) = 6" "fdata f = day_file h bs" "rh_count h = int (length bs)"
    "\<forall>x \<in> set bs. block_ok dsz x \<and> snd (snd x) \<noteq> []" "sorted_wrt (<) (map fst bs)"
    "0 \<le> tm_min tim * 60 + tm_sec tim" "tm_min tim * 60 + tm_sec tim < 3600"
    "t = tm_hour tim * 3600 + (tm_min tim * 60 + tm_sec tim)"
    "bs = pre @ (hr, u, skip @ r # rest) # post" "\<forall>b \<in> set pre. early t b" "early t (hr, u, skip)" "t \<le> hr * 3600 + fst r"
  shows "LocateRead junk tim dsz h oc f =
    (True, h\<lparr>rh_count := 1 + int (length post)\<rparr>, block_head (hr, u, r # rest),
     f\<lparr>fpos := int (length (rcdhead_bytes h @ blocks_bytes pre)) + 4 + int (length (recs_bytes skip))\<rparr>)"
proof -
  let ?s = "tm_min tim * 60 + tm_sec tim" and ?b = "(hr, u, skip @ r # rest)"
  have b: "block_ok dsz ?b" and pre: "\<forall>x \<in> set pre. block_ok dsz x \<and> snd (snd x) \<noteq> []" using assms(5,10) by auto
  have srt: "\<forall>x \<in> set pre. fst x < hr" using sorted_after [of pre ?b post] assms(6,10) by simp
  have le: "\<forall>x \<in> set pre. fst x \<le> tm_hour tim"
    using early_hour(1) [OF _ _ _ assms(7,8)] pre assms(9,11) by blast
  have r: "0 \<le> fst r" "fst r < 3600" using b by (auto simp: block_ok_def)
  have "tm_hour tim \<le> hr"
  proof (rule ccontr)
    assume "\<not> tm_hour tim \<le> hr"
    then have "hr * 3600 + 3600 \<le> tm_hour tim * 3600" by simp
    then show False using r(2) assms(7,9,13) by linarith
  qed
  then consider "hr = tm_hour tim" | "tm_hour tim < hr" by linarith
  then show ?thesis
  proof cases
    case 1
    then have "\<forall>x \<in> set skip. fst x < ?s" "?s \<le> fst r" using assms(9,12,13) by (auto simp: early_def)
    then show ?thesis using assms(1-4,10) pre srt b 1
      by (intro locate_in_hour [where pre = pre and post = post]) auto
  next
    case 2
    have "skip = []"
    proof (rule ccontr)
      assume "skip \<noteq> []"
      then obtain x where x: "x \<in> set skip" by (cases skip) auto
      then have "hr * 3600 + fst x < t" "0 \<le> fst x" using assms(12) b by (auto simp: early_def block_ok_def)
      moreover have "tm_hour tim * 3600 + 3600 \<le> hr * 3600" using 2 by simp
      ultimately show False using assms(8,9) by linarith
    qed
    show ?thesis
    proof (cases "\<exists>x \<in> set pre. fst x = tm_hour tim")
      case True
      then obtain x p q where x: "pre = p @ x # q" "fst x = tm_hour tim" by (meson split_list)
      have "\<forall>y \<in> set q. fst x < fst y" "\<forall>y \<in> set p. fst y < fst x"
        using sorted_after [of p x "q @ ?b # post"] assms(6,10) x(1) by auto
      moreover have "q = []"
      proof (rule ccontr)
        assume "q \<noteq> []"
        then have "last q \<in> set q" by simp
        then show False using calculation(1) le x by force
      qed
      moreover obtain u' rs' where x': "x = (tm_hour tim, u', rs')" using x(2) by (cases x) auto
      moreover have "\<forall>y \<in> set rs'. fst y < ?s"
        using early_hour(2) [of "tm_hour tim" ?s x dsz] assms(7,8,9,11) pre x x' by auto
      ultimately show ?thesis
        using locate_after_hour(2) [of dsz h f p "tm_hour tim" u' rs' "?b # post" tim ?b post junk oc]
          assms(1-4,10) pre b x \<open>skip = []\<close> by auto
    next
      case False
      then have "\<forall>x \<in> set pre. fst x < tm_hour tim" using le by force
      then show ?thesis using assms(1-4,10) pre b 2 \<open>skip = []\<close>
        using locate_next_hour [of dsz h f pre ?b post tim junk oc] by auto
    qed
  qed
qed

lemma locate_not_found:
  assumes "0 \<le> dsz" "length (rh_rsv h) = 6" "fdata f = day_file h bs" "rh_count h = int (length bs)" "bs \<noteq> []"
    "\<forall>x \<in> set bs. block_ok dsz x \<and> snd (snd x) \<noteq> []" "sorted_wrt (<) (map fst bs)"
    "0 \<le> tm_min tim * 60 + tm_sec tim" "tm_min tim * 60 + tm_sec tim < 3600"
    "t = tm_hour tim * 3600 + (tm_min tim * 60 + tm_sec tim)" "\<forall>b \<in> set bs. early t b"
  shows "\<not> fst (LocateRead junk tim dsz h oc f)"
proof -
  let ?s = "tm_min tim * 60 + tm_sec tim"
  have le: "\<forall>x \<in> set bs. fst x \<le> tm_hour tim"
    using early_hour(1) [OF _ _ _ assms(8,9)] assms(6,10,11) by blast
  show ?thesis
  proof (cases "\<exists>x \<in> set bs. fst x = tm_hour tim")
    case True
    then obtain x p q where x: "bs = p @ x # q" "fst x = tm_hour tim" by (meson split_list)
    have srt: "\<forall>y \<in> set q. fst x < fst y" "\<forall>y \<in> set p. fst y < fst x"
      using sorted_after [of p x q] assms(7) x(1) by auto
    have q: "q = []"
    proof (rule ccontr)
      assume "q \<noteq> []"
      then have "last q \<in> set q" by simp
      then show False using srt(1) le x by force
    qed
    obtain u' rs' where x': "x = (tm_hour tim, u', rs')" using x(2) by (cases x) auto
    have "\<forall>y \<in> set rs'. fst y < ?s"
      using early_hour(2) [of "tm_hour tim" ?s x dsz] assms(6,8-11) x x' by auto
    then show ?thesis
      using locate_after_hour(1) [of dsz h f p "tm_hour tim" u' rs' q tim junk oc] assms(1-4,6) srt x x' q by auto
  next
    case False
    then have "\<forall>x \<in> set bs. fst x < tm_hour tim" using le by force
    then show ?thesis using assms(1-6) by (intro locate_no_hour [of dsz h f bs]) auto
  qed
qed

text \<open>
  C21. On a day file whose hours ascend and have records in range, \<open>LocateRead\<close> finds a record exactly when some
  record is not before the given time of the day.  If \<open>r\<close> is the first such record in file order, the stream is
  left at it, and the hour's head and the file's head count the records of the hour and the hours that remain.
\<close>

theorem locate_read_finds:
  assumes "0 \<le> dsz" "length (rh_rsv h) = 6" "fdata f = day_file h bs" "rh_count h = int (length bs)" "bs \<noteq> []"
    "\<forall>x \<in> set bs. block_ok dsz x \<and> snd (snd x) \<noteq> []" "sorted_wrt (<) (map fst bs)"
    "0 \<le> tm_min tim * 60 + tm_sec tim" "tm_min tim * 60 + tm_sec tim < 3600"
    "t = tm_hour tim * 3600 + (tm_min tim * 60 + tm_sec tim)"
  shows "((\<forall>b \<in> set bs. early t b) \<longrightarrow> \<not> fst (LocateRead junk tim dsz h oc f)) \<and>
    (\<forall>pre hr u skip r rest post.
      bs = pre @ (hr, u, skip @ r # rest) # post \<and> (\<forall>b \<in> set pre. early t b) \<and> early t (hr, u, skip) \<and> t \<le> hr * 3600 + fst r \<longrightarrow>
      LocateRead junk tim dsz h oc f =
      (True, h\<lparr>rh_count := 1 + int (length post)\<rparr>, block_head (hr, u, r # rest),
       f\<lparr>fpos := int (length (rcdhead_bytes h @ blocks_bytes pre)) + 4 + int (length (recs_bytes skip))\<rparr>))"
  using locate_not_found [OF assms(1-10)] locate_found [OF assms(1-4,6-10)] by blast

definition two_hours :: "block list" where
  "two_hours = [(9, 0, [(10, [1, 2]), (20, [3, 4])]), (11, 0, [(5, [5, 6])])]"

definition two_hours_head :: rcdhead where
  "two_hours_head = \<lparr>rh_date = 20180103, rh_count = 2, rh_rsv = replicate 6 0\<rparr>"

theorem locate_read_finds_witness:
  "LocateRead 0 \<lparr>tm_sec = 15, tm_min = 0, tm_hour = 9, tm_mday = 3, tm_mon = 0, tm_year = 118, tm_isdst = 0\<rparr> 2 two_hours_head
     \<lparr>oc_hour = 0, oc_unit = 0, oc_count = 0\<rparr> \<lparr>fdata = day_file two_hours_head two_hours, fpos = 12\<rparr> =
   (True, two_hours_head, \<lparr>oc_hour = 9, oc_unit = 0, oc_count = 1\<rparr>, \<lparr>fdata = day_file two_hours_head two_hours, fpos = 20\<rparr>)"
proof -
  let ?tim = "\<lparr>tm_sec = 15, tm_min = 0, tm_hour = 9, tm_mday = 3, tm_mon = 0, tm_year = 118, tm_isdst = 0\<rparr>"
  let ?f = "\<lparr>fdata = day_file two_hours_head two_hours, fpos = 12\<rparr>" and ?oc = "\<lparr>oc_hour = 0, oc_unit = 0, oc_count = 0\<rparr>"
  have "((\<forall>b \<in> set two_hours. early 32415 b) \<longrightarrow> \<not> fst (LocateRead 0 ?tim 2 two_hours_head ?oc ?f)) \<and>
    (\<forall>pre hr u skip r rest post.
      two_hours = pre @ (hr, u, skip @ r # rest) # post \<and> (\<forall>b \<in> set pre. early 32415 b) \<and> early 32415 (hr, u, skip) \<and>
        32415 \<le> hr * 3600 + fst r \<longrightarrow>
      LocateRead 0 ?tim 2 two_hours_head ?oc ?f =
      (True, two_hours_head\<lparr>rh_count := 1 + int (length post)\<rparr>, block_head (hr, u, r # rest),
       ?f\<lparr>fpos := int (length (rcdhead_bytes two_hours_head @ blocks_bytes pre)) + 4 + int (length (recs_bytes skip))\<rparr>))"
    by (rule locate_read_finds) (simp_all add: two_hours_head_def two_hours_def block_ok_def)
  from conjunct2 [OF this, rule_format, of "[]" 9 0 "[(10, [1, 2])]" "(20, [3, 4])" "[]" "[(11, 0, [(5, [5, 6])])]"]
  have "LocateRead 0 ?tim 2 two_hours_head ?oc ?f =
      (True, two_hours_head\<lparr>rh_count := 2\<rparr>, block_head (9, 0, [(20, [3, 4])]),
       ?f\<lparr>fpos := int (length (rcdhead_bytes two_hours_head)) + 4 + int (length (recs_bytes [(10, [1, 2])]))\<rparr>)"
    by (simp add: two_hours_def early_def)
  then show ?thesis by (simp add: two_hours_head_def block_head_def rec_bytes_def rcdhead_bytes_def)
qed

section \<open>Writing\<close>

lemma SAVE_OCLOCK_at:
  assumes "fdata f = a @ oclk_bytes old @ recs_bytes rs" "fpos f = int (length (fdata f))"
    "\<forall>r \<in> set rs. int (length (snd r)) = dsz" "oc_count oc = int (length rs)"
  shows "SAVE_OCLOCK oc dsz f = f\<lparr>fdata := a @ oclk_bytes oc @ recs_bytes rs\<rparr>"
proof -
  have len: "(dsz + 2) * oc_count oc = int (length (recs_bytes rs))"
    using length_recs_bytes [OF assms(3)] assms(4) by simp
  let ?g = "f\<lparr>fpos := int (length a)\<rparr>"
  have "fseek_cur (- ((dsz + 2) * oc_count oc) - 4) f = ?g"
    unfolding len using assms(1,2) by (simp add: fseek_cur_nonneg)
  moreover have "fwrite (oclk_bytes oc) ?g = f\<lparr>fdata := a @ oclk_bytes oc @ recs_bytes rs, fpos := int (length (a @ oclk_bytes oc))\<rparr>"
    using fwrite_at [of ?g a "oclk_bytes old" "recs_bytes rs" "oclk_bytes oc"] assms(1) by simp
  ultimately show ?thesis unfolding SAVE_OCLOCK_def Let_def len using assms(1,2)
    by (cases f) (simp add: fseek_cur_nonneg)
qed

lemma SAVE_RCDHEAD_at:
  assumes "fdata f = rcdhead_bytes h' @ c" "length (rh_rsv h) = 6" "length (rh_rsv h') = 6" "0 \<le> fpos f"
  shows "SAVE_RCDHEAD h f = f\<lparr>fdata := rcdhead_bytes h @ c\<rparr>"
  using fwrite_at [of "f\<lparr>fpos := 0\<rparr>" "[]" "rcdhead_bytes h'" c "rcdhead_bytes h"] assms
  by (cases f) (simp add: SAVE_RCDHEAD_def fseek_set_def length_rcdhead Let_def)

text \<open>
  The open file holds the blocks \<open>bs\<close>: the stream is at its end, and only the count in the file of the last
  hour may lag behind the one in memory.
\<close>

definition holds :: "int \<Rightarrow> int \<Rightarrow> block list \<Rightarrow> recsave \<Rightarrow> bool" where
  "holds dsz n bs s \<longleftrightarrow> (\<exists>f c pre h u rs.
     f_rcd s = Some (n, f) \<and> bs = pre @ [(h, u, rs)] \<and> length (rh_rsv (rcd_file_head s)) = 6 \<and>
     rh_count (rcd_file_head s) = int (length bs) \<and> oclock_rcd s = block_head (h, u, rs) \<and>
     (\<forall>b \<in> set bs. \<forall>r \<in> set (snd (snd b)). int (length (snd r)) = dsz) \<and>
     fdata f = rcdhead_bytes (rcd_file_head s) @ blocks_bytes pre @ oclk_bytes \<lparr>oc_hour = h, oc_unit = u, oc_count = c\<rparr> @ recs_bytes rs \<and>
     fpos f = int (length (fdata f)))"

text \<open>The abstract operation: a record joins the last hour or opens a new one.\<close>

definition add_rec :: "int \<Rightarrow> int \<Rightarrow> int \<times> u8 list \<Rightarrow> block list \<Rightarrow> block list" where
  "add_rec hr u r bs =
     (if fst (last bs) = hr then butlast bs @ [(hr, fst (snd (last bs)), snd (snd (last bs)) @ [r])]
      else bs @ [(hr, u, [r])])"

text \<open>After the counts are written the file is exactly the day file.\<close>

lemma flushed:
  assumes "holds dsz n bs s"
  shows "\<exists>f. f_rcd (with_file (SAVE_OCLOCK (oclock_rcd s) dsz) s) = Some (n, f) \<and> fdata f = day_file (rcd_file_head s) bs"
    and "holds dsz n bs (with_file (SAVE_OCLOCK (oclock_rcd s) dsz) s)"
proof -
  obtain f c pre h u rs where f: "f_rcd s = Some (n, f)" "bs = pre @ [(h, u, rs)]" "length (rh_rsv (rcd_file_head s)) = 6"
      "rh_count (rcd_file_head s) = int (length bs)" "oclock_rcd s = block_head (h, u, rs)"
      "\<forall>b \<in> set bs. \<forall>r \<in> set (snd (snd b)). int (length (snd r)) = dsz"
      "fdata f = rcdhead_bytes (rcd_file_head s) @ blocks_bytes pre @ oclk_bytes \<lparr>oc_hour = h, oc_unit = u, oc_count = c\<rparr> @ recs_bytes rs"
      "fpos f = int (length (fdata f))"
    using assms unfolding holds_def by blast
  have "SAVE_OCLOCK (block_head (h, u, rs)) dsz f =
      f\<lparr>fdata := (rcdhead_bytes (rcd_file_head s) @ blocks_bytes pre) @ oclk_bytes (block_head (h, u, rs)) @ recs_bytes rs\<rparr>"
    using f by (intro SAVE_OCLOCK_at [where old = "\<lparr>oc_hour = h, oc_unit = u, oc_count = c\<rparr>"]) (auto simp: block_head_def)
  then have w: "f_rcd (with_file (SAVE_OCLOCK (oclock_rcd s) dsz) s) =
      Some (n, f\<lparr>fdata := day_file (rcd_file_head s) bs\<rparr>)"
    using f by (simp add: with_file_def day_file_def block_bytes_def)
  then show "\<exists>f. f_rcd (with_file (SAVE_OCLOCK (oclock_rcd s) dsz) s) = Some (n, f) \<and> fdata f = day_file (rcd_file_head s) bs" by simp
  have "length (day_file (rcd_file_head s) bs) = length (fdata f)"
    using f(2,7) by (simp add: day_file_def block_bytes_def)
  then show "holds dsz n bs (with_file (SAVE_OCLOCK (oclock_rcd s) dsz) s)"
    unfolding holds_def using w f
    by (intro exI [of _ "f\<lparr>fdata := day_file (rcd_file_head s) bs\<rparr>"] exI [of _ "int (length rs)"] exI [of _ pre] exI [of _ h] exI [of _ u] exI [of _ rs])
      (auto simp: with_file_def day_file_def block_bytes_def block_head_def)
qed

lemma append_record:
  assumes "holds dsz n bs s" "int (length data) = dsz" "fst (last bs) = hr" "length (snd (snd (last bs))) < 32767"
  shows "holds dsz n (add_rec hr u' (sec, data) bs)
    ((with_file (\<lambda>f. fwrite data (fwrite (le16 sec) f)) s)\<lparr>oclock_rcd := (oclock_rcd s)\<lparr>oc_count := s16 (oc_count (oclock_rcd s) + 1)\<rparr>\<rparr>)"
proof -
  obtain f c pre h u rs where f: "f_rcd s = Some (n, f)" "bs = pre @ [(h, u, rs)]" "length (rh_rsv (rcd_file_head s)) = 6"
      "rh_count (rcd_file_head s) = int (length bs)" "oclock_rcd s = block_head (h, u, rs)"
      "\<forall>b \<in> set bs. \<forall>r \<in> set (snd (snd b)). int (length (snd r)) = dsz"
      "fdata f = rcdhead_bytes (rcd_file_head s) @ blocks_bytes pre @ oclk_bytes \<lparr>oc_hour = h, oc_unit = u, oc_count = c\<rparr> @ recs_bytes rs"
      "fpos f = int (length (fdata f))"
    using assms(1) unfolding holds_def by blast
  have w: "fwrite data (fwrite (le16 sec) f) =
      f\<lparr>fdata := fdata f @ rec_bytes (sec, data), fpos := int (length (fdata f @ rec_bytes (sec, data)))\<rparr>"
    using fwrite_end [OF f(8)] by (simp add: fwrite_end rec_bytes_def)
  have "add_rec hr u' (sec, data) bs = pre @ [(h, u, rs @ [(sec, data)])]"
    using f(2) assms(3) by (simp add: add_rec_def)
  then show ?thesis unfolding holds_def using f w assms(2,4)
    by (intro exI [of _ "f\<lparr>fdata := fdata f @ rec_bytes (sec, data), fpos := int (length (fdata f @ rec_bytes (sec, data)))\<rparr>"]
        exI [of _ c] exI [of _ pre] exI [of _ h] exI [of _ u] exI [of _ "rs @ [(sec, data)]"])
      (auto simp: with_file_def block_head_def s16_id)
qed

lemma open_hour:
  assumes "holds dsz n bs s" "h' = (rcd_file_head s)\<lparr>rh_count := s16 (rh_count (rcd_file_head s) + 1)\<rparr>" "length bs < 32767"
    "fr = \<lparr>oc_hour = hr, oc_unit = u, oc_count = 0\<rparr>"
  shows "holds dsz n (bs @ [(hr, u, [])])
    (with_file (\<lambda>f. SAVE_RCDHEAD h' (fwrite (oclk_bytes fr) f))
      ((with_file (SAVE_OCLOCK (oclock_rcd s) dsz) s)\<lparr>oclock_rcd := fr, rcd_file_head := h'\<rparr>))"
proof -
  obtain g where g: "f_rcd (with_file (SAVE_OCLOCK (oclock_rcd s) dsz) s) = Some (n, g)" "fdata g = day_file (rcd_file_head s) bs"
    using flushed(1) [OF assms(1)] by blast
  have hd: "length (rh_rsv (rcd_file_head s)) = 6" "rh_count (rcd_file_head s) = int (length bs)"
      "\<forall>b \<in> set bs. \<forall>r \<in> set (snd (snd b)). int (length (snd r)) = dsz"
    using assms(1) unfolding holds_def by blast+
  have end_g: "fpos g = int (length (fdata g))" using flushed(2) [OF assms(1)] g(1) unfolding holds_def by auto
  let ?k = "g\<lparr>fdata := fdata g @ oclk_bytes fr, fpos := int (length (fdata g @ oclk_bytes fr))\<rparr>"
  have "SAVE_RCDHEAD h' ?k = ?k\<lparr>fdata := rcdhead_bytes h' @ blocks_bytes bs @ oclk_bytes fr\<rparr>"
    using g(2) hd(1) assms(2) by (intro SAVE_RCDHEAD_at [where h' = "rcd_file_head s"]) (auto simp: day_file_def)
  then have w: "SAVE_RCDHEAD h' (fwrite (oclk_bytes fr) g) = ?k\<lparr>fdata := rcdhead_bytes h' @ blocks_bytes bs @ oclk_bytes fr\<rparr>"
    using fwrite_end [OF end_g] by simp
  have "length (rcdhead_bytes h') = length (rcdhead_bytes (rcd_file_head s))"
    using hd(1) assms(2) by (simp add: length_rcdhead)
  then show ?thesis unfolding holds_def using g w hd assms(2-4)
    by (intro exI [of _ "?k\<lparr>fdata := rcdhead_bytes h' @ blocks_bytes bs @ oclk_bytes fr\<rparr>"] exI [of _ 0] exI [of _ bs] exI [of _ hr]
        exI [of _ u] exI [of _ "[]"])
      (auto simp: with_file_def block_head_def day_file_def s16_id)
qed

lemma put_record_holds:
  assumes "holds dsz n bs s" "int (length data) = dsz" "length bs < 32767" "length (snd (snd (last bs))) < 32767"
  shows "holds dsz n (add_rec (tm_hour tmi) unit (tm_min tmi * 60 + tm_sec tmi, data) bs) (put_record unit dsz tmi data s)"
proof -
  let ?sec = "tm_min tmi * 60 + tm_sec tmi"
  let ?app = "\<lambda>s. (with_file (\<lambda>f. fwrite data (fwrite (le16 ?sec) f)) s)\<lparr>oclock_rcd := (oclock_rcd s)\<lparr>oc_count := s16 (oc_count (oclock_rcd s) + 1)\<rparr>\<rparr>"
  have last: "oc_hour (oclock_rcd s) = fst (last bs)"
    using assms(1) unfolding holds_def by (auto simp: block_head_def)
  have keep: "oclock_rcd (with_file g r) = oclock_rcd r" for g r by (simp add: with_file_def)
  show ?thesis
  proof (cases "tm_hour tmi = oc_hour (oclock_rcd s)")
    case True
    then have h: "fst (last bs) = tm_hour tmi" using last by simp
    show ?thesis
    proof (cases "tm_sec tmi = 0")
      case z: True
      then show ?thesis using True append_record [OF flushed(2) [OF assms(1)] assms(2) h assms(4), of unit ?sec]
        by (simp add: put_record_def Let_def keep)
    next
      case nz: False
      then show ?thesis using True append_record [OF assms(1,2) h assms(4), of unit ?sec]
        by (simp add: put_record_def Let_def keep)
    qed
  next
    case False
    let ?o = "\<lparr>oc_hour = tm_hour tmi, oc_unit = unit, oc_count = 0\<rparr>"
    let ?h = "(rcd_file_head s)\<lparr>rh_count := s16 (rh_count (rcd_file_head s) + 1)\<rparr>"
    let ?t = "with_file (\<lambda>f. SAVE_RCDHEAD ?h (fwrite (oclk_bytes ?o) f))
        ((with_file (SAVE_OCLOCK (oclock_rcd s) dsz) s)\<lparr>oclock_rcd := ?o, rcd_file_head := ?h\<rparr>)"
    have "holds dsz n (add_rec (tm_hour tmi) unit (?sec, data) (bs @ [(tm_hour tmi, unit, [])])) (?app ?t)"
      by (rule append_record [OF open_hour [OF assms(1) refl assms(3) refl] assms(2)]) simp_all
    moreover have "add_rec (tm_hour tmi) unit (?sec, data) (bs @ [(tm_hour tmi, unit, [])]) = add_rec (tm_hour tmi) unit (?sec, data) bs"
      using False last by (simp add: add_rec_def)
    moreover have "put_record unit dsz tmi data s = ?app ?t"
      using False by (simp add: put_record_def Let_def keep) (simp add: with_file_def)
    ultimately show ?thesis by simp
  qed
qed

text \<open>
  C2. Saving records of the day of the open file, one after the other and with no adjustment of the clock in between (the result of
  \<open>get_save_data\<close> is not 1, and no error), refines adding them to a list of hours: the stream stays at the end of a file whose content
  is that list, apart from the count of the last hour, and when the file is closed (its count written) the disk holds exactly the day
  file of the list, which \<open>LocateRead\<close> reads.  The list has fewer than 32767 hours, its last hour fewer than 32767 records, so that the counts,
  which are of type short, hold them.
\<close>

theorem save_record_refines:
  assumes "holds dsz n bs s" "rh_date (rcd_file_head s) = date_of tmi" "int (length data) = dsz" "0 \<le> ret" "ret \<noteq> 1"
    and "length bs < 32767" "length (snd (snd (last bs))) < 32767"
  shows "\<exists>s'. SaveRecData junk nw creatable unit dsz ret tmi data s = Some s' \<and>
    (let bs' = add_rec (tm_hour tmi) unit (tm_min tmi * 60 + tm_sec tmi, data) bs in
     holds dsz n bs' s' \<and> disk s' = disk s \<and> psave_status s' = psave_status s \<and>
     disk (close_rcd (with_file (SAVE_OCLOCK (oclock_rcd s') dsz) s')) n = Some (day_file (rcd_file_head s') bs'))"
proof -
  let ?s = "put_record unit dsz tmi data s"
  obtain f where "f_rcd s = Some (n, f)" using assms(1) unfolding holds_def by blast
  then have s: "SaveRecData junk nw creatable unit dsz ret tmi data s = Some ?s"
    using assms(2,4,5) by (simp add: SaveRecData_def Let_def)
  note h = put_record_holds [OF assms(1,3,6,7), of tmi unit]
  obtain g where g: "f_rcd (with_file (SAVE_OCLOCK (oclock_rcd ?s) dsz) ?s) = Some (n, g)"
      "fdata g = day_file (rcd_file_head ?s) (add_rec (tm_hour tmi) unit (tm_min tmi * 60 + tm_sec tmi, data) bs)"
    using flushed(1) [OF h] by blast
  have "disk ?s = disk s" "psave_status ?s = psave_status s"
    by (simp_all add: put_record_def with_file_def Let_def)
  then show ?thesis using s h g by (auto simp: close_rcd_def Let_def)
qed

definition open_day :: recsave where
  "open_day =
     \<lparr>disk = (\<lambda>_. None),
      f_rcd = Some (20180103, \<lparr>fdata = day_file \<lparr>rh_date = 20180103, rh_count = 1, rh_rsv = replicate 6 0\<rparr> [(9, 0, [(10, [1, 2])])], fpos = 20\<rparr>),
      rcd_file_head = \<lparr>rh_date = 20180103, rh_count = 1, rh_rsv = replicate 6 0\<rparr>,
      oclock_rcd = \<lparr>oc_hour = 9, oc_unit = 0, oc_count = 1\<rparr>,
      psave_status = example_dates, status_file = None\<rparr>"

lemma open_day_holds: "holds 2 20180103 [(9, 0, [(10, [1, 2])])] open_day"
  unfolding holds_def open_day_def
  by (intro exI [of _ "\<lparr>fdata = day_file \<lparr>rh_date = 20180103, rh_count = 1, rh_rsv = replicate 6 0\<rparr> [(9, 0, [(10, [1, 2])])], fpos = 20\<rparr>"]
      exI [of _ 1] exI [of _ "[]"] exI [of _ 9] exI [of _ 0] exI [of _ "[(10, [1, 2])]"])
    (simp add: day_file_def block_head_def block_bytes_def rcdhead_bytes_def rec_bytes_def)

theorem save_record_refines_witness:
  "\<exists>s'. SaveRecData 0 0 True 0 2 0 \<lparr>tm_sec = 30, tm_min = 1, tm_hour = 9, tm_mday = 3, tm_mon = 0, tm_year = 118, tm_isdst = 0\<rparr> [3, 4] open_day = Some s' \<and>
     holds 2 20180103 [(9, 0, [(10, [1, 2]), (90, [3, 4])])] s'"
  using save_record_refines [OF open_day_holds, of "\<lparr>tm_sec = 30, tm_min = 1, tm_hour = 9, tm_mday = 3, tm_mon = 0, tm_year = 118, tm_isdst = 0\<rparr>" "[3, 4]" 0 0 0 True 0]
  by (auto simp: open_day_def date_of_def add_rec_def Let_def)

section \<open>Skipping hours ends\<close>

lemma read_oclk_short: "fpos f = int (length a) \<Longrightarrow> fdata f = a @ c \<Longrightarrow> length c < 4 \<Longrightarrow> \<not> fst (read_oclk old f)"
  by (simp add: read_oclk_def fread_def Let_def split: prod.splits)

lemma next_hour_blocks:
  assumes "0 \<le> dsz"
  shows "\<forall>b \<in> set bs. block_ok dsz b \<Longrightarrow> fdata f = a @ blocks_bytes bs @ c \<Longrightarrow> fpos f = int (length a) \<Longrightarrow> length c < 4 \<Longrightarrow>
    \<exists>oc' oc2' f'. next_hour dsz oc oc2 f = Some (oc', oc2', f') \<and> fdata f' = fdata f \<and>
      (case dropWhile (\<lambda>b. fst b \<le> oc_hour oc) bs of [] \<Rightarrow> oc_count oc' = 0 | b # _ \<Rightarrow> oc' = block_head b)"
proof (induction bs arbitrary: a oc oc2 f)
  case Nil
  have "\<not> fst (read_oclk oc2 f)" using Nil.prems by (intro read_oclk_short [of f a c]) auto
  then show ?case by (subst next_hour.simps) (auto simp: read_oclk_def fread_def Let_def split: prod.splits)
next
  case (Cons b bs)
  have ok: "block_ok dsz b" using Cons.prems(1) by simp
  have d: "fdata f = a @ block_bytes b @ blocks_bytes bs @ c" using Cons.prems(2) by simp
  have r: "read_oclk oc2 f = (True, block_head b, f\<lparr>fpos := fpos f + 4\<rparr>)"
    using read_block_head [OF d Cons.prems(3) ok] Cons.prems(3) by simp
  show ?case
  proof (cases "fst b \<le> oc_hour oc")
    case True
    let ?f = "f\<lparr>fpos := fpos f + int (length (block_bytes b))\<rparr>" and ?oc = "oc\<lparr>oc_count := oc_count oc - 1\<rparr>"
    have "\<exists>oc' oc2' f'. next_hour dsz ?oc (block_head b) ?f = Some (oc', oc2', f') \<and> fdata f' = fdata ?f \<and>
      (case dropWhile (\<lambda>b. fst b \<le> oc_hour ?oc) bs of [] \<Rightarrow> oc_count oc' = 0 | b # _ \<Rightarrow> oc' = block_head b)"
      using Cons.prems d by (intro Cons.IH [of ?f "a @ block_bytes b"]) auto
    then show ?thesis using r True skip_records [OF ok _ assms, of f] Cons.prems(3)
      by (subst next_hour.simps) (simp add: block_head_hour)
  next
    case False
    then show ?thesis using r by (subst next_hour.simps) (simp add: block_head_hour)
  qed
qed

text \<open>
  The loop that looks for the next later hour has no bound of its own, but from the end of an hour of a
  well-formed file it always returns: at the head of the first later hour if there is one, otherwise at the
  failed read behind the last hour, with no records left.
\<close>

lemma next_hour_returns:
  assumes "0 \<le> dsz" "\<forall>b \<in> set bs. block_ok dsz b" "fdata f = a @ blocks_bytes bs" "fpos f = int (length a)"
  shows "\<exists>oc' oc2' f'. next_hour dsz oc oc2 f = Some (oc', oc2', f') \<and> fdata f' = fdata f \<and>
    (case dropWhile (\<lambda>b. fst b \<le> oc_hour oc) bs of [] \<Rightarrow> oc_count oc' = 0 | b # _ \<Rightarrow> oc' = block_head b)"
  using next_hour_blocks [OF assms(1,2), of f a "[]"] assms(3,4) by simp

lemma next_hour_returns_example:
  "\<exists>oc2' f'. next_hour 2 \<lparr>oc_hour = 9, oc_unit = 0, oc_count = 0\<rparr> \<lparr>oc_hour = 0, oc_unit = 0, oc_count = 0\<rparr>
     \<lparr>fdata = blocks_bytes two_hours, fpos = 0\<rparr> = Some (block_head (11, 0, [(5, [5, 6])]), oc2', f')"
  using next_hour_returns [of 2 two_hours "\<lparr>fdata = blocks_bytes two_hours, fpos = 0\<rparr>" "[]" "\<lparr>oc_hour = 9, oc_unit = 0, oc_count = 0\<rparr>"
      "\<lparr>oc_hour = 0, oc_unit = 0, oc_count = 0\<rparr>"]
  by (auto simp: two_hours_def block_ok_def)

end
