(* ===== verification/Transt.thy ===== *)
theory Transt
  imports Clock
begin

text \<open>
  The search for transient events by time (common/commu/protocol/app_prtcl_pqb.cpp,
  \<open>locate_transt_pos\<close> and \<open>stat_transt\<close>).  The times of the stored events lie in a ring of
  \<open>transt_max\<close> cells whose next free cell is \<open>transt_pos\<close>; event number 1 is the newest.
  \<open>unsigned int\<close> differences wrap modulo \<open>2 ^ 32\<close>, and reading outside the ring is the value None.
\<close>

section \<open>The model\<close>

record trst_rcd =
  transt_tol :: int
  transt_pos :: int
  transt_sv_time :: "timeval list"

definition uwrap :: "int \<Rightarrow> int" where
  "uwrap i = i mod 2 ^ 32"

definition ring_cell :: "int \<Rightarrow> int \<Rightarrow> int \<Rightarrow> int" where
  "ring_cell transt_max pos num = (if num \<le> pos then pos - num else uwrap (pos + transt_max - num))"

definition event_time :: "timeval list \<Rightarrow> int \<Rightarrow> int \<Rightarrow> int \<Rightarrow> timeval option" where
  "event_time ts transt_max pos num = aget ts (ring_cell transt_max pos num)"

definition not_later :: "timeval \<Rightarrow> timeval \<Rightarrow> bool" where
  "not_later t u \<longleftrightarrow> tv_sec t < tv_sec u \<or> tv_sec t = tv_sec u \<and> tv_usec t \<le> tv_usec u"

definition not_earlier :: "timeval \<Rightarrow> timeval \<Rightarrow> bool" where
  "not_earlier t u \<longleftrightarrow> tv_sec u < tv_sec t \<or> tv_sec t = tv_sec u \<and> tv_usec u \<le> tv_usec t"

text \<open>The halving loop with its bound of 12 rounds; the state is min, max, num.\<close>

fun halve :: "nat \<Rightarrow> (int \<Rightarrow> timeval option) \<Rightarrow> timeval \<Rightarrow> int \<times> int \<times> int \<Rightarrow> (int \<times> int \<times> int) option" where
  "halve 0 T time st = Some st"
| "halve (Suc i) T time (mn, mx, num) =
     (if uwrap (mx - mn) \<le> 1 then Some (mn, mx, num)
      else case T num of None \<Rightarrow> None
      | Some t \<Rightarrow>
          if not_later t time then halve i T time (mn, num, uwrap (mn + num) div 2)
          else halve i T time (num, mx, uwrap (num + mx) div 2))"

function scan_up :: "(int \<Rightarrow> timeval option) \<Rightarrow> timeval \<Rightarrow> int \<Rightarrow> int \<Rightarrow> int option" where
  "scan_up T time num mx =
     (if num \<le> mx then
        case T num of None \<Rightarrow> None
        | Some t \<Rightarrow> if not_later t time then Some num else scan_up T time (num + 1) mx
      else Some num)"
  by auto
termination by (relation "measure (\<lambda>(T, time, num, mx). nat (mx + 1 - num))") auto

function scan_down :: "(int \<Rightarrow> timeval option) \<Rightarrow> timeval \<Rightarrow> int \<Rightarrow> int \<Rightarrow> int option" where
  "scan_down T time num mn =
     (if mn \<le> num then
        case T num of None \<Rightarrow> None
        | Some t \<Rightarrow> if not_earlier t time then Some num else scan_down T time (num - 1) mn
      else Some num)"
  by auto
termination by (relation "measure (\<lambda>(T, time, num, mn). nat (num + 1 - mn))") auto

declare scan_up.simps [simp del] scan_down.simps [simp del]

definition locate_transt_pos :: "timeval list \<Rightarrow> int \<Rightarrow> timeval \<Rightarrow> int \<Rightarrow> int \<Rightarrow> bool \<Rightarrow> int option" where
  "locate_transt_pos ts transt_max time tol pos is_end =
     (let T = event_time ts transt_max pos in
      case halve 12 T time (1, tol, uwrap (1 + tol) div 2) of None \<Rightarrow> None
      | Some (mn, mx, num) \<Rightarrow>
          if is_end then scan_up T time mn mx else scan_down T time mx mn)"

text \<open>The number of events in the range, and the member \<open>event_pos\<close> after the call.\<close>

definition stat_transt :: "trst_rcd \<Rightarrow> int \<Rightarrow> timeval \<Rightarrow> timeval \<Rightarrow> int \<Rightarrow> (int \<times> int) option" where
  "stat_transt r transt_max start_time end_time event_pos =
     (let tol = transt_tol r; pos = transt_pos r in
      if tol = 0 then Some (0, event_pos)
      else case locate_transt_pos (transt_sv_time r) transt_max start_time tol pos False of None \<Rightarrow> None
      | Some head \<Rightarrow>
          if head < 1 then Some (0, event_pos)
          else case locate_transt_pos (transt_sv_time r) transt_max end_time tol pos True of None \<Rightarrow> None
          | Some tail \<Rightarrow>
              if tol < tail then Some (0, event_pos)
              else Some (uwrap (head - tail + 1), ring_cell transt_max pos head))"

section \<open>Halving and scanning\<close>

lemma not_later_le [simp]: "not_later t u \<longleftrightarrow> t \<le> u"
  by (simp add: not_later_def less_eq_timeval_def)

lemma not_earlier_le [simp]: "not_earlier t u \<longleftrightarrow> u \<le> t"
  by (auto simp: not_earlier_def less_eq_timeval_def)

lemma uwrap_id: "0 \<le> i \<Longrightarrow> i < 2 ^ 32 \<Longrightarrow> uwrap i = i"
  by (simp add: uwrap_def)

text \<open>A ring holds its events from number 1 on, each one later than the next.\<close>

definition newest_first :: "(int \<Rightarrow> timeval option) \<Rightarrow> (int \<Rightarrow> timeval) \<Rightarrow> int \<Rightarrow> bool" where
  "newest_first T t tol \<longleftrightarrow>
     (\<forall>i. 1 \<le> i \<longrightarrow> i \<le> tol \<longrightarrow> T i = Some (t i)) \<and>
     (\<forall>i j. 1 \<le> i \<longrightarrow> i < j \<longrightarrow> j \<le> tol \<longrightarrow> t j < t i)"

definition bracket :: "(int \<Rightarrow> timeval) \<Rightarrow> int \<Rightarrow> timeval \<Rightarrow> int \<Rightarrow> int \<Rightarrow> bool" where
  "bracket t tol time mn mx \<longleftrightarrow>
     1 \<le> mn \<and> mn \<le> mx \<and> mx \<le> tol \<and> (mn = 1 \<or> time < t mn) \<and> (mx = tol \<or> t mx \<le> time)"

lemma halve_brackets:
  assumes "newest_first T t tol" "tol < 2 ^ 31"
  shows "bracket t tol time mn mx \<Longrightarrow> num = (mn + mx) div 2 \<Longrightarrow> mx - mn \<le> 2 ^ k \<Longrightarrow>
    \<exists>a b n. halve k T time (mn, mx, num) = Some (a, b, n) \<and> bracket t tol time a b \<and> b - a \<le> 1"
proof (induction k arbitrary: mn mx num)
  case 0
  then show ?case by auto
next
  case (Suc k)
  have b: "1 \<le> mn" "mn \<le> mx" "mx \<le> tol" using Suc.prems(1) by (auto simp: bracket_def)
  have w: "uwrap (mx - mn) = mx - mn" "uwrap (mn + num) = mn + num" "uwrap (num + mx) = num + mx"
    using b assms(2) Suc.prems(2) by (auto intro!: uwrap_id)
  show ?case
  proof (cases "mx - mn \<le> 1")
    case True
    then show ?thesis using Suc.prems(1) w(1) by auto
  next
    case False
    have n: "mn < num" "num < mx" using False Suc.prems(2) by auto
    have T: "T num = Some (t num)" using assms(1) n b by (auto simp: newest_first_def)
    have g: "num - mn \<le> 2 ^ k" "mx - num \<le> 2 ^ k" using Suc.prems(2,3) by auto
    show ?thesis
    proof (cases "t num \<le> time")
      case True
      have "bracket t tol time mn num" using True Suc.prems(1) n by (auto simp: bracket_def)
      from Suc.IH [OF this refl g(1)] show ?thesis using True T w False by simp
    next
      case g': False
      have "bracket t tol time num mx" using g' Suc.prems(1) n by (auto simp: bracket_def)
      from Suc.IH [OF this refl g(2)] show ?thesis using g' T w False by simp
    qed
  qed
qed

lemma scan_up_first:
  assumes "newest_first T t tol" "1 \<le> num" "num \<le> mx + 1" "mx \<le> tol"
  shows "\<exists>r. scan_up T time num mx = Some r \<and> num \<le> r \<and> r \<le> mx + 1 \<and>
    (\<forall>i. num \<le> i \<longrightarrow> i < r \<longrightarrow> time < t i) \<and> (r \<le> mx \<longrightarrow> t r \<le> time)"
  using assms
proof (induction T time num mx rule: scan_up.induct)
  case (1 T time num mx)
  show ?case
  proof (cases "num \<le> mx \<and> time < t num")
    case True
    have T: "T num = Some (t num)" using "1.prems" True by (auto simp: newest_first_def)
    obtain r where r: "scan_up T time (num + 1) mx = Some r" "num + 1 \<le> r" "r \<le> mx + 1"
        "\<forall>i. num + 1 \<le> i \<longrightarrow> i < r \<longrightarrow> time < t i" "r \<le> mx \<longrightarrow> t r \<le> time"
      using "1.IH" [OF _ T] True "1.prems" by (auto simp: not_le)
    have "scan_up T time num mx = Some r" using T True r(1) by (subst scan_up.simps) auto
    moreover have "\<forall>i. num \<le> i \<longrightarrow> i < r \<longrightarrow> time < t i" using r(4) True
      by (metis add1_zle_eq order_le_less)
    ultimately show ?thesis using r by auto
  next
    case False
    then have "scan_up T time num mx = Some num" using "1.prems"
      by (subst scan_up.simps) (auto simp: newest_first_def)
    then show ?thesis using False "1.prems" by (auto simp: not_less)
  qed
qed

lemma scan_down_last:
  assumes "newest_first T t tol" "1 \<le> mn" "mn \<le> num + 1" "num \<le> tol"
  shows "\<exists>r. scan_down T time num mn = Some r \<and> mn \<le> r + 1 \<and> r \<le> num \<and>
    (\<forall>i. r < i \<longrightarrow> i \<le> num \<longrightarrow> t i < time) \<and> (mn \<le> r \<longrightarrow> time \<le> t r)"
  using assms
proof (induction T time num mn rule: scan_down.induct)
  case (1 T time num mn)
  show ?case
  proof (cases "mn \<le> num \<and> t num < time")
    case True
    have T: "T num = Some (t num)" using "1.prems" True by (auto simp: newest_first_def)
    obtain r where r: "scan_down T time (num - 1) mn = Some r" "mn \<le> r + 1" "r \<le> num - 1"
        "\<forall>i. r < i \<longrightarrow> i \<le> num - 1 \<longrightarrow> t i < time" "mn \<le> r \<longrightarrow> time \<le> t r"
      using "1.IH" [OF _ T] True "1.prems" by (auto simp: not_le)
    have "scan_down T time num mn = Some r" using T True r(1) by (subst scan_down.simps) auto
    moreover have "\<forall>i. r < i \<longrightarrow> i \<le> num \<longrightarrow> t i < time" using r(4) True
      by (metis order_le_less zle_diff1_eq)
    ultimately show ?thesis using r by auto
  next
    case False
    then have "scan_down T time num mn = Some num" using "1.prems"
      by (subst scan_down.simps) (auto simp: newest_first_def)
    then show ?thesis using False "1.prems" by (auto simp: not_less)
  qed
qed

text \<open>The two searches count the later events.\<close>

lemma locate_end:
  assumes "newest_first (event_time ts m pos) t tol" "1 \<le> tol" "tol \<le> 4097"
  shows "\<exists>r. locate_transt_pos ts m time tol pos True = Some r \<and> 1 \<le> r \<and> r \<le> tol + 1 \<and>
    (\<forall>i. 1 \<le> i \<longrightarrow> i < r \<longrightarrow> time < t i) \<and> (\<forall>i. r \<le> i \<longrightarrow> i \<le> tol \<longrightarrow> t i \<le> time)"
proof -
  let ?T = "event_time ts m pos"
  have mono: "t j < t i" if "1 \<le> i" "i < j" "j \<le> tol" for i j using assms(1) that by (simp add: newest_first_def)
  have "bracket t tol time 1 tol" using assms(2) by (simp add: bracket_def)
  from halve_brackets [OF assms(1) _ this refl, of 12] assms(2,3) obtain a b n where
    h: "halve 12 ?T time (1, tol, (1 + tol) div 2) = Some (a, b, n)" and ab: "bracket t tol time a b" "b - a \<le> 1"
    by auto
  have ab': "1 \<le> a" "a \<le> b" "b \<le> tol" "a = 1 \<or> time < t a" "b = tol \<or> t b \<le> time" using ab(1) by (auto simp: bracket_def)
  obtain r where r: "scan_up ?T time a b = Some r" "a \<le> r" "r \<le> b + 1"
      "\<And>i. a \<le> i \<Longrightarrow> i < r \<Longrightarrow> time < t i" "r \<le> b \<Longrightarrow> t r \<le> time"
    using scan_up_first [OF assms(1) ab'(1) _ ab'(3), of time] ab'(2) by auto
  have "locate_transt_pos ts m time tol pos True = Some r"
    using h r(1) assms(2,3) by (simp add: locate_transt_pos_def Let_def uwrap_id)
  moreover have "time < t i" if "1 \<le> i" "i < r" for i
    using that r(4) [of i] ab'(3,4) mono [of i a] ab'(2) by (cases "a \<le> i") auto
  moreover have "t i \<le> time" if "r \<le> i" "i \<le> tol" for i
  proof (cases "r \<le> b")
    case True
    then show ?thesis using r(2,5) that ab'(1) mono [of r i] by (cases "r = i") auto
  next
    case False
    then show ?thesis using that r(2) r(4) [of b] ab'(2,5) by auto
  qed
  ultimately show ?thesis using r(2,3) ab'(1,3) by auto
qed

lemma locate_start:
  assumes "newest_first (event_time ts m pos) t tol" "1 \<le> tol" "tol \<le> 4097"
  shows "\<exists>r. locate_transt_pos ts m time tol pos False = Some r \<and> 0 \<le> r \<and> r \<le> tol \<and>
    (\<forall>i. 1 \<le> i \<longrightarrow> i \<le> r \<longrightarrow> time \<le> t i) \<and> (\<forall>i. r < i \<longrightarrow> i \<le> tol \<longrightarrow> t i < time)"
proof -
  let ?T = "event_time ts m pos"
  have mono: "t j < t i" if "1 \<le> i" "i < j" "j \<le> tol" for i j using assms(1) that by (simp add: newest_first_def)
  have "bracket t tol time 1 tol" using assms(2) by (simp add: bracket_def)
  from halve_brackets [OF assms(1) _ this refl, of 12] assms(2,3) obtain a b n where
    h: "halve 12 ?T time (1, tol, (1 + tol) div 2) = Some (a, b, n)" and ab: "bracket t tol time a b" "b - a \<le> 1"
    by auto
  have ab': "1 \<le> a" "a \<le> b" "b \<le> tol" "a = 1 \<or> time < t a" "b = tol \<or> t b \<le> time" using ab(1) by (auto simp: bracket_def)
  obtain r where r: "scan_down ?T time b a = Some r" "a \<le> r + 1" "r \<le> b"
      "\<And>i. r < i \<Longrightarrow> i \<le> b \<Longrightarrow> t i < time" "a \<le> r \<Longrightarrow> time \<le> t r"
    using scan_down_last [OF assms(1) ab'(1) _ ab'(3), of time] ab'(2) by auto
  have "locate_transt_pos ts m time tol pos False = Some r"
    using h r(1) assms(2,3) by (simp add: locate_transt_pos_def Let_def uwrap_id)
  moreover have "t i < time" if "r < i" "i \<le> tol" for i
  proof (cases "i \<le> b")
    case False
    then show ?thesis using that ab'(1,2,5) mono [of b i] by auto
  qed (use that r(4) in auto)
  moreover have "time \<le> t i" if "1 \<le> i" "i \<le> r" for i
  proof (cases "a \<le> r")
    case True
    then show ?thesis using r(3,5) that ab'(3) mono [of i r] by (cases "i = r") auto
  next
    case False
    then show ?thesis using that r(4) [of a] ab'(2,4) by auto
  qed
  ultimately show ?thesis using r(2,3) ab'(1,3) by auto
qed

text \<open>Both together delimit the range.\<close>

lemma filter_upto_range:
  fixes t :: "int \<Rightarrow> timeval"
  assumes "1 \<le> a" "b \<le> tol" "a \<le> b + 1"
    and "\<And>i. 1 \<le> i \<Longrightarrow> i \<le> tol \<Longrightarrow> P (t i) \<longleftrightarrow> a \<le> i \<and> i \<le> b"
  shows "filter P (map t [1..tol]) = map t [a..b]"
proof -
  have "[1..tol] = [1..a - 1] @ [a..b] @ [b + 1..tol]"
  proof -
    have "[1..tol] = [1..a - 1] @ [a..tol]"
    proof (cases "a \<le> tol")
      case True
      then show ?thesis using assms(1) upto_split1 [of 1 a tol] by simp
    next
      case False
      then have "a = tol + 1" using assms(2,3) by linarith
      then show ?thesis by simp
    qed
    moreover have "[a..tol] = [a..b] @ [b + 1..tol]" 
    proof (cases "a \<le> b")
      case True
      then show ?thesis using assms(2) upto_split2 [of a b tol] by simp
    next
      case False
      then have "a = b + 1" using assms(3) by linarith
      then show ?thesis by simp
    qed
    ultimately show ?thesis by simp
  qed
  moreover have "filter (P \<circ> t) [1..a - 1] = []" "filter (P \<circ> t) [b + 1..tol] = []" "filter (P \<circ> t) [a..b] = [a..b]"
    using assms by (auto simp: filter_empty_conv filter_id_conv)
  ultimately show ?thesis by (simp add: filter_map)
qed

text \<open>The stored events, newest first, and the cell of event number \<open>i\<close>.\<close>

definition stored_events :: "trst_rcd \<Rightarrow> int \<Rightarrow> timeval list" where
  "stored_events r transt_max =
     map (\<lambda>i. transt_sv_time r ! nat (ring_cell transt_max (transt_pos r) i)) [1..transt_tol r]"

definition wf_trst :: "trst_rcd \<Rightarrow> int \<Rightarrow> bool" where
  "wf_trst r transt_max \<longleftrightarrow> 0 \<le> transt_pos r \<and> transt_pos r < transt_max \<and> 0 \<le> transt_tol r \<and>
     transt_tol r \<le> transt_max \<and> transt_max < 2 ^ 31 \<and> int (length (transt_sv_time r)) = transt_max"

lemma ring_cell_range:
  "wf_trst r m \<Longrightarrow> 1 \<le> i \<Longrightarrow> i \<le> transt_tol r \<Longrightarrow> 0 \<le> ring_cell m (transt_pos r) i \<and> ring_cell m (transt_pos r) i < m"
  by (auto simp: wf_trst_def ring_cell_def uwrap_id)

lemma stored_newest_first:
  assumes "wf_trst r m" "sorted_wrt (>) (stored_events r m)"
  shows "newest_first (event_time (transt_sv_time r) m (transt_pos r))
    (\<lambda>i. transt_sv_time r ! nat (ring_cell m (transt_pos r) i)) (transt_tol r)"
proof -
  let ?t = "\<lambda>i. transt_sv_time r ! nat (ring_cell m (transt_pos r) i)"
  have "event_time (transt_sv_time r) m (transt_pos r) i = Some (?t i)" if "1 \<le> i" "i \<le> transt_tol r" for i
    using ring_cell_range [OF assms(1) that] assms(1) by (simp add: event_time_def mem_simps wf_trst_def)
  moreover have "?t j < ?t i" if "1 \<le> i" "i < j" "j \<le> transt_tol r" for i j
    using sorted_wrt_nth_less [OF assms(2), of "nat (i - 1)" "nat (j - 1)"] that
    by (simp add: stored_events_def)
  ultimately show ?thesis by (simp add: newest_first_def)
qed

section \<open>Property\<close>

text \<open>
  C22. The two halving searches, bounded to 12 rounds each, agree with a scan of the whole ring: for
  up to 4097 events whose times strictly decrease from the newest on, the number returned is that
  of the stored events between the two times, ends included, and unless it is 0 the start position is
  the cell of the oldest of them.
\<close>

theorem transient_range:
  assumes "wf_trst r m" "transt_tol r \<le> 4097" "sorted_wrt (>) (stored_events r m)" "s \<le> e"
  shows "\<exists>p. stat_transt r m s e ev = Some (int (length (filter (\<lambda>t. s \<le> t \<and> t \<le> e) (stored_events r m))), p) \<and>
    (filter (\<lambda>t. s \<le> t \<and> t \<le> e) (stored_events r m) \<noteq> [] \<longrightarrow>
       aget (transt_sv_time r) p = Some (last (filter (\<lambda>t. s \<le> t \<and> t \<le> e) (stored_events r m))))"
proof (cases "transt_tol r = 0")
  case True
  then show ?thesis by (simp add: stat_transt_def stored_events_def)
next
  case False
  let ?t = "\<lambda>i. transt_sv_time r ! nat (ring_cell m (transt_pos r) i)"
  have n: "1 \<le> transt_tol r" using False assms(1) by (simp add: wf_trst_def)
  note nf = stored_newest_first [OF assms(1,3)]
  obtain h where h: "locate_transt_pos (transt_sv_time r) m s (transt_tol r) (transt_pos r) False = Some h"
      "0 \<le> h" "h \<le> transt_tol r" "\<And>i. 1 \<le> i \<Longrightarrow> i \<le> h \<Longrightarrow> s \<le> ?t i" "\<And>i. h < i \<Longrightarrow> i \<le> transt_tol r \<Longrightarrow> ?t i < s"
    using locate_start [OF nf n assms(2), of s] by blast
  obtain l where l: "locate_transt_pos (transt_sv_time r) m e (transt_tol r) (transt_pos r) True = Some l"
      "1 \<le> l" "l \<le> transt_tol r + 1" "\<And>i. 1 \<le> i \<Longrightarrow> i < l \<Longrightarrow> e < ?t i" "\<And>i. l \<le> i \<Longrightarrow> i \<le> transt_tol r \<Longrightarrow> ?t i \<le> e"
    using locate_end [OF nf n assms(2), of e] by blast
  have lh: "l \<le> h + 1"
  proof (rule ccontr)
    assume "\<not> l \<le> h + 1"
    then have "?t (h + 1) < s" "e < ?t (h + 1)" using h(2,5) l(3,4) by simp_all
    then show False using assms(4) by (meson less_le_trans less_asym)
  qed
  have "filter (\<lambda>t. s \<le> t \<and> t \<le> e) (stored_events r m) = map ?t [l..h]"
    unfolding stored_events_def
  proof (rule filter_upto_range [OF l(2) h(3) lh])
    fix i assume "1 \<le> i" "i \<le> transt_tol r"
    then show "(s \<le> ?t i \<and> ?t i \<le> e) \<longleftrightarrow> l \<le> i \<and> i \<le> h"
      using h(4,5) [of i] l(4,5) [of i] by (meson leD leI)
  qed
  note fil = this
  show ?thesis
  proof (cases "l \<le> h")
    case True
    then have "stat_transt r m s e ev = Some (h - l + 1, ring_cell m (transt_pos r) h)"
      using h(1,3) l(1,2) False assms(2) by (simp add: stat_transt_def Let_def uwrap_id)
    moreover have "last (map ?t [l..h]) = ?t h" using True by (simp add: upto_rec2)
    moreover have "aget (transt_sv_time r) (ring_cell m (transt_pos r) h) = Some (?t h)"
      using nf True l(2) h(3) by (simp add: newest_first_def event_time_def)
    ultimately show ?thesis unfolding fil using True by simp
  next
    case False
    then have "l = h + 1" using lh by linarith
    then have "\<exists>p. stat_transt r m s e ev = Some (0, p)"
      using h(1,2) l(1) n by (simp add: stat_transt_def Let_def uwrap_id)
    then show ?thesis unfolding fil using False by simp
  qed
qed

theorem transient_range_witness:
  "\<exists>p. stat_transt \<lparr>transt_tol = 3, transt_pos = 1, transt_sv_time = [Timeval 30 0, Timeval 10 0, Timeval 20 5]\<rparr> 3
     (Timeval 15 0) (Timeval 30 0) 7 = Some (2, p) \<and> p = 2"
proof -
  let ?r = "\<lparr>transt_tol = 3, transt_pos = 1, transt_sv_time = [Timeval 30 0, Timeval 10 0, Timeval 20 5]\<rparr>"
  have ev: "stored_events ?r 3 = [Timeval 30 0, Timeval 20 5, Timeval 10 0]" by code_simp
  obtain p where "stat_transt ?r 3 (Timeval 15 0) (Timeval 30 0) 7 = Some (2, p)"
    using transient_range [of ?r 3 "Timeval 15 0" "Timeval 30 0" 7]
    by (auto simp: ev wf_trst_def less_timeval_def less_eq_timeval_def)
  moreover have "stat_transt ?r 3 (Timeval 15 0) (Timeval 30 0) 7 = Some (2, 2)" by code_simp
  ultimately show ?thesis by simp
qed

end
