(* ===== verification/App_Pq.thy ===== *)
theory App_Pq
  imports Clock
begin

text \<open>
  The remote session of the application protocol (class \<open>AppPrtclPQ\<close>,
  common/commu/protocol/app_prtcl_pq.cpp, .h): log in, users and passwords, device number and
  initialisation, setting the clock, the custom limits.  The user table, the cipher, the
  configuration and the screen are not part of the repository: they are the operations of a record
  over an arbitrary outside state.  Received data and the reply buffer are byte lists of 2048 cells,
  indexed by constants; an answer is written from cell \<open>kDataHdSz\<close> on.
\<close>

section \<open>State\<close>

record 'e pq_env =
  FindUser :: "u8 list \<Rightarrow> 'e \<Rightarrow> int"
  CheckPasswd :: "u8 list \<Rightarrow> int \<Rightarrow> int \<Rightarrow> 'e \<Rightarrow> 'e \<times> int"
  AddUser :: "u8 list \<Rightarrow> u8 list \<Rightarrow> u8 list \<Rightarrow> 'e \<Rightarrow> 'e \<times> int"
  DelUser :: "u8 list \<Rightarrow> 'e \<Rightarrow> 'e \<times> int"
  SetPasswd :: "u8 list \<Rightarrow> int \<Rightarrow> int \<Rightarrow> 'e \<Rightarrow> 'e"
  SetAudit :: "string \<Rightarrow> u8 list \<Rightarrow> string \<Rightarrow> int \<Rightarrow> 'e \<Rightarrow> 'e"
  ReadAuditRec :: "u8 \<Rightarrow> int \<Rightarrow> int \<Rightarrow> 'e \<Rightarrow> 'e \<times> u8 list \<times> int"
  usr_name :: "'e \<Rightarrow> int \<Rightarrow> u8 list"
  usr_num :: "'e \<Rightarrow> nat"
  DecryptoStr :: "'e \<Rightarrow> u8 list \<Rightarrow> u8 list"
  rand_key :: "'e \<Rightarrow> u8 list"
  UpdateKey :: "'e \<Rightarrow> 'e"
  Authenticate :: "u8 list \<Rightarrow> 'e \<Rightarrow> 'e \<times> int"
  lcm_dely_time :: "'e \<Rightarrow> int"
  set_device_sn :: "u8 list \<Rightarrow> 'e \<Rightarrow> 'e"
  save_sm4_key :: "u8 list \<Rightarrow> 'e \<Rightarrow> 'e"
  set_time_buf :: "ctm \<Rightarrow> 'e \<Rightarrow> 'e"
  gps_single_type :: "'e \<Rightarrow> int"

record limits =
  limit_type :: u8
  freq_limit :: "u16 list"
  pst_limit :: u16
  harm_ulimit :: "u16 list"
  harm_ilimit :: "u16 list"
  trigger_enable :: u8

record 'e app_pq =
  world :: 'e
  m_tx_buffer :: "u8 list"
  ptx_bufd :: "u8 list option"
  logged :: bool
  user_id :: int
  ps_err_cnt :: int
  timer_lock :: timer_cstm
  timer_logout :: timer_cstm
  timer_setime :: timer_cstm
  timer_inidev :: timer_cstm
  syspara :: limits

abbreviation kDataHdSz :: nat where "kDataHdSz \<equiv> 20"

definition zero_timer :: timer_cstm where
  "zero_timer = \<lparr>tc_stime = 0, tc_duration = 0\<rparr>"

definition AppPrtclPQ :: "'e \<Rightarrow> u8 list \<Rightarrow> limits \<Rightarrow> 'e app_pq" where
  "AppPrtclPQ w junk par = \<lparr>world = w, m_tx_buffer = junk, ptx_bufd = None, logged = False, user_id = 0,
     ps_err_cnt = 5, timer_lock = zero_timer, timer_logout = zero_timer, timer_setime = zero_timer,
     timer_inidev = zero_timer, syspara = par\<rparr>"

section \<open>Helpers\<close>

text \<open>Consecutive assignments to a buffer, and those to the body of the reply.\<close>

fun put_bytes :: "nat \<Rightarrow> u8 list \<Rightarrow> u8 list \<Rightarrow> u8 list" where
  "put_bytes i [] b = b"
| "put_bytes i (v # vs) b = put_bytes (Suc i) vs (b[i := v])"

definition put_body :: "u8 list \<Rightarrow> 'e app_pq \<Rightarrow> 'e app_pq" where
  "put_body vs s = s\<lparr>m_tx_buffer := put_bytes kDataHdSz vs (m_tx_buffer s)\<rparr>"

definition cstr :: "u8 list \<Rightarrow> u8 list" where
  "cstr bs = takeWhile (\<lambda>b. b \<noteq> 0) bs"

definition byte :: "int \<Rightarrow> u8" where
  "byte i = word_of_int i"

definition audit :: "'e pq_env \<Rightarrow> string \<Rightarrow> string \<Rightarrow> int \<Rightarrow> 'e app_pq \<Rightarrow> 'e app_pq" where
  "audit E type detail result s =
     s\<lparr>world := SetAudit E type (usr_name E (world s) (user_id s)) detail result (world s)\<rparr>"

definition decrypt :: "'e pq_env \<Rightarrow> 'e app_pq \<Rightarrow> u8 list \<Rightarrow> nat \<Rightarrow> u8 list" where
  "decrypt E s rbuf off = DecryptoStr E (world s) (take 16 (drop off rbuf))"

definition check :: "'e pq_env \<Rightarrow> u8 list \<Rightarrow> int \<Rightarrow> 'e app_pq \<Rightarrow> 'e app_pq \<times> int" where
  "check E pswd type s =
     (let (w, k) = CheckPasswd E pswd (user_id s) type (world s) in (s\<lparr>world := w\<rparr>, k))"

section \<open>Keys, identity, log in\<close>

definition TxRandkey :: "'e pq_env \<Rightarrow> 'e app_pq \<Rightarrow> 'e app_pq \<times> int" where
  "TxRandkey E s = (put_body (take 16 (rand_key E (world s))) s, 16)"

definition Identify :: "'e pq_env \<Rightarrow> u8 list \<Rightarrow> 'e app_pq \<Rightarrow> 'e app_pq \<times> int" where
  "Identify E rbuf s =
     (let (w, k) = Authenticate E rbuf (UpdateKey E (world s));
          s1 = put_body [byte k] (s\<lparr>world := w\<rparr>);
          s2 = (if k \<noteq> 0 then s1\<lparr>world := SetAudit E ''warning'' (map (of_nat \<circ> of_char) ''system'')
                  ''Identity authentication'' 2 (world s1)\<rparr> else s1)
      in (s2, 1))"

text \<open>The password check of a log in: the code 0 (passed), 1 (no such user) or the error plus 1.\<close>

definition login_check :: "'e pq_env \<Rightarrow> int \<Rightarrow> u8 list \<Rightarrow> u8 list \<Rightarrow> 'e app_pq \<Rightarrow> 'e app_pq \<times> int" where
  "login_check E now name pswd s =
     (let s1 = s\<lparr>user_id := FindUser E name (world s)\<rparr> in
      if 0 \<le> user_id s1 then
        (let (s2, k) = check E pswd 1 s1 in
         if k = 0 then
           (s2\<lparr>ps_err_cnt := 5, logged := True,
               timer_logout := timer_Start now (lcm_dely_time E (world s2) * 60) (timer_logout s2)\<rparr>, 0)
         else
           (let s3 = s2\<lparr>ps_err_cnt := ps_err_cnt s2 - 1\<rparr> in
            (if ps_err_cnt s3 \<le> 0 then s3\<lparr>timer_lock := timer_Start now 60 (timer_lock s3)\<rparr> else s3, k + 1)))
      else (s1, 1))"

text \<open>\<open>junk\<close> is the uninitialised \<open>k\<close> of a request that is neither of the three.\<close>

definition Login :: "'e pq_env \<Rightarrow> int \<Rightarrow> int \<Rightarrow> u8 list \<Rightarrow> 'e app_pq \<Rightarrow> 'e app_pq \<times> int" where
  "Login E now junk rbuf s =
     (let pswd = decrypt E s rbuf 17; pswdl = decrypt E s rbuf 33; name = cstr (drop 1 rbuf) in
      if rbuf ! 0 = 0 \<and> ps_err_cnt s = 0 \<and> \<not> timer_TimeOut now (timer_lock s) then (s, 2)
      else
        (let (s', k) =
           (if rbuf ! 0 = 0 then
              (let s0 = (if ps_err_cnt s = 0 then s\<lparr>ps_err_cnt := 5\<rparr> else s);
                   (s1, k) = login_check E now name pswd s0;
                   s2 = s1\<lparr>world := SetAudit E ''login'' name ''Remote login'' (k + 1) (world s1)\<rparr>
               in (if ps_err_cnt s2 \<le> 0 then audit E ''warning'' ''Cont remote login err'' 0 s2 else s2, k))
            else if rbuf ! 0 = 1 then
              (let (w, k) = (if user_id s = 0 then AddUser E name pswdl pswd (world s) else (world s, 2))
               in (audit E ''setting'' ''Add user'' (k + 1) (s\<lparr>world := w\<rparr>), k))
            else if rbuf ! 0 = 2 then
              (let (w, k) = (if user_id s = 0 then DelUser E name (world s) else (world s, 2))
               in (audit E ''setting'' ''Delete user'' (k + 1) (s\<lparr>world := w\<rparr>), k))
            else (s, junk))
         in (put_body [rbuf ! 0, byte k] s', 2)))"

section \<open>Users and the device\<close>

text \<open>Each name is copied with its final 0 to a place of 16 bytes.\<close>

definition GetUsers :: "'e pq_env \<Rightarrow> 'e app_pq \<Rightarrow> ('e app_pq \<times> int) option" where
  "GetUsers E s =
     (let n = usr_num E (world s) in
      case foldO (\<lambda>i b. blit b (int (kDataHdSz + 1 + i * 16)) (cstr (usr_name E (world s) (int i)) @ [0]))
             [0..<n] (put_bytes kDataHdSz [of_nat n] (m_tx_buffer s)) of
        None \<Rightarrow> None
      | Some b \<Rightarrow> Some (s\<lparr>m_tx_buffer := b\<rparr>, int n * 16 + 1))"

definition ChgPasswd :: "'e pq_env \<Rightarrow> u8 list \<Rightarrow> 'e app_pq \<Rightarrow> 'e app_pq \<times> int" where
  "ChgPasswd E rbuf s =
     (let (s1, k) = check E (decrypt E s rbuf 1) (if rbuf ! 0 = 0 then 2 else uint (rbuf ! 0)) s;
          s2 = (if k = 0
                then put_body [0] (s1\<lparr>world := SetPasswd E (decrypt E s1 rbuf 17) (user_id s1) (uint (rbuf ! 0)) (world s1)\<rparr>)
                else put_body [1] s1)
      in (audit E ''setting'' ''Change password'' (k + 1) s2, 1))"

definition SetDeviceSn :: "'e pq_env \<Rightarrow> u8 list \<Rightarrow> 'e app_pq \<Rightarrow> 'e app_pq \<times> int" where
  "SetDeviceSn E rbuf s =
     (let (s1, k) = check E (decrypt E s rbuf 4) 1 s;
          s2 = (if k = 0
                then (let s' = s1\<lparr>world := set_device_sn E (take 4 rbuf) (world s1)\<rparr>;
                          key = decrypt E s' rbuf 20
                      in put_body [0] (s'\<lparr>world := save_sm4_key E key (world s')\<rparr>))
                else put_body [1] s1)
      in (audit E ''setting'' ''Device sn'' (k + 1) s2, 1))"

text \<open>The third component of the result is the caller's \<open>update\<close> flag after the call.\<close>

definition IniDev :: "'e pq_env \<Rightarrow> int \<Rightarrow> u8 list \<Rightarrow> int \<Rightarrow> 'e app_pq \<Rightarrow> 'e app_pq \<times> int \<times> int" where
  "IniDev E now rbuf update s =
     (let (s1, k) = check E (decrypt E s rbuf 0) 1 s in
      if k = 0 then
        (if timer_TimeOut now (timer_inidev s1)
         then (put_body [0] (audit E ''warning'' ''Device initialize'' 1
                 (s1\<lparr>timer_inidev := timer_Start now 60 (timer_inidev s1)\<rparr>)), 1, 2)
         else (put_body [0] s1, 1, update))
      else (audit E ''warning'' ''Device initialize'' 2 (put_body [1] s1), 1, update))"

text \<open>The reply buffer is allocated with its contents indeterminate; \<open>auditor\<close> is the only reader without an alarm.\<close>

definition TxAuditLog :: "'e pq_env \<Rightarrow> u8 list \<Rightarrow> u8 list \<Rightarrow> 'e app_pq \<Rightarrow> ('e app_pq \<times> int) option" where
  "TxAuditLog E junk rbuf s =
     (let num = (if rbuf ! 1 \<noteq> 0 then uint (rbuf ! 1) else 20);
          b0 = take (nat (int kDataHdSz + 4 + num * 64)) junk;
          start_p = uint (rbuf ! 2) * 256 + uint (rbuf ! 3);
          (w, recs, n) = ReadAuditRec E (rbuf ! 0) start_p num (world s);
          s1 = s\<lparr>world := w\<rparr>
      in case blit b0 (int kDataHdSz + 4) recs of None \<Rightarrow> None
         | Some b1 \<Rightarrow>
           (let b2 = put_bytes kDataHdSz [rbuf ! 0, byte n] b1;
                s2 = s1\<lparr>ptx_bufd := Some b2\<rparr>;
                k = (if usr_name E (world s2) (user_id s2) \<noteq> map (of_nat \<circ> of_char) ''auditor'' then 2 else 1);
                s3 = (if start_p = 0 then
                        (if rbuf ! 0 \<noteq> 0 then audit E ''audit'' ''Read audit alarm event'' k s2
                         else audit E ''audit'' ''Download audit log'' k s2)
                      else s2)
            in Some (s3, n * 64 + 4)))"

text \<open>Setting the clock: \<open>gps_single_type\<close> selects how many fields the falling-through switch takes.\<close>

definition new_time :: "int \<Rightarrow> u8 list \<Rightarrow> ctm \<Rightarrow> ctm" where
  "new_time gps rbuf c0 =
     (let c1 = (if gps = 3 then c0\<lparr>tm_sec := uint (rbuf ! 0)\<rparr> else c0);
          c2 = (if gps = 3 \<or> gps = 2
                then c1\<lparr>tm_min := uint (rbuf ! 1), tm_hour := uint (rbuf ! 2), tm_mday := uint (rbuf ! 3),
                        tm_mon := uint (rbuf ! 4) - 1\<rparr> else c1);
          c3 = c2\<lparr>tm_year := uint (rbuf ! 5)\<rparr>
      in if tm_year c3 < 90 then c3\<lparr>tm_year := tm_year c3 + 100\<rparr> else c3)"

definition set_time :: "'e pq_env \<Rightarrow> int \<Rightarrow> u8 list \<Rightarrow> 'e app_pq \<Rightarrow> 'e app_pq" where
  "set_time E now rbuf s =
     (if \<not> timer_TimeOut now (timer_setime s) then s
      else (let s1 = s\<lparr>timer_setime := timer_Start now (60 * 5) (timer_setime s)\<rparr>;
                c = new_time (gps_single_type E (world s1)) rbuf (GmTime now);
                s2 = s1\<lparr>world := set_time_buf E c (world s1)\<rparr>
            in audit E ''setting'' ''Set time'' 1 s2))"

section \<open>Custom limits and the trigger\<close>

text \<open>Two bytes as an \<open>unsigned short\<close>, high byte first, and back.\<close>

definition be16 :: "u8 list \<Rightarrow> nat \<Rightarrow> u16" where
  "be16 rbuf k = push_bit 8 (ucast (rbuf ! k)) OR ucast (rbuf ! (k + 1))"

definition be_bytes :: "u16 \<Rightarrow> u8 list" where
  "be_bytes w = [ucast (drop_bit 8 w), ucast w]"

definition set_limits :: "u8 list \<Rightarrow> limits \<Rightarrow> limits" where
  "set_limits rbuf l = l\<lparr>limit_type := rbuf ! 1,
     freq_limit := (freq_limit l)[0 := be16 rbuf 2, 1 := be16 rbuf 4],
     pst_limit := be16 rbuf 6 * 10,
     harm_ulimit := map (\<lambda>i. be16 rbuf (8 + 2 * i)) [0..<25] @ drop 25 (harm_ulimit l),
     harm_ilimit := map (\<lambda>i. be16 rbuf (58 + 2 * i)) [0..<24] @ drop 24 (harm_ilimit l)\<rparr>"

definition limit_bytes :: "limits \<Rightarrow> u8 list" where
  "limit_bytes l = [limit_type l] @ be_bytes (freq_limit l ! 0) @ be_bytes (freq_limit l ! 1) @
     be_bytes (pst_limit l div 10) @
     concat (map (\<lambda>i. be_bytes (harm_ulimit l ! i)) [0..<25]) @
     concat (map (\<lambda>i. be_bytes (harm_ilimit l ! i)) [0..<24])"

definition custom_limit_handle :: "'e pq_env \<Rightarrow> u8 list \<Rightarrow> 'e app_pq \<Rightarrow> 'e app_pq \<times> int" where
  "custom_limit_handle E rbuf s =
     (let s1 = put_body [rbuf ! 0] s in
      if rbuf ! 0 \<noteq> 0 then
        (audit E ''setting'' ''CMD_CUSTOM_LIMIT'' 1 (s1\<lparr>syspara := set_limits rbuf (syspara s1)\<rparr>), 1)
      else
        (let vs = limit_bytes (syspara s1)
         in (s1\<lparr>m_tx_buffer := put_bytes (kDataHdSz + 1) vs (m_tx_buffer s1)\<rparr>,
             int (kDataHdSz + 1 + length vs))))"

definition trigger_able :: "'e pq_env \<Rightarrow> u8 list \<Rightarrow> 'e app_pq \<Rightarrow> 'e app_pq \<times> int" where
  "trigger_able E rbuf s =
     (let s1 = (if rbuf ! 0 \<noteq> 0
                then audit E ''setting'' ''CMD_TRIG_ENABLE'' 1
                       (s\<lparr>syspara := (syspara s)\<lparr>trigger_enable := rbuf ! 1\<rparr>\<rparr>)
                else s)
      in (put_body [rbuf ! 0, trigger_enable (syspara s1)] s1, 2))"

section \<open>Lemmas\<close>

lemma length_put_bytes [simp]: "length (put_bytes i vs b) = length b"
  by (induction i vs b rule: put_bytes.induct) auto

lemma put_bytes_eq:
  "i + length vs \<le> length b \<Longrightarrow> put_bytes i vs b = take i b @ vs @ drop (i + length vs) b"
  by (induction i vs b rule: put_bytes.induct) (auto simp: upd_conv_take_nth_drop take_Suc_conv_app_nth add.commute)

lemma put_bytes_slice:
  "i + length vs \<le> length b \<Longrightarrow> take (length vs) (drop i (put_bytes i vs b)) = vs"
  by (simp add: put_bytes_eq)

lemma be_bytes_be16: "be_bytes (be16 rbuf k) = [rbuf ! k, rbuf ! (k + 1)]"
proof -
  have "ucast (drop_bit 8 (push_bit 8 (ucast a) OR ucast b :: u16)) = (a :: u8)"
    "ucast (push_bit 8 (ucast a) OR ucast b :: u16) = b" for a b :: u8
    by (rule bit_word_eqI; auto simp: bit_simps dest: bit_imp_le_length)+
  then show ?thesis by (simp add: be_bytes_def be16_def)
qed

lemma concat_pairs:
  "concat (map (\<lambda>i. [f (k + 2 * i), f (Suc (k + 2 * i))]) [0..<n]) = map f [k..<k + 2 * n]"
  by (induction n) auto

lemma tenfold_limit: "uint (p :: u16) \<le> 6553 \<Longrightarrow> p * 10 div 10 = p"
proof -
  assume p: "uint p \<le> 6553"
  have "uint (p * 10) = uint p * 10" using p by (simp add: uint_word_ariths(3) mod_pos_pos_trivial)
  then have "uint (p * 10 div 10) = uint p" by (simp add: uint_div)
  then show ?thesis by (simp add: word_uint_eq_iff)
qed

lemma limit_bytes_set:
  assumes "106 \<le> length rbuf" "uint (be16 rbuf 6) \<le> 6553"
    and "length (freq_limit l) = 2"
  shows "limit_bytes (set_limits rbuf l) = take 105 (drop 1 rbuf)"
proof -
  let ?f = "\<lambda>i. rbuf ! i"
  have u: "map (\<lambda>i. be_bytes (harm_ulimit (set_limits rbuf l) ! i)) [0..<25] = map (\<lambda>i. [?f (8 + 2 * i), ?f (Suc (8 + 2 * i))]) [0..<25]"
    by (rule map_cong) (simp_all add: set_limits_def nth_append be_bytes_be16)
  have i: "map (\<lambda>i. be_bytes (harm_ilimit (set_limits rbuf l) ! i)) [0..<24] = map (\<lambda>i. [?f (58 + 2 * i), ?f (Suc (58 + 2 * i))]) [0..<24]"
    by (rule map_cong) (simp_all add: set_limits_def nth_append be_bytes_be16)
  have f: "freq_limit (set_limits rbuf l) ! 0 = be16 rbuf 2" "freq_limit (set_limits rbuf l) ! 1 = be16 rbuf 4"
    using assms(3) by (simp_all add: set_limits_def)
  have p: "pst_limit (set_limits rbuf l) div 10 = be16 rbuf 6" "limit_type (set_limits rbuf l) = ?f 1"
    using tenfold_limit [OF assms(2)] by (simp_all add: set_limits_def)
  have "limit_bytes (set_limits rbuf l) = map ?f ([1] @ [2, 3] @ [4, 5] @ [6, 7] @ [8..<58] @ [58..<106])"
    unfolding limit_bytes_def u i f p be_bytes_be16 concat_pairs by simp
  also have "[1] @ [2, 3] @ [4, 5] @ [6, 7] @ [8..<58] @ [58..<106] = [1..<106::nat]"
    by (simp add: upt_rec [of _ "106"] upt_rec [of _ "58"])
  also have "map ?f [1..<106] = take 105 (drop 1 rbuf)"
    by (rule nth_equalityI) (use assms(1) in simp_all)
  finally show ?thesis .
qed

lemma length_limit_bytes [simp]: "length (limit_bytes l) = 105"
proof -
  have "sum_list (map (\<lambda>x. c) [0..<n]) = n * c" for c n :: nat by (induction n) auto
  then show ?thesis by (simp add: limit_bytes_def be_bytes_def length_concat o_def)
qed

text \<open>A log in request whose user exists and whose password does not pass.\<close>

definition wrong_password :: "'e pq_env \<Rightarrow> u8 list \<Rightarrow> 'e app_pq \<Rightarrow> bool" where
  "wrong_password E rbuf s \<longleftrightarrow>
     (let id = FindUser E (cstr (drop 1 rbuf)) (world s)
      in rbuf ! 0 = 0 \<and> 0 \<le> id \<and> snd (CheckPasswd E (decrypt E s rbuf 17) id 1 (world s)) \<noteq> 0)"

text \<open>Requests with the time of their arrival, and the case that all of them are such.\<close>

fun logins :: "'e pq_env \<Rightarrow> int \<Rightarrow> (int \<times> u8 list) list \<Rightarrow> 'e app_pq \<Rightarrow> 'e app_pq" where
  "logins E junk [] s = s"
| "logins E junk ((now, rbuf) # rs) s = logins E junk rs (fst (Login E now junk rbuf s))"

fun all_wrong :: "'e pq_env \<Rightarrow> int \<Rightarrow> (int \<times> u8 list) list \<Rightarrow> 'e app_pq \<Rightarrow> bool" where
  "all_wrong E junk [] s \<longleftrightarrow> True"
| "all_wrong E junk ((now, rbuf) # rs) s \<longleftrightarrow>
     wrong_password E rbuf s \<and> all_wrong E junk rs (fst (Login E now junk rbuf s))"

lemma put_body_simps [simp]:
  "ps_err_cnt (put_body vs s) = ps_err_cnt s" "logged (put_body vs s) = logged s"
  "timer_lock (put_body vs s) = timer_lock s" "user_id (put_body vs s) = user_id s"
  "world (put_body vs s) = world s"
  by (simp_all add: put_body_def)

lemma audit_simps [simp]:
  "ps_err_cnt (audit E a b c s) = ps_err_cnt s" "logged (audit E a b c s) = logged s"
  "timer_lock (audit E a b c s) = timer_lock s" "user_id (audit E a b c s) = user_id s"
  by (simp_all add: audit_def)

lemma Login_wrong:
  assumes "wrong_password E rbuf s" "0 < ps_err_cnt s"
  shows "let s' = fst (Login E now junk rbuf s) in
    ps_err_cnt s' = ps_err_cnt s - 1 \<and> logged s' = logged s \<and>
    user_id s' = FindUser E (cstr (drop 1 rbuf)) (world s) \<and>
    (ps_err_cnt s = 1 \<longrightarrow> timer_lock s' = timer_Start now 60 (timer_lock s))"
proof -
  obtain w k where c: "CheckPasswd E (decrypt E s rbuf 17) (FindUser E (cstr (drop 1 rbuf)) (world s)) 1 (world s) = (w, k)"
    by (cases "CheckPasswd E (decrypt E s rbuf 17) (FindUser E (cstr (drop 1 rbuf)) (world s)) 1 (world s)")
  then have w: "rbuf ! 0 = 0" "0 \<le> FindUser E (cstr (drop 1 rbuf)) (world s)" "k \<noteq> 0"
    using assms(1) by (simp_all add: wrong_password_def Let_def)
  show ?thesis using w assms(2) c [unfolded One_nat_def]
    by (simp add: Login_def login_check_def check_def Let_def)
qed

lemma logins_wrong:
  assumes "all_wrong E junk rs s" "0 < ps_err_cnt s" "int (length rs) \<le> ps_err_cnt s" "rs \<noteq> []"
  shows "let s' = logins E junk rs s in
    ps_err_cnt s' = ps_err_cnt s - int (length rs) \<and> logged s' = logged s \<and>
    (ps_err_cnt s' = 0 \<longrightarrow> (\<exists>tm. timer_lock s' = timer_Start (fst (last rs)) 60 tm))"
  using assms
proof (induction E junk rs s rule: all_wrong.induct)
  case (2 E junk now rbuf rs s)
  let ?s = "fst (Login E now junk rbuf s)"
  have 1: "ps_err_cnt ?s = ps_err_cnt s - 1" "logged ?s = logged s"
    "ps_err_cnt s = 1 \<Longrightarrow> timer_lock ?s = timer_Start now 60 (timer_lock s)"
    using Login_wrong [of E rbuf s now junk] "2.prems"(1,2) by (simp_all add: Let_def)
  show ?case
  proof (cases "rs = []")
    case True
    then show ?thesis using 1 by (auto simp: Let_def)
  next
    case False
    then have "1 \<le> int (length rs)" by (cases rs) simp_all
    then have "0 < ps_err_cnt ?s" using 1(1) "2.prems"(3) by simp
    then show ?thesis using "2.IH" "2.prems"(1,3) 1(1,2) False by (simp add: Let_def)
  qed
qed simp

section \<open>Properties\<close>

text \<open>
  C23. Guessing passwords is slowed down: once as many requests in a row as the counter still allows (five
  from the start, and again after each log in) had a wrong password, then in the 60 seconds after the last
  of them no log in request does anything. Its password is not looked at, the session stays not logged in
  and nothing changes, not even the reply buffer, so that the answer repeats the bytes of an earlier one.
\<close>

theorem login_lockout:
  assumes "all_wrong E junk rs s" "0 < ps_err_cnt s" "int (length rs) = ps_err_cnt s"
    and "now \<le> fst (last rs) + 60" "rbuf ! 0 = 0"
  shows "Login E now junk rbuf (logins E junk rs s) = (logins E junk rs s, 2) \<and>
    logged (logins E junk rs s) = logged s"
proof -
  have "rs \<noteq> []" using assms(2,3) by auto
  then obtain tm where "ps_err_cnt (logins E junk rs s) = 0" "logged (logins E junk rs s) = logged s"
      "timer_lock (logins E junk rs s) = timer_Start (fst (last rs)) 60 tm"
    using logins_wrong [OF assms(1,2)] assms(3) by (auto simp: Let_def)
  then show ?thesis using assms(4,5) by (simp add: Login_def timer_TimeOut_def timer_Start_def Let_def)
qed

text \<open>A world for the examples: its state is the list of audit results, user 0 has the password 7.\<close>

definition demo_env :: "int list pq_env" where
  "demo_env = \<lparr>FindUser = (\<lambda>n w. if n = [97] then 0 else - 1), CheckPasswd = (\<lambda>p i t w. (w, if p = [7] then 0 else 1)),
     AddUser = (\<lambda>a b c w. (100 # w, 0)), DelUser = (\<lambda>a w. (200 # w, 0)), SetPasswd = (\<lambda>a b c w. w),
     SetAudit = (\<lambda>a b c k w. k # w), ReadAuditRec = (\<lambda>a b c w. (w, [], 0)), usr_name = (\<lambda>w i. [97]),
     usr_num = (\<lambda>w. 1), DecryptoStr = (\<lambda>w b. take 1 b), rand_key = (\<lambda>w. replicate 16 9), UpdateKey = (\<lambda>w. w),
     Authenticate = (\<lambda>b w. (w, 0)), lcm_dely_time = (\<lambda>w. 10), set_device_sn = (\<lambda>b w. w), save_sm4_key = (\<lambda>b w. w),
     set_time_buf = (\<lambda>c w. w), gps_single_type = (\<lambda>w. 3)\<rparr>"

definition demo_limits :: limits where
  "demo_limits = \<lparr>limit_type = 0, freq_limit = [0, 0], pst_limit = 0, harm_ulimit = replicate 50 0,
     harm_ilimit = replicate 49 0, trigger_enable = 0\<rparr>"

definition demo_session :: "int list app_pq" where
  "demo_session = AppPrtclPQ [] (replicate 2048 0) demo_limits"

text \<open>A request with user name a and a one byte password.\<close>

definition demo_login :: "u8 \<Rightarrow> u8 \<Rightarrow> u8 list" where
  "demo_login op p = [op, 97, 0] @ replicate 14 0 @ [p] @ replicate 40 0"

theorem login_lockout_witness:
  "Login demo_env 1060 0 (demo_login 0 7)
     (logins demo_env 0 (map (\<lambda>t. (t, demo_login 0 8)) [996, 997, 998, 999, 1000]) demo_session) =
   (logins demo_env 0 (map (\<lambda>t. (t, demo_login 0 8)) [996, 997, 998, 999, 1000]) demo_session, 2)"
proof -
  have "all_wrong demo_env 0 (map (\<lambda>t. (t, demo_login 0 8)) [996, 997, 998, 999, 1000]) demo_session"
    by code_simp
  moreover have "ps_err_cnt demo_session = 5" "demo_login 0 7 ! 0 = 0"
    by (simp_all add: demo_session_def AppPrtclPQ_def demo_login_def)
  ultimately show ?thesis by (intro login_lockout [THEN conjunct1]) simp_all
qed

text \<open>
  Custom limits that a client writes are what it reads back, byte for byte, as long as the limit of
  short term flicker is at most 6553: it is stored tenfold in 16 bits.  The length announced for
  the answer that holds the 106 bytes is 126, 20 more than there are: the header is counted twice.
\<close>

lemma custom_limits_read_back:
  assumes "106 \<le> length rbuf" "uint (be16 rbuf 6) \<le> 6553" "rbuf ! 0 \<noteq> 0" "rd ! 0 = 0"
    and "length (m_tx_buffer s) = 2048" "length (freq_limit (syspara s)) = 2"
  shows "let (s1, n1) = custom_limit_handle E rbuf s; (s2, n2) = custom_limit_handle E rd s1
    in n1 = 1 \<and> take 106 (drop 20 (m_tx_buffer s2)) = 0 # take 105 (drop 1 rbuf) \<and> n2 = 106 + 20"
proof -
  have "take 106 (drop 20 (put_bytes 21 vs (b[20 := 0]))) = 0 # vs" if "length vs = 105" "length b = 2048" for vs b
    using put_bytes_slice [of 20 "0 # vs" b] that by simp
  then show ?thesis
    using assms limit_bytes_set [OF assms(1,2,6)]
    by (simp add: custom_limit_handle_def audit_def put_body_def Let_def)
qed

lemma custom_limits_read_back_example:
  "let (s1, n1) = custom_limit_handle demo_env (1 # 1 # replicate 104 5) demo_session;
       (s2, n2) = custom_limit_handle demo_env [0] s1
   in n1 = 1 \<and> take 106 (drop 20 (m_tx_buffer s2)) = 0 # 1 # replicate 104 5 \<and> n2 = 106 + 20"
proof -
  have "(1 # replicate 104 5 :: u8 list) = take 105 (drop 1 (1 # 1 # replicate 104 5))" by simp
  moreover have "uint (be16 (1 # 1 # replicate 104 5) 6) \<le> 6553" by code_simp
  ultimately show ?thesis
    using custom_limits_read_back [of "1 # 1 # replicate 104 5" "[0]" demo_session demo_env]
    by (simp add: demo_session_def AppPrtclPQ_def demo_limits_def)
qed

end
