(* ===== verification/App_PqB.thy ===== *)
theory App_PqB
  imports App_Pq Phy_PqB
begin

text \<open>
  The command handler of protocol type B (\<open>AppPrtclPqB::CmdReceive\<close>,
  common/commu/protocol/app_prtcl_pqb.cpp): decompression, the gate for sessions that are not logged
  in, the command switch and the loop that answers with a window of frames.  The handlers of App_Pq
  are called directly; those of readings, records and parameter tables are operations of the
  environment, each given the receive buffer, the body length, the command and the session.
\<close>

section \<open>Environment and state\<close>

datatype pq_call = Tx_real | Tx_trnst_rec | Tx_syspar | Set_syspar | Set_para | Cvt_modify_handle
  | Tx_smp_ver | Tx_smp_data | Tx_smp_suc | TxPower01Time | TxOtherRec | TxEewRec

record 'e pqb_env =
  pq :: "'e pq_env"
  uncompress :: "u8 list \<Rightarrow> int \<Rightarrow> u8 list \<times> int"
  other_call :: "pq_call \<Rightarrow> u8 list \<Rightarrow> u16 \<Rightarrow> u8 \<Rightarrow> 'e app_pq \<Rightarrow> (u8 list \<times> 'e app_pq \<times> int) option"
  pqm_type :: "'e \<Rightarrow> u8"
  units_type :: "'e \<Rightarrow> nat \<Rightarrow> u8"
  security_en :: "'e \<Rightarrow> int"
  alarm_word :: "'e \<Rightarrow> u32"
  ReadHarms2Buf :: "int \<Rightarrow> int \<Rightarrow> 'e \<Rightarrow> 'e \<times> int"
  GetHarmFrmBuf :: "'e \<Rightarrow> 'e \<times> u8 list"
  manual_rec_enable :: "'e \<Rightarrow> bool"
  set_stdy_event :: "'e \<Rightarrow> 'e"
  manual_state :: "'e \<Rightarrow> int"
  eew_para_update :: "'e \<Rightarrow> 'e"
  ColdReboot :: "'e \<Rightarrow> 'e"
  switch_sshd :: "bool \<Rightarrow> 'e \<Rightarrow> 'e"
  notice_init_unit :: "'e \<Rightarrow> 'e"
  notice_sys_param :: "'e \<Rightarrow> 'e"

record 'e app_pqb =
  base :: "'e app_pq"
  cmd_hd :: commhead
  m_rx_buffer :: "u8 list"

text \<open>The local variables of the handler that live across frames.\<close>

record loc =
  ack :: bool
  tx_buf :: bool
  syspara_update :: int
  cyc_1st :: bool

abbreviation MaxWindowsSz :: int where "MaxWindowsSz \<equiv> 16"

section \<open>Records and manual recording\<close>

definition man_rec :: "'e pqb_env \<Rightarrow> 'e app_pq \<Rightarrow> 'e app_pq \<times> int" where
  "man_rec E s =
     (let s1 = (if manual_rec_enable E (world s) then s\<lparr>world := set_stdy_event E (world s)\<rparr> else s)
      in (put_body [byte (manual_state E (world s1))] s1, 1))"

definition long_at :: "u8 list \<Rightarrow> nat \<Rightarrow> int" where
  "long_at b i = sint (of_le4 (b ! i) (b ! (i + 1)) (b ! (i + 2)) (b ! (i + 3)))"

text \<open>The first frame of a harmonic request reads the records; their number becomes the window.\<close>

definition TxHarmRec :: "'e pqb_env \<Rightarrow> bool \<Rightarrow> u8 list \<Rightarrow> u8 list \<Rightarrow> 'e app_pqb \<Rightarrow> ('e app_pqb \<times> int) option" where
  "TxHarmRec E first rbuf heap s =
     (let s1 = (if first
                then (let (w, tol) = ReadHarms2Buf E (long_at rbuf 0) (long_at rbuf 4) (world (base s))
                      in s\<lparr>base := (base s)\<lparr>world := w\<rparr>, cmd_hd := (cmd_hd s)\<lparr>window_sz := byte tol\<rparr>\<rparr>)
                else s)
      in if first \<and> window_sz (cmd_hd s1) = 0 then Some (s1, 0)
         else (let (w, pch) = GetHarmFrmBuf E (world (base s1))
               in Some (s1\<lparr>base := (base s1)\<lparr>world := w, ptx_bufd := Some (take kDataHdSz heap @ pch)\<rparr>\<rparr>,
                        int (length pch))))"

section \<open>The command switch\<close>

definition set_len :: "int \<Rightarrow> 'e app_pqb \<Rightarrow> 'e app_pqb" where
  "set_len n s = s\<lparr>cmd_hd := (cmd_hd s)\<lparr>body_len := word_of_int n\<rparr>\<rparr>"

definition set_comp :: "u8 \<Rightarrow> 'e app_pqb \<Rightarrow> 'e app_pqb" where
  "set_comp v s = s\<lparr>cmd_hd := (cmd_hd s)\<lparr>hd_compress := v\<rparr>\<rparr>"

text \<open>A handler of the session whose result is the body length, and one of the environment.\<close>

definition on_base :: "('e app_pq \<Rightarrow> 'e app_pq \<times> int) \<Rightarrow> 'e app_pqb \<Rightarrow> 'e app_pqb" where
  "on_base f s = (let (b, n) = f (base s) in set_len n (s\<lparr>base := b\<rparr>))"

definition on_other :: "'e pqb_env \<Rightarrow> pq_call \<Rightarrow> 'e app_pqb \<Rightarrow> 'e app_pqb option" where
  "on_other E k s =
     (case other_call E k (m_rx_buffer s) (body_len (cmd_hd s)) (hd_cmd (cmd_hd s)) (base s) of
        None \<Rightarrow> None
      | Some (rx, b, n) \<Rightarrow> Some (set_len n (s\<lparr>base := b, m_rx_buffer := rx\<rparr>)))"

definition on_world :: "('e \<Rightarrow> 'e) \<Rightarrow> 'e app_pqb \<Rightarrow> 'e app_pqb" where
  "on_world f s = s\<lparr>base := (base s)\<lparr>world := f (world (base s))\<rparr>\<rparr>"

definition sshd_setting :: "'e pqb_env \<Rightarrow> bool \<Rightarrow> 'e app_pqb \<Rightarrow> 'e app_pqb" where
  "sshd_setting E on s =
     (let s1 = on_world (switch_sshd E on) s
      in s1\<lparr>base := audit (pq E) ''setting'' (if on then ''Start sshd'' else ''Stop sshd'') 1 (base s1)\<rparr>)"

definition update_cmds :: "u8 set" where
  "update_cmds = {19, 20, 21, 22, 23, 25, 29, 37, 49, 50}"

definition param_cmds :: "u8 set" where
  "param_cmds = {43, 44, 45, 47, 52}"

definition record_cmds :: "u8 set" where
  "record_cmds = {64, 65, 66, 67, 68}"

text \<open>Requests of the session itself.\<close>

definition session_cmd :: "'e pqb_env \<Rightarrow> int \<Rightarrow> int \<Rightarrow> u8 list \<Rightarrow> loc \<Rightarrow> 'e app_pqb \<Rightarrow> (loc \<times> 'e app_pqb) option" where
  "session_cmd E now junk heap l s =
     (let c = hd_cmd (cmd_hd s); p = m_rx_buffer s in
      if c = 93 then Some (l, on_base (SetDeviceSn (pq E) p) s)
      else if c = 92 then
        (case TxAuditLog (pq E) heap p (base s) of None \<Rightarrow> None
         | Some (b, n) \<Rightarrow> Some (l\<lparr>tx_buf := True\<rparr>, set_comp 1 (set_len n (s\<lparr>base := b\<rparr>))))
      else if c = 96 then Some (l, on_base (TxRandkey (pq E)) s)
      else if c = 97 then Some (l, on_base (Identify (pq E) p) s)
      else if c = 95 then
        (case GetUsers (pq E) (base s) of None \<Rightarrow> None
         | Some (b, n) \<Rightarrow> Some (l, set_len n (s\<lparr>base := b\<rparr>)))
      else if c = 98 then Some (l, on_base (Login (pq E) now junk p) s)
      else if c = 94 then Some (l, on_base (ChgPasswd (pq E) p) s)
      else if c = 100 then
        Some (l, on_world (ColdReboot E) (s\<lparr>base := audit (pq E) ''setting'' ''Cold reboot'' 1 (base s)\<rparr>))
      else if c = 99 then Some (l, set_len 0 (sshd_setting E (p ! 0 = 1) s))
      else Some (l\<lparr>ack := False\<rparr>, set_len 0 s))"

definition switch_cmd :: "'e pqb_env \<Rightarrow> int \<Rightarrow> int \<Rightarrow> u8 list \<Rightarrow> loc \<Rightarrow> 'e app_pqb \<Rightarrow> (loc \<times> 'e app_pqb) option" where
  "switch_cmd E now junk heap l s =
     (let c = hd_cmd (cmd_hd s); p = m_rx_buffer s; call = (\<lambda>k. on_other E k s) in
      if c = 5 then Some (l, s)
      else if c = 7 then
        (let ui = alarm_word E (world (base s))
         in Some (l, set_len 2 (s\<lparr>base := put_body [ucast (drop_bit 8 ui), ucast ui] (base s)\<rparr>)))
      else if c = 9 then map_option (\<lambda>s. (l\<lparr>tx_buf := True\<rparr>, set_comp 1 s)) (call Tx_real)
      else if c = 18 then map_option (Pair l) (call Tx_trnst_rec)
      else if c = 10 then Some (l\<lparr>ack := False\<rparr>, s\<lparr>base := set_time (pq E) now p (base s)\<rparr>)
      else if c = 13 then
        (let (b, n, u) = IniDev (pq E) now p (syspara_update l) (base s)
         in Some (l\<lparr>syspara_update := u\<rparr>, set_len n (s\<lparr>base := b\<rparr>)))
      else if c = 11 then map_option (\<lambda>s. (l, set_comp 1 s)) (call Tx_syspar)
      else if c = 12 then
        map_option (\<lambda>s. (l\<lparr>syspara_update := 1\<rparr>, on_world (eew_para_update E) s)) (call Set_syspar)
      else if c = 24 then
        Some (l\<lparr>syspara_update := 1\<rparr>, on_base (custom_limit_handle (pq E) p) s)
      else if c \<in> update_cmds then map_option (Pair (l\<lparr>syspara_update := 1\<rparr>)) (call Set_para)
      else if c \<in> param_cmds then map_option (Pair l) (call Set_para)
      else if c = 41 then map_option (Pair l) (call Cvt_modify_handle)
      else if c = 26 then map_option (Pair l) (call Tx_smp_ver)
      else if c = 27 then map_option (Pair l) (call Tx_smp_data)
      else if c = 28 then map_option (Pair l) (call Tx_smp_suc)
      else if c = 51 then Some (l, on_base (trigger_able (pq E) p) s)
      else if c = 38 then map_option (Pair l) (call TxPower01Time)
      else if c \<in> record_cmds then
        map_option (\<lambda>s. (l\<lparr>tx_buf := True\<rparr>, set_comp (if body_len (cmd_hd s) \<noteq> 0 then 1 else 0) s)) (call TxOtherRec)
      else if c = 69 then
        (case TxHarmRec E (cyc_1st l) p heap s of None \<Rightarrow> None
         | Some (s1, n) \<Rightarrow>
             (let s2 = set_len n s1; some = (body_len (cmd_hd s2) \<noteq> 0)
              in Some (l\<lparr>cyc_1st := False, tx_buf := some\<rparr>, set_comp (if some then 1 else 0) s2)))
      else if c = 36 then Some (l, on_base (man_rec E) s)
      else if c = 42 \<or> c = 46 then map_option (\<lambda>s. (l\<lparr>tx_buf := True\<rparr>, set_comp 1 s)) (call TxEewRec)
      else session_cmd E now junk heap l s)"

section \<open>Frames\<close>

text \<open>
  The frame is the header followed by the body in the buffer the handler filled.  The block
  \<open>ptx_bufd\<close> is released; a missing or shorter one is read out of bounds.
\<close>

definition emit_frame :: "loc \<Rightarrow> 'e app_pqb \<Rightarrow> ('e app_pqb \<times> u8 list) option" where
  "emit_frame l s =
     (let n = kDataHdSz + unat (body_len (cmd_hd s)); b = base s;
          hd = head_bytes (cmd_hd s);
          next = (\<lambda>s. s\<lparr>cmd_hd := (cmd_hd s)\<lparr>frm_sn := frm_sn (cmd_hd s) + 1\<rparr>\<rparr>) in
      if tx_buf l then
        (case ptx_bufd b of None \<Rightarrow> None
         | Some buf \<Rightarrow> if length buf < n then None
             else Some (next (s\<lparr>base := b\<lparr>ptx_bufd := None\<rparr>\<rparr>), take n (put_bytes 0 hd buf)))
      else if length (m_tx_buffer b) < n then None
      else (let buf = put_bytes 0 hd (m_tx_buffer b)
            in Some (next (s\<lparr>base := b\<lparr>m_tx_buffer := buf\<rparr>\<rparr>), take n buf)))"

text \<open>
  Up to \<open>window_sz\<close> frames, a number that the first one may change.  They are stored in an array of the caller, which
  has room for \<open>MaxWindowsSz\<close> of them and is no concern of the loop (\<open>Dispatch.handle_frames\<close>).  Without
  acknowledgement the call ends there and reports no frame.
\<close>

function reply_loop :: "'e pqb_env \<Rightarrow> int \<Rightarrow> int \<Rightarrow> u8 list \<Rightarrow> int \<Rightarrow> loc \<Rightarrow> 'e app_pqb \<Rightarrow>
    (loc \<times> 'e app_pqb \<times> u8 list list option) option" where
  "reply_loop E now junk heap k l s =
     (if k < uint (window_sz (cmd_hd s)) then
        (case switch_cmd E now junk heap (l\<lparr>ack := True\<rparr>) s of None \<Rightarrow> None
         | Some (l1, s1) \<Rightarrow>
           if \<not> ack l1 then Some (l1, s1, None)
           else (case emit_frame l1 s1 of None \<Rightarrow> None
             | Some (s2, frame) \<Rightarrow>
                 (case reply_loop E now junk heap (k + 1) l1 s2 of None \<Rightarrow> None
                  | Some (l3, s3, fs) \<Rightarrow> Some (l3, s3, map_option ((#) frame) fs))))
      else Some (l, s, Some []))"
  by pat_completeness auto
termination
proof (relation "measure (\<lambda>(E, now, junk, heap, k, l, s). nat (256 - k))", goal_cases)
  case (2 E now junk heap k l s)
  moreover have "uint (window_sz (cmd_hd s)) < 256" using uint_lt2p [of "window_sz (cmd_hd s)"] by simp
  ultimately show ?case by simp
qed simp

declare reply_loop.simps [simp del]

section \<open>The whole handler\<close>

definition open_cmds :: "u8 set" where
  "open_cmds = {5, 96, 97, 95, 98, 49}"

text \<open>The request's body in the receive buffer: the new buffer and whether it is usable.\<close>

definition receive_body :: "'e pqb_env \<Rightarrow> commhead \<Rightarrow> u8 list \<Rightarrow> u8 list \<Rightarrow> (u8 list \<times> bool) option" where
  "receive_body E h rbuf rx =
     (case aslice rbuf (int kDataHdSz) (uint (body_len h)) of None \<Rightarrow> None
      | Some body \<Rightarrow>
          if hd_compress h \<noteq> 0 then
            (let (out, reti) = uncompress E body 2048
             in case blit rx 0 out of None \<Rightarrow> None | Some rx' \<Rightarrow> Some (rx', reti = 0))
          else (case blit rx 0 body of None \<Rightarrow> None | Some rx' \<Rightarrow> Some (rx', True)))"

definition reply_head :: "'e pqb_env \<Rightarrow> 'e \<Rightarrow> commhead \<Rightarrow> commhead" where
  "reply_head E w h =
     h\<lparr>prtcl_type := 1, prtcl_ver := 3, hd_compress := 0, compress_alg := 1, equip_type := pqm_type E w,
       unit_scale := units_type E w 0 OR push_bit 2 (units_type E w 1) OR push_bit 4 (units_type E w 2),
       window_sz := (if 16 < window_sz h then 16 else if window_sz h < 1 then 1 else window_sz h)\<rparr>"

definition CmdReceive :: "'e pqb_env \<Rightarrow> int \<Rightarrow> int \<Rightarrow> u8 list \<Rightarrow> u8 list \<Rightarrow> 'e app_pqb \<Rightarrow> ('e app_pqb \<times> u8 list list) option" where
  "CmdReceive E now junk heap rbuf s =
     (let h = head_of rbuf; s0 = s\<lparr>cmd_hd := h\<rparr> in
      case receive_body E h rbuf (m_rx_buffer s) of None \<Rightarrow> None
      | Some (rx, ok) \<Rightarrow>
        (let s1 = s0\<lparr>m_rx_buffer := rx\<rparr> in
         if \<not> ok then Some (s1, [])
         else
           (let w = world (base s1);
                s2 = s1\<lparr>cmd_hd := reply_head E w h\<rparr>;
                s3 = (if security_en E w = 0 then s2\<lparr>base := (base s2)\<lparr>logged := True\<rparr>\<rparr> else s2)
            in if \<not> logged (base s3) \<and> hd_cmd (cmd_hd s3) \<notin> open_cmds then Some (s3, [])
               else (case reply_loop E now junk heap 0 \<lparr>ack = True, tx_buf = False, syspara_update = 0, cyc_1st = True\<rparr> s3 of
                   None \<Rightarrow> None
                 | Some (l, s4, None) \<Rightarrow> Some (s4, [])
                 | Some (l, s4, Some fs) \<Rightarrow>
                   (let s5 = (if hd_cmd (cmd_hd s4) \<noteq> 7
                              then s4\<lparr>base := (base s4)\<lparr>timer_logout :=
                                     timer_Start now (lcm_dely_time (pq E) (world (base s4)) * 60) (timer_logout (base s4))\<rparr>\<rparr>
                              else s4);
                        s6 = (if syspara_update l = 2 then on_world (notice_init_unit E) s5
                              else if syspara_update l \<noteq> 0 then on_world (notice_sys_param E) s5 else s5)
                    in Some (s6, fs))))))"

text \<open>After a cycle without request the log out timer is looked at.\<close>

definition logout_check :: "int \<Rightarrow> 'e app_pq \<Rightarrow> 'e app_pq" where
  "logout_check now s =
     (if logged s \<and> timer_TimeOut now (timer_logout s) then s\<lparr>logged := False\<rparr> else s)"

section \<open>What the handlers keep of the header\<close>

text \<open>The fields no handler touches; the window only harmonic requests change.\<close>

definition fixed :: "commhead \<Rightarrow> u8 \<times> u8 \<times> u8 \<times> u8 \<times> u8 list \<times> u8" where
  "fixed h = (prtcl_type h, prtcl_ver h, hd_cmd h, frm_sn h, hd_reserve h, if hd_cmd h = 69 then 0 else window_sz h)"

lemma fixed_len [simp]: "fixed (cmd_hd (set_len n s)) = fixed (cmd_hd s)"
  by (simp add: set_len_def fixed_def)

lemma fixed_comp [simp]: "fixed (cmd_hd (set_comp n s)) = fixed (cmd_hd s)"
  by (simp add: set_comp_def fixed_def)

lemma fixed_base [simp]: "fixed (cmd_hd (on_base f s)) = fixed (cmd_hd s)"
  by (simp add: on_base_def split: prod.splits)

lemma cmd_hd_world [simp]: "cmd_hd (on_world f s) = cmd_hd s"
  by (simp add: on_world_def)

lemma fixed_sshd [simp]: "fixed (cmd_hd (sshd_setting E b s)) = fixed (cmd_hd s)"
  by (simp add: sshd_setting_def Let_def)

lemma fixed_other: "on_other E k s = Some s' \<Longrightarrow> fixed (cmd_hd s') = fixed (cmd_hd s)"
  by (auto simp: on_other_def split: option.splits prod.splits)

lemma fixed_harm:
  "TxHarmRec E b p heap s = Some (s', n) \<Longrightarrow> hd_cmd (cmd_hd s) = 69 \<Longrightarrow> fixed (cmd_hd s') = fixed (cmd_hd s)"
  by (auto simp: TxHarmRec_def fixed_def Let_def split: if_splits prod.splits)

lemma session_cmd_fixed:
  "session_cmd E now junk heap l s = Some (l', s') \<Longrightarrow> fixed (cmd_hd s') = fixed (cmd_hd s)"
  unfolding session_cmd_def Let_def
  by (auto split: if_splits option.splits prod.splits)

lemma switch_cmd_fixed:
  "switch_cmd E now junk heap l s = Some (l', s') \<Longrightarrow> fixed (cmd_hd s') = fixed (cmd_hd s)"
  unfolding switch_cmd_def Let_def
  by (auto dest: fixed_other fixed_harm session_cmd_fixed split: if_splits option.splits prod.splits)

lemma head_of_append: "20 \<le> length xs \<Longrightarrow> head_of (xs @ ys) = head_of xs"
  by (auto simp: head_of_def nth_append)

lemma emit_frame_head:
  assumes "emit_frame l s = Some (s', f)" "length (hd_reserve (cmd_hd s)) = 3"
  shows "head_of f = cmd_hd s \<and> length f = 20 + unat (body_len (cmd_hd s)) \<and>
    cmd_hd s' = (cmd_hd s)\<lparr>frm_sn := frm_sn (cmd_hd s) + 1\<rparr>"
proof -
  have "head_of (take n (put_bytes 0 (head_bytes (cmd_hd s)) b)) = cmd_hd s" if "20 \<le> n" "n \<le> length b" for n b
    using put_bytes_eq [of 0 "head_bytes (cmd_hd s)" b] that length_head_bytes [OF assms(2)]
    by (simp add: take_append head_of_append head_of_bytes [OF assms(2)])
  then show ?thesis using assms(1)
    by (auto simp: emit_frame_def Let_def split: if_splits option.splits)
qed

text \<open>A reply frame: its header and its length.\<close>

definition reply_frame :: "commhead \<Rightarrow> nat \<Rightarrow> u8 list \<Rightarrow> bool" where
  "reply_frame h i f \<longleftrightarrow>
     (let g = head_of f in prtcl_type g = prtcl_type h \<and> prtcl_ver g = prtcl_ver h \<and> hd_cmd g = hd_cmd h \<and>
        frm_sn g = frm_sn h + of_nat i \<and> length f = 20 + unat (body_len g))"

lemma reply_loop_frames:
  assumes "reply_loop E now junk heap k l s = Some (l', s', Some fs)" "length (hd_reserve (cmd_hd s)) = 3"
    and "0 \<le> k"
  shows "length fs \<le> nat (255 - k) \<and>
    (hd_cmd (cmd_hd s) \<noteq> 69 \<longrightarrow> length fs = nat (uint (window_sz (cmd_hd s)) - k)) \<and>
    (\<forall>i < length fs. reply_frame (cmd_hd s) i (fs ! i))"
  using assms
proof (induction E now junk heap k l s arbitrary: l' s' fs rule: reply_loop.induct)
  case (1 E now junk heap k l s)
  show ?case
  proof (cases "k < uint (window_sz (cmd_hd s))")
    case False
    then show ?thesis using "1.prems" by (subst (asm) reply_loop.simps) auto
  next
    case True
    obtain l1 s1 where sw: "switch_cmd E now junk heap (l\<lparr>ack := True\<rparr>) s = Some (l1, s1)"
      using "1.prems"(1) True by (subst (asm) reply_loop.simps) (auto split: option.splits)
    have lt: "k < 255" using True uint_lt2p [of "window_sz (cmd_hd s)"] by simp
    have ak: "ack l1" using "1.prems"(1) True sw by (subst (asm) reply_loop.simps) (auto split: if_splits)
    obtain s2 f where em: "emit_frame l1 s1 = Some (s2, f)"
      using "1.prems"(1) True sw ak by (subst (asm) reply_loop.simps) (auto split: option.splits)
    obtain l3 s3 gs where rl: "reply_loop E now junk heap (k + 1) l1 s2 = Some (l3, s3, Some gs)" "fs = f # gs"
      using "1.prems"(1) True sw ak em by (subst (asm) reply_loop.simps) (auto split: option.splits)
    note fx = switch_cmd_fixed [OF sw]
    have r3: "length (hd_reserve (cmd_hd s1)) = 3" using fx "1.prems"(2) by (simp add: fixed_def)
    note e = emit_frame_head [OF em r3]
    have IH: "length gs \<le> nat (255 - (k + 1)) \<and>
      (hd_cmd (cmd_hd s2) \<noteq> 69 \<longrightarrow> length gs = nat (uint (window_sz (cmd_hd s2)) - (k + 1))) \<and>
      (\<forall>i < length gs. reply_frame (cmd_hd s2) i (gs ! i))"
      using "1.IH" [OF True sw refl _ em refl rl(1)] ak r3 e "1.prems"(3) by simp
    have "reply_frame (cmd_hd s) i (fs ! i)" if "i < length fs" for i
      using IH that rl(2) e fx by (cases i) (auto simp: reply_frame_def fixed_def Let_def)
    then show ?thesis using IH rl(2) e fx ak lt True "1.prems"(3) by (auto simp: fixed_def)
  qed
qed

text \<open>The example environment: nothing else to call, log in required.\<close>

definition demo_pqb :: "int list pqb_env" where
  "demo_pqb = \<lparr>pq = demo_env, uncompress = (\<lambda>b n. (b, 0)), other_call = (\<lambda>k rx n c b. Some (rx, b, 1)),
     pqm_type = (\<lambda>w. 36), units_type = (\<lambda>w i. 1), security_en = (\<lambda>w. 1), alarm_word = (\<lambda>w. 0x1234),
     ReadHarms2Buf = (\<lambda>a b w. (w, 20)), GetHarmFrmBuf = (\<lambda>w. (w, [1, 2, 3])), manual_rec_enable = (\<lambda>w. True),
     set_stdy_event = (\<lambda>w. 50 # w), manual_state = (\<lambda>w. 1), eew_para_update = (\<lambda>w. w), ColdReboot = (\<lambda>w. 60 # w),
     switch_sshd = (\<lambda>b w. w), notice_init_unit = (\<lambda>w. w), notice_sys_param = (\<lambda>w. 70 # w)\<rparr>"

definition demo_pqb_state :: "int list app_pqb" where
  "demo_pqb_state = \<lparr>base = demo_session, cmd_hd = blank_head, m_rx_buffer = replicate 2048 0\<rparr>"

definition demo_request :: "u8 \<Rightarrow> u8 \<Rightarrow> u8 list \<Rightarrow> u8 list" where
  "demo_request cmd window body =
     head_bytes (blank_head\<lparr>hd_cmd := cmd, body_len := of_nat (length body), window_sz := window\<rparr>) @ body"

section \<open>Properties\<close>

lemma gate_shut:
  assumes "CmdReceive E now junk heap rbuf s = Some (s', fs)"
    and "\<not> logged (base s)" "security_en E (world (base s)) \<noteq> 0" "hd_cmd (head_of rbuf) \<notin> open_cmds"
  shows "fs = [] \<and> base s' = base s"
  using assms by (auto simp: CmdReceive_def reply_head_def Let_def split: option.splits if_splits)

text \<open>
  C24. The gate: as long as the session is not logged in and log in is required, a request other than
  search, random key, identify, list of users, log in and the hidden parameters changes nothing of the
  session or the world and is not answered.
\<close>

theorem gate_closed:
  assumes "CmdReceive E now junk heap rbuf s = Some (s', fs)"
    and "\<not> logged (base s)" "security_en E (world (base s)) \<noteq> 0" "hd_cmd (head_of rbuf) \<notin> open_cmds"
  shows "fs = [] \<and> base s' = base s"
  by (rule gate_shut [OF assms])

theorem gate_closed_witness:
  "\<exists>s'. CmdReceive demo_pqb 0 0 [] (demo_request 12 1 [1, 2, 3]) demo_pqb_state = Some (s', []) \<and>
     base s' = base demo_pqb_state"
proof -
  have n: "CmdReceive demo_pqb 0 0 [] (demo_request 12 1 [1, 2, 3]) demo_pqb_state \<noteq> None"
    by code_simp
  have h: "\<not> logged (base demo_pqb_state)" "security_en demo_pqb (world (base demo_pqb_state)) \<noteq> 0"
    "hd_cmd (head_of (demo_request 12 1 [1, 2, 3])) \<notin> open_cmds"
    by code_simp+
  obtain s' fs where r: "CmdReceive demo_pqb 0 0 [] (demo_request 12 1 [1, 2, 3]) demo_pqb_state = Some (s', fs)"
    using n by fast
  show ?thesis using gate_closed [OF r h] r by auto
qed

text \<open>
  C26. What is answered is a sequence of frames of protocol B, version 3: each one has the command of the request, the next serial
  number and as many bytes as its header says.  Except for harmonic records a request that is answered gets as many as its window
  asks for, at least 1 and at most 16; for harmonic records there can be up to 255, more than the dispatcher has room for.
\<close>

theorem reply_is_a_window:
  assumes "CmdReceive E now junk heap rbuf s = Some (s', fs)"
  shows "length fs \<le> 255 \<and>
    (fs = [] \<or> hd_cmd (head_of rbuf) = 69 \<or> int (length fs) = max 1 (min 16 (uint (window_sz (head_of rbuf))))) \<and>
    (\<forall>i < length fs. let g = head_of (fs ! i) in prtcl_type g = 1 \<and> prtcl_ver g = 3 \<and>
       hd_cmd g = hd_cmd (head_of rbuf) \<and> frm_sn g = frm_sn (head_of rbuf) + of_nat i \<and>
       length (fs ! i) = 20 + unat (body_len g))"
proof (cases "fs = []")
  case False
  let ?h = "reply_head E (world (base s)) (head_of rbuf)"
  obtain l s3 l4 s4 where rl: "reply_loop E now junk heap 0 l s3 = Some (l4, s4, Some fs)" "cmd_hd s3 = ?h"
    using assms False
    by (auto simp: CmdReceive_def Let_def split: option.splits if_splits)
  have "length (hd_reserve ?h) = 3" by (simp add: reply_head_def head_of_def)
  note r = reply_loop_frames [OF rl(1), unfolded rl(2), OF this]
  have w: "uint (window_sz ?h) = max 1 (min 16 (uint (window_sz (head_of rbuf))))"
    by (auto simp: reply_head_def word_less_def max_def min_def)
  have "hd_cmd ?h = hd_cmd (head_of rbuf)" "prtcl_type ?h = 1" "prtcl_ver ?h = 3" "frm_sn ?h = frm_sn (head_of rbuf)"
    by (simp_all add: reply_head_def)
  then show ?thesis using r w by (auto simp: reply_frame_def Let_def le_max_iff_disj)
qed simp

theorem reply_is_a_window_witness:
  "\<exists>s' fs. CmdReceive demo_pqb 0 0 [] (demo_request 5 3 []) demo_pqb_state = Some (s', fs) \<and> length fs = 3"
proof -
  have n: "CmdReceive demo_pqb 0 0 [] (demo_request 5 3 []) demo_pqb_state \<noteq> None"
    "map_option snd (CmdReceive demo_pqb 0 0 [] (demo_request 5 3 []) demo_pqb_state) \<noteq> Some []"
    by code_simp+
  then obtain s' fs where r: "CmdReceive demo_pqb 0 0 [] (demo_request 5 3 []) demo_pqb_state = Some (s', fs)" "fs \<noteq> []"
    by fastforce
  have "hd_cmd (head_of (demo_request 5 3 [])) = 5" "uint (window_sz (head_of (demo_request 5 3 []))) = 3" by code_simp+
  then show ?thesis using reply_is_a_window [OF r(1)] r by simp
qed

lemma window_one: "w \<le> 1 \<Longrightarrow> (if 16 < w then 16 else if w < 1 then 1 else w) = (1 :: u8)"
  by (auto simp: word_le_nat_alt word_less_nat_alt word_unat_eq_iff)

text \<open>
  C25. The gate does not protect the users: on a fresh connection, with log in required and nobody logged in, a log in
  frame with operation 1 adds the user it names with the passwords it carries, because the session starts with
  the administrator's number 0 and the operations of the log in frame look at that alone.
\<close>

theorem anyone_adds_users:
  assumes "base s = AppPrtclPQ w buf par" "length buf = 2048" "security_en E w \<noteq> 0"
    and "hd_cmd (head_of rbuf) = 98" "window_sz (head_of rbuf) \<le> 1"
    and "receive_body E (head_of rbuf) rbuf (m_rx_buffer s) = Some (rx, True)" "rx ! 0 = 1"
  shows "\<exists>s' frame. CmdReceive E now junk heap rbuf s = Some (s', [frame]) \<and> \<not> logged (base s') \<and>
    (let (w1, k) = AddUser (pq E) (cstr (drop 1 rx)) (DecryptoStr (pq E) w (take 16 (drop 33 rx)))
                     (DecryptoStr (pq E) w (take 16 (drop 17 rx))) w
     in world (base s') = SetAudit (pq E) ''setting'' (usr_name (pq E) w1 0) ''Add user'' (k + 1) w1)"
proof -
  obtain w1 k where au: "AddUser (pq E) (cstr (drop 1 rx)) (DecryptoStr (pq E) w (take 16 (drop 33 rx)))
      (DecryptoStr (pq E) w (take 16 (drop 17 rx))) w = (w1, k)" by (meson surj_pair)
  let ?l = "\<lparr>ack = True, tx_buf = False, syspara_update = 0, cyc_1st = True\<rparr>"
  let ?h = "reply_head E w (head_of rbuf)"
  let ?s = "s\<lparr>m_rx_buffer := rx, cmd_hd := ?h\<rparr>"
  define b where "b = fst (Login (pq E) now junk rx (base s))"
  have b: "world b = SetAudit (pq E) ''setting'' (usr_name (pq E) w1 0) ''Add user'' (k + 1) w1"
      "\<not> logged b" "length (m_tx_buffer b) = 2048" "Login (pq E) now junk rx (base s) = (b, 2)"
    using assms(1,2,7) au
    by (simp_all add: b_def Login_def AppPrtclPQ_def audit_def decrypt_def put_body_def Let_def)
  have h: "hd_cmd ?h = 98" "window_sz ?h = 1"
    using assms(4) window_one [OF assms(5)] by (simp_all add: reply_head_def)
  let ?s1 = "set_len 2 (?s\<lparr>base := b\<rparr>)"
  have sw: "switch_cmd E now junk heap ?l ?s = Some (?l, ?s1)"
    using h(1) b(4) by (simp add: switch_cmd_def session_cmd_def on_base_def update_cmds_def param_cmds_def record_cmds_def Let_def)
  obtain s2 f where em: "emit_frame ?l ?s1 = Some (s2, f)" "world (base s2) = world b" "logged (base s2) = logged b"
      "cmd_hd s2 = (cmd_hd ?s1)\<lparr>frm_sn := frm_sn ?h + 1\<rparr>"
    using b(3) by (simp add: emit_frame_def set_len_def Let_def)
  have "reply_loop E now junk heap 1 ?l s2 = Some (?l, s2, Some [])"
    using em(4) h(2) by (subst reply_loop.simps) (simp add: set_len_def)
  then have "reply_loop E now junk heap 0 ?l ?s = Some (?l, s2, Some [f])"
    using sw em(1) h(2) by (subst reply_loop.simps) simp
  moreover have "\<not> logged (base s)" "world (base s) = w" using assms(1) by (simp_all add: AppPrtclPQ_def)
  moreover have "hd_cmd (cmd_hd s2) = 98" using em(4) h(1) by (simp add: set_len_def)
  ultimately have "\<exists>s'. CmdReceive E now junk heap rbuf s = Some (s', [f]) \<and> logged (base s') = logged b \<and> world (base s') = world b"
    using assms(3,4,6) em(2,3) h(1) by (simp add: CmdReceive_def open_cmds_def Let_def)
  then show ?thesis using b(1,2) au by auto
qed

theorem anyone_adds_users_witness:
  "\<exists>s' frame. CmdReceive demo_pqb 0 0 [] (demo_request 98 1 (demo_login 1 7)) demo_pqb_state = Some (s', [frame]) \<and>
     \<not> logged (base s') \<and> world (base s') = [1, 100]"
proof -
  let ?rbuf = "demo_request 98 1 (demo_login 1 7)"
  let ?rx = "demo_login 1 7 @ replicate 1990 0"
  have "receive_body demo_pqb (head_of ?rbuf) ?rbuf (m_rx_buffer demo_pqb_state) = Some (?rx, True)"
    "hd_cmd (head_of ?rbuf) = 98" "window_sz (head_of ?rbuf) \<le> 1" "?rx ! 0 = 1" "security_en demo_pqb [] \<noteq> 0"
    by code_simp+
  moreover have "base demo_pqb_state = AppPrtclPQ [] (replicate 2048 0) demo_limits"
    by (simp add: demo_pqb_state_def demo_session_def)
  ultimately show ?thesis
    using anyone_adds_users [of demo_pqb_state "[]" "replicate 2048 0" demo_limits demo_pqb ?rbuf ?rx 0 0 "[]"]
    by (simp add: demo_pqb_def demo_env_def)
qed

text \<open>
  The frames of a harmonic request are as many as records were read, here 17 for a window of 1: beyond 16 the caller's arrays are
  overrun (\<open>Dispatch.frames_overrun\<close>).
\<close>

lemma harmonic_window_overruns:
  "map_option (\<lambda>r. length (snd r)) (CmdReceive
     (demo_pqb\<lparr>security_en := (\<lambda>w. 0), ReadHarms2Buf := (\<lambda>a b w. (w, 17)), GetHarmFrmBuf := (\<lambda>w. (w, [1]))\<rparr>) 0 0 (replicate 20 0)
     (demo_request 69 1 (replicate 8 0)) (demo_pqb_state\<lparr>m_rx_buffer := replicate 8 0, base := demo_session\<lparr>m_tx_buffer := []\<rparr>\<rparr>)) = Some 17"
  by code_simp

end
