(* ===== verification/Dispatch.thy ===== *)
theory Dispatch
  imports App_PqB
begin

text \<open>
  The communication dispatcher (common/commu/commu_disptchr.cpp): it reads from the device, lets the
  physical layer cut frames out of the bytes, hands each frame to the application layer and sends the
  answers packed by the physical layer.  The two layers are abstract classes; their virtual methods
  are the fields of a record here, and protocol B fills it.
\<close>

section \<open>The dispatcher\<close>

record ('p, 'a) layers =
  rxmaxn :: int
  unpack_data :: "u8 list \<Rightarrow> int \<Rightarrow> u8 list \<Rightarrow> int list \<Rightarrow> 'p \<Rightarrow> (int \<times> u8 list \<times> int list \<times> 'p) option"
  pack_data :: "u8 list \<Rightarrow> int \<Rightarrow> 'p \<Rightarrow> (int \<times> u8 list \<times> int \<times> 'p) option"
  cmd_receive :: "u8 list \<Rightarrow> 'a \<Rightarrow> ('a \<times> u8 list list) option"
  cmd_send :: "int \<Rightarrow> 'a \<Rightarrow> ('a \<times> u8 list list) option"
  post_process :: "'a \<Rightarrow> 'a"

record ('p, 'a) disptchr =
  phy_buffer :: "u8 list option"
  rdbuf :: "u8 list option"
  rx_max_num :: int
  send_mark :: int
  phy_prtcl :: "'p option"
  app_prtcl :: "'a option"
  has_dev :: bool

definition new_disptchr :: "int \<Rightarrow> ('p, 'a) disptchr" where
  "new_disptchr junk = \<lparr>phy_buffer = None, rdbuf = None, rx_max_num = junk, send_mark = 0, phy_prtcl = None,
     app_prtcl = None, has_dev = False\<rparr>"

text \<open>Fresh buffers have indeterminate contents.\<close>

definition SetAssocObj :: "('p, 'a) layers \<Rightarrow> (nat \<Rightarrow> u8) \<Rightarrow> 'p \<Rightarrow> 'a \<Rightarrow> ('p, 'a) disptchr \<Rightarrow> ('p, 'a) disptchr" where
  "SetAssocObj V junk p a d =
     d\<lparr>has_dev := True, phy_prtcl := Some p, app_prtcl := Some a, rx_max_num := rxmaxn V,
       phy_buffer := Some (map junk [0..<nat (rxmaxn V * 2)]), rdbuf := Some (map junk [0..<nat (rxmaxn V)])\<rparr>"

text \<open>
  Packing and writing the answers.  A failure of \<open>PackData\<close> is not looked at: what is written
  then is behind a pointer that was not set.
\<close>

fun write_frames :: "('p, 'a) layers \<Rightarrow> u8 list list \<Rightarrow> 'p \<Rightarrow> ('p \<times> u8 list list) option" where
  "write_frames V [] p = Some (p, [])"
| "write_frames V (f # fs) p = do {
     (r, out, n, p) \<leftarrow> pack_data V f (int (length f)) p;
     if r \<noteq> 0 then None
     else do {
       (p, ws) \<leftarrow> write_frames V fs p;
       Some (p, out # ws) }
   }"

text \<open>
  The frames at the given offsets, one after the other.  The application layer stores its answers in arrays of this method with
  \<open>MaxWindowsSz\<close> elements; a further one is stored behind them.
\<close>

fun handle_frames :: "('p, 'a) layers \<Rightarrow> u8 list list \<Rightarrow> 'p \<times> 'a \<Rightarrow> (('p \<times> 'a) \<times> u8 list list) option" where
  "handle_frames V [] s = Some (s, [])"
| "handle_frames V (f # fs) (p, a) = do {
     (a, answers) \<leftarrow> cmd_receive V f a;
     if MaxWindowsSz < int (length answers) then None
     else do {
       (p, w1) \<leftarrow> write_frames V answers p;
       (s, w2) \<leftarrow> handle_frames V fs (p, a);
       Some (s, w1 @ w2) } }"

lemma frames_overrun: "cmd_receive V f a = Some (b, answers) \<Longrightarrow> 16 < length answers \<Longrightarrow> handle_frames V (f # fs) (p, a) = None"
  by simp

definition frames_at :: "u8 list \<Rightarrow> int list \<Rightarrow> int \<Rightarrow> u8 list list" where
  "frames_at buf ofst n = map (\<lambda>i. drop (nat (ofst ! i)) buf) [0..<nat n]"

text \<open>
  \<open>CeiveTrans\<close>: \<open>got\<close> is what the device's \<open>Read\<close> delivered, at most \<open>rx_max_num\<close> bytes; an empty
  list stands for a count of 0 or less.  The result is the return value and what was written.
\<close>

definition CeiveTrans ::
  "('p, 'a) layers \<Rightarrow> int list \<Rightarrow> u8 list \<Rightarrow> ('p, 'a) disptchr \<Rightarrow> (int \<times> u8 list list \<times> ('p, 'a) disptchr) option" where
  "CeiveTrans V ofst0 got d =
     (case (rdbuf d, phy_buffer d) of
        (Some rb, Some pb) \<Rightarrow>
          (case (phy_prtcl d, app_prtcl d) of
             (Some p, Some a) \<Rightarrow>
               if \<not> has_dev d then Some (4, [], d)
               else if got = [] then Some (2, [], d)
               else do {
                 rb \<leftarrow> blit rb 0 got;
                 (n, pb, ofst, p) \<leftarrow> unpack_data V rb (int (length got)) pb ofst0 p;
                 ((p, a), ws) \<leftarrow> handle_frames V (frames_at pb ofst n) (p, a);
                 let d = d\<lparr>rdbuf := Some rb, phy_buffer := Some pb, phy_prtcl := Some p, app_prtcl := Some a\<rparr>;
                 Some (if n \<noteq> 0 then (0, ws, d\<lparr>send_mark := 1\<rparr>) else (1, ws, d))
               }
           | _ \<Rightarrow> Some (4, [], d))
      | _ \<Rightarrow> Some (3, [], d))"

text \<open>\<open>Transmit\<close> dereferences the layers without a test.\<close>

definition Transmit :: "('p, 'a) layers \<Rightarrow> ('p, 'a) disptchr \<Rightarrow> (u8 list list \<times> ('p, 'a) disptchr) option" where
  "Transmit V d =
     (case (phy_prtcl d, app_prtcl d) of
        (Some p, Some a) \<Rightarrow> do {
          (a, fs) \<leftarrow> cmd_send V (send_mark d) a;
          (p, ws) \<leftarrow> write_frames V fs p;
          Some (ws, d\<lparr>send_mark := 0, phy_prtcl := Some p, app_prtcl := Some a\<rparr>) }
      | _ \<Rightarrow> None)"

definition PostProcess :: "('p, 'a) layers \<Rightarrow> ('p, 'a) disptchr \<Rightarrow> ('p, 'a) disptchr option" where
  "PostProcess V d = map_option (\<lambda>a. d\<lparr>app_prtcl := Some (post_process V a)\<rparr>) (app_prtcl d)"

text \<open>Protocol B on both layers; it has nothing to send on its own.\<close>

definition pqb_layers ::
  "u32 \<Rightarrow> (u32 \<Rightarrow> u8 list \<Rightarrow> u32) \<Rightarrow> (u8 list \<Rightarrow> int \<Rightarrow> u8 list) \<Rightarrow> 'e pqb_env \<Rightarrow> int \<Rightarrow> int \<Rightarrow> u8 list \<Rightarrow>
   (pqb, 'e app_pqb) layers" where
  "pqb_layers ad0 adl cm E now junk heap =
     \<lparr>rxmaxn = get_rxmaxn, unpack_data = UnpackData ad0 adl, pack_data = PackData ad0 adl cm,
      cmd_receive = CmdReceive E now junk heap, cmd_send = (\<lambda>mark a. Some (a, [])),
      post_process = (\<lambda>a. a\<lparr>base := logout_check now (base a)\<rparr>)\<rparr>"

section \<open>An application layer with a gate\<close>

text \<open>
  What the dispatcher relies on for sessions that are not logged in: a frame of a class that
  concerns only insiders is not answered and leaves what the session shows as it was.
\<close>

locale gated_layer =
  fixes recv :: "u8 list \<Rightarrow> 'a \<Rightarrow> ('a \<times> u8 list list) option"
    and view :: "'a \<Rightarrow> 'v"
    and closed :: "'v \<Rightarrow> bool"
    and insider :: "u8 list \<Rightarrow> bool"
  assumes refuse: "recv f a = Some (b, fs) \<Longrightarrow> closed (view a) \<Longrightarrow> insider f \<Longrightarrow> fs = [] \<and> view b = view a"
begin

lemma refuse_all:
  assumes "cmd_receive V = recv"
  shows "handle_frames V fs (p, a) = Some ((q, b), ws) \<Longrightarrow> closed (view a) \<Longrightarrow> \<forall>f \<in> set fs. insider f \<Longrightarrow>
    ws = [] \<and> view b = view a \<and> q = p"
proof (induction fs arbitrary: p a ws)
  case (Cons f fs)
  from Cons.prems(1) obtain c answers w1 p1 w2 where
    c: "recv f a = Some (c, answers)" "write_frames V answers p = Some (p1, w1)"
       "handle_frames V fs (p1, c) = Some ((q, b), w2)" "ws = w1 @ w2"
    by (auto simp: assms split: Option.bind_splits prod.splits if_splits)
  have r: "answers = [] \<and> view c = view a" using refuse [OF c(1) Cons.prems(2)] Cons.prems(3) by simp
  then have "w1 = []" "p1 = p" using c(2) by simp_all
  then show ?case using Cons.IH [OF c(3)] Cons.prems(2,3) r c(4) by simp
qed simp

end

interpretation gate: gated_layer "CmdReceive E now junk heap" base
    "\<lambda>s. \<not> logged s \<and> security_en E (world s) \<noteq> 0" "\<lambda>f. hd_cmd (head_of f) \<notin> open_cmds"
  for E :: "'e pqb_env" and now junk heap
proof
  fix f a b fs
  assume "CmdReceive E now junk heap f a = Some (b, fs)"
    "\<not> logged (base a) \<and> security_en E (world (base a)) \<noteq> 0" "hd_cmd (head_of f) \<notin> open_cmds"
  then show "fs = [] \<and> base b = base a" by (intro gate_shut) auto
qed

section \<open>One request through all layers\<close>

lemma length_blit: "blit b off src = Some c \<Longrightarrow> length c = length b"
  by (auto simp: blit_def split: if_splits)

lemma PackData_length:
  "PackData ad0 adl cm idata num p = Some (r, out, n, q) \<Longrightarrow> length (m_tx_buf q) = length (m_tx_buf p)"
  by (auto simp: PackData_def Let_def dest!: length_blit split: if_splits Option.bind_splits)

lemma le2_of_le2: "le2 (of_le2 a b) = [a, b]"
proof -
  have "ucast (ucast a OR push_bit 8 (ucast b) :: u16) = a" "ucast (drop_bit 8 (ucast a OR push_bit 8 (ucast b) :: u16)) = b"
    by (rule bit_word_eqI; auto simp: bit_simps dest: bit_imp_le_length)+
  then show ?thesis by (simp add: le2_def of_le2_def)
qed

lemma le4_of_le4: "le4 (of_le4 a b c d) = [a, b, c, d]"
proof -
  let ?w = "ucast a OR push_bit 8 (ucast b) OR push_bit 16 (ucast c) OR push_bit 24 (ucast d) :: u32"
  have "ucast ?w = a" "ucast (drop_bit 8 ?w) = b" "ucast (drop_bit 16 ?w) = c" "ucast (drop_bit 24 ?w) = d"
    by (rule bit_word_eqI; auto simp: bit_simps dest: bit_imp_le_length)+
  then show ?thesis by (simp add: le4_def of_le4_def)
qed

text \<open>A block of at least 20 bytes is a header and a body.\<close>

lemma head_bytes_head_of: "20 \<le> length f \<Longrightarrow> head_bytes (head_of f) = take 20 f"
proof -
  assume "20 \<le> length f"
  then have "take 20 f = map ((!) f) [0..<20]" by (simp add: list_eq_iff_nth_eq)
  also have "[0..<20] = [0, 1, 2, 3, 4, 5, 6, 7, 8, 9, 10, 11, 12, 13, 14, 15, 16, 17, 18, 19 :: nat]" by code_simp
  finally show ?thesis by (simp add: head_bytes_def head_tail_bytes_def head_of_def le2_of_le2 le4_of_le4)
qed

text \<open>What goes out for an answer frame: the mark, the check sum in place of the first four bytes, the rest.\<close>

definition sent :: "u32 \<Rightarrow> (u32 \<Rightarrow> u8 list \<Rightarrow> u32) \<Rightarrow> u8 list \<Rightarrow> u8 list" where
  "sent ad0 adl f = tx_mark @ le4 (adl ad0 (drop 4 f)) @ drop 4 f"

definition plain_answer :: "u8 list \<Rightarrow> bool" where
  "plain_answer f \<longleftrightarrow> hd_compress (head_of f) = 0 \<and> length f \<le> 15000 \<and> length f = 20 + unat (body_len (head_of f))"

lemma PackData_answer:
  assumes "plain_answer f" "length (m_tx_buf p) = 15360"
  shows "\<exists>q n. PackData ad0 adl cm f (int (length f)) p = Some (0, sent ad0 adl f, n, q) \<and> length (m_tx_buf q) = 15360"
proof -
  let ?h = "head_of f" and ?b = "drop 20 f"
  have len: "20 \<le> length f" using assms(1) by (simp add: plain_answer_def)
  have f: "f = head_bytes ?h @ ?b" using head_bytes_head_of [OF len] by simp
  have l: "length (hd_reserve ?h) = 3" by (simp add: head_of_def)
  have t: "head_tail_bytes ?h @ ?b = drop 4 f"
    by (subst (3) f) (simp add: head_bytes_def le4_def)
  have "uint (body_len ?h) = int (length ?b)" "hd_compress ?h = 0" "length ?b \<le> 15000"
    using assms(1) by (simp_all add: plain_answer_def)
  from PackData_plain [OF l this assms(2), of ad0 adl cm]
  obtain q where q: "PackData ad0 adl cm f (int (length f)) p =
      Some (0, tx_mark @ head_bytes (stamped ad0 adl ?h ?b) @ ?b, 26 + int (length ?b), q)"
    using f len by (auto simp: of_nat_diff)
  moreover have "head_bytes (stamped ad0 adl ?h ?b) @ ?b = le4 (adl ad0 (drop 4 f)) @ drop 4 f"
    using t by (simp add: head_bytes_def stamped_def head_tail_bytes_def)
  ultimately show ?thesis using PackData_length [OF q] assms(2) by (simp add: sent_def)
qed

lemma write_plain:
  assumes "pack_data V = PackData ad0 adl cm"
  shows "length (m_tx_buf p) = 15360 \<Longrightarrow> \<forall>f \<in> set fs. plain_answer f \<Longrightarrow>
    \<exists>q. write_frames V fs p = Some (q, map (sent ad0 adl) fs)"
proof (induction fs arbitrary: p)
  case (Cons f fs)
  from Cons.prems obtain q n where q: "PackData ad0 adl cm f (int (length f)) p = Some (0, sent ad0 adl f, n, q)"
      "length (m_tx_buf q) = 15360" using PackData_answer by (meson list.set_intros(1))
  then obtain q' where "write_frames V fs q = Some (q', map (sent ad0 adl) fs)" using Cons by auto
  then show ?case using q(1) assms by simp
qed simp

lemma receive_body_prefix:
  "take (20 + unat (body_len h)) f = take (20 + unat (body_len h)) g \<Longrightarrow>
   20 + unat (body_len h) \<le> length f \<Longrightarrow> 20 + unat (body_len h) \<le> length g \<Longrightarrow>
   receive_body E h f rx = receive_body E h g rx"
proof -
  let ?n = "unat (body_len h)"
  assume a: "take (20 + ?n) f = take (20 + ?n) g" "20 + ?n \<le> length f" "20 + ?n \<le> length g"
  have "take ?n (drop 20 f) = drop 20 (take (20 + ?n) f)" "take ?n (drop 20 g) = drop 20 (take (20 + ?n) g)"
    by (simp_all add: drop_take)
  moreover have "int (20 + ?n) \<le> int (length f)" "int (20 + ?n) \<le> int (length g)"
    using a(2,3) by (simp_all only: of_nat_le_iff)
  ultimately have "aslice f 20 (int ?n) = aslice g 20 (int ?n)" using a(1) by (simp add: aslice_def)
  then show ?thesis by (simp add: receive_body_def)
qed

lemma CmdReceive_prefix:
  assumes "length (hd_reserve h) = 3" "uint (body_len h) = int (length body)"
  shows "CmdReceive E now junk heap (head_bytes h @ body @ xs) a = CmdReceive E now junk heap (head_bytes h @ body) a"
proof -
  have l: "length (head_bytes h) = 20" by (rule length_head_bytes [OF assms(1)])
  have "unat (body_len h) = length body" using assms(2) by (metis nat_int unat_eq_nat_uint)
  then have "receive_body E h (head_bytes h @ body @ xs) rx = receive_body E h (head_bytes h @ body) rx" for rx
    using l by (intro receive_body_prefix) simp_all
  then show ?thesis using l by (simp add: CmdReceive_def head_of_append head_of_bytes [OF assms(1)])
qed

text \<open>Only the bytes that were read count.\<close>

lemma UnpackData_extra:
  assumes "cnt = int (length got)"
  shows "UnpackData ad0 adl (got @ xs) cnt buf ofst p = UnpackData ad0 adl got cnt buf ofst p"
proof -
  have "for_loop 0 cnt (\<lambda>i b. do { x \<leftarrow> aget (got @ xs) i; aset b (m_rx_cnt p + i) x }) buf =
      for_loop 0 cnt (\<lambda>i b. do { x \<leftarrow> aget got i; aset b (m_rx_cnt p + i) x }) buf"
    unfolding for_loop_def by (rule foldO_cong) (auto simp: aget_def nth_append nat_less_iff assms)
  then show ?thesis by (simp add: UnpackData_def)
qed

lemma one_request:
  assumes "frame_ok ad0 adl (pb_dev_num p) h body" "length body \<le> 2000" "m_rx_cnt p = 0" "length (m_tx_buf p) = 15360"
    and "d = \<lparr>phy_buffer = Some pb, rdbuf = Some rb, rx_max_num = mx, send_mark = mark, phy_prtcl = Some p,
      app_prtcl = Some a, has_dev = True\<rparr>" "length pb = 8192" "length rb = 4096" "9 \<le> length ofst"
    and "CmdReceive E now junk heap (head_bytes h @ body) a = Some (b, fs)" "\<forall>f \<in> set fs. plain_answer f"
    and "length fs \<le> 16"
  shows "\<exists>d'. CeiveTrans (pqb_layers ad0 adl cm E now junk heap) ofst (rx_frame h body) d =
      Some (0, map (sent ad0 adl) fs, d') \<and> app_prtcl d' = Some b \<and> send_mark d' = 1"
proof -
  let ?f = "rx_frame h body" and ?V = "pqb_layers ad0 adl cm E now junk heap"
  have l: "length (hd_reserve h) = 3" "uint (body_len h) = int (length body)" using assms(1) by (simp_all add: frame_ok_def)
  note lf = length_rx_frame [OF l(1), of body]
  have ne: "?f \<noteq> []" by (simp add: rx_frame_def rx_mark_def)
  obtain q0 buf' where u: "UnpackData ad0 adl ?f (int (length ?f)) pb ofst p = Some (1, buf', ofst[0 := 4], q0)"
      "take (20 + length body) (drop 4 buf') = head_bytes h @ body"
    using UnpackData_frame [of ad0 adl p h body 0 pb ofst] assms(1-3,6,8) lf by auto
  have q0: "m_tx_buf q0 = m_tx_buf p" using u(1) by (auto simp: UnpackData_def split: if_splits Option.bind_splits)
  have "drop 4 buf' = head_bytes h @ body @ drop (24 + length body) buf'"
    using u(2) append_take_drop_id [of "20 + length body" "drop 4 buf'"] by simp
  then have "CmdReceive E now junk heap (drop 4 buf') a = Some (b, fs)"
    using CmdReceive_prefix [OF l, of E now junk heap "drop (24 + length body) buf'" a] assms(9) by simp
  moreover obtain q where "write_frames ?V fs q0 = Some (q, map (sent ad0 adl) fs)"
    using write_plain [of ?V ad0 adl cm q0 fs] q0 assms(4,10) by (auto simp: pqb_layers_def)
  moreover have "\<not> MaxWindowsSz < int (length fs)" using assms(11) by simp
  moreover have "frames_at buf' (ofst[0 := 4]) 1 = [drop 4 buf']" using assms(8) by (cases ofst) (simp_all add: frames_at_def)
  ultimately have h: "handle_frames ?V (frames_at buf' (ofst[0 := 4]) 1) (q0, a) = Some ((q, b), map (sent ad0 adl) fs)"
    by (simp add: pqb_layers_def)
  have "blit rb 0 ?f = Some (?f @ drop (length ?f) rb)" using lf assms(2,7) by (simp add: blit_def)
  moreover have "unpack_data ?V = UnpackData ad0 adl" by (simp add: pqb_layers_def)
  ultimately show ?thesis using h u(1) ne by (simp add: CeiveTrans_def assms(5) UnpackData_extra)
qed

text \<open>The example: device 3 with an additive check sum, nothing pending.\<close>

definition demo_adl :: "u32 \<Rightarrow> u8 list \<Rightarrow> u32" where
  "demo_adl a bs = a + sum_list (map ucast bs)"

definition demo_phy :: pqb where
  "demo_phy = (new_pqb blank_head 3 (\<lambda>_. 0))\<lparr>m_rx_cnt := 0\<rparr>"

definition demo_head :: "u8 \<Rightarrow> commhead" where
  "demo_head c = (let h = blank_head\<lparr>hd_cmd := c, body_len := 2, window_sz := 1\<rparr>
     in h\<lparr>adler_sum := demo_adl 1 (head_tail_bytes h @ [1, 2])\<rparr>)"

definition demo_disptchr :: "(pqb, int list app_pqb) disptchr" where
  "demo_disptchr = \<lparr>phy_buffer = Some (replicate 8192 0), rdbuf = Some (replicate 4096 0), rx_max_num = 4096,
     send_mark = 0, phy_prtcl = Some demo_phy, app_prtcl = Some demo_pqb_state, has_dev = True\<rparr>"

lemma demo_frame: "frame_ok 1 demo_adl (pb_dev_num demo_phy) (demo_head c) [1, 2]"
  by (simp add: frame_ok_def demo_head_def blank_head_def head_of_def head_tail_bytes_def of_le2_def Let_def)

lemma demo_phy_simps: "m_rx_cnt demo_phy = 0" "length (m_tx_buf demo_phy) = 15360"
  by (simp_all add: demo_phy_def new_pqb_def TxBufNum_def)

definition demo_layers :: "(pqb, int list app_pqb) layers" where
  "demo_layers = pqb_layers 1 demo_adl (\<lambda>b n. b) demo_pqb 0 0 []"

section \<open>Properties\<close>

text \<open>
  C3. From the wire to the wire: a well-formed request frame, read at once by a device with nothing pending,
  is handed to the command handler with its body and nothing else of the bytes read, and
  every answer frame the handler makes (as long as it is uncompressed, and there are at most the 16 for which the dispatcher has
  room) is written in order, behind the send
  mark and with its Adler-32 sum in front of its header fields and its body.
\<close>

theorem request_answered:
  assumes "frame_ok ad0 adl (pb_dev_num p) h body" "length body \<le> 2000" "m_rx_cnt p = 0" "length (m_tx_buf p) = 15360"
    and "d = \<lparr>phy_buffer = Some pb, rdbuf = Some rb, rx_max_num = mx, send_mark = mark, phy_prtcl = Some p,
      app_prtcl = Some a, has_dev = True\<rparr>" "length pb = 8192" "length rb = 4096" "9 \<le> length ofst"
    and "CmdReceive E now junk heap (head_bytes h @ body) a = Some (b, fs)" "\<forall>f \<in> set fs. plain_answer f"
    and "length fs \<le> 16"
  shows "\<exists>d'. CeiveTrans (pqb_layers ad0 adl cm E now junk heap) ofst (rx_frame h body) d =
      Some (0, map (sent ad0 adl) fs, d') \<and> app_prtcl d' = Some b \<and> send_mark d' = 1"
  by (rule one_request [OF assms])

theorem request_answered_witness:
  "\<exists>d' f. CeiveTrans demo_layers (replicate 10 0) (rx_frame (demo_head 5) [1, 2]) demo_disptchr =
     Some (0, [sent 1 demo_adl f], d') \<and> send_mark d' = 1"
proof -
  have c: "case CmdReceive demo_pqb 0 0 [] (head_bytes (demo_head 5) @ [1, 2]) demo_pqb_state of None \<Rightarrow> False
      | Some (b, fs) \<Rightarrow> length fs = 1 \<and> list_all plain_answer fs"
    by code_simp
  then obtain b f where r: "CmdReceive demo_pqb 0 0 [] (head_bytes (demo_head 5) @ [1, 2]) demo_pqb_state = Some (b, [f])"
      "\<forall>g \<in> set [f]. plain_answer g"
    by (auto simp: length_Suc_conv split: option.splits)
  have "length ([1, 2] :: u8 list) \<le> 2000" by simp
  from request_answered [OF demo_frame this demo_phy_simps demo_disptchr_def _ _ _ r _, of "replicate 10 0" "\<lambda>b n. b"]
  show ?thesis by (auto simp: demo_layers_def)
qed

text \<open>
  C4. Strangers get nothing: whatever bytes arrive, if none of the frames the physical layer finds in them is one of
  the open requests, a device whose session is not logged in, with log in required, writes nothing and the
  session and the world stay as they were.
\<close>

theorem strangers_get_nothing:
  assumes "CeiveTrans (pqb_layers ad0 adl cm E now junk heap) ofst got d = Some (r, ws, d')"
    and "app_prtcl d = Some a" "\<not> logged (base a)" "security_en E (world (base a)) \<noteq> 0"
    and "phy_prtcl d = Some p" "phy_buffer d = Some pb"
      "UnpackData ad0 adl got (int (length got)) pb ofst p = Some (n, pb', ofst', p')"
      "\<forall>f \<in> set (frames_at pb' ofst' n). hd_cmd (head_of f) \<notin> open_cmds"
  shows "ws = [] \<and> (\<exists>b. app_prtcl d' = Some b \<and> base b = base a)"
proof -
  let ?V = "pqb_layers ad0 adl cm E now junk heap"
  have V: "cmd_receive ?V = CmdReceive E now junk heap" "unpack_data ?V = UnpackData ad0 adl" by (simp_all add: pqb_layers_def)
  note refuse = gate.refuse_all [OF V(1)]
  have u: "UnpackData ad0 adl (got @ xs) (int (length got)) pb ofst p = Some (n, pb', ofst', p')" for xs
    using UnpackData_extra [OF refl] assms(7) by simp
  show ?thesis
  proof (cases "rdbuf d")
    case None
    then show ?thesis using assms(1-5) by (auto simp: CeiveTrans_def)
  next
    case (Some rb)
    have "blit rb 0 got = Some rb' \<Longrightarrow> rb' = got @ drop (length got) rb" for rb'
      by (auto simp: blit_def split: if_splits)
    then show ?thesis using Some u assms(1-6,8)
      by (auto simp: CeiveTrans_def V(2) Let_def dest!: refuse split: if_splits Option.bind_splits)
  qed
qed

theorem strangers_get_nothing_witness:
  "\<exists>r d' b. CeiveTrans demo_layers (replicate 10 0) (rx_frame (demo_head 12) [1, 2]) demo_disptchr = Some (r, [], d') \<and>
     app_prtcl d' = Some b \<and> base b = base demo_pqb_state"
proof -
  let ?f = "rx_frame (demo_head 12) [1, 2]"
  have c: "case CmdReceive demo_pqb 0 0 [] (head_bytes (demo_head 12) @ [1, 2]) demo_pqb_state of None \<Rightarrow> False
      | Some (b, fs) \<Rightarrow> fs = []"
    by code_simp
  then obtain b where r: "CmdReceive demo_pqb 0 0 [] (head_bytes (demo_head 12) @ [1, 2]) demo_pqb_state = Some (b, [])"
      "\<forall>g \<in> set []. plain_answer g"
    by (auto split: option.splits)
  have two: "length ([1, 2] :: u8 list) \<le> 2000" by simp
  obtain d' where ce: "CeiveTrans demo_layers (replicate 10 0) ?f demo_disptchr = Some (0, [], d')"
    using one_request [OF demo_frame two demo_phy_simps demo_disptchr_def _ _ _ r _, of "replicate 10 0" "\<lambda>b n. b"]
    by (auto simp: demo_layers_def)
  have lf: "length ?f = 26" by (simp add: rx_frame_def rx_mark_def length_head_bytes demo_head_def blank_head_def head_of_def Let_def)
  obtain buf q where u: "UnpackData 1 demo_adl ?f (int (length ?f)) (replicate 8192 0) (replicate 10 0) demo_phy =
      Some (1, buf, (replicate 10 0)[0 := 4], q)" "take 22 (drop 4 buf) = head_bytes (demo_head 12) @ [1, 2]"
    using UnpackData_frame [OF demo_frame, of 0 12 "replicate 8192 0" "replicate 10 0"] lf demo_phy_simps(1) by auto
  have "drop 4 buf = (head_bytes (demo_head 12) @ [1, 2]) @ drop 26 buf"
    using append_take_drop_id [of 22 "drop 4 buf"] u(2) by simp
  then have "head_of (drop 4 buf) = head_of (head_bytes (demo_head 12) @ [1, 2])"
    by (simp add: head_of_append length_head_bytes demo_head_def blank_head_def head_of_def [of "replicate 20 0"] Let_def)
  moreover have "hd_cmd (head_of (head_bytes (demo_head 12) @ [1, 2])) = 12" by code_simp
  ultimately have "\<forall>f \<in> set (frames_at buf ((replicate 10 0)[0 := 4]) 1). hd_cmd (head_of f) \<notin> open_cmds"
    by (simp add: frames_at_def open_cmds_def)
  moreover have "app_prtcl demo_disptchr = Some demo_pqb_state" "phy_prtcl demo_disptchr = Some demo_phy"
    "phy_buffer demo_disptchr = Some (replicate 8192 0)" by (simp_all add: demo_disptchr_def)
  moreover have "\<not> logged (base demo_pqb_state)" "security_en demo_pqb (world (base demo_pqb_state)) \<noteq> 0"
    by (simp_all add: demo_pqb_state_def demo_session_def AppPrtclPQ_def demo_pqb_def)
  ultimately show ?thesis
    using strangers_get_nothing [OF ce [unfolded demo_layers_def] _ _ _ _ _ u(1)] ce by blast
qed

end
