(* ===== verification/Label.thy ===== *)
theory Label
  imports Canvas Vga
begin

text \<open>
  The text components of the screen (\<open>gui/src/GUI/component/label.cpp\<close>, \<open>labelset.cpp\<close>): a
  caption with one changing text, and a set of texts at fixed places.  Each draws into the display
  buffer and copies the rectangle that may have changed to the frame buffer.  The global
  \<open>pqm_dis\<close> and the mapped memory behind it are the state of the screen.
\<close>

section \<open>The screen\<close>

record screen =
  sc_dis :: disbuf
  sc_vga :: vga
  sc_signed :: bool

definition on_dis :: "(disbuf \<Rightarrow> disbuf option) \<Rightarrow> screen \<Rightarrow> screen option" where
  "on_dis f s = map_option (\<lambda>d. s\<lparr>sc_dis := d\<rparr>) (f (sc_dis s))"

text \<open>\<open>pqm_dis->clear (x1, y1, x2, y2)\<close> with its default colour, and \<open>pqm_dis->refresh\<close>.\<close>

definition scr_clear :: "int \<Rightarrow> int \<Rightarrow> int \<Rightarrow> int \<Rightarrow> screen \<Rightarrow> screen option" where
  "scr_clear x1 y1 x2 y2 = on_dis (clear_rect x1 y1 x2 y2 0)"

definition scr_refresh :: "int \<Rightarrow> int \<Rightarrow> int \<Rightarrow> int \<Rightarrow> screen \<Rightarrow> screen option" where
  "scr_refresh x1 y1 x2 y2 s =
     map_option (\<lambda>v. s\<lparr>sc_vga := v\<rparr>) (refresh_rect (sc_signed s) x1 y1 x2 y2 (sc_dis s) (sc_vga s))"

section \<open>Fonts and borders\<close>

record sfont =
  asc_size :: int
  cn_size :: int
  space :: int
  f_color :: u32

record sedges =
  left_width :: int
  top_width :: int
  right_width :: int
  bottom_width :: int
  e_color :: u32

record widget =
  left :: int
  topp :: int
  width :: int
  height :: int

text \<open>
  The colours of the table (\<open>vgacolor\<close>) are an argument, because the table is set up once for the
  depth of the screen.
\<close>

type_synonym palette = "VGAColorType \<Rightarrow> u32"

definition default_font :: "u32 \<Rightarrow> sfont" where
  "default_font c = \<lparr>asc_size = 8, cn_size = 12, space = 0, f_color = c\<rparr>"

definition no_edges :: "u32 \<Rightarrow> sedges" where
  "no_edges c = \<lparr>left_width = 0, top_width = 0, right_width = 0, bottom_width = 0, e_color = c\<rparr>"

text \<open>The four loops that draw a border, in the order of the code.\<close>

definition draw_border :: "int \<Rightarrow> sedges \<Rightarrow> int \<Rightarrow> int \<Rightarrow> int \<Rightarrow> int \<Rightarrow> disbuf \<Rightarrow> disbuf option" where
  "draw_border junk b l t w h d =
     (let wl = (if left_width b > 1 then left_width b - 1 else 0);
          wr = (if right_width b > 1 then right_width b - 1 else 0)
      in do {
        d \<leftarrow> for_loop 0 (left_width b) (\<lambda>i. line junk (l - i) t (l - i) (t + h) (e_color b) 0) d;
        d \<leftarrow> for_loop 0 (right_width b) (\<lambda>i. line junk (l + w + i - 1) t (l + w + i - 1) (t + h) (e_color b) 0) d;
        d \<leftarrow> for_loop 0 (top_width b) (\<lambda>i. line junk (l - wl) (t - i) (l + w + wr) (t - i) (e_color b) 0) d;
        for_loop 0 (bottom_width b) (\<lambda>i. line junk (l - wl) (t + h + i - 1) (l + w + wr) (t + h + i - 1) (e_color b) 0) d })"

text \<open>
  The loop that measures a string (three copies in the code): a byte from 0xa1 on starts a character
  of two bytes, even when it is the last one.
\<close>

fun measure_text :: "int \<Rightarrow> int \<Rightarrow> u8 list \<Rightarrow> int" where
  "measure_text cn spc [] = 0"
| "measure_text cn spc [c] = (if c \<ge> 0xa1 then cn + spc else 7 + spc)"
| "measure_text cn spc (c # c2 # cs) =
     (if c \<ge> 0xa1 then (cn + spc) + measure_text cn spc cs else (7 + spc) + measure_text cn spc (c2 # cs))"

text \<open>A string copied into \<open>new char[strlen + 2]\<close>: the byte behind the terminator is indeterminate.\<close>

definition c_string :: "u8 \<Rightarrow> u8 list \<Rightarrow> u8 list" where
  "c_string rest s = s @ [0, rest]"

section \<open>A label\<close>

record label = widget +
  now_width :: int
  font :: sfont
  left_space :: int
  top_space :: int
  transparent :: bool
  bgcolor :: u32
  auto_size :: bool
  visible :: bool
  update :: bool
  caption :: "u8 list"
  l_text :: "u8 list option"

definition label_string :: "label \<Rightarrow> u8 list" where
  "label_string l = caption l @ (case l_text l of None \<Rightarrow> [] | Some t \<Rightarrow> t)"

definition calc_vwsz :: "label \<Rightarrow> label" where
  "calc_vwsz l =
     (let n = measure_text (cn_size (font l)) (space (font l)) (label_string l)
      in l\<lparr>width := (if width l < n then n else width l), height := cn_size (font l), now_width := n\<rparr>)"

definition new_label :: "palette \<Rightarrow> u8 list \<Rightarrow> label" where
  "new_label col str =
     calc_vwsz \<lparr>left = 0, topp = 0, width = 0, height = 0, now_width = 0, font = default_font (col kVGA_Default),
                left_space = 0, top_space = 0, transparent = True, bgcolor = col kVGA_Default,
                auto_size = True, visible = True, update = True, caption = str, l_text = None\<rparr>"

definition label_assign :: "label \<Rightarrow> label \<Rightarrow> label" where
  "label_assign l other =
     l\<lparr>left := left other, topp := topp other, width := width other, height := height other,
       font := font other, left_space := left_space other, top_space := top_space other,
       transparent := transparent other, bgcolor := bgcolor other, auto_size := auto_size other,
       visible := visible other\<rparr>"

definition label_clear :: "label \<Rightarrow> screen \<Rightarrow> screen option" where
  "label_clear l = scr_clear (left l) (topp l) (left l + width l) (topp l + height l)"

definition label_set_txt :: "u8 list \<Rightarrow> label \<times> screen \<Rightarrow> (label \<times> screen) option" where
  "label_set_txt str = (\<lambda>(l, s).
     let l = l\<lparr>l_text := Some str\<rparr> in
     if auto_size l then map_option (\<lambda>s. ((calc_vwsz l)\<lparr>update := True\<rparr>, s)) (label_clear l s)
     else Some (l\<lparr>update := True\<rparr>, s))"

definition label_draw :: "u8 \<Rightarrow> label \<Rightarrow> screen \<Rightarrow> screen option" where
  "label_draw rest l s =
     (if \<not> visible l then Some s
      else do {
        s \<leftarrow> (if \<not> transparent l
              then on_dis (rectangle (left l) (topp l) (left l + width l) (topp l + height l) (bgcolor l)) s
              else Some s);
        on_dis (\<lambda>d. puts (c_string rest (label_string l)) (left l + left_space l)
                      (topp l + cn_size (font l) + top_space l) (f_color (font l)) (space (font l))
                      (set_font (cn_size (font l)) (asc_size (font l)) d)) s })"

definition label_set_visible :: "bool \<Rightarrow> label \<times> screen \<Rightarrow> (label \<times> screen) option" where
  "label_set_visible yn = (\<lambda>(l, s).
     let l = l\<lparr>visible := yn\<rparr> in
     map_option (\<lambda>s. (l\<lparr>update := True\<rparr>, s)) (if \<not> yn then label_clear l s else Some s))"

definition label_set_update :: "bool \<Rightarrow> label \<Rightarrow> label" where
  "label_set_update yn l = l\<lparr>update := yn\<rparr>"

definition label_refresh :: "u8 \<Rightarrow> label \<times> screen \<Rightarrow> (label \<times> screen) option" where
  "label_refresh rest = (\<lambda>(l, s).
     if \<not> update l \<or> \<not> visible l then Some (l, s)
     else do {
       s \<leftarrow> label_draw rest l s;
       s \<leftarrow> scr_refresh (left l) (topp l) (left l + width l) (topp l + height l) s;
       Some (if auto_size l then l\<lparr>width := now_width l\<rparr> else l, s) })"

section \<open>A set of labels\<close>

record slabel = widget +
  rfrs_width :: int
  s_text :: "u8 list option"
  s_auto_size :: bool
  self_font :: bool
  s_font :: sfont
  s_update :: bool

record labelset = widget +
  allrefresh :: bool
  ls_font :: sfont
  ls_transparent :: bool
  ls_bgcolor :: u32
  border :: sedges
  labels :: "slabel list"
  ls_visible :: bool
  ls_update :: bool

definition used_font :: "labelset \<Rightarrow> slabel \<Rightarrow> sfont" where
  "used_font ls a = (if self_font a then s_font a else ls_font ls)"

definition calc_one :: "sfont \<Rightarrow> slabel \<Rightarrow> slabel" where
  "calc_one f a =
     (let n = measure_text (cn_size f) (space f) (case s_text a of None \<Rightarrow> [] | Some t \<Rightarrow> t)
      in a\<lparr>rfrs_width := (if width a < n then n else rfrs_width a), width := n, height := cn_size f\<rparr>)"

definition calc_vwsz_at :: "int \<Rightarrow> labelset \<Rightarrow> labelset option" where
  "calc_vwsz_at i ls =
     (case aget (labels ls) i of None \<Rightarrow> None
      | Some a \<Rightarrow> map_option (\<lambda>as. ls\<lparr>labels := as\<rparr>) (aset (labels ls) i (calc_one (used_font ls a) a)))"

text \<open>The widths of the new cells are indeterminate (\<open>w\<close>); \<open>bg\<close> is the background, not set either.\<close>

definition new_slabel :: "palette \<Rightarrow> int \<Rightarrow> int \<Rightarrow> slabel" where
  "new_slabel col w i =
     calc_one (default_font (col kVGA_Default))
       \<lparr>left = 0, topp = i * 12 + 2, width = w, height = 0, rfrs_width = 0, s_text = None, s_auto_size = True,
        self_font = False, s_font = default_font (col kVGA_Default), s_update = True\<rparr>"

definition new_labelset :: "palette \<Rightarrow> u32 \<Rightarrow> int \<Rightarrow> int \<Rightarrow> labelset" where
  "new_labelset col bg w cnt =
     \<lparr>left = 0, topp = 0, width = 80, height = 60, allrefresh = False, ls_font = default_font (col kVGA_Default),
      ls_transparent = True, ls_bgcolor = bg, border = no_edges (col kVGA_Default),
      labels = map (new_slabel col w) [0..cnt - 1], ls_visible = True, ls_update = True\<rparr>"

definition labelset_assign :: "labelset \<Rightarrow> labelset \<Rightarrow> labelset" where
  "labelset_assign ls other =
     ls\<lparr>left := left other, topp := topp other, width := width other, height := height other,
        allrefresh := allrefresh other, ls_font := ls_font other, ls_transparent := ls_transparent other,
        ls_bgcolor := ls_bgcolor other, border := border other,
        labels := map (\<lambda>a. calc_one (used_font other a) (a\<lparr>s_text := None\<rparr>)) (labels other),
        ls_visible := ls_visible other\<rparr>"

definition labelset_clear :: "labelset \<Rightarrow> labelset" where
  "labelset_clear ls = ls\<lparr>labels := map (\<lambda>a. a\<lparr>s_text := None\<rparr>) (labels ls)\<rparr>"

definition labelset_set_txt :: "int \<Rightarrow> u8 list \<Rightarrow> labelset \<Rightarrow> labelset option" where
  "labelset_set_txt i str ls =
     (if i \<ge> int (length (labels ls)) then Some ls
      else case aget (labels ls) i of None \<Rightarrow> None
      | Some a \<Rightarrow>
          let a = a\<lparr>s_text := Some str\<rparr>;
              a = (if s_auto_size a then calc_one (used_font ls a) a else a)
          in map_option (\<lambda>as. ls\<lparr>labels := as, ls_update := (allrefresh ls \<or> ls_update ls)\<rparr>)
               (aset (labels ls) i (a\<lparr>s_update := True\<rparr>)))"

definition drawone :: "u8 \<Rightarrow> int \<Rightarrow> labelset \<times> screen \<Rightarrow> (labelset \<times> screen) option" where
  "drawone rest i = (\<lambda>(ls, s).
     case aget (labels ls) i of None \<Rightarrow> None
     | Some a \<Rightarrow>
         (case s_text a of None \<Rightarrow> Some (ls, s)
          | Some t \<Rightarrow>
              let f = used_font ls a in do {
                s \<leftarrow> on_dis (\<lambda>d. puts (c_string rest t) (left ls + left a) (topp ls + topp a + cn_size f) (f_color f) (space f)
                                    (set_font (cn_size f) (asc_size f) d)) s;
                as \<leftarrow> aset (labels ls) i (a\<lparr>s_update := False\<rparr>);
                Some (ls\<lparr>labels := as\<rparr>, s) }))"

definition labelset_draw :: "int \<Rightarrow> u8 \<Rightarrow> labelset \<times> screen \<Rightarrow> (labelset \<times> screen) option" where
  "labelset_draw junk rest = (\<lambda>(ls, s).
     let ls = ls\<lparr>ls_update := False\<rparr> in
     if \<not> ls_visible ls then Some (ls, s)
     else do {
       s \<leftarrow> (if \<not> ls_transparent ls
             then on_dis (rectangle (left ls) (topp ls) (left ls + width ls) (topp ls + height ls) (ls_bgcolor ls)) s
             else Some s);
       s \<leftarrow> on_dis (draw_border junk (border ls) (left ls) (topp ls) (width ls) (height ls)) s;
       for_loop 0 (int (length (labels ls))) (drawone rest) (ls, s) })"

definition labelset_set_visible :: "bool \<Rightarrow> labelset \<times> screen \<Rightarrow> (labelset \<times> screen) option" where
  "labelset_set_visible yn = (\<lambda>(ls, s).
     map_option (\<lambda>s. (ls\<lparr>ls_visible := yn, ls_update := True\<rparr>, s))
       (if \<not> yn then scr_clear (left ls) (topp ls) (left ls + width ls) (topp ls + height ls) s else Some s))"

definition refresh_one :: "u8 \<Rightarrow> int \<Rightarrow> labelset \<times> screen \<Rightarrow> (labelset \<times> screen) option" where
  "refresh_one rest i = (\<lambda>(ls, s).
     case aget (labels ls) i of None \<Rightarrow> None
     | Some a \<Rightarrow>
         if \<not> s_update a then Some (ls, s)
         else
           let lft = left ls + left a; tp = topp ls + topp a; wd = rfrs_width a; ht = height a in do {
             s \<leftarrow> scr_clear lft tp (lft + wd) (tp + ht) s;
             (ls, s) \<leftarrow> drawone rest i (ls, s);
             s \<leftarrow> scr_refresh lft tp (lft + wd) (tp + ht) s;
             b \<leftarrow> aget (labels ls) i;
             as \<leftarrow> aset (labels ls) i (b\<lparr>rfrs_width := width b\<rparr>);
             Some (ls\<lparr>labels := as\<rparr>, s) })"

definition labelset_refresh :: "int \<Rightarrow> u8 \<Rightarrow> labelset \<times> screen \<Rightarrow> (labelset \<times> screen) option" where
  "labelset_refresh junk rest = (\<lambda>(ls, s).
     if \<not> ls_visible ls then Some (ls, s)
     else if ls_update ls then
       (let l = left ls; t = topp ls; w = width ls; h = height ls in do {
          s \<leftarrow> scr_clear l t (l + w) (t + h) s;
          (ls, s) \<leftarrow> labelset_draw junk rest (ls, s);
          s \<leftarrow> scr_refresh l t (l + w) (t + h) s;
          Some (ls, s) })
     else for_loop 0 (int (length (labels ls))) (refresh_one rest) (ls, s))"

section \<open>What a change of text erases\<close>

text \<open>The points of a rectangle are painted, also when it has none.\<close>

lemma rectangle_paints:
  assumes "wf_dis d" "\<And>x y. x1 \<le> x \<Longrightarrow> x < x2 \<Longrightarrow> y1 \<le> y \<Longrightarrow> y < y2 \<Longrightarrow> inside d x y"
  shows "\<exists>e. rectangle x1 y1 x2 y2 c d = Some e \<and> same_shape d e \<and>
    (\<forall>x y. inside d x y \<longrightarrow>
       pix e (x, y) = (if x1 \<le> x \<and> x < x2 \<and> y1 \<le> y \<and> y < y2 then c else pix d (x, y)))"
proof -
  have "\<forall>p \<in> set (rect_points x1 y1 x2 y2). inner_pix d p"
    using assms(2) by (auto simp: set_rect_points inner_pix_def)
  from dis.paint_points [OF assms(1) this, of c] show ?thesis
    by (auto simp: rectangle_def rect_loop [of _ _ _ _ "plot (\<lambda>_. c)"] inner_pix_def set_rect_points)
qed

definition in_box :: "int \<Rightarrow> int \<Rightarrow> int \<Rightarrow> int \<Rightarrow> int \<Rightarrow> int \<Rightarrow> bool" where
  "in_box l t w h x y \<longleftrightarrow> l \<le> x \<and> x < l + w \<and> t \<le> y \<and> y < t + h"

definition label_width :: "label \<Rightarrow> u8 list \<Rightarrow> int" where
  "label_width l t = measure_text (cn_size (font l)) (space (font l)) (caption l @ t)"

lemma scr_clear_box:
  assumes "wf_dis (sc_dis s)" "\<And>x y. in_box l t w h x y \<Longrightarrow> inside (sc_dis s) x y"
  shows "\<exists>e. scr_clear l t (l + w) (t + h) s = Some (s\<lparr>sc_dis := e\<rparr>) \<and> same_shape (sc_dis s) e \<and>
    (\<forall>x y. inside (sc_dis s) x y \<longrightarrow> pix e (x, y) = (if in_box l t w h x y then 0 else pix (sc_dis s) (x, y)))"
  using rectangle_paints [OF assms(1), of l "l + w" t "t + h" 0] assms(2)
  by (auto simp: scr_clear_def on_dis_def clear_rect_def in_box_def)

lemma label_set_txt_eq:
  assumes "auto_size l" "label_clear l s = Some s'"
  shows "label_set_txt t (l, s) =
    Some (l\<lparr>l_text := Some t, width := max (width l) (label_width l t), height := cn_size (font l),
            now_width := label_width l t, update := True\<rparr>, s')"
  using assms by (simp add: label_set_txt_def calc_vwsz_def Let_def label_clear_def label_string_def label_width_def max_def)

lemma fold_max_ge: "(a :: int) \<le> fold max ws a"
proof (induction ws arbitrary: a)
  case (Cons w ws)
  show ?case using Cons.IH [of "max w a"] by simp
qed simp

lemma fold_max_mem: "w \<in> set ws \<Longrightarrow> (w :: int) \<le> fold max ws a"
proof (induction ws arbitrary: a)
  case (Cons v ws)
  then show ?case using fold_max_ge [of "max v a" ws] by auto
qed simp

lemma texts_erased:
  assumes "auto_size l" "height l = cn_size (font l)" "wf_dis (sc_dis s)"
    and "\<And>x y. in_box (left l) (topp l) (fold max (map (label_width l) ts) (width l)) (height l) x y \<Longrightarrow> inside (sc_dis s) x y"
  shows "\<exists>e. foldO label_set_txt ts (l, s) =
      Some (if ts = [] then l else l\<lparr>l_text := Some (last ts), width := fold max (map (label_width l) ts) (width l),
              now_width := label_width l (last ts), update := True\<rparr>, s\<lparr>sc_dis := e\<rparr>) \<and>
    same_shape (sc_dis s) e \<and>
    (\<forall>x y. inside (sc_dis s) x y \<longrightarrow> pix e (x, y) =
       (if ts \<noteq> [] \<and> in_box (left l) (topp l) (fold max (map (label_width l) (butlast ts)) (width l)) (height l) x y
        then 0 else pix (sc_dis s) (x, y)))"
  using assms
proof (induction ts arbitrary: l s)
  case Nil
  then show ?case by (auto intro!: exI [of _ "sc_dis s"] dis.same_refl)
next
  case (Cons t ts)
  let ?w = "label_width l"
  let ?l = "l\<lparr>l_text := Some t, width := max (width l) (?w t), now_width := ?w t, update := True\<rparr>"
  have wl: "label_width ?l = ?w" by (simp add: fun_eq_iff label_width_def)
  have "width l \<le> fold max (map ?w (t # ts)) (width l)" by (rule fold_max_ge)
  then have "inside (sc_dis s) x y" if "in_box (left l) (topp l) (width l) (height l) x y" for x y
    using that by (intro Cons.prems(4)) (auto simp: in_box_def)
  from scr_clear_box [OF Cons.prems(3), of "left l" "topp l" "width l" "height l", OF this] obtain e where
    e: "label_clear l s = Some (s\<lparr>sc_dis := e\<rparr>)" "same_shape (sc_dis s) e"
      "\<And>x y. inside (sc_dis s) x y \<Longrightarrow> pix e (x, y) =
        (if in_box (left l) (topp l) (width l) (height l) x y then 0 else pix (sc_dis s) (x, y))"
    by (auto simp: label_clear_def)
  have step: "label_set_txt t (l, s) = Some (?l, s\<lparr>sc_dis := e\<rparr>)"
    using label_set_txt_eq [OF Cons.prems(1) e(1)] Cons.prems(2) by simp
  have ins: "inside e = inside (sc_dis s)"
    using dis.same_inner [OF e(2)] by (auto simp: fun_eq_iff inner_pix_def)
  obtain g where g: "foldO label_set_txt ts (?l, s\<lparr>sc_dis := e\<rparr>) =
      Some (if ts = [] then ?l else ?l\<lparr>l_text := Some (last ts), width := fold max (map ?w ts) (max (width l) (?w t)),
              now_width := ?w (last ts), update := True\<rparr>, s\<lparr>sc_dis := g\<rparr>)" "same_shape e g"
    "\<And>x y. inside e x y \<Longrightarrow> pix g (x, y) =
       (if ts \<noteq> [] \<and> in_box (left l) (topp l) (fold max (map ?w (butlast ts)) (max (width l) (?w t))) (height l) x y
        then 0 else pix e (x, y))"
    using Cons.IH [of ?l "s\<lparr>sc_dis := e\<rparr>"] Cons.prems wl dis.same_ok [OF e(2)] ins
    by (fastforce simp: max.commute)
  have grow: "fold max (map ?w (butlast (t # ts))) (width l) =
      (if ts = [] then width l else fold max (map ?w (butlast ts)) (max (width l) (?w t)))"
    by (simp add: max.commute)
  have "width l \<le> fold max (map ?w (butlast ts)) (max (width l) (?w t))"
    using fold_max_ge [of "max (width l) (?w t)"] by (meson max.bounded_iff)
  then have "pix g (x, y) = (if in_box (left l) (topp l) (fold max (map ?w (butlast (t # ts))) (width l)) (height l) x y
        then 0 else pix (sc_dis s) (x, y))" if "inside (sc_dis s) x y" for x y
    unfolding grow using g(3) [of x y] e(3) [of x y] that ins by (auto simp: in_box_def)
  then show ?case using step g(1) dis.same_trans [OF e(2) g(2)]
    by (auto simp: max.commute intro!: exI [of _ g])
qed

section \<open>Text stays between its first and its last column\<close>

text \<open>\<open>e\<close> is \<open>d\<close> up to the pixels in the columns from \<open>a\<close> to \<open>b\<close>, \<open>b\<close> excluded.\<close>

definition same_beside :: "int \<Rightarrow> int \<Rightarrow> disbuf \<Rightarrow> disbuf \<Rightarrow> bool" where
  "same_beside a b d e \<longleftrightarrow> same_shape d e \<and>
     (\<forall>x y. inside d x y \<longrightarrow> x < a \<or> b \<le> x \<longrightarrow> pix e (x, y) = pix d (x, y))"

lemma same_beside_refl: "same_beside a b d d"
  by (simp add: same_beside_def dis.same_refl)

lemma same_beside_trans:
  "same_beside a b d e \<Longrightarrow> same_beside a' b' e g \<Longrightarrow> a'' \<le> a \<Longrightarrow> a'' \<le> a' \<Longrightarrow> b \<le> b'' \<Longrightarrow> b' \<le> b'' \<Longrightarrow> same_beside a'' b'' d g"
  using dis.same_inner by (fastforce simp: same_beside_def fun_eq_iff inner_pix_def intro: dis.same_trans)

lemma plot_column:
  assumes "plot f (x, y) d = Some e" "wf_dis d" "0 \<le> x" "x < disbufw d" "0 \<le> y" "a \<le> x" "x < b"
  shows "same_beside a b d e"
proof -
  have e: "0 \<le> y * disbufw d + x" "e = d\<lparr>dis_buf := (dis_buf d)[nat (y * disbufw d + x) := f (dis_buf d ! nat (y * disbufw d + x))]\<rparr>"
    using assms(1) by (auto simp: plot_def put_cell_def aget_def aset_def split: if_splits)
  have "pix e (u, v) = pix d (u, v)" if "inside d u v" "u < a \<or> b \<le> u" for u v
  proof -
    have "v * disbufw d + u \<noteq> y * disbufw d + x"
      using cell_inj [of u "disbufw d" x v y] that assms by (auto simp: inside_def)
    moreover have "0 \<le> v * disbufw d + u" using that(1) by (simp add: inside_def)
    ultimately have "nat (v * disbufw d + u) \<noteq> nat (y * disbufw d + x)" using e(1) by (simp add: eq_nat_nat_iff)
    then show ?thesis using e(2) by (simp add: pix_def)
  qed
  then show ?thesis using e(2) by (auto simp: same_beside_def same_shape_def)
qed

lemma for_loop_beside:
  assumes "for_loop lo hi f d = Some e" "wf_dis d"
    and "\<And>i d e. lo \<le> i \<Longrightarrow> i < hi \<Longrightarrow> wf_dis d \<Longrightarrow> f i d = Some e \<Longrightarrow> same_beside a b d e"
  shows "same_beside a b d e"
  using for_loop_invariant [where P = "same_beside a b d", OF assms(1) same_beside_refl] assms(2,3)
    dis.same_ok same_beside_trans [of a b d _ a b _ a b] unfolding same_beside_def by blast

lemma drawchar_beside:
  assumes "drawchar lib off w h x y fg d = Some e" "wf_dis d" "0 \<le> x" "a \<le> x" "x + w \<le> b"
  shows "same_beside a b d e"
  using assms(1) unfolding drawchar_def
proof (rule for_loop_beside [OF _ assms(2)])
  fix hi d e
  assume hi: "wf_dis d" "(let yi = y + hi in
       if yi < 0 \<or> yi > disbufh d then Some d
       else for_loop 0 w (\<lambda>wi d.
         case aget lib (off + hi * ((w + 7) sdiv 8) + wi div 8) of None \<Rightarrow> None
         | Some m \<Rightarrow>
             if drop_bit (nat (7 - wi mod 8)) m AND 1 \<noteq> 0 \<and> x + wi < disbufw d
             then plot (\<lambda>_. fg) (x + wi, yi) d else Some d) d) = Some e"
  show "same_beside a b d e"
  proof (cases "y + hi < 0 \<or> y + hi > disbufh d")
    case True
    then show ?thesis using hi(2) by (simp add: same_beside_refl)
  next
    case False
    then have "for_loop 0 w (\<lambda>wi d.
         case aget lib (off + hi * ((w + 7) sdiv 8) + wi div 8) of None \<Rightarrow> None
         | Some m \<Rightarrow>
             if drop_bit (nat (7 - wi mod 8)) m AND 1 \<noteq> 0 \<and> x + wi < disbufw d
             then plot (\<lambda>_. fg) (x + wi, y + hi) d else Some d) d = Some e" using hi(2) by (simp add: Let_def)
    then show ?thesis
      by (rule for_loop_beside [OF _ hi(1)])
        (use False assms(3-5) in \<open>auto intro: plot_column same_beside_refl split: option.splits if_splits\<close>)
  qed
qed

lemma put_ascii_beside:
  assumes "put_ascii c x y fg d = Some (e, n)" "wf_dis d" "0 \<le> x"
  shows "n = 7 \<and> same_beside x (x + 8) d e"
  using assms(1)
  by (auto simp: put_ascii_def ascii_char_8x16_def ascii_char_8x12_def ascii_char_8x10_def same_beside_refl
      split: if_splits option.splits intro: drawchar_beside [OF _ assms(2,3)])

lemma put_chinese_beside:
  assumes "put_chinese c c2 x y fg d = Some (e, n)" "wf_dis d" "0 \<le> x"
  shows "12 \<le> n \<and> same_beside x (x + n) d e"
  using assms(1)
  by (auto simp: put_chinese_def chinese_char_16x16_def chinese_char_14x14_def chinese_char_12x12_def same_beside_refl
      split: if_splits option.splits intro: drawchar_beside [OF _ assms(2,3)])

lemma puts_from_beside:
  "puts_from pnt i x y fg spc d = Some (e, x') \<Longrightarrow> - 7 \<le> spc \<Longrightarrow> wf_dis d \<Longrightarrow> 0 \<le> x \<Longrightarrow>
    x \<le> x' \<and> same_beside x (x' + 1 - spc) d e"
proof (induction pnt i x y fg spc d rule: puts_from.induct)
  case (1 pnt i x y fg spc d)
  from "1.prems"(1) obtain c where c: "aget pnt i = Some c" by (subst (asm) puts_from.simps) (auto split: option.splits)
  consider "c = 0" | "c \<noteq> 0" "c \<ge> 0xa1" | "c \<noteq> 0" "\<not> c \<ge> 0xa1" by blast
  then show ?case
  proof cases
    case 1
    then show ?thesis using "1.prems" c by (subst (asm) puts_from.simps) (simp add: same_beside_refl)
  next
    case 2
    with "1.prems" c obtain c2 b a where b: "aget pnt (i + 1) = Some c2" "put_chinese c c2 x y fg d = Some (b, a)"
      "puts_from pnt (i + 2) (x + a + spc) y fg spc b = Some (e, x')"
      by (subst (asm) puts_from.simps) (auto split: option.splits)
    note here = put_chinese_beside [OF b(2) "1.prems"(3,4)]
    have "wf_dis b" using here "1.prems"(3) dis.same_ok by (auto simp: same_beside_def)
    moreover have "0 \<le> x + a + spc" using here "1.prems"(2,4) by linarith
    ultimately have "x + a + spc \<le> x' \<and> same_beside (x + a + spc) (x' + 1 - spc) b e"
      using "1.IH"(1) c 2 b "1.prems"(2) by blast
    then show ?thesis using here "1.prems"(2) same_beside_trans [of x "x + a" d b "x + a + spc" "x' + 1 - spc" e x "x' + 1 - spc"] by simp
  next
    case 3
    with "1.prems" c obtain b a where b: "put_ascii c x y fg d = Some (b, a)"
      "puts_from pnt (i + 1) (x + a + spc) y fg spc b = Some (e, x')"
      by (subst (asm) puts_from.simps) (auto split: option.splits)
    note here = put_ascii_beside [OF b(1) "1.prems"(3,4)]
    have "wf_dis b" using here "1.prems"(3) dis.same_ok by (auto simp: same_beside_def)
    moreover have "0 \<le> x + a + spc" using here "1.prems"(2,4) by linarith
    ultimately have "x + a + spc \<le> x' \<and> same_beside (x + a + spc) (x' + 1 - spc) b e"
      using "1.IH"(2) c 3 b "1.prems"(2) by blast
    then show ?thesis using here "1.prems"(2) same_beside_trans [of x "x + 8" d b "x + a + spc" "x' + 1 - spc" e x "x' + 1 - spc"] by simp
  qed
qed

lemma measure_text_width:
  "gb_chars t \<Longrightarrow> cn \<in> {12, 14, 16} \<Longrightarrow> measure_text cn spc t = text_width cn spc t"
  by (induction t rule: gb_chars.induct) auto

lemma puts_beside:
  assumes "puts (c_string rest t) x y fg spc d = Some e" "gb_chars t" "wf_dis d" "fonts_ok d" "0 \<le> x" "- 7 \<le> spc"
    "chinese_font d \<in> {12, 14, 16}"
  shows "same_beside x (x + measure_text (chinese_font d) spc t + 1 - spc) d e"
proof -
  have "puts_from (t @ 0 # [rest]) 0 x y fg spc d = Some (e, x + text_width (chinese_font d) spc t)"
    using puts_from_chars [OF assms(6,2-5), where pre = "[]" and tail = "[rest]" and y = y and fg = fg] assms(1)
    by (auto simp: puts_def c_string_def)
  from puts_from_beside [OF this assms(6,3,5)] show ?thesis
    using measure_text_width [OF assms(2,7)] by simp
qed

text \<open>
  However often the text of a label is set between two refreshes, the label erases all
  of it: after the last change the display buffer is clear from the left edge of the label to the
  widest of the texts that can be on the screen (the one drawn last and those set since, up to the
  new one), nothing else of the buffer has changed, and the width that is copied to the frame
  buffer covers all of them and the new text.
\<close>

lemma label_text_replaced:
  assumes "auto_size l" "height l = cn_size (font l)" "wf_dis (sc_dis s)" "ts \<noteq> []"
    and "\<And>x y. in_box (left l) (topp l) (fold max (map (label_width l) ts) (width l)) (height l) x y \<Longrightarrow> inside (sc_dis s) x y"
  shows "\<exists>e l'. foldO label_set_txt ts (l, s) = Some (l', s\<lparr>sc_dis := e\<rparr>) \<and>
    l' = l\<lparr>l_text := Some (last ts), width := width l', now_width := label_width l (last ts), update := True\<rparr> \<and>
    width l \<le> width l' \<and> (\<forall>t \<in> set ts. label_width l t \<le> width l') \<and>
    (\<forall>x y. inside (sc_dis s) x y \<longrightarrow> pix e (x, y) =
       (if in_box (left l) (topp l) (fold max (map (label_width l) (butlast ts)) (width l)) (height l) x y
        then 0 else pix (sc_dis s) (x, y)))"
proof -
  obtain e where e: "foldO label_set_txt ts (l, s) =
      Some (l\<lparr>l_text := Some (last ts), width := fold max (map (label_width l) ts) (width l),
              now_width := label_width l (last ts), update := True\<rparr>, s\<lparr>sc_dis := e\<rparr>)"
    "\<And>x y. inside (sc_dis s) x y \<Longrightarrow> pix e (x, y) =
       (if in_box (left l) (topp l) (fold max (map (label_width l) (butlast ts)) (width l)) (height l) x y
        then 0 else pix (sc_dis s) (x, y))"
    using texts_erased [OF assms(1-3), of ts] assms(4,5) by auto
  have "\<forall>t \<in> set ts. label_width l t \<le> fold max (map (label_width l) ts) (width l)"
    using fold_max_mem [of "label_width l _" "map (label_width l) ts" "width l"] by auto
  then show ?thesis using e fold_max_ge [of "width l" "map (label_width l) ts"] by auto
qed

definition demo_screen :: screen where
  "demo_screen = \<lparr>sc_dis = new_disbuf (replicate (32 * 4 + 32 * 16) 7) 12 8 32 4,
     sc_vga = \<lparr>map_len = 128, fb_mem = replicate 128 0, fb_mem_sz = 128, line_len_b = 32, line_len_p = 32,
               vga_bits = 8, vga_bytes = 1\<rparr>, sc_signed = False\<rparr>"

definition demo_label :: label where
  "demo_label = (new_label (\<lambda>_. 1) [0x55])\<lparr>topp := 1, height := 2, font := (default_font 1)\<lparr>cn_size := 2\<rparr>\<rparr>"

lemma demo_inside: "inside (sc_dis demo_screen) x y \<longleftrightarrow> 0 \<le> x \<and> x < 32 \<and> 0 \<le> y \<and> y < 4"
  by (simp add: demo_screen_def new_disbuf_def inside_def)

lemma label_text_replaced_example:
  "\<exists>e l'. foldO label_set_txt [[0x31, 0x32, 0x33], [0x34]] (demo_label, demo_screen) = Some (l', demo_screen\<lparr>sc_dis := e\<rparr>) \<and>
     pix e (27, 1) = 0 \<and> pix e (28, 1) = 7 \<and> now_width l' = 14"
proof -
  have w: "label_width demo_label = (\<lambda>t. measure_text 2 0 (0x55 # t))" "width demo_label = 7" "left demo_label = 0"
    "topp demo_label = 1" "height demo_label = 2" "auto_size demo_label" "cn_size (font demo_label) = 2"
    by (simp_all add: demo_label_def new_label_def calc_vwsz_def label_string_def default_font_def label_width_def fun_eq_iff Let_def)
  have d: "wf_dis (sc_dis demo_screen)" by (simp add: demo_screen_def new_disbuf_def wf_dis_def)
  have p: "pix (sc_dis demo_screen) (28, 1) = 7" by (simp add: demo_screen_def new_disbuf_def pix_def)
  from label_text_replaced [of demo_label demo_screen "[[0x31, 0x32, 0x33], [0x34]]"] w d
  obtain e l' where e: "foldO label_set_txt [[0x31, 0x32, 0x33], [0x34]] (demo_label, demo_screen) = Some (l', demo_screen\<lparr>sc_dis := e\<rparr>)"
    "l' = demo_label\<lparr>l_text := Some [0x34], width := width l', now_width := 14, update := True\<rparr>"
    "\<And>x y. inside (sc_dis demo_screen) x y \<Longrightarrow> pix e (x, y) = (if in_box 0 1 28 2 x y then 0 else pix (sc_dis demo_screen) (x, y))"
    by (auto simp: demo_inside in_box_def)
  have "now_width l' = 14" using arg_cong [OF e(2), of now_width] by simp
  then show ?thesis using e(1) e(3) [of 27 1] e(3) [of 28 1] p by (auto simp: demo_inside in_box_def)
qed

section \<open>A set of labels forgets the widest text\<close>

text \<open>
  A label of a set keeps the width of its present text and, apart from it, the width to refresh.
\<close>

lemma labelset_set_txt_eq:
  assumes "0 \<le> i" "i < int (length (labels ls))" "s_auto_size (labels ls ! nat i)" "\<not> allrefresh ls"
  shows "labelset_set_txt i t ls =
    Some (ls\<lparr>labels := (labels ls)[nat i := (calc_one (used_font ls (labels ls ! nat i)) ((labels ls ! nat i)\<lparr>s_text := Some t\<rparr>))\<lparr>s_update := True\<rparr>]\<rparr>)"
  using assms by (simp add: labelset_set_txt_def aget_Some aset_Some used_font_def Let_def)

lemma two_texts:
  assumes "0 \<le> i" "i < int (length (labels ls))" "\<not> allrefresh ls"
    and "labels ls ! nat i = a" "s_auto_size a" "f = used_font ls a"
    and "measure_text (cn_size f) (space f) t1 < measure_text (cn_size f) (space f) t2"
    and "measure_text (cn_size f) (space f) t2 \<le> width a"
  shows "labelset_set_txt i t1 ls \<bind> labelset_set_txt i t2 =
    Some (ls\<lparr>labels := (labels ls)[nat i := a\<lparr>s_text := Some t2, rfrs_width := measure_text (cn_size f) (space f) t2,
       width := measure_text (cn_size f) (space f) t2, height := cn_size f, s_update := True\<rparr>]\<rparr>)"
proof -
  let ?n = "measure_text (cn_size f) (space f)"
  let ?a = "a\<lparr>s_text := Some t1, width := ?n t1, height := cn_size f, s_update := True\<rparr>"
  let ?ls = "ls\<lparr>labels := (labels ls)[nat i := ?a]\<rparr>"
  have "labelset_set_txt i t1 ls = Some ?ls"
    using labelset_set_txt_eq [of i ls t1] assms by (simp add: calc_one_def Let_def)
  moreover have i: "nat i < length (labels ls)" using assms(1,2) by simp
  then have "labels ?ls ! nat i = ?a" by simp
  moreover have "used_font ?ls ?a = f" using assms(6) by (simp add: used_font_def)
  ultimately show ?thesis
    using labelset_set_txt_eq [of i ?ls t2] assms i by (simp add: calc_one_def Let_def)
qed

lemma refresh_one_beside:
  assumes "refresh_one rest i (ls, s) = Some (ls', s')" "0 \<le> i" "i < int (length (labels ls))"
    and "labels ls ! nat i = a" "s_text a = Some t" "s_update a" "f = used_font ls a" "rfrs_width a = width a"
    and "width a = measure_text (cn_size f) (space f) t" "cn_size f \<in> {12, 14, 16}" "- 7 \<le> space f"
    and "gb_chars t" "wf_dis (sc_dis s)" "fonts_ok (sc_dis s)" "0 \<le> left ls + left a"
    and "\<And>x y. in_box (left ls + left a) (topp ls + topp a) (width a) (height a) x y \<Longrightarrow> inside (sc_dis s) x y"
    and "inside (sc_dis s) x y" "left ls + left a + width a + max 0 (1 - space f) \<le> x"
  shows "pix (sc_dis s') (x, y) = pix (sc_dis s) (x, y)"
proof -
  let ?l = "left ls + left a" and ?t = "topp ls + topp a"
  obtain e where e: "scr_clear ?l ?t (?l + width a) (?t + height a) s = Some (s\<lparr>sc_dis := e\<rparr>)" "same_shape (sc_dis s) e"
      "\<And>x y. inside (sc_dis s) x y \<Longrightarrow> pix e (x, y) = (if in_box ?l ?t (width a) (height a) x y then 0 else pix (sc_dis s) (x, y))"
    using scr_clear_box [OF assms(13,16)] by blast
  let ?d = "set_font (cn_size f) (asc_size f) e"
  from assms(1-9) e(1) obtain g where g: "puts (c_string rest t) ?l (?t + cn_size f) (f_color f) (space f) ?d = Some g" "sc_dis s' = g"
    by (auto simp: refresh_one_def drawone_def aget_Some Let_def on_dis_def scr_refresh_def split: Option.bind_splits)
  have "wf_dis ?d" "fonts_ok ?d" "chinese_font ?d = cn_size f" "inside ?d x y"
    using assms(13,14,17) e(2) by (auto simp: same_shape_def set_font_def wf_dis_def fonts_ok_def inside_def)
  then have "same_beside ?l (?l + width a + 1 - space f) ?d g"
    using puts_beside [OF g(1) assms(12) _ _ assms(15,11)] assms(9,10) by simp
  then have "pix g (x, y) = pix ?d (x, y)"
    using \<open>inside ?d x y\<close> assms(18) by (auto simp: same_beside_def)
  also have "pix ?d (x, y) = pix e (x, y)" by (simp add: pix_def set_font_def)
  also have "\<dots> = pix (sc_dis s) (x, y)" using e(3) [OF assms(17)] assms(18) by (auto simp: in_box_def)
  finally show ?thesis using g(2) by simp
qed

text \<open>
  A set of labels does not: when the text of a label is set to a short one and then to one that is
  longer but still shorter than what is on the screen, the width to refresh becomes that of the last
  text.  The next refresh leaves what the old text drew to the right of it in the display buffer.
\<close>

lemma labelset_leaves_old_text:
  assumes "0 \<le> i" "i < int (length (labels ls))" "\<not> allrefresh ls"
    and "labels ls ! nat i = a" "s_auto_size a" "f = used_font ls a"
    and "measure_text (cn_size f) (space f) t1 < measure_text (cn_size f) (space f) t2"
    and "measure_text (cn_size f) (space f) t2 \<le> width a"
    and "cn_size f \<in> {12, 14, 16}" "- 7 \<le> space f" "gb_chars t2"
    and "wf_dis (sc_dis s)" "fonts_ok (sc_dis s)" "0 \<le> left ls + left a"
    and "\<And>x y. in_box (left ls + left a) (topp ls + topp a) (measure_text (cn_size f) (space f) t2) (cn_size f) x y \<Longrightarrow> inside (sc_dis s) x y"
    and "labelset_set_txt i t1 ls \<bind> labelset_set_txt i t2 = Some ls'" "refresh_one rest i (ls', s) = Some (ls'', s')"
    and "inside (sc_dis s) x y"
    and "left ls + left a + measure_text (cn_size f) (space f) t2 + max 0 (1 - space f) \<le> x" "x < left ls + left a + width a"
  shows "rfrs_width (labels ls' ! nat i) < width a \<and> pix (sc_dis s') (x, y) = pix (sc_dis s) (x, y)"
proof -
  let ?n = "measure_text (cn_size f) (space f) t2"
  let ?a = "a\<lparr>s_text := Some t2, rfrs_width := ?n, width := ?n, height := cn_size f, s_update := True\<rparr>"
  have ls': "ls' = ls\<lparr>labels := (labels ls)[nat i := ?a]\<rparr>"
    using two_texts [OF assms(1-8)] assms(16) by simp
  have i: "nat i < length (labels ls)" using assms(1,2) by simp
  have a: "labels ls' ! nat i = ?a" "int (length (labels ls')) = int (length (labels ls))" "used_font ls' ?a = f"
    "left ls' = left ls" "topp ls' = topp ls"
    using i assms(6) by (simp_all add: ls' used_font_def)
  have "pix (sc_dis s') (x, y) = pix (sc_dis s) (x, y)"
    using refresh_one_beside [OF assms(17,1) _ a(1), of t2 f x y] a(2-5) assms(2,9-15,18,19) by simp
  then show ?thesis using a(1) assms(19,20) by simp
qed

definition demo_labelset :: labelset where
  "demo_labelset = (new_labelset (\<lambda>_. 1) 0 0 1)\<lparr>ls_font := (default_font 1)\<lparr>space := - 6\<rparr>,
     labels := [(new_slabel (\<lambda>_. 1) 0 0)\<lparr>topp := 0, width := 10, rfrs_width := 10\<rparr>]\<rparr>"

definition demo_wide :: screen where
  "demo_wide = \<lparr>sc_dis = new_disbuf (replicate (12 * 28) 7) 12 8 12 12,
     sc_vga = \<lparr>map_len = 144, fb_mem = replicate 144 0, fb_mem_sz = 144, line_len_b = 12, line_len_p = 12,
               vga_bits = 8, vga_bytes = 1\<rparr>, sc_signed = False\<rparr>"

lemma demo_labelset_runs:
  "(case labelset_set_txt 0 [] demo_labelset \<bind> labelset_set_txt 0 [0x61] of None \<Rightarrow> False
    | Some ls \<Rightarrow> refresh_one 0 0 (ls, demo_wide) \<noteq> None)"
  by code_simp

lemma labelset_leaves_old_text_example:
  "\<exists>ls ls' s. labelset_set_txt 0 [] demo_labelset \<bind> labelset_set_txt 0 [0x61] = Some ls \<and>
     refresh_one 0 0 (ls, demo_wide) = Some (ls', s) \<and> pix (sc_dis s) (9, 3) = 7"
proof -
  obtain ls ls' s where r: "labelset_set_txt 0 [] demo_labelset \<bind> labelset_set_txt 0 [0x61] = Some ls"
      "refresh_one 0 0 (ls, demo_wide) = Some (ls', s)"
    using demo_labelset_runs by (auto split: option.splits)
  have d: "wf_dis (sc_dis demo_wide)" "fonts_ok (sc_dis demo_wide)" "pix (sc_dis demo_wide) (9, 3) = 7"
    "inside (sc_dis demo_wide) x y \<longleftrightarrow> 0 \<le> x \<and> x < 12 \<and> 0 \<le> y \<and> y < 12" for x y
    by (simp_all add: demo_wide_def new_disbuf_def wf_dis_def fonts_ok_def lib_ok_def pix_def inside_def)
  define a where "a = labels demo_labelset ! 0"
  have l: "int (length (labels demo_labelset)) = 1" "\<not> allrefresh demo_labelset" "s_auto_size a" "width a = 10"
    "left a = 0" "topp a = 0" "left demo_labelset = 0" "topp demo_labelset = 0"
    "used_font demo_labelset a = (default_font 1)\<lparr>space := - 6\<rparr>"
    by (simp_all add: a_def demo_labelset_def new_labelset_def new_slabel_def calc_one_def used_font_def Let_def)
  have "pix (sc_dis s) (9, 3) = pix (sc_dis demo_wide) (9, 3)"
    using labelset_leaves_old_text [of 0 demo_labelset a "used_font demo_labelset a" "[]" "[0x61]" demo_wide ls 0 ls' s 9 3]
      r l d by (simp add: a_def [symmetric] default_font_def in_box_def)
  then show ?thesis using r d by auto
qed

end
