(* ===== verification/Widgets.thy ===== *)
theory Widgets
  imports Label
begin

text \<open>
  The other components of the screen (\<open>gui/src/GUI/component/\<close>): tabs (\<open>tabcontrol.cpp\<close>), figures
  that move over a background (\<open>cartoon.cpp\<close>, with the position cursor of the harmonic form), and
  the battery (\<open>battery.cpp\<close>).
\<close>

section \<open>Tabs\<close>

datatype tab_place = tpTOP | tpBOTTOM | tpLEFT | tpRIGHT

text \<open>The arrays have \<open>tab_max\<close> cells each; a title that was never set is the null pointer.\<close>

record tabcontrol = widget +
  tc_font :: sfont
  tc_color :: u32
  tc_border :: sedges
  tab_position :: tab_place
  tab_height :: int
  tab_index :: int
  tabs_fcolor :: "u32 list"
  tab_vofst :: int
  tab_enable :: bool
  tc_update :: bool
  tabs_tol_width :: int
  tab_idx_dis :: int
  tab_start :: int
  tabs_width :: "int list"
  tabs_title :: "u8 list option list"
  tabs_indent :: "int list"
  tab_num :: int
  tab_max :: int

definition new_tabcontrol :: "palette \<Rightarrow> nat \<Rightarrow> tabcontrol" where
  "new_tabcontrol col num =
     \<lparr>left = 0, topp = 15, width = 128, height = 64, tc_font = default_font (col kVGA_White), tc_color = col kVGA_Blue1,
      tc_border = no_edges (col kVGA_Default), tab_position = tpTOP, tab_height = 15, tab_index = 0,
      tabs_fcolor = replicate num (col kVGA_Default), tab_vofst = (15 - 12 + 1) sdiv 2, tab_enable = True, tc_update = True,
      tabs_tol_width = 28 * int num, tab_idx_dis = 0, tab_start = 0, tabs_width = replicate num 28,
      tabs_title = replicate num None, tabs_indent = replicate num 2, tab_num = int num, tab_max = int num\<rparr>"

definition enable_tab :: "bool \<Rightarrow> tabcontrol \<Rightarrow> tabcontrol" where
  "enable_tab ty t = t\<lparr>tab_enable := ty, tc_update := True\<rparr>"

definition set_tab_index :: "int \<Rightarrow> tabcontrol \<Rightarrow> tabcontrol \<times> bool" where
  "set_tab_index num t = (if num < tab_num t then (t\<lparr>tab_index := num, tc_update := True\<rparr>, True) else (t, False))"

definition set_tab_start :: "int \<Rightarrow> tabcontrol \<Rightarrow> tabcontrol" where
  "set_tab_start place t = t\<lparr>tab_idx_dis := place, tab_start := place\<rparr>"

definition set_tab_num :: "int \<Rightarrow> tabcontrol \<Rightarrow> tabcontrol" where
  "set_tab_num num t = (if num \<le> tab_max t then t\<lparr>tab_num := num\<rparr> else t)"

definition set_tabs_title :: "int \<Rightarrow> u8 list \<Rightarrow> tabcontrol \<Rightarrow> (tabcontrol \<times> bool) option" where
  "set_tabs_title num str t =
     (if num < tab_num t then do {
        ti \<leftarrow> aset (tabs_title t) num (Some str);
        ws \<leftarrow> aset (tabs_width t) num (measure_text (cn_size (tc_font t)) (space (tc_font t)) str + space (tc_font t) + 4);
        Some (t\<lparr>tabs_title := ti, tabs_width := ws, tc_update := True\<rparr>, True) }
      else Some (t, False))"

text \<open>The sum of the first \<open>n\<close> widths.\<close>

definition width_sum :: "int list \<Rightarrow> int \<Rightarrow> int option" where
  "width_sum ws n = for_loop 0 n (\<lambda>i acc. map_option (\<lambda>w. acc + w) (aget ws i)) 0"

text \<open>
  The rectangle of the titles: \<open>draw\<close> and \<open>refresh\<close> compute it apart, and differ by \<open>ofs\<close> below the
  page (-1 in \<open>draw\<close>, 0 in \<open>refresh\<close>).
\<close>

definition tab_rect :: "int \<Rightarrow> tabcontrol \<Rightarrow> int \<times> int \<times> int \<times> int" where
  "tab_rect ofs t =
     (case tab_position t of
        tpTOP \<Rightarrow> (left t + tab_start t, topp t - tab_height t, left t + tab_start t + tabs_tol_width t, topp t)
      | tpBOTTOM \<Rightarrow> (left t + tab_start t, topp t + height t + ofs, left t + tab_start t + tabs_tol_width t,
                    topp t + height t + ofs + tab_height t)
      | tpLEFT \<Rightarrow> (left t - tab_height t, topp t + tab_start t, left t, topp t + tab_start t + tabs_tol_width t)
      | tpRIGHT \<Rightarrow> (left t + width t, topp t + tab_start t, left t + width t + tab_height t,
                   topp t + tab_start t + tabs_tol_width t))"

definition put_title :: "u8 \<Rightarrow> tabcontrol \<Rightarrow> int \<Rightarrow> int \<Rightarrow> int \<Rightarrow> u32 \<Rightarrow> bool \<Rightarrow> disbuf \<Rightarrow> disbuf option" where
  "put_title rest t i x y c vh d =
     (case aget (tabs_title t) i of None \<Rightarrow> None | Some None \<Rightarrow> None
      | Some (Some str) \<Rightarrow>
          if vh then puts (c_string rest str) x y c (space (tc_font t)) d
          else vputs (c_string rest str) x y c (space (tc_font t)) d)"

text \<open>One title and the line behind it; the state has the place where it starts.\<close>

definition draw_title :: "int \<Rightarrow> u8 \<Rightarrow> tabcontrol \<Rightarrow> int \<times> int \<times> int \<times> int \<Rightarrow> bool \<Rightarrow> int \<Rightarrow> int \<times> disbuf \<Rightarrow> (int \<times> disbuf) option" where
  "draw_title junk rest t r vh i = (\<lambda>(p, d). case r of (x1, y1, x2, y2) \<Rightarrow> do {
     ind \<leftarrow> aget (tabs_indent t) i;
     c \<leftarrow> aget (tabs_fcolor t) i;
     w \<leftarrow> aget (tabs_width t) i;
     d \<leftarrow> (if vh then put_title rest t i (p + ind) (y2 - tab_vofst t) c vh d
           else put_title rest t i (x1 + tab_vofst t) (p + ind) c vh d);
     d \<leftarrow> (if vh then line junk (p + w) y1 (p + w) y2 (e_color (tc_border t)) 0 d
           else line junk x1 (p + w) x2 (p + w) (e_color (tc_border t)) 0 d);
     Some (p + w, d) })"

definition draw_selected :: "u8 \<Rightarrow> tabcontrol \<Rightarrow> int \<times> int \<times> int \<times> int \<Rightarrow> bool \<Rightarrow> disbuf \<Rightarrow> disbuf option" where
  "draw_selected rest t r vh d = (case r of (x1, y1, x2, y2) \<Rightarrow>
     if \<not> tab_enable t then Some d
     else do {
       w \<leftarrow> aget (tabs_width t) (tab_index t);
       ind \<leftarrow> aget (tabs_indent t) (tab_index t);
       if vh then
         let i = x1 + tab_idx_dis t in do {
           d \<leftarrow> rectangle (i + 1) (y1 + 1) (i + w) y2 (tc_color t) d;
           put_title rest t (tab_index t) (i + ind) (y2 - tab_vofst t) (f_color (tc_font t)) vh d }
       else
         let i = y1 + tab_idx_dis t in do {
           d \<leftarrow> rectangle (x1 + 1) (i + 1) x2 (i + w) (tc_color t) d;
           put_title rest t (tab_index t) (x1 + tab_vofst t) (i + ind) (f_color (tc_font t)) vh d } })"

definition is_vh :: "tab_place \<Rightarrow> bool" where
  "is_vh p \<longleftrightarrow> p = tpTOP \<or> p = tpBOTTOM"

definition tab_draw :: "palette \<Rightarrow> int \<Rightarrow> u8 \<Rightarrow> tabcontrol \<times> screen \<Rightarrow> (tabcontrol \<times> screen) option" where
  "tab_draw col junk rest = (\<lambda>(t, s).
     if tab_num t = 0 then Some (t, s)
     else do {
       s \<leftarrow> on_dis (draw_border junk (tc_border t) (left t) (topp t) (width t) (height t)) s;
       w0 \<leftarrow> aget (tabs_width t) 0;
       tol \<leftarrow> for_loop 1 (tab_num t) (\<lambda>i acc. map_option (\<lambda>w. acc + w) (aget (tabs_width t) i)) w0;
       dis \<leftarrow> width_sum (tabs_width t) (tab_index t);
       let t = t\<lparr>tc_update := False, tabs_tol_width := tol, tab_idx_dis := dis\<rparr>;
           r = tab_rect (- 1) t; vh = is_vh (tab_position t) in
       case r of (x1, y1, x2, y2) \<Rightarrow> do {
         s \<leftarrow> on_dis (rectangle x1 y1 (x2 + 1) (y2 + 1) (col kVGA_Black)) s;
         s \<leftarrow> on_dis (rectframe junk x1 y1 (x2 + 1) (y2 + 1) (e_color (tc_border t))) s;
         s \<leftarrow> on_dis (\<lambda>d. Some (set_font (cn_size (tc_font t)) (asc_size (tc_font t)) d)) s;
         s \<leftarrow> on_dis (\<lambda>d. map_option snd (for_loop 0 (tab_num t) (draw_title junk rest t r vh) (if vh then x1 else y1, d))) s;
         s \<leftarrow> on_dis (draw_selected rest t r vh) s;
         Some (t, s) } })"

definition tab_refresh :: "palette \<Rightarrow> int \<Rightarrow> u8 \<Rightarrow> tabcontrol \<times> screen \<Rightarrow> (tabcontrol \<times> screen) option" where
  "tab_refresh col junk rest = (\<lambda>(t, s).
     if \<not> tc_update t \<or> tab_num t = 0 then Some (t, s)
     else (case tab_rect 0 t of (x1, y1, x2, y2) \<Rightarrow> do {
       s \<leftarrow> scr_clear x1 y1 x2 y2 s;
       (t, s) \<leftarrow> tab_draw col junk rest (t, s);
       s \<leftarrow> scr_refresh x1 y1 x2 y2 s;
       Some (t, s) }))"

section \<open>Figures over a background\<close>

text \<open>
  \<open>paint\<close> is virtual: an argument that gets the place and the size.  \<open>dis_data_bak\<close> has room for the
  cells of the figure.
\<close>

record cartoon = widget +
  ca_color :: u32
  ca_visible :: bool
  dis_data_bak :: "u32 list"
  ca_update :: bool

type_synonym painter = "cartoon \<Rightarrow> disbuf \<Rightarrow> disbuf option"

definition backup :: "cartoon \<Rightarrow> disbuf \<Rightarrow> u32 list option" where
  "backup c d = read_rect (left c) (topp c) (left c + width c) (topp c + height c) d"

definition put_back :: "cartoon \<Rightarrow> screen \<Rightarrow> screen option" where
  "put_back c = on_dis (write_rect (left c) (topp c) (left c + width c) (topp c + height c) (dis_data_bak c))"

definition new_cartoon :: "palette \<Rightarrow> int \<Rightarrow> int \<Rightarrow> screen \<Rightarrow> cartoon option" where
  "new_cartoon col w h s =
     (let c = \<lparr>left = 0, topp = 0, width = w, height = h, ca_color = col kVGA_Default, ca_visible = True,
               dis_data_bak = [], ca_update = True\<rparr>
      in map_option (\<lambda>b. c\<lparr>dis_data_bak := b\<rparr>) (backup c (sc_dis s)))"

text \<open>The figure of the class itself, and that of \<open>CPosCursor\<close> (\<open>form/480/harmform.cpp\<close>).\<close>

definition base_paint :: "palette \<Rightarrow> int \<Rightarrow> painter" where
  "base_paint col junk c = line junk (left c) (topp c) (left c + width c) (topp c + height c) (col kVGA_Default) 3"

definition cursor_paint :: "int \<Rightarrow> painter" where
  "cursor_paint junk c d =
     do { d \<leftarrow> draw_icon (left c) (topp c - 1) 2 (ca_color c) 1 d;
          line junk (left c + 5) (topp c + 11) (left c + 5) (topp c + height c) (ca_color c) 3 d }"

definition cartoon_draw :: "painter \<Rightarrow> cartoon \<times> screen \<Rightarrow> (cartoon \<times> screen) option" where
  "cartoon_draw paint = (\<lambda>(c, s). do {
     c \<leftarrow> (if ca_update c then map_option (\<lambda>b. c\<lparr>dis_data_bak := b\<rparr>) (backup c (sc_dis s)) else Some c);
     let c = c\<lparr>ca_update := False\<rparr> in
     if \<not> ca_visible c then Some (c, s)
     else map_option (\<lambda>s. (c, s)) (on_dis (paint c) s) })"

definition cartoon_move :: "int \<Rightarrow> int \<Rightarrow> cartoon \<times> screen \<Rightarrow> (cartoon \<times> screen) option" where
  "cartoon_move x y = (\<lambda>(c, s). do {
     s \<leftarrow> put_back c s;
     if x \<noteq> left c \<or> y \<noteq> topp c then do {
       s \<leftarrow> scr_refresh (left c) (topp c) (left c + width c) (topp c + height c) s;
       Some (c\<lparr>left := x, topp := y, ca_update := True\<rparr>, s) }
     else Some (c\<lparr>ca_update := True\<rparr>, s) })"

definition cartoon_set_visible :: "bool \<Rightarrow> cartoon \<times> screen \<Rightarrow> (cartoon \<times> screen) option" where
  "cartoon_set_visible yn = (\<lambda>(c, s).
     map_option (\<lambda>s. (c\<lparr>ca_visible := yn, ca_update := True\<rparr>, s)) (if \<not> yn then put_back c s else Some s))"

definition cartoon_refresh :: "painter \<Rightarrow> cartoon \<times> screen \<Rightarrow> (cartoon \<times> screen) option" where
  "cartoon_refresh paint = (\<lambda>(c, s).
     if \<not> ca_update c then Some (c, s)
     else do {
       (c, s) \<leftarrow> cartoon_draw paint (c, s);
       s \<leftarrow> scr_refresh (left c) (topp c) (left c + width c) (topp c + height c) s;
       Some (c, s) })"

section \<open>The battery\<close>

text \<open>\<open>power_low\<close> and \<open>low_note_frq_\<close> are indeterminate after construction (\<open>pl\<close>, \<open>lf\<close>).\<close>

record battery = widget +
  b_color :: u32
  b_visible :: bool
  power_quantity :: int
  b_update :: bool
  direction :: int
  pole_w :: int
  pole_h :: int
  level :: int
  level_color :: u32
  power_low :: bool
  low_note_frq :: int
  charge_cnt :: int

definition BATTRY_CHARGING :: int where "BATTRY_CHARGING = 110"
definition BATTRY_TRICKLE_CHARGE :: int where "BATTRY_TRICKLE_CHARGE = 120"

definition new_battery :: "palette \<Rightarrow> bool \<Rightarrow> int \<Rightarrow> int \<Rightarrow> int \<Rightarrow> battery" where
  "new_battery col pl lf w lv =
     \<lparr>left = 0, topp = 0, width = w, height = lv + 2, b_color = col kVGA_Default, b_visible = True,
      power_quantity = 50, b_update = True, direction = 0, pole_w = w sdiv 2, pole_h = (lv + 2) sdiv 8, level = lv,
      level_color = col kVGA_Green, power_low = pl, low_note_frq = lf, charge_cnt = 0\<rparr>"

definition set_power :: "palette \<Rightarrow> int \<Rightarrow> battery \<Rightarrow> battery" where
  "set_power col qnty b =
     (let k = 5; i = 100 sdiv k;
          b = (if qnty = BATTRY_CHARGING then
                 b\<lparr>power_quantity := i * charge_cnt b, charge_cnt := (charge_cnt b + 1) smod (k + 1)\<rparr>
               else if qnty = BATTRY_TRICKLE_CHARGE then
                 (let n = (charge_cnt b + 1) smod (k + 1)
                  in b\<lparr>power_quantity := i * charge_cnt b, charge_cnt := (if n = 0 then k - 2 else n)\<rparr>)
               else b\<lparr>power_quantity := qnty, charge_cnt := 0\<rparr>)
      in b\<lparr>level_color := (if power_quantity b < 19 then col kVGA_Yellow else col kVGA_Green), b_update := True\<rparr>)"

definition note_power_low :: "battery \<Rightarrow> battery" where
  "note_power_low b = b\<lparr>power_low := True, b_update := True\<rparr>"

definition set_direct :: "int \<Rightarrow> battery \<Rightarrow> battery" where "set_direct dir b = b\<lparr>direction := dir\<rparr>"
definition set_position :: "int \<Rightarrow> int \<Rightarrow> battery \<Rightarrow> battery" where "set_position x y b = b\<lparr>left := x, topp := y\<rparr>"
definition battery_set_visible :: "bool \<Rightarrow> battery \<Rightarrow> battery" where "battery_set_visible yn b = b\<lparr>b_visible := yn\<rparr>"

text \<open>
  Body, pole and level as (x, y, width, height).  Of a direction the code does not know, the
  coordinates it leaves unset are not modelled: None.
\<close>

type_synonym box = "int \<times> int \<times> int \<times> int"

definition battery_boxes :: "battery \<Rightarrow> (box \<times> box \<times> box) option" where
  "battery_boxes b =
     (let q = power_quantity b; n = (level b * q + 50) sdiv 100 in
      if direction b = 0 then
        Some ((left b, topp b + pole_h b, width b, height b),
              (left b + (width b - pole_w b) sdiv 2, topp b, pole_w b, pole_h b),
              (left b + 1, topp b + pole_h b + 1 + level b - n, width b - 2, n))
      else if direction b = 1 then
        Some ((left b, topp b, width b, height b),
              (left b + (width b - pole_w b) sdiv 2, topp b + height b, pole_w b, pole_h b),
              (left b + 1, topp b + 1, width b - 2, n))
      else if direction b = 2 then
        Some ((left b + pole_h b, topp b, height b, width b),
              (left b, topp b + (width b - pole_w b) sdiv 2, pole_h b, pole_w b),
              (left b + pole_h b + 1 + level b - n, topp b + 1, n, width b - 2))
      else if direction b = 3 then
        Some ((left b, topp b, height b, width b),
              (left b + height b, topp b + (width b - pole_w b) sdiv 2, pole_h b, pole_w b),
              (left b + 1, topp b + 1, n, width b - 2))
      else None)"

definition paint_battery :: "palette \<Rightarrow> int \<Rightarrow> battery \<Rightarrow> disbuf \<Rightarrow> disbuf option" where
  "paint_battery col junk b d =
     (case battery_boxes b of None \<Rightarrow> None
      | Some ((lf, tp, wd, hg), (x1, y1, w1, h1), (x2, y2, w2, h2)) \<Rightarrow> do {
          d \<leftarrow> rectframe junk lf tp (lf + wd) (tp + hg) (b_color b) d;
          d \<leftarrow> rectangle x1 y1 (x1 + w1) (y1 + h1) (b_color b) d;
          d \<leftarrow> rectangle x2 y2 (x2 + w2) (y2 + h2) (level_color b) d;
          rectframe junk (lf + 1) (tp + 1) (lf + wd - 1) (tp + hg - 1) (col kVGA_Black) d })"

definition battery_draw :: "palette \<Rightarrow> int \<Rightarrow> battery \<times> screen \<Rightarrow> (battery \<times> screen) option" where
  "battery_draw col junk = (\<lambda>(b, s).
     let b = b\<lparr>b_update := False\<rparr>;
         blank = (power_low b \<and> (low_note_frq b + 1) smod 2 = 0) in
     if \<not> b_visible b then Some (b, s)
     else
       let b = (if power_low b then b\<lparr>low_note_frq := low_note_frq b + 1\<rparr> else b) in
       if blank then Some (b, s)
       else let b = b\<lparr>power_low := False\<rparr>
            in map_option (\<lambda>s. (b, s)) (on_dis (paint_battery col junk b) s))"

definition battery_refresh :: "palette \<Rightarrow> int \<Rightarrow> battery \<times> screen \<Rightarrow> (battery \<times> screen) option" where
  "battery_refresh col junk = (\<lambda>(b, s).
     if \<not> b_update b then Some (b, s)
     else
       let (wd, hg) = (if direction b < 2 then (width b, height b + pole_h b) else (height b + pole_h b, width b)) in do {
         s \<leftarrow> scr_clear (left b) (topp b) (left b + wd) (topp b + hg) s;
         (b, s) \<leftarrow> battery_draw col junk (b, s);
         s \<leftarrow> scr_refresh (left b) (topp b) (left b + wd) (topp b + hg) s;
         Some (b, s) })"

section \<open>What the battery shows\<close>

definition battery_ok :: "battery \<Rightarrow> bool" where
  "battery_ok b \<longleftrightarrow> 0 \<le> charge_cnt b \<and> charge_cnt b \<le> 5 \<and> 0 \<le> power_quantity b \<and> power_quantity b \<le> 100"

definition battery_input :: "int \<Rightarrow> bool" where
  "battery_input q \<longleftrightarrow> 0 \<le> q \<and> q \<le> 100 \<or> q = BATTRY_CHARGING \<or> q = BATTRY_TRICKLE_CHARGE"

lemma charge_step: "0 \<le> n \<Longrightarrow> n \<le> 5 \<Longrightarrow> (n + 1) smod 6 = (if n = 5 then 0 else (n :: int) + 1)"
  by (simp add: smod_nonneg)

lemma set_power_ok: "battery_ok b \<Longrightarrow> battery_input q \<Longrightarrow> battery_ok (set_power col q b)"
  by (auto simp: battery_ok_def battery_input_def set_power_def Let_def charge_step BATTRY_CHARGING_def
      BATTRY_TRICKLE_CHARGE_def signed_divide_int_def)

lemma set_power_sizes:
  "left (set_power col q b) = left b" "topp (set_power col q b) = topp b" "width (set_power col q b) = width b"
  "height (set_power col q b) = height b" "level (set_power col q b) = level b" "direction (set_power col q b) = direction b"
  "pole_w (set_power col q b) = pole_w b" "pole_h (set_power col q b) = pole_h b"
  by (simp_all add: set_power_def Let_def)

lemma powers_ok:
  "battery_ok b \<Longrightarrow> list_all battery_input qs \<Longrightarrow>
   battery_ok (fold (set_power col) qs b) \<and> height (fold (set_power col) qs b) = height b \<and>
   level (fold (set_power col) qs b) = level b \<and> width (fold (set_power col) qs b) = width b \<and>
   direction (fold (set_power col) qs b) = direction b"
  by (induction qs arbitrary: b) (auto simp: set_power_ok set_power_sizes)

definition nested :: "box \<Rightarrow> box \<Rightarrow> bool" where
  "nested a b \<longleftrightarrow> (case (a, b) of ((x, y, w, h), (u, v, m, n)) \<Rightarrow> 0 \<le> w \<and> 0 \<le> h \<and> u < x \<and> v < y \<and> x + w < u + m \<and> y + h < v + n)"

lemma level_cells: "0 \<le> q \<Longrightarrow> q \<le> 100 \<Longrightarrow> 0 \<le> l \<Longrightarrow> 0 \<le> (l * q + 50) sdiv 100 \<and> (l * q + 50) sdiv 100 \<le> (l :: int)"
proof -
  assume a: "0 \<le> q" "q \<le> 100" "0 \<le> l"
  have "l * q \<le> l * 100" using a by (intro mult_left_mono) auto
  moreover have "0 \<le> l * q" using a by simp
  moreover have "(l * 100 + 50) div 100 = l" using div_mult_self3 [of 100 l 50] by simp
  ultimately show ?thesis using zdiv_mono1 [of "l * q + 50" "l * 100 + 50" 100] by (simp add: sdiv_nonneg)
qed

text \<open>
  Whatever sequence of charge readings the battery is given (percentages, or the two codes for
  charging), in each of its four directions the bar it draws stays strictly inside the frame of
  the body, so that the last step, the black gap along the frame, is never outside the body; and
  while it charges, the bar runs through 0, 20, up to 100 per cent and starts again.
\<close>

lemma battery_level_inside:
  assumes "battery_ok b" "list_all battery_input qs" "2 < width b" "height b = level b + 2" "0 \<le> level b" "0 \<le> direction b" "direction b \<le> 3"
  shows "\<exists>body pole bar. battery_boxes (fold (set_power col) qs b) = Some (body, pole, bar) \<and> nested bar body \<and>
    (\<forall>n. power_quantity ((set_power col BATTRY_CHARGING ^^ Suc n) b) = 20 * ((charge_cnt b + int n) mod 6))"
proof -
  let ?b = "fold (set_power col) qs b"
  have "battery_ok ?b" "height ?b = level ?b + 2" "0 \<le> level ?b" "2 < width ?b" "direction ?b \<in> {0, 1, 2, 3}"
    using powers_ok [OF assms(1,2), of col] assms(3-7) by auto
  then have "\<exists>body pole bar. battery_boxes ?b = Some (body, pole, bar) \<and> nested bar body"
    using level_cells [of "power_quantity ?b" "level ?b"]
    by (auto simp: battery_boxes_def battery_ok_def nested_def Let_def mult.commute)
  moreover have "charge_cnt ((set_power col BATTRY_CHARGING ^^ n) b) = (charge_cnt b + int n) mod 6" for n
  proof (induction n)
    case 0
    then show ?case using assms(1) by (simp add: battery_ok_def)
  next
    case (Suc n)
    have "(charge_cnt b + int n) mod 6 \<le> 5" using pos_mod_bound [of 6 "charge_cnt b + int n"] by linarith
    then show ?case using Suc charge_step [of "(charge_cnt b + int n) mod 6"] mod_next [of 6 "charge_cnt b + int n"]
      by (simp add: set_power_def Let_def add_ac)
  qed
  then have "\<forall>n. power_quantity ((set_power col BATTRY_CHARGING ^^ Suc n) b) = 20 * ((charge_cnt b + int n) mod 6)"
    by (simp add: set_power_def Let_def signed_divide_int_def)
  ultimately show ?thesis by blast
qed

lemma battery_level_inside_example:
  "\<exists>body pole bar. battery_boxes (fold (set_power (\<lambda>_. 0)) [110, 110, 120, 37] ((new_battery (\<lambda>_. 0) False 0 12 20)\<lparr>direction := 2\<rparr>))
     = Some (body, pole, bar) \<and> nested bar body"
  using battery_level_inside [of "(new_battery (\<lambda>_. 0) False 0 12 20)\<lparr>direction := 2\<rparr>" "[110, 110, 120, 37]" "\<lambda>_. 0"]
  by (fastforce simp: new_battery_def battery_ok_def battery_input_def BATTRY_CHARGING_def BATTRY_TRICKLE_CHARGE_def)

section \<open>The position cursor\<close>

text \<open>The points of an icon, in the order they are drawn.\<close>

fun icon_points :: "nat list \<Rightarrow> int \<Rightarrow> int \<Rightarrow> (int \<times> int) list \<Rightarrow> (int \<times> int) list" where
  "icon_points icon p dir [] = []"
| "icon_points icon p dir (q # ps) =
     (if icon ! nat p \<noteq> 0 then q # icon_points icon (p + dir) dir ps else icon_points icon (p + dir) dir ps)"

lemma icon_loop:
  "(\<And>k. k < length ps \<Longrightarrow> 0 \<le> p + dir * int k \<and> p + dir * int k < int (length icon)) \<Longrightarrow>
   map_option snd (foldO (\<lambda>q (p, d). case aget icon p of None \<Rightarrow> None
       | Some v \<Rightarrow> map_option (\<lambda>d. (p + dir, d)) (if v \<noteq> 0 then plot (\<lambda>_. c) q d else Some d)) ps (p, d)) =
   foldO (plot (\<lambda>_. c)) (icon_points icon p dir ps) d"
proof (induction ps arbitrary: p d)
  case (Cons q ps)
  have "aget icon p = Some (icon ! nat p)" using Cons.prems [of 0] by (simp add: aget_def)
  moreover have "0 \<le> (p + dir) + dir * int k \<and> (p + dir) + dir * int k < int (length icon)" if "k < length ps" for k
    using Cons.prems [of "Suc k"] that by (simp add: algebra_simps)
  ultimately show ?case using Cons.IH [of "p + dir"] by (auto split: option.splits)
qed simp

lemma icon_points_map: "icon_points icon p dir (map f ps) = map f (icon_points icon p dir ps)"
  by (induction ps arbitrary: p) auto

lemma rect_points_shift:
  "rect_points (x + a) (y + b) (x + c) (y + e) = map (\<lambda>(u, v). (x + u, y + v)) (rect_points a b c e)"
proof -
  have "[x + l..x + h - 1] = map ((+) x) [l..h - 1]" for x l h :: int
  proof (induction "nat (h - l)" arbitrary: l)
    case (Suc n)
    then have "l \<le> h - 1" by simp
    moreover have "[x + (l + 1)..x + h - 1] = map ((+) x) [l + 1..h - 1]" using Suc by (intro Suc.hyps(1)) simp
    ultimately show ?case
      using upto_rec1 [of l "h - 1"] upto_rec1 [of "x + l" "x + h - 1"] by (simp add: add.assoc)
  qed simp
  then show ?thesis by (simp add: rect_points_def map_concat comp_def)
qed

lemma arrow_points:
  "list_all (\<lambda>(u, v). 0 \<le> u \<and> u < 11 \<and> 1 \<le> v \<and> v < 10) (icon_points ArrowIcon1 120 (- 1) (rect_points 0 0 11 11)) \<and>
   length (rect_points 0 0 11 11) = 121 \<and> length ArrowIcon1 = 121"
  by code_simp

lemma draw_arrow:
  "draw_icon x y 2 c 1 d = foldO (plot (\<lambda>_. c)) (map (\<lambda>(u, v). (x + u, y + v)) (icon_points ArrowIcon1 120 (- 1) (rect_points 0 0 11 11))) d"
proof -
  have r: "rect_points x y (x + 11) (y + 11) = map (\<lambda>(u, v). (x + u, y + v)) (rect_points 0 0 11 11)"
    using rect_points_shift [of x 0 y 0 11 11] by simp
  have "draw_icon x y 2 c 1 d = map_option snd (foldO (\<lambda>q (p, d). case aget ArrowIcon1 p of None \<Rightarrow> None
       | Some v \<Rightarrow> map_option (\<lambda>d. (p + - 1, d)) (if v \<noteq> 0 then plot (\<lambda>_. c) q d else Some d)) (rect_points x y (x + 11) (y + 11)) (120, d))"
    using rect_loop [of y "y + 11" x "x + 11" "\<lambda>q (p, d). case aget ArrowIcon1 p of None \<Rightarrow> None
       | Some v \<Rightarrow> map_option (\<lambda>d. (p + - 1, d)) (if v \<noteq> 0 then plot (\<lambda>_. c) q d else Some d)"]
    by (simp add: draw_icon_def icon_of_def draw_table_def)
  also have "\<dots> = foldO (plot (\<lambda>_. c)) (icon_points ArrowIcon1 120 (- 1) (rect_points x y (x + 11) (y + 11))) d"
    using arrow_points by (intro icon_loop) (auto simp: r)
  finally show ?thesis unfolding r icon_points_map .
qed

text \<open>Drawing points that all satisfy \<open>P\<close> leaves the others alone.\<close>

lemma draw_within:
  assumes "wf_dis d" "\<And>p. p \<in> set ps \<Longrightarrow> inner_pix d p \<and> P p"
  shows "\<exists>e. foldO (plot f) ps d = Some e \<and> same_shape d e \<and> (\<forall>q. inner_pix d q \<longrightarrow> \<not> P q \<longrightarrow> pix e q = pix d q)"
proof -
  have n: "count_list ps q = 0" if "\<not> P q" for q
    using assms(2) [of q] that by (metis count_list_0_iff)
  obtain e where e: "foldO (plot f) ps d = Some e" "same_shape d e"
      "\<And>q. inner_pix d q \<Longrightarrow> pix e q = (f ^^ count_list ps q) (pix d q)"
    using dis.draw_points [OF assms(1), of ps f] assms(2) by blast
  have "pix e q = pix d q" if "inner_pix d q" "\<not> P q" for q
    unfolding e(3) [OF that(1)] n [OF that(2)] by simp
  then show ?thesis using e(1,2) by blast
qed

definition cursor_box :: "cartoon \<Rightarrow> int \<times> int \<Rightarrow> bool" where
  "cursor_box c p \<longleftrightarrow> in_box (left c) (topp c) 11 (height c) (fst p) (snd p)"

definition drawable :: "disbuf \<Rightarrow> bool" where
  "drawable d \<longleftrightarrow> wf_dis d \<and> op_mode d \<in> {DISOPUN, DISOPXOR}"

lemma cursor_paint_within:
  assumes "drawable d" "11 \<le> height c" "0 \<le> left c" "left c + 11 \<le> disbufw d" "0 \<le> topp c" "topp c + height c \<le> disbufh d"
  shows "\<exists>e. cursor_paint junk c d = Some e \<and> same_shape d e \<and> (\<forall>q. inner_pix d q \<longrightarrow> \<not> cursor_box c q \<longrightarrow> pix e q = pix d q)"
proof -
  let ?arrow = "map (\<lambda>(u, v). (left c + u, topp c - 1 + v)) (icon_points ArrowIcon1 120 (- 1) (rect_points 0 0 11 11))"
  let ?x = "left c + 5" and ?y = "topp c + 11" and ?z = "topp c + height c"
  let ?pat = "line_pattern junk 3"
  let ?line = "map (line_point ?x ?y ?x ?z) (filter (\<lambda>t. t mod (?pat + 4) < ?pat) [0..Canvas.line_length ?x ?y ?x ?z - 1])"
  have wf: "wf_dis d" using assms(1) by (simp add: drawable_def)
  have box: "cursor_box c p \<Longrightarrow> inner_pix d p" for p
    using assms(3-6) by (auto simp: cursor_box_def in_box_def inner_pix_def inside_def)
  have "cursor_box c p" if "p \<in> set ?arrow" for p
    using that arrow_points assms(2) by (fastforce simp: list_all_iff cursor_box_def in_box_def)
  then obtain e where e: "draw_icon (left c) (topp c - 1) 2 (ca_color c) 1 d = Some e" "same_shape d e"
      "\<And>q. inner_pix d q \<Longrightarrow> \<not> cursor_box c q \<Longrightarrow> pix e q = pix d q"
    using draw_within [OF wf, of ?arrow "cursor_box c" "\<lambda>_. ca_color c"] box unfolding draw_arrow by blast
  have p: "cursor_box c p" if line: "p \<in> set ?line" for p
  proof -
    from line obtain t where t: "p = line_point ?x ?y ?x ?z t" "0 \<le> t" "t < Canvas.line_length ?x ?y ?x ?z" by auto
    then have "p = (?x, ?y + t)" "t < height c - 11"
      using assms(2) nearest_range [of t "height c - 11" 0] by (auto simp: line_point_def Canvas.line_length_def Let_def)
    then show ?thesis using t(2) by (simp add: cursor_box_def in_box_def)
  qed
  have e': "wf_dis e" "inner_pix e = inner_pix d" "op_mode e = DISOPUN \<or> op_mode e = DISOPXOR"
    using dis.same_ok [OF e(2) wf] dis.same_inner [OF e(2)] e(2) assms(1) by (auto simp: same_shape_def drawable_def)
  have sh: "short_line ?x ?y ?x ?z" using wf assms(2,5,6) by (auto simp: wf_dis_def short_line_def)
  obtain g where g: "line junk ?x ?y ?x ?z (ca_color c) 3 e = Some g" "same_shape e g"
      "\<And>q. inner_pix e q \<Longrightarrow> \<not> cursor_box c q \<Longrightarrow> pix g q = pix e q"
    using draw_within [OF e'(1), of ?line "cursor_box c" "mode_fun (op_mode e) (ca_color c)"] box p e'(2)
      line_points [OF e'(3) _ sh, of 3 junk "ca_color c"] by auto
  have "cursor_paint junk c d = Some g" using e(1) g(1) by (simp add: cursor_paint_def)
  then show ?thesis using dis.same_trans [OF e(2) g(2)] e(3) g(3) e'(2) by metis
qed

definition cartoon_box :: "cartoon \<Rightarrow> (int \<times> int) list" where
  "cartoon_box c = rect_points (left c) (topp c) (left c + width c) (topp c + height c)"

lemma backup_pixels:
  "wf_dis d \<Longrightarrow> \<forall>p \<in> set (cartoon_box c). inner_pix d p \<Longrightarrow> backup c d = Some (map (pix d) (cartoon_box c))"
  by (simp add: backup_def cartoon_box_def read_rect_pixels)

lemma put_back_pixels:
  assumes "wf_dis (sc_dis s)" "\<forall>p \<in> set (cartoon_box c). inner_pix (sc_dis s) p" "length (dis_data_bak c) = length (cartoon_box c)"
  shows "\<exists>e. put_back c s = Some (s\<lparr>sc_dis := e\<rparr>) \<and> same_shape (sc_dis s) e \<and>
    (\<forall>q. inner_pix (sc_dis s) q \<longrightarrow> q \<notin> set (cartoon_box c) \<longrightarrow> pix e q = pix (sc_dis s) q) \<and>
    map (pix e) (cartoon_box c) = dis_data_bak c"
  using write_rect_pixels [of "sc_dis s" "left c" "topp c" "left c + width c" "topp c + height c" "dis_data_bak c"] assms
  by (auto simp: put_back_def on_dis_def cartoon_box_def)

lemma cartoon_move_dis:
  assumes "cartoon_move x y (c, s) = Some (c', s')" "put_back c s = Some (s\<lparr>sc_dis := e\<rparr>)"
  shows "sc_dis s' = e \<and> c' = c\<lparr>left := x, topp := y, ca_update := True\<rparr>"
  using assms by (auto simp: cartoon_move_def scr_refresh_def split: if_splits Option.bind_splits)

lemma cursor_box_points: "width c = 11 \<Longrightarrow> q \<in> set (cartoon_box c) \<longleftrightarrow> cursor_box c q"
  by (cases q) (auto simp: cartoon_box_def set_rect_points cursor_box_def in_box_def)

text \<open>
  The position cursor leaves no trace: drawing it anywhere inside the display saves what is
  below and changes pixels of its box only, and moving it from there, whatever the new place,
  puts every pixel of the display back to what it was before the cursor was drawn.
\<close>

lemma cursor_leaves_no_trace:
  assumes "drawable (sc_dis s)" "width c = 11" "11 \<le> height c" "0 \<le> left c" "left c + 11 \<le> disbufw (sc_dis s)"
    and "0 \<le> topp c" "topp c + height c \<le> disbufh (sc_dis s)" "ca_update c" "ca_visible c"
  shows "\<exists>c1 s1. cartoon_draw (cursor_paint junk) (c, s) = Some (c1, s1) \<and>
    (\<forall>q. inner_pix (sc_dis s) q \<longrightarrow> \<not> cursor_box c q \<longrightarrow> pix (sc_dis s1) q = pix (sc_dis s) q) \<and>
    (\<forall>x y c2 s2. cartoon_move x y (c1, s1) = Some (c2, s2) \<longrightarrow>
       same_shape (sc_dis s) (sc_dis s2) \<and> (\<forall>q. inner_pix (sc_dis s) q \<longrightarrow> pix (sc_dis s2) q = pix (sc_dis s) q))"
proof -
  let ?d = "sc_dis s"
  let ?c = "c\<lparr>dis_data_bak := map (pix ?d) (cartoon_box c), ca_update := False\<rparr>"
  have wf: "wf_dis ?d" using assms(1) by (simp add: drawable_def)
  have box: "\<forall>p \<in> set (cartoon_box c). inner_pix ?d p"
    using assms(4-7) by (auto simp: cursor_box_points [OF assms(2)] cursor_box_def in_box_def inner_pix_def inside_def)
  obtain e where e: "cursor_paint junk ?c ?d = Some e" "same_shape ?d e"
      "\<And>q. inner_pix ?d q \<Longrightarrow> \<not> cursor_box c q \<Longrightarrow> pix e q = pix ?d q"
    using cursor_paint_within [of ?d ?c junk] assms(1,3-7) by (auto simp: cursor_box_def)
  have draw: "cartoon_draw (cursor_paint junk) (c, s) = Some (?c, s\<lparr>sc_dis := e\<rparr>)"
    using backup_pixels [OF wf box] e(1) assms(8,9) by (simp add: cartoon_draw_def on_dis_def Let_def)
  have e': "wf_dis e" "inner_pix e = inner_pix ?d" using dis.same_ok [OF e(2) wf] dis.same_inner [OF e(2)] by auto
  have same: "cartoon_box ?c = cartoon_box c" by (simp add: cartoon_box_def)
  obtain g where g: "put_back ?c (s\<lparr>sc_dis := e\<rparr>) = Some (s\<lparr>sc_dis := g\<rparr>)" "same_shape e g"
      "\<And>q. inner_pix e q \<Longrightarrow> q \<notin> set (cartoon_box c) \<Longrightarrow> pix g q = pix e q"
      "map (pix g) (cartoon_box c) = map (pix ?d) (cartoon_box c)"
    using put_back_pixels [of "s\<lparr>sc_dis := e\<rparr>" ?c] e' box unfolding same by auto
  have "pix g q = pix ?d q" if "inner_pix ?d q" for q
    using g(3) [of q] g(4) e(3) [OF that] e'(2) that cursor_box_points [OF assms(2)] by (cases "q \<in> set (cartoon_box c)") auto
  moreover have "sc_dis s2 = g" if "cartoon_move x y (?c, s\<lparr>sc_dis := e\<rparr>) = Some (c2, s2)" for x y c2 s2
    using cartoon_move_dis [OF that, of g] g(1) by simp
  ultimately show ?thesis using draw e(3) dis.same_trans [OF e(2) g(2)]
    by (intro exI [of _ ?c] exI [of _ "s\<lparr>sc_dis := e\<rparr>"]) auto
qed

text \<open>
  A second move before the next drawing writes the saved background a second time, at the place the
  cursor was moved to: that place then shows a copy of the first one.
\<close>

lemma second_move_copies:
  assumes "wf_dis (sc_dis s)" "\<forall>p \<in> set (cartoon_box (c\<lparr>left := x, topp := y\<rparr>)). inner_pix (sc_dis s) p"
    and "length (dis_data_bak c) = length (cartoon_box (c\<lparr>left := x, topp := y\<rparr>))"
    and "cartoon_move u v (c\<lparr>left := x, topp := y, ca_update := True\<rparr>, s) = Some (c', s')"
  shows "map (pix (sc_dis s')) (cartoon_box (c\<lparr>left := x, topp := y\<rparr>)) = dis_data_bak c"
proof -
  let ?c = "c\<lparr>left := x, topp := y, ca_update := True\<rparr>"
  have b: "cartoon_box ?c = cartoon_box (c\<lparr>left := x, topp := y\<rparr>)" by (simp add: cartoon_box_def)
  show ?thesis using put_back_pixels [OF assms(1), of ?c] assms(2,3) cartoon_move_dis [OF assms(4)] unfolding b by auto
qed

definition demo_cursor :: cartoon where
  "demo_cursor = \<lparr>left = 0, topp = 0, width = 11, height = 12, ca_color = 3, ca_visible = True, dis_data_bak = [], ca_update = True\<rparr>"

lemma cursor_leaves_no_trace_example:
  "\<exists>c1 s1. cartoon_draw (cursor_paint 0) (demo_cursor, demo_wide) = Some (c1, s1) \<and> pix (sc_dis s1) (11, 5) = 7 \<and>
     (\<forall>x y. case cartoon_move x y (c1, s1) of None \<Rightarrow> True | Some (c2, s2) \<Rightarrow> pix (sc_dis s2) (5, 5) = 7)"
proof -
  have d: "drawable (sc_dis demo_wide)" "disbufw (sc_dis demo_wide) = 12" "disbufh (sc_dis demo_wide) = 12"
    "pix (sc_dis demo_wide) (11, 5) = 7" "pix (sc_dis demo_wide) (5, 5) = 7"
    "inner_pix (sc_dis demo_wide) (11, 5)" "inner_pix (sc_dis demo_wide) (5, 5)"
    by (simp_all add: demo_wide_def new_disbuf_def drawable_def wf_dis_def DISOPUN_def pix_def inner_pix_def inside_def)
  have "\<exists>c1 s1. cartoon_draw (cursor_paint 0) (demo_cursor, demo_wide) = Some (c1, s1) \<and>
    (\<forall>q. inner_pix (sc_dis demo_wide) q \<longrightarrow> \<not> cursor_box demo_cursor q \<longrightarrow> pix (sc_dis s1) q = pix (sc_dis demo_wide) q) \<and>
    (\<forall>x y c2 s2. cartoon_move x y (c1, s1) = Some (c2, s2) \<longrightarrow>
       same_shape (sc_dis demo_wide) (sc_dis s2) \<and> (\<forall>q. inner_pix (sc_dis demo_wide) q \<longrightarrow> pix (sc_dis s2) q = pix (sc_dis demo_wide) q))"
    by (rule cursor_leaves_no_trace) (simp_all add: d demo_cursor_def)
  moreover have "\<not> cursor_box demo_cursor (11, 5)" by (simp add: cursor_box_def in_box_def demo_cursor_def)
  ultimately show ?thesis using d by (fastforce split: option.splits)
qed

end
