(* ===== verification/Set_Menu.thy ===== *)
theory Set_Menu
  imports Prelude
begin

text \<open>
  The tables of the settings pages (\<open>gui/src/GUI/viewset_menu.h\<close>): the numbers of the commands, in
  the order of the enumeration \<open>ViewSetCmd\<close>, and the menu of every page (offset of the value, tag and
  command of each item; the captions are left out).  Bit 0 of a tag hides the item, bit 1 asks for
  a cursor, bit 2 says that the item has several values, bit 4 disables it.
\<close>

section \<open>Commands\<close>

abbreviation (input) VW_S0 :: nat where "VW_S0 \<equiv> 0"
abbreviation (input) VW_SY0 :: nat where "VW_SY0 \<equiv> 1"
abbreviation (input) VW_AUDIT :: nat where "VW_AUDIT \<equiv> 2"
abbreviation (input) VW_SteadyPara :: nat where "VW_SteadyPara \<equiv> 3"
abbreviation (input) VW_LINE :: nat where "VW_LINE \<equiv> 4"
abbreviation (input) VW_RecWavePara :: nat where "VW_RecWavePara \<equiv> 5"
abbreviation (input) VW_COMM :: nat where "VW_COMM \<equiv> 6"
abbreviation (input) VW_OTHERSET :: nat where "VW_OTHERSET \<equiv> 7"
abbreviation (input) VW_CUSTOM :: nat where "VW_CUSTOM \<equiv> 8"
abbreviation (input) VW_EEW :: nat where "VW_EEW \<equiv> 9"
abbreviation (input) VW_RESERVE1 :: nat where "VW_RESERVE1 \<equiv> 10"
abbreviation (input) VW_HIDE :: nat where "VW_HIDE \<equiv> 11"
abbreviation (input) VW_VERIFY :: nat where "VW_VERIFY \<equiv> 12"
abbreviation (input) VW_SYSPARA :: nat where "VW_SYSPARA \<equiv> 13"
abbreviation (input) VW_INIT :: nat where "VW_INIT \<equiv> 14"
abbreviation (input) VW_SYS_RSV1 :: nat where "VW_SYS_RSV1 \<equiv> 15"
abbreviation (input) VW_SYS_RSV2 :: nat where "VW_SYS_RSV2 \<equiv> 16"
abbreviation (input) VW_SYS_RSV3 :: nat where "VW_SYS_RSV3 \<equiv> 17"
abbreviation (input) VW_SYS_HIDE :: nat where "VW_SYS_HIDE \<equiv> 18"
abbreviation (input) VW_SYS_HIDE2 :: nat where "VW_SYS_HIDE2 \<equiv> 19"
abbreviation (input) VW_AuditWarn :: nat where "VW_AuditWarn \<equiv> 20"
abbreviation (input) VW_AuditAlarm :: nat where "VW_AuditAlarm \<equiv> 21"
abbreviation (input) VW_ShortRMSVVR :: nat where "VW_ShortRMSVVR \<equiv> 22"
abbreviation (input) VW_ShortRMSIVR :: nat where "VW_ShortRMSIVR \<equiv> 23"
abbreviation (input) VW_GpsParamSet :: nat where "VW_GpsParamSet \<equiv> 24"
abbreviation (input) VW_CvtModify :: nat where "VW_CvtModify \<equiv> 25"
abbreviation (input) VW_SetResRatio :: nat where "VW_SetResRatio \<equiv> 26"
abbreviation (input) VW_VoltLinearity :: nat where "VW_VoltLinearity \<equiv> 27"
abbreviation (input) VW_RcdSpaceSaveType :: nat where "VW_RcdSpaceSaveType \<equiv> 28"
abbreviation (input) VW_SeeCharacterDCValue :: nat where "VW_SeeCharacterDCValue \<equiv> 29"
abbreviation (input) VW_SYSPARA_RSV1 :: nat where "VW_SYSPARA_RSV1 \<equiv> 30"
abbreviation (input) VW_SYSPARA_RSV2 :: nat where "VW_SYSPARA_RSV2 \<equiv> 31"
abbreviation (input) VW_SYSINIT_RSV1 :: nat where "VW_SYSINIT_RSV1 \<equiv> 32"
abbreviation (input) VW_SetHarmLimit :: nat where "VW_SetHarmLimit \<equiv> 33"
abbreviation (input) VW_CvtModifyK :: nat where "VW_CvtModifyK \<equiv> 34"
abbreviation (input) VW_HmCurrLimit :: nat where "VW_HmCurrLimit \<equiv> 35"
abbreviation (input) VW_CapThresh :: nat where "VW_CapThresh \<equiv> 36"
abbreviation (input) VW_raDisHarm :: nat where "VW_raDisHarm \<equiv> 37"
abbreviation (input) VW_raParam :: nat where "VW_raParam \<equiv> 38"
abbreviation (input) VW_raThresh :: nat where "VW_raThresh \<equiv> 39"
abbreviation (input) VW_TrnsfmrParam :: nat where "VW_TrnsfmrParam \<equiv> 40"
abbreviation (input) VW_SteadyTrigPara :: nat where "VW_SteadyTrigPara \<equiv> 41"
abbreviation (input) VW_Fluctuation :: nat where "VW_Fluctuation \<equiv> 42"
abbreviation (input) VW_InterHarm :: nat where "VW_InterHarm \<equiv> 43"
abbreviation (input) VW_AlmEnable :: nat where "VW_AlmEnable \<equiv> 44"
abbreviation (input) VW_LOGIN :: nat where "VW_LOGIN \<equiv> 45"
abbreviation (input) VW_GUI_DILIMITER :: nat where "VW_GUI_DILIMITER \<equiv> 46"
abbreviation (input) kUserName :: nat where "kUserName \<equiv> 47"
abbreviation (input) kPassword :: nat where "kPassword \<equiv> 48"
abbreviation (input) VoltWarp :: nat where "VoltWarp \<equiv> 49"
abbreviation (input) ShortCap :: nat where "ShortCap \<equiv> 50"
abbreviation (input) UserCap :: nat where "UserCap \<equiv> 51"
abbreviation (input) SuppCap :: nat where "SuppCap \<equiv> 52"
abbreviation (input) CLimitValue :: nat where "CLimitValue \<equiv> 53"
abbreviation (input) TransLimit :: nat where "TransLimit \<equiv> 54"
abbreviation (input) TransCurLimit :: nat where "TransCurLimit \<equiv> 55"
abbreviation (input) PTScale :: nat where "PTScale \<equiv> 56"
abbreviation (input) CTScale :: nat where "CTScale \<equiv> 57"
abbreviation (input) VoltLvl :: nat where "VoltLvl \<equiv> 58"
abbreviation (input) UnitNum :: nat where "UnitNum \<equiv> 59"
abbreviation (input) BaudRateSet :: nat where "BaudRateSet \<equiv> 60"
abbreviation (input) TransEnable :: nat where "TransEnable \<equiv> 61"
abbreviation (input) TransCurEnable :: nat where "TransCurEnable \<equiv> 62"
abbreviation (input) DeviceSn :: nat where "DeviceSn \<equiv> 63"
abbreviation (input) SmpVltScale :: nat where "SmpVltScale \<equiv> 64"
abbreviation (input) SmpCurScale :: nat where "SmpCurScale \<equiv> 65"
abbreviation (input) TranstTolTime :: nat where "TranstTolTime \<equiv> 66"
abbreviation (input) TranstRcdTime :: nat where "TranstRcdTime \<equiv> 67"
abbreviation (input) kFreqEvalTm :: nat where "kFreqEvalTm \<equiv> 68"
abbreviation (input) kMdfyEvnStm :: nat where "kMdfyEvnStm \<equiv> 69"
abbreviation (input) SysIni :: nat where "SysIni \<equiv> 70"
abbreviation (input) ModifyTime :: nat where "ModifyTime \<equiv> 71"
abbreviation (input) ModifyPasswd :: nat where "ModifyPasswd \<equiv> 72"
abbreviation (input) IPAddrSet :: nat where "IPAddrSet \<equiv> 73"
abbreviation (input) SocketServerPort :: nat where "SocketServerPort \<equiv> 74"
abbreviation (input) NetMaskSet :: nat where "NetMaskSet \<equiv> 75"
abbreviation (input) DebugEnable :: nat where "DebugEnable \<equiv> 76"
abbreviation (input) VAResRatio :: nat where "VAResRatio \<equiv> 77"
abbreviation (input) VBResRatio :: nat where "VBResRatio \<equiv> 78"
abbreviation (input) VCResRatio :: nat where "VCResRatio \<equiv> 79"
abbreviation (input) CAResRatio :: nat where "CAResRatio \<equiv> 80"
abbreviation (input) CBResRatio :: nat where "CBResRatio \<equiv> 81"
abbreviation (input) CCResRatio :: nat where "CCResRatio \<equiv> 82"
abbreviation (input) VALineCoef :: nat where "VALineCoef \<equiv> 83"
abbreviation (input) VBLineCoef :: nat where "VBLineCoef \<equiv> 84"
abbreviation (input) VCLineCoef :: nat where "VCLineCoef \<equiv> 85"
abbreviation (input) VorCDatum :: nat where "VorCDatum \<equiv> 86"
abbreviation (input) PhsAdjEnable :: nat where "PhsAdjEnable \<equiv> 87"
abbreviation (input) VorC_AdjEnable :: nat where "VorC_AdjEnable \<equiv> 88"
abbreviation (input) AutoAdj :: nat where "AutoAdj \<equiv> 89"
abbreviation (input) kVoltLinearity :: nat where "kVoltLinearity \<equiv> 90"
abbreviation (input) PstMdfyEnable :: nat where "PstMdfyEnable \<equiv> 91"
abbreviation (input) PstEnable :: nat where "PstEnable \<equiv> 92"
abbreviation (input) kSecurityEn :: nat where "kSecurityEn \<equiv> 93"
abbreviation (input) SaveWaveEnable :: nat where "SaveWaveEnable \<equiv> 94"
abbreviation (input) Aggregation10min :: nat where "Aggregation10min \<equiv> 95"
abbreviation (input) GateWaySet :: nat where "GateWaySet \<equiv> 96"
abbreviation (input) CurrClampEnable :: nat where "CurrClampEnable \<equiv> 97"
abbreviation (input) CurrClampType :: nat where "CurrClampType \<equiv> 98"
abbreviation (input) LCMDelayTime :: nat where "LCMDelayTime \<equiv> 99"
abbreviation (input) HarmRcdSpace :: nat where "HarmRcdSpace \<equiv> 100"
abbreviation (input) ResetPassword :: nat where "ResetPassword \<equiv> 101"
abbreviation (input) HrmRcdSaveType :: nat where "HrmRcdSaveType \<equiv> 102"
abbreviation (input) ResetDefaultPara :: nat where "ResetDefaultPara \<equiv> 103"
abbreviation (input) AdjustZeroEnable :: nat where "AdjustZeroEnable \<equiv> 104"
abbreviation (input) SetLimitType :: nat where "SetLimitType \<equiv> 105"
abbreviation (input) ImbalanceLimit :: nat where "ImbalanceLimit \<equiv> 106"
abbreviation (input) NegativeILimit :: nat where "NegativeILimit \<equiv> 107"
abbreviation (input) FrequecyLimit :: nat where "FrequecyLimit \<equiv> 108"
abbreviation (input) PstLimit :: nat where "PstLimit \<equiv> 109"
abbreviation (input) SetHarmLimitSub :: nat where "SetHarmLimitSub \<equiv> 110"
abbreviation (input) SetMacAddr :: nat where "SetMacAddr \<equiv> 111"
abbreviation (input) GetCharacterDCValue :: nat where "GetCharacterDCValue \<equiv> 112"
abbreviation (input) VADCValue :: nat where "VADCValue \<equiv> 113"
abbreviation (input) CADCValue :: nat where "CADCValue \<equiv> 114"
abbreviation (input) VBDCValue :: nat where "VBDCValue \<equiv> 115"
abbreviation (input) CBDCValue :: nat where "CBDCValue \<equiv> 116"
abbreviation (input) VCDCValue :: nat where "VCDCValue \<equiv> 117"
abbreviation (input) CCDCValue :: nat where "CCDCValue \<equiv> 118"
abbreviation (input) SteadyBakEnable :: nat where "SteadyBakEnable \<equiv> 119"
abbreviation (input) TranstBakEnable :: nat where "TranstBakEnable \<equiv> 120"
abbreviation (input) ConnectType :: nat where "ConnectType \<equiv> 121"
abbreviation (input) SynTimeType :: nat where "SynTimeType \<equiv> 122"
abbreviation (input) AdSampleRate :: nat where "AdSampleRate \<equiv> 123"
abbreviation (input) TransTbLimit :: nat where "TransTbLimit \<equiv> 124"
abbreviation (input) StartCurEn :: nat where "StartCurEn \<equiv> 125"
abbreviation (input) StartCurLimit :: nat where "StartCurLimit \<equiv> 126"
abbreviation (input) TransManualRec :: nat where "TransManualRec \<equiv> 127"
abbreviation (input) TransTbEnable :: nat where "TransTbEnable \<equiv> 128"
abbreviation (input) TransEndNum :: nat where "TransEndNum \<equiv> 129"
abbreviation (input) GpsSingleType :: nat where "GpsSingleType \<equiv> 130"
abbreviation (input) GpsPulseType :: nat where "GpsPulseType \<equiv> 131"
abbreviation (input) SetProofTimeIntr :: nat where "SetProofTimeIntr \<equiv> 132"
abbreviation (input) SetBTimeIntr :: nat where "SetBTimeIntr \<equiv> 133"
abbreviation (input) NTPServerIP :: nat where "NTPServerIP \<equiv> 134"
abbreviation (input) ImbalanceRcdSpace :: nat where "ImbalanceRcdSpace \<equiv> 135"
abbreviation (input) ImbalanceSaveType :: nat where "ImbalanceSaveType \<equiv> 136"
abbreviation (input) FreqRcdSpace :: nat where "FreqRcdSpace \<equiv> 137"
abbreviation (input) FreqSaveType :: nat where "FreqSaveType \<equiv> 138"
abbreviation (input) VoltWarpRcdSpace :: nat where "VoltWarpRcdSpace \<equiv> 139"
abbreviation (input) VoltWarpSaveType :: nat where "VoltWarpSaveType \<equiv> 140"
abbreviation (input) ShowOcTime :: nat where "ShowOcTime \<equiv> 141"
abbreviation (input) ZeroInputThr :: nat where "ZeroInputThr \<equiv> 142"
abbreviation (input) kFilterCP :: nat where "kFilterCP \<equiv> 143"
abbreviation (input) kTimeDiff :: nat where "kTimeDiff \<equiv> 144"
abbreviation (input) kSignalSimuEn :: nat where "kSignalSimuEn \<equiv> 145"
abbreviation (input) CvtModifyEn :: nat where "CvtModifyEn \<equiv> 146"
abbreviation (input) CvtModifyKSub :: nat where "CvtModifyKSub \<equiv> 147"
abbreviation (input) FluctuationDb :: nat where "FluctuationDb \<equiv> 148"
abbreviation (input) FluctuationEna :: nat where "FluctuationEna \<equiv> 149"
abbreviation (input) ResetHysTime :: nat where "ResetHysTime \<equiv> 150"
abbreviation (input) kTimeZone :: nat where "kTimeZone \<equiv> 151"
abbreviation (input) kHarmonic10Cyc :: nat where "kHarmonic10Cyc \<equiv> 152"
abbreviation (input) kClockSource :: nat where "kClockSource \<equiv> 153"
abbreviation (input) kSysTimeError :: nat where "kSysTimeError \<equiv> 154"
abbreviation (input) kFixFreqSmpl :: nat where "kFixFreqSmpl \<equiv> 155"
abbreviation (input) kCapLifeThr :: nat where "kCapLifeThr \<equiv> 156"
abbreviation (input) kCapW24hThr :: nat where "kCapW24hThr \<equiv> 157"
abbreviation (input) kCapVolt1Thr :: nat where "kCapVolt1Thr \<equiv> 158"
abbreviation (input) kCapVolt2Thr :: nat where "kCapVolt2Thr \<equiv> 159"
abbreviation (input) kCapCurrThr :: nat where "kCapCurrThr \<equiv> 160"
abbreviation (input) kCapCapThr :: nat where "kCapCapThr \<equiv> 161"
abbreviation (input) kCapPeakThr :: nat where "kCapPeakThr \<equiv> 162"
abbreviation (input) kraDisHmSub :: nat where "kraDisHmSub \<equiv> 163"
abbreviation (input) kCapGamaThr :: nat where "kCapGamaThr \<equiv> 164"
abbreviation (input) kTransformerMs :: nat where "kTransformerMs \<equiv> 165"
abbreviation (input) kCapNmnlMc :: nat where "kCapNmnlMc \<equiv> 166"
abbreviation (input) kCapNmnlUc :: nat where "kCapNmnlUc \<equiv> 167"
abbreviation (input) kCapReactancex :: nat where "kCapReactancex \<equiv> 168"
abbreviation (input) kCapCharctHr :: nat where "kCapCharctHr \<equiv> 169"
abbreviation (input) kImpedanceBeta :: nat where "kImpedanceBeta \<equiv> 170"
abbreviation (input) kRAThreshold :: nat where "kRAThreshold \<equiv> 171"
abbreviation (input) kTrnsfmrPec :: nat where "kTrnsfmrPec \<equiv> 172"
abbreviation (input) kTrnsfmrIn :: nat where "kTrnsfmrIn \<equiv> 173"
abbreviation (input) kRecWaveFormat :: nat where "kRecWaveFormat \<equiv> 174"
abbreviation (input) kRecWaveSmplRt :: nat where "kRecWaveSmplRt \<equiv> 175"
abbreviation (input) kComtradeSvPath :: nat where "kComtradeSvPath \<equiv> 176"
abbreviation (input) kStdyTrgrEnable :: nat where "kStdyTrgrEnable \<equiv> 177"
abbreviation (input) kFreqTrgrEnable :: nat where "kFreqTrgrEnable \<equiv> 178"
abbreviation (input) kHarmTrgrEnable :: nat where "kHarmTrgrEnable \<equiv> 179"
abbreviation (input) kUnblcTrgrEnable :: nat where "kUnblcTrgrEnable \<equiv> 180"
abbreviation (input) kVoltDvTrgrEnable :: nat where "kVoltDvTrgrEnable \<equiv> 181"
abbreviation (input) kHarmRecSvMax :: nat where "kHarmRecSvMax \<equiv> 182"
abbreviation (input) kHarmRecSvEn :: nat where "kHarmRecSvEn \<equiv> 183"
abbreviation (input) kInterHarmEna :: nat where "kInterHarmEna \<equiv> 184"
abbreviation (input) kInterHarmDb :: nat where "kInterHarmDb \<equiv> 185"
abbreviation (input) kInterHmGroup :: nat where "kInterHmGroup \<equiv> 186"
abbreviation (input) kHeartbeat61850 :: nat where "kHeartbeat61850 \<equiv> 187"
abbreviation (input) kAuditLogSize :: nat where "kAuditLogSize \<equiv> 188"
abbreviation (input) kAuditWarnList :: nat where "kAuditWarnList \<equiv> 189"
abbreviation (input) kHarmAlmEna :: nat where "kHarmAlmEna \<equiv> 190"
abbreviation (input) kFreqAlmEna :: nat where "kFreqAlmEna \<equiv> 191"
abbreviation (input) kPstAlmEna :: nat where "kPstAlmEna \<equiv> 192"
abbreviation (input) kUnblcAlmEna :: nat where "kUnblcAlmEna \<equiv> 193"
abbreviation (input) kVoltDvAlmEna :: nat where "kVoltDvAlmEna \<equiv> 194"

section \<open>Menus\<close>

record ssetmenu =
  m_count :: int
  m_width :: int
  m_totl :: int
  m_items :: "(int \<times> int \<times> nat) list"

definition ViewLOGINMenu :: ssetmenu where
  "ViewLOGINMenu = \<lparr>m_count = 2, m_width = 14, m_totl = 0, m_items =
     [(8, 0, kUserName), (8, 2, kPassword)]\<rparr>"

definition ViewS0Menu :: ssetmenu where
  "ViewS0Menu = \<lparr>m_count = 9, m_width = 12, m_totl = 0, m_items =
     [(0, 0, VW_LINE), (0, 0, VW_SteadyPara), (0, 0, VW_COMM), (0, 0, VW_OTHERSET),
      (0, 0, VW_RecWavePara), (0, 0, VW_EEW), (0, 17, VW_RESERVE1), (0, 17, VW_RESERVE1),
      (0, 1, VW_HIDE)]\<rparr>"

definition ViewSy0Menu :: ssetmenu where
  "ViewSy0Menu = \<lparr>m_count = 9, m_width = 12, m_totl = 0, m_items =
     [(0, 0, VW_VERIFY), (0, 0, VW_SYSPARA), (0, 0, VW_INIT), (0, 0, VW_OTHERSET),
      (0, 17, VW_SYS_RSV1), (0, 17, VW_SYS_RSV2), (0, 17, VW_SYS_RSV3), (0, 1, VW_SYS_HIDE),
      (0, 1, VW_SYS_HIDE2)]\<rparr>"

definition ViewAuditMenu :: ssetmenu where
  "ViewAuditMenu = \<lparr>m_count = 6, m_width = 12, m_totl = 0, m_items =
     [(0, 0, VW_AuditWarn), (0, 0, VW_AuditAlarm), (10, 2, kAuditLogSize), (0, 17, VW_SYS_RSV1),
      (0, 17, VW_SYS_RSV2), (0, 17, VW_SYS_RSV3)]\<rparr>"

definition ViewLineMenu :: ssetmenu where
  "ViewLineMenu = \<lparr>m_count = 8, m_width = 16, m_totl = 0, m_items =
     [(7, 6, PTScale), (7, 6, CTScale), (7, 0, VoltLvl), (9, 2, ShortCap), (9, 2, UserCap),
      (9, 2, SuppCap), (9, 0, ConnectType), (8, 0, CurrClampType)]\<rparr>"

definition ViewSteadyMenu :: ssetmenu where
  "ViewSteadyMenu = \<lparr>m_count = 9, m_width = 18, m_totl = 0, m_items =
     [(11, 6, VoltWarp), (10, 6, ImbalanceLimit), (9, 2, NegativeILimit), (0, 0, VW_HmCurrLimit),
      (8, 0, SetLimitType), (0, 0, VW_CUSTOM), (0, 0, VW_Fluctuation), (0, 0, VW_InterHarm),
      (0, 0, VW_AlmEnable)]\<rparr>"

definition ViewCommMenu :: ssetmenu where
  "ViewCommMenu = \<lparr>m_count = 7, m_width = 18, m_totl = 0, m_items =
     [(6, 2, UnitNum), (6, 2, BaudRateSet), (8, 2, IPAddrSet), (8, 2, NetMaskSet),
      (8, 2, GateWaySet), (8, 6, SetMacAddr), (6, 2, SocketServerPort)]\<rparr>"

definition ViewOtherMenu :: ssetmenu where
  "ViewOtherMenu = \<lparr>m_count = 6, m_width = 18, m_totl = 0, m_items =
     [(7, 6, ModifyTime), (8, 6, ModifyPasswd), (9, 2, LCMDelayTime), (0, 0, VW_GpsParamSet),
      (0, 0, ShowOcTime), (0, 0, VW_CvtModify)]\<rparr>"

definition ViewRecWaveMenu :: ssetmenu where
  "ViewRecWaveMenu = \<lparr>m_count = 9, m_width = 22, m_totl = 0, m_items =
     [(0, 0, VW_ShortRMSVVR), (0, 0, VW_ShortRMSIVR), (0, 0, VW_SteadyTrigPara),
      (9, 0, TransManualRec), (9, 2, TransEndNum), (11, 2, TranstRcdTime),
      (9, 0, kRecWaveFormat), (11, 0, kRecWaveSmplRt), (11, 0, kComtradeSvPath)]\<rparr>"

definition ViewEEWMenu :: ssetmenu where
  "ViewEEWMenu = \<lparr>m_count = 5, m_width = 19, m_totl = 0, m_items =
     [(0, 0, VW_CapThresh), (9, 0, VW_raDisHarm), (0, 0, VW_raParam), (0, 0, VW_raThresh),
      (0, 0, VW_TrnsfmrParam)]\<rparr>"

definition ViewHideMenu :: ssetmenu where
  "ViewHideMenu = \<lparr>m_count = 7, m_width = 18, m_totl = 0, m_items =
     [(7, 0, AdSampleRate), (11, 2, ResetHysTime), (12, 2, kHarmonic10Cyc), (6, 0, kClockSource),
      (11, 2, kSysTimeError), (9, 0, kFixFreqSmpl), (9, 0, kHeartbeat61850)]\<rparr>"

definition ViewVerifyMenu :: ssetmenu where
  "ViewVerifyMenu = \<lparr>m_count = 8, m_width = 16, m_totl = 0, m_items =
     [(8, 2, SmpVltScale), (8, 2, SmpCurScale), (0, 0, VW_SetResRatio), (9, 6, VorCDatum),
      (9, 6, PhsAdjEnable), (11, 6, VorC_AdjEnable), (9, 0, AutoAdj), (10, 0, VW_VoltLinearity)]\<rparr>"

definition ViewSysparaMenu :: ssetmenu where
  "ViewSysparaMenu = \<lparr>m_count = 7, m_width = 18, m_totl = 0, m_items =
     [(0, 0, VW_RcdSpaceSaveType), (0, 0, VW_SeeCharacterDCValue), (11, 0, GetCharacterDCValue),
      (9, 2, TranstTolTime), (11, 0, kFreqEvalTm), (13, 0, kMdfyEvnStm),
      (0, 17, VW_SYSPARA_RSV2)]\<rparr>"

definition ViewSysInitMenu :: ssetmenu where
  "ViewSysInitMenu = \<lparr>m_count = 9, m_width = 18, m_totl = 0, m_items =
     [(7, 2, DeviceSn), (8, 0, ResetDefaultPara), (9, 0, PstMdfyEnable), (8, 0, CurrClampEnable),
      (7, 0, ResetPassword), (6, 0, SysIni), (12, 6, ZeroInputThr), (7, 0, DebugEnable),
      (0, 17, VW_SYSINIT_RSV1)]\<rparr>"

definition ViewSysHideMenu :: ssetmenu where
  "ViewSysHideMenu = \<lparr>m_count = 7, m_width = 18, m_totl = 0, m_items =
     [(12, 0, AdjustZeroEnable), (7, 0, PstEnable), (11, 0, SaveWaveEnable),
      (13, 2, kHarmRecSvMax), (11, 0, kHarmRecSvEn), (12, 0, Aggregation10min),
      (9, 2, kFilterCP)]\<rparr>"

definition ViewSysHide2Menu :: ssetmenu where
  "ViewSysHide2Menu = \<lparr>m_count = 3, m_width = 18, m_totl = 0, m_items =
     [(13, 0, kSecurityEn), (10, 0, kTimeDiff), (10, 0, kSignalSimuEn)]\<rparr>"

definition ViewCustomMenu :: ssetmenu where
  "ViewCustomMenu = \<lparr>m_count = 3, m_width = 18, m_totl = 0, m_items =
     [(11, 6, FrequecyLimit), (7, 6, PstLimit), (0, 0, VW_SetHarmLimit)]\<rparr>"

definition ViewFluctuationMenu :: ssetmenu where
  "ViewFluctuationMenu = \<lparr>m_count = 2, m_width = 18, m_totl = 0, m_items =
     [(11, 6, FluctuationEna), (14, 2, FluctuationDb)]\<rparr>"

definition ViewInterHarmMenu :: ssetmenu where
  "ViewInterHarmMenu = \<lparr>m_count = 3, m_width = 18, m_totl = 0, m_items =
     [(8, 0, kInterHarmEna), (13, 2, kInterHarmDb), (7, 0, kInterHmGroup)]\<rparr>"

definition ViewAlmEnableMenu :: ssetmenu where
  "ViewAlmEnableMenu = \<lparr>m_count = 5, m_width = 18, m_totl = 0, m_items =
     [(8, 0, kHarmAlmEna), (8, 2, kFreqAlmEna), (8, 0, kPstAlmEna), (10, 0, kUnblcAlmEna),
      (10, 0, kVoltDvAlmEna)]\<rparr>"

definition ViewCLimitMenu :: ssetmenu where
  "ViewCLimitMenu = \<lparr>m_count = 8, m_width = 14, m_totl = 49, m_items =
     replicate 8 (0, 0, CLimitValue)\<rparr>"

definition ViewShortVVRMenu :: ssetmenu where
  "ViewShortVVRMenu = \<lparr>m_count = 4, m_width = 18, m_totl = 0, m_items =
     [(9, 6, TransEnable), (9, 6, TransTbEnable), (9, 6, TransLimit), (9, 6, TransTbLimit)]\<rparr>"

definition ViewShortIVRMenu :: ssetmenu where
  "ViewShortIVRMenu = \<lparr>m_count = 4, m_width = 19, m_totl = 0, m_items =
     [(9, 6, StartCurEn), (11, 2, StartCurLimit), (9, 6, TransCurEnable), (11, 6, TransCurLimit)]\<rparr>"

definition ViewStdyTrgMenu :: ssetmenu where
  "ViewStdyTrgMenu = \<lparr>m_count = 5, m_width = 16, m_totl = 0, m_items =
     [(9, 0, kStdyTrgrEnable), (9, 0, kFreqTrgrEnable), (9, 6, kHarmTrgrEnable),
      (10, 6, kUnblcTrgrEnable), (11, 0, kVoltDvTrgrEnable)]\<rparr>"

definition ViewGPSMenu :: ssetmenu where
  "ViewGPSMenu = \<lparr>m_count = 6, m_width = 18, m_totl = 0, m_items =
     [(9, 0, GpsSingleType), (9, 0, GpsPulseType), (13, 6, SetProofTimeIntr),
      (11, 2, SetBTimeIntr), (11, 2, NTPServerIP), (8, 4, kTimeZone)]\<rparr>"

definition ViewCVTMenu :: ssetmenu where
  "ViewCVTMenu = \<lparr>m_count = 2, m_width = 14, m_totl = 0, m_items =
     [(9, 0, CvtModifyEn), (0, 0, VW_CvtModifyK)]\<rparr>"

definition ViewCVTKMenu :: ssetmenu where
  "ViewCVTKMenu = \<lparr>m_count = 8, m_width = 14, m_totl = 49, m_items =
     replicate 8 (6, 2, CvtModifyKSub)\<rparr>"

definition ViewResRatioMenu :: ssetmenu where
  "ViewResRatioMenu = \<lparr>m_count = 6, m_width = 14, m_totl = 0, m_items =
     [(8, 2, VAResRatio), (8, 2, VBResRatio), (8, 2, VCResRatio), (8, 2, CAResRatio),
      (8, 2, CBResRatio), (8, 2, CCResRatio)]\<rparr>"

definition ViewLinearityMenu :: ssetmenu where
  "ViewLinearityMenu = \<lparr>m_count = 3, m_width = 18, m_totl = 0, m_items =
     [(10, 2, VALineCoef), (10, 2, VBLineCoef), (10, 2, VCLineCoef)]\<rparr>"

definition ViewRcdSpaceMenu :: ssetmenu where
  "ViewRcdSpaceMenu = \<lparr>m_count = 8, m_width = 16, m_totl = 0, m_items =
     [(9, 2, HarmRcdSpace), (9, 4, HrmRcdSaveType), (9, 4, FreqRcdSpace), (9, 4, FreqSaveType),
      (11, 2, VoltWarpRcdSpace), (11, 4, VoltWarpSaveType), (11, 2, ImbalanceRcdSpace),
      (11, 4, ImbalanceSaveType)]\<rparr>"

definition ViewDCValueMenu :: ssetmenu where
  "ViewDCValueMenu = \<lparr>m_count = 6, m_width = 14, m_totl = 0, m_items =
     [(11, 0, VADCValue), (11, 0, VBDCValue), (11, 0, VCDCValue), (11, 0, CADCValue),
      (11, 0, CBDCValue), (11, 0, CCDCValue)]\<rparr>"

definition ViewSetHlmtMenu :: ssetmenu where
  "ViewSetHlmtMenu = \<lparr>m_count = 8, m_width = 16, m_totl = 50, m_items =
     replicate 8 (5, 6, SetHarmLimitSub)\<rparr>"

definition ViewCapThrMenu :: ssetmenu where
  "ViewCapThrMenu = \<lparr>m_count = 7, m_width = 19, m_totl = 0, m_items =
     [(9, 6, kCapLifeThr), (10, 2, kCapW24hThr), (10, 6, kCapVolt1Thr), (10, 6, kCapVolt2Thr),
      (10, 2, kCapCurrThr), (10, 2, kCapCapThr), (10, 2, kCapPeakThr)]\<rparr>"

definition ViewraDisHmMenu :: ssetmenu where
  "ViewraDisHmMenu = \<lparr>m_count = 8, m_width = 10, m_totl = 24, m_items =
     replicate 8 (5, 0, kraDisHmSub)\<rparr>"

definition ViewraParamMenu :: ssetmenu where
  "ViewraParamMenu = \<lparr>m_count = 7, m_width = 19, m_totl = 0, m_items =
     [(8, 2, kCapGamaThr), (10, 2, kTransformerMs), (10, 2, kCapNmnlMc), (10, 2, kCapNmnlUc),
      (11, 2, kCapReactancex), (8, 16, kCapCharctHr), (10, 2, kImpedanceBeta)]\<rparr>"

definition ViewraThrMenu :: ssetmenu where
  "ViewraThrMenu = \<lparr>m_count = 8, m_width = 18, m_totl = 24, m_items =
     replicate 8 (0, 16, kRAThreshold)\<rparr>"

definition ViewTrnsfmrMenu :: ssetmenu where
  "ViewTrnsfmrMenu = \<lparr>m_count = 2, m_width = 19, m_totl = 0, m_items =
     [(10, 2, kTrnsfmrPec), (10, 2, kTrnsfmrIn)]\<rparr>"

section \<open>The menu of a page\<close>

text \<open>
  \<open>view_init\<close> sets tags by the type of the equipment (\<open>eq\<close>) before it reads them; a tag is set or
  cleared by the type alone, so that what is left from an earlier call does not matter.
\<close>

definition kEEWNet200 :: int where "kEEWNet200 = 200"

definition retag :: "nat \<Rightarrow> (int \<Rightarrow> int) \<Rightarrow> ssetmenu \<Rightarrow> ssetmenu" where
  "retag i f m = m\<lparr>m_items := (m_items m)[i := (case m_items m ! i of (x, t, c) \<Rightarrow> (x, f t, c))]\<rparr>"

definition eew_menu :: "int \<Rightarrow> ssetmenu" where
  "eew_menu eq =
     (let on = (\<lambda>t. t OR 0x10); off = (\<lambda>t. t AND 0xffee) in
      if eq = kEEWNet200 then
        retag 4 off (retag 3 on (retag 2 on (retag 1 on (retag 0 on ViewEEWMenu))))
      else
        retag 4 on (retag 3 off (retag 2 off (retag 1 off (retag 0 off ViewEEWMenu)))))"

definition menu_of :: "int \<Rightarrow> nat \<Rightarrow> ssetmenu option" where
  "menu_of eq = map_of
     [(VW_LOGIN, ViewLOGINMenu),
      (VW_S0, retag 5 (if eq < kEEWNet200 then (\<lambda>t. t OR 0x11) else (\<lambda>t. t AND 0xffee)) ViewS0Menu),
      (VW_SY0, ViewSy0Menu), (VW_AUDIT, ViewAuditMenu), (VW_SteadyPara, ViewSteadyMenu),
      (VW_LINE, ViewLineMenu), (VW_COMM, ViewCommMenu), (VW_OTHERSET, ViewOtherMenu),
      (VW_CUSTOM, ViewCustomMenu), (VW_Fluctuation, ViewFluctuationMenu),
      (VW_InterHarm, ViewInterHarmMenu), (VW_AlmEnable, ViewAlmEnableMenu), (VW_EEW, eew_menu eq),
      (VW_HIDE, ViewHideMenu), (VW_VERIFY, ViewVerifyMenu), (VW_SYSPARA, ViewSysparaMenu),
      (VW_INIT, ViewSysInitMenu), (VW_SYS_HIDE, ViewSysHideMenu), (VW_SYS_HIDE2, ViewSysHide2Menu),
      (VW_RecWavePara, ViewRecWaveMenu), (VW_ShortRMSVVR, ViewShortVVRMenu),
      (VW_ShortRMSIVR, ViewShortIVRMenu), (VW_SteadyTrigPara, ViewStdyTrgMenu),
      (VW_GpsParamSet, ViewGPSMenu), (VW_CvtModify, ViewCVTMenu), (VW_SetResRatio, ViewResRatioMenu),
      (VW_VoltLinearity, ViewLinearityMenu), (VW_RcdSpaceSaveType, ViewRcdSpaceMenu),
      (VW_SeeCharacterDCValue, ViewDCValueMenu), (VW_SetHarmLimit, ViewSetHlmtMenu),
      (VW_CvtModifyK, ViewCVTKMenu), (VW_HmCurrLimit, ViewCLimitMenu),
      (VW_raDisHarm, ViewraDisHmMenu), (VW_raThresh, ViewraThrMenu), (VW_CapThresh, ViewCapThrMenu),
      (VW_raParam, ViewraParamMenu), (VW_TrnsfmrParam, ViewTrnsfmrMenu)]"

section \<open>How an item is edited\<close>

text \<open>
  A list with so many options, or a number of so many characters, with or without a sign; the flag
  says whether the value is the one of the selected field (\<open>buf_sel_\<close>) or the first.
\<close>

datatype editing = Choose bool int | Digits bool int bool

definition plain_editing :: "(nat \<times> editing) list" where
  "plain_editing =
     map (\<lambda>c. (c, Choose False 4))
      [GpsSingleType] @
     map (\<lambda>c. (c, Choose False 2))
      [GpsPulseType, kRecWaveFormat, ConnectType, HrmRcdSaveType, FreqSaveType,
       VoltWarpSaveType, ImbalanceSaveType, SetLimitType, kInterHmGroup, kComtradeSvPath,
       kRecWaveSmplRt, kFreqEvalTm, kClockSource] @
     map (\<lambda>c. (c, Choose False 3))
      [AdSampleRate] @
     map (\<lambda>c. (c, Choose False 6))
      [FreqRcdSpace] @
     map (\<lambda>c. (c, Choose False 9))
      [VoltLvl] @
     map (\<lambda>c. (c, Choose True 2))
      [PstMdfyEnable, PstEnable, kSecurityEn, kSignalSimuEn, SaveWaveEnable, kInterHarmEna,
       kHarmAlmEna, kFreqAlmEna, kPstAlmEna, kUnblcAlmEna, kVoltDvAlmEna, kHarmRecSvEn,
       Aggregation10min, kStdyTrgrEnable, kFreqTrgrEnable, kFixFreqSmpl, kHeartbeat61850,
       kVoltDvTrgrEnable, DebugEnable, TransEnable, TransCurEnable, FluctuationEna,
       PhsAdjEnable, VorC_AdjEnable, kHarmTrgrEnable, kUnblcTrgrEnable, CurrClampEnable,
       AdjustZeroEnable, StartCurEn, TransTbEnable, CvtModifyEn, TransManualRec] @
     map (\<lambda>c. (c, Digits True 2 False))
      [ZeroInputThr] @
     map (\<lambda>c. (c, Digits True 3 False))
      [SetBTimeIntr, SetProofTimeIntr, SetMacAddr] @
     map (\<lambda>c. (c, Digits True 4 False))
      [VoltWarp, kInterHarmDb] @
     map (\<lambda>c. (c, Digits True 5 False))
      [kCapLifeThr, kCapVolt1Thr, kCapVolt2Thr, PstLimit] @
     map (\<lambda>c. (c, Digits True 6 False))
      [VorCDatum, TransCurLimit, ImbalanceLimit, FrequecyLimit, SetHarmLimitSub,
       StartCurLimit, FluctuationDb, TransTbLimit, BaudRateSet] @
     map (\<lambda>c. (c, Digits True 8 False))
      [ModifyPasswd] @
     map (\<lambda>c. (c, Digits False 2 False))
      [UnitNum, kFilterCP, kTimeDiff] @
     map (\<lambda>c. (c, Digits False 3 False))
      [ResetHysTime, TranstRcdTime, TransEndNum, kAuditLogSize, LCMDelayTime, TranstTolTime,
       HarmRcdSpace, VoltWarpRcdSpace, ImbalanceRcdSpace] @
     map (\<lambda>c. (c, Digits False 4 False))
      [kCapW24hThr] @
     map (\<lambda>c. (c, Digits False 4 True))
      [kMdfyEvnStm, kSysTimeError, VALineCoef, VBLineCoef, VCLineCoef] @
     map (\<lambda>c. (c, Digits False 5 False))
      [SocketServerPort, kCapCurrThr, kCapCapThr, kCapPeakThr, kCapGamaThr, kTrnsfmrPec,
       kCapReactancex, kImpedanceBeta, kHarmRecSvMax] @
     map (\<lambda>c. (c, Digits False 6 False))
      [kTransformerMs, kTrnsfmrIn, kCapNmnlMc, kCapNmnlUc, VAResRatio, VBResRatio,
       VCResRatio, CAResRatio, CBResRatio, CCResRatio, CvtModifyKSub] @
     map (\<lambda>c. (c, Digits False 7 False))
      [SmpVltScale] @
     map (\<lambda>c. (c, Digits False 8 False))
      [ShortCap, UserCap, SuppCap, SmpCurScale, NegativeILimit, kHarmonic10Cyc] @
     map (\<lambda>c. (c, Digits False 9 False))
      [DeviceSn] @
     map (\<lambda>c. (c, Digits False 10 False))
      [kPassword] @
     map (\<lambda>c. (c, Digits False 15 False))
      [IPAddrSet, NTPServerIP, NetMaskSet, GateWaySet] @
     []"

text \<open>
  The items whose editing depends on more: \<open>sel\<close> is the selected field, \<open>users\<close> and \<open>clamps\<close> are the
  numbers of users and of current clamps.
\<close>

definition editing_of :: "int \<Rightarrow> int \<Rightarrow> int \<Rightarrow> nat \<Rightarrow> editing option" where
  "editing_of users clamps sel ty =
     (if ty = kTimeZone then Some (Choose True (if sel = 0 then 25 else 2))
      else if ty = CurrClampType then Some (Choose False clamps)
      else if ty = kUserName then Some (Choose False users)
      else if ty = CTScale then Some (Digits True (6 - 3 * sel) False)
      else if ty = PTScale then Some (Digits True (7 - 3 * sel) False)
      else if ty = TransLimit then Some (Digits True (if sel > 0 then 4 else 5) False)
      else if ty = ModifyTime then Some (Digits True (if sel = 0 then 4 else 2) False)
      else map_of plain_editing ty)"

section \<open>What the set key does with an item\<close>

definition set_items :: "nat list" where
  "set_items =
      [SetHarmLimitSub, CvtModifyKSub, VoltWarp, ShortCap, UserCap, SuppCap, TransEnable,
       TransCurEnable, FluctuationEna, TransLimit, TransCurLimit, GpsSingleType,
       GpsPulseType, kRecWaveFormat, SetBTimeIntr, SetProofTimeIntr, StartCurEn,
       StartCurLimit, FluctuationDb, kInterHarmDb, TransTbEnable, TransTbLimit,
       TransManualRec, CvtModifyEn, TransEndNum, kAuditLogSize, ImbalanceLimit,
       NegativeILimit, kHarmonic10Cyc, FrequecyLimit, PstLimit, kCapLifeThr, kCapVolt1Thr,
       kCapVolt2Thr, kCapCurrThr, kCapCapThr, kCapPeakThr, kCapGamaThr, kTrnsfmrPec,
       kTransformerMs, kTrnsfmrIn, kCapNmnlMc, kCapNmnlUc, kCapReactancex, kImpedanceBeta,
       ZeroInputThr, PTScale, CTScale, UnitNum, kMdfyEvnStm, ResetHysTime, kFilterCP,
       kTimeDiff, LCMDelayTime, kCapW24hThr, HarmRcdSpace, VoltLvl, kUserName, FreqRcdSpace,
       kFreqEvalTm, kTimeZone, kClockSource, AdSampleRate, kComtradeSvPath, kRecWaveSmplRt,
       ConnectType, HrmRcdSaveType, FreqSaveType, VoltWarpRcdSpace, VoltWarpSaveType,
       ImbalanceRcdSpace, ImbalanceSaveType, SetLimitType, kInterHmGroup, CurrClampType,
       BaudRateSet, PhsAdjEnable, VorC_AdjEnable, kHarmTrgrEnable, kUnblcTrgrEnable,
       kStdyTrgrEnable, kFreqTrgrEnable, kFixFreqSmpl, kHeartbeat61850, kVoltDvTrgrEnable,
       DebugEnable, PstMdfyEnable, PstEnable, kSecurityEn, kSignalSimuEn, SaveWaveEnable,
       kInterHarmEna, kHarmAlmEna, kFreqAlmEna, kPstAlmEna, kUnblcAlmEna, kVoltDvAlmEna,
       kHarmRecSvEn, Aggregation10min, CurrClampEnable, AdjustZeroEnable, DeviceSn,
       SmpVltScale, SmpCurScale, kSysTimeError, VALineCoef, VBLineCoef, VCLineCoef,
       VAResRatio, VBResRatio, VCResRatio, CAResRatio, CBResRatio, CCResRatio, VorCDatum,
       SysIni, ResetDefaultPara, kHarmRecSvMax, TranstRcdTime, TranstTolTime, ModifyTime,
       SocketServerPort, IPAddrSet, NTPServerIP, NetMaskSet, GateWaySet, SetMacAddr]"

end
