(* ===== verification/Set_Edit.thy ===== *)
theory Set_Edit
  imports Prelude
begin

text \<open>
  Editing of values on the settings pages (\<open>gui/src/GUI/viewset_sub.cpp\<close>): numbers typed digit by
  digit into a buffer of characters, options of a list, storage intervals and the date.
\<close>

section \<open>Keys\<close>

abbreviation (input) KEY_0 :: int where "KEY_0 \<equiv> 48"
abbreviation (input) KEY_1 :: int where "KEY_1 \<equiv> 49"
abbreviation (input) KEY_2 :: int where "KEY_2 \<equiv> 50"
abbreviation (input) KEY_8 :: int where "KEY_8 \<equiv> 56"
abbreviation (input) KEY_ESC :: int where "KEY_ESC \<equiv> 119"
abbreviation (input) KEY_HMS :: int where "KEY_HMS \<equiv> 101"
abbreviation (input) KEY_PHS :: int where "KEY_PHS \<equiv> 114"
abbreviation (input) KEY_dot :: int where "KEY_dot \<equiv> 46"
abbreviation (input) KEY_OTH :: int where "KEY_OTH \<equiv> 47"
abbreviation (input) KEY_SET :: int where "KEY_SET \<equiv> 10"

section \<open>Numbers\<close>

text \<open>\<open>while (str[i]) { str[i] = str[i + 1]; i++; }\<close>\<close>

function close_gap :: "int \<Rightarrow> u8 list \<Rightarrow> u8 list option" where
  "close_gap i str =
     (case aget str i of None \<Rightarrow> None
      | Some c \<Rightarrow>
          if c = 0 then Some str
          else (case aget str (i + 1) of None \<Rightarrow> None
                | Some d \<Rightarrow> (case aset str i d of None \<Rightarrow> None | Some str \<Rightarrow> close_gap (i + 1) str)))"
  by pat_completeness auto
termination
  by (relation "measure (\<lambda>(i, str). nat (int (length str) - i))") (auto simp: aget_def aset_def split: if_splits)

declare close_gap.simps [simp del]

text \<open>
  The place of the cursor in the text, the text and the cursor on the screen; \<open>curw\<close> is the width of
  a character.
\<close>

definition typed :: "int \<Rightarrow> bool" where
  "typed k \<longleftrightarrow> 47 < k \<and> k < 59 \<or> k = KEY_dot"

definition edit_num :: "int \<Rightarrow> int \<Rightarrow> int \<Rightarrow> bool \<Rightarrow> int \<times> u8 list \<times> int \<Rightarrow> (int \<times> u8 list \<times> int) option" where
  "edit_num curw k limtnum sign = (\<lambda>(nst, str, cx). do {
     (nst, str, cx, k) \<leftarrow>
       (if nst < limtnum \<and> typed k then
          let k = (if sign \<and> nst = 0 \<and> k = 48 then 45 else k) in do {
            str \<leftarrow> aset str nst (word_of_int k);
            str \<leftarrow> aset str (nst + 1) 0;
            Some (nst + 1, str, cx + curw, k) }
        else Some (nst, str, cx, k));
     if k = KEY_PHS then
       (if nst \<noteq> 0 then do { str \<leftarrow> close_gap (nst - 1) str; Some (nst - 1, str, cx - curw) }
        else Some (nst, str, cx))
     else if k = KEY_OTH then do {
       c \<leftarrow> aget str nst;
       Some (if c \<noteq> 0 then (nst + 1, str, cx + curw) else (nst, str, cx)) }
     else Some (nst, str, cx) })"

section \<open>Lists\<close>

text \<open>The division by an empty list is a failure.\<close>

definition select_lst :: "int \<Rightarrow> int \<Rightarrow> int \<Rightarrow> int option" where
  "select_lst k nst limtnum =
     (if k = KEY_8 then Some (if nst > 0 then nst - 1 else limtnum - 1)
      else if k = KEY_2 then (if limtnum = 0 then None else Some ((nst + 1) smod limtnum))
      else Some nst)"

definition Freq2Indx :: "int \<Rightarrow> int \<Rightarrow> int" where
  "Freq2Indx data ty =
     (if ty \<noteq> 0 then
        (if data = 3 then 1 else if data = 10 then 2 else if data = 60 then 3 else if data = 180 then 4
         else if data = 600 then 5 else 0)
      else
        (if data = 1 then 3 else if data = 2 then 10 else if data = 3 then 60 else if data = 4 then 180
         else if data = 5 then 600 else 1))"

section \<open>Dates\<close>

text \<open>\<open>verify_time\<close>, after the fields have been read: year, month, day, hour, minute, second.\<close>

definition month_day :: "int list" where
  "month_day = [31, 28, 31, 30, 31, 30, 31, 31, 30, 31, 30, 31]"

definition verify_time :: "int \<times> int \<times> int \<times> int \<times> int \<times> int \<Rightarrow> (int \<times> int \<times> int \<times> int \<times> int \<times> int) option" where
  "verify_time = (\<lambda>(y, m, d, h, mi, s).
     let y = (if y > 2037 then 2037 else y); y = (if y < 1971 then 1971 else y);
         m = (if m > 12 then 12 else m) in
     (case aget month_day (m - 1) of None \<Rightarrow> None
      | Some n \<Rightarrow> Some (y - 1900, m - 1, if d > n then n else d, if h > 23 then 23 else h,
                         if mi > 59 then 59 else mi, if s > 59 then 59 else s)))"

section \<open>The reference: a text and a place in it\<close>

fun edit_text :: "int \<Rightarrow> int \<Rightarrow> bool \<Rightarrow> u8 list \<times> nat \<Rightarrow> u8 list \<times> nat" where
  "edit_text k limtnum sign (s, n) =
     (if typed k then
        (if int n < limtnum then (take n s @ [if sign \<and> n = 0 \<and> k = 48 then 45 else word_of_int k], Suc n) else (s, n))
      else if k = KEY_PHS then (if n \<noteq> 0 then (take (n - 1) s @ drop n s, n - 1) else (s, n))
      else if k = KEY_OTH then (s, if n < length s then Suc n else n)
      else (s, n))"

text \<open>The buffer holds the text: no character of it is the terminator that follows.\<close>

definition holds_text :: "u8 list \<Rightarrow> u8 list \<Rightarrow> bool" where
  "holds_text b s \<longleftrightarrow> 0 \<notin> set s \<and> (\<exists>r. b = s @ 0 # r)"

lemma close_gap_text:
  "c \<noteq> 0 \<Longrightarrow> 0 \<notin> set s \<Longrightarrow> close_gap (int (length a)) (a @ c # s @ 0 # r) = Some (a @ s @ 0 # 0 # r)"
proof (induction s arbitrary: a c)
  case Nil
  have "close_gap (int (length a) + 1) (a @ 0 # 0 # r) = Some (a @ 0 # 0 # r)"
    by (subst close_gap.simps) (simp add: aget_def nth_append nat_add_distrib)
  then show ?case using Nil
    by (subst close_gap.simps) (simp add: aget_def aset_def nth_append nat_add_distrib list_update_append)
next
  case (Cons d s)
  have "close_gap (int (length (a @ [d]))) ((a @ [d]) @ d # s @ 0 # r) = Some ((a @ [d]) @ s @ 0 # 0 # r)"
    using Cons.prems(2) by (intro Cons.IH) auto
  then show ?case using Cons.prems
    by (subst close_gap.simps) (simp add: aget_def aset_def nth_append nat_add_distrib list_update_append add.commute)
qed

lemma update_pair: "Suc (Suc n) \<le> length b \<Longrightarrow> b[n := x, Suc n := y] = take n b @ x # y # drop (n + 2) b"
proof -
  assume n: "Suc (Suc n) \<le> length b"
  then obtain a u v r where "b = a @ u # v # r" "length a = n"
    using id_take_nth_drop [of n b] id_take_nth_drop [of "Suc n" b]
    by (metis (no_types) Cons_nth_drop_Suc Suc_le_eq Suc_lessD append_take_drop_id length_take min.absorb2 nat_less_le)
  then show ?thesis by (simp add: list_update_append)
qed

lemma edit_step:
  assumes "holds_text b s" "n \<le> length s" "limtnum < int (length b)" "edit_text k limtnum sign (s, n) = (s', n')"
  shows "\<exists>b'. edit_num curw k limtnum sign (int n, b, cx) = Some (int n', b', cx + curw * (int n' - int n)) \<and>
    holds_text b' s' \<and> length b' = length b \<and> n' \<le> length s'"
proof -
  obtain r where b: "b = s @ 0 # r" "0 \<notin> set s" using assms(1) by (auto simp: holds_text_def)
  consider (digit) "typed k" "int n < limtnum" | (full) "typed k" "\<not> int n < limtnum"
    | (del) "\<not> typed k" "k = KEY_PHS" | (right) "\<not> typed k" "k = KEY_OTH" | (other) "\<not> typed k" "k \<noteq> KEY_PHS" "k \<noteq> KEY_OTH"
    by blast
  then show ?thesis
  proof cases
    case digit
    define c :: u8 where "c = (if sign \<and> n = 0 \<and> k = 48 then 45 else word_of_int k)"
    have k: "46 \<le> k" "k \<le> 58" "k \<noteq> KEY_OTH" using digit(1) by (auto simp: typed_def)
    then have "(word_of_int k :: u8) \<noteq> 0" by (simp add: word_of_int_eq_0_iff dvd_def) presburger
    then have c: "c \<noteq> 0" by (simp add: c_def)
    have s': "s' = take n s @ [c]" "n' = Suc n" using assms(4) digit by (simp_all add: c_def)
    have n: "Suc (Suc n) \<le> length b" using digit(2) assms(3) by linarith
    have w: "word_of_int (if sign \<and> int n = 0 \<and> k = 48 then 45 else k) = c" by (simp add: c_def)
    have kk: "(if sign \<and> int n = 0 \<and> k = 48 then 45 else k) \<noteq> KEY_PHS" "(if sign \<and> int n = 0 \<and> k = 48 then 45 else k) \<noteq> KEY_OTH"
      using k by auto
    have "edit_num curw k limtnum sign (int n, b, cx) = Some (int n + 1, b[n := c, Suc n := 0], cx + curw)"
      unfolding edit_num_def using digit n kk w by (simp add: aset_def Let_def nat_add_distrib)
    moreover have "b[n := c, Suc n := 0] = (take n s @ [c]) @ 0 # drop (n + 2) b"
      using update_pair [OF n] assms(2) by (simp add: b(1))
    moreover have "0 \<notin> set (take n s @ [c])" using b(2) c set_take_subset [of n s] by auto
    ultimately show ?thesis using s' assms(2) n
      by (intro exI [of _ "b[n := c, Suc n := 0]"]) (auto simp: holds_text_def)
  next
    case full
    then have "k \<noteq> KEY_PHS" "k \<noteq> KEY_OTH" by (auto simp: typed_def)
    then show ?thesis using full assms by (auto simp: edit_num_def)
  next
    case del
    show ?thesis
    proof (cases n)
      case 0
      then show ?thesis using del assms by (auto simp: edit_num_def)
    next
      case (Suc m)
      then obtain a c t where s: "s = a @ c # t" "length a = m"
        using assms(2) id_take_nth_drop [of m s] by (metis Suc_le_lessD length_take min.absorb2 nat_less_le)
      have "close_gap (int (length a)) (a @ c # t @ 0 # r) = Some (a @ t @ 0 # 0 # r)"
        using b(2) s by (intro close_gap_text) auto
      then have "edit_num curw k limtnum sign (int n, b, cx) = Some (int m, a @ t @ 0 # 0 # r, cx - curw)"
        using del Suc s b(1) by (simp add: edit_num_def)
      moreover have "s' = a @ t" "n' = m" using assms(4) del Suc s by auto
      ultimately show ?thesis using b s Suc by (auto simp: holds_text_def)
    qed
  next
    case right
    have "aget b (int n) = Some (if n < length s then s ! n else 0)"
      using assms(2) by (auto simp: aget_def b(1) nth_append)
    moreover have "n < length s \<Longrightarrow> s ! n \<noteq> 0" using b(2) by (metis nth_mem)
    ultimately show ?thesis using right assms by (auto simp: edit_num_def split: if_splits)
  next
    case other
    then show ?thesis using assms by (auto simp: edit_num_def)
  qed
qed

text \<open>
  C39. Whatever keys are pressed, editing a number in its buffer is editing a text with a cursor
  in it: digits overwrite from the cursor on and end the text there, the one key deletes the
  character before the cursor, the other moves over one that is there.  The buffer is never left and stays
  terminated, the text never grows over the limit of the item, and the cursor on the screen stands
  at the character it belongs to.
\<close>

theorem editing_refines:
  assumes "holds_text b s" "n \<le> length s" "limtnum < int (length b)" "int (length s) \<le> max l limtnum"
  shows "\<exists>b' s' n'. fold (\<lambda>k. edit_text k limtnum sign) ks (s, n) = (s', n') \<and>
    foldO (\<lambda>k. edit_num curw k limtnum sign) ks (int n, b, x0 + curw * int n) = Some (int n', b', x0 + curw * int n') \<and>
    holds_text b' s' \<and> length b' = length b \<and> n' \<le> length s' \<and> int (length s') \<le> max l limtnum"
  using assms
proof (induction ks arbitrary: b s n)
  case Nil
  then show ?case by simp
next
  case (Cons k ks)
  obtain s1 n1 where e: "edit_text k limtnum sign (s, n) = (s1, n1)" by fastforce
  then obtain b1 where b1: "edit_num curw k limtnum sign (int n, b, x0 + curw * int n) =
      Some (int n1, b1, x0 + curw * int n + curw * (int n1 - int n))"
    "holds_text b1 s1" "length b1 = length b" "n1 \<le> length s1"
    using edit_step [OF Cons.prems(1-3)] by blast
  have "int (length s1) \<le> max l limtnum"
    using e Cons.prems(2,4) by (auto simp: typed_def split: if_splits)
  moreover have eq: "x0 + curw * int n + curw * (int n1 - int n) = x0 + curw * int n1" by (simp add: algebra_simps)
  note step = b1(1) [unfolded eq]
  ultimately show ?case using Cons.IH [OF b1(2,4)] step b1(3) Cons.prems(3) e
    by (auto simp del: edit_text.simps)
qed

theorem editing_refines_witness:
  "\<exists>b. foldO (\<lambda>k. edit_num 9 k 4 True) [48, 53, KEY_OTH, KEY_PHS, 57, 50, 51, 52] (0, replicate 24 0, 100) = Some (4, b, 136) \<and>
     holds_text b [45, 57, 50, 51]"
proof -
  have "holds_text (replicate 24 0) []" by (auto simp: holds_text_def numeral_eq_Suc)
  from editing_refines [OF this, of 0 4 0 True "[48, 53, KEY_OTH, KEY_PHS, 57, 50, 51, 52]" 9 100] show ?thesis
    by (auto simp: typed_def)
qed

text \<open>The places of the storage intervals, and back.\<close>

lemma Freq2Indx_inverse: "0 \<le> i \<Longrightarrow> i \<le> 5 \<Longrightarrow> Freq2Indx (Freq2Indx i 0) 1 = i"
  by (simp add: Freq2Indx_def)

lemma Freq2Indx_interval: "d \<in> {1, 3, 10, 60, 180, 600} \<Longrightarrow> Freq2Indx (Freq2Indx d 1) 0 = d"
  by (auto simp: Freq2Indx_def)

lemma select_lst_range: "0 \<le> n \<Longrightarrow> n < lim \<Longrightarrow> \<exists>m. select_lst k n lim = Some m \<and> 0 \<le> m \<and> m < lim"
  by (auto simp: select_lst_def smod_nonneg)

text \<open>A date with a month is corrected; the month 0 reads in front of the table.\<close>

lemma verify_time_month:
  "1 \<le> m \<Longrightarrow> \<exists>d'. verify_time (y, m, d, h, mi, s) =
     Some (max 1971 (min 2037 y) - 1900, min 12 m - 1, d', min 23 h, min 59 mi, min 59 s) \<and> d' = min d (month_day ! nat (min 12 m - 1))"
  by (auto simp: verify_time_def aget_def month_day_def Let_def)

lemma verify_time_no_month: "verify_time (y, 0, d, h, mi, s) = None"
  by (simp add: verify_time_def aget_def Let_def)

text \<open>The 29th of February cannot be set in any year.\<close>

lemma verify_time_leap_day: "verify_time (2024, 2, 29, 12, 0, 0) = Some (124, 1, 28, 12, 0, 0)"
  by (simp add: verify_time_def aget_def month_day_def)

end
