(* ===== verification/Set_View.thy ===== *)
theory Set_View
  imports Set_Menu Set_Edit
begin

text \<open>
  The settings pages of the screen as a machine that is driven by keys
  (\<open>gui/src/GUI/viewset.cpp\<close>, \<open>viewset.h\<close>, \<open>Locked\<close> of \<open>viewset_sub.cpp\<close>): pages with menus, items that
  are edited and stored, a stack of the commands to return to, log in and its lock.  Modelled is
  what decides where the machine is and what it changes; what is written on the screen, the places of
  the lines and the flags that say which group of parameters has changed are left out.
\<close>

section \<open>State\<close>

record setview =
  curr_cmd :: nat
  cmd_stack :: "nat list"
  pcmd_stack :: int
  force_exit :: bool
  para_update :: bool
  ps_err_cnt :: int
  lock_t :: int
  key_buf :: "u8 list list"
  buf_pt :: "int list"
  buf_sel :: int
  buf_sel_sz :: int
  showcursor :: bool
  nd_rfrsh :: bool
  cursorx :: int
  cursor_left :: "int list"
  menu_num :: int
  item_totl :: int
  menu2cmd :: "nat list"
  menu_tag :: "int list"
  Item_x :: "int list"
  menu_x :: int
  curr_x :: int
  curr_sn :: int
  set_confirm_ok_cnt :: int
  ra_show_hr :: int
  trnst_valid :: bool
  num_onoff :: int
  vs_left :: int
  vs_width :: int
  vs_cn :: int
  vs_space :: int

text \<open>
  What the pages use of the parameter store, the user management and the server: \<open>data_buffer ()\<close> and
  \<open>messageq_gui ()\<close> are not part of the repository.  \<open>e_load\<close> gives the texts and the numbers an item
  starts with, \<open>e_store\<close> is what the set key writes, \<open>e_clamp_txt\<close> the two texts of the clamp ratio,
  \<open>e_refresh\<close> the call \<open>RefreshHrmlmt ()\<close> with which the list of the harmonic limits is opened.
\<close>

record 'w setenv =
  e_check :: "u8 list \<Rightarrow> 'w \<Rightarrow> int \<times> 'w"
  e_set_passwd :: "u8 list \<Rightarrow> 'w \<Rightarrow> 'w"
  e_usr_name :: "'w \<Rightarrow> string"
  e_users :: "'w \<Rightarrow> int"
  e_latest :: "'w \<Rightarrow> int"
  e_clamps :: int
  e_clamp_on :: "'w \<Rightarrow> bool"
  e_clamp_num :: "'w \<Rightarrow> int"
  e_clamp_txt :: "int \<Rightarrow> 'w \<Rightarrow> u8 list \<times> u8 list"
  e_load :: "nat \<Rightarrow> int \<Rightarrow> int \<Rightarrow> 'w \<Rightarrow> u8 list list \<times> int list"
  e_store :: "nat \<Rightarrow> setview \<Rightarrow> 'w \<Rightarrow> 'w"
  e_signal :: "int \<Rightarrow> int \<Rightarrow> 'w \<Rightarrow> 'w"
  e_show_harmonic :: "'w \<Rightarrow> int"
  e_set_show_harmonic :: "int \<Rightarrow> 'w \<Rightarrow> 'w"
  e_now :: "'w \<Rightarrow> int"
  e_clbrt :: "'w \<Rightarrow> bool"
  e_getdc :: "'w \<Rightarrow> int"
  e_onoff :: "'w \<Rightarrow> int"
  e_equip :: "'w \<Rightarrow> int"
  e_refresh :: "'w \<Rightarrow> 'w"

section \<open>The stack of commands\<close>

definition pushcmd :: "nat \<Rightarrow> setview \<Rightarrow> setview option" where
  "pushcmd c v = map_option (\<lambda>st. v\<lparr>cmd_stack := st, pcmd_stack := (if pcmd_stack v < 9 then pcmd_stack v + 1 else pcmd_stack v)\<rparr>)
     (aset (cmd_stack v) (pcmd_stack v) c)"

text \<open>\<open>curr_cmd_ = popcmd ()\<close>\<close>

definition popcmd :: "setview \<Rightarrow> setview option" where
  "popcmd v =
     (let p = (if pcmd_stack v > 0 then pcmd_stack v - 1 else pcmd_stack v)
      in map_option (\<lambda>c. v\<lparr>curr_cmd := c, pcmd_stack := p\<rparr>) (aget (cmd_stack v) p))"

section \<open>Entering and lock\<close>

definition put_text :: "int \<Rightarrow> u8 list \<Rightarrow> u8 list list \<Rightarrow> u8 list list option" where
  "put_text i s bs = do { b \<leftarrow> aget bs i; b \<leftarrow> blit b 0 (s @ [0]); aset bs i b }"

definition clear_pt :: "int list \<Rightarrow> int list option" where
  "clear_pt bp = for_loop 0 6 (\<lambda>i bp. aset bp i 0) bp"

definition item_x :: "setview \<Rightarrow> int \<Rightarrow> int" where
  "item_x v w = vs_left v + (vs_width v - w * (vs_cn v + vs_space v)) sdiv 2"

definition ini_para :: "setview \<Rightarrow> setview option" where
  "ini_para v = do {
     kb \<leftarrow> for_loop 0 6 (\<lambda>i kb. do { b \<leftarrow> aget kb i; b \<leftarrow> aset b 0 0; aset kb i b }) (key_buf v);
     bp \<leftarrow> clear_pt (buf_pt v);
     (x, t, c) \<leftarrow> aget (m_items ViewLOGINMenu) 0;
     let mx = item_x v (m_width ViewLOGINMenu); ix = mx + x * (vs_cn v + vs_space v) in do {
       xs \<leftarrow> aset (Item_x v) 0 ix;
       Some (v\<lparr>curr_cmd := VW_LOGIN, force_exit := False, para_update := False, key_buf := kb, buf_pt := bp,
               menu_x := mx, Item_x := xs, cursorx := ix, showcursor := (t AND 2 \<noteq> 0 \<or> showcursor v),
               nd_rfrsh := True, pcmd_stack := 0\<rparr>) } }"

definition Locked :: "int \<Rightarrow> setview \<Rightarrow> setview \<times> bool" where
  "Locked now v =
     (if ps_err_cnt v = 0 then
        (if now - lock_t v < 60 then (v, True) else (v\<lparr>ps_err_cnt := 5\<rparr>, False))
      else (v, False))"

section \<open>Pages\<close>

definition put_item :: "int \<Rightarrow> int \<times> int \<times> nat \<Rightarrow> setview \<Rightarrow> setview option" where
  "put_item i = (\<lambda>(x, t, c) v. do {
     cs \<leftarrow> aset (menu2cmd v) i c;
     ts \<leftarrow> aset (menu_tag v) i t;
     xs \<leftarrow> aset (Item_x v) i (menu_x v + x * (vs_cn v + vs_space v));
     Some (v\<lparr>menu2cmd := cs, menu_tag := ts, Item_x := xs\<rparr>) })"

definition view_init :: "int \<Rightarrow> nat \<Rightarrow> setview \<Rightarrow> setview option" where
  "view_init eq ty v =
     (let v = v\<lparr>menu_num := 0\<rparr> in
      case menu_of eq ty of None \<Rightarrow> Some v
      | Some m \<Rightarrow> do {
          pg \<leftarrow> aget (buf_pt v) 6;
          let n = (if m_totl m \<noteq> 0 then (if m_totl m > pg * 8 + 8 then 8 else m_totl m - pg * 8) else 0);
              n = (if n = 0 then m_count m else n)
          in for_loop 0 n (\<lambda>i v. do { it \<leftarrow> aget (m_items m) i; put_item i it v })
               (v\<lparr>item_totl := m_totl m, menu_num := n, menu_x := item_x v (m_width m)\<rparr>) })"

definition view_set :: "'w setenv \<Rightarrow> setview \<times> 'w \<Rightarrow> (setview \<times> 'w) option" where
  "view_set E = (\<lambda>(v, w).
     if curr_cmd v < VW_GUI_DILIMITER then map_option (\<lambda>v. (v, w)) (view_init (e_equip E w) (curr_cmd v) v)
     else if \<not> nd_rfrsh v then Some (v, w)
     else if curr_cmd v = ShowOcTime then Some (v\<lparr>num_onoff := e_onoff E w\<rparr>, w)
     else if curr_cmd v = ResetPassword then map_option (\<lambda>v. (v, e_signal E 5 0 w)) (popcmd v)
     else if curr_cmd v = AutoAdj then
       (if e_clbrt E w then Some (v, w) else map_option (\<lambda>v. (v\<lparr>para_update := True\<rparr>, w)) (popcmd v))
     else if curr_cmd v = GetCharacterDCValue then
       (if e_getdc E w = 1 then Some (v, w)
        else if e_getdc E w = 0 then map_option (\<lambda>v. (v\<lparr>para_update := True\<rparr>, w)) (popcmd v)
        else map_option (\<lambda>v. (v, w)) (popcmd v))
     else Some (v, w))"

section \<open>Choosing an item\<close>

text \<open>How many fields an item has, and where the cursor of the second and the next ones starts.\<close>

definition sel_size :: "int \<Rightarrow> nat \<Rightarrow> int" where
  "sel_size ui ty =
     (if ty \<in> {VoltWarp, TransCurLimit, SetProofTimeIntr, TransTbLimit, ImbalanceLimit, FrequecyLimit, kCapLifeThr,
               kCapVolt1Thr, kCapVolt2Thr, PstLimit, ZeroInputThr, PTScale, CTScale, kTimeZone, VorC_AdjEnable,
               kHarmTrgrEnable, kUnblcTrgrEnable, VorCDatum, SetMacAddr} then 2
      else if ty \<in> {TransEnable, TransCurEnable, FluctuationEna, TransLimit, StartCurEn, TransTbEnable, PhsAdjEnable,
                    ModifyPasswd} then 3
      else if ty = SetHarmLimitSub \<and> ui \<noteq> 0 then 2
      else if ty = ModifyTime then 6 else 1)"

definition enable_items :: "nat list" where
  "enable_items =
     [PstMdfyEnable, PstEnable, kSecurityEn, kSignalSimuEn, SaveWaveEnable, kInterHarmEna, kHarmAlmEna, kFreqAlmEna,
      kPstAlmEna, kUnblcAlmEna, kVoltDvAlmEna, kHarmRecSvEn, Aggregation10min, kStdyTrgrEnable, kFreqTrgrEnable,
      kFixFreqSmpl, kHeartbeat61850, kVoltDvTrgrEnable, DebugEnable, StartCurEn, TransTbEnable, TransEnable,
      TransCurEnable, FluctuationEna, PhsAdjEnable, VorC_AdjEnable, kHarmTrgrEnable, kUnblcTrgrEnable,
      CurrClampEnable, AdjustZeroEnable]"

definition field_columns :: "nat \<Rightarrow> int list" where
  "field_columns ty =
     (if ty \<in> {SetProofTimeIntr, SetMacAddr} then [4]
      else if ty = ZeroInputThr then [5]
      else if ty \<in> {PstLimit, kCapLifeThr, kCapVolt1Thr, kCapVolt2Thr, VoltWarp, VorCDatum, CTScale, TransCurLimit,
                    ImbalanceLimit, FrequecyLimit, TransTbLimit} then [7]
      else if ty = PTScale then [8]
      else if ty = SetHarmLimitSub then [9]
      else if ty = kTimeZone then [6]
      else if ty = TransLimit then [6, 11]
      else if ty = ModifyTime then [5, 8, 11, 14, 17]
      else [])"

definition place_cursors :: "nat \<Rightarrow> setview \<Rightarrow> setview option" where
  "place_cursors ty v =
     (let wd = 7 + vs_space v in do {
        cl \<leftarrow> for_loop 0 8 (\<lambda>i cl. aset cl i (cursorx v)) (cursor_left v);
        cl \<leftarrow> (if ty \<in> set enable_items then
                 for_loop 1 (buf_sel_sz v) (\<lambda>i cl. do { c \<leftarrow> aget cl (i - 1); aset cl i (c + vs_cn v + vs_space v + 2 * wd) }) cl
               else blit cl 1 (map (\<lambda>c. cursorx v + c * wd) (field_columns ty)));
        Some (v\<lparr>cursor_left := cl\<rparr>) })"

definition reserved_items :: "nat list" where
  "reserved_items = [VW_RESERVE1, VW_SYS_RSV1, VW_SYS_RSV2, VW_SYS_RSV3, VW_SYSPARA_RSV1, VW_SYSPARA_RSV2]"

definition paged :: "nat list" where
  "paged = [VW_raDisHarm, VW_raThresh, VW_SetHarmLimit, VW_CvtModifyK, VW_HmCurrLimit]"

definition put_texts :: "u8 list list \<Rightarrow> u8 list list \<Rightarrow> u8 list list option" where
  "put_texts ts bs = for_loop 0 (int (length ts)) (\<lambda>i bs. do { t \<leftarrow> aget ts i; put_text i t bs }) bs"

text \<open>A password starts with the cursor at the front of what is in the buffer.\<close>

definition loaded :: "'w setenv \<Rightarrow> nat \<Rightarrow> int \<Rightarrow> int \<Rightarrow> 'w \<Rightarrow> u8 list list \<times> int list" where
  "loaded E ty pg row w =
     (if ty = kPassword then ([], [])
      else if ty = kUserName then ([], [e_latest E w])
      else if ty = ModifyPasswd then ([[], [], []], [])
      else e_load E ty pg row w)"

text \<open>What choosing an item does outside the pages, before anything is edited.\<close>

definition on_opening :: "'w setenv \<Rightarrow> nat \<Rightarrow> 'w \<Rightarrow> 'w" where
  "on_opening E ty w =
     (if ty = VW_HmCurrLimit then e_refresh E w
      else if ty = AutoAdj then e_signal E 3 1 w
      else if ty = GetCharacterDCValue then e_signal E 4 1 w else w)"

definition load_item :: "'w setenv \<Rightarrow> nat \<Rightarrow> int \<Rightarrow> setview \<times> 'w \<Rightarrow> (setview \<times> 'w) option" where
  "load_item E ty row = (\<lambda>(v, w). do {
     pg \<leftarrow> aget (buf_pt v) 6;
     let (texts, nums) = loaded E ty pg row w in do {
       kb \<leftarrow> put_texts texts (key_buf v);
       bp \<leftarrow> blit (buf_pt v) 0 nums;
       bp \<leftarrow> (if ty \<in> set paged then aset bp 6 0 else Some bp);
       let x = (if ty = ModifyPasswd then menu_x v + (vs_cn v + vs_space v) * 2 + (vs_cn v + vs_space v) * 6 else cursorx v) in
       Some (v\<lparr>key_buf := kb, buf_pt := bp, buf_sel_sz := sel_size (pg * 8 + row - 1) ty,
               showcursor := (ty \<noteq> SetProofTimeIntr \<and> showcursor v),
               set_confirm_ok_cnt := (if ty \<in> {TranstRcdTime, TranstTolTime, kHarmRecSvMax} then 0 else set_confirm_ok_cnt v),
               cursorx := x, curr_x := (if ty = ModifyPasswd then x else curr_x v),
               ra_show_hr := (if ty = VW_EEW then e_show_harmonic E w else ra_show_hr v)\<rparr>,
             on_opening E ty w) } })"

definition view_sxxini_key :: "'w setenv \<Rightarrow> nat \<Rightarrow> int \<Rightarrow> setview \<times> 'w \<Rightarrow> (setview \<times> 'w) option" where
  "view_sxxini_key E ty k = (\<lambda>(v, w).
     let row = k - KEY_0 in do {
       bp \<leftarrow> clear_pt (buf_pt v);
       pg \<leftarrow> aget bp 6;
       let v = v\<lparr>buf_sel := 0, buf_pt := bp, buf_sel_sz := 1\<rparr> in
       if ty = kraDisHmSub then Some (v\<lparr>ra_show_hr := ra_show_hr v XOR push_bit (nat (pg * 8 + row - 1)) 1\<rparr>, w)
       else if ty \<in> set reserved_items \<or> ty \<in> {VW_RecWavePara, TranstRcdTime, TranstTolTime} \<and> \<not> trnst_valid v then Some (v, w)
       else do {
         (v, w) \<leftarrow> load_item E ty row (v, w);
         v \<leftarrow> pushcmd (curr_cmd v) v;
         v \<leftarrow> place_cursors ty (v\<lparr>curr_cmd := ty\<rparr>);
         Some (v, w) } })"

section \<open>Keys on an item\<close>

definition text_at :: "u8 list list \<Rightarrow> int \<Rightarrow> u8 list option" where
  "text_at bs i = map_option (takeWhile (\<lambda>c. c \<noteq> 0)) (aget bs i)"

definition check_login :: "'w setenv \<Rightarrow> setview \<times> 'w \<Rightarrow> (setview \<times> 'w) option" where
  "check_login E = (\<lambda>(v, w).
     case text_at (key_buf v) 0 of None \<Rightarrow> None
     | Some p \<Rightarrow>
         (case e_check E p w of (r, w) \<Rightarrow>
            if r = 0 then
              Some (v\<lparr>ps_err_cnt := 5, para_update := True, showcursor := False, nd_rfrsh := True,
                      curr_cmd := (if e_usr_name E w = ''admin'' then VW_SY0
                                   else if e_usr_name E w = ''auditor'' then VW_AUDIT else VW_S0)\<rparr>, w)
            else
              Some (v\<lparr>ps_err_cnt := ps_err_cnt v - 1, para_update := True, force_exit := True,
                      lock_t := (if ps_err_cnt v - 1 \<le> 0 then e_now E w else lock_t v)\<rparr>, w)))"

definition change_passwd :: "'w setenv \<Rightarrow> setview \<times> 'w \<Rightarrow> (setview \<times> 'w) option" where
  "change_passwd E = (\<lambda>(v, w). do {
     p \<leftarrow> text_at (key_buf v) 0; p1 \<leftarrow> text_at (key_buf v) 1; p2 \<leftarrow> text_at (key_buf v) 2;
     case e_check E p w of (r, w) \<Rightarrow>
       Some (if r = 0 then
               (if p1 = p2 then (if length p1 < 6 then (v, w) else (v, e_set_passwd E p1 w))
                else (v\<lparr>para_update := False\<rparr>, w))
             else (v\<lparr>para_update := False\<rparr>, w)) })"

definition confirm_items :: "nat list" where
  "confirm_items = [kHarmRecSvMax, TranstRcdTime, TranstTolTime]"

definition set_item :: "'w setenv \<Rightarrow> nat \<Rightarrow> setview \<times> 'w \<Rightarrow> (setview \<times> 'w) option" where
  "set_item E ty = (\<lambda>(v, w).
     let v = v\<lparr>para_update := True\<rparr> in
     if ty = kPassword then check_login E (v, w)
     else if ty = ModifyPasswd then do {
       (v, w) \<leftarrow> change_passwd E (v, w);
       v \<leftarrow> popcmd (v\<lparr>showcursor := False\<rparr>);
       Some (v, w) }
     else if ty \<in> set confirm_items then
       (let v = v\<lparr>set_confirm_ok_cnt := set_confirm_ok_cnt v + 1, showcursor := False\<rparr> in
        if set_confirm_ok_cnt v < 2 then Some (v, w)
        else map_option (\<lambda>v'. (v', e_store E ty v w)) (popcmd v))
     else if ty = kUserName then map_option (\<lambda>v. (v, w)) (popcmd (v\<lparr>para_update := False, showcursor := False\<rparr>))
     else if ty \<in> set set_items then
       map_option (\<lambda>v'. (v', e_store E ty v w)) (popcmd (v\<lparr>showcursor := False\<rparr>))
     else Some (v, w))"

definition edit_item :: "'w setenv \<Rightarrow> nat \<Rightarrow> int \<Rightarrow> setview \<times> 'w \<Rightarrow> (setview \<times> 'w) option" where
  "edit_item E ty k = (\<lambda>(v, w).
     let cell = (\<lambda>b. if b then buf_sel v else 0) in
     if ty = CTScale \<and> e_clamp_on E w \<and> buf_sel v \<noteq> 0 then do {
       pt \<leftarrow> aget (buf_pt v) (buf_sel v);
       pt \<leftarrow> select_lst k pt (e_clamp_num E w);
       bp \<leftarrow> aset (buf_pt v) (buf_sel v) pt;
       kb \<leftarrow> put_text (buf_sel v) (fst (e_clamp_txt E pt w)) (key_buf v);
       kb \<leftarrow> put_text 0 (snd (e_clamp_txt E pt w)) kb;
       Some (v\<lparr>buf_pt := bp, key_buf := kb\<rparr>, w) }
     else case editing_of (e_users E w) (e_clamps E) (buf_sel v) ty of
       None \<Rightarrow> Some (v\<lparr>nd_rfrsh := False\<rparr>, w)
     | Some (Choose b n) \<Rightarrow> do {
         pt \<leftarrow> aget (buf_pt v) (cell b);
         pt \<leftarrow> select_lst k pt n;
         bp \<leftarrow> aset (buf_pt v) (cell b) pt;
         Some (v\<lparr>buf_pt := bp\<rparr>, w) }
     | Some (Digits b n sg) \<Rightarrow> do {
         pt \<leftarrow> aget (buf_pt v) (cell b);
         str \<leftarrow> aget (key_buf v) (cell b);
         (pt, str, cx) \<leftarrow> edit_num (7 + vs_space v) k n sg (pt, str, cursorx v);
         bp \<leftarrow> aset (buf_pt v) (cell b) pt;
         kb \<leftarrow> aset (key_buf v) (cell b) str;
         Some (v\<lparr>buf_pt := bp, key_buf := kb, cursorx := cx\<rparr>, w) })"

definition next_field :: "setview \<Rightarrow> setview option" where
  "next_field v = do {
     t \<leftarrow> aget (menu_tag v) (curr_sn v);
     if t AND 4 \<noteq> 0 then do {
       cl \<leftarrow> aset (cursor_left v) (buf_sel v) (cursorx v);
       let s = (buf_sel v + 1) smod buf_sel_sz v in do {
         x \<leftarrow> aget cl s;
         Some (v\<lparr>cursor_left := cl, buf_sel := s, cursorx := x\<rparr>) } }
     else Some (v\<lparr>nd_rfrsh := False\<rparr>) }"

definition turn_page :: "int \<Rightarrow> setview \<Rightarrow> setview option" where
  "turn_page k v = do {
     pg \<leftarrow> aget (buf_pt v) 0;
     bp \<leftarrow> aset (buf_pt v) 0 (if k = KEY_PHS then (if pg > 0 then pg - 1 else pg)
                                else if pg * 8 + 8 < num_onoff v then pg + 1 else pg);
     Some (v\<lparr>buf_pt := bp\<rparr>) }"

text \<open>Any other key than the set key cancels an item that waits to be confirmed.\<close>

definition cancelled :: "nat \<Rightarrow> int \<Rightarrow> setview \<Rightarrow> bool" where
  "cancelled ty k v \<longleftrightarrow> k \<noteq> KEY_SET \<and>
     (ty \<in> {TranstRcdTime, TranstTolTime, kHarmRecSvMax} \<and> set_confirm_ok_cnt v = 1 \<or>
      ty \<in> {SysIni, ResetDefaultPara} \<and> set_confirm_ok_cnt v = 0)"

definition view_sxx_key :: "'w setenv \<Rightarrow> nat \<Rightarrow> int \<Rightarrow> setview \<times> 'w \<Rightarrow> (setview \<times> 'w) option" where
  "view_sxx_key E ty k = (\<lambda>(v, w).
     let v = v\<lparr>nd_rfrsh := True\<rparr>; k = (if cancelled ty k v then KEY_ESC else k) in
     if k = KEY_SET then set_item E ty (v, w)
     else if k = KEY_ESC then
       map_option (\<lambda>v. (v\<lparr>showcursor := False\<rparr>,
           if ty = AutoAdj then e_signal E 3 0 w else if ty = GetCharacterDCValue then e_signal E 4 0 w else w)) (popcmd v)
     else if k = KEY_HMS then map_option (\<lambda>v. (v, w)) (next_field v)
     else if k \<in> {KEY_PHS, KEY_OTH} \<and> ty = ShowOcTime then map_option (\<lambda>v. (v, w)) (turn_page k v)
     else edit_item E ty k (v, w))"

section \<open>Keys\<close>

definition flip_page :: "int \<Rightarrow> setview \<Rightarrow> setview option" where
  "flip_page k v =
     (if curr_cmd v \<notin> set paged then Some v
      else do {
        pg \<leftarrow> aget (buf_pt v) 6;
        bp \<leftarrow> aset (buf_pt v) 6 (if k = KEY_PHS then (if pg > 0 then pg - 1 else pg)
                                   else if pg * 8 + 8 < item_totl v then pg + 1 else pg);
        Some (v\<lparr>buf_pt := bp\<rparr>) })"

definition choose_item :: "'w setenv \<Rightarrow> int \<Rightarrow> setview \<times> 'w \<Rightarrow> (setview \<times> 'w) option" where
  "choose_item E k = (\<lambda>(v, w).
     let i = k - KEY_1 in do {
       t \<leftarrow> aget (menu_tag v) i;
       if t AND 0x10 \<noteq> 0 then Some (v, w)
       else do {
         x \<leftarrow> aget (Item_x v) i;
         c \<leftarrow> aget (menu2cmd v) i;
         (v, w) \<leftarrow> view_sxxini_key E c k (v\<lparr>curr_sn := i, curr_x := x, cursorx := x\<rparr>, w);
         t \<leftarrow> aget (menu_tag v) i;
         Some (if t AND 2 \<noteq> 0 then v\<lparr>showcursor := True\<rparr> else v, w) } })"

definition hide_cursor :: "int \<Rightarrow> setview \<Rightarrow> setview" where
  "hide_cursor retb v = (if retb \<noteq> 0 then v\<lparr>showcursor := False\<rparr> else v)"

definition page_key :: "'w setenv \<Rightarrow> int \<Rightarrow> setview \<times> 'w \<Rightarrow> ((setview \<times> 'w) \<times> int) option" where
  "page_key E k = (\<lambda>(v, w).
     if k = KEY_ESC then
       (if curr_cmd v \<in> {VW_S0, VW_SY0, VW_AUDIT} then Some ((v, w), 1)
        else if curr_cmd v = VW_LOGIN then Some ((v, w), 2)
        else map_option (\<lambda>v'. ((v', if curr_cmd v = VW_raDisHarm then e_set_show_harmonic E (ra_show_hr v) w else w), 0)) (popcmd v))
     else if k \<in> {KEY_PHS, KEY_OTH} then map_option (\<lambda>v. ((v, w), 0)) (flip_page k v)
     else if k > KEY_0 \<and> k - KEY_0 \<le> menu_num v then map_option (\<lambda>s. (s, 0)) (choose_item E k (v, w))
     else Some ((v, w), 0))"

definition view_set_key :: "'w setenv \<Rightarrow> int \<Rightarrow> setview \<times> 'w \<Rightarrow> ((setview \<times> 'w) \<times> int) option" where
  "view_set_key E k = (\<lambda>(v, w).
     if curr_cmd v < VW_GUI_DILIMITER then
       map_option (\<lambda>((v, w), r). ((hide_cursor r v, w), r)) (page_key E k (v, w))
     else
       map_option (\<lambda>(v, w). let r = (if force_exit v then 3 else 0) in ((hide_cursor r v, w), r))
         (view_sxx_key E (curr_cmd v) k (v, w)))"

text \<open>
  \<open>return_from_set\<close>, and what \<open>ViewPqm::HandleMsg\<close> (\<open>view_pqm.cpp\<close>) does with a key on the settings pages: the key,
  then the display of the page.
\<close>

definition return_from_set :: "'w setenv \<Rightarrow> int \<Rightarrow> setview \<times> 'w \<Rightarrow> ((setview \<times> 'w) \<times> int) option" where
  "return_from_set E k = (\<lambda>(v, w).
     case aget (cmd_stack v) 0 of None \<Rightarrow> None | Some c \<Rightarrow> view_set_key E k (v\<lparr>curr_cmd := c\<rparr>, w))"

definition press :: "'w setenv \<Rightarrow> int \<Rightarrow> setview \<times> 'w \<Rightarrow> ((setview \<times> 'w) \<times> int) option" where
  "press E k s = do {
     (s, r) \<leftarrow> view_set_key E k s;
     if r \<noteq> 0 then Some (s, r) else map_option (\<lambda>s. (s, r)) (view_set E s) }"

text \<open>
  The set key on the main view (\<open>ViewPqm::view_main_key\<close>): nothing while the pages are locked, else
  they are entered and shown.  The keys that follow go to the pages until one leaves them.
\<close>

definition enter :: "'w setenv \<Rightarrow> setview \<times> 'w \<Rightarrow> ((setview \<times> 'w) \<times> bool) option" where
  "enter E = (\<lambda>(v, w).
     case Locked (e_now E w) v of
       (v, True) \<Rightarrow> Some ((v, w), False)
     | (v, False) \<Rightarrow> do { v \<leftarrow> ini_para v; s \<leftarrow> view_set E (v, w); Some (s, True) })"

fun presses :: "'w setenv \<Rightarrow> int list \<Rightarrow> setview \<times> 'w \<Rightarrow> ((setview \<times> 'w) \<times> int) option" where
  "presses E [] s = Some (s, 0)"
| "presses E (k # ks) s = do { (s, r) \<leftarrow> press E k s; if r \<noteq> 0 then Some (s, r) else presses E ks s }"

end
