(* ===== verification/Set_Login.thy ===== *)
theory Set_Login
  imports Set_View
begin

text \<open>
  Logging in to the settings pages: nothing but the log in page is reached and nothing is stored
  before a password has been accepted, the number of guesses is bounded, and only the set key stores.
\<close>

section \<open>Well-formed pages\<close>

definition shaped :: "setview \<Rightarrow> bool" where
  "shaped v \<longleftrightarrow> length (cmd_stack v) = 10 \<and> length (key_buf v) = 6 \<and> (\<forall>b \<in> set (key_buf v). length b = 24) \<and>
     length (buf_pt v) = 8 \<and> length (cursor_left v) = 8 \<and> length (menu2cmd v) = 10 \<and>
     length (menu_tag v) = 10 \<and> length (Item_x v) = 10"

text \<open>The machine is on the log in page or on one of its two items.\<close>

definition at_login :: "setview \<Rightarrow> bool" where
  "at_login v \<longleftrightarrow> shaped v \<and> menu_num v = 2 \<and> take 2 (menu2cmd v) = [kUserName, kPassword] \<and> take 2 (menu_tag v) = [0, 2] \<and>
     (\<exists>s. holds_text (key_buf v ! 0) s \<and>
        (curr_cmd v = VW_LOGIN \<and> pcmd_stack v = 0 \<or>
         curr_cmd v \<in> {kUserName, kPassword} \<and> pcmd_stack v = 1 \<and> cmd_stack v ! 0 = VW_LOGIN \<and> curr_sn v \<in> {0, 1} \<and>
           (curr_cmd v = kPassword \<longrightarrow> 0 \<le> buf_pt v ! 0 \<and> buf_pt v ! 0 \<le> int (length s))))"

lemma two_first: "take 2 xs = [a, b] \<longleftrightarrow> (\<exists>r. xs = a # b # r)"
  by (cases xs; cases "tl xs") auto

lemma login_menu: "menu_of eq VW_LOGIN = Some ViewLOGINMenu"
  by (simp add: menu_of_def)

lemma view_init_login:
  assumes "shaped v"
  shows "view_init eq VW_LOGIN v = Some (v\<lparr>menu_num := 2, item_totl := 0, menu_x := item_x v 14,
     menu2cmd := kUserName # kPassword # drop 2 (menu2cmd v), menu_tag := 0 # 2 # drop 2 (menu_tag v),
     Item_x := (item_x v 14 + 8 * (vs_cn v + vs_space v)) # (item_x v 14 + 8 * (vs_cn v + vs_space v)) # drop 2 (Item_x v)\<rparr>)"
proof -
  obtain a b c d e f r s t where "menu2cmd v = a # b # r" "menu_tag v = c # d # s" "Item_x v = e # f # t"
    using assms by (auto simp: shaped_def numeral_eq_Suc length_Suc_conv)
  then show ?thesis using assms
    by (simp add: view_init_def login_menu ViewLOGINMenu_def for_loop_step for_loop_empty put_item_def mem_simps shaped_def
        numeral_2_eq_2 item_x_def)
qed

text \<open>What a key on the log in page does to the count of the wrong passwords; \<open>P\<close> holds of the world.\<close>

definition tallied :: "('w \<Rightarrow> int) \<Rightarrow> ('w \<Rightarrow> bool) \<Rightarrow> int \<Rightarrow> setview \<Rightarrow> setview \<Rightarrow> bool" where
  "tallied now P r v v' \<longleftrightarrow>
     (if r = 3 then ps_err_cnt v' = ps_err_cnt v - 1 \<and>
        (if ps_err_cnt v' \<le> 0 then \<exists>w. P w \<and> lock_t v' = now w else lock_t v' = lock_t v)
      else ps_err_cnt v' = ps_err_cnt v \<and> lock_t v' = lock_t v)"

lemma ini_para_login:
  assumes "shaped v"
  shows "\<exists>v'. ini_para v = Some v' \<and> shaped v' \<and> curr_cmd v' = VW_LOGIN \<and> pcmd_stack v' = 0 \<and> holds_text (key_buf v' ! 0) [] \<and>
    \<not> force_exit v' \<and> ps_err_cnt v' = ps_err_cnt v \<and> lock_t v' = lock_t v"
proof -
  define I where "I = (\<lambda>kb :: u8 list list. length kb = 6 \<and> (\<forall>b \<in> set kb. length b = 24))"
  have kb: "\<exists>kb. for_loop 0 6 (\<lambda>i kb. do { b \<leftarrow> aget kb i; b \<leftarrow> aset b 0 0; aset kb i b }) (key_buf v) = Some kb \<and>
      I kb \<and> holds_text (kb ! 0) []"
  proof -
    obtain b0 rest where b: "key_buf v = b0 # rest" "length b0 = 24" "length rest = 5" "\<forall>b \<in> set rest. length b = 24"
      using assms by (cases "key_buf v") (auto simp: shaped_def)
    let ?f = "\<lambda>i kb. do { b \<leftarrow> aget kb i; b \<leftarrow> aset b 0 0; aset kb i (b :: u8 list) }"
    have "\<exists>kb. for_loop 1 6 ?f (b0[0 := 0] # rest) = Some kb \<and> (I kb \<and> kb ! 0 = b0[0 := 0])"
    proof (rule for_loop_total)
      show "I (b0[0 := 0] # rest) \<and> (b0[0 := 0] # rest) ! 0 = b0[0 := 0]" using b by (simp add: I_def)
    next
      fix i :: int and kb :: "u8 list list" assume i: "1 \<le> i" "i < 6" and kb: "I kb \<and> kb ! 0 = b0[0 := 0]"
      have "kb ! nat i \<in> set kb" using i kb by (auto simp: I_def)
      then have "length (kb ! nat i) = 24" using kb by (auto simp: I_def)
      then show "\<exists>t. ?f i kb = Some t \<and> (I t \<and> t ! 0 = b0[0 := 0])"
        using i kb by (auto simp: I_def mem_simps nth_list_update dest!: subsetD [OF set_update_subset_insert])
    qed
    moreover have "for_loop 0 6 ?f (key_buf v) = for_loop 1 6 ?f (b0[0 := 0] # rest)"
      using b by (simp add: for_loop_step [of 0] mem_simps)
    moreover have "holds_text (b0[0 := 0]) []" using b(2) by (cases b0) (auto simp: holds_text_def)
    ultimately show ?thesis by metis
  qed
  have bp: "\<exists>bp. clear_pt (buf_pt v) = Some bp \<and> length bp = 8"
    unfolding clear_pt_def by (rule for_loop_total) (use assms in \<open>auto simp: shaped_def mem_simps\<close>)
  show ?thesis using kb bp assms
    by (auto simp: ini_para_def ViewLOGINMenu_def mem_simps shaped_def Let_def I_def)
qed

lemma clear_pt_total: "length bp = 8 \<Longrightarrow> \<exists>bp'. clear_pt bp = Some bp' \<and> length bp' = 8 \<and> bp' ! 0 = 0 \<and> bp' ! 6 = bp ! 6"
  by (simp add: clear_pt_def for_loop_step for_loop_empty mem_simps)

lemma place_cursors_login:
  assumes "shaped v" "ty \<in> {kUserName, kPassword}"
  shows "\<exists>cl. place_cursors ty v = Some (v\<lparr>cursor_left := cl\<rparr>) \<and> length cl = 8"
proof -
  have "\<exists>cl. for_loop 0 8 (\<lambda>i cl. aset cl i (cursorx v)) (cursor_left v) = Some cl \<and> length cl = 8"
    by (rule for_loop_total) (use assms in \<open>auto simp: shaped_def mem_simps\<close>)
  moreover have "ty \<notin> set enable_items" "field_columns ty = []"
    using assms(2) by (auto simp: enable_items_def field_columns_def)
  ultimately show ?thesis by (auto simp: place_cursors_def mem_simps)
qed

lemma login_shown:
  assumes "shaped v" "curr_cmd v = VW_LOGIN" "pcmd_stack v = 0" "holds_text (key_buf v ! 0) s" "\<not> force_exit v"
  shows "\<exists>v'. view_set E (v, w) = Some (v', w) \<and> at_login v' \<and> \<not> force_exit v' \<and> ps_err_cnt v' = ps_err_cnt v \<and> lock_t v' = lock_t v"
proof -
  let ?v = "v\<lparr>menu_num := 2, item_totl := 0, menu_x := item_x v 14,
     menu2cmd := kUserName # kPassword # drop 2 (menu2cmd v), menu_tag := 0 # 2 # drop 2 (menu_tag v),
     Item_x := (item_x v 14 + 8 * (vs_cn v + vs_space v)) # (item_x v 14 + 8 * (vs_cn v + vs_space v)) # drop 2 (Item_x v)\<rparr>"
  have "view_set E (v, w) = Some (?v, w)" using assms(2) by (simp add: view_set_def view_init_login [OF assms(1)])
  moreover have "shaped ?v" using assms(1) by (simp add: shaped_def)
  then have "at_login ?v" using assms(2-4) by (auto simp: at_login_def simp del: One_nat_def)
  ultimately show ?thesis using assms(5) by (intro exI [of _ ?v]) simp
qed

lemma item_shown:
  assumes "curr_cmd v \<in> {kUserName, kPassword}"
  shows "view_set E (v, w) = Some (v, w)"
proof -
  have "view_set E (v, w) = Some (v, w)" if "curr_cmd v = c" "c \<in> {kUserName, kPassword}" for c
    unfolding view_set_def prod.case that(1) using that(2) by (elim insertE) simp_all
  then show ?thesis using assms by blast
qed

lemma item_chosen:
  assumes "at_login v" "curr_cmd v = VW_LOGIN" "k \<in> {49, 50}" "\<not> force_exit v"
  shows "\<exists>v'. choose_item E k (v, w) = Some (v', w) \<and> at_login v' \<and> curr_cmd v' \<in> {kUserName, kPassword} \<and>
    \<not> force_exit v' \<and> ps_err_cnt v' = ps_err_cnt v \<and> lock_t v' = lock_t v"
proof -
  define c where "c = (if k = 49 then kUserName else kPassword)"
  have sh: "shaped v" and tags: "menu_tag v ! 0 = 0" "menu_tag v ! 1 = 2" and cmds: "menu2cmd v ! nat (k - 49) = c"
    and n: "0 \<le> k - 49" "k - 49 < 2"
    using assms(1,3) by (auto simp: at_login_def two_first c_def)
  obtain s where s: "holds_text (key_buf v ! 0) s" "pcmd_stack v = 0" using assms(1,2) by (auto simp: at_login_def)
  have tag: "menu_tag v ! nat (k - 49) \<in> {0, 2}" using tags assms(3) by auto
  define v1 where "v1 = v\<lparr>curr_sn := k - 49, curr_x := Item_x v ! nat (k - 49), cursorx := Item_x v ! nat (k - 49)\<rparr>"
  obtain bp where bp: "clear_pt (buf_pt v) = Some bp" "length bp = 8" "bp ! 0 = 0" "bp ! 6 = buf_pt v ! 6"
    using clear_pt_total sh by (metis shaped_def)
  have c: "c \<in> {kUserName, kPassword}" by (simp add: c_def)
  have "\<forall>v2. shaped v2 \<longrightarrow> (\<exists>cl. place_cursors c v2 = Some (v2\<lparr>cursor_left := cl\<rparr>) \<and> length cl = 8)"
    using place_cursors_login c by blast
  then obtain f where f: "shaped v2 \<Longrightarrow> place_cursors c v2 = Some (v2\<lparr>cursor_left := f v2\<rparr>) \<and> length (f v2) = 8" for v2
    by metis
  have bp': "\<exists>bp'. blit bp 0 (snd (loaded E c (bp ! 6) (k - 48) w)) = Some bp' \<and> length bp' = 8 \<and> (c = kPassword \<longrightarrow> bp' ! 0 = 0)"
    using c bp by (auto simp: loaded_def mem_simps)
  then obtain bp' where bp': "blit bp 0 (snd (loaded E c (bp ! 6) (k - 48) w)) = Some bp'" "length bp' = 8" "c = kPassword \<longrightarrow> bp' ! 0 = 0"
    by blast
  have l: "fst (loaded E c (bp ! 6) (k - 48) w) = []" using c by (auto simp: loaded_def)
  define v3 where "v3 = v1\<lparr>buf_sel := 0, buf_pt := bp', buf_sel_sz := 1, key_buf := key_buf v,
      showcursor := showcursor v1, set_confirm_ok_cnt := set_confirm_ok_cnt v1, cursorx := cursorx v1,
      curr_x := curr_x v1, ra_show_hr := ra_show_hr v1\<rparr>"
  have not: "c \<notin> set paged" "c \<noteq> ModifyPasswd" "c \<noteq> SetProofTimeIntr" "c \<noteq> TranstRcdTime" "c \<noteq> TranstTolTime" "c \<noteq> kHarmRecSvMax"
    "c \<noteq> VW_EEW" "c \<noteq> VW_HmCurrLimit" "c \<noteq> AutoAdj" "c \<noteq> GetCharacterDCValue" "\<And>ui. sel_size ui c = 1"
    using c by (auto simp: paged_def sel_size_def)
  have v3l: "load_item E c (k - 48) (v1\<lparr>buf_sel := 0, buf_pt := bp, buf_sel_sz := 1\<rparr>, w) = Some (v3, w)"
    using bp(2) bp'(1) l
    by (simp add: load_item_def on_opening_def split_beta Let_def put_texts_def for_loop_empty not aget_Some v3_def v1_def)
  have v3: "buf_pt v3 = bp'" "key_buf v3 = key_buf v" "menu_num v3 = menu_num v" "menu2cmd v3 = menu2cmd v"
    "menu_tag v3 = menu_tag v" "curr_cmd v3 = curr_cmd v" "pcmd_stack v3 = pcmd_stack v" "curr_sn v3 = k - 49"
    "force_exit v3 = force_exit v" "ps_err_cnt v3 = ps_err_cnt v" "lock_t v3 = lock_t v"
    by (simp_all add: v3_def v1_def)
  have sh3: "shaped v3" using sh bp'(2) by (simp add: v3_def v1_def shaped_def)
  define v4 where "v4 = v3\<lparr>cmd_stack := (cmd_stack v3)[0 := VW_LOGIN], pcmd_stack := 1, curr_cmd := c\<rparr>"
  have sh4: "shaped v4" using sh3 by (simp add: v4_def shaped_def)
  have ini: "view_sxxini_key E c k (v1, w) = Some (v4\<lparr>cursor_left := f v4\<rparr>, w)"
    using c bp(1,2) v3l v3 sh3 f [OF sh4] s(2) assms(2)
    by (auto simp: view_sxxini_key_def aget_Some reserved_items_def v1_def pushcmd_def aset_def shaped_def v4_def)
  define v5 where "v5 = (if k = 49 then v4\<lparr>cursor_left := f v4\<rparr> else v4\<lparr>cursor_left := f v4, showcursor := True\<rparr>)"
  have len: "length (menu_tag v) = 10" "length (Item_x v) = 10" "length (menu2cmd v) = 10" using sh by (simp_all add: shaped_def)
  have t: "menu_tag v ! nat (k - 49) = (if k = 49 then 0 else 2)" using tags assms(3) by auto
  have "choose_item E k (v, w) = do { (v, w) \<leftarrow> view_sxxini_key E c k (v1, w); t \<leftarrow> aget (menu_tag v) (k - 49);
      Some (if t AND 2 \<noteq> 0 then v\<lparr>showcursor := True\<rparr> else v, w) }"
    using n cmds by (cases "k = 49") (simp_all add: choose_item_def aget_Some len t tags(1) Let_def v1_def)
  also have "\<dots> = Some (v5, w)" unfolding ini using n by (simp add: v4_def v5_def v3 aget_Some len t)
  finally have "choose_item E k (v, w) = Some (v5, w)" .
  moreover have "shaped v5" using sh4 f [OF sh4] by (simp add: v5_def shaped_def)
  moreover have v5: "key_buf v5 = key_buf v" "menu_num v5 = menu_num v" "menu2cmd v5 = menu2cmd v" "menu_tag v5 = menu_tag v"
      "curr_cmd v5 = c" "pcmd_stack v5 = 1" "curr_sn v5 = k - 49" "buf_pt v5 = bp'"
      "force_exit v5 = force_exit v" "ps_err_cnt v5 = ps_err_cnt v" "lock_t v5 = lock_t v"
    by (simp_all add: v5_def v4_def v3)
  moreover have "cmd_stack v5 ! 0 = VW_LOGIN" using sh3 by (simp add: v5_def v4_def shaped_def)
  moreover have "c = kPassword \<longrightarrow> 0 \<le> buf_pt v5 ! 0 \<and> buf_pt v5 ! 0 \<le> int (length s)" using bp'(3) v5(8) by simp
  moreover have "k - 49 \<in> {0, 1}" using assms(3) by auto
  ultimately have "at_login v5"
    using assms(1) s(1) c unfolding at_login_def by metis
  then show ?thesis using \<open>choose_item E k (v, w) = Some (v5, w)\<close> v5 c assms(4) by auto
qed

lemma popped:
  assumes "at_login v" "curr_cmd v \<in> {kUserName, kPassword}"
  shows "popcmd v = Some (v\<lparr>curr_cmd := VW_LOGIN, pcmd_stack := 0\<rparr>)"
  using assms by (auto simp: at_login_def popcmd_def aget_def shaped_def)

text \<open>No password is accepted in the worlds of \<open>P\<close>, and checking one stays in them; there is a user.\<close>

definition refuses :: "'w setenv \<Rightarrow> ('w \<Rightarrow> bool) \<Rightarrow> bool" where
  "refuses E P \<longleftrightarrow> (\<forall>w. P w \<longrightarrow> e_users E w \<noteq> 0 \<and> (\<forall>p. fst (e_check E p w) \<noteq> 0 \<and> P (snd (e_check E p w))))"

lemma smod_zero_total: "n \<noteq> 0 \<Longrightarrow> \<exists>m. select_lst k x n = Some m"
  by (simp add: select_lst_def)

lemma user_edited:
  assumes "at_login v" "curr_cmd v = kUserName" "e_users E w \<noteq> 0"
  shows "\<exists>v'. edit_item E kUserName k (v, w) = Some (v', w) \<and> at_login v' \<and> force_exit v' = force_exit v \<and>
    ps_err_cnt v' = ps_err_cnt v \<and> lock_t v' = lock_t v"
proof -
  have b: "length (buf_pt v) = 8" using assms(1) by (simp add: at_login_def shaped_def)
  obtain m where m: "select_lst k (buf_pt v ! 0) (e_users E w) = Some m" using smod_zero_total [OF assms(3)] by blast
  have "edit_item E kUserName k (v, w) = Some (v\<lparr>buf_pt := (buf_pt v)[0 := m]\<rparr>, w)"
    using b m by (simp add: edit_item_def editing_of_def aget_Some aset_Some)
  moreover have "at_login (v\<lparr>buf_pt := (buf_pt v)[0 := m]\<rparr>)"
    using assms(1,2) by (auto simp: at_login_def shaped_def)
  ultimately show ?thesis by simp
qed

lemma password_edited:
  assumes "at_login v" "curr_cmd v = kPassword"
  shows "\<exists>v'. edit_item E kPassword k (v, w) = Some (v', w) \<and> at_login v' \<and> force_exit v' = force_exit v \<and>
    ps_err_cnt v' = ps_err_cnt v \<and> lock_t v' = lock_t v"
proof -
  obtain s where s: "holds_text (key_buf v ! 0) s" "0 \<le> buf_pt v ! 0" "buf_pt v ! 0 \<le> int (length s)"
    and l: "length (buf_pt v) = 8" "length (key_buf v) = 6" "length (key_buf v ! 0) = 24"
    using assms by (auto simp: at_login_def shaped_def)
  define n where "n = nat (buf_pt v ! 0)"
  obtain s' n' where e: "edit_text k 10 False (s, n) = (s', n')" by fastforce
  obtain b where b: "edit_num (7 + vs_space v) k 10 False (int n, key_buf v ! 0, cursorx v) =
      Some (int n', b, cursorx v + (7 + vs_space v) * (int n' - int n))"
    "holds_text b s'" "length b = 24" "n' \<le> length s'"
    using edit_step [OF s(1) _ _ e, of "7 + vs_space v" "cursorx v"] s(2,3) l(3) by (auto simp: n_def nat_le_iff)
  define v' where "v' = v\<lparr>buf_pt := (buf_pt v)[0 := int n'], key_buf := (key_buf v)[0 := b],
     cursorx := cursorx v + (7 + vs_space v) * (int n' - int n)\<rparr>"
  have "int n = buf_pt v ! 0" using s(2) by (simp add: n_def)
  then have "edit_item E kPassword k (v, w) = Some (v', w)"
    using l b(1) by (simp add: edit_item_def editing_of_def plain_editing_def aget_Some aset_Some v'_def)
  moreover have "shaped v'" using assms(1) b(3) set_update_subset_insert [of "key_buf v" 0 b]
    by (auto simp: at_login_def shaped_def v'_def)
  moreover have "holds_text (key_buf v' ! 0) s'" "0 \<le> buf_pt v' ! 0" "buf_pt v' ! 0 \<le> int (length s')"
    using b(2,4) l by (simp_all add: v'_def)
  ultimately have "at_login v'" using assms unfolding at_login_def v'_def by auto
  then show ?thesis using \<open>edit_item E kPassword k (v, w) = Some (v', w)\<close> by (simp add: v'_def)
qed

lemma login_popped:
  assumes "at_login v" "curr_cmd v \<in> {kUserName, kPassword}"
  shows "\<exists>v'. popcmd v = Some v' \<and> at_login v' \<and> curr_cmd v' = VW_LOGIN \<and> at_login (v'\<lparr>showcursor := sc\<rparr>) \<and>
    force_exit v' = force_exit v \<and> ps_err_cnt v' = ps_err_cnt v \<and> lock_t v' = lock_t v"
  using assms unfolding popped [OF assms] by (auto simp: at_login_def shaped_def)

lemma at_login_flags: "at_login (v\<lparr>nd_rfrsh := b\<rparr>) = at_login v" "at_login (v\<lparr>para_update := b\<rparr>) = at_login v"
  "at_login (v\<lparr>showcursor := b\<rparr>) = at_login v" "at_login (v\<lparr>force_exit := b\<rparr>) = at_login v"
  "at_login (v\<lparr>ps_err_cnt := i\<rparr>) = at_login v" "at_login (v\<lparr>lock_t := i\<rparr>) = at_login v"
  by (simp_all add: at_login_def shaped_def)

lemma password_refused:
  assumes "at_login v" "curr_cmd v = kPassword" "refuses E P" "P w"
  shows "\<exists>v' w'. set_item E kPassword (v, w) = Some (v', w') \<and> P w' \<and> at_login v' \<and> curr_cmd v' = kPassword \<and>
    force_exit v' \<and> tallied (e_now E) P 3 v v'"
proof -
  obtain p where p: "text_at (key_buf v) 0 = Some p"
    using assms(1) by (simp add: text_at_def aget_Some at_login_def shaped_def)
  obtain r w' where c: "e_check E p w = (r, w')" by fastforce
  then have "r \<noteq> 0" "P w'" using assms(3,4) by (metis refuses_def fst_conv, metis refuses_def snd_conv)
  then show ?thesis using assms(1,2) p c
    by (auto simp: set_item_def check_login_def at_login_flags tallied_def)
qed

lemma item_pressed:
  assumes "at_login v" "curr_cmd v \<in> {kUserName, kPassword}" "\<not> force_exit v" "refuses E P" "P w"
  shows "\<exists>v' w'. view_sxx_key E (curr_cmd v) k (v, w) = Some (v', w') \<and> P w' \<and> at_login v' \<and>
    tallied (e_now E) P (if force_exit v' then 3 else 0) v v'"
proof -
  define u where "u = v\<lparr>nd_rfrsh := True\<rparr>"
  have u: "at_login u" "curr_cmd u = curr_cmd v" "force_exit u = force_exit v" "ps_err_cnt u = ps_err_cnt v" "lock_t u = lock_t v"
    using assms(1) by (simp_all add: u_def at_login_flags)
  have key: "\<not> cancelled (curr_cmd v) k u" using assms(2) by (auto simp: cancelled_def)
  have tag: "\<exists>t \<in> {0, 2}. aget (menu_tag u) (curr_sn u) = Some t"
    using u(1,2) assms(2) by (auto simp: at_login_def two_first shaped_def aget_def)
  have eq: "view_sxx_key E (curr_cmd v) k (v, w) =
     (if k = KEY_SET then set_item E (curr_cmd v) (u, w)
      else if k = KEY_ESC then map_option (\<lambda>v. (v\<lparr>showcursor := False\<rparr>, w)) (popcmd u)
      else if k = KEY_HMS then Some (u\<lparr>nd_rfrsh := False\<rparr>, w)
      else edit_item E (curr_cmd v) k (u, w))"
    using assms(2) key tag
    by (auto simp: view_sxx_key_def u_def [symmetric] Let_def next_field_def simp del: One_nat_def)
  consider (pass) "k = KEY_SET" "curr_cmd v = kPassword" | (user) "k = KEY_SET" "curr_cmd v = kUserName"
    | (esc) "k = KEY_ESC" | (hms) "k = KEY_HMS" | (edit) "k \<notin> {KEY_SET, KEY_ESC, KEY_HMS}"
    using assms(2) by blast
  then show ?thesis
  proof cases
    case pass
    obtain v' w' where "set_item E kPassword (u, w) = Some (v', w')" "P w'" "at_login v'" "force_exit v'" "tallied (e_now E) P 3 u v'"
      using password_refused [OF u(1) _ assms(4,5)] u(2) pass(2) by auto
    moreover have "tallied (e_now E) P 3 v v'" using \<open>tallied (e_now E) P 3 u v'\<close> u(4,5) by (simp add: tallied_def)
    ultimately show ?thesis using pass eq by auto
  next
    case user
    have "at_login (u\<lparr>para_update := False, showcursor := False\<rparr>)" using u(1) by (simp add: at_login_flags)
    then obtain v' where v': "popcmd (u\<lparr>para_update := False, showcursor := False\<rparr>) = Some v'" "at_login v'"
      "\<not> force_exit v'" "ps_err_cnt v' = ps_err_cnt v" "lock_t v' = lock_t v"
      using login_popped [of "u\<lparr>para_update := False, showcursor := False\<rparr>"] user(2) u(2-5) assms(3) by auto
    have "view_sxx_key E (curr_cmd v) k (v, w) = Some (v', w)"
      using user v'(1) eq by (simp add: set_item_def confirm_items_def)
    then show ?thesis using v' assms(5) by (simp add: tallied_def)
  next
    case esc
    obtain v' where v': "popcmd u = Some v'" "at_login v'"
      "\<not> force_exit v'" "ps_err_cnt v' = ps_err_cnt v" "lock_t v' = lock_t v"
      using login_popped [OF u(1)] u(2-5) assms(2,3) by auto
    then show ?thesis using esc eq assms(5) by (simp add: tallied_def at_login_flags)
  next
    case hms
    then show ?thesis using eq u assms(3,5) by (simp add: tallied_def at_login_flags)
  next
    case edit
    have "e_users E w \<noteq> 0" using assms(4,5) by (simp add: refuses_def)
    then obtain v' where "edit_item E (curr_cmd v) k (u, w) = Some (v', w)" "at_login v'" "force_exit v' = force_exit u"
        "ps_err_cnt v' = ps_err_cnt u" "lock_t v' = lock_t u"
      using user_edited [OF u(1), of E w k] password_edited [OF u(1), of E k w] u(2) assms(2) by force
    then show ?thesis using edit eq u assms(3,5) by (simp add: tallied_def)
  qed
qed

lemma login_key:
  assumes "at_login v" "curr_cmd v = VW_LOGIN" "\<not> force_exit v"
  shows "\<exists>v' r. view_set_key E k (v, w) = Some ((v', w), r) \<and> r \<in> {0, 2} \<and> at_login v' \<and>
    \<not> force_exit v' \<and> ps_err_cnt v' = ps_err_cnt v \<and> lock_t v' = lock_t v"
proof -
  have n: "menu_num v = 2" using assms(1) by (simp add: at_login_def)
  consider (esc) "k = KEY_ESC" | (page) "k \<in> {KEY_PHS, KEY_OTH}" | (item) "k \<in> {49, 50}"
    | (other) "k \<notin> {KEY_ESC, KEY_PHS, KEY_OTH, 49, 50}" by blast
  then show ?thesis
  proof cases
    case esc
    then show ?thesis using assms by (simp add: view_set_key_def page_key_def hide_cursor_def at_login_flags)
  next
    case page
    have "flip_page k v = Some v" using assms(2) by (simp add: flip_page_def paged_def)
    then show ?thesis using page assms by (auto simp: view_set_key_def page_key_def hide_cursor_def)
  next
    case item
    then have "page_key E k (v, w) = map_option (\<lambda>s. (s, 0)) (choose_item E k (v, w))"
      using n by (auto simp: page_key_def)
    then show ?thesis using item_chosen [OF assms(1,2) item assms(3), of E w] assms(2)
      by (auto simp: view_set_key_def hide_cursor_def)
  next
    case other
    then have "k \<le> 48 \<or> 50 < k" by auto
    then show ?thesis using other assms n by (elim disjE) (simp_all add: view_set_key_def page_key_def hide_cursor_def)
  qed
qed

lemma login_again:
  assumes "at_login v" "\<not> force_exit v"
  shows "\<exists>v'. view_set E (v, w) = Some (v', w) \<and> at_login v' \<and> \<not> force_exit v' \<and>
    ps_err_cnt v' = ps_err_cnt v \<and> lock_t v' = lock_t v"
proof (cases "curr_cmd v = VW_LOGIN")
  case True
  then obtain s where "shaped v" "pcmd_stack v = 0" "holds_text (key_buf v ! 0) s" using assms(1) by (auto simp: at_login_def)
  then show ?thesis using True assms(2) by (intro login_shown [of v s])
next
  case False
  then have "curr_cmd v \<in> {kUserName, kPassword}" using assms(1) by (auto simp: at_login_def)
  then have "view_set E (v, w) = Some (v, w)" by (rule item_shown)
  then show ?thesis using assms by simp
qed

lemma login_pressed:
  assumes "at_login v" "\<not> force_exit v" "refuses E P" "P w"
  shows "\<exists>v' w' r. press E k (v, w) = Some ((v', w'), r) \<and> r \<in> {0, 2, 3} \<and> P w' \<and> at_login v' \<and>
    (r = 0 \<longrightarrow> \<not> force_exit v') \<and> tallied (e_now E) P r v v'"
proof (cases "curr_cmd v = VW_LOGIN")
  case True
  obtain v1 r where v1: "view_set_key E k (v, w) = Some ((v1, w), r)" "r \<in> {0, 2}" "at_login v1"
    "\<not> force_exit v1" "ps_err_cnt v1 = ps_err_cnt v" "lock_t v1 = lock_t v"
    using login_key [OF assms(1) True assms(2), of E k w] by (elim exE conjE) (rule that)
  obtain v2 where "view_set E (v1, w) = Some (v2, w)" "at_login v2" "\<not> force_exit v2"
    "ps_err_cnt v2 = ps_err_cnt v1" "lock_t v2 = lock_t v1"
    using login_again [OF v1(3,4), of E w] by (elim exE conjE) (rule that)
  then show ?thesis using v1 assms(4) by (cases "r = 0") (auto simp: press_def tallied_def)
next
  case False
  then have c: "curr_cmd v \<in> {kUserName, kPassword}" using assms(1) by (auto simp: at_login_def)
  obtain v1 w1 where v1: "view_sxx_key E (curr_cmd v) k (v, w) = Some (v1, w1)" "P w1" "at_login v1"
    "tallied (e_now E) P (if force_exit v1 then 3 else 0) v v1"
    using item_pressed [OF assms(1) c assms(2-4)] by blast
  have key: "view_set_key E k (v, w) = Some ((hide_cursor (if force_exit v1 then 3 else 0) v1, w1), if force_exit v1 then 3 else 0)"
    using c v1(1) by (auto simp: view_set_key_def Let_def)
  show ?thesis
  proof (cases "force_exit v1")
    case True
    then show ?thesis using key v1 by (simp add: press_def hide_cursor_def at_login_flags tallied_def)
  next
    case noforce: False
    obtain v2 where "view_set E (v1, w1) = Some (v2, w1)" "at_login v2" "\<not> force_exit v2"
      "ps_err_cnt v2 = ps_err_cnt v1" "lock_t v2 = lock_t v1"
      using login_again [OF v1(3) noforce, of E w1] by (elim exE conjE) (rule that)
    then show ?thesis using key v1 noforce by (simp add: press_def hide_cursor_def tallied_def)
  qed
qed

lemma login_session:
  assumes "at_login v" "\<not> force_exit v" "refuses E P" "P w"
  shows "\<exists>v' w' r. presses E ks (v, w) = Some ((v', w'), r) \<and> r \<in> {0, 2, 3} \<and> P w' \<and> at_login v' \<and>
    tallied (e_now E) P r v v'"
  using assms
proof (induction ks arbitrary: v w)
  case Nil
  then show ?case by (simp add: tallied_def)
next
  case (Cons k ks)
  obtain v1 w1 r where v1: "press E k (v, w) = Some ((v1, w1), r)" "r \<in> {0, 2, 3}" "P w1" "at_login v1"
    "r = 0 \<longrightarrow> \<not> force_exit v1" "tallied (e_now E) P r v v1"
    using login_pressed [OF Cons.prems] by blast
  show ?case
  proof (cases "r = 0")
    case True
    then obtain v2 w2 r2 where v2: "presses E ks (v1, w1) = Some ((v2, w2), r2)" "r2 \<in> {0, 2, 3}" "P w2" "at_login v2"
      "tallied (e_now E) P r2 v1 v2"
      using Cons.IH [OF v1(4) _ Cons.prems(3) v1(3)] v1(5) by blast
    have "tallied (e_now E) P r2 v v2" using v1(6) v2(5) True by (simp add: tallied_def)
    then show ?thesis using v1(1) v2 True by simp
  next
    case False
    then show ?thesis using v1 by auto
  qed
qed

lemma login_entered:
  assumes "shaped v"
  shows "\<exists>v' b. enter E (v, w) = Some ((v', w), b) \<and> shaped v' \<and> lock_t v' = lock_t v \<and>
    b = (ps_err_cnt v \<noteq> 0 \<or> e_now E w - lock_t v \<ge> 60) \<and>
    (b \<longrightarrow> at_login v' \<and> \<not> force_exit v' \<and> ps_err_cnt v' = (if ps_err_cnt v = 0 then 5 else ps_err_cnt v)) \<and>
    (\<not> b \<longrightarrow> v' = v)"
proof -
  obtain u b where l: "Locked (e_now E w) v = (u, b)" by fastforce
  have u: "shaped u" "lock_t u = lock_t v" "b = (ps_err_cnt v = 0 \<and> e_now E w - lock_t v < 60)" "b \<longrightarrow> u = v"
    "\<not> b \<longrightarrow> ps_err_cnt u = (if ps_err_cnt v = 0 then 5 else ps_err_cnt v)"
    using l assms by (auto simp: Locked_def shaped_def split: if_splits)
  obtain u1 where u1: "ini_para u = Some u1" "shaped u1" "curr_cmd u1 = VW_LOGIN" "pcmd_stack u1 = 0"
    "holds_text (key_buf u1 ! 0) []" "\<not> force_exit u1" "ps_err_cnt u1 = ps_err_cnt u" "lock_t u1 = lock_t u"
    using ini_para_login [OF u(1)] by blast
  obtain u2 where u2: "view_set E (u1, w) = Some (u2, w)" "at_login u2" "\<not> force_exit u2" "ps_err_cnt u2 = ps_err_cnt u1"
    "lock_t u2 = lock_t u1"
    using login_shown [OF u1(2-6), of E w] by (elim exE conjE) (rule that)
  then have "shaped u2" by (simp add: at_login_def)
  then show ?thesis using l u u1 u2 assms by (cases b) (auto simp: enter_def)
qed

section \<open>Log in\<close>

text \<open>
  C6. Nobody gets past the log in page without a password: whatever keys are pressed after the
  settings pages have been entered, as long as there is a user and every password is refused the pages stay on the log in
  page or on one of its two items, no array is left, and nothing is done to the parameters, the passwords
  or the server (any \<open>P\<close> that the check of a password keeps is kept).
\<close>

theorem settings_need_login:
  assumes "shaped v" "refuses E P" "P w"
  shows "\<exists>v1 b. enter E (v, w) = Some ((v1, w), b) \<and> (b \<longrightarrow> (\<exists>v2 w2 r. presses E ks (v1, w) = Some ((v2, w2), r) \<and>
    r \<in> {0, 2, 3} \<and> curr_cmd v2 \<in> {VW_LOGIN, kUserName, kPassword} \<and> P w2))"
proof -
  obtain v1 b where v1: "enter E (v, w) = Some ((v1, w), b)" "b \<longrightarrow> at_login v1 \<and> \<not> force_exit v1"
    using login_entered [OF assms(1), of E w] by auto
  have "\<exists>v2 w2 r. presses E ks (v1, w) = Some ((v2, w2), r) \<and>
      r \<in> {0, 2, 3} \<and> curr_cmd v2 \<in> {VW_LOGIN, kUserName, kPassword} \<and> P w2" if in_pages: b
  proof -
    obtain v2 w2 r where "presses E ks (v1, w) = Some ((v2, w2), r)" "r \<in> {0, 2, 3}" "P w2" "at_login v2"
      using login_session [OF _ _ assms(2,3), of v1 ks] v1(2) in_pages by blast
    then show ?thesis by (auto simp: at_login_def)
  qed
  then show ?thesis using v1(1) by blast
qed

text \<open>A page and a world to try it on: the world counts the seconds, no password is right.\<close>

definition demo_page :: setview where
  "demo_page = \<lparr>curr_cmd = 0, cmd_stack = replicate 10 0, pcmd_stack = 0, force_exit = False, para_update = False,
     ps_err_cnt = 5, lock_t = 0, key_buf = replicate 6 (replicate 24 7), buf_pt = replicate 8 0, buf_sel = 0, buf_sel_sz = 1,
     showcursor = False, nd_rfrsh = False, cursorx = 0, cursor_left = replicate 8 0, menu_num = 0, item_totl = 0,
     menu2cmd = replicate 10 0, menu_tag = replicate 10 0, Item_x = replicate 10 0, menu_x = 0, curr_x = 0, curr_sn = 0,
     set_confirm_ok_cnt = 0, ra_show_hr = 0, trnst_valid = True, num_onoff = 0, vs_left = 0, vs_width = 320, vs_cn = 16,
     vs_space = 2\<rparr>"

definition demo_env :: "int setenv" where
  "demo_env = \<lparr>e_check = (\<lambda>p w. (if p = [49, 50] then 0 else 1, w + 1)), e_set_passwd = (\<lambda>p w. w), e_usr_name = (\<lambda>w. ''user''), e_users = (\<lambda>w. 1),
     e_latest = (\<lambda>w. 0), e_clamps = 1, e_clamp_on = (\<lambda>w. False), e_clamp_num = (\<lambda>w. 1), e_clamp_txt = (\<lambda>i w. ([], [])),
     e_load = (\<lambda>ty pg row w. ([], [])), e_store = (\<lambda>ty v w. - 1), e_signal = (\<lambda>a b w. w), e_show_harmonic = (\<lambda>w. 0),
     e_set_show_harmonic = (\<lambda>h w. w), e_now = (\<lambda>w. w), e_clbrt = (\<lambda>w. True), e_getdc = (\<lambda>w. 1), e_onoff = (\<lambda>w. 0), e_equip = (\<lambda>w. 0), e_refresh = (\<lambda>w. w)\<rparr>"

definition strict_env :: "int setenv" where
  "strict_env = demo_env\<lparr>e_check := (\<lambda>p w. (1, min 140 (w + 1)))\<rparr>"

lemma demo_shaped: "shaped demo_page"
  by (simp add: shaped_def demo_page_def)

lemma demo_refuses: "refuses strict_env (\<lambda>w. 100 \<le> w \<and> w < 150)"
  by (auto simp: refuses_def strict_env_def demo_env_def)

theorem settings_need_login_witness:
  "\<exists>v1 b. enter strict_env (demo_page, 100) = Some ((v1, 100), b) \<and>
    (b \<longrightarrow> (\<exists>v2 w2 r. presses strict_env [49, 10, 50, 49, 51, 119, 50, 10] (v1, 100) = Some ((v2, w2), r) \<and>
      r \<in> {0, 2, 3} \<and> curr_cmd v2 \<in> {VW_LOGIN, kUserName, kPassword} \<and> 100 \<le> w2 \<and> w2 < 150))"
  using settings_need_login [OF demo_shaped demo_refuses, of 100 "[49, 10, 50, 49, 51, 119, 50, 10]"] by simp

section \<open>The number of guesses\<close>

text \<open>The visits to the pages, one list of keys for each; the result of those that were let in.\<close>

fun visits :: "'w setenv \<Rightarrow> int list list \<Rightarrow> setview \<times> 'w \<Rightarrow> ((setview \<times> 'w) \<times> int list) option" where
  "visits E [] s = Some (s, [])"
| "visits E (ks # kss) s = do {
     (s, b) \<leftarrow> enter E s;
     if b then do { (s, r) \<leftarrow> presses E ks s; (s, rs) \<leftarrow> visits E kss s; Some (s, r # rs) } else visits E kss s }"

definition budget :: "int \<Rightarrow> setview \<Rightarrow> int" where
  "budget t v = (if ps_err_cnt v > 0 then ps_err_cnt v else if t \<le> lock_t v then 0 else 5)"

lemma guesses_in_budget:
  assumes "shaped v" "0 \<le> ps_err_cnt v" "refuses E P" "P w" "\<And>w. P w \<Longrightarrow> t \<le> e_now E w \<and> e_now E w < t + 60"
  shows "\<exists>v' w' rs. visits E kss (v, w) = Some ((v', w'), rs) \<and> P w' \<and> shaped v' \<and> 0 \<le> ps_err_cnt v' \<and>
    int (count_list rs 3) + budget t v' \<le> budget t v"
  using assms(1,2,4)
proof (induction kss arbitrary: v w)
  case Nil
  then show ?case by (simp add: budget_def)
next
  case (Cons ks kss)
  obtain v1 b where v1: "enter E (v, w) = Some ((v1, w), b)" "shaped v1" "lock_t v1 = lock_t v"
    "b = (ps_err_cnt v \<noteq> 0 \<or> e_now E w - lock_t v \<ge> 60)"
    "b \<longrightarrow> at_login v1 \<and> \<not> force_exit v1 \<and> ps_err_cnt v1 = (if ps_err_cnt v = 0 then 5 else ps_err_cnt v)" "\<not> b \<longrightarrow> v1 = v"
    using login_entered [OF Cons.prems(1), of E w] by (elim exE conjE) (rule that)
  show ?case
  proof (cases b)
    case False
    then show ?thesis using Cons.IH [OF Cons.prems] v1(1,6) by simp
  next
    case True
    obtain v2 w2 r where v2: "presses E ks (v1, w) = Some ((v2, w2), r)" "r \<in> {0, 2, 3}" "P w2" "at_login v2"
      "tallied (e_now E) P r v1 v2"
      using login_session [OF _ _ assms(3) Cons.prems(3), of v1 ks] v1(5) True by blast
    have pos: "0 < ps_err_cnt v1" "0 \<le> ps_err_cnt v2" using v1(5) v2(5) True Cons.prems(2)
      by (auto simp: tallied_def split: if_splits)
    have same: "budget t v1 = budget t v"
      using v1(3-5) True pos assms(5) [OF Cons.prems(3)] Cons.prems(2) by (auto simp: budget_def)
    have less: "budget t v2 + (if r = 3 then 1 else 0) \<le> budget t v1"
      using v2(5) pos assms(5) by (auto simp: tallied_def budget_def split: if_splits)
    obtain v' w' rs where "visits E kss (v2, w2) = Some ((v', w'), rs)" "P w'" "shaped v'" "0 \<le> ps_err_cnt v'"
        "int (count_list rs 3) + budget t v' \<le> budget t v2"
      using Cons.IH [OF _ pos(2) v2(3)] v2(4) by (auto simp: at_login_def)
    then show ?thesis using v1(1) v2(1) True less same by auto
  qed
qed

text \<open>
  C7. The lock bounds the guesses: however often the settings pages are entered and whatever is pressed there, while the clock is within
  one minute at most five wrong passwords are taken (a visit ends with the first wrong one), and once five were taken the next visit is
  turned away at the main view without any change, as long as the clock stays within that minute.
\<close>

theorem guesses_limited:
  assumes "shaped v" "0 \<le> ps_err_cnt v" "ps_err_cnt v \<le> 5" "refuses E P" "P w" "\<And>w. P w \<Longrightarrow> t \<le> e_now E w \<and> e_now E w < t + 60"
  shows "\<exists>v' w' rs. visits E kss (v, w) = Some ((v', w'), rs) \<and> P w' \<and> count_list rs 3 \<le> 5 \<and>
    (count_list rs 3 = 5 \<longrightarrow> (\<forall>w. P w \<longrightarrow> enter E (v', w) = Some ((v', w), False)))"
proof -
  obtain v' w' rs where v: "visits E kss (v, w) = Some ((v', w'), rs)" "P w'" "shaped v'" "0 \<le> ps_err_cnt v'"
      "int (count_list rs 3) + budget t v' \<le> budget t v"
    using guesses_in_budget [OF assms(1,2,4-6), where kss = kss] by blast
  have five: "budget t v \<le> 5" and pos: "0 \<le> budget t v'" using assms(3) by (auto simp: budget_def)
  have "enter E (v', u) = Some ((v', u), False)" if "count_list rs 3 = 5" "P u" for u
  proof -
    have "budget t v' = 0" using that(1) v(5) five pos by simp
    then have "ps_err_cnt v' = 0" "t \<le> lock_t v'" using v(4) by (auto simp: budget_def split: if_splits)
    then have "\<not> (ps_err_cnt v' \<noteq> 0 \<or> e_now E u - lock_t v' \<ge> 60)" using assms(6) [OF that(2)] by simp
    then show ?thesis using login_entered [OF v(3), of E u] by auto
  qed
  then show ?thesis using v(1,2,5) five pos by (intro exI [of _ v'] exI [of _ w'] exI [of _ rs]) auto
qed

theorem guesses_limited_witness:
  "\<exists>v w rs. visits strict_env (replicate 7 [50, 49, 10]) (demo_page, 100) = Some ((v, w), rs) \<and> (100 \<le> w \<and> w < 150) \<and> count_list rs 3 \<le> 5 \<and>
    (count_list rs 3 = 5 \<longrightarrow> (\<forall>w. 100 \<le> w \<and> w < 150 \<longrightarrow> enter strict_env (v, w) = Some ((v, w), False)))"
  by (rule guesses_limited [OF demo_shaped _ _ demo_refuses, where t = 100]) (auto simp: demo_page_def strict_env_def demo_env_def)

text \<open>Seven visits with a wrong password each: five are let in, two turned away.\<close>

lemma five_of_seven:
  "map_option snd (visits strict_env (replicate 7 [50, 49, 10]) (demo_page, 100)) = Some [3, 3, 3, 3, 3]"
  by code_simp

text \<open>
  A password that was typed and cancelled stays in its buffer although its stars are gone: choosing the item again and
  pressing the set key checks it.  Here \<open>12\<close> is right; it is typed, cancelled, and then accepted.
\<close>

lemma cancelled_password_kept:
  "case enter demo_env (demo_page, 100) of None \<Rightarrow> False
   | Some (s, b) \<Rightarrow> (case presses demo_env [50, 49, 50, KEY_ESC, 50, KEY_SET] s of None \<Rightarrow> False
       | Some ((v, w), r) \<Rightarrow> curr_cmd v = VW_S0 \<and> r = 0)"
  by code_simp

section \<open>Only the set key stores\<close>

text \<open>
  \<open>P\<close> is kept by the control signals, by the choice of the harmonic that is shown and by \<open>RefreshHrmlmt\<close>, which opening the list of
  the harmonic limits calls.
\<close>

definition silent :: "'w setenv \<Rightarrow> ('w \<Rightarrow> bool) \<Rightarrow> bool" where
  "silent E P \<longleftrightarrow> (\<forall>w. P w \<longrightarrow> (\<forall>a b. P (e_signal E a b w)) \<and> (\<forall>h. P (e_set_show_harmonic E h w)) \<and> P (e_refresh E w))"

lemma view_set_silent: "view_set E (v, w) = Some (v', w') \<Longrightarrow> silent E P \<Longrightarrow> P w \<Longrightarrow> P w'"
  by (auto simp: view_set_def silent_def split: if_splits)

lemma load_item_silent: "load_item E ty row (v, w) = Some (v', w') \<Longrightarrow> silent E P \<Longrightarrow> P w \<Longrightarrow> P w'"
  by (auto simp: load_item_def on_opening_def silent_def Let_def split: if_splits bind_splits prod.splits)

lemma choose_item_silent:
  assumes "choose_item E k (v, w) = Some (v', w')" "silent E P" "P w"
  shows "P w'"
proof -
  have ini: "P w'" if "view_sxxini_key E ty k (v, w) = Some (v', w')" for ty v v' w'
    using that load_item_silent [OF _ assms(2,3)] assms(3)
    by (auto simp: view_sxxini_key_def Let_def simp del: insert_iff split: if_splits bind_splits)
  show ?thesis using assms(1) ini assms(3)
    by (auto simp: choose_item_def Let_def split: if_splits bind_splits)
qed

lemma edit_item_world: "edit_item E ty k (v, w) = Some (v', w') \<Longrightarrow> w' = w"
  by (auto simp: edit_item_def split: if_splits bind_splits option.splits editing.splits prod.splits)

lemma view_sxx_key_silent:
  assumes "view_sxx_key E ty k (v, w) = Some (v', w')" "k \<noteq> KEY_SET" "silent E P" "P w"
  shows "P w'"
proof -
  define u j where "u = v\<lparr>nd_rfrsh := True\<rparr>" and "j = (if cancelled ty k u then KEY_ESC else k)"
  have "j \<noteq> KEY_SET" using assms(2) by (simp add: j_def)
  then have "(if j = KEY_ESC then
       map_option (\<lambda>v. (v\<lparr>showcursor := False\<rparr>,
           if ty = AutoAdj then e_signal E 3 0 w else if ty = GetCharacterDCValue then e_signal E 4 0 w else w)) (popcmd u)
     else if j = KEY_HMS then map_option (\<lambda>v. (v, w)) (next_field u)
     else if j \<in> {KEY_PHS, KEY_OTH} \<and> ty = ShowOcTime then map_option (\<lambda>v. (v, w)) (turn_page j u)
     else edit_item E ty j (u, w)) = Some (v', w')"
    using assms(1) unfolding view_sxx_key_def prod.case Let_def u_def [symmetric] j_def [symmetric] by simp
  then show ?thesis using assms(3,4) edit_item_world [of E ty j u w v' w']
    by (auto simp: silent_def split: if_splits)
qed

lemma press_silent:
  assumes "press E k (v, w) = Some ((v', w'), r)" "k \<noteq> KEY_SET" "silent E P" "P w"
  shows "P w'"
proof -
  obtain v1 w1 r1 where k: "view_set_key E k (v, w) = Some ((v1, w1), r1)"
    and s: "r1 \<noteq> 0 \<and> w' = w1 \<or> view_set E (v1, w1) = Some (v', w')"
    using assms(1) by (auto simp: press_def split: if_splits bind_splits)
  have "P w1"
  proof (cases "curr_cmd v < VW_GUI_DILIMITER")
    case True
    have "P w2" if "page_key E k (v, w) = Some ((v2, w2), r2)" for v2 w2 r2
      using that choose_item_silent [OF _ assms(3,4)] assms(3,4)
      by (auto simp: page_key_def silent_def split: if_splits)
    then show ?thesis using k True by (auto simp: view_set_key_def)
  next
    case False
    then show ?thesis using k view_sxx_key_silent [OF _ assms(2-4)] by (auto simp: view_set_key_def Let_def)
  qed
  then show ?thesis using s view_set_silent [OF _ assms(3)] by blast
qed

text \<open>
  C38. Only the set key stores.  On any page and in any state, a sequence of keys without the set key never runs the operations that
  store a parameter, check or change a password: the world outside the pages is changed by no other operation than the control signals
  (adjustment, measurement, reset), the choice of the harmonic shown and the call \<open>RefreshHrmlmt\<close> of opening the list of the harmonic
  limits, so whatever predicate of the world these three keep is kept.  That parameters are kept needs that these three keep
  them; their bodies are not in the repository.
\<close>

theorem only_set_key_stores:
  assumes "presses E ks (v, w) = Some ((v', w'), r)" "KEY_SET \<notin> set ks" "silent E P" "P w"
  shows "P w'"
  using assms(1,2,4)
proof (induction ks arbitrary: v w)
  case Nil
  then show ?case by simp
next
  case (Cons k ks)
  obtain v1 w1 r1 where p: "press E k (v, w) = Some ((v1, w1), r1)"
    and rest: "w' = w1 \<or> presses E ks (v1, w1) = Some ((v', w'), r)"
    using Cons.prems(1) by (auto split: if_splits bind_splits)
  have "P w1" using press_silent [OF p _ assms(3) Cons.prems(3)] Cons.prems(2) by auto
  then show ?case using rest Cons.IH [of v1 w1] Cons.prems(2) by auto
qed

text \<open>Six keys from the page of the line parameters: the second item is edited and left again.\<close>

definition line_page :: setview where
  "line_page = demo_page\<lparr>curr_cmd := VW_LINE, menu_num := 8, menu2cmd := replicate 10 TransEndNum,
     menu_tag := replicate 10 2, key_buf := replicate 6 (replicate 24 0)\<rparr>"

theorem only_set_key_stores_witness:
  "case presses demo_env [50, 49, 50, 114, 119, 51] (line_page, 3) of None \<Rightarrow> False | Some ((v, w), r) \<Rightarrow> w = 3"
proof -
  have "\<exists>v w r. presses demo_env [50, 49, 50, 114, 119, 51] (line_page, 3) = Some ((v, w), r)"
  proof -
    have "case presses demo_env [50, 49, 50, 114, 119, 51] (line_page, 3) of None \<Rightarrow> False | Some s \<Rightarrow> True" by code_simp
    then show ?thesis by (auto split: option.splits)
  qed
  then obtain v w r where run: "presses demo_env [50, 49, 50, 114, 119, 51] (line_page, 3) = Some ((v, w), r)" by blast
  have "silent demo_env (\<lambda>w. w = 3)" by (simp add: silent_def demo_env_def)
  from only_set_key_stores [OF run _ this] show ?thesis using run by simp
qed

end
