(* ===== verification/Pqm_Func.thy ===== *)
theory Pqm_Func
  imports Clock Complex_Main
begin

text \<open>
  The handler of the measured data (\<open>main/src/pqm_func/pqmfunc.cpp\<close>): the phases of the harmonics are turned
  to that of the first voltage, the time stamps are pulled to the tenth cycles, calibration and
  the measurement of the direct component are driven by the frames that come in, and alarms light the lamps and
  trigger recordings.  The structure \<open>Steady_Z_Data\<close> is not in the repository: its arrays are lists of the
  lengths at which the code uses them.  Values of type \<open>unsigned short\<close> are integers, with the wrap-around written
  out; the sums of the calibration are exact (rational) instead of \<open>float\<close>.
\<close>

section \<open>Updating a row\<close>

definition u16 :: "int \<Rightarrow> int" where
  "u16 x = x mod 65536"

definition each :: "int \<Rightarrow> int \<Rightarrow> (int \<Rightarrow> 'a \<Rightarrow> 'a) \<Rightarrow> 'a list \<Rightarrow> 'a list option" where
  "each lo hi f = for_loop lo hi (\<lambda>i xs. do { x \<leftarrow> aget xs i; aset xs i (f i x) })"

lemma each_Some:
  assumes "0 \<le> lo" "hi \<le> int (length xs)"
  shows "\<exists>ys. each lo hi f xs = Some ys \<and> length ys = length xs \<and>
    (\<forall>i < length xs. ys ! i = (if lo \<le> int i \<and> int i < hi then f (int i) (xs ! i) else xs ! i))"
proof -
  have "\<exists>ys. each lo (lo + int n) f xs = Some ys \<and> length ys = length xs \<and>
    (\<forall>i < length xs. ys ! i = (if lo \<le> int i \<and> int i < lo + int n then f (int i) (xs ! i) else xs ! i))"
    if "lo + int n \<le> int (length xs)" for n
    using that
  proof (induction n)
    case 0
    then show ?case by (auto simp: each_def for_loop_empty)
  next
    case (Suc n)
    then obtain ys where ys: "each lo (lo + int n) f xs = Some ys" "length ys = length xs"
      "\<forall>i < length xs. ys ! i = (if lo \<le> int i \<and> int i < lo + int n then f (int i) (xs ! i) else xs ! i)" by auto
    have "[lo..lo + int (Suc n) - 1] = [lo..lo + int n - 1] @ [lo + int n]"
      using upto_rec2 [of lo "lo + int n"] by simp
    then have "each lo (lo + int (Suc n)) f xs = (case each lo (lo + int n) f xs of None \<Rightarrow> None
        | Some zs \<Rightarrow> do { x \<leftarrow> aget zs (lo + int n); aset zs (lo + int n) (f (lo + int n) x) })"
      by (simp add: each_def for_loop_def foldO_append split: option.splits)
    also have "\<dots> = Some (ys[nat (lo + int n) := f (lo + int n) (ys ! nat (lo + int n))])"
      using ys(1,2) Suc.prems assms(1) by (simp add: mem_simps)
    finally show ?case using ys(2,3) Suc.prems assms(1)
      by (auto simp: nth_list_update nat_eq_iff)
  qed
  from this [of "nat (hi - lo)"] show ?thesis
    by (cases "lo \<le> hi") (use assms in \<open>auto simp: each_def for_loop_empty split: if_splits\<close>)
qed

section \<open>Phases\<close>

record steady_z =
  huam :: "int list list"
  huph :: "int list list"
  hiam :: "int list list"
  hiph :: "int list list"
  huph26 :: "int list list"
  hiph26 :: "int list list"
  interhui :: "int list"
  harm_10cyc :: "int list list"

text \<open>\<open>*p += (lphs * i) % 3600; if (*p >= 3600) *p -= 3600;\<close>  Phases are tenths of a degree.\<close>

definition turn :: "int \<Rightarrow> int \<Rightarrow> int \<Rightarrow> int" where
  "turn lphs i p = (let p = u16 (p + (lphs * i) mod 3600) in if p \<ge> 3600 then u16 (p - 3600) else p)"

text \<open>The first \<open>n\<close> phases of a row, of the harmonics from \<open>o\<close> on; without a fundamental they are set to 270 degrees.\<close>

definition align :: "bool \<Rightarrow> int \<Rightarrow> int \<Rightarrow> int \<Rightarrow> int list \<Rightarrow> int list option" where
  "align live lphs ofs n row =
     (if live then each 0 n (\<lambda>i. turn lphs (i + ofs)) row else blit row 0 (replicate (nat n) 2700))"

definition live :: "int list list \<Rightarrow> int \<Rightarrow> bool option" where
  "live am j = do { r \<leftarrow> aget am j; a \<leftarrow> aget r 1; Some (a \<noteq> 0) }"

text \<open>The fundamental of a current is corrected by \<open>CUR_PHS_MODIFY\<close>.\<close>

definition modify_cur :: "int \<Rightarrow> int list \<Rightarrow> int list option" where
  "modify_cur cpm row = do {
     p \<leftarrow> aget row 1;
     let p = (if p < cpm then u16 (p + 3600) else p) in aset row 1 (u16 (p - cpm)) }"

definition align_basic :: "int \<Rightarrow> int \<Rightarrow> int \<Rightarrow> steady_z \<Rightarrow> steady_z option" where
  "align_basic cpm lphs j st = do {
     lu \<leftarrow> live (huam st) j;
     u \<leftarrow> aget (huph st) j;
     u \<leftarrow> align lu lphs 0 26 u;
     us \<leftarrow> aset (huph st) j u;
     li \<leftarrow> live (hiam st) j;
     i \<leftarrow> aget (hiph st) j;
     i \<leftarrow> align li lphs 0 26 i;
     i \<leftarrow> (if li then modify_cur cpm i else Some i);
     is \<leftarrow> aset (hiph st) j i;
     Some (st\<lparr>huph := us, hiph := is\<rparr>) }"

definition align_ext :: "int \<Rightarrow> int \<Rightarrow> steady_z \<Rightarrow> steady_z option" where
  "align_ext lphs j st = do {
     lu \<leftarrow> live (huam st) j;
     u \<leftarrow> aget (huph26 st) j;
     u \<leftarrow> align lu lphs 26 25 u;
     us \<leftarrow> aset (huph26 st) j u;
     li \<leftarrow> live (hiam st) j;
     i \<leftarrow> aget (hiph26 st) j;
     i \<leftarrow> align li lphs 26 25 i;
     is \<leftarrow> aset (hiph26 st) j i;
     Some (st\<lparr>huph26 := us, hiph26 := is\<rparr>) }"

text \<open>The phases between the harmonics: every second cell, from the second on.\<close>

definition align_inter :: "int \<Rightarrow> int list \<Rightarrow> int list option" where
  "align_inter lphs = for_loop 0 (6 * 51 * 15) (\<lambda>i xs. do {
     x \<leftarrow> aget xs (2 * i + 1); aset xs (2 * i + 1) (turn lphs (i mod 357 div 6) x) })"

text \<open>The harmonic that is watched over ten cycles: \<open>*p += (lphs * n) % 3600; *p += 900; if (*p >= 3600) *p -= 3600;\<close>\<close>

definition turn10 :: "int \<Rightarrow> int \<Rightarrow> int \<Rightarrow> int" where
  "turn10 lphs n p = (let p = u16 (u16 (p + (lphs * n) mod 3600) + 900) in if p \<ge> 3600 then u16 (p - 3600) else p)"

definition align_10cyc :: "int \<Rightarrow> int \<Rightarrow> int \<Rightarrow> steady_z \<Rightarrow> steady_z option" where
  "align_10cyc lphs n j st = do {
     let row = (\<lambda>l r. for_loop 0 15 (\<lambda>i xs. do {
       x \<leftarrow> aget xs (2 * i + 1); aset xs (2 * i + 1) (if l then turn10 lphs n x else 0) }) r) in do {
     lu \<leftarrow> live (huam st) j;
     u \<leftarrow> aget (harm_10cyc st) j;
     u \<leftarrow> row lu u;
     h \<leftarrow> aset (harm_10cyc st) j u;
     li \<leftarrow> live (hiam st) j;
     i \<leftarrow> aget h (j + 3);
     i \<leftarrow> row li i;
     h \<leftarrow> aset h (j + 3) i;
     Some (st\<lparr>harm_10cyc := h\<rparr>) } }"

text \<open>
  \<open>adjust_phs_zero\<close>: \<open>valid\<close> says which extensions there are, \<open>inter_en\<close> is \<open>syspara->inter_enable\<close> and
  \<open>hrm10cy\<close> the number of the watched harmonic.
\<close>

definition adjust_phs_zero :: "int \<Rightarrow> int \<Rightarrow> bool \<Rightarrow> int \<Rightarrow> int \<Rightarrow> steady_z \<Rightarrow> steady_z option" where
  "adjust_phs_zero cpm valid inter_en hrm10cy phs st = do {
     st \<leftarrow> for_loop 0 3 (align_basic cpm phs) st;
     st \<leftarrow> (if valid AND 1 \<noteq> 0 then for_loop 0 3 (align_ext phs) st else Some st);
     st \<leftarrow> (if valid AND 2 \<noteq> 0 \<and> inter_en then map_option (\<lambda>x. st\<lparr>interhui := x\<rparr>) (align_inter phs (interhui st)) else Some st);
     for_loop 0 3 (align_10cyc phs hrm10cy) st }"

text \<open>\<open>unsigned short phs_offset = (6300 - huph[0][1]) % 3600\<close> in \<open>harm_hdl\<close>.\<close>

definition phs_offset :: "steady_z \<Rightarrow> int option" where
  "phs_offset st = do { r \<leftarrow> aget (huph st) 0; p \<leftarrow> aget r 1; Some (u16 ((6300 - p) smod 3600)) }"

lemma mod3600:
  "3600 \<le> x \<Longrightarrow> x < 7200 \<Longrightarrow> x mod 3600 = x - (3600 :: int)"
  "- 3600 \<le> x \<Longrightarrow> x < 0 \<Longrightarrow> x mod 3600 = x + (3600 :: int)"
proof -
  assume "3600 \<le> x" "x < 7200"
  then have "(x - 3600) mod 3600 = x - 3600" by (intro mod_pos_pos_trivial) auto
  then show "x mod 3600 = x - 3600" by (simp only: minus_mod_self2)
next
  assume "- 3600 \<le> x" "x < 0"
  then have "(x + 3600) mod 3600 = x + 3600" by (intro mod_pos_pos_trivial) auto
  then show "x mod 3600 = x + 3600" by (simp only: mod_add_self2)
qed

lemma turn_mod: "0 \<le> p \<Longrightarrow> p < 3600 \<Longrightarrow> turn lphs i p = (p + lphs * i) mod 3600"
proof -
  assume p: "0 \<le> p" "p < 3600"
  define r where "r = (lphs * i) mod 3600"
  have r: "0 \<le> r" "r < 3600" by (simp_all add: r_def)
  have "turn lphs i p = (if p + r \<ge> 3600 then p + r - 3600 else p + r)"
    using p r by (simp add: turn_def u16_def Let_def r_def [symmetric])
  also have "\<dots> = (p + r) mod 3600" using p r mod3600(1) [of "p + r"] by (cases "p + r < 3600") simp_all
  also have "\<dots> = (p + lphs * i) mod 3600" by (simp add: r_def mod_add_right_eq)
  finally show ?thesis .
qed

text \<open>The rows that come out.\<close>

definition turned :: "int list \<Rightarrow> int \<Rightarrow> int list \<Rightarrow> int list" where
  "turned am lphs row = (if am ! 1 \<noteq> 0 then map (\<lambda>i. (row ! i + lphs * int i) mod 3600) [0..<26] else replicate 26 2700)"

definition row_ok :: "int list \<Rightarrow> bool" where
  "row_ok row \<longleftrightarrow> length row = 26 \<and> (\<forall>p \<in> set row. 0 \<le> p \<and> p < 3600)"

lemma align_turned:
  assumes "row_ok row"
  shows "align (am ! 1 \<noteq> 0) lphs 0 26 row = Some (turned am lphs row)"
proof (cases "am ! 1 = 0")
  case True
  then show ?thesis using assms by (simp add: align_def turned_def row_ok_def mem_simps)
next
  case False
  obtain ys where ys: "each 0 26 (\<lambda>i. turn lphs (i + 0)) row = Some ys" "length ys = 26"
    "\<forall>i < 26. ys ! i = turn lphs (int i) (row ! i)"
    using each_Some [of 0 26 row "\<lambda>i. turn lphs (i + 0)"] assms by (auto simp: row_ok_def)
  have "ys = turned am lphs row"
    using ys assms False by (intro nth_equalityI) (auto simp: turned_def turn_mod row_ok_def)
  then show ?thesis using ys(1) False by (simp add: align_def)
qed

lemma turned_ok: "row_ok (turned am lphs row)"
  by (auto simp: row_ok_def turned_def)

definition corrected :: "int list \<Rightarrow> int \<Rightarrow> int \<Rightarrow> int list \<Rightarrow> int list" where
  "corrected am cpm lphs row =
     (if am ! 1 \<noteq> 0 then (turned am lphs row)[1 := (turned am lphs row ! 1 - cpm) mod 3600] else turned am lphs row)"

lemma modify_corrected:
  assumes "0 \<le> cpm" "cpm < 3600" "row_ok row"
  shows "modify_cur cpm row = Some (row[1 := (row ! 1 - cpm) mod 3600])"
proof -
  have p: "0 \<le> row ! 1" "row ! 1 < 3600" and l: "length row = 26" using assms(3) by (auto simp: row_ok_def)
  define q where "q = (if row ! 1 < cpm then u16 (row ! 1 + 3600) else row ! 1)"
  have "q - cpm = (row ! 1 - cpm) mod 3600"
    using p assms(1,2) mod3600(2) [of "row ! 1 - cpm"] by (cases "row ! 1 < cpm") (simp_all add: u16_def q_def)
  moreover have "u16 ((row ! 1 - cpm) mod 3600) = (row ! 1 - cpm) mod 3600"
    unfolding u16_def by (rule mod_pos_pos_trivial) (use pos_mod_bound [of 3600 "row ! 1 - cpm"] in auto)
  moreover have "modify_cur cpm row = Some (row[1 := u16 (q - cpm)])"
    using l by (simp add: modify_cur_def aget_Some aset_Some q_def)
  ultimately show ?thesis by (simp del: One_nat_def)
qed

text \<open>The arrays have the sizes at which the code uses them.\<close>

definition z_shape :: "steady_z \<Rightarrow> bool" where
  "z_shape st \<longleftrightarrow> length (huam st) = 3 \<and> length (hiam st) = 3 \<and> (\<forall>r \<in> set (huam st) \<union> set (hiam st). length r = 26) \<and>
     length (huph st) = 3 \<and> length (hiph st) = 3 \<and> length (huph26 st) = 3 \<and> length (hiph26 st) = 3 \<and>
     (\<forall>r \<in> set (huph26 st) \<union> set (hiph26 st). length r = 25) \<and> length (interhui st) = 9180 \<and>
     length (harm_10cyc st) = 6 \<and> (\<forall>r \<in> set (harm_10cyc st). length r = 30)"

lemma live_Some: "z_shape st \<Longrightarrow> 0 \<le> j \<Longrightarrow> j < 3 \<Longrightarrow> live (huam st) j = Some (huam st ! nat j ! 1 \<noteq> 0)"
  "z_shape st \<Longrightarrow> 0 \<le> j \<Longrightarrow> j < 3 \<Longrightarrow> live (hiam st) j = Some (hiam st ! nat j ! 1 \<noteq> 0)"
  by (simp_all add: live_def z_shape_def aget_Some)

lemma align_basic_eq:
  assumes "z_shape st" "0 \<le> j" "j < 3" "row_ok (huph st ! nat j)" "row_ok (hiph st ! nat j)" "0 \<le> cpm" "cpm < 3600"
  shows "align_basic cpm lphs j st = Some (st\<lparr>
    huph := (huph st)[nat j := turned (huam st ! nat j) lphs (huph st ! nat j)],
    hiph := (hiph st)[nat j := corrected (hiam st ! nat j) cpm lphs (hiph st ! nat j)]\<rparr>)"
proof -
  have l: "length (huph st) = 3" "length (hiph st) = 3" using assms(1) by (simp_all add: z_shape_def)
  note rows = align_turned [OF assms(4), of "huam st ! nat j" lphs] align_turned [OF assms(5), of "hiam st ! nat j" lphs]
    modify_corrected [OF assms(6,7) turned_ok, of "hiam st ! nat j" lphs "hiph st ! nat j"]
  show ?thesis
  proof (cases "hiam st ! nat j ! 1 = 0")
    case True
    then show ?thesis using assms(2,3) l rows
      by (simp add: align_basic_def live_Some [OF assms(1-3)] aget_Some aset_Some corrected_def del: One_nat_def)
  next
    case False
    then show ?thesis using assms(2,3) l rows
      by (simp add: align_basic_def live_Some [OF assms(1-3)] aget_Some aset_Some corrected_def del: One_nat_def)
  qed
qed

lemma loop3: "for_loop 0 3 f s = do { s \<leftarrow> f 0 s; s \<leftarrow> f 1 s; f 2 s }"
  by (cases "f 0 s"; cases "f 1 (the (f 0 s))"; cases "f 2 (the (f 1 (the (f 0 s))))")
    (simp_all add: for_loop_step for_loop_empty)

lemma align_basic_all:
  assumes "z_shape st" "\<forall>j < 3. row_ok (huph st ! j) \<and> row_ok (hiph st ! j)" "0 \<le> cpm" "cpm < 3600"
  shows "for_loop 0 3 (align_basic cpm lphs) st = Some (st\<lparr>
    huph := map (\<lambda>j. turned (huam st ! j) lphs (huph st ! j)) [0..<3],
    hiph := map (\<lambda>j. corrected (hiam st ! j) cpm lphs (hiph st ! j)) [0..<3]\<rparr>)"
proof -
  let ?U = "\<lambda>j. turned (huam st ! j) lphs (huph st ! j)" and ?I = "\<lambda>j. corrected (hiam st ! j) cpm lphs (hiph st ! j)"
  have l: "length (huph st) = 3" "length (hiph st) = 3" using assms(1) by (simp_all add: z_shape_def)
  define s1 where "s1 = st\<lparr>huph := (huph st)[0 := ?U 0], hiph := (hiph st)[0 := ?I 0]\<rparr>"
  define s2 where "s2 = s1\<lparr>huph := (huph s1)[1 := ?U 1], hiph := (hiph s1)[1 := ?I 1]\<rparr>"
  have s1: "align_basic cpm lphs 0 st = Some s1"
    using align_basic_eq [OF assms(1), of 0 cpm lphs] assms(2-4) by (simp add: s1_def)
  have "z_shape s1" using assms(1) l by (simp add: z_shape_def s1_def)
  then have s2: "align_basic cpm lphs 1 s1 = Some s2"
    using align_basic_eq [of s1 1 cpm lphs] assms(2-4) by (simp add: s1_def s2_def)
  have "z_shape s2" using \<open>z_shape s1\<close> by (simp add: z_shape_def s2_def)
  then have s3: "align_basic cpm lphs 2 s2 = Some (s2\<lparr>huph := (huph s2)[2 := ?U 2], hiph := (hiph s2)[2 := ?I 2]\<rparr>)"
    using align_basic_eq [of s2 2 cpm lphs] assms(2-4) by (simp add: s1_def s2_def)
  have "(huph st)[0 := ?U 0, 1 := ?U 1, 2 := ?U 2] = map ?U [0..<3]" "(hiph st)[0 := ?I 0, 1 := ?I 1, 2 := ?I 2] = map ?I [0..<3]"
    using l by (auto simp: numeral_3_eq_3 numeral_2_eq_2 length_Suc_conv upt_rec)
  then show ?thesis by (simp add: loop3 s1 s2 s3) (simp add: s1_def s2_def)
qed

lemma align_ext_total:
  assumes "z_shape st" "0 \<le> j" "j < 3"
  shows "\<exists>st'. align_ext lphs j st = Some st' \<and> z_shape st' \<and> huph st' = huph st \<and> hiph st' = hiph st"
proof -
  have row: "\<exists>r'. align lv lphs 26 25 r = Some r' \<and> length r' = 25" if "length r = 25" for r lv
    using each_Some [of 0 25 r "\<lambda>i. turn lphs (i + 26)"] that by (auto simp: align_def mem_simps)
  have in_set: "huph26 st ! nat j \<in> set (huph26 st)" "hiph26 st ! nat j \<in> set (hiph26 st)"
    using assms by (auto simp: z_shape_def)
  then have l: "length (huph26 st ! nat j) = 25" "length (hiph26 st ! nat j) = 25" using assms(1) by (auto simp: z_shape_def)
  obtain u where u: "align (huam st ! nat j ! 1 \<noteq> 0) lphs 26 25 (huph26 st ! nat j) = Some u" "length u = 25" using row [OF l(1)] by blast
  obtain i where i: "align (hiam st ! nat j ! 1 \<noteq> 0) lphs 26 25 (hiph26 st ! nat j) = Some i" "length i = 25" using row [OF l(2)] by blast
  have "length (huph26 st) = 3" "length (hiph26 st) = 3" using assms(1) by (simp_all add: z_shape_def)
  then have "align_ext lphs j st = Some (st\<lparr>huph26 := (huph26 st)[nat j := u], hiph26 := (hiph26 st)[nat j := i]\<rparr>)"
    using u(1) i(1) assms(2,3) by (simp add: align_ext_def live_Some [OF assms] aget_Some aset_Some)
  moreover have "z_shape (st\<lparr>huph26 := (huph26 st)[nat j := u], hiph26 := (hiph26 st)[nat j := i]\<rparr>)"
    using assms(1) u(2) i(2) by (auto simp: z_shape_def dest!: subsetD [OF set_update_subset_insert])
  ultimately show ?thesis by simp
qed

lemma second_cells_total:
  assumes "2 * int n \<le> int (length xs)"
  shows "\<exists>ys. for_loop 0 (int n) (\<lambda>i xs. do { x \<leftarrow> aget xs (2 * i + 1); aset xs (2 * i + 1) (f i x) }) xs = Some ys \<and> length ys = length xs"
  by (rule for_loop_total) (use assms in \<open>auto simp: mem_simps\<close>)

lemma align_10cyc_total:
  assumes "z_shape st" "0 \<le> j" "j < 3"
  shows "\<exists>st'. align_10cyc lphs n j st = Some st' \<and> z_shape st' \<and> huph st' = huph st \<and> hiph st' = hiph st"
proof -
  have row: "\<exists>ys. for_loop 0 15 (\<lambda>i xs. do { x \<leftarrow> aget xs (2 * i + 1); aset xs (2 * i + 1) (f i x) }) xs = Some ys \<and> length ys = 30"
    if "length xs = 30" for xs :: "int list" and f
    using second_cells_total [of 15 xs f] that by simp
  have len: "length (harm_10cyc st) = 6" "length (harm_10cyc st ! nat k) = 30" if "0 \<le> k" "k < 6" for k
    using assms(1) that by (auto simp: z_shape_def)
  let ?f = "\<lambda>l (i :: int) x. if l then turn10 lphs n x else 0"
  obtain u where u: "for_loop 0 15 (\<lambda>i xs. do { x \<leftarrow> aget xs (2 * i + 1); aset xs (2 * i + 1) (?f (huam st ! nat j ! 1 \<noteq> 0) i x) })
      (harm_10cyc st ! nat j) = Some u" "length u = 30"
    using row [of "harm_10cyc st ! nat j" "?f (huam st ! nat j ! 1 \<noteq> 0)"] len(2) [of j] assms(2,3) by auto
  have ne: "(harm_10cyc st)[nat j := u] ! nat (j + 3) = harm_10cyc st ! nat (j + 3)"
    using assms(2) by (intro nth_list_update_neq) linarith
  obtain i where i: "for_loop 0 15 (\<lambda>i xs. do { x \<leftarrow> aget xs (2 * i + 1); aset xs (2 * i + 1) (?f (hiam st ! nat j ! 1 \<noteq> 0) i x) })
      (harm_10cyc st ! nat (j + 3)) = Some i" "length i = 30"
    using row [of "harm_10cyc st ! nat (j + 3)" "?f (hiam st ! nat j ! 1 \<noteq> 0)"] len(2) [of "j + 3"] assms(2,3) by auto
  have "align_10cyc lphs n j st = Some (st\<lparr>harm_10cyc := (harm_10cyc st)[nat j := u, nat (j + 3) := i]\<rparr>)"
    using u(1) i(1) assms(2,3) len(1) [of 0] by (simp add: align_10cyc_def live_Some [OF assms] aget_Some aset_Some ne)
  moreover have "z_shape (st\<lparr>harm_10cyc := (harm_10cyc st)[nat j := u, nat (j + 3) := i]\<rparr>)"
    using assms(1) u(2) i(2) by (auto simp: z_shape_def dest!: subsetD [OF set_update_subset_insert])
  ultimately show ?thesis by simp
qed

text \<open>
  C20. The phases of the orders 0 to 25 are turned by the phase of the first voltage: after the alignment its fundamental stands at 270
  degrees (a sine), the phase of order \<open>i\<close> of every voltage and current that has a fundamental is turned by \<open>i\<close> times that
  offset, the fundamental of a current by the correction less, those without a fundamental are at 270 degrees, and the phases of
  these orders are again below 360 degrees if they were before; the update never leaves an array.  The theorem does not say this of
  the other phases that the update turns: one that is watched over ten cycles can be left beyond 360 degrees
  (\<open>ten_cycle_phase_out_of_range\<close>).
\<close>

theorem phases_aligned:
  assumes "z_shape st" "\<forall>j < 3. row_ok (huph st ! j) \<and> row_ok (hiph st ! j)" "0 \<le> cpm" "cpm < 3600" "phs_offset st = Some off"
  shows "\<exists>st'. adjust_phs_zero cpm valid ie n off st = Some st' \<and> huph st' ! 0 ! 1 = 2700 \<and>
    (\<forall>j < 3. row_ok (huph st' ! j) \<and> row_ok (hiph st' ! j)) \<and>
    (\<forall>j < 3. \<forall>i < 26.
       huph st' ! j ! i = (if huam st ! j ! 1 \<noteq> 0 then (huph st ! j ! i + off * int i) mod 3600 else 2700) \<and>
       hiph st' ! j ! i = (if hiam st ! j ! 1 \<noteq> 0 then (hiph st ! j ! i + off * int i - (if i = 1 then cpm else 0)) mod 3600 else 2700))"
proof -
  define U I where "U = (\<lambda>j. turned (huam st ! j) off (huph st ! j))" and "I = (\<lambda>j. corrected (hiam st ! j) cpm off (hiph st ! j))"
  define st1 where "st1 = st\<lparr>huph := map U [0..<3], hiph := map I [0..<3]\<rparr>"
  have st1: "for_loop 0 3 (align_basic cpm off) st = Some st1" "z_shape st1"
    using align_basic_all [OF assms(1-4)] assms(1) by (simp_all add: st1_def U_def I_def z_shape_def)
  let ?P = "\<lambda>s. z_shape s \<and> huph s = huph st1 \<and> hiph s = hiph st1"
  have "\<exists>s. for_loop 0 3 (align_ext off) st1 = Some s \<and> ?P s"
    by (rule for_loop_total) (use st1(2) align_ext_total in \<open>fastforce+\<close>)
  then have "\<exists>s. (if c then for_loop 0 3 (align_ext off) st1 else Some st1) = Some s \<and> ?P s" for c
    using st1(2) by simp
  from this [of "valid AND 1 \<noteq> 0"]
  obtain st2 where st2: "(if valid AND 1 \<noteq> 0 then for_loop 0 3 (align_ext off) st1 else Some st1) = Some st2" "?P st2"
    by (elim exE) (rule that; (erule conjunct1 | erule conjunct2))
  have "\<exists>x. align_inter off (interhui st2) = Some x \<and> length x = 9180"
    using second_cells_total [of 4590 "interhui st2" "\<lambda>i. turn off (i mod 357 div 6)"] st2(2) by (simp add: align_inter_def z_shape_def)
  then have "\<exists>s. (if c then map_option (\<lambda>x. st2\<lparr>interhui := x\<rparr>) (align_inter off (interhui st2)) else Some st2) = Some s \<and> ?P s" for c
    using st2(2) by (auto simp: z_shape_def)
  from this [of "valid AND 2 \<noteq> 0 \<and> ie"]
  obtain st3 where st3: "(if valid AND 2 \<noteq> 0 \<and> ie then map_option (\<lambda>x. st2\<lparr>interhui := x\<rparr>) (align_inter off (interhui st2)) else Some st2) = Some st3"
    "?P st3" by (elim exE) (rule that; (erule conjunct1 | erule conjunct2))
  have "\<exists>s. for_loop 0 3 (align_10cyc off n) st3 = Some s \<and> ?P s"
    by (rule for_loop_total) (use st3(2) align_10cyc_total in \<open>fastforce+\<close>)
  then obtain st4 where st4: "for_loop 0 3 (align_10cyc off n) st3 = Some st4" "?P st4" by blast
  have run: "adjust_phs_zero cpm valid ie n off st = Some st4"
    by (simp only: adjust_phs_zero_def st1(1) st2(1) st3(1) st4(1) Option.bind.simps)
  have rows: "huph st4 ! j = U j" "hiph st4 ! j = I j" if "j < 3" for j using st4(2) that by (simp_all add: st1_def)
  have "row_ok (huph st ! 0)" using assms(2) by simp
  then have p: "0 \<le> huph st ! 0 ! 1" "huph st ! 0 ! 1 < 3600" by (auto simp: row_ok_def)
  have "length (huph st) = 3" "length (huph st ! 0) = 26" using assms(1,2) by (auto simp: z_shape_def row_ok_def)
  then have "off = u16 ((6300 - huph st ! 0 ! 1) mod 3600)" using assms(5) p by (simp add: phs_offset_def aget_Some smod_nonneg)
  then have off: "off = (6300 - huph st ! 0 ! 1) mod 3600"
    using pos_mod_bound [of 3600 "6300 - huph st ! 0 ! 1"] by (simp add: u16_def mod_pos_pos_trivial)
  have "(huph st ! 0 ! 1 + off) mod 3600 = (huph st ! 0 ! 1 + (6300 - huph st ! 0 ! 1)) mod 3600"
    unfolding off by (rule mod_add_right_eq)
  then have "huph st4 ! 0 ! 1 = 2700" using rows(1) [of 0] by (simp add: U_def turned_def)
  moreover have "row_ok (huph st4 ! j) \<and> row_ok (hiph st4 ! j)" if "j < 3" for j
    unfolding rows [OF that] U_def I_def corrected_def using turned_ok [of "huam st ! j" off "huph st ! j"] turned_ok [of "hiam st ! j" off "hiph st ! j"]
    by (auto simp: row_ok_def dest!: subsetD [OF set_update_subset_insert])
  moreover have "huph st4 ! j ! i = (if huam st ! j ! 1 \<noteq> 0 then (huph st ! j ! i + off * int i) mod 3600 else 2700) \<and>
      hiph st4 ! j ! i = (if hiam st ! j ! 1 \<noteq> 0 then (hiph st ! j ! i + off * int i - (if i = 1 then cpm else 0)) mod 3600 else 2700)"
    if "j < 3" "i < 26" for j i
    using rows [OF that(1)] that(2) by (auto simp: U_def I_def turned_def corrected_def nth_list_update mod_diff_left_eq)
  ultimately show ?thesis using run by blast
qed

definition demo_z :: steady_z where
  "demo_z = \<lparr>huam = replicate 3 (replicate 26 7), huph = replicate 3 (map (\<lambda>i. 130 * int i mod 3600) [0..<26]),
     hiam = [replicate 26 7, replicate 26 0, replicate 26 1], hiph = replicate 3 (map (\<lambda>i. 3599 - int i) [0..<26]),
     huph26 = replicate 3 (replicate 25 0), hiph26 = replicate 3 (replicate 25 0), interhui = replicate 9180 0,
     harm_10cyc = replicate 6 (replicate 30 3599)\<rparr>"

lemma demo_z_ok: "z_shape demo_z" "\<forall>j < 3. row_ok (huph demo_z ! j) \<and> row_ok (hiph demo_z ! j)"
  by (auto simp: z_shape_def demo_z_def row_ok_def nth_Cons split: nat.splits)

theorem phases_aligned_witness:
  "\<exists>st. adjust_phs_zero 3 3 True 7 2570 demo_z = Some st \<and> huph st ! 0 ! 1 = 2700"
proof -
  have "phs_offset demo_z = Some 2570" by (simp add: phs_offset_def demo_z_def aget_def u16_def smod_nonneg)
  from phases_aligned [OF demo_z_ok _ _ this, of 3 3 True 7] show ?thesis by auto
qed

text \<open>The harmonic watched over ten cycles can be left at 360 degrees and more.\<close>

lemma ten_cycle_phase: "0 \<le> p \<Longrightarrow> p < 3600 \<Longrightarrow>
    turn10 lphs n p = (let q = p + lphs * n mod 3600 + 900 in if q \<ge> 3600 then q - 3600 else q)"
  using pos_mod_bound [of 3600 "lphs * n"] pos_mod_sign [of 3600 "lphs * n"]
  by (simp add: turn10_def u16_def Let_def mod_pos_pos_trivial)

lemma ten_cycle_phase_out_of_range: "turn10 2570 7 3599 = 4489"
  by (simp add: turn10_def u16_def)

section \<open>Time stamps\<close>

record stamping =
  sync_time_en :: bool
  offset_us :: int

definition near_ten_minutes :: "timeval \<Rightarrow> bool" where
  "near_ten_minutes tv = (let t = GmTime (tv_sec tv) in tm_min t smod 10 = 0 \<and> tm_sec t > 2 \<and> tm_sec t < 6)"

definition take_offset :: "timeval \<Rightarrow> stamping \<Rightarrow> stamping" where
  "take_offset tv c =
     (let c = (if \<not> sync_time_en c \<and> near_ten_minutes tv then c\<lparr>sync_time_en := True\<rparr> else c)
      in if sync_time_en c then
           (let l = tv_usec tv smod 200000; r = 200000 - l in c\<lparr>sync_time_en := False, offset_us := (if r < l then r else - l)\<rparr>)
         else c)"

definition SynTimestamp :: "stamping \<times> timeval \<Rightarrow> stamping \<times> timeval" where
  "SynTimestamp = (\<lambda>(c, tv).
     let c = take_offset tv c; us = tv_usec tv + offset_us c
     in (c, if us < 0 then Timeval (tv_sec tv - 1) (us + 1000000)
            else if us \<ge> 1000000 then Timeval (tv_sec tv + 1) (us - 1000000)
            else Timeval (tv_sec tv) us))"

definition micros :: "timeval \<Rightarrow> int" where
  "micros tv = tv_sec tv * 1000000 + tv_usec tv"

fun stamps :: "stamping \<Rightarrow> timeval list \<Rightarrow> timeval list" where
  "stamps c [] = []"
| "stamps c (tv # tvs) = (case SynTimestamp (c, tv) of (c, tv) \<Rightarrow> tv # stamps c tvs)"

lemma nearest_fifth:
  fixes u :: int
  shows "200000 dvd u + (200000 - u mod 200000)" and "200000 dvd u - u mod 200000"
proof -
  define q r where "q = u div 200000" and "r = u mod 200000"
  have u: "u = 200000 * q + r" by (simp add: q_def r_def)
  have "u + (200000 - r) = 200000 * (q + 1)" "u - r = 200000 * q" using u by simp_all
  then show "200000 dvd u + (200000 - u mod 200000)" "200000 dvd u - u mod 200000"
    unfolding r_def [symmetric] by (metis dvd_triv_left)+
qed

lemma SynTimestamp_step:
  assumes "SynTimestamp (c, tv) = (c', tv')" "0 \<le> tv_usec tv" "tv_usec tv < 1000000" "sync_time_en c \<or> \<bar>offset_us c\<bar> \<le> 100000"
  shows "0 \<le> tv_usec tv' \<and> tv_usec tv' < 1000000 \<and> micros tv' = micros tv + offset_us c' \<and>
    \<not> sync_time_en c' \<and> \<bar>offset_us c'\<bar> \<le> 100000 \<and> (sync_time_en c \<longrightarrow> micros tv' mod 200000 = 0) \<and>
    (offset_us c' \<noteq> offset_us c \<longrightarrow> micros tv' mod 200000 = 0)"
proof -
  define l where "l = tv_usec tv mod 200000"
  have l: "0 \<le> l" "l < 200000" by (simp_all add: l_def)
  define s where "s = (sync_time_en c \<or> near_ten_minutes tv)"
  have "take_offset tv c = (if s then c\<lparr>sync_time_en := False, offset_us := (if 200000 - l < l then 200000 - l else - l)\<rparr> else c)"
    using assms(2) by (cases "sync_time_en c"; cases "near_ten_minutes tv") (simp_all add: take_offset_def Let_def s_def l_def smod_nonneg)
  moreover have "c' = take_offset tv c" using assms(1) by (simp add: SynTimestamp_def Let_def)
  ultimately have c': "offset_us c' = (if s then (if 200000 - l < l then 200000 - l else - l) else offset_us c)" "\<not> sync_time_en c'"
    by (auto simp: s_def)
  have b: "\<bar>offset_us c'\<bar> \<le> 100000" using c'(1) l assms(4) by (auto simp: s_def split: if_splits)
  define us where "us = tv_usec tv + offset_us c'"
  have us: "- 1000000 \<le> us" "us < 2000000" using b assms(2,3) by (auto simp: us_def)
  have tv': "tv' = (if us < 0 then Timeval (tv_sec tv - 1) (us + 1000000)
            else if us \<ge> 1000000 then Timeval (tv_sec tv + 1) (us - 1000000)
            else Timeval (tv_sec tv) us)"
    using assms(1) by (auto simp: SynTimestamp_def Let_def us_def)
  have m: "micros tv' = micros tv + offset_us c'" by (simp add: tv' micros_def us_def algebra_simps)
  have "micros tv' mod 200000 = 0" if s
  proof -
    have "200000 dvd us" using nearest_fifth [of "tv_usec tv"] that c'(1) by (simp add: us_def l_def)
    then have "200000 dvd tv_sec tv * 1000000 + us" by (intro dvd_add) auto
    moreover have "micros tv' = tv_sec tv * 1000000 + us" using m by (simp add: micros_def us_def)
    ultimately show ?thesis by simp
  qed
  moreover have "offset_us c' \<noteq> offset_us c \<longrightarrow> s" using c'(1) by (auto split: if_splits)
  ultimately show ?thesis using m b c'(2) us tv' by (auto simp: s_def)
qed

text \<open>
  Time stamps are pulled to the tenth cycles: from the start on every stamp that comes out is
  normalised and at most a tenth of a second from the one that came in, and whenever the offset is taken anew
  (at the first stamp, and near every tenth minute) the stamp is a multiple of 200 ms.
\<close>

lemma stamps_synchronised:
  assumes "\<forall>tv \<in> set tvs. 0 \<le> tv_usec tv \<and> tv_usec tv < 1000000" "sync_time_en c \<or> \<bar>offset_us c\<bar> \<le> 100000"
  shows "length (stamps c tvs) = length tvs \<and>
    (\<forall>i < length tvs. 0 \<le> tv_usec (stamps c tvs ! i) \<and> tv_usec (stamps c tvs ! i) < 1000000 \<and>
       \<bar>micros (stamps c tvs ! i) - micros (tvs ! i)\<bar> \<le> 100000) \<and>
    (sync_time_en c \<and> tvs \<noteq> [] \<longrightarrow> micros (stamps c tvs ! 0) mod 200000 = 0)"
  using assms
proof (induction tvs arbitrary: c)
  case Nil
  then show ?case by simp
next
  case (Cons tv tvs)
  obtain c' tv' where st: "SynTimestamp (c, tv) = (c', tv')" by fastforce
  have step: "0 \<le> tv_usec tv' \<and> tv_usec tv' < 1000000 \<and> micros tv' = micros tv + offset_us c' \<and>
    \<not> sync_time_en c' \<and> \<bar>offset_us c'\<bar> \<le> 100000 \<and> (sync_time_en c \<longrightarrow> micros tv' mod 200000 = 0)"
    using SynTimestamp_step [OF st] Cons.prems by auto
  have IH: "length (stamps c' tvs) = length tvs \<and>
    (\<forall>i < length tvs. 0 \<le> tv_usec (stamps c' tvs ! i) \<and> tv_usec (stamps c' tvs ! i) < 1000000 \<and>
       \<bar>micros (stamps c' tvs ! i) - micros (tvs ! i)\<bar> \<le> 100000)"
    using Cons.IH [of c'] Cons.prems(1) step by auto
  show ?case using step IH by (auto simp: st nth_Cons split: nat.split)
qed

lemma stamps_synchronised_example:
  "let tvs = [Timeval 1500000000 912345, Timeval 1500000003 7];
       ss = stamps \<lparr>sync_time_en = True, offset_us = 5000000\<rparr> tvs
   in micros (ss ! 0) mod 200000 = 0 \<and> \<bar>micros (ss ! 1) - micros (tvs ! 1)\<bar> \<le> 100000"
  using stamps_synchronised [of "[Timeval 1500000000 912345, Timeval 1500000003 7]"
      "\<lparr>sync_time_en = True, offset_us = 5000000\<rparr>"] by (auto simp: Let_def less_Suc_eq)

section \<open>Calibration and the direct component\<close>

text \<open>
  The factors are those of \<open>prmcfg->get_mdfy_para (vc, phase)\<close>; a quotient by zero is no number.  Both
  procedures count down the same \<open>m_progress_cnt\<close>.
\<close>

record calib =
  auto_adj :: int
  progress :: int
  get_dc :: int
  ato_adj_utol :: "rat list"
  ato_adj_itol :: "rat list"
  mdfy :: "int \<Rightarrow> int \<Rightarrow> rat option"
  character_dc :: "int list"

record calib_para =
  vc_adj_enable :: int
  phs_adj_enable :: int
  v_datum :: rat
  c_datum :: rat

definition AutoAdjustTimes :: int where "AutoAdjustTimes = 10"
definition GetDCValWaitMax :: int where "GetDCValWaitMax = 50"
definition in_progress :: int where "in_progress = 0xb64b"

definition start_ato_adj :: "calib \<Rightarrow> calib" where
  "start_ato_adj c = c\<lparr>auto_adj := in_progress, progress := AutoAdjustTimes, ato_adj_utol := [0, 0, 0], ato_adj_itol := [0, 0, 0]\<rparr>"

definition get_adj_stat :: "calib \<Rightarrow> int \<times> int" where
  "get_adj_stat c = (progress c, if auto_adj c = 0 then 0 else 1)"

definition cancel_ato_adj :: "calib \<Rightarrow> calib" where
  "cancel_ato_adj c = c\<lparr>auto_adj := 0\<rparr>"

definition phase_on :: "calib_para \<Rightarrow> int \<Rightarrow> bool" where
  "phase_on P i \<longleftrightarrow> phs_adj_enable P AND push_bit (nat i) 1 \<noteq> 0"

definition add_rms :: "calib_para \<Rightarrow> rat list \<Rightarrow> rat list \<Rightarrow> rat list option" where
  "add_rms P rms = for_loop 0 3 (\<lambda>i tol. if phase_on P i then do { x \<leftarrow> aget tol i; r \<leftarrow> aget rms i; aset tol i (x + r) } else Some tol)"

definition new_factor :: "rat \<Rightarrow> rat \<Rightarrow> rat option \<Rightarrow> rat option" where
  "new_factor datum tol old = do {
     m \<leftarrow> old;
     let fi = tol / of_int AutoAdjustTimes * 100; fj = datum * m in if fi = 0 then None else Some (fj / fi) }"

definition set_factors :: "calib_para \<Rightarrow> int \<Rightarrow> rat \<Rightarrow> rat list \<Rightarrow> (int \<Rightarrow> int \<Rightarrow> rat option) \<Rightarrow> (int \<Rightarrow> int \<Rightarrow> rat option) option" where
  "set_factors P vc datum tol = for_loop 0 3 (\<lambda>i m. if phase_on P i then do {
       x \<leftarrow> aget tol i; Some (m(vc := (m vc)(i := new_factor datum x (m vc i)))) } else Some m)"

definition auto_adjust :: "calib_para \<Rightarrow> rat list \<Rightarrow> rat list \<Rightarrow> calib \<Rightarrow> calib option" where
  "auto_adjust P u_rms i_rms c =
     (if auto_adj c \<noteq> in_progress then Some c
      else do {
        ut \<leftarrow> (if vc_adj_enable P AND 1 \<noteq> 0 then add_rms P u_rms (ato_adj_utol c) else Some (ato_adj_utol c));
        it \<leftarrow> (if vc_adj_enable P AND 2 \<noteq> 0 then add_rms P i_rms (ato_adj_itol c) else Some (ato_adj_itol c));
        let c = c\<lparr>ato_adj_utol := ut, ato_adj_itol := it, progress := progress c - 1\<rparr>;
        if progress c > 0 then Some c
        else do {
          m \<leftarrow> (if vc_adj_enable P AND 1 \<noteq> 0 then set_factors P 0 (v_datum P) ut (mdfy c) else Some (mdfy c));
          m \<leftarrow> (if vc_adj_enable P AND 2 \<noteq> 0 then set_factors P 1 (c_datum P) it m else Some m);
          Some (c\<lparr>mdfy := m, auto_adj := 0\<rparr>) } })"

definition start_get_dc_val :: "calib \<Rightarrow> calib" where
  "start_get_dc_val c = c\<lparr>get_dc := in_progress, progress := GetDCValWaitMax\<rparr>"

text \<open>The count, and 0 = done, 1 = in progress, 2 = timed out.\<close>

definition get_dcval_stat :: "calib \<Rightarrow> int \<times> int" where
  "get_dcval_stat c = (progress c, if get_dc c = 0 then 0 else if get_dc c = in_progress then 1 else 2)"

definition cancel_dc_val :: "calib \<Rightarrow> calib" where
  "cancel_dc_val c = c\<lparr>get_dc := 0\<rparr>"

definition get_sample_dc_val :: "int list \<Rightarrow> calib \<Rightarrow> calib option" where
  "get_sample_dc_val phead c =
     (if get_dc c \<noteq> in_progress then Some c
      else
        let c = c\<lparr>progress := progress c - 1\<rparr> in
        if progress c \<le> GetDCValWaitMax - 4 then do {
          f \<leftarrow> aget phead 0x66;
          if f = 0x465 then do {
            dc \<leftarrow> for_loop 0 6 (\<lambda>i dc. do { x \<leftarrow> aget phead (0x60 + i); aset dc i x }) (character_dc c);
            Some (c\<lparr>character_dc := dc, get_dc := 0\<rparr>) }
          else if progress c \<le> 0 then Some (c\<lparr>get_dc := 1\<rparr>) else Some c }
        else Some c)"

definition flagged :: "int list \<Rightarrow> bool" where
  "flagged f \<longleftrightarrow> f ! 0x66 = 0x465"

lemma dc_copied:
  assumes "length dc = 6" "0x66 < length f"
  shows "for_loop 0 6 (\<lambda>i dc. do { x \<leftarrow> aget f (0x60 + i); aset dc i x }) dc = Some (map (\<lambda>i. f ! (0x60 + i)) [0..<6])"
proof -
  obtain a b c d e g where "dc = [a, b, c, d, e, g]" using assms(1) by (auto simp: numeral_eq_Suc length_Suc_conv)
  then show ?thesis using assms(2) by (simp add: for_loop_step for_loop_empty aget_Some aset_Some upt_rec)
qed

lemma dc_idle: "get_dc c \<noteq> in_progress \<Longrightarrow> foldO get_sample_dc_val fs c = Some c"
  by (induction fs) (simp_all add: get_sample_dc_val_def)

lemma dc_run:
  assumes "get_dc c = in_progress" "0 < progress c" "nat (progress c) \<le> length fs" "\<forall>f \<in> set fs. 0x66 < length f" "length (character_dc c) = 6"
  shows "\<exists>c'. foldO get_sample_dc_val fs c = Some c' \<and>
    (let hits = filter flagged (drop (nat (progress c - 47)) (take (nat (progress c)) fs))
     in get_dc c' = (if hits = [] then 1 else 0) \<and>
        character_dc c' = (if hits = [] then character_dc c else map (\<lambda>i. hd hits ! (0x60 + i)) [0..<6]))"
  using assms
proof (induction fs arbitrary: c)
  case Nil
  then show ?case by simp
next
  case (Cons f fs)
  let ?c = "c\<lparr>progress := progress c - 1\<rparr>"
  have p: "nat (progress c) = Suc (nat (progress c - 1))" using Cons.prems(2) by simp
  have f: "aget f 0x66 = Some (f ! 0x66)" using Cons.prems(4) by (simp add: aget_Some)
  consider (early) "progress c > 47" | (hit) "progress c \<le> 47" "flagged f" | (last) "progress c = 1" "\<not> flagged f"
    | (miss) "progress c \<le> 47" "1 < progress c" "\<not> flagged f" using Cons.prems(2) by linarith
  then show ?case
  proof cases
    case early
    then have "get_sample_dc_val f c = Some ?c" using Cons.prems(1) by (simp add: get_sample_dc_val_def Let_def GetDCValWaitMax_def)
    moreover have "nat (progress c - 47) = Suc (nat (progress c - 48))" using early by simp
    moreover have "get_dc ?c = in_progress" "0 < progress ?c" "nat (progress ?c) \<le> length fs" "\<forall>f \<in> set fs. 0x66 < length f"
      "length (character_dc ?c) = 6" using Cons.prems early p by auto
    note IH = Cons.IH [OF this]
    moreover have "progress ?c - 47 = progress c - 48" by simp
    ultimately show ?thesis using p IH by (auto simp: Let_def split: if_splits)
  next
    case hit
    then have "get_sample_dc_val f c = Some (?c\<lparr>character_dc := map (\<lambda>i. f ! (0x60 + i)) [0..<6], get_dc := 0\<rparr>)"
      using Cons.prems(1,4,5) f dc_copied [of "character_dc c" f]
      by (simp add: get_sample_dc_val_def Let_def GetDCValWaitMax_def flagged_def del: upt_Suc)
    then show ?thesis using hit p by (simp add: dc_idle in_progress_def)
  next
    case last
    then have "get_sample_dc_val f c = Some (?c\<lparr>get_dc := 1\<rparr>)" using Cons.prems(1) f
      by (simp add: get_sample_dc_val_def Let_def GetDCValWaitMax_def flagged_def)
    then show ?thesis using last p by (simp add: dc_idle in_progress_def)
  next
    case miss
    then have "get_sample_dc_val f c = Some ?c" using Cons.prems(1) f
      by (simp add: get_sample_dc_val_def Let_def GetDCValWaitMax_def flagged_def)
    then show ?thesis using Cons.IH [of ?c] Cons.prems miss p by (auto simp: Let_def split: if_splits)
  qed
qed

text \<open>
  C40. The measurement of the direct component ends: once it has been started, at most fifty frames of
  data later it is done or has timed out.  It is done exactly if one of the frames from the fourth to the fiftieth carries the
  mark of the sampling board, and the six values are those of the first such frame; else they are left as they
  were.
\<close>

theorem dc_measurement_ends:
  assumes "50 \<le> length fs" "\<forall>f \<in> set fs. 0x66 < length f" "length (character_dc c) = 6"
  shows "\<exists>c'. foldO get_sample_dc_val fs (start_get_dc_val c) = Some c' \<and>
    (let hits = filter flagged (drop 3 (take 50 fs))
     in snd (get_dcval_stat c') = (if hits = [] then 2 else 0) \<and>
        character_dc c' = (if hits = [] then character_dc c else map (\<lambda>i. hd hits ! (0x60 + i)) [0..<6]))"
proof -
  have start: "get_dc (start_get_dc_val c) = in_progress" "progress (start_get_dc_val c) = 50" "character_dc (start_get_dc_val c) = character_dc c"
    by (simp_all add: start_get_dc_val_def GetDCValWaitMax_def)
  obtain c' where c': "foldO get_sample_dc_val fs (start_get_dc_val c) = Some c'"
    "let hits = filter flagged (drop 3 (take 50 fs))
     in get_dc c' = (if hits = [] then 1 else 0) \<and>
        character_dc c' = (if hits = [] then character_dc c else map (\<lambda>i. hd hits ! (0x60 + i)) [0..<6])"
    using dc_run [OF start(1), of fs, unfolded start] assms by auto
  then show ?thesis by (intro exI [of _ c']) (simp add: get_dcval_stat_def in_progress_def Let_def)
qed

definition demo_calib :: calib where
  "demo_calib = \<lparr>auto_adj = 0, progress = 0, get_dc = 0, ato_adj_utol = [0, 0, 0], ato_adj_itol = [0, 0, 0], mdfy = (\<lambda>_ _. Some 1),
     character_dc = replicate 6 9\<rparr>"

theorem dc_measurement_ends_witness:
  "\<exists>c. foldO get_sample_dc_val (replicate 7 (replicate 0x67 0) @ replicate 50 (replicate 0x66 5 @ [0x465])) (start_get_dc_val demo_calib) = Some c \<and>
     snd (get_dcval_stat c) = 0 \<and> character_dc c = replicate 6 5"
proof -
  define fs where "fs = replicate 7 (replicate 0x67 (0 :: int)) @ replicate 50 (replicate 0x66 5 @ [0x465])"
  have fl: "flagged (replicate 0x66 5 @ [0x465])" "\<not> flagged (replicate 0x67 0)"
    by (auto simp: flagged_def nth_append)
  have "drop 3 (take 50 fs) = replicate 4 (replicate 0x67 0) @ replicate 43 (replicate 0x66 5 @ [0x465])"
    by (simp add: fs_def take_replicate drop_replicate min_def)
  then have hits: "filter flagged (drop 3 (take 50 fs)) = replicate 43 (replicate 0x66 5 @ [0x465])"
    using fl by simp
  have hd: "hd (replicate 43 (replicate 0x66 5 @ [0x465 :: int])) = replicate 0x66 5 @ [0x465]" by (simp add: numeral_eq_Suc)
  have len: "50 \<le> length fs" "\<forall>f \<in> set fs. 0x66 < length f" "length (character_dc demo_calib) = 6"
    by (auto simp: fs_def demo_calib_def)
  from dc_measurement_ends [OF len] show ?thesis unfolding hits fs_def [symmetric]
    by (auto simp: hd nth_append upt_rec numeral_eq_Suc)
qed

text \<open>
  The calibration counts down the same counter.  Alone it takes ten frames and averages them; started beside the
  measurement of the direct component it takes six, divides their sum by ten and sets a factor that is too
  large by two thirds, and the measurement times out after five frames.
\<close>

definition demo_calib_para :: calib_para where
  "demo_calib_para = \<lparr>vc_adj_enable = 1, phs_adj_enable = 1, v_datum = 5770, c_datum = 500\<rparr>"

definition calib_frame :: "calib \<Rightarrow> calib option" where
  "calib_frame c = do { c \<leftarrow> auto_adjust demo_calib_para [577 / 10, 577 / 10, 577 / 10] [0, 0, 0] c; get_sample_dc_val (replicate 0x67 0) c }"

lemma calibration_alone:
  "case foldO (\<lambda>_. calib_frame) [1..10] (start_ato_adj demo_calib) of None \<Rightarrow> False | Some c \<Rightarrow> auto_adj c = 0 \<and> mdfy c 0 0 = Some 1"
  by code_simp

lemma calibration_beside_dc:
  "case foldO (\<lambda>_. calib_frame) [1..6] (start_ato_adj (start_get_dc_val demo_calib)) of None \<Rightarrow> False
   | Some c \<Rightarrow> auto_adj c = 0 \<and> mdfy c 0 0 = Some (5 / 3) \<and> snd (get_dcval_stat c) = 2"
  by code_simp

section \<open>Alarms\<close>

text \<open>The statics of \<open>indicator_light\<close>, and the word that is written to the sampling board every fourth time.\<close>

record lights =
  l_hcnt :: int
  l_cnti :: int
  l_cntj :: int

definition led_word :: "int \<Rightarrow> bool \<Rightarrow> int" where
  "led_word alarm stopped =
     (if alarm AND 0x01ff \<noteq> 0 then 0x0010 else 0) OR (if alarm AND 0x0800 \<noteq> 0 then 0x0020 else 0) OR
     (if alarm AND 0x1000 \<noteq> 0 then 0x0040 else 0) OR (if alarm AND 0x6000 \<noteq> 0 then 0x0100 else 0) OR
     (if alarm AND 0x8000 \<noteq> 0 then 0x0200 else 0) OR (if stopped then 0 else 0x0001)"

definition indicator_light :: "int \<Rightarrow> int \<Rightarrow> lights \<Rightarrow> lights \<times> int option" where
  "indicator_light harm_refresh_mon alarm l =
     (let l = (if l_hcnt l = harm_refresh_mon then l\<lparr>l_cnti := (l_cnti l + 1) mod 2 ^ 32\<rparr> else l\<lparr>l_cnti := 0, l_hcnt := harm_refresh_mon\<rparr>);
          stopped = (l_cnti l \<ge> 16);
          l = (if stopped then l\<lparr>l_cnti := 16\<rparr> else l);
          l = l\<lparr>l_cntj := (l_cntj l - 1) mod 2 ^ 32\<rparr>
      in if l_cntj l \<le> 0 then (l\<lparr>l_cntj := 4\<rparr>, Some (led_word alarm stopped)) else (l, None))"

text \<open>The lamp of the voltage deviation is driven by bit 11 alone, that of phase C.\<close>

lemma deviation_lamp_phase_c: "led_word 0x0200 True = 0" "led_word 0x0400 True = 0" "led_word 0x0800 True = 0x20"
  by (simp_all add: led_word_def)

text \<open>\<open>ScanStdyEvent\<close>: the calls of \<open>set_stdy_event\<close>; \<open>en\<close> is \<open>prmcfg->trigger_enable\<close>.\<close>

definition ScanStdyEvent :: "(int \<Rightarrow> bool) \<Rightarrow> int \<Rightarrow> int list" where
  "ScanStdyEvent en alarm =
     0 # (if alarm AND 0x3f \<noteq> 0 \<and> en 2 then [2] else []) @ (if alarm AND 0x1c0 \<noteq> 0 \<and> en 3 then [3] else []) @
     (if alarm AND 0xe00 \<noteq> 0 \<and> en 4 then [4] else []) @ (if alarm AND 0x1000 \<noteq> 0 \<and> en 1 then [1] else []) @
     (if alarm AND 0x2000 \<noteq> 0 \<and> en 5 then [5] else []) @ (if alarm AND 0x4000 \<noteq> 0 \<and> en 6 then [6] else [])"

section \<open>Recording of ten cycles\<close>

record cyc10 =
  save_cyc10 :: bool
  save_cyc10_len :: int
  c10_on_off :: bool

definition set_save_cyc10 :: "bool \<Rightarrow> cyc10 \<Rightarrow> cyc10" where
  "set_save_cyc10 val c = c\<lparr>save_cyc10 := val, save_cyc10_len := 0\<rparr>"

text \<open>The end of \<open>Harm10cycHdl\<close>; the result says whether the saving thread is notified.\<close>

definition cyc10_tail :: "cyc10 \<Rightarrow> cyc10 \<times> bool" where
  "cyc10_tail c =
     (if save_cyc10 c \<or> c10_on_off c then
        (let c = c\<lparr>c10_on_off := save_cyc10 c\<rparr>; long = save_cyc10_len c > 200; c = c\<lparr>save_cyc10_len := save_cyc10_len c + 1\<rparr>
         in (if long then c\<lparr>c10_on_off := False, save_cyc10 := False\<rparr> else c, True))
      else (c, False))"

fun cyc10_notices :: "nat \<Rightarrow> cyc10 \<Rightarrow> nat" where
  "cyc10_notices 0 c = 0"
| "cyc10_notices (Suc n) c = (case cyc10_tail c of (c, b) \<Rightarrow> (if b then 1 else 0) + cyc10_notices n c)"

lemma cyc10_off: "\<not> save_cyc10 c \<Longrightarrow> \<not> c10_on_off c \<Longrightarrow> cyc10_notices n c = 0"
  by (induction n) (simp_all add: cyc10_tail_def)

lemma cyc10_count: "save_cyc10 c \<Longrightarrow> 0 \<le> save_cyc10_len c \<Longrightarrow> save_cyc10_len c \<le> 201 \<Longrightarrow>
    cyc10_notices n c = min n (nat (202 - save_cyc10_len c))"
proof (induction n arbitrary: c)
  case 0
  then show ?case by simp
next
  case (Suc n)
  show ?case
  proof (cases "save_cyc10_len c = 201")
    case True
    then show ?thesis using Suc.prems by (simp add: cyc10_tail_def Let_def cyc10_off)
  next
    case False
    let ?c = "c\<lparr>c10_on_off := True, save_cyc10_len := save_cyc10_len c + 1\<rparr>"
    have "cyc10_tail c = (?c, True)" using Suc.prems False by (simp add: cyc10_tail_def Let_def)
    moreover have "nat (202 - save_cyc10_len c) = Suc (nat (201 - save_cyc10_len c))" using Suc.prems(3) by simp
    ultimately show ?thesis using Suc.IH [of ?c] Suc.prems False by simp
  qed
qed

text \<open>A recording that is switched on stops by itself after 202 refreshes.\<close>

lemma cyc10_stops: "cyc10_notices n (set_save_cyc10 True c) = min n 202"
  using cyc10_count [of "set_save_cyc10 True c" n] by (simp add: set_save_cyc10_def)

end
