(* ===== verification/Other_Func.thy ===== *)
theory Other_Func
  imports Pqm_Func Loop_Buf
begin

unbundle bit_operations_syntax

text \<open>
  Frequency, unbalance, voltage deviation and their alarms (\<open>main/src/pqm_func/other_func.cpp\<close>).  The
  frequency and the sequence components are integers, as in the code; \<open>float\<close> values (voltages, flicker, limits
  after a division) are exact rational numbers, their rounding is not modelled.  What is written to shared memory is a list
  of values that the operation returns.
\<close>

section \<open>Frequency\<close>

record fsave =
  fs_time :: int
  fs_data :: int
  fs_q :: int

record freqs =
  frequency :: "int list"
  freq_idx :: int
  freq_max :: int
  freq_avg :: int
  freq_min :: int
  freq_max2 :: int
  freq_avg2 :: int
  freq_min2 :: int
  freq_cnt :: int
  freq_refresh :: int
  freq_q :: int
  freq_save :: "fsave loopbuf"

definition InitFreq :: "freqs \<Rightarrow> freqs" where
  "InitFreq s = s\<lparr>freq_max := 0, freq_avg := 0, freq_min := 8000, freq_refresh := 0\<rparr>"

text \<open>\<open>low\<close>: the first voltage is below one volt.\<close>

definition clean_freq :: "bool \<Rightarrow> int \<Rightarrow> int" where
  "clean_freq low f = (if low \<or> f = 0 then 0 else if f < 3500 \<or> f > 7000 then 5000 else f)"

definition SetFrequency :: "bool \<Rightarrow> int list \<Rightarrow> int \<Rightarrow> freqs \<Rightarrow> freqs option" where
  "SetFrequency low freq revaltm s = do {
     fr \<leftarrow> for_loop 0 2 (\<lambda>i fr. do { f \<leftarrow> aget freq i; aset fr i (clean_freq low f) }) (frequency s);
     f \<leftarrow> aget fr revaltm;
     Some (s\<lparr>frequency := fr, freq_idx := revaltm,
             freq_max := (if f > freq_max s then f else freq_max s), freq_avg := freq_avg s + f,
             freq_min := (if f < freq_min s then f else freq_min s), freq_refresh := freq_refresh s + 1,
             freq_max2 := (if f > freq_max2 s then f else freq_max2 s), freq_avg2 := freq_avg2 s + f,
             freq_min2 := (if f < freq_min2 s then f else freq_min2 s), freq_cnt := freq_cnt s + 1\<rparr>) }"

text \<open>
  \<open>WriteStat2Shm (kFreqSave, \<dots>)\<close>: maximum, average and minimum go to shared memory (in hundredths of a hertz), the
  statistics for it are started anew, and the quality is that of the event mark.  The division by a count of
  zero is a failure.
\<close>

definition write_freq_stat :: "bool \<Rightarrow> freqs \<Rightarrow> (freqs \<times> int list) option" where
  "write_freq_stat marked s =
     (if freq_cnt s = 0 then None
      else let avg = freq_avg2 s sdiv freq_cnt s in
        Some (s\<lparr>freq_max2 := 0, freq_avg2 := 0, freq_min2 := 8000, freq_cnt := 0, freq_q := (if marked then 0xc0 OR 0x4000 else 0)\<rparr>,
              [freq_max2 s, avg, freq_min2 s]))"

definition far_freq :: "int \<Rightarrow> int \<Rightarrow> int" where
  "far_freq mx mn = (if mx - 5000 > 5000 - mn then mx else mn)"

definition AggregateFreq :: "int \<Rightarrow> bool \<Rightarrow> int \<Rightarrow> bool \<Rightarrow> freqs \<Rightarrow> (freqs \<times> int list) option" where
  "AggregateFreq freq_save_type marked time adj_tm s =
     (if freq_refresh s = 0 then None
      else do {
        let s = s\<lparr>freq_avg := freq_avg s sdiv freq_refresh s\<rparr>;
        let data = u16 (if freq_save_type \<noteq> 0 then freq_avg s else far_freq (freq_max s) (freq_min s));
        (s, shm) \<leftarrow> write_freq_stat marked s;
        (r, lb) \<leftarrow> Push \<lparr>fs_time = time, fs_data = data, fs_q = (if adj_tm then freq_q s OR 1 else freq_q s)\<rparr> (freq_save s);
        Some (s\<lparr>freq_save := lb\<rparr>, shm) })"

text \<open>\<open>get_save_data\<close> for the frequency: the result and what is stored through \<open>pdata\<close>.\<close>

definition get_freq_data :: "fsave \<Rightarrow> freqs \<Rightarrow> (int \<times> fsave \<times> freqs) option" where
  "get_freq_data pdata s = do {
     (r, d, lb) \<leftarrow> Pop pdata (freq_save s);
     Some (if fs_q d AND 1 \<noteq> 0 then (1, d\<lparr>fs_q := fs_q d AND 0xfffe\<rparr>, s\<lparr>freq_save := lb\<rparr>) else (r, d, s\<lparr>freq_save := lb\<rparr>)) }"

subsection \<open>Statistics\<close>

text \<open>The values that are counted, of a sequence of calls of \<open>SetFrequency\<close>.\<close>

definition counted :: "(bool \<times> int list \<times> int) list \<Rightarrow> int list" where
  "counted xs = map (\<lambda>(low, freq, i). clean_freq low (freq ! nat i)) xs"

definition calls_ok :: "(bool \<times> int list \<times> int) list \<Rightarrow> bool" where
  "calls_ok xs \<longleftrightarrow> (\<forall>(low, freq, i) \<in> set xs. length freq = 2 \<and> (\<forall>f \<in> set freq. 0 \<le> f) \<and> (i = 0 \<or> i = 1))"

lemma clean_freq_range: "0 \<le> f \<Longrightarrow> 0 \<le> clean_freq low f \<and> clean_freq low f \<le> 7000"
  by (simp add: clean_freq_def)

lemma SetFrequency_eq:
  assumes "length freq = 2" "i = 0 \<or> i = 1" "length (frequency s) = 2"
  shows "SetFrequency low freq i s =
    (let f = clean_freq low (freq ! nat i) in
     Some (s\<lparr>frequency := map (clean_freq low) freq, freq_idx := i, freq_max := max f (freq_max s), freq_avg := freq_avg s + f,
             freq_min := min f (freq_min s), freq_refresh := freq_refresh s + 1, freq_max2 := max f (freq_max2 s),
             freq_avg2 := freq_avg2 s + f, freq_min2 := min f (freq_min2 s), freq_cnt := freq_cnt s + 1\<rparr>))"
proof -
  obtain a b c d where "freq = [a, b]" "frequency s = [c, d]"
    using assms(1,3) by (auto simp: numeral_eq_Suc length_Suc_conv)
  moreover have "(if f > m then f else m) = max f m" "(if f < m then f else m) = min f m" for f m :: int by auto
  ultimately show ?thesis using assms(2)
    by (elim disjE) (simp_all add: SetFrequency_def for_loop_step for_loop_empty aget_Some aset_Some Let_def del: max_def min_def)
qed

lemma freq_run:
  assumes "calls_ok xs" "length (frequency s) = 2" "0 \<le> freq_max s" "0 \<le> freq_cnt s"
  shows "\<exists>t. foldO (\<lambda>(low, freq, i). SetFrequency low freq i) xs s = Some t \<and>
    freq_max t = fold max (counted xs) (freq_max s) \<and> freq_min t = fold min (counted xs) (freq_min s) \<and>
    freq_avg t = freq_avg s + sum_list (counted xs) \<and> freq_refresh t = freq_refresh s + int (length xs) \<and>
    freq_cnt t = freq_cnt s + int (length xs) \<and> freq_save t = freq_save s \<and>
    freq_max2 t = fold max (counted xs) (freq_max2 s) \<and> freq_min2 t = fold min (counted xs) (freq_min2 s) \<and>
    freq_avg2 t = freq_avg2 s + sum_list (counted xs)"
  using assms
proof (induction xs arbitrary: s)
  case Nil
  then show ?case by (simp add: counted_def)
next
  case (Cons x xs)
  obtain low freq i where x: "x = (low, freq, i)" by (cases x)
  have ok: "length freq = 2" "i = 0 \<or> i = 1" "calls_ok xs" using Cons.prems(1) by (auto simp: calls_ok_def x)
  let ?f = "clean_freq low (freq ! nat i)"
  obtain t where t: "SetFrequency low freq i s = Some t" "length (frequency t) = 2" "freq_max t = max ?f (freq_max s)"
    "freq_min t = min ?f (freq_min s)" "freq_avg t = freq_avg s + ?f" "freq_refresh t = freq_refresh s + 1"
    "freq_cnt t = freq_cnt s + 1" "freq_save t = freq_save s" "freq_max2 t = max ?f (freq_max2 s)"
    "freq_min2 t = min ?f (freq_min2 s)" "freq_avg2 t = freq_avg2 s + ?f"
    using ok(1) by (simp add: SetFrequency_eq [OF ok(1,2) Cons.prems(2)] Let_def)
  have "0 \<le> freq_max t" "0 \<le> freq_cnt t" using t(3,7) Cons.prems(3,4) by auto
  from Cons.IH [OF ok(3) t(2) this] show ?case unfolding t(3-) by (simp add: x counted_def t(1) add.assoc)
qed

lemma fold_max_min:
  fixes b :: int
  assumes "vs \<noteq> []"
  shows "\<forall>v \<in> set vs. b \<le> v \<Longrightarrow> fold max vs b = Max (set vs)" "\<forall>v \<in> set vs. v \<le> b \<Longrightarrow> fold min vs b = Min (set vs)"
proof -
  have ne: "finite (set vs)" "set vs \<noteq> {}" using assms by auto
  show "fold max vs b = Max (set vs)" if "\<forall>v \<in> set vs. b \<le> v"
    using Max.set_eq_fold [of b vs] Max_insert [OF ne, of b] Max_in [OF ne] that by (simp add: max_absorb2)
  show "fold min vs b = Min (set vs)" if "\<forall>v \<in> set vs. v \<le> b"
    using Min.set_eq_fold [of b vs] Min_insert [OF ne, of b] Min_in [OF ne] that by (simp add: min_absorb2)
qed

lemma far_freq_farthest:
  assumes "finite V" "V \<noteq> {}" "v \<in> V"
  shows "far_freq (Max V) (Min V) \<in> V \<and> \<bar>v - 5000\<bar> \<le> \<bar>far_freq (Max V) (Min V) - 5000\<bar>"
proof -
  have "Min V \<le> v" "v \<le> Max V" "Max V \<in> V" "Min V \<in> V" using assms by auto
  then show ?thesis by (auto simp: far_freq_def)
qed

text \<open>
  C19. A frequency record is right: after the statistics have been started, whatever frequencies come in (at
  least one, cleaned of impossible values), the record that is saved holds their average, rounded down, or, when
  the record is to hold the extreme, one of them that is farthest from 50 Hz; and shared memory gets the maximum, the
  average and the minimum.  The record is appended to the ring of records, its quality says whether the clock was
  adjusted.
\<close>

theorem frequency_record:
  assumes "calls_ok xs" "xs \<noteq> []" "length (frequency s) = 2" "lb_inv 4 (freq_save s)"
    "freq_max2 s = 0" "freq_avg2 s = 0" "freq_min2 s = 8000" "freq_cnt s = 0"
  defines "vs \<equiv> counted xs"
  shows "\<exists>s1 s2. foldO (\<lambda>(low, freq, i). SetFrequency low freq i) xs (InitFreq s) = Some s1 \<and>
    AggregateFreq ty marked time adj s1 = Some (s2, [Max (set vs), sum_list vs div int (length vs), Min (set vs)]) \<and>
    (\<exists>r. (ty \<noteq> 0 \<longrightarrow> fs_data r = sum_list vs div int (length vs)) \<and>
      (ty = 0 \<longrightarrow> fs_data r \<in> set vs \<and> (\<forall>v \<in> set vs. \<bar>v - 5000\<bar> \<le> \<bar>fs_data r - 5000\<bar>)) \<and>
      fs_time r = time \<and> (fs_q r AND 1 \<noteq> 0 \<longleftrightarrow> adj) \<and>
      lb_list (freq_save s2) = snd (bq_push 15 r (lb_list (freq_save s))))"
proof -
  have range: "\<forall>v \<in> set vs. 0 \<le> v \<and> v \<le> 7000"
    using assms(1) clean_freq_range by (fastforce simp: vs_def counted_def calls_ok_def)
  have ne: "vs \<noteq> []" "length vs = length xs" using assms(2) by (simp_all add: vs_def counted_def)
  have mm: "fold max vs 0 = Max (set vs)" "fold min vs 8000 = Min (set vs)"
    using range by (intro fold_max_min [OF ne(1)]; force)+
  let ?i = "InitFreq s"
  obtain s1 where s1: "foldO (\<lambda>(low, freq, i). SetFrequency low freq i) xs ?i = Some s1"
    "freq_max s1 = Max (set vs)" "freq_min s1 = Min (set vs)" "freq_avg s1 = sum_list vs" "freq_refresh s1 = int (length vs)"
    "freq_cnt s1 = int (length vs)" "freq_save s1 = freq_save s" "freq_max2 s1 = Max (set vs)" "freq_min2 s1 = Min (set vs)"
    "freq_avg2 s1 = sum_list vs"
    using freq_run [OF assms(1), of ?i] assms(3,5-8) mm ne(2) by (auto simp: InitFreq_def vs_def)
  define n where "n = int (length vs)"
  have n: "0 < n" using ne(1) by (simp add: n_def)
  have sum: "0 \<le> sum_list vs" "sum_list vs \<le> 7000 * n"
    using range unfolding n_def by (induction vs) auto
  have avg: "sum_list vs sdiv n = sum_list vs div n" using sum(1) n by (simp add: sdiv_nonneg)
  have "sum_list vs div n \<le> 7000" using sum(2) n by (metis nonzero_mult_div_cancel_right order_less_irrefl zdiv_mono1)
  moreover have "0 \<le> sum_list vs div n" using sum(1) n by (simp add: pos_imp_zdiv_nonneg_iff)
  ultimately have avg_range: "u16 (sum_list vs div n) = sum_list vs div n" by (simp add: u16_def mod_pos_pos_trivial)
  have far: "far_freq (Max (set vs)) (Min (set vs)) \<in> set vs" "\<forall>v \<in> set vs. \<bar>v - 5000\<bar> \<le> \<bar>far_freq (Max (set vs)) (Min (set vs)) - 5000\<bar>"
    using far_freq_farthest [of "set vs"] ne(1) by (auto, metis List.finite_set hd_in_set set_empty)
  have far_range: "u16 (far_freq (Max (set vs)) (Min (set vs))) = far_freq (Max (set vs)) (Min (set vs))"
    using far(1) range by (auto simp: u16_def mod_pos_pos_trivial)
  define q where "q = (if marked then 0xc0 OR 0x4000 else (0 :: int))"
  define r where "r = \<lparr>fs_time = time, fs_data = (if ty \<noteq> 0 then sum_list vs div n else far_freq (Max (set vs)) (Min (set vs))),
      fs_q = (if adj then q OR 1 else q)\<rparr>"
  obtain c lb where lb: "Push r (freq_save s) = Some (c, lb)" "(c, lb_list lb) = bq_push (lb_cap (freq_save s)) r (lb_list (freq_save s))"
    using lbq.push [OF assms(4), of r] by blast
  have cap: "lb_cap (freq_save s) = 15" using lb_inv_cap [OF assms(4)] by simp
  define s2 where "s2 = s1\<lparr>freq_avg := sum_list vs div n, freq_max2 := 0, freq_avg2 := 0, freq_min2 := 8000, freq_cnt := 0,
        freq_q := q, freq_save := lb\<rparr>"
  have agg: "AggregateFreq ty marked time adj s1 = Some (s2, [Max (set vs), sum_list vs div n, Min (set vs)])"
  proof -
    have "write_freq_stat marked (s1\<lparr>freq_avg := sum_list vs div n\<rparr>) = Some (s1\<lparr>freq_avg := sum_list vs div n, freq_max2 := 0,
        freq_avg2 := 0, freq_min2 := 8000, freq_cnt := 0, freq_q := q\<rparr>, [Max (set vs), sum_list vs div n, Min (set vs)])"
      using n by (simp add: write_freq_stat_def s1(2-10) n_def [symmetric] avg q_def Let_def)
    then show ?thesis using n lb(1) unfolding AggregateFreq_def r_def s2_def
      by (cases "ty = 0"; cases adj) (simp_all add: s1(2-10) n_def [symmetric] avg avg_range far_range Let_def)
  qed
  have "(fs_q r AND 1 \<noteq> 0) = adj" by (simp add: r_def q_def)
  moreover have "lb_list (freq_save s2) = snd (bq_push 15 r (lb_list (freq_save s)))"
    using lb(2) cap by (simp add: s2_def) (metis snd_conv)
  moreover have "ty \<noteq> 0 \<longrightarrow> fs_data r = sum_list vs div n" "fs_time r = time" by (simp_all add: r_def)
  moreover have "ty = 0 \<longrightarrow> fs_data r \<in> set vs \<and> (\<forall>v \<in> set vs. \<bar>v - 5000\<bar> \<le> \<bar>fs_data r - 5000\<bar>)" using far by (simp add: r_def)
  ultimately show ?thesis using s1(1) agg unfolding n_def by blast
qed

text \<open>The three outputs of the half second that starts a minute, with an impossible value and a missing voltage.\<close>

definition demo_freqs :: freqs where
  "demo_freqs = \<lparr>frequency = [0, 0], freq_idx = 0, freq_max = 1, freq_avg = 2, freq_min = 3, freq_max2 = 0, freq_avg2 = 0,
     freq_min2 = 8000, freq_cnt = 0, freq_refresh = 4, freq_q = 0,
     freq_save = \<lparr>lb_size = 15, lb_head = 0, lb_tail = 0, lb_pos = 0, lb_buffer = replicate 16 \<lparr>fs_time = 0, fs_data = 0, fs_q = 0\<rparr>,
       lb_trash = \<lparr>fs_time = 0, fs_data = 0, fs_q = 0\<rparr>\<rparr>\<rparr>"

theorem frequency_record_witness:
  "\<exists>s1 s2. foldO (\<lambda>(low, freq, i). SetFrequency low freq i) [(False, [5003, 5001], 0), (False, [9000, 5001], 0), (False, [4996, 5000], 0)]
      (InitFreq demo_freqs) = Some s1 \<and> AggregateFreq 0 False 600 True s1 = Some (s2, [5003, 4999, 4996])"
proof -
  have "lb_inv 4 (freq_save demo_freqs)" by (simp add: lb_inv_def demo_freqs_def)
  moreover have "calls_ok [(False, [5003, 5001], 0), (False, [9000, 5001], 0), (False, [4996, 5000], 0)]" by (simp add: calls_ok_def)
  ultimately show ?thesis
    using frequency_record [of "[(False, [5003, 5001], 0), (False, [9000, 5001], 0), (False, [4996, 5000], 0)]" demo_freqs 0 False 600 True]
    by (auto simp: demo_freqs_def counted_def clean_freq_def)
qed

text \<open>Without a value in the interval the average is a division by zero.\<close>

lemma no_frequency_fails: "AggregateFreq ty marked time adj (InitFreq s) = None"
  by (simp add: AggregateFreq_def InitFreq_def)

text \<open>Reading from the empty ring reports an adjusted clock when the caller's buffer has the bit set.\<close>

lemma empty_ring_reports: "lb_list (freq_save s) = [] \<Longrightarrow> lb_inv 4 (freq_save s) \<Longrightarrow> fs_q d AND 1 \<noteq> 0 \<Longrightarrow>
    get_freq_data d s = Some (1, d\<lparr>fs_q := fs_q d AND 0xfffe\<rparr>, s)"
  using lb_list_empty_iff [of 4 "freq_save s"] by (simp add: get_freq_data_def Pop_def)

text \<open>A record comes out as it was put in, without the bit of the adjusted clock, which is the result.\<close>

lemma get_freq_data_first:
  assumes "lb_inv 4 (freq_save s)" "lb_list (freq_save s) = r # rs"
  shows "\<exists>s'. get_freq_data d s = Some (if fs_q r AND 1 \<noteq> 0 then 1 else 0,
      if fs_q r AND 1 \<noteq> 0 then r\<lparr>fs_q := fs_q r AND 0xfffe\<rparr> else r, s') \<and>
    lb_inv 4 (freq_save s') \<and> lb_list (freq_save s') = rs"
proof -
  obtain t where t: "lb_take d (freq_save s) = Some (Some r, t)" "lb_inv 4 t" "lb_list t = rs"
    using lbq.pop_first [OF assms(1), of d] assms(2) by auto
  then have "Pop d (freq_save s) = Some (0, r, t)"
    by (auto simp: lb_take_def Pop_def split: option.splits if_splits)
  then show ?thesis using t(2,3) by (auto simp: get_freq_data_def)
qed

section \<open>Unbalance\<close>

text \<open>Rows for voltage and current; in a row zero, positive and negative sequence, unbalance and zero unbalance.\<close>

record unblc =
  unb :: "int list list"
  unb_sq :: "int list list"
  unb_max :: "int list list"
  unb_min :: "int list list"
  unb_refresh :: int

definition InitUnblc :: "unblc" where
  "InitUnblc = \<lparr>unb = replicate 2 (replicate 5 0), unb_sq = replicate 2 (replicate 5 0), unb_max = replicate 2 (replicate 5 0),
     unb_min = replicate 2 (replicate 5 0xffff), unb_refresh = 0\<rparr>"

text \<open>
  \<open>fi = a; fi = fi / b; fi * 10000 > 65000 ? 65533 : fi * 10000\<close>, converted to \<open>unsigned short\<close>: a quotient by
  zero is infinite, or no number, whose conversion is undefined.
\<close>

definition ratio :: "int \<Rightarrow> int \<Rightarrow> int option" where
  "ratio a b =
     (if b = 0 then (if a = 0 then None else Some 65533)
      else if a * 10000 > 65000 * b then Some 65533 else Some (a * 10000 div b))"

text \<open>The assignment \<open>array[i][1] = 0.001\<close> stores 0 in the \<open>unsigned short\<close>.\<close>

definition unbalance_row :: "int \<Rightarrow> int \<times> int \<times> int \<Rightarrow> int list option" where
  "unbalance_row k = (\<lambda>(zer, pos, neg).
     if zer < k \<and> pos < k \<and> neg < k then Some [zer, pos, neg, 0, 0]
     else do { n \<leftarrow> ratio neg pos; z \<leftarrow> ratio zer pos; Some [zer, pos, neg, n, z] })"

definition SetUnbalance :: "bool \<Rightarrow> int \<times> int \<times> int \<Rightarrow> int \<times> int \<times> int \<Rightarrow> unblc \<Rightarrow> unblc option" where
  "SetUnbalance vv pu pc s = do {
     u \<leftarrow> unbalance_row 5 (if vv then (0, snd pu) else pu);
     i \<leftarrow> unbalance_row 10 (if vv then (0, snd pc) else pc);
     let a = [u, i] in
     Some (s\<lparr>unb := a, unb_sq := map2 (map2 (\<lambda>q x. q + x * x)) (unb_sq s) a,
             unb_max := map2 (map2 (\<lambda>m x. if m < x then x else m)) (unb_max s) a,
             unb_min := map2 (map2 (\<lambda>m x. if m > x then x else m)) (unb_min s) a, unb_refresh := unb_refresh s + 1\<rparr>) }"

lemma unbalance_row_right: "0 < p \<Longrightarrow> 0 \<le> z \<Longrightarrow> 0 \<le> n \<Longrightarrow> z \<le> 65535 \<Longrightarrow> n \<le> 65535 \<Longrightarrow>
   \<exists>u v. unbalance_row k (z, p, n) = Some [z, p, n, u, v] \<and> 0 \<le> u \<and> u \<le> 65533 \<and> 0 \<le> v \<and> v \<le> 65533"
proof -
  assume a: "0 < p" "0 \<le> z" "0 \<le> n" "z \<le> 65535" "n \<le> 65535"
  have "\<exists>u. ratio x p = Some u \<and> 0 \<le> u \<and> u \<le> 65533" if "0 \<le> x" for x
  proof (cases "x * 10000 > 65000 * p")
    case False
    then have "x * 10000 div p \<le> 65000 * p div p" by (intro zdiv_mono1) (use a in auto)
    then show ?thesis using a False that by (simp add: ratio_def pos_imp_zdiv_nonneg_iff)
  qed (use a in \<open>simp add: ratio_def\<close>)
  then obtain u v where "ratio n p = Some u" "0 \<le> u" "u \<le> 65533" "ratio z p = Some v" "0 \<le> v" "v \<le> 65533"
    using a(2,3) by metis
  then show ?thesis by (simp add: unbalance_row_def)
qed

text \<open>Without positive sequence the guard against it divides by zero all the same.\<close>

lemma no_positive_sequence: "unbalance_row 5 (0, 0, 5) = None"
  by (simp add: unbalance_row_def ratio_def)

section \<open>Alarms\<close>

record alarm_in =
  ai_freq :: int
  ai_unb :: "int list list"
  ai_unblc_thr :: "rat list"
  ai_neg_thr :: rat
  ai_limit_type :: int
  ai_freq_limit :: "int list"
  ai_over :: "rat list"
  ai_under :: "rat list"
  ai_din :: rat
  ai_warp :: "rat list"
  ai_pt1 :: int
  ai_pst_limit :: rat
  ai_plt_limit :: rat
  ai_pst :: "rat list"
  ai_plt :: "rat list"

text \<open>The alarms in shared memory (\<open>SetAlm\<close>), and the relays (\<open>set_alarm (1, \<dots>)\<close>).\<close>

datatype alarm_out = AlmUnblc int | AlmFreq int | AlmDev int | AlmPst int | AlmPlt int | Relay int

definition flag :: "u32 \<Rightarrow> nat \<Rightarrow> bool \<Rightarrow> u32" where
  "flag w n b = (if b then w OR push_bit n 1 else w AND NOT (push_bit n 1))"

definition AlarmCheckUnbalance :: "alarm_in \<Rightarrow> u32 \<Rightarrow> u32 \<times> alarm_out list" where
  "AlarmCheckUnbalance A w =
     (let over = (\<exists>i \<in> {0, 1}. of_int (ai_unb A ! i ! 3) > ai_unblc_thr A ! i / 10);
          w = flag w 13 over
      in (flag w 14 (of_int (ai_unb A ! 1 ! 2) > ai_neg_thr A / 10), [AlmUnblc (if over then 1 else 0)]))"

definition freq_limits :: "alarm_in \<Rightarrow> int \<times> int" where
  "freq_limits A = (if ai_limit_type A = 0 then (4980, 5020) else (5000 - ai_freq_limit A ! 1, 5000 + ai_freq_limit A ! 0))"

definition AlarmCheckFreq :: "alarm_in \<Rightarrow> u32 \<Rightarrow> u32 \<times> alarm_out list" where
  "AlarmCheckFreq A w =
     (case freq_limits A of (low, high) \<Rightarrow>
       (flag w 12 (ai_freq A < low \<or> ai_freq A > high),
        [AlmFreq (if ai_freq A > high then 1 else if ai_freq A < low then 2 else 0)]))"

definition dev_over :: "alarm_in \<Rightarrow> nat \<Rightarrow> bool" where
  "dev_over A j \<longleftrightarrow> (ai_over A ! j - ai_din A) / ai_din A > ai_warp A ! 0"

definition dev_under :: "alarm_in \<Rightarrow> nat \<Rightarrow> bool" where
  "dev_under A j \<longleftrightarrow> (ai_under A ! j - ai_din A) / ai_din A < ai_warp A ! 1"

text \<open>The alarm in shared memory is that of the values which the loop leaves behind, those of the last phase.\<close>

definition AlarmCheckDeviation :: "alarm_in \<Rightarrow> u32 \<Rightarrow> u32 \<times> alarm_out list" where
  "AlarmCheckDeviation A w =
     (fold (\<lambda>j w. flag w (9 + j) (dev_over A j \<or> dev_under A j)) [0, 1, 2] w,
      [AlmDev (if dev_over A 2 then 1 else if dev_under A 2 then 2 else 0)])"

definition pst_limit :: "alarm_in \<Rightarrow> rat" where
  "pst_limit A = (if ai_limit_type A = 0 then (if ai_pt1 A \<le> 1000 then 1 else if ai_pt1 A \<le> 35000 then 9 / 10 else 8 / 10)
                  else ai_pst_limit A / 100)"

definition plt_limit :: "alarm_in \<Rightarrow> rat" where
  "plt_limit A = (if ai_limit_type A = 0 then (if ai_pt1 A \<le> 110000 then 1 else 8 / 10) else ai_plt_limit A / 100)"

definition phase_bits :: "rat list \<Rightarrow> rat \<Rightarrow> int" where
  "phase_bits ps limit = fold (\<lambda>i w. if ps ! i > limit then w OR push_bit i 1 else w) [0, 1, 2] 0"

definition AlarmCheckPst :: "alarm_in \<Rightarrow> u32 \<Rightarrow> u32 \<times> alarm_out list" where
  "AlarmCheckPst A w =
     (let pst = phase_bits (ai_pst A) (pst_limit A); plt = phase_bits (ai_plt A) (plt_limit A)
      in (flag w 15 (plt \<noteq> 0), [AlmPst (if pst AND 7 \<noteq> 0 then 1 else 0), AlmPlt (if plt AND 7 \<noteq> 0 then 1 else 0), Relay plt]))"

definition AlarmCheck :: "alarm_in \<Rightarrow> u32 \<Rightarrow> u32 \<times> alarm_out list" where
  "AlarmCheck A w =
     (if ai_freq A = 0 then (0, [])
      else case AlarmCheckUnbalance A w of (w, o1) \<Rightarrow>
           (case AlarmCheckFreq A w of (w, o2) \<Rightarrow>
           (case AlarmCheckDeviation A w of (w, o3) \<Rightarrow>
           (case AlarmCheckPst A w of (w, o4) \<Rightarrow> (w, o1 @ o2 @ o3 @ o4)))))"

lemma bit_flag: "n < 32 \<Longrightarrow> bit (flag w n b) m = (if m = n then b else bit w m)"
  by (auto simp: flag_def bit_simps dest: bit_imp_le_length)

lemma phase_bits_zero: "phase_bits ps limit = 0 \<longleftrightarrow> (\<forall>i < 3. ps ! i \<le> limit)"
  by (auto simp: phase_bits_def less_Suc_eq numeral_3_eq_3 numeral_2_eq_2 or_eq_0_iff not_le)

text \<open>
  Every bit of the alarm word says what it stands for: after a check with a signal, bits 9 to 11 are
  the voltage deviations of the phases, 12 the frequency, 13 the unbalance of voltage or current, 14 the negative
  sequence of the current and 15 the long-term flicker, and all other bits are as they were; without a signal
  the word is cleared.
\<close>

lemma alarm_word_right:
  "bit (fst (AlarmCheck A w)) n =
    (ai_freq A \<noteq> 0 \<and>
     (if n \<in> {9, 10, 11} then dev_over A (n - 9) \<or> dev_under A (n - 9)
      else if n = 12 then ai_freq A < fst (freq_limits A) \<or> ai_freq A > snd (freq_limits A)
      else if n = 13 then of_int (ai_unb A ! 0 ! 3) > ai_unblc_thr A ! 0 / 10 \<or> of_int (ai_unb A ! 1 ! 3) > ai_unblc_thr A ! 1 / 10
      else if n = 14 then of_int (ai_unb A ! 1 ! 2) > ai_neg_thr A / 10
      else if n = 15 then \<exists>i < 3. ai_plt A ! i > plt_limit A
      else bit w n))"
  by (auto simp: AlarmCheck_def AlarmCheckUnbalance_def AlarmCheckFreq_def AlarmCheckDeviation_def AlarmCheckPst_def bit_flag phase_bits_zero
      Let_def not_le split: prod.splits)

text \<open>The short-term flicker reaches neither the word nor the relays.\<close>

lemma pst_not_in_word: "fst (AlarmCheck (A\<lparr>ai_pst := p\<rparr>) w) = fst (AlarmCheck A w)"
  by (simp add: AlarmCheck_def AlarmCheckUnbalance_def AlarmCheckFreq_def AlarmCheckDeviation_def AlarmCheckPst_def freq_limits_def
      dev_over_def dev_under_def plt_limit_def pst_limit_def Let_def split: prod.splits)

text \<open>A deviation of the phases A and B is not reported to shared memory.\<close>

lemma deviation_only_phase_c: "\<not> dev_over A 2 \<Longrightarrow> \<not> dev_under A 2 \<Longrightarrow> snd (AlarmCheckDeviation A w) = [AlmDev 0]"
  by (simp add: AlarmCheckDeviation_def)

section \<open>Long-term flicker\<close>

text \<open>
  The values of the last two hours: each is stored at the count; at a full even hour the mean of the cubes (whose cubic
  root is the long-term flicker) is taken and the count starts anew, and so it does at twenty.
\<close>

definition cube_mean :: "rat list \<Rightarrow> int \<Rightarrow> rat" where
  "cube_mean row n = sum_list (map (\<lambda>x. x * x * x) (take (nat n) row)) / of_int n"

definition AggregatePst :: "bool \<Rightarrow> rat list \<Rightarrow> rat list list \<times> int \<Rightarrow> (rat list option \<times> rat list list \<times> int) option" where
  "AggregatePst even_hour pst = (\<lambda>(buf, cnt). do {
     buf \<leftarrow> for_loop 0 3 (\<lambda>i buf. do { row \<leftarrow> aget buf i; x \<leftarrow> aget pst i; row \<leftarrow> aset row cnt x; aset buf i row }) buf;
     let cnt = cnt + 1;
     let (res, cnt) = (if even_hour then (Some (map (\<lambda>row. cube_mean row cnt) buf), 0) else (None, cnt)) in
     Some (res, buf, if cnt \<ge> 20 then 0 else cnt) })"

text \<open>The buffer of twenty values is never left, and no mean is taken of nothing.\<close>

lemma AggregatePst_safe:
  assumes "length pst = 3" "length buf = 3" "\<forall>r \<in> set buf. length r = 20" "0 \<le> cnt" "cnt < 20"
  shows "\<exists>res buf' cnt'. AggregatePst e pst (buf, cnt) = Some (res, buf', cnt') \<and>
    length buf' = 3 \<and> (\<forall>r \<in> set buf'. length r = 20) \<and> 0 \<le> cnt' \<and> cnt' < 20 \<and> (e \<longrightarrow> cnt' = 0)"
proof -
  obtain a b c where "buf = [a, b, c]" using assms(2) by (auto simp: numeral_eq_Suc length_Suc_conv)
  then show ?thesis using assms
    by (simp add: AggregatePst_def for_loop_step for_loop_empty aget_Some aset_Some Let_def)
qed

end
