(* ===== verification/Transt_Anal.thy ===== *)
theory Transt_Anal
  imports Loop_Buf Complex_Main
begin

text \<open>
  Analysis of a transient event (\<open>main/src/pqm_func/transt_analysis.cpp\<close>): the effective value of every phase is
  followed with the sum of the squares of the samples of one cycle; the squares wait in a ring of
  \<open>float\<close>, the sums are \<open>double\<close>.  A square is rounded to 24 bits (\<open>f32\<close>) as the multiplication of two \<open>float\<close>
  does; the sums of such integers are far below \<open>2 ^ 53\<close> and therefore exact.  Thresholds are exact rationals.
\<close>

section \<open>Single precision integers\<close>

text \<open>The number of low bits that an integer loses, and rounding to nearest, ties to even.\<close>

function excess :: "int \<Rightarrow> nat" where
  "excess n = (if n < 2 ^ 24 then 0 else Suc (excess (n div 2)))"
  by pat_completeness auto
termination by (relation "measure nat") auto

declare excess.simps [simp del]

definition f32 :: "int \<Rightarrow> int" where
  "f32 n =
     (let s = 2 ^ excess n; q = n div s; r = n mod s
      in (if 2 * r > s \<or> 2 * r = s \<and> odd q then q + 1 else q) * s)"

lemma f32_small: "n < 2 ^ 24 \<Longrightarrow> f32 n = n"
  by (simp add: f32_def excess.simps [of n])

definition square :: "int \<Rightarrow> int" where
  "square x = f32 (x * x)"

section \<open>State\<close>

record fltr =
  f_interval :: int
  f_min :: "int list"
  f_tol :: int
  f_start :: bool

text \<open>\<open>psquare_\<close> is NULL outside an event.\<close>

record transt =
  psquare :: "int loopbuf option"
  reset_rms :: bool
  smpnum_cyc :: int
  rms_sum :: "int list"
  duration :: "int list"
  limit_cnt :: "int list"
  max_val :: "int list"
  min_val :: "int list"
  event_end :: bool
  thr_dip :: "rat \<times> rat"
  thr_swl :: "rat \<times> rat"
  thr_intr :: rat
  offset_num :: int
  fltr_par :: "fltr list"
  intrstr :: bool
  dipstr :: bool
  swlstr :: bool

definition big :: int where "big = 99999999999"

section \<open>Filter of the extreme value\<close>

fun cp_search :: "int list \<Rightarrow> int \<Rightarrow> int list \<Rightarrow> int list option" where
  "cp_search [] v m = Some m"
| "cp_search (i # is) v m = do {
     x \<leftarrow> aget m i;
     if x > v then do {
       m \<leftarrow> foldO (\<lambda>j m. do { y \<leftarrow> aget m (j - 1); aset m j y }) (rev [i + 1..23]) m;
       aset m i (f32 v) }
     else cp_search is v m }"

definition FilterCPx :: "int \<Rightarrow> int \<Rightarrow> int \<Rightarrow> transt \<Rightarrow> transt option" where
  "FilterCPx cpx ty phs s =
     (if cpx = 0 then Some s
      else if ty = 0 then Some (s\<lparr>fltr_par := replicate 3 \<lparr>f_interval = 0, f_min = replicate 24 0, f_tol = 0, f_start = False\<rparr>\<rparr>)
      else do {
        f \<leftarrow> aget (fltr_par s) phs;
        if ty = 1 then do {
          fs \<leftarrow> aset (fltr_par s) phs (f\<lparr>f_start := True, f_min := replicate 24 (f32 big)\<rparr>);
          Some (s\<lparr>fltr_par := fs\<rparr>) }
        else if ty = 2 then
          (if \<not> f_start f then Some s
           else let f = f\<lparr>f_interval := f_interval f + 1\<rparr> in
             if f_interval f \<ge> 80 then do {
               v \<leftarrow> aget (rms_sum s) phs;
               m \<leftarrow> cp_search [0..23] v (f_min f);
               fs \<leftarrow> aset (fltr_par s) phs (f\<lparr>f_interval := 0, f_min := m, f_tol := f_tol f + 1\<rparr>);
               Some (s\<lparr>fltr_par := fs\<rparr>) }
             else map_option (\<lambda>fs. s\<lparr>fltr_par := fs\<rparr>) (aset (fltr_par s) phs f))
        else if ty = 3 then do {
          let i = (if f_tol f * cpx sdiv 100 > 23 then 23 else f_tol f * cpx sdiv 100);
          fs \<leftarrow> aset (fltr_par s) phs (f\<lparr>f_start := False\<rparr>);
          mv \<leftarrow> (if i > 2 then do { x \<leftarrow> aget (f_min f) i; aset (min_val s) phs x } else Some (min_val s));
          Some (s\<lparr>fltr_par := fs, min_val := mv\<rparr>) }
        else Some s })"

section \<open>Start of an event\<close>

text \<open>
  \<open>junk\<close> is what the new ring holds, \<open>freq\<close> the code of the sample frequency, \<open>old\<close> the frequency of the event before, and
  \<open>thr\<close> the thresholds of dip, swell and interruption.  The event is started only outside another.
\<close>

definition VarStr :: "(nat \<Rightarrow> int) \<Rightarrow> int \<Rightarrow> int \<Rightarrow> bool \<Rightarrow> (int \<Rightarrow> rat) \<Rightarrow> int \<Rightarrow> transt \<Rightarrow> transt option" where
  "VarStr junk cpx freq uscale thr old s =
     (if psquare s \<noteq> None then Some s
      else let smpl_freq = (if freq = 0 then 6400 else if freq = 1 then 10240 else old);
               n = (smpl_freq + 25) div 50;
               t = (\<lambda>i. thr i * thr i * of_int n);
               k = (if uscale then 4 else 1)
        in FilterCPx cpx 0 0 (s\<lparr>psquare := Some (new_loopbuf junk (n * 3)), reset_rms := True, smpnum_cyc := n,
             rms_sum := [0, 0, 0], duration := [0, 0, 0], limit_cnt := [0, 0, 0], max_val := [0, 0, 0], min_val := [big, big, big],
             event_end := False, thr_dip := (t 0 / k, t 0 * (104 / 100) / k), thr_swl := (t 1 / k, t 1 * (96 / 100) / k), thr_intr := t 2,
             offset_num := - 1, intrstr := False, dipstr := False, swlstr := False\<rparr>))"

section \<open>Samples\<close>

definition amap :: "int \<Rightarrow> (int \<Rightarrow> int) \<Rightarrow> int list \<Rightarrow> int list option" where
  "amap j f xs = do { x \<leftarrow> aget xs j; aset xs j (f x) }"

text \<open>One value of one phase of the first cycle.\<close>

definition first_value :: "int \<Rightarrow> int \<Rightarrow> transt \<Rightarrow> transt option" where
  "first_value x j s = do {
     lb \<leftarrow> psquare s;
     (r, lb) \<leftarrow> Push (square x) lb;
     ss \<leftarrow> amap j (\<lambda>y. y + square x) (rms_sum s);
     d \<leftarrow> amap j (\<lambda>n. n + 1) (duration s);
     Some (s\<lparr>psquare := Some lb, rms_sum := ss, duration := d\<rparr>) }"

text \<open>
  One value of one phase: the oldest square of the phase leaves, the new one comes.  \<open>ends\<close> are the phases that are back
  within the limits.
\<close>

definition slide :: "int \<Rightarrow> int \<Rightarrow> transt \<Rightarrow> int loopbuf \<Rightarrow> int \<Rightarrow> transt option" where
  "slide x j s lb fi = do {
     ss \<leftarrow> amap j (\<lambda>y. y - fi) (rms_sum s);
     (r, lb) \<leftarrow> Push (square x) lb;
     ss \<leftarrow> amap j (\<lambda>y. y + square x) ss;
     v \<leftarrow> aget ss j;
     mx \<leftarrow> amap j (\<lambda>m. if m < v then v else m) (max_val s);
     mn \<leftarrow> amap j (\<lambda>m. if m > v then v else m) (min_val s);
     Some (s\<lparr>psquare := Some lb, rms_sum := ss, max_val := mx, min_val := mn\<rparr>) }"

definition count_outside :: "int \<Rightarrow> transt \<Rightarrow> transt option" where
  "count_outside j s = do {
     v \<leftarrow> aget (rms_sum s) j;
     lc \<leftarrow> amap j (\<lambda>c. if of_int v < fst (thr_dip s) \<or> of_int v > fst (thr_swl s) then c + 1 else if c < 3 then 0 else c) (limit_cnt s);
     Some (s\<lparr>limit_cnt := lc\<rparr>) }"

definition third_outside :: "int \<Rightarrow> int \<Rightarrow> transt \<Rightarrow> transt option" where
  "third_outside cpx j s = do {
     c \<leftarrow> aget (limit_cnt s) j;
     d \<leftarrow> aget (duration s) j;
     if c = 3 then do {
       ds \<leftarrow> aset (duration s) j 0;
       FilterCPx cpx 1 j (s\<lparr>offset_num := (if offset_num s < 0 then d else offset_num s), duration := ds\<rparr>) }
     else Some s }"

definition back_inside :: "int \<Rightarrow> int \<Rightarrow> transt \<times> bool list \<Rightarrow> (transt \<times> bool list) option" where
  "back_inside cpx j = (\<lambda>(s, ends). do {
     c \<leftarrow> aget (limit_cnt s) j;
     v \<leftarrow> aget (rms_sum s) j;
     if c > 3 \<and> of_int v > snd (thr_dip s) \<and> of_int v < snd (thr_swl s) then do {
       ends \<leftarrow> aset ends j True;
       s \<leftarrow> FilterCPx cpx 3 j s;
       Some (s, ends) }
     else Some (s, ends) })"

definition count_limits :: "int \<Rightarrow> int \<Rightarrow> transt \<Rightarrow> bool list \<Rightarrow> (transt \<times> bool list) option" where
  "count_limits cpx j s ends = do {
     s \<leftarrow> count_outside j s;
     s \<leftarrow> third_outside cpx j s;
     (s, ends) \<leftarrow> back_inside cpx j (s, ends);
     e \<leftarrow> aget ends j;
     ds \<leftarrow> (if e then Some (duration s) else amap j (\<lambda>n. n + 1) (duration s));
     Some (s\<lparr>duration := ds\<rparr>, ends) }"

text \<open>
  The loop over the phases stops when the ring is empty, and leaves the place in the data where it is.
\<close>

fun phases :: "int \<Rightarrow> int list \<Rightarrow> transt \<times> bool list \<times> int list \<Rightarrow> (transt \<times> bool list \<times> int list) option" where
  "phases cpx [] st = Some st"
| "phases cpx (j # js) (s, ends, data) = do {
     lb \<leftarrow> psquare s;
     (r, f, lb) \<leftarrow> Pop 0 lb;
     if r < 0 then Some (s, ends, data)
     else do {
       x \<leftarrow> aget data 0;
       s \<leftarrow> slide x j s lb f;
       s \<leftarrow> FilterCPx cpx 2 j s;
       (s, ends) \<leftarrow> count_limits cpx j s ends;
       phases cpx js (s, ends, tl data) } }"

definition one_sample :: "int \<Rightarrow> transt \<times> bool list \<times> int list \<Rightarrow> (transt \<times> bool list \<times> int list) option" where
  "one_sample cpx = (\<lambda>(s, ends, data).
     if event_end s then Some (s, ends, data)
     else do {
       (s, ends, data) \<leftarrow> phases cpx [0, 1, 2] (s, ends, data);
       Some (if ends = [True, True, True] then s\<lparr>event_end := True\<rparr> else s, ends, data) })"

definition first_cycle :: "transt \<times> int list \<Rightarrow> (transt \<times> int list) option" where
  "first_cycle = (\<lambda>(s, data).
     for_loop 0 (smpnum_cyc s) (\<lambda>i (s, data).
       foldO (\<lambda>j (s, data). do { x \<leftarrow> aget data 0; s \<leftarrow> first_value x j s; Some (s, tl data) }) [0, 1, 2] (s, data)) (s, data))"

definition event_types :: "transt \<Rightarrow> transt" where
  "event_types s =
     s\<lparr>intrstr := (intrstr s \<or> (\<exists>m \<in> set (min_val s). of_int m < thr_intr s)),
       dipstr := (dipstr s \<or> (\<exists>m \<in> set (min_val s). of_int m < fst (thr_dip s))),
       swlstr := (swlstr s \<or> (\<exists>m \<in> set (max_val s). of_int m > fst (thr_swl s)))\<rparr>"

definition AddSmplData :: "int \<Rightarrow> int \<Rightarrow> int list \<Rightarrow> int \<Rightarrow> transt \<Rightarrow> transt option" where
  "AddSmplData cpx vc pdata smp_len s =
     (if vc \<noteq> 0 \<or> psquare s = None then Some s
      else do {
        (i, s, data) \<leftarrow> (if reset_rms s then map_option (\<lambda>(t, d). (smpnum_cyc s, t, d)) (first_cycle (s, pdata)) else Some (0, s, pdata));
        (s, ends, data) \<leftarrow> for_loop i smp_len (\<lambda>i. one_sample cpx) (s, [False, False, False], data);
        Some (event_types (s\<lparr>reset_rms := False\<rparr>)) })"

text \<open>The packages of an event, one after the other; a package holds the three phases of \<open>length e div 3\<close> samples.\<close>

definition packages :: "int \<Rightarrow> int list list \<Rightarrow> transt \<Rightarrow> transt option" where
  "packages cpx = foldO (\<lambda>e. AddSmplData cpx 0 e (int (length e) div 3))"

section \<open>End of an event\<close>

text \<open>
  The type of the event: 1 interruption, 2 dip, 3 swell; \<open>None\<close> is the variable \<open>evt\<close> that no branch has set.
\<close>

definition event_type :: "transt \<Rightarrow> int option" where
  "event_type s =
     (let mx = fold (\<lambda>v m. if m < v then f32 v else m) (max_val s) 0;
          mn = fold (\<lambda>v m. if m > v then f32 v else m) (min_val s) (f32 big)
      in if of_int mn < thr_intr s \<or> fst (thr_dip s) - of_int mn > of_int mx - fst (thr_swl s)
         then (if intrstr s then Some 1 else if dipstr s then Some 2 else None)
         else Some 3)"

text \<open>
  The length of the event in ms is the longest of the phases that left the limits three times; without such a phase it is
  the length of phase A.  The offset is that of the third value outside, in us.  Quotients are exact before they are truncated.
\<close>

definition in_ms :: "int \<Rightarrow> int \<Rightarrow> int" where
  "in_ms smpl_freq d = d * 1000 sdiv smpl_freq"

definition event_length :: "int \<Rightarrow> transt \<Rightarrow> int option" where
  "event_length smpl_freq s = do {
     (ds, i) \<leftarrow> for_loop 0 3 (\<lambda>j (ds, i). do {
        c \<leftarrow> aget (limit_cnt s) j;
        if c < 3 then Some (ds, i)
        else do {
          d \<leftarrow> aget ds j;
          ds \<leftarrow> aset ds j (in_ms smpl_freq d);
          Some (ds, if i < in_ms smpl_freq d then in_ms smpl_freq d else i) } }) (duration s, 0);
     if i = 0 then map_option (in_ms smpl_freq) (aget ds 0) else Some i }"

definition event_offset :: "int \<Rightarrow> transt \<Rightarrow> int" where
  "event_offset smpl_freq s = (if offset_num s < 0 then 0 else offset_num s * 1000000 sdiv smpl_freq)"

lemma in_ms_nonneg: "0 \<le> d \<Longrightarrow> 0 < f \<Longrightarrow> 0 \<le> in_ms f d"
  by (simp add: in_ms_def sdiv_nonneg pos_imp_zdiv_nonneg_iff)

lemma event_length_max:
  assumes "duration s = [a, b, c]" "limit_cnt s = [x, y, z]" "0 \<le> a" "0 \<le> b" "0 \<le> c" "0 < f"
  shows "\<exists>i. event_length f s = Some i \<and> (3 \<le> x \<longrightarrow> in_ms f a \<le> i) \<and> (3 \<le> y \<longrightarrow> in_ms f b \<le> i) \<and> (3 \<le> z \<longrightarrow> in_ms f c \<le> i)"
proof -
  have nn: "0 \<le> in_ms f a" "0 \<le> in_ms f b" "0 \<le> in_ms f c" "0 \<le> in_ms f 0" using assms by (simp_all add: in_ms_nonneg)
  show ?thesis
    by (cases "x < 3"; cases "y < 3"; cases "z < 3")
      (insert nn, simp_all add: event_length_def assms(1,2) for_loop_step for_loop_empty aget_def aset_def linorder_not_less)
qed

section \<open>The window of one cycle\<close>

definition shaped_t :: "transt \<Rightarrow> bool" where
  "shaped_t s \<longleftrightarrow> length (rms_sum s) = 3 \<and> length (duration s) = 3 \<and> length (limit_cnt s) = 3 \<and> length (max_val s) = 3 \<and>
     length (min_val s) = 3 \<and> length (fltr_par s) = 3 \<and> (\<forall>f \<in> set (fltr_par s). length (f_min f) = 24)"

definition keeps_t :: "transt \<Rightarrow> transt \<Rightarrow> bool" where
  "keeps_t s s' \<longleftrightarrow> psquare s' = psquare s \<and> rms_sum s' = rms_sum s \<and> smpnum_cyc s' = smpnum_cyc s \<and>
     event_end s' = event_end s \<and> reset_rms s' = reset_rms s"

lemma cp_search_total:
  assumes "\<forall>i \<in> set is. 0 \<le> i \<and> i < 24" "length m = 24"
  shows "\<exists>m'. cp_search is v m = Some m' \<and> length m' = 24"
  using assms
proof (induction "is")
  case Nil
  then show ?case by simp
next
  case (Cons i "is")
  have "\<exists>m'. foldO (\<lambda>j m. do { y \<leftarrow> aget m (j - 1); aset m j y }) (rev [i + 1..23]) m = Some m' \<and> length m' = 24"
    by (rule foldO_total) (use Cons.prems in \<open>auto simp: mem_simps\<close>)
  then show ?case using Cons by (auto simp: mem_simps)
qed

lemma fltr_update: "length fs = 3 \<Longrightarrow> \<forall>f \<in> set fs. length (f_min f) = 24 \<Longrightarrow> length (f_min g) = 24 \<Longrightarrow>
    length (fs[n := g]) = 3 \<and> (\<forall>f \<in> set (fs[n := g]). length (f_min f) = 24)"
  by (auto dest!: subsetD [OF set_update_subset_insert])

lemma FilterCPx_keeps:
  assumes "shaped_t s" "0 \<le> phs" "phs < 3"
  shows "\<exists>s'. FilterCPx cpx ty phs s = Some s' \<and> shaped_t s' \<and> keeps_t s s'"
proof -
  let ?f = "fltr_par s ! nat phs"
  have l: "length (fltr_par s) = 3" "\<forall>f \<in> set (fltr_par s). length (f_min f) = 24" "length (rms_sum s) = 3" "length (min_val s) = 3"
    using assms(1) by (auto simp: shaped_t_def)
  have f: "length (f_min ?f) = 24" using l(1,2) assms(2,3) by simp
  have f_ok: "shaped_t (s\<lparr>fltr_par := (fltr_par s)[nat phs := g]\<rparr>)" if "length (f_min g) = 24" for g
    using assms(1) fltr_update [OF l(1,2) that] by (simp add: shaped_t_def)
  consider (off) "cpx = 0" | (ini) "cpx \<noteq> 0" "ty = 0" | (start) "cpx \<noteq> 0" "ty = 1" | (idle) "cpx \<noteq> 0" "ty = 2" "\<not> f_start ?f"
    | (wait) "cpx \<noteq> 0" "ty = 2" "f_start ?f" "f_interval ?f + 1 < 80" | (take_it) "cpx \<noteq> 0" "ty = 2" "f_start ?f" "80 \<le> f_interval ?f + 1"
    | (ends) "cpx \<noteq> 0" "ty = 3" | (other) "cpx \<noteq> 0" "ty \<notin> {0, 1, 2, 3}"
    by (cases "cpx = 0"; cases "ty \<in> {0, 1, 2, 3}"; cases "f_start ?f"; cases "f_interval ?f + 1 < 80") auto
  then show ?thesis
  proof cases
    case off
    then show ?thesis using assms(1) by (simp add: FilterCPx_def keeps_t_def)
  next
    case ini
    then show ?thesis using assms(1) by (simp add: FilterCPx_def keeps_t_def shaped_t_def)
  next
    case start
    then show ?thesis using f_ok [of "?f\<lparr>f_start := True, f_min := replicate 24 (f32 big)\<rparr>"] l(1) assms(2,3)
      by (simp add: FilterCPx_def keeps_t_def aget_Some aset_Some)
  next
    case idle
    then show ?thesis using assms l(1) by (simp add: FilterCPx_def keeps_t_def aget_Some)
  next
    case wait
    then show ?thesis using f_ok [of "?f\<lparr>f_interval := f_interval ?f + 1\<rparr>"] f l(1) assms(2,3)
      by (simp add: FilterCPx_def keeps_t_def aget_Some aset_Some Let_def)
  next
    case take_it
    obtain m where m: "cp_search [0..23] (rms_sum s ! nat phs) (f_min ?f) = Some m" "length m = 24"
      using cp_search_total [OF _ f, of "[0..23]"] by auto
    show ?thesis using take_it m f_ok [of "?f\<lparr>f_interval := 0, f_min := m, f_tol := f_tol ?f + 1\<rparr>"] l assms(2,3)
      by (simp add: FilterCPx_def keeps_t_def aget_Some aset_Some Let_def)
  next
    case ends
    define i where "i = (if f_tol ?f * cpx sdiv 100 > 23 then 23 else f_tol ?f * cpx sdiv 100)"
    have i: "i \<le> 23" by (simp add: i_def)
    have mv: "\<exists>mv. (if i > 2 then do { x \<leftarrow> aget (f_min ?f) i; aset (min_val s) phs x } else Some (min_val s)) = Some mv \<and> length mv = 3"
      using f i l(4) assms(2,3) by (simp add: aget_Some aset_Some)
    then obtain mv where mv: "(if i > 2 then do { x \<leftarrow> aget (f_min ?f) i; aset (min_val s) phs x } else Some (min_val s)) = Some mv" "length mv = 3"
      by blast
    have "FilterCPx cpx ty phs s = do {
        mv \<leftarrow> (if i > 2 then do { x \<leftarrow> aget (f_min ?f) i; aset (min_val s) phs x } else Some (min_val s));
        Some (s\<lparr>fltr_par := (fltr_par s)[nat phs := ?f\<lparr>f_start := False\<rparr>], min_val := mv\<rparr>) }"
      using ends l(1) assms(2,3) by (simp only: FilterCPx_def i_def Let_def) (simp add: aget_Some aset_Some)
    then have "FilterCPx cpx ty phs s = Some (s\<lparr>fltr_par := (fltr_par s)[nat phs := ?f\<lparr>f_start := False\<rparr>], min_val := mv\<rparr>)"
      by (simp only: mv(1) Option.bind.simps)
    then show ?thesis using f_ok [of "?f\<lparr>f_start := False\<rparr>"] f mv(2) by (simp add: keeps_t_def shaped_t_def)
  next
    case other
    then show ?thesis using assms l(1) by (simp add: FilterCPx_def keeps_t_def aget_Some)
  qed
qed

text \<open>The reference: \<open>D\<close> holds all values so far, the phases in turn; the sum of a phase over the last \<open>N\<close> samples.\<close>

definition wsum :: "nat \<Rightarrow> int list \<Rightarrow> nat \<Rightarrow> int" where
  "wsum N D k = (\<Sum>i\<leftarrow>[length D - 3 * N..<length D]. if i mod 3 = k then square (D ! i) else 0)"

lemma wsum_append: "(\<Sum>i\<leftarrow>[a..<length D]. if i mod 3 = k then square ((D @ E) ! i) else 0) =
    (\<Sum>i\<leftarrow>[a..<length D]. if i mod 3 = k then square (D ! i) else 0)"
  by (intro arg_cong [where f = sum_list] map_cong) (auto simp: nth_append)

lemma wsum_first:
  "length D < 3 * N \<Longrightarrow> wsum N (D @ [x]) k = wsum N D k + (if length D mod 3 = k then square x else 0)"
  using wsum_append [of k D "[x]" 0] by (simp add: wsum_def)

lemma wsum_slide:
  assumes "3 * N \<le> length D" "0 < N"
  shows "wsum N (D @ [x]) k = wsum N D k + (if length D mod 3 = k then square x - square (D ! (length D - 3 * N)) else 0)"
proof -
  define a where "a = length D - 3 * N"
  have "[a..<length D] = a # [Suc a..<length D]" using assms by (intro upt_conv_Cons) (simp add: a_def)
  moreover have "length D = a + 3 * N" using assms(1) by (simp add: a_def)
  then have "a mod 3 = length D mod 3" by simp
  moreover have "length (D @ [x]) - 3 * N = Suc a" using assms(1) by (simp add: a_def)
  moreover have "[Suc a..<length (D @ [x])] = [Suc a..<length D] @ [length D]" using assms by (simp add: a_def)
  ultimately show ?thesis unfolding wsum_def a_def [symmetric] using wsum_append [of k D "[x]" "Suc a"] by simp
qed

definition window :: "nat \<Rightarrow> nat \<Rightarrow> int list \<Rightarrow> transt \<Rightarrow> bool" where
  "window N kk D s \<longleftrightarrow> shaped_t s \<and> smpnum_cyc s = int N \<and>
     (\<exists>lb. psquare s = Some lb \<and> lb_inv kk lb \<and> 3 * N \<le> lb_cap lb \<and> lb_list lb = map square (drop (length D - 3 * N) D)) \<and>
     (\<forall>k < 3. rms_sum s ! k = wsum N D k)"

lemma window_keeps: "window N kk D s \<Longrightarrow> keeps_t s s' \<Longrightarrow> shaped_t s' \<Longrightarrow> window N kk D s'"
  by (simp add: window_def keeps_t_def)

lemma amap_Some: "0 \<le> j \<Longrightarrow> j < int (length xs) \<Longrightarrow> amap j f xs = Some (xs[nat j := f (xs ! nat j)])"
  by (simp add: amap_def mem_simps)

lemma drop_snoc: "3 * N \<le> length D \<Longrightarrow> 0 < N \<Longrightarrow>
    map square (drop (length (D @ [x]) - 3 * N) (D @ [x])) = tl (map square (drop (length D - 3 * N) D)) @ [square x]"
  by (simp add: Suc_diff_le drop_Suc map_tl [symmetric] tl_drop)

lemma first_value_window:
  assumes "window N kk D s" "length D < 3 * N" "j = length D mod 3"
  shows "\<exists>s'. first_value x (int j) s = Some s' \<and> window N kk (D @ [x]) s' \<and> event_end s' = event_end s \<and> reset_rms s' = reset_rms s"
proof -
  obtain lb where lb: "psquare s = Some lb" "lb_inv kk lb" "3 * N \<le> lb_cap lb" "lb_list lb = map square D"
    and sh: "shaped_t s" and sm: "\<forall>k < 3. rms_sum s ! k = wsum N D k" using assms(1,2) by (auto simp: window_def)
  obtain r lb' where p: "Push (square x) lb = Some (r, lb')" "lb_inv kk lb'" "lb_cap lb' = lb_cap lb"
    "(r, lb_list lb') = bq_push (lb_cap lb) (square x) (lb_list lb)"
    using lbq.push [OF lb(2), of "square x"] by blast
  have l: "lb_list lb' = map square (D @ [x])" using p(4) lb(3,4) assms(2) by (simp add: bq_push_def)
  have j: "j < 3" by (simp add: assms(3))
  have len: "length (rms_sum s) = 3" "length (duration s) = 3" using sh by (simp_all add: shaped_t_def)
  define s' where "s' = s\<lparr>psquare := Some lb', rms_sum := (rms_sum s)[j := rms_sum s ! j + square x], duration := (duration s)[j := duration s ! j + 1]\<rparr>"
  have "first_value x (int j) s = Some s'" using lb(1) p(1) j len by (simp add: first_value_def amap_Some s'_def)
  moreover have "rms_sum s' ! k = wsum N (D @ [x]) k" if "k < 3" for k
    using sm that j len assms(3) wsum_first [OF assms(2), of x k] by (auto simp: s'_def nth_list_update)
  then have "window N kk (D @ [x]) s'"
    using assms(1,2) p(2,3) lb(3) l sh by (simp add: window_def s'_def shaped_t_def)
  ultimately show ?thesis by (auto simp: s'_def)
qed

lemma slide_window:
  assumes "window N kk D s" "3 * N \<le> length D" "0 < N" "j = length D mod 3"
  shows "\<exists>lb f lb' s'. psquare s = Some lb \<and> Pop 0 lb = Some (0, f, lb') \<and> slide x (int j) s lb' f = Some s' \<and>
    window N kk (D @ [x]) s' \<and> event_end s' = event_end s \<and> reset_rms s' = reset_rms s"
proof -
  obtain lb where lb: "psquare s = Some lb" "lb_inv kk lb" "3 * N \<le> lb_cap lb" "lb_list lb = map square (drop (length D - 3 * N) D)"
    and sh: "shaped_t s" and sm: "\<forall>k < 3. rms_sum s ! k = wsum N D k" using assms(1) by (auto simp: window_def)
  have ne: "lb_list lb \<noteq> []" and len_l: "length (lb_list lb) = 3 * N" using lb(4) assms(2,3) by auto
  have hd: "hd (lb_list lb) = square (D ! (length D - 3 * N))" using lb(4) assms(2,3) by (simp add: hd_map hd_drop_conv_nth)
  obtain t where t: "lb_take 0 lb = Some (Some (hd (lb_list lb)), t)" "lb_inv kk t" "lb_cap t = lb_cap lb" "lb_list t = tl (lb_list lb)"
    using lbq.pop_first [OF lb(2) ne, of 0] by blast
  then have pop: "Pop 0 lb = Some (0, hd (lb_list lb), t)" by (auto simp: lb_take_def Pop_def split: option.splits if_splits)
  obtain r lb' where p: "Push (square x) t = Some (r, lb')" "lb_inv kk lb'" "lb_cap lb' = lb_cap t"
    "(r, lb_list lb') = bq_push (lb_cap t) (square x) (lb_list t)"
    using lbq.push [OF t(2), of "square x"] by blast
  have l: "lb_list lb' = tl (lb_list lb) @ [square x]" using p(4) t(3,4) lb(3) len_l assms(3) by (auto simp: bq_push_def split: if_splits)
  have j: "j < 3" by (simp add: assms(4))
  have len: "length (rms_sum s) = 3" "length (max_val s) = 3" "length (min_val s) = 3" using sh by (simp_all add: shaped_t_def)
  let ?v = "rms_sum s ! j - hd (lb_list lb) + square x"
  define s' where "s' = s\<lparr>psquare := Some lb', rms_sum := (rms_sum s)[j := ?v],
     max_val := (max_val s)[j := if max_val s ! j < ?v then ?v else max_val s ! j],
     min_val := (min_val s)[j := if min_val s ! j > ?v then ?v else min_val s ! j]\<rparr>"
  have "slide x (int j) s t (hd (lb_list lb)) = Some s'" using p(1) j len by (simp add: slide_def amap_Some aget_Some s'_def)
  moreover have "rms_sum s' ! k = wsum N (D @ [x]) k" if "k < 3" for k
    using sm that j len assms(4) wsum_slide [OF assms(2,3), of x k] hd by (auto simp: s'_def nth_list_update)
  then have "window N kk (D @ [x]) s'"
    using assms(1) p(2,3) t(3) lb(3) l sh drop_snoc [OF assms(2,3), of x] lb(4) by (simp add: window_def s'_def shaped_t_def)
  ultimately show ?thesis using lb(1) pop by (auto simp: s'_def)
qed

lemma keeps_trans: "keeps_t a b \<Longrightarrow> keeps_t b c \<Longrightarrow> keeps_t a c"
  by (simp add: keeps_t_def)

lemma keeps_refl: "keeps_t s s"
  by (simp add: keeps_t_def)

lemma count_outside_keeps:
  assumes "shaped_t s" "0 \<le> j" "j < 3"
  shows "\<exists>s'. count_outside j s = Some s' \<and> shaped_t s' \<and> keeps_t s s'"
  using assms by (simp add: count_outside_def amap_Some aget_Some shaped_t_def keeps_t_def)

lemma third_outside_keeps:
  assumes "shaped_t s" "0 \<le> j" "j < 3"
  shows "\<exists>s'. third_outside cpx j s = Some s' \<and> shaped_t s' \<and> keeps_t s s'"
proof -
  have len: "length (limit_cnt s) = 3" "length (duration s) = 3" using assms(1) by (simp_all add: shaped_t_def)
  let ?u = "s\<lparr>offset_num := (if offset_num s < 0 then duration s ! nat j else offset_num s), duration := (duration s)[nat j := 0]\<rparr>"
  have "shaped_t ?u" and u: "keeps_t s ?u" using assms(1) by (simp_all add: shaped_t_def keeps_t_def)
  then obtain s' where "FilterCPx cpx 1 j ?u = Some s'" "shaped_t s'" "keeps_t ?u s'"
    using FilterCPx_keeps [of ?u j cpx 1] assms(2,3) by blast
  then show ?thesis using keeps_trans [OF u] assms len keeps_refl
    by (cases "limit_cnt s ! nat j = 3") (simp_all add: third_outside_def aget_Some aset_Some)
qed

lemma back_inside_keeps:
  assumes "shaped_t s" "0 \<le> j" "j < 3" "length ends = 3"
  shows "\<exists>s' ends'. back_inside cpx j (s, ends) = Some (s', ends') \<and> shaped_t s' \<and> keeps_t s s' \<and> length ends' = 3"
proof -
  have len: "length (limit_cnt s) = 3" "length (rms_sum s) = 3" using assms(1) by (simp_all add: shaped_t_def)
  obtain s' where "FilterCPx cpx 3 j s = Some s'" "shaped_t s'" "keeps_t s s'"
    using FilterCPx_keeps [OF assms(1-3), of cpx 3] by blast
  then show ?thesis using assms len keeps_refl by (simp add: back_inside_def aget_Some aset_Some)
qed

lemma count_limits_keeps:
  assumes "shaped_t s" "0 \<le> j" "j < 3" "length ends = 3"
  shows "\<exists>s' ends'. count_limits cpx j s ends = Some (s', ends') \<and> shaped_t s' \<and> keeps_t s s' \<and> length ends' = 3"
proof -
  obtain s1 where s1: "count_outside j s = Some s1" "shaped_t s1" "keeps_t s s1" using count_outside_keeps [OF assms(1-3)] by blast
  obtain s2 where s2: "third_outside cpx j s1 = Some s2" "shaped_t s2" "keeps_t s1 s2"
    using third_outside_keeps [OF s1(2) assms(2,3)] by blast
  obtain s3 e3 where s3: "back_inside cpx j (s2, ends) = Some (s3, e3)" "shaped_t s3" "keeps_t s2 s3" "length e3 = 3"
    using back_inside_keeps [OF s2(2) assms(2-4)] by blast
  have l3: "length (duration s3) = 3" using s3(2) by (simp add: shaped_t_def)
  obtain ds where ds: "(if e3 ! nat j then Some (duration s3) else amap j (\<lambda>n. n + 1) (duration s3)) = Some ds" "length ds = 3"
    using l3 assms(2,3) by (cases "e3 ! nat j") (simp_all add: amap_Some)
  have "count_limits cpx j s ends = Some (s3\<lparr>duration := ds\<rparr>, e3)"
    using assms(2,3) s3(4) by (simp only: count_limits_def s1(1) s2(1) s3(1) Option.bind.simps prod.case aget_Some ds(1))
  moreover have "shaped_t (s3\<lparr>duration := ds\<rparr>)" "keeps_t s (s3\<lparr>duration := ds\<rparr>)"
    using s3(2,3) s2(3) s1(3) ds(2) by (simp_all add: shaped_t_def keeps_t_def)
  ultimately show ?thesis using s3(4) by blast
qed

lemma phase_step:
  assumes "window N kk D s" "3 * N \<le> length D" "0 < N" "j = int (length D mod 3)" "length ends = 3"
  shows "\<exists>s' ends'. phases cpx (j # js) (s, ends, x # rest) = phases cpx js (s', ends', rest) \<and>
    window N kk (D @ [x]) s' \<and> length ends' = 3 \<and> event_end s' = event_end s \<and> reset_rms s' = reset_rms s"
proof -
  have j: "0 \<le> j" "j < 3" by (simp_all add: assms(4))
  obtain lb f lb' s1 where s1: "psquare s = Some lb" "Pop 0 lb = Some (0, f, lb')" "slide x j s lb' f = Some s1"
    "window N kk (D @ [x]) s1" "event_end s1 = event_end s" "reset_rms s1 = reset_rms s"
    using slide_window [OF assms(1-3) refl, of x] assms(4) by blast
  have "shaped_t s1" using s1(4) by (simp add: window_def)
  then obtain s2 where s2: "FilterCPx cpx 2 j s1 = Some s2" "shaped_t s2" "keeps_t s1 s2" using FilterCPx_keeps [of s1 j cpx 2] j by blast
  obtain s3 e3 where s3: "count_limits cpx j s2 ends = Some (s3, e3)" "shaped_t s3" "keeps_t s2 s3" "length e3 = 3"
    using count_limits_keeps [OF s2(2) j assms(5)] by blast
  have "window N kk (D @ [x]) s3" using window_keeps [OF s1(4) keeps_trans [OF s2(3) s3(3)] s3(2)] .
  moreover have "phases cpx (j # js) (s, ends, x # rest) = phases cpx js (s3, e3, rest)"
    using s1(1,2,3) s2(1) s3(1) by (simp add: aget_def)
  moreover have "event_end s3 = event_end s" "reset_rms s3 = reset_rms s" using s1(5,6) s2(3) s3(3) by (simp_all add: keeps_t_def)
  ultimately show ?thesis using s3(4) by blast
qed

lemma one_sample_window:
  assumes "window N kk D s" "3 * N \<le> length D" "0 < N" "length D mod 3 = 0" "length ends = 3" "\<not> event_end s"
  shows "\<exists>s' ends'. one_sample cpx (s, ends, x # y # z # rest) = Some (s', ends', rest) \<and>
    window N kk (D @ [x, y, z]) s' \<and> length ends' = 3 \<and> reset_rms s' = reset_rms s"
proof -
  have m: "(0 :: int) = int (length D mod 3)" "(1 :: int) = int (length (D @ [x]) mod 3)" "(2 :: int) = int (length (D @ [x] @ [y]) mod 3)"
    using assms(4) by (auto simp: mod_Suc)
  have l: "3 * N \<le> length (D @ [x])" "3 * N \<le> length (D @ [x] @ [y])" using assms(2) by auto
  obtain s1 e1 where s1: "phases cpx [0, 1, 2] (s, ends, x # y # z # rest) = phases cpx [1, 2] (s1, e1, y # z # rest)"
    "window N kk (D @ [x]) s1" "length e1 = 3" "reset_rms s1 = reset_rms s"
    using phase_step [OF assms(1-3) m(1) assms(5)] by blast
  obtain s2 e2 where s2: "phases cpx [1, 2] (s1, e1, y # z # rest) = phases cpx [2] (s2, e2, z # rest)"
    "window N kk (D @ [x] @ [y]) s2" "length e2 = 3" "reset_rms s2 = reset_rms s1"
    using phase_step [OF s1(2) l(1) assms(3) m(2) s1(3)] by (metis append_assoc)
  obtain s3 e3 where s3: "phases cpx [2] (s2, e2, z # rest) = phases cpx [] (s3, e3, rest)"
    "window N kk ((D @ [x] @ [y]) @ [z]) s3" "length e3 = 3" "reset_rms s3 = reset_rms s2"
    using phase_step [OF s2(2) l(2) assms(3) m(3) s2(3)] by blast
  have "window N kk (D @ [x, y, z]) (if e3 = [True, True, True] then s3\<lparr>event_end := True\<rparr> else s3)"
    using s3(2) by (simp add: window_def shaped_t_def)
  then show ?thesis using assms(6) s1(1,4) s2(1,4) s3(1,3,4) by (simp add: one_sample_def del: phases.simps(2))
qed

lemma one_sample_ended: "event_end s \<Longrightarrow> one_sample cpx (s, ends, data) = Some (s, ends, data)"
  by (simp add: one_sample_def)

lemma samples_window:
  assumes "window N kk D s" "3 * N \<le> length D" "0 < N" "length D mod 3 = 0" "length ends = 3" "length E = 3 * n"
  shows "\<exists>s' ends' rest. foldO (\<lambda>i. one_sample cpx) (replicate n i0) (s, ends, E) = Some (s', ends', rest) \<and> shaped_t s' \<and>
    reset_rms s' = reset_rms s \<and> (\<not> event_end s' \<longrightarrow> window N kk (D @ E) s')"
  using assms
proof (induction n arbitrary: D s ends E)
  case 0
  then show ?case by (simp add: window_def)
next
  case (Suc n)
  obtain x y z F where E: "E = x # y # z # F" "length F = 3 * n"
    using Suc.prems(6) by (auto simp: numeral_3_eq_3 length_Suc_conv)
  show ?case
  proof (cases "event_end s")
    case True
    have "foldO (\<lambda>i. one_sample cpx) (replicate m i0) (s, ends, E) = Some (s, ends, E)" for m
      using True by (induction m) (simp_all add: one_sample_ended)
    then show ?thesis using True Suc.prems(1) by (auto simp: window_def simp del: replicate.simps)
  next
    case False
    obtain s1 e1 where s1: "one_sample cpx (s, ends, E) = Some (s1, e1, F)" "window N kk (D @ [x, y, z]) s1" "length e1 = 3"
      "reset_rms s1 = reset_rms s"
      using one_sample_window [OF Suc.prems(1-5) False] E(1) by blast
    have "3 * N \<le> length (D @ [x, y, z])" "length (D @ [x, y, z]) mod 3 = 0" using Suc.prems(2,4) by auto
    then show ?thesis using Suc.IH [OF s1(2) _ Suc.prems(3) _ s1(3) E(2)] s1(1,4) E(1) by auto
  qed
qed

lemma foldO_const: "foldO (\<lambda>i. f) is s = foldO (\<lambda>i. f) (replicate (length is) i0) s"
  by (induction "is" arbitrary: s) (auto split: option.splits)

lemma first_cycle_window:
  assumes "window N kk D s" "length D + 3 * n \<le> 3 * N" "length D mod 3 = 0" "length E = 3 * n"
  shows "\<exists>s'. foldO (\<lambda>i (s, data). foldO (\<lambda>j (s, data). do { x \<leftarrow> aget data 0; s \<leftarrow> first_value x j s; Some (s, tl data) }) [0, 1, 2] (s, data))
      (replicate n i0) (s, E @ F) = Some (s', F) \<and> window N kk (D @ E) s' \<and> event_end s' = event_end s \<and> reset_rms s' = reset_rms s"
  using assms
proof (induction n arbitrary: D s E)
  case 0
  then show ?case by simp
next
  case (Suc n)
  obtain x y z G where E: "E = x # y # z # G" "length G = 3 * n"
    using Suc.prems(4) by (auto simp: numeral_3_eq_3 length_Suc_conv)
  have m: "0 = length D mod 3" "1 = length (D @ [x]) mod 3" "2 = length (D @ [x] @ [y]) mod 3"
    using Suc.prems(3) by (auto simp: mod_Suc)
  have l: "length D < 3 * N" "length (D @ [x]) < 3 * N" "length (D @ [x] @ [y]) < 3 * N" using Suc.prems(2) by auto
  obtain s1 where s1: "first_value x (int 0) s = Some s1" "window N kk (D @ [x]) s1" "event_end s1 = event_end s" "reset_rms s1 = reset_rms s"
    using first_value_window [OF Suc.prems(1) l(1) m(1)] by blast
  obtain s2 where s2: "first_value y (int 1) s1 = Some s2" "window N kk (D @ [x] @ [y]) s2" "event_end s2 = event_end s" "reset_rms s2 = reset_rms s"
    using first_value_window [OF s1(2) l(2) m(2), of y] s1(3,4) by auto
  obtain s3 where s3: "first_value z (int 2) s2 = Some s3" "window N kk ((D @ [x] @ [y]) @ [z]) s3" "event_end s3 = event_end s" "reset_rms s3 = reset_rms s"
    using first_value_window [OF s2(2) l(3) m(3), of z] s2(3,4) by auto
  have "window N kk (D @ [x, y, z]) s3" "length (D @ [x, y, z]) + 3 * n \<le> 3 * N" "length (D @ [x, y, z]) mod 3 = 0"
    using s3(2) Suc.prems(2,3) by auto
  note IH = Suc.IH [OF this E(2)]
  then show ?case using s1(1) s2(1) s3(1,3,4) E(1) by (simp add: aget_def)
qed


section \<open>Packages\<close>

lemma for_loop_const: "for_loop lo hi (\<lambda>i. f) s = foldO (\<lambda>i. f) (replicate (nat (hi - lo)) (0 :: int)) s"
  using foldO_const [of f "[lo..hi - 1]" s 0] by (simp add: for_loop_def)

lemma ended_samples: "event_end s \<Longrightarrow> foldO (\<lambda>i. one_sample cpx) (replicate m i0) (s, ends, E) = Some (s, ends, E)"
  by (induction m) (simp_all add: one_sample_ended)

definition following :: "nat \<Rightarrow> nat \<Rightarrow> int list \<Rightarrow> transt \<Rightarrow> bool" where
  "following N kk D s \<longleftrightarrow> shaped_t s \<and> \<not> reset_rms s \<and> (\<not> event_end s \<longrightarrow> window N kk D s)"

lemma event_types_following:
  "shaped_t s \<Longrightarrow> (\<not> event_end s \<Longrightarrow> window N kk D s) \<Longrightarrow> following N kk D (event_types (s\<lparr>reset_rms := False\<rparr>))"
  by (simp add: following_def event_types_def shaped_t_def window_def)

lemma next_package:
  assumes "following N kk D s" "3 * N \<le> length D" "0 < N" "length D mod 3 = 0" "length E = 3 * n"
  shows "\<exists>t. AddSmplData cpx 0 E (int n) s = Some t \<and> following N kk (D @ E) t"
proof -
  have f: "shaped_t s" "\<not> reset_rms s" "\<not> event_end s \<Longrightarrow> window N kk D s" using assms(1) by (auto simp: following_def)
  show ?thesis
  proof (cases "psquare s = None")
    case True
    then show ?thesis using f by (auto simp: AddSmplData_def following_def window_def)
  next
    case False
    obtain s1 e1 r1 where s1: "foldO (\<lambda>i. one_sample cpx) (replicate n (0 :: int)) (s, [False, False, False], E) = Some (s1, e1, r1)"
      "shaped_t s1" "\<not> event_end s1 \<Longrightarrow> window N kk (D @ E) s1"
    proof (cases "event_end s")
      case True
      then show thesis using that [OF ended_samples [OF True]] f(1) by simp
    next
      case False
      then show thesis using samples_window [OF f(3) assms(2-4) _ assms(5), of "[False, False, False]" cpx 0] that by auto
    qed
    then have "AddSmplData cpx 0 E (int n) s = Some (event_types (s1\<lparr>reset_rms := False\<rparr>))"
      using False f(2) by (auto simp: AddSmplData_def for_loop_const)
    then show ?thesis using event_types_following [OF s1(2,3)] by blast
  qed
qed

lemma first_package:
  assumes "window N kk [] s" "reset_rms s" "0 < N" "length E = 3 * n" "N \<le> n"
  shows "\<exists>t. AddSmplData cpx 0 E (int n) s = Some t \<and> following N kk E t"
proof -
  let ?A = "take (3 * N) E" and ?B = "drop (3 * N) E"
  have l: "length ?A = 3 * N" "length ?B = 3 * (n - N)" using assms(4,5) by auto
  have n: "smpnum_cyc s = int N" and ps: "psquare s \<noteq> None" using assms(1) by (auto simp: window_def)
  obtain s1 where s1: "first_cycle (s, E) = Some (s1, ?B)" "window N kk ?A s1"
    using first_cycle_window [OF assms(1) _ _ l(1), of 0 ?B] l(1)
    unfolding first_cycle_def prod.case n for_loop_const by auto
  have "smpnum_cyc s1 = int N" and sh: "shaped_t s1" using s1(2) by (auto simp: window_def)
  moreover obtain s2 e2 r2 where s2: "foldO (\<lambda>i. one_sample cpx) (replicate (n - N) (0 :: int)) (s1, [False, False, False], ?B) = Some (s2, e2, r2)"
    "shaped_t s2" "\<not> event_end s2 \<Longrightarrow> window N kk E s2"
    using samples_window [OF s1(2) _ assms(3) _ _ l(2), of "[False, False, False]" cpx 0] l(1) assms(4,5) by auto
  ultimately have "AddSmplData cpx 0 E (int n) s = Some (event_types (s2\<lparr>reset_rms := False\<rparr>))"
    using ps assms(2,5) s1(1) n by (auto simp: AddSmplData_def for_loop_const nat_diff_distrib)
  then show ?thesis using event_types_following [OF s2(2,3)] by blast
qed

lemma packages_following:
  assumes "following N kk D s" "3 * N \<le> length D" "0 < N" "length D mod 3 = 0" "\<forall>e \<in> set es. length e mod 3 = 0"
  shows "\<exists>t. packages cpx es s = Some t \<and> following N kk (D @ concat es) t"
  using assms
proof (induction es arbitrary: D s)
  case Nil
  then show ?case by (simp add: packages_def)
next
  case (Cons e es)
  have e: "length e = 3 * (length e div 3)" using Cons.prems(5) by auto
  obtain t where t: "AddSmplData cpx 0 e (int (length e div 3)) s = Some t" "following N kk (D @ e) t"
    using next_package [OF Cons.prems(1-4) e] by blast
  have "3 * N \<le> length (D @ e)" "length (D @ e) mod 3 = 0" using Cons.prems(2,4,5) by (auto simp: mod_add_eq [symmetric])
  then show ?case using Cons.IH [OF t(2) _ Cons.prems(3)] t(1) Cons.prems(5) by (auto simp: packages_def zdiv_int [symmetric])
qed

lemma VarStr_state:
  assumes "psquare s0 = None" "shaped_t s0" "freq = 0 \<and> n = 128 \<or> freq = 1 \<and> n = 205"
  shows "\<exists>u. VarStr junk cpx freq uscale thr old s0 = FilterCPx cpx 0 0 u \<and> psquare u = Some (new_loopbuf junk (n * 3)) \<and>
    reset_rms u \<and> smpnum_cyc u = n \<and> rms_sum u = [0, 0, 0] \<and> \<not> event_end u \<and> shaped_t u"
proof -
  have n: "((if freq = 0 then 6400 else if freq = 1 then 10240 else old) + 25) div 50 = n" using assms(3) by auto
  show ?thesis unfolding VarStr_def Let_def n assms(1)
    by (simp only: simp_thms if_False, intro exI conjI, rule refl) (use assms(2) in \<open>simp_all add: shaped_t_def\<close>)
qed

lemma VarStr_window:
  assumes "VarStr junk cpx freq uscale thr old s0 = Some s" "psquare s0 = None" "freq = 0 \<or> freq = 1" "shaped_t s0"
  shows "\<exists>kk. window (if freq = 0 then 128 else 205) kk [] s \<and> reset_rms s"
proof -
  define N where "N = (if freq = 0 then 128 else 205 :: nat)"
  have N: "0 < 3 * int N" "3 * int N \<le> 131071" by (simp_all add: N_def)
  obtain i where i: "base_mask (3 * int N) = 2 ^ Suc i - 1" using base_mask_pow [OF N(1)] by auto
  define lb where "lb = new_loopbuf junk (3 * int N)"
  have l: "lb_inv (Suc i) lb" "lb_list lb = []" "3 * N \<le> lb_cap lb"
    using lb_inv_new [OF i] lb_cap_new [of junk "3 * int N"] base_mask_capacity [OF N] by (simp_all add: lb_def le_nat_iff)
  obtain u where u: "FilterCPx cpx 0 0 u = Some s" "psquare u = Some lb" "reset_rms u" "smpnum_cyc u = int N" "rms_sum u = [0, 0, 0]" "shaped_t u"
    using VarStr_state [OF assms(2,4), of freq "int N" junk cpx uscale thr old] assms(1,3) by (auto simp: N_def lb_def)
  then have "psquare s = Some lb \<and> reset_rms s \<and> smpnum_cyc s = int N \<and> rms_sum s = [0, 0, 0] \<and> shaped_t s"
    using FilterCPx_keeps [of u 0 cpx 0] by (auto simp: keeps_t_def)
  moreover have "[0, 0, 0] ! k = wsum N [] k" if "k < 3" for k
    using that by (auto simp: wsum_def nth_Cons split: nat.splits)
  ultimately have "window N (Suc i) [] s" using l by (simp add: window_def)
  moreover have "reset_rms s" using FilterCPx_keeps [of u 0 cpx 0] u by (auto simp: keeps_t_def)
  ultimately show ?thesis by (auto simp: N_def)
qed

text \<open>A first package that is shorter than a cycle is read behind its end.\<close>

lemma short_first_package:
  assumes "window N kk [] s" "reset_rms s" "length E = 3 * n" "n < N"
  shows "AddSmplData cpx 0 E (int n) s = None"
proof -
  let ?f = "\<lambda>(s, data). foldO (\<lambda>j (s, data). do { x \<leftarrow> aget data 0; s \<leftarrow> first_value x j s; Some (s, tl data) }) [0, 1, 2] (s, data)"
  have n: "smpnum_cyc s = int N" and ps: "psquare s \<noteq> None" using assms(1) by (auto simp: window_def)
  obtain s1 where s1: "foldO (\<lambda>i. ?f) (replicate n (0 :: int)) (s, E) = Some (s1, [])"
    using first_cycle_window [OF assms(1) _ _ assms(3), of 0 "[]"] assms(4) by auto
  have "replicate N (0 :: int) = replicate n 0 @ 0 # replicate (N - Suc n) 0"
    using assms(4) by (simp flip: replicate_Suc replicate_add)
  then have "foldO (\<lambda>i. ?f) (replicate N (0 :: int)) (s, E) = None"
    using s1 by (simp add: foldO_append aget_def)
  then have "first_cycle (s, E) = None" unfolding first_cycle_def prod.case n for_loop_const by simp
  then show ?thesis using assms(2) ps by (auto simp: AddSmplData_def)
qed

text \<open>
  When neither an interruption nor a dip was seen, and the lowest value is at least as far below the dip threshold as the
  highest is above that of the swell, the type of the event is not set.
\<close>

lemma event_type_not_set:
  "event_type s0 = None"
  if "s0 = \<lparr>psquare = None, reset_rms = False, smpnum_cyc = 128, rms_sum = [120, 120, 120], duration = [0, 0, 0], limit_cnt = [0, 0, 0],
    max_val = [130, 130, 130], min_val = [110, 110, 110], event_end = True, thr_dip = (100, 104), thr_swl = (150, 144), thr_intr = 10,
    offset_num = - 1, fltr_par = [], intrstr = False, dipstr = False, swlstr = False\<rparr>"
  using that by (simp add: event_type_def f32_small)

text \<open>
  C18. Whatever the packages of an event are, provided that the first holds at least one cycle: no access leaves its array, and
  until the end of the event is seen the running sum of each phase, kept by subtracting the oldest square and adding the new
  one, is the sum of the squares of the last cycle (128 or 205 samples) of that phase, over package boundaries.
\<close>

theorem sliding_window:
  assumes "psquare s0 = None" "shaped_t s0" "freq = 0 \<or> freq = 1"
    and "VarStr junk cpx freq uscale thr old s0 = Some s"
    and "\<forall>e \<in> set (e1 # es). length e mod 3 = 0" "3 * smpnum_cyc s \<le> int (length e1)"
  shows "\<exists>t. packages cpx (e1 # es) s = Some t \<and>
    (\<not> event_end t \<longrightarrow> (\<forall>k < 3. rms_sum t ! k = wsum (nat (smpnum_cyc s)) (e1 @ concat es) k))"
proof -
  obtain N kk where w: "window N kk [] s" "reset_rms s" "0 < N"
    using VarStr_window [OF assms(4,1,3,2)] by (auto split: if_splits)
  then have n: "smpnum_cyc s = int N" by (simp add: window_def)
  have e1: "length e1 = 3 * (length e1 div 3)" "N \<le> length e1 div 3" "length e1 mod 3 = 0" "3 * N \<le> length e1" using assms(5,6) n by auto
  obtain u where u: "AddSmplData cpx 0 e1 (int (length e1 div 3)) s = Some u" "following N kk e1 u"
    using first_package [OF w e1(1,2)] by blast
  obtain t where t: "packages cpx es u = Some t" "following N kk (e1 @ concat es) t"
    using packages_following [OF u(2) e1(4) w(3) e1(3), where es = es and cpx = cpx] assms(5) by auto
  have "packages cpx (e1 # es) s = Some t" using u(1) t(1) by (simp add: packages_def zdiv_int)
  then show ?thesis using t(2) n by (auto simp: following_def window_def)
qed

theorem sliding_window_witness:
  "let s0 = \<lparr>psquare = None, reset_rms = False, smpnum_cyc = 0, rms_sum = [0, 0, 0], duration = [0, 0, 0], limit_cnt = [0, 0, 0],
         max_val = [0, 0, 0], min_val = [0, 0, 0], event_end = True, thr_dip = (0, 0), thr_swl = (0, 0), thr_intr = 0, offset_num = 0,
         fltr_par = replicate 3 \<lparr>f_interval = 0, f_min = replicate 24 0, f_tol = 0, f_start = False\<rparr>, intrstr = False, dipstr = False, swlstr = False\<rparr>
   in \<exists>s t. VarStr (\<lambda>i. 0) 0 0 False (\<lambda>i. 5 + of_int i) 6400 s0 = Some s \<and> packages 0 [replicate 384 10, [1, 2, 3]] s = Some t \<and>
        (\<not> event_end t \<longrightarrow> rms_sum t ! 1 = wsum 128 (replicate 384 10 @ [1, 2, 3]) 1)"
proof -
  let ?s0 = "\<lparr>psquare = None, reset_rms = False, smpnum_cyc = 0, rms_sum = [0, 0, 0], duration = [0, 0, 0], limit_cnt = [0, 0, 0],
         max_val = [0, 0, 0], min_val = [0, 0, 0], event_end = True, thr_dip = (0, 0), thr_swl = (0, 0), thr_intr = 0, offset_num = 0,
         fltr_par = replicate 3 \<lparr>f_interval = 0, f_min = replicate 24 0, f_tol = 0, f_start = False\<rparr>, intrstr = False, dipstr = False, swlstr = False\<rparr>"
  have sh: "shaped_t ?s0" by (simp add: shaped_t_def)
  obtain s where s: "VarStr (\<lambda>i. 0) 0 0 False (\<lambda>i. 5 + of_int i) 6400 ?s0 = Some s" "smpnum_cyc s = 128"
    by (simp add: VarStr_def FilterCPx_def)
  have "\<exists>t. packages 0 [replicate 384 10, [1, 2, 3]] s = Some t \<and>
      (\<not> event_end t \<longrightarrow> (\<forall>k < 3. rms_sum t ! k = wsum (nat (smpnum_cyc s)) (replicate 384 10 @ concat [[1, 2, 3]]) k))"
    by (rule sliding_window [OF _ sh _ s(1)]) (simp_all add: s(2))
  then show ?thesis using s by (auto simp: Let_def)
qed

end
