(* ===== verification/Gui_Proto.thy ===== *)
theory Gui_Proto
  imports Msg_Queue Phy_PqB
begin

text \<open>
  The protocol between the measuring process and the screen: the client
  (common/commu/protocol/app_prtcl_guic.cpp), the server (app_prtcl_guis.cpp), their common header
  (app_prtcl_gui.cpp) and the data buffer of the screen (gui/src/data/data_buf.cpp).  Both sides send what
  other threads have put into their message queue; the queues are those of Msg_Queue, with their
  mutexes.  zlib's \<open>uncompress\<close> and the parameter objects of the device are arguments.
  Some identifiers of these files do not exist: \<open>kCmdPhdPrm\<close> is read as \<open>kCmdPrmPhd\<close>, and \<open>g_data_buf[i].SetData\<close>
  as a call through the pointer with the two declared arguments.
\<close>

section \<open>Data of the screen\<close>

text \<open>Parameters and frequencies as the bytes of their structures.\<close>

record data_buf =
  para_phd :: "u8 list"
  para_ld :: "u8 list list"
  para_chnl :: "u8 list list"
  ld_freq :: "u8 list list"
  chnl_type :: "u8 list"
  chl_match :: int

definition SetFreq :: "u8 list \<Rightarrow> data_buf \<Rightarrow> data_buf option" where
  "SetFreq buf d = do {
     ld \<leftarrow> aget buf 0;
     old \<leftarrow> aget (ld_freq d) (uint ld);
     v \<leftarrow> aslice buf 1 (int (length old));
     fs \<leftarrow> aset (ld_freq d) (uint ld) v;
     Some (d\<lparr>ld_freq := fs\<rparr>) }"

definition SetChlWarn :: "u8 list \<Rightarrow> data_buf \<Rightarrow> data_buf option" where
  "SetChlWarn buf d = do {
     ts \<leftarrow> for_loop 0 4 (\<lambda>i ts. do { b \<leftarrow> aget buf i; aset ts i b }) (chnl_type d);
     Some (d\<lparr>chnl_type := ts, chl_match := 1\<rparr>) }"

definition store_row :: "u8 list \<Rightarrow> u8 list list \<Rightarrow> u8 list list option" where
  "store_row buf rows = do {
     i \<leftarrow> aget buf 1;
     old \<leftarrow> aget rows (uint i);
     v \<leftarrow> aslice buf 1 (int (length old));
     aset rows (uint i) v }"

definition SetParm :: "u8 \<Rightarrow> u8 list \<Rightarrow> data_buf \<Rightarrow> data_buf option" where
  "SetParm cmd buf d = do {
     hv \<leftarrow> aget buf 0;
     if hv = 0 then Some d
     else if cmd = 1 then do { v \<leftarrow> aslice buf 0 (int (length (para_phd d))); Some (d\<lparr>para_phd := v\<rparr>) }
     else if cmd = 2 then do { r \<leftarrow> store_row buf (para_ld d); Some (d\<lparr>para_ld := r\<rparr>) }
     else if cmd = 3 then do { r \<leftarrow> store_row buf (para_chnl d); Some (d\<lparr>para_chnl := r\<rparr>) }
     else Some d }"

text \<open>The command is a byte, the codes of the data the server sends on its own start at \<open>0x101\<close>.\<close>

definition SetData :: "u8 list \<Rightarrow> u8 \<Rightarrow> data_buf \<Rightarrow> data_buf option" where
  "SetData buf ty d =
     (if ty = 1 \<or> ty = 2 \<or> ty = 3 then SetParm ty buf d
      else if uint ty = 0x106 then SetChlWarn buf d
      else if uint ty = 0x101 then SetFreq buf d
      else Some d)"

section \<open>The client\<close>

record slot =
  sl_cmd :: u8
  sl_data :: "payload option"
  sl_cnt :: u8

definition free_slot :: slot where
  "free_slot = \<lparr>sl_cmd = 0, sl_data = None, sl_cnt = 0\<rparr>"

text \<open>The global queues, the buffer of the screen's data and the members of the object.\<close>

record gui_c =
  gui_q :: guic
  gui_data :: data_buf
  co_idx :: int
  tx_buffer :: "u8 list"
  rx_buffer :: "u8 list"
  send_cmdbuf :: "slot list"

definition IniHead :: "commhead \<Rightarrow> commhead" where
  "IniHead h = h\<lparr>prtcl_type := 3, prtcl_ver := 0, hd_compress := 0, compress_alg := 1\<rparr>"

definition ClearSendbuf :: "int \<Rightarrow> gui_c \<Rightarrow> gui_c option" where
  "ClearSendbuf sn s = do {
     sl \<leftarrow> aget (send_cmdbuf s) sn;
     case sl_data sl of Some (Stack_buf _) \<Rightarrow> None
     | _ \<Rightarrow> map_option (\<lambda>sls. s\<lparr>send_cmdbuf := sls\<rparr>) (aset (send_cmdbuf s) sn free_slot) }"

definition GetFrameID :: "gui_c \<Rightarrow> nat" where
  "GetFrameID s = (case find (\<lambda>i. sl_cmd (send_cmdbuf s ! i) = 0) [0..<64] of None \<Rightarrow> 0 | Some i \<Rightarrow> i)"

text \<open>What is received: the state and the notices to the main thread; there is never an answer.\<close>

definition client_receive ::
  "(u8 list \<Rightarrow> int \<Rightarrow> u8 list \<times> int) \<Rightarrow> u8 list \<Rightarrow> gui_c \<Rightarrow> (gui_c \<times> u8 list) option" where
  "client_receive unzip rbuf s =
     (if co_idx s < 0 then Some (s, [])
      else do {
        hb \<leftarrow> aslice rbuf 0 20;
        let h = head_of hb;
        body \<leftarrow> aslice rbuf 20 (uint (body_len h));
        let (out, reti) = (if hd_compress h \<noteq> 0 then unzip body 2048 else (body, 0));
        rx \<leftarrow> blit (rx_buffer s) 0 out;
        let s = s\<lparr>rx_buffer := rx\<rparr>;
        if reti \<noteq> 0 then Some (s, [])
        else do {
          let h = IniHead h;
          d \<leftarrow> SetData rx (hd_cmd h) (gui_data s);
          let s = s\<lparr>gui_data := d\<rparr>;
          s \<leftarrow> (if hd_cmd h < 12 then ClearSendbuf (uint (frm_sn h)) s else Some s);
          Some (s, if hd_cmd h \<in> {1, 2, 3} then [] else [hd_cmd h]) } })"

text \<open>The node that was taken from a queue is read and freed.\<close>

definition take_node :: "nat \<Rightarrow> mqueue \<Rightarrow> (int \<times> payload option \<times> mqueue) option" where
  "take_node a mq =
     (case mq_heap mq a of None \<Rightarrow> None
      | Some n \<Rightarrow> (case n_body n of CleanupNode _ \<Rightarrow> None
         | WorkNode mj mn p \<Rightarrow> Some (mn, p, mq\<lparr>mq_heap := (mq_heap mq)(a := None)\<rparr>)))"

text \<open>
  The data of a message is copied behind its size; a buffer on the stack of the thread that pushed it
  does not exist any more.
\<close>

definition copy_data :: "payload option \<Rightarrow> commhead \<Rightarrow> u8 list \<Rightarrow> (commhead \<times> u8 list) option" where
  "copy_data p h tx =
     (case p of None \<Rightarrow> Some (h, tx) | Some (Stack_buf _) \<Rightarrow> None
      | Some (Heap_buf b) \<Rightarrow> do {
          n \<leftarrow> aslice b 0 4;
          let sz = uint (of_le4 (n ! 0) (n ! 1) (n ! 2) (n ! 3));
          d \<leftarrow> aslice b 4 sz;
          tx \<leftarrow> blit tx 0 d;
          Some (h\<lparr>body_len := word_of_int sz\<rparr>, tx) })"

definition make_frame :: "commhead \<Rightarrow> u8 list \<Rightarrow> u8 list option" where
  "make_frame h tx = map_option (\<lambda>b. head_bytes h @ b) (aslice tx 0 (uint (body_len h)))"

definition empty_head :: commhead where
  "empty_head = IniHead (head_of (replicate 20 0))"

text \<open>One round of the loop that sends; the Boolean says whether the queue had a message.\<close>

definition client_send_one :: "commhead \<times> u8 list list \<times> gui_c \<Rightarrow> (bool \<times> commhead \<times> u8 list list \<times> gui_c) option" where
  "client_send_one = (\<lambda>(h, fs, s). do {
     (nd, mq) \<leftarrow> PopQueue (co_idx s) (gc_mq (gui_q s));
     let s = s\<lparr>gui_q := (gui_q s)\<lparr>gc_mq := mq\<rparr>\<rparr>;
     case nd of None \<Rightarrow> Some (False, h, fs, s)
     | Some a \<Rightarrow> do {
         (mn, p, mq) \<leftarrow> take_node a mq;
         (h, tx) \<leftarrow> copy_data p (h\<lparr>hd_cmd := word_of_int mn\<rparr>) (tx_buffer s);
         let i = GetFrameID s;
         sls \<leftarrow> aset (send_cmdbuf s) (int i) \<lparr>sl_cmd = word_of_int mn, sl_data = p, sl_cnt = 3\<rparr>;
         g \<leftarrow> ClearWaitCnt (co_idx s) (int i) ((gui_q s)\<lparr>gc_mq := mq\<rparr>);
         let h = h\<lparr>frm_sn := word_of_nat i\<rparr>;
         f \<leftarrow> make_frame h tx;
         Some (True, h, fs @ [f], s\<lparr>gui_q := g, tx_buffer := tx, send_cmdbuf := sls\<rparr>) } })"

text \<open>A command that was not answered is pushed again, up to three times; \<open>mem\<close> is what \<open>malloc\<close> returns for it.\<close>

definition resend :: "(int \<Rightarrow> nat option) \<Rightarrow> int \<Rightarrow> gui_c \<Rightarrow> gui_c option" where
  "resend mem i s = do {
     sl \<leftarrow> aget (send_cmdbuf s) i;
     if sl_cmd sl = 0 then Some s
     else do {
       row \<leftarrow> aget (gc_wait (gui_q s)) (co_idx s);
       w \<leftarrow> aget row i;
       if w \<le> 3 then Some s
       else if sl_cnt sl = 0 then ClearSendbuf i s
       else do {
         (r, mq) \<leftarrow> PushQueue (mem i) (co_idx s) kGUICommuCmd (uint (sl_cmd sl)) (sl_data sl) (gc_mq (gui_q s));
         g \<leftarrow> ClearWaitCnt (co_idx s) i ((gui_q s)\<lparr>gc_mq := mq\<rparr>);
         sls \<leftarrow> aset (send_cmdbuf s) i (sl\<lparr>sl_cnt := sl_cnt sl - 1\<rparr>);
         Some (s\<lparr>gui_q := g, send_cmdbuf := sls\<rparr>) } } }"

text \<open>The frames that are sent; called every tenth of a second.\<close>

definition client_send :: "(int \<Rightarrow> nat option) \<Rightarrow> gui_c \<Rightarrow> (u8 list list \<times> gui_c) option" where
  "client_send mem s =
     (if co_idx s < 0 then Some ([], s)
      else do {
        (more1, x) \<leftarrow> client_send_one (empty_head, [], s);
        (more2, h, fs, s) \<leftarrow> (if more1 then client_send_one x else Some (False, x));
        s \<leftarrow> for_loop 0 kCmdBufNum (resend mem) s;
        Some (fs, s) })"

section \<open>The server\<close>

text \<open>
  \<open>prm\<close> are the parameters of device, logical devices and channels: setting one, and reading one (NULL when there
  is nothing to tell).  The first argument is the command, the second the index.
\<close>

record 'e prm_env =
  set_prm :: "u8 \<Rightarrow> u8 \<Rightarrow> u8 list \<Rightarrow> 'e \<Rightarrow> 'e"
  get_prm :: "u8 \<Rightarrow> u8 \<Rightarrow> 'e \<Rightarrow> u8 list option \<times> 'e"

text \<open>\<open>idx0\<close> is the index before anything is stored in it: it is set by the branches that set parameters only.\<close>

definition HandleParm ::
  "'e prm_env \<Rightarrow> u8 \<Rightarrow> u8 list \<Rightarrow> u8 list \<Rightarrow> u8 \<Rightarrow> 'e \<Rightarrow> (int \<times> u8 list \<times> u8 list \<times> 'e) option" where
  "HandleParm P idx0 tx rx cmd e = do {
     gs \<leftarrow> aget rx 0;
     ix \<leftarrow> aget rx 1;
     let idx = (if gs \<noteq> 0 \<and> (cmd = 2 \<or> cmd = 3) then ix else idx0);
     let e = (if gs = 0 then e
       else if cmd = 1 then set_prm P cmd 0 (drop 1 rx) e
       else if cmd = 2 \<or> cmd = 3 then set_prm P cmd ix (drop 2 rx) e
       else e);
     let (parm, e) = (if cmd = 1 \<or> cmd = 2 \<or> cmd = 3 then get_prm P cmd idx e else (None, e));
     case parm of
       Some b \<Rightarrow> do {
         tx \<leftarrow> aset tx 0 1;
         tx \<leftarrow> blit tx 1 b;
         Some (int (length b) + 1, tx, rx, e) }
     | None \<Rightarrow> map_option (\<lambda>rx. (1, tx, rx, e)) (aset rx 0 0) }"

record gui_s =
  sv_q :: mqueue
  sv_idx :: int
  sv_tx :: "u8 list"

definition server_send_one :: "commhead \<times> u8 list list \<times> gui_s \<Rightarrow> (bool \<times> commhead \<times> u8 list list \<times> gui_s) option" where
  "server_send_one = (\<lambda>(h, fs, s). do {
     (nd, mq) \<leftarrow> PopQueue (sv_idx s) (sv_q s);
     let s = s\<lparr>sv_q := mq\<rparr>;
     case nd of None \<Rightarrow> Some (False, h, fs, s)
     | Some a \<Rightarrow> do {
         (mn, p, mq) \<leftarrow> take_node a mq;
         (h, tx) \<leftarrow> copy_data p (h\<lparr>hd_cmd := word_of_int mn\<rparr>) (sv_tx s);
         f \<leftarrow> make_frame h tx;
         Some (True, h, fs @ [f], s\<lparr>sv_q := mq, sv_tx := tx\<rparr>) } })"

definition server_send :: "gui_s \<Rightarrow> (u8 list list \<times> gui_s) option" where
  "server_send s =
     (if sv_idx s < 0 then Some ([], s)
      else do {
        (more1, x) \<leftarrow> server_send_one (empty_head, [], s);
        (more2, h, fs, s) \<leftarrow> (if more1 then server_send_one x else Some (False, x));
        Some (fs, s) })"


section \<open>The constructor and the destructor of the client\<close>

text \<open>
  \<open>old\<close> says whether there is a data buffer of this index already, \<open>d\<close> is a new one.  The buffers are filled with \<open>junk\<close>.
\<close>

definition new_client :: "(nat \<Rightarrow> u8) \<Rightarrow> int \<Rightarrow> bool \<Rightarrow> data_buf \<Rightarrow> guic \<Rightarrow> gui_c option" where
  "new_client junk idx old d g = do {
     (co, mq) \<leftarrow> BindQueue idx (gc_mq g);
     (co, mq) \<leftarrow> (if co = idx \<and> old then map_option (Pair (- 1)) (FreeQueue idx mq) else Some (co, mq));
     Some \<lparr>gui_q = g\<lparr>gc_mq := mq\<rparr>, gui_data = d, co_idx = co, tx_buffer = map junk [0..<1024], rx_buffer = map junk [0..<1024],
       send_cmdbuf = replicate 64 free_slot\<rparr> }"

definition client_destroy :: "gui_c \<Rightarrow> mqueue option" where
  "client_destroy s = (if co_idx s < 0 then Some (gc_mq (gui_q s)) else FreeQueue (co_idx s) (gc_mq (gui_q s)))"

lemma destroy_never_ends: "0 \<le> co_idx s \<Longrightarrow> co_idx s < mq_max (gc_mq (gui_q s)) \<Longrightarrow> client_destroy s = None"
  by (simp add: client_destroy_def free_queue_fails)

section \<open>A queue whose mutex is held\<close>

definition held :: "int \<Rightarrow> mqueue \<Rightarrow> bool" where
  "held idx mq \<longleftrightarrow> 0 \<le> idx \<and> idx < mq_max mq \<and> (\<exists>pq. aget (mq_queues mq) idx = Some pq \<and> c_locked (pq_control pq))"

lemma Pop_holds: "PopQueue idx mq = Some (nd, mc) \<Longrightarrow> 0 \<le> idx \<Longrightarrow> idx < mq_max mq \<Longrightarrow> held idx mc"
  by (auto simp: PopQueue_def held_def mutex_lock_def aget_def aset_def split: Option.bind_splits if_splits)

lemma held_Pop: "held idx mq \<Longrightarrow> PopQueue idx mq = None"
  by (auto simp: PopQueue_def held_def mutex_lock_def)

lemma held_Clear: "held idx (gc_mq g) \<Longrightarrow> ClearWaitCnt idx sn g = None"
  by (auto simp: ClearWaitCnt_def held_def mutex_lock_def)

lemma held_Push: "held idx mq \<Longrightarrow> PushQueue mem idx mj mn p mq = Some (r, mc) \<Longrightarrow> mc = mq"
  by (auto simp: PushQueue_def held_def mutex_lock_def aget_def split: Option.bind_splits if_splits option.splits)

lemma held_pushed: "PushQueue mem idx mj mn p mq = Some (r, mc) \<Longrightarrow> held idx mq \<Longrightarrow> held idx mc"
  using held_Push by blast

lemma held_take: "take_node a mq = Some (mn, p, mc) \<Longrightarrow> held idx mq \<Longrightarrow> held idx mc"
  by (auto simp: take_node_def held_def split: option.splits work.splits)

lemma clear_slot: "ClearSendbuf sn s = Some t \<Longrightarrow> gui_q t = gui_q s \<and> co_idx t = co_idx s"
  by (auto simp: ClearSendbuf_def split: Option.bind_splits option.splits payload.splits)

lemma held_resend:
  assumes "held (co_idx s) (gc_mq (gui_q s))" "resend mem i s = Some t"
  shows "gui_q t = gui_q s \<and> co_idx t = co_idx s"
  using assms by (auto simp: resend_def held_Clear dest: held_pushed clear_slot split: Option.bind_splits if_splits)

lemma held_resends:
  assumes "for_loop lo hi (resend mem) s = Some t" "held (co_idx s) (gc_mq (gui_q s))"
  shows "held (co_idx t) (gc_mq (gui_q t))"
  by (rule for_loop_invariant [where P = "\<lambda>s. held (co_idx s) (gc_mq (gui_q s))", OF assms]) (metis held_resend)

lemma client_one_empty:
  assumes "client_send_one (h, fs, s) = Some (m, h', fs', s')" "0 \<le> co_idx s" "co_idx s < mq_max (gc_mq (gui_q s))"
  shows "\<not> m \<and> fs' = fs \<and> held (co_idx s') (gc_mq (gui_q s'))"
proof -
  obtain nd mq where pop: "PopQueue (co_idx s) (gc_mq (gui_q s)) = Some (nd, mq)"
    using assms(1) by (auto simp: client_send_one_def split: Option.bind_splits)
  have held: "held (co_idx s) mq" using Pop_holds [OF pop assms(2,3)] .
  show ?thesis
  proof (cases nd)
    case None
    then show ?thesis using assms(1) pop held by (auto simp: client_send_one_def)
  next
    case (Some a)
    then have False using assms(1) pop held held_Clear
      by (auto simp: client_send_one_def dest: held_take [of a mq] split: Option.bind_splits)
    then show ?thesis ..
  qed
qed


lemma server_one:
  assumes "server_send_one (h, fs, s) = Some (m, h', fs', s')" "0 \<le> sv_idx s" "sv_idx s < mq_max (sv_q s)"
  shows "(\<not> m \<longrightarrow> fs' = fs) \<and> sv_idx s' = sv_idx s \<and> held (sv_idx s) (sv_q s')"
proof -
  obtain nd mq where pop: "PopQueue (sv_idx s) (sv_q s) = Some (nd, mq)"
    using assms(1) by (auto simp: server_send_one_def split: Option.bind_splits)
  have held: "held (sv_idx s) mq" using Pop_holds [OF pop assms(2,3)] .
  show ?thesis
    using assms(1) pop held held_take [OF _ held]
    by (cases nd) (auto simp: server_send_one_def split: Option.bind_splits)
qed

section \<open>Properties\<close>

text \<open>
  C5. The link to the screen stops: \<open>Pop\<close> returns with the mutex of the queue held, so that, for client and server alike
  and whatever their queues and buffers hold, a call that sends returns at most once, without a frame; the next call never
  returns.
\<close>

theorem screen_link_stops:
  "(0 \<le> co_idx s \<and> co_idx s < mq_max (gc_mq (gui_q s)) \<longrightarrow>
     client_send mem s = Some (fs, s') \<longrightarrow> fs = [] \<and> client_send mem' s' = None) \<and>
   (0 \<le> sv_idx v \<and> sv_idx v < mq_max (sv_q v) \<longrightarrow>
     server_send v = Some (gs, v') \<longrightarrow> gs = [] \<and> server_send v' = None)"
proof (intro conjI impI)
  assume idx: "0 \<le> co_idx s \<and> co_idx s < mq_max (gc_mq (gui_q s))" and run: "client_send mem s = Some (fs, s')"
  then obtain m h f t where one: "client_send_one (empty_head, [], s) = Some (m, h, f, t)"
    by (auto simp: client_send_def split: Option.bind_splits)
  note e = client_one_empty [OF this] idx
  then have "fs = []" "for_loop 0 kCmdBufNum (resend mem) t = Some s'"
    using run one by (auto simp: client_send_def split: Option.bind_splits)
  moreover have "held (co_idx s') (gc_mq (gui_q s'))" using held_resends [OF calculation(2)] e by blast
  then have "client_send mem' s' = None"
    by (auto simp: client_send_def client_send_one_def held_Pop) (simp add: held_def)
  ultimately show "fs = []" "client_send mem' s' = None" by simp_all
next
  assume idx: "0 \<le> sv_idx v \<and> sv_idx v < mq_max (sv_q v)" and run: "server_send v = Some (gs, v')"
  then obtain m h f t where one: "server_send_one (empty_head, [], v) = Some (m, h, f, t)"
    by (auto simp: server_send_def split: Option.bind_splits)
  then have e: "\<not> m \<longrightarrow> f = []" "sv_idx t = sv_idx v" "held (sv_idx t) (sv_q t)" using server_one idx by metis+
  have "server_send_one (h', fs', t) = None" for h' fs' using held_Pop [OF e(3)] by (simp add: server_send_one_def)
  then have "\<not> m" "gs = f" "v' = t" using run one idx by (auto simp: server_send_def split: Option.bind_splits if_splits)
  then show "gs = []" "server_send v' = None"
    using e \<open>\<And>h' fs'. server_send_one (h', fs', t) = None\<close> by (auto simp: server_send_def held_def)
qed

definition demo_gui :: gui_c where
  "demo_gui = \<lparr>gui_q = \<lparr>gc_mq = \<lparr>mq_max = 1, mq_queues = [idle_queue], mq_state = [1], mq_heap = (\<lambda>_. None)\<rparr>, gc_wait = [replicate 64 0]\<rparr>,
     gui_data = \<lparr>para_phd = [0, 0, 0, 0], para_ld = replicate 4 [0, 0], para_chnl = replicate 4 [0, 0], ld_freq = [], chnl_type = [0, 0, 0, 0], chl_match = 0\<rparr>,
     co_idx = 0, tx_buffer = replicate 30 0, rx_buffer = replicate 30 0, send_cmdbuf = replicate 64 free_slot\<rparr>"

definition demo_srv :: gui_s where
  "demo_srv = \<lparr>sv_q = gc_mq (gui_q demo_gui), sv_idx = 0, sv_tx = replicate 30 0\<rparr>"

theorem screen_link_stops_witness:
  "(case client_send (\<lambda>i. None) demo_gui of Some (fs, s') \<Rightarrow> fs = [] \<and> client_send (\<lambda>i. None) s' = None | None \<Rightarrow> False) \<and>
   (case server_send demo_srv of Some (gs, v') \<Rightarrow> gs = [] \<and> server_send v' = None | None \<Rightarrow> False)"
proof -
  have i: "0 \<le> co_idx demo_gui \<and> co_idx demo_gui < mq_max (gc_mq (gui_q demo_gui))" "0 \<le> sv_idx demo_srv \<and> sv_idx demo_srv < mq_max (sv_q demo_srv)"
    by (simp_all add: demo_gui_def demo_srv_def)
  have "client_send (\<lambda>i. None) demo_gui \<noteq> None" "server_send demo_srv \<noteq> None" by code_simp+
  then obtain fs s' gs v' where r: "client_send (\<lambda>i. None) demo_gui = Some (fs, s')" "server_send demo_srv = Some (gs, v')" by auto
  then show ?thesis using screen_link_stops [of demo_gui "\<lambda>i. None" fs s' "\<lambda>i. None" demo_srv gs v'] i by simp
qed

text \<open>What the server sends on its own is never stored: its codes do not fit in the byte of the command.\<close>

lemma server_data_ignored: "ty \<notin> {1, 2, 3} \<Longrightarrow> SetData buf ty d = Some d"
  using uint_lt2p [of ty] by (auto simp: SetData_def)

text \<open>The serial number of an answer is taken from the wire: one of 64 or more is looked up behind the table.\<close>

lemma ack_out_of_range:
  assumes "length (send_cmdbuf s) = 64" "0 \<le> co_idx s" "aslice rbuf 0 20 = Some hb" "hd_cmd (head_of hb) < 12" "64 \<le> frm_sn (head_of hb)"
    "hd_compress (head_of hb) = 0"
  shows "client_receive unzip rbuf s = None"
proof -
  have "64 \<le> uint (frm_sn (head_of hb))" using assms(5) by (simp add: word_le_def)
  then have "ClearSendbuf (uint (frm_sn (head_of hb))) t = None" if "send_cmdbuf t = send_cmdbuf s" for t
    using that assms(1) by (simp add: ClearSendbuf_def aget_def)
  then show ?thesis using assms by (auto simp: client_receive_def IniHead_def Let_def split: Option.bind_splits)
qed

text \<open>
  The server answers with a one in front of the parameters of the device; the client stores them with this byte: every one is
  a byte too late and the last is lost.
\<close>

lemma device_parameters_shifted:
  assumes "HandleParm P i tx rx 1 e = Some (n, tx', rx', e')" "get_prm P 1 i (if rx ! 0 = 0 then e else set_prm P 1 0 (drop 1 rx) e) = (Some b, e')"
    "length (para_phd d) = length b" "b \<noteq> []"
  shows "\<exists>d'. SetData tx' 1 d = Some d' \<and> para_phd d' = 1 # butlast b"
proof -
  obtain gs ix tx1 where g: "aget rx 0 = Some gs" "aset tx 0 1 = Some tx1" "blit tx1 1 b = Some tx'"
    using assms(1,2) by (auto simp: HandleParm_def Let_def aget_def split: Option.bind_splits if_splits)
  then have t: "length tx1 > length b" "tx' = take 1 tx1 @ b @ drop (1 + length b) tx1" "tx1 ! 0 = 1"
    by (auto simp: blit_def aset_def split: if_splits)
  then have "tx' = 1 # b @ drop (1 + length b) tx1" by (cases tx1) auto
  moreover have "take (length b) (1 # b @ r) = 1 # butlast b" for r :: "u8 list"
    using assms(4) by (cases b rule: rev_cases) auto
  ultimately show ?thesis using assms(3) by (auto simp: SetData_def SetParm_def aget_def aslice_def)
qed

text \<open>Reading the parameters of a logical device: the index in the request is not used.\<close>

lemma read_ignores_index:
  "rx ! 0 = 0 \<Longrightarrow> HandleParm P idx0 tx (rx[1 := j]) 2 e = map_option (\<lambda>(n, t, r, e). (n, t, r[1 := j], e)) (HandleParm P idx0 tx rx 2 e)"
  by (auto simp: HandleParm_def aget_def aset_def list_update_swap split: prod.splits option.splits Option.bind_splits)

end
