(* ===== verification/Harm_Func.thy ===== *)
theory Harm_Func
  imports Phy_PqB Complex_Main
begin

text \<open>
  Harmonics (\<open>main/src/pqm_func/harmfunc.cpp\<close>, \<open>harmbase.cpp\<close>): the amplitudes and phases as they come in with their maxima
  and minima, the check of the limits, the limits of the interharmonics and their packing into records.
  Amplitudes are \<open>unsigned long\<close> of 32 bits (integers here, with the wrap-around of products written out), phases and
  packed values \<open>unsigned short\<close>; \<open>float\<close> values are exact rationals.  \<open>zip_int\<close> and \<open>unzip_int\<close>, which pack an amplitude into 16 bits, and
  the parameter objects are not in the repository: they are arguments.  What needs a sine or a root (powers, sequence components,
  averages) is left out.
\<close>

section \<open>State\<close>

text \<open>
  Arrays of three phases and 51 orders, voltage and current: \<open>hrms vc ! phase ! order\<close>.  The aggregates are
  maximum and minimum; \<open>avgbuf\<close> sums (squares of) amplitudes.
\<close>

type_synonym 'a phases3 = "'a list list"

record harm =
  harmrms :: "int phases3 list"
  harm_max :: "int phases3 list"
  harm_min :: "int phases3 list"
  harm_avgbuf :: "rat phases3 list"
  harmphs :: "u16 phases3 list"
  line_coef :: "int list"

abbreviation MAX_HARM_NUM :: int where "MAX_HARM_NUM \<equiv> 50"

text \<open>\<open>a[i][j][k]\<close>: reading and writing.\<close>

definition get3 :: "'a list list list \<Rightarrow> int \<Rightarrow> int \<Rightarrow> int \<Rightarrow> 'a option" where
  "get3 a i j k = do { p \<leftarrow> aget a i; r \<leftarrow> aget p j; aget r k }"

definition set3 :: "'a list list list \<Rightarrow> int \<Rightarrow> int \<Rightarrow> int \<Rightarrow> 'a \<Rightarrow> 'a list list list option" where
  "set3 a i j k v = do { p \<leftarrow> aget a i; r \<leftarrow> aget p j; r \<leftarrow> aset r k v; p \<leftarrow> aset p j r; aset a i p }"

section \<open>Amplitudes\<close>

text \<open>A value above the maximum becomes the maximum; otherwise one below the minimum becomes the minimum.\<close>

definition max_min :: "int \<Rightarrow> int \<Rightarrow> int \<Rightarrow> int \<Rightarrow> harm \<Rightarrow> harm option" where
  "max_min vc i j ul s = do {
     mx \<leftarrow> get3 (harm_max s) vc i j;
     if ul > mx then map_option (\<lambda>a. s\<lparr>harm_max := a\<rparr>) (set3 (harm_max s) vc i j ul)
     else do {
       mn \<leftarrow> get3 (harm_min s) vc i j;
       if ul < mn then map_option (\<lambda>a. s\<lparr>harm_min := a\<rparr>) (set3 (harm_min s) vc i j ul)
       else Some s } }"

definition put_rms :: "int \<Rightarrow> int \<Rightarrow> int \<Rightarrow> int \<Rightarrow> rat \<Rightarrow> harm \<Rightarrow> harm option" where
  "put_rms vc i j ul sq s = do {
     a \<leftarrow> set3 (harmrms s) vc i j ul;
     v \<leftarrow> get3 (harm_avgbuf s) vc i j;
     b \<leftarrow> set3 (harm_avgbuf s) vc i j (v + sq);
     Some (s\<lparr>harmrms := a, harm_avgbuf := b\<rparr>) }"

definition wrap32 :: "int \<Rightarrow> int" where
  "wrap32 n = n mod 2 ^ 32"

text \<open>
  The packing, and the parameters: correction of the line (in thousandths), whether the voltage transducers are corrected and by
  how many thousandths per order.
\<close>

record harm_env =
  unzip_int :: "u16 \<Rightarrow> int"
  zip_int :: "int \<Rightarrow> u16"
  vlinecoef :: "int \<Rightarrow> int"
  cvt_modify_en :: bool
  cvt_modify :: "int \<Rightarrow> int"

definition cvt_corrected :: "harm_env \<Rightarrow> int \<Rightarrow> int \<Rightarrow> int \<Rightarrow> int" where
  "cvt_corrected E vc j ul = (if vc = 0 \<and> cvt_modify_en E then wrap32 (ul * cvt_modify E (j - 2)) div 1000 else ul)"

text \<open>
  Direct component, fundamental (a voltage below 45.774 V is raised) and the harmonics up to the 25th of one phase; the
  input is the row of the phase, in which the raised fundamental is packed again.
\<close>

definition write_dc :: "harm_env \<Rightarrow> int \<Rightarrow> int \<Rightarrow> u16 \<Rightarrow> harm \<Rightarrow> harm option" where
  "write_dc E vc i w s = put_rms vc i 0 (unzip_int E w) (of_int (unzip_int E w)) s"

definition line_correction :: "harm_env \<Rightarrow> int \<Rightarrow> int \<Rightarrow> int" where
  "line_correction E i ul =
     (if ul < 45774 then (let n = 45774 - ul; n = (if n > 40000 then 40000 else n) in sint (word_of_int (n * vlinecoef E i sdiv 40000) :: 16 word)) else 0)"

definition write_fundamental :: "harm_env \<Rightarrow> int \<Rightarrow> int \<Rightarrow> u16 \<Rightarrow> harm \<Rightarrow> (u16 \<times> harm) option" where
  "write_fundamental E vc i w s = do {
     let ul = unzip_int E w;
     (w, ul, s) \<leftarrow>
       (if vc = 0 then do {
          let c = line_correction E i ul;
          lc \<leftarrow> aset (line_coef s) i c;
          Some (zip_int E (wrap32 (ul + c)), wrap32 (ul + c), s\<lparr>line_coef := lc\<rparr>) }
        else Some (w, ul, s));
     s \<leftarrow> put_rms vc i 1 ul (of_int ul * of_int ul) s;
     s \<leftarrow> max_min vc i 1 ul s;
     Some (w, s) }"

definition write_harmonic :: "harm_env \<Rightarrow> int \<Rightarrow> int \<Rightarrow> int \<Rightarrow> u16 \<Rightarrow> harm \<Rightarrow> harm option" where
  "write_harmonic E vc i j w s = do {
     let ul = cvt_corrected E vc j (unzip_int E w);
     s \<leftarrow> put_rms vc i j ul (of_int (wrap32 (ul * ul))) s;
     max_min vc i j ul s }"

definition write_hamp :: "harm_env \<Rightarrow> u16 list \<Rightarrow> u16 list \<Rightarrow> harm \<Rightarrow> (u16 list \<times> u16 list \<times> harm) option" where
  "write_hamp E hu hi s =
     for_loop 0 2 (\<lambda>vc (hu, hi, s).
       for_loop 0 3 (\<lambda>i (hu, hi, s). do {
         let b = i * 26;
         w \<leftarrow> aget (if vc = 0 then hu else hi) b;
         s \<leftarrow> write_dc E vc i w s;
         w \<leftarrow> aget (if vc = 0 then hu else hi) (b + 1);
         (w, s) \<leftarrow> write_fundamental E vc i w s;
         hu \<leftarrow> (if vc = 0 then aset hu (b + 1) w else Some hu);
         s \<leftarrow> for_loop 2 26 (\<lambda>j s. do {
           w \<leftarrow> aget (if vc = 0 then hu else hi) (b + j);
           write_harmonic E vc i j w s }) s;
         Some (hu, hi, s) }) (hu, hi, s)) (hu, hi, s)"

text \<open>The orders 26 to 50, when they are valid: of the voltages only sums are kept, of the currents also maximum and minimum.\<close>

definition write_exthamp :: "harm_env \<Rightarrow> u16 list \<Rightarrow> u16 list \<Rightarrow> u16 \<Rightarrow> harm \<Rightarrow> harm option" where
  "write_exthamp E hu hi valid s =
     (if valid AND 1 \<noteq> 0 then
        for_loop 0 3 (\<lambda>i s. for_loop 26 51 (\<lambda>j s. do {
          w \<leftarrow> aget hu (i * 25 + j - 26);
          let ul = cvt_corrected E 0 j (unzip_int E w);
          s \<leftarrow> put_rms 0 i j ul (of_int (wrap32 (ul * ul))) s;
          w \<leftarrow> aget hi (i * 25 + j - 26);
          let ui = unzip_int E w;
          s \<leftarrow> put_rms 1 i j ui (of_int (wrap32 (ui * ui))) s;
          max_min 1 i j ui s }) s) s
      else for_loop 0 3 (\<lambda>i s. for_loop 26 51 (\<lambda>j s. do {
          a \<leftarrow> set3 (harmrms s) 0 i j 0;
          a \<leftarrow> set3 a 1 i j 0;
          Some (s\<lparr>harmrms := a\<rparr>) }) s) s)"


section \<open>Phases\<close>

definition lack_one :: "int \<Rightarrow> int \<Rightarrow> harm \<Rightarrow> bool option" where
  "lack_one vc phs s =
     (if phs < 0 \<or> phs > 2 then Some True
      else if vc \<noteq> 0 then map_option (\<lambda>v. v < 1) (get3 (harmrms s) 1 phs 1)
      else map_option (\<lambda>v. v < 20) (get3 (harmrms s) 0 phs 1))"

definition lack_phs :: "int \<Rightarrow> int \<Rightarrow> harm \<Rightarrow> bool option" where
  "lack_phs vc phs s =
     (if phs = 255 then do {
        a \<leftarrow> lack_one vc 0 s; b \<leftarrow> lack_one vc 1 s; c \<leftarrow> lack_one vc 2 s;
        Some (a \<or> b \<or> c) }
      else lack_one vc phs s)"

text \<open>\<open>memcpy\<close> of \<open>n\<close> phases behind the order \<open>lo\<close>; with the clamp meters the phases of the currents are raised by 0.4 degrees first.\<close>

definition raise_phases :: "int \<Rightarrow> harm \<Rightarrow> u16 list \<Rightarrow> u16 list option" where
  "raise_phases n s hi = for_loop 0 3 (\<lambda>i hi. do {
     l \<leftarrow> lack_phs 1 i s;
     if l then Some hi
     else for_loop 0 n (\<lambda>k hi. do { v \<leftarrow> aget hi (i * n + k); aset hi (i * n + k) (v + 4) }) hi }) hi"

definition put_phases :: "int \<Rightarrow> int \<Rightarrow> int \<Rightarrow> int \<Rightarrow> u16 list \<Rightarrow> harm \<Rightarrow> harm option" where
  "put_phases n lo vc i w s = do {
     p \<leftarrow> aget (harmphs s) vc;
     r \<leftarrow> aget p i;
     v \<leftarrow> aslice w (i * n) n;
     r \<leftarrow> blit r lo v;
     p \<leftarrow> aset p i r;
     map_option (\<lambda>a. s\<lparr>harmphs := a\<rparr>) (aset (harmphs s) vc p) }"

definition write_phases :: "bool \<Rightarrow> int \<Rightarrow> int \<Rightarrow> u16 list \<Rightarrow> u16 list \<Rightarrow> harm \<Rightarrow> (u16 list \<times> harm) option" where
  "write_phases clamp n lo hu hi s = do {
     hi \<leftarrow> (if clamp then raise_phases n s hi else Some hi);
     s \<leftarrow> for_loop 0 3 (\<lambda>i s. do { s \<leftarrow> put_phases n lo 0 i hu s; put_phases n lo 1 i hi s }) s;
     Some (hi, s) }"

definition write_hphs :: "bool \<Rightarrow> u16 list \<Rightarrow> u16 list \<Rightarrow> harm \<Rightarrow> (u16 list \<times> harm) option" where
  "write_hphs clamp = write_phases clamp 26 0"

definition write_exthphs :: "bool \<Rightarrow> u16 list \<Rightarrow> u16 list \<Rightarrow> u16 \<Rightarrow> harm \<Rightarrow> (u16 list \<times> harm) option" where
  "write_exthphs clamp hu hi valid s = (if valid AND 1 \<noteq> 0 then write_phases clamp 25 26 hu hi s else Some (hi, s))"

text \<open>The phase as it is reported, in tenths of a degree: turned by 90 degrees outside debugging, and in two ranges.\<close>

definition get_phase :: "bool \<Rightarrow> int \<Rightarrow> int \<Rightarrow> int \<Rightarrow> bool \<Rightarrow> harm \<Rightarrow> int option" where
  "get_phase debug phs vc hms half s = do {
     w \<leftarrow> get3 (harmphs s) vc phs hms;
     let fi = uint w;
     let fi = (if debug then fi else if fi + 900 \<ge> 3600 then fi + 900 - 3600 else fi + 900);
     Some (if half \<and> fi > 1800 then fi - 3600 else fi) }"

definition SetRecTime :: "int \<Rightarrow> int" where
  "SetRecTime t = t - t smod 3"

section \<open>Limits\<close>

record user_cur =
  user_cur3 :: rat
  user_cur5 :: rat
  user_cur7 :: rat
  user_cur11 :: rat
  user_cur13 :: rat
  user_cur_oth :: rat

definition HamULimit :: "rat list list" where
  "HamULimit = [[5, 4, 2], [4, 32/10, 16/10], [4, 32/10, 16/10], [3, 24/10, 12/10], [3, 24/10, 12/10],
     [2, 16/10, 8/10], [2, 16/10, 8/10], [2, 16/10, 8/10], [2, 16/10, 8/10], [2, 16/10, 8/10]]"

text \<open>
  The limits of voltages (cell 0 is that of the distortion, cell n - 1 that of order n) and currents (cell n - 2).  \<open>national\<close> is the table
  of the currents of the voltage level, \<open>ulim\<close> and \<open>ilim\<close> are the custom ones in tenths.
\<close>

definition set_harm_limit :: "bool \<Rightarrow> int \<Rightarrow> rat list \<Rightarrow> rat list \<Rightarrow> rat list \<Rightarrow> rat list \<times> rat list \<Rightarrow> (rat list \<times> rat list) option" where
  "set_harm_limit custom level national ulim ilim lims = do {
     (u, c) \<leftarrow> (if custom then do {
         x \<leftarrow> aget ulim 0;
         u \<leftarrow> aset (fst lims) 0 (x / 10);
         for_loop 0 24 (\<lambda>i (u, c). do {
           x \<leftarrow> aget ulim (i + 1); u \<leftarrow> aset u (i + 1) (x / 10);
           y \<leftarrow> aget ilim i; c \<leftarrow> aset c i (y / 10); Some (u, c) }) (u, snd lims) }
       else do {
         row \<leftarrow> aget HamULimit level;
         x \<leftarrow> aget row 0;
         u \<leftarrow> aset (fst lims) 0 x;
         for_loop 0 12 (\<lambda>i (u, c). do {
           x \<leftarrow> aget row 1; u \<leftarrow> aset u (i * 2 + 1) x;
           x \<leftarrow> aget row 2; u \<leftarrow> aset u (i * 2 + 2) x;
           y \<leftarrow> aget national (i * 2); c \<leftarrow> aset c (i * 2) y;
           y \<leftarrow> aget national (i * 2 + 1); c \<leftarrow> aset c (i * 2 + 1) y; Some (u, c) }) (u, snd lims) });
     for_loop 24 49 (\<lambda>i (u, c). do {
       x \<leftarrow> aget ulim (i + 1); u \<leftarrow> aset u (i + 1) (x / 10);
       y \<leftarrow> aget ilim i; c \<leftarrow> aset c i (y / 10); Some (u, c) }) (u, c) }"

definition hrmi_limit :: "rat list \<Rightarrow> user_cur \<Rightarrow> int \<Rightarrow> rat option" where
  "hrmi_limit c uc n = map_option (\<lambda>d. d *
     (if n = 3 then user_cur3 uc else if n = 5 then user_cur5 uc else if n = 7 then user_cur7 uc
      else if n = 11 then user_cur11 uc else if n = 13 then user_cur13 uc else user_cur_oth uc)) (aget c (n - 2))"

section \<open>Check of the limits\<close>

text \<open>An entry of the list of alarms: twice the phase (plus one for a current) in the high byte, the order in the low one.\<close>

definition entry :: "int \<Rightarrow> int \<Rightarrow> u16" where
  "entry row i = word_of_int (row * 256) OR word_of_int i"

definition one_alarm :: "bool \<Rightarrow> u16 \<Rightarrow> nat \<Rightarrow> u16 list \<times> int \<times> u32 \<Rightarrow> (u16 list \<times> int \<times> u32) option" where
  "one_alarm c e k = (\<lambda>(a, n, w).
     if c then map_option (\<lambda>a. (a, n + 1, w OR push_bit k 1)) (aset a n e)
     else Some (a, n, w AND NOT (push_bit k 1)))"

record harm_limits =
  u_limit :: "rat list"
  i_limit :: "rat list"
  user_c :: user_cur
  ct_ratio :: rat

text \<open>\<open>thd\<close> and \<open>hru\<close> are the distortion and the ratios of the voltages in percent.\<close>

definition HarmAlarmCheck ::
  "harm_limits \<Rightarrow> rat list \<Rightarrow> rat list list \<Rightarrow> int list list \<Rightarrow> u16 list \<times> u32 \<Rightarrow> (u16 list \<times> int \<times> u32) option" where
  "HarmAlarmCheck L thd hru hi = (\<lambda>(a, w). do {
     d \<leftarrow> aget (u_limit L) 0;
     st \<leftarrow> for_loop 0 3 (\<lambda>j st. do {
       x \<leftarrow> aget thd j;
       one_alarm (x * 100 > d) (entry (2 * j) 1) (nat j) st }) (a, 0, w);
     st \<leftarrow> for_loop 2 51 (\<lambda>i st. do {
       d \<leftarrow> aget (u_limit L) ((i + 1) mod 2 + 1);
       for_loop 0 3 (\<lambda>j st. do {
         row \<leftarrow> aget hru j; x \<leftarrow> aget row i;
         one_alarm (x \<ge> d) (entry (2 * j) i) (nat j + 3) st }) st }) st;
     for_loop 2 51 (\<lambda>i st. do {
       d \<leftarrow> hrmi_limit (i_limit L) (user_c L) i;
       for_loop 0 3 (\<lambda>j st. do {
         row \<leftarrow> aget hi j; x \<leftarrow> aget row i;
         one_alarm (of_int x * ct_ratio L > d) (entry (2 * j + 1) i) (nat j + 6) st }) st }) st })"

section \<open>Records\<close>

text \<open>What is saved: averages, or averages of the direct component and the fundamental and maxima of the harmonics.\<close>

definition zip_harm_rcd :: "harm_env \<Rightarrow> bool \<Rightarrow> int phases3 list \<Rightarrow> int phases3 list \<Rightarrow> u16 phases3 list" where
  "zip_harm_rcd E average mx avg =
     (if average then map (map (map (zip_int E))) avg
      else map2 (map2 (\<lambda>a m. map (zip_int E) (take 2 a @ drop 2 m))) avg mx)"

definition get_harm_rcd :: "u16 phases3 list \<Rightarrow> int \<Rightarrow> (int \<times> u16 list) option" where
  "get_harm_rcd z ty = map_option (\<lambda>p. (3 * (MAX_HARM_NUM + 1), concat p)) (aget z ty)"

definition SetUnits :: "u16 list \<Rightarrow> (bool \<times> int list \<times> int list) option" where
  "SetUnits addr = do {
     ui \<leftarrow> aget addr 0xf8;
     Some (if ui AND 0xff00 = 0x9500 then
        (False, if drop_bit 4 ui AND 0xf = 1 then ([1000, 10000, 100], [1, 2, 0]) else ([1000, 1000, 100], [1, 1, 0]))
      else (True, [1000, 1000, 100], [1, 1, 0])) }"


section \<open>Interharmonics\<close>

text \<open>
  The base values with which interharmonics are compared, two rows of 50 cells (voltage, current) one after the other:
  \<open>b\<close> are the cells before, \<open>ub k\<close> the bases of the voltage, \<open>cb\<close> those of the current by order.
\<close>

definition update_IntBase :: "(int \<Rightarrow> rat) \<Rightarrow> (int \<Rightarrow> rat) \<Rightarrow> rat list \<Rightarrow> rat list option" where
  "update_IntBase ub cb b = do {
     b \<leftarrow> aset b 0 (ub 0);
     (b, t) \<leftarrow> for_loop 1 49 (\<lambda>i (b, t). do { b \<leftarrow> aset b t (ub (i mod 2 + 1)); Some (b, t + 1) }) (b, 1);
     x \<leftarrow> aget b (t - 1);
     b \<leftarrow> aset b t x;
     b \<leftarrow> aset b t (cb 2);
     (b, t) \<leftarrow> for_loop 2 26 (\<lambda>i (b, t). do { b \<leftarrow> aset b t (cb i); Some (b, t + 1) }) (b, t + 1);
     (b, t) \<leftarrow> for_loop 0 25 (\<lambda>i (b, t). do { b \<leftarrow> aset b t (cb 25); Some (b, t + 1) }) (b, t);
     Some b }"

text \<open>
  The interharmonics as they come in: fifteen pairs of amplitude and phase for each order of the six quantities.  The pair with
  the largest amplitude is kept (up to the order \<open>hrm_num\<close>); the sum of the squares leaves out the outer two without \<open>inharm_type\<close>.
  Squares and sums are those of a 32-bit \<open>long\<close>; \<open>rt\<close> is the truncated square root.
\<close>

record inter =
  interhuimx :: "u16 list"
  harm_in :: "int phases3 list"
  in_max :: "int phases3 list"
  in_sum :: "int phases3 list"
  in_min :: "int phases3 list"

definition keep_larger :: "u16 list \<Rightarrow> bool \<Rightarrow> int \<Rightarrow> u16 list \<Rightarrow> u16 list option" where
  "keep_larger hui shown p mx = do {
     x \<leftarrow> aget hui p;
     y \<leftarrow> aget mx p;
     if x > y \<and> shown then do { mx \<leftarrow> aset mx p x; z \<leftarrow> aget hui (p + 1); aset mx (p + 1) z }
     else Some mx }"

definition slong :: "int \<Rightarrow> int" where
  "slong n = (n + 2 ^ 31) mod 2 ^ 32 - 2 ^ 31"

definition write_pair :: "u16 list \<Rightarrow> bool \<Rightarrow> bool \<Rightarrow> int \<Rightarrow> u16 list \<times> int \<Rightarrow> (u16 list \<times> int) option" where
  "write_pair hui shown counted p = (\<lambda>(mx, lj). do {
     mx \<leftarrow> keep_larger hui shown p mx;
     x \<leftarrow> aget hui p;
     Some (mx, if counted then slong (lj + slong (uint x * uint x)) else lj) })"

definition write_order :: "(int \<Rightarrow> int) \<Rightarrow> bool \<Rightarrow> int \<Rightarrow> u16 list \<Rightarrow> int \<Rightarrow> int \<Rightarrow> inter \<Rightarrow> inter option" where
  "write_order rt inharm_type hrm_num hui i j s = do {
     let p = (i * 51 + j) * 30;
     (mx, lj) \<leftarrow> write_pair hui (j < hrm_num + 1) inharm_type p (interhuimx s, 0);
     (mx, lj) \<leftarrow> for_loop 1 14 (\<lambda>k. write_pair hui (j < hrm_num + 1) True (p + 2 * k)) (mx, lj);
     (mx, lj) \<leftarrow> write_pair hui (j < hrm_num + 1) inharm_type (p + 28) (mx, lj);
     sm \<leftarrow> get3 (in_sum s) (i div 3) (i mod 3) j;
     sa \<leftarrow> set3 (in_sum s) (i div 3) (i mod 3) j (wrap32 (sm + lj));
     hin \<leftarrow> set3 (harm_in s) (i div 3) (i mod 3) j (wrap32 (rt lj));
     let s = s\<lparr>interhuimx := mx, in_sum := sa, harm_in := hin\<rparr>;
     if i > 2 then do {
       m \<leftarrow> get3 (in_max s) 1 (i - 3) j;
       if wrap32 (rt lj) > m then map_option (\<lambda>a. s\<lparr>in_max := a\<rparr>) (set3 (in_max s) 1 (i - 3) j (wrap32 (rt lj)))
       else do {
         m \<leftarrow> get3 (in_min s) 1 (i - 3) j;
         if wrap32 (rt lj) < m then map_option (\<lambda>a. s\<lparr>in_min := a\<rparr>) (set3 (in_min s) 1 (i - 3) j (wrap32 (rt lj)))
         else Some s } }
     else Some s }"

definition write_interhamp :: "(int \<Rightarrow> int) \<Rightarrow> bool \<Rightarrow> int \<Rightarrow> u16 list \<Rightarrow> inter \<Rightarrow> inter option" where
  "write_interhamp rt inharm_type hrm_num hui =
     for_loop 0 6 (\<lambda>i. for_loop 0 51 (write_order rt inharm_type hrm_num hui i))"

text \<open>
  The limits: the interharmonics above each order (\<open>reso - 1\<close> pairs of amplitude and phase) are cut out of the rows of
  fifteen pairs and copied when the root of the sum of their squares exceeds the limit; \<open>over x b\<close> is that root over the base, truncated
  to 16 bits.  Places are counted in 16-bit cells.
\<close>

definition kIntrReso :: "int list" where "kIntrReso = [8, 10, 16]"

definition square_sum :: "u16 list \<Rightarrow> int \<Rightarrow> int \<Rightarrow> int option" where
  "square_sum cells p reso = for_loop 0 reso (\<lambda>m fi. do { x \<leftarrow> aget cells (p + m * 2); Some (fi + uint x * uint x) }) 0"

definition copy_cells :: "u16 list \<Rightarrow> int \<Rightarrow> int \<Rightarrow> u16 list \<Rightarrow> u16 list option" where
  "copy_cells cells p n to = do { v \<leftarrow> aslice cells p n; blit to p v }"

definition cut_cell :: "u16 list \<Rightarrow> int \<Rightarrow> int \<Rightarrow> int \<Rightarrow> u16 list \<times> int \<Rightarrow> (u16 list \<times> int) option" where
  "cut_cell frm i j k = (\<lambda>(cells, p). do {
     x \<leftarrow> aget frm (i * 51 * 30 + j * 30 + k);
     cells \<leftarrow> aset cells p x;
     Some (cells, p + 1) })"

definition cut_out :: "int \<Rightarrow> u16 list \<Rightarrow> u16 list \<Rightarrow> u16 list option" where
  "cut_out reso frm cells =
     map_option fst (for_loop 0 6 (\<lambda>i. for_loop 0 51 (\<lambda>j. for_loop 0 ((reso - 1) * 2) (cut_cell frm i j))) (cells, 0))"

definition limit_order :: "(int \<Rightarrow> rat \<Rightarrow> int) \<Rightarrow> rat list \<Rightarrow> int \<Rightarrow> int \<Rightarrow> int \<Rightarrow> u16 list \<Rightarrow> int \<Rightarrow> int \<Rightarrow>
    u16 list \<times> int \<Rightarrow> (u16 list \<times> int) option" where
  "limit_order over base slimit hrm_num reso cells i k = (\<lambda>(to, p). do {
     let ignore = (reso div 2 - 1) * 2;
     fi \<leftarrow> square_sum cells p reso;
     b \<leftarrow> aget base (i * 50 + k - 1);
     to \<leftarrow> (if over fi b \<ge> slimit then
         (if k = 1 then copy_cells cells (p - ignore) ((reso + ignore div 2) * 2) to
          else if k = hrm_num then copy_cells cells p ((reso + ignore div 2) * 2) to
          else copy_cells cells p (reso * 2) to)
       else Some to);
     Some (to, p + (reso - 1) * 2) })"

definition inter_limit_hdl :: "(int \<Rightarrow> rat \<Rightarrow> int) \<Rightarrow> rat list \<Rightarrow> int \<Rightarrow> int \<Rightarrow> int \<Rightarrow> u16 list \<Rightarrow> u16 list \<Rightarrow> u16 list \<Rightarrow> u16 list option" where
  "inter_limit_hdl over base slimit hrm_num reso junk frm to = do {
     cells \<leftarrow> cut_out reso frm junk;
     map_option fst (for_loop 0 2 (\<lambda>i s. for_loop 0 3 (\<lambda>j s. do {
       (to, p) \<leftarrow> for_loop 1 51 (limit_order over base slimit hrm_num reso cells i) s;
       Some (to, p + (reso - 1) * 2) }) s) (to, (reso div 2 - 1) * 2)) }"

text \<open>
  The record of the interharmonics: a head of nine bytes and a group for every order of every phase that has values: phase and order, a
  word with the quantity in bit 15 and the places of the values below, and amplitude and phase of each value.
\<close>

definition pack_value :: "u16 list \<Rightarrow> int \<Rightarrow> u8 list \<times> int \<times> u16 \<times> int \<times> int \<Rightarrow> (u8 list \<times> int \<times> u16 \<times> int \<times> int) option" where
  "pack_value buf m = (\<lambda>(ib, totl, inter, inum, p). do {
     x \<leftarrow> aget buf p;
     if x \<noteq> 0 then do {
       let totl = (if inter = 0 then totl + 3 else totl);
       ib \<leftarrow> blit ib totl (le2 x);
       y \<leftarrow> aget buf (p + 1);
       ib \<leftarrow> blit ib (totl + 2) (le2 y);
       Some (ib, totl + 4, inter OR push_bit (nat m) 1, inum + 1, p + 2) }
     else Some (ib, totl, inter, inum, p + 2) })"

definition pack_order :: "u16 list \<Rightarrow> int \<Rightarrow> int \<Rightarrow> int \<Rightarrow> int \<Rightarrow> u8 list \<times> int \<times> int \<times> int \<Rightarrow> (u8 list \<times> int \<times> int \<times> int) option" where
  "pack_order buf reso i j k = (\<lambda>(ib, totl, grpnum, p). do {
     (ib, totl, inter, inum, p) \<leftarrow> for_loop 0 (reso - 1) (pack_value buf) (ib, totl, 0, 0, p);
     if inum \<noteq> 0 then do {
       ib \<leftarrow> aset ib (totl - inum * 4 - 3) (word_of_int (j * 64) + word_of_int k);
       ib \<leftarrow> blit ib (totl - inum * 4 - 2) (le2 (word_of_int (i * 2 ^ 15) + inter));
       Some (ib, totl, grpnum + 1, p) }
     else Some (ib, totl, grpnum, p) })"

definition pack_groups :: "u16 list \<Rightarrow> int \<Rightarrow> u8 list \<times> int \<times> int \<times> int \<Rightarrow> (u8 list \<times> int \<times> int \<times> int) option" where
  "pack_groups buf reso = for_loop 0 2 (\<lambda>i. for_loop 0 3 (\<lambda>j. for_loop 0 51 (\<lambda>k. pack_order buf reso i j k)))"

definition make_inter_struct :: "int \<Rightarrow> u16 list \<Rightarrow> u8 list \<Rightarrow> (int \<times> u8 list) option" where
  "make_inter_struct rid buf ib = do {
     reso \<leftarrow> aget kIntrReso rid;
     ib \<leftarrow> blit ib 0 (le2 0xcfce);
     (ib, totl, grpnum, p) \<leftarrow> pack_groups buf reso (ib, 9, 0, 0);
     ib \<leftarrow> blit ib 4 (le2 (word_of_int (totl - 7)));
     ib \<leftarrow> aset ib 6 (word_of_int rid);
     ib \<leftarrow> blit ib 7 (le2 (word_of_int grpnum));
     Some (if grpnum \<noteq> 0 then totl else 0, ib) }"


section \<open>The list of alarms and the alarm word\<close>

definition phase_list :: "int list" where "phase_list = [0..2]"
definition order_list :: "int list" where "order_list = [2..50]"

text \<open>
  The limit of a ratio is that of the odd or that of the even orders.  So it is in the national standard, whose two limits
  \<open>set_harm_limit\<close> stores in the cells 1 and 2 (and in those after them in turn).
\<close>

definition ratio_limit :: "harm_limits \<Rightarrow> int \<Rightarrow> rat" where
  "ratio_limit L i = u_limit L ! (if even i then 2 else 1)"

lemma ratio_limit_cell: "u_limit L ! nat ((i + 1) mod 2 + 1) = ratio_limit L i"
proof (cases "even i")
  case True
  then have "(i + 1) mod 2 = 1" by presburger
  then show ?thesis using True by (simp add: ratio_limit_def)
next
  case False
  then have "(i + 1) mod 2 = 0" by presburger
  then show ?thesis using False by (simp add: ratio_limit_def)
qed

lemma national_ratio_limits:
  "map_option (\<lambda>(u, c). take 3 u) (set_harm_limit False 0 (replicate 24 1) (replicate 50 7) (replicate 49 7)
     (replicate 50 0, replicate 49 0)) = Some [5, 4, 2]"
  by code_simp

text \<open>The reference: every comparison as a triple of its result, the entry and the bit, in the order of the checks.\<close>

definition checks :: "harm_limits \<Rightarrow> rat list \<Rightarrow> rat list list \<Rightarrow> int list list \<Rightarrow> (bool \<times> u16 \<times> nat) list" where
  "checks L thd hru hi =
     [(thd ! nat j * 100 > u_limit L ! 0, entry (2 * j) 1, nat j). j \<leftarrow> phase_list] @
     [(hru ! nat j ! nat i \<ge> ratio_limit L i, entry (2 * j) i, nat j + 3). i \<leftarrow> order_list, j \<leftarrow> phase_list] @
     [(of_int (hi ! nat j ! nat i) * ct_ratio L > the (hrmi_limit (i_limit L) (user_c L) i), entry (2 * j + 1) i, nat j + 6). i \<leftarrow> order_list, j \<leftarrow> phase_list]"

definition alarm_bits :: "(bool \<times> u16 \<times> nat) list \<Rightarrow> u32 \<Rightarrow> u32" where
  "alarm_bits cs w = fold (\<lambda>(c, e, k) w. if c then w OR push_bit k 1 else w AND NOT (push_bit k 1)) cs w"

lemma foldO_bind: "foldO f (xs @ ys) s = foldO f xs s \<bind> foldO f ys"
  by (simp add: foldO_append split: option.splits)

lemma foldO_concat: "foldO f (concat xss) s = foldO (foldO f) xss s"
  by (induction xss arbitrary: s) (auto simp: foldO_append split: option.splits)

lemma run_alarms:
  assumes "nat n + length (filter fst cs) \<le> length a" "0 \<le> n"
  shows "foldO (\<lambda>(c, e, k). one_alarm c e k) cs (a, n, w) =
    Some (take (nat n) a @ map (fst \<circ> snd) (filter fst cs) @ drop (nat n + length (filter fst cs)) a,
      n + int (length (filter fst cs)), alarm_bits cs w)"
  using assms
proof (induction cs arbitrary: a n w)
  case Nil
  then show ?case by (simp add: alarm_bits_def)
next
  case (Cons x cs)
  obtain c e k where x: "x = (c, e, k)" by (cases x)
  show ?case
  proof (cases c)
    case False
    then show ?thesis using Cons x by (simp add: one_alarm_def alarm_bits_def)
  next
    case True
    then have l: "nat n < length a" using Cons.prems x by simp
    have t: "take (nat (n + 1)) (a[nat n := e]) = take (nat n) a @ [e]"
      using l Cons.prems(2) by (simp add: nat_add_distrib take_Suc_conv_app_nth)
    have d: "drop (nat (n + 1) + m) (a[nat n := e]) = drop (nat n + Suc m) a" for m
      using Cons.prems(2) by (simp add: nat_add_distrib)
    have "one_alarm c e k (a, n, w) = Some (a[nat n := e], n + 1, w OR push_bit k 1)"
      using True l Cons.prems(2) by (simp add: one_alarm_def aset_def)
    moreover have "foldO (\<lambda>(c, e, k). one_alarm c e k) cs (a[nat n := e], n + 1, w OR push_bit k 1) =
      Some (take (nat (n + 1)) (a[nat n := e]) @ map (fst \<circ> snd) (filter fst cs) @ drop (nat (n + 1) + length (filter fst cs)) (a[nat n := e]),
        n + 1 + int (length (filter fst cs)), alarm_bits cs (w OR push_bit k 1))"
      using Cons.prems x True by (intro Cons.IH) auto
    ultimately show ?thesis using True x unfolding t d by (simp add: alarm_bits_def)
  qed
qed

definition alarm_shapes :: "harm_limits \<Rightarrow> rat list \<Rightarrow> rat list list \<Rightarrow> int list list \<Rightarrow> bool" where
  "alarm_shapes L thd hru hi \<longleftrightarrow> length (u_limit L) = 50 \<and> length (i_limit L) = 49 \<and> length thd = 3 \<and> length hru = 3 \<and> length hi = 3 \<and>
     (\<forall>r \<in> set hru. length r = 51) \<and> (\<forall>r \<in> set hi. length r = 51)"

lemma three_alarms:
  assumes "\<And>j st. 0 \<le> j \<Longrightarrow> j < 3 \<Longrightarrow> f j st = one_alarm (c j) (e j) (k j) st"
  shows "for_loop 0 3 f st = foldO (\<lambda>(c, e, k). one_alarm c e k) (map (\<lambda>j. (c j, e j, k j)) phase_list) st"
proof -
  have "foldO f [0..2] st = foldO (\<lambda>j. one_alarm (c j) (e j) (k j)) [0..2] st" by (rule foldO_cong) (simp add: assms)
  then show ?thesis by (simp add: for_loop_def foldO_map phase_list_def)
qed

lemma orders_alarms:
  assumes "\<And>i j st. 2 \<le> i \<Longrightarrow> i \<le> 50 \<Longrightarrow> 0 \<le> j \<Longrightarrow> j < 3 \<Longrightarrow> f i j st = one_alarm (c i j) (e i j) (k j) st"
  shows "for_loop 2 51 (\<lambda>i. for_loop 0 3 (f i)) st =
    foldO (\<lambda>(c, e, k). one_alarm c e k) (concat (map (\<lambda>i. map (\<lambda>j. (c i j, e i j, k j)) phase_list) order_list)) st"
proof -
  have last: "51 - 1 = (50 :: int)" by simp
  have "for_loop 2 51 (\<lambda>i. for_loop 0 3 (f i)) st =
      foldO (\<lambda>i. foldO (\<lambda>(c, e, k). one_alarm c e k) (map (\<lambda>j. (c i j, e i j, k j)) phase_list)) order_list st"
    unfolding for_loop_def [of 2] last order_list_def [symmetric]
    by (rule foldO_cong, rule three_alarms, rule assms) (simp_all only: order_list_def set_upto atLeastAtMost_iff)
  then show ?thesis by (simp only: foldO_concat foldO_map)
qed

lemma HarmAlarmCheck_runs:
  assumes "alarm_shapes L thd hru hi"
  shows "HarmAlarmCheck L thd hru hi (a, w) = foldO (\<lambda>(c, e, k). one_alarm c e k) (checks L thd hru hi) (a, 0, w)"
proof -
  have l: "length (u_limit L) = 50" "length thd = 3" "length hru = 3" "length hi = 3" and
    r: "0 \<le> j \<Longrightarrow> j < 3 \<Longrightarrow> length (hru ! nat j) = 51" "0 \<le> j \<Longrightarrow> j < 3 \<Longrightarrow> length (hi ! nat j) = 51" for j
    using assms by (auto simp: alarm_shapes_def)
  have m: "(i + 1) mod 2 < 2" "0 \<le> (i + 1) mod 2" for i :: int by simp_all
  have u0: "aget (u_limit L) 0 = Some (u_limit L ! 0)" using l by (simp add: aget_def)
  have u: "aget (u_limit L) ((i + 1) mod 2 + 1) = Some (ratio_limit L i)" for i
    unfolding ratio_limit_cell [symmetric]
    using l m [of i] by (simp add: aget_def)
  define hl where "hl = (\<lambda>i. the (hrmi_limit (i_limit L) (user_c L) i))"
  have h: "hrmi_limit (i_limit L) (user_c L) i = Some (hl i)" if "2 \<le> i" "i \<le> 50" for i
    using assms that by (simp add: hl_def hrmi_limit_def aget_def alarm_shapes_def)
  have last: "51 - 1 = (50 :: int)" by simp
  let ?one = "\<lambda>(c, e, k). one_alarm c e k"
  have A: "for_loop 0 3 (\<lambda>j st. aget thd j \<bind> (\<lambda>x. one_alarm (x * 100 > u_limit L ! 0) (entry (2 * j) 1) (nat j) st)) st =
      foldO ?one (map (\<lambda>j. (thd ! nat j * 100 > u_limit L ! 0, entry (2 * j) 1, nat j)) phase_list) st" for st
    by (rule three_alarms) (simp add: l aget_def)
  have B: "for_loop 2 51 (\<lambda>i st. aget (u_limit L) ((i + 1) mod 2 + 1) \<bind> (\<lambda>d. for_loop 0 3 (\<lambda>j st.
        aget hru j \<bind> (\<lambda>row. aget row i \<bind> (\<lambda>x. one_alarm (x \<ge> d) (entry (2 * j) i) (nat j + 3) st))) st)) st =
      foldO ?one (concat (map (\<lambda>i. map (\<lambda>j. (hru ! nat j ! nat i \<ge> ratio_limit L i, entry (2 * j) i, nat j + 3)) phase_list) order_list)) st" for st
    by (simp only: u Option.bind.simps, rule orders_alarms) (simp add: l r aget_def)
  have C: "for_loop 2 51 (\<lambda>i st. hrmi_limit (i_limit L) (user_c L) i \<bind> (\<lambda>d. for_loop 0 3 (\<lambda>j st.
        aget hi j \<bind> (\<lambda>row. aget row i \<bind> (\<lambda>x. one_alarm (of_int x * ct_ratio L > d) (entry (2 * j + 1) i) (nat j + 6) st))) st)) st =
      foldO ?one (concat (map (\<lambda>i. map (\<lambda>j. (of_int (hi ! nat j ! nat i) * ct_ratio L > hl i,
        entry (2 * j + 1) i, nat j + 6)) phase_list) order_list)) st" for st
  proof -
    have "for_loop 2 51 (\<lambda>i st. hrmi_limit (i_limit L) (user_c L) i \<bind> (\<lambda>d. for_loop 0 3 (\<lambda>j st.
        aget hi j \<bind> (\<lambda>row. aget row i \<bind> (\<lambda>x. one_alarm (of_int x * ct_ratio L > d) (entry (2 * j + 1) i) (nat j + 6) st))) st)) st =
      for_loop 2 51 (\<lambda>i st. for_loop 0 3 (\<lambda>j st.
        aget hi j \<bind> (\<lambda>row. aget row i \<bind> (\<lambda>x. one_alarm (of_int x * ct_ratio L > hl i) (entry (2 * j + 1) i) (nat j + 6) st))) st) st"
      unfolding for_loop_def [of 2] last order_list_def [symmetric]
      by (rule foldO_cong) (simp only: order_list_def set_upto atLeastAtMost_iff h Option.bind.simps)
    also have "\<dots> = foldO ?one (concat (map (\<lambda>i. map (\<lambda>j. (of_int (hi ! nat j ! nat i) * ct_ratio L > hl i,
        entry (2 * j + 1) i, nat j + 6)) phase_list) order_list)) st"
      by (rule orders_alarms) (simp add: l r aget_def)
    finally show ?thesis .
  qed
  show ?thesis
    unfolding HarmAlarmCheck_def checks_def prod.case u0 Option.bind.simps A B C foldO_bind hl_def by (rule refl)
qed


text \<open>The last check of a bit decides it.\<close>

definition decided :: "nat \<Rightarrow> (bool \<times> u16 \<times> nat) list \<Rightarrow> bool \<Rightarrow> bool" where
  "decided m cs b = fold (\<lambda>(c, e, k) b. if k = m then c else b) cs b"

lemma decided_append: "decided m (xs @ ys) b = decided m ys (decided m xs b)"
  by (simp add: decided_def)

lemma decided_none: "\<forall>x \<in> set cs. snd (snd x) \<noteq> m \<Longrightarrow> decided m cs b = b"
  by (induction cs) (auto simp: decided_def)

lemma bit_alarm:
  assumes "m < 32"
  shows "bit ((if c then w OR push_bit k 1 else w AND NOT (push_bit k 1)) :: u32) m = (if k = m then c else bit w m)"
proof -
  have "bit (push_bit k 1 :: u32) m = (k = m)" using assms by (auto simp: bit_simps)
  then show ?thesis using assms by (auto simp: bit_or_iff bit_and_iff bit_not_iff)
qed

lemma bit_alarm_bits: "m < 32 \<Longrightarrow> bit (alarm_bits cs w) m = decided m cs (bit w m)"
proof (induction cs arbitrary: w)
  case (Cons x cs)
  obtain c e k where x: "x = (c, e, k)" by (cases x)
  show ?case using Cons.IH [OF Cons.prems] bit_alarm [OF Cons.prems, of c w k] unfolding x
    by (simp add: alarm_bits_def decided_def del: if_split_asm split del: if_split)
qed (simp add: alarm_bits_def decided_def)

lemma phase_list: "phase_list = [0, 1, 2]"
  by (simp add: phase_list_def upto_rec1)

lemma order_list_last: "\<exists>os. order_list = os @ [50]"
proof -
  have "[2..50] = [2..50 - 1] @ [50 :: int]" by (rule upto_rec2) simp
  then show ?thesis unfolding order_list_def ..
qed

lemma decided_orders:
  assumes "j < 3"
  shows "decided (m + j) (concat (map (\<lambda>i. map (\<lambda>j. (c i j, e i j, nat j + m)) phase_list) order_list)) b = c 50 (int j)"
proof -
  obtain os where os: "order_list = os @ [50]" using order_list_last by blast
  show ?thesis unfolding phase_list os map_append concat_append decided_append
    using assms by (auto simp: decided_def less_Suc_eq numeral_3_eq_3)
qed

lemma not_decided_orders:
  "k < m \<or> m + 3 \<le> k \<Longrightarrow> decided k (concat (map (\<lambda>i. map (\<lambda>j. (c i j, e i j, nat j + m)) phase_list) is)) b = b"
  by (rule decided_none) (auto simp: phase_list)

lemma decided_thd: "decided k (map (\<lambda>j. (c j, e j, nat j)) phase_list) b = (if k < 3 then c (int k) else b)"
  by (auto simp: decided_def phase_list less_Suc_eq numeral_3_eq_3)

lemma length_orders: "length (concat (map (\<lambda>i. map (f i) phase_list) is)) = 3 * length is"
  by (induction "is") (auto simp: phase_list)

lemma length_order_list: "length order_list = 49"
  by (simp add: order_list_def)

lemma length_checks: "length (checks L thd hru hi) = 297"
  unfolding checks_def length_append length_orders length_map by (simp add: length_order_list phase_list)

text \<open>
  C13. The list of harmonic alarms is exact for two limits of the ratios and fits: with one limit for the odd and one for the even
  orders (\<open>ratio_limit\<close>, as in the national standard), for every distortion and current beyond its limit and every ratio that
  reaches that of its kind of order, in the order of the checks, it holds one entry with phase and order, and there are never more
  than its 297 cells.  Limits set for each order are not looked at (\<open>two_ratio_limits\<close>).  The alarm word is not exact: of
  its bits for ratios and currents only the 50th harmonic of the phase decides, because the check of each order clears what the ones
  before have set; and the distortion is compared as hundred times its value.
\<close>

theorem harmonic_alarms:
  assumes "alarm_shapes L thd hru hi" "length a = 297"
  shows "\<exists>a' n w'. HarmAlarmCheck L thd hru hi (a, w) = Some (a', n, w') \<and> length a' = 297 \<and> 0 \<le> n \<and> n \<le> 297 \<and>
    take (nat n) a' = map (fst \<circ> snd) (filter fst (checks L thd hru hi)) \<and>
    (\<forall>j < 3. bit w' j = (thd ! j * 100 > u_limit L ! 0) \<and>
       bit w' (3 + j) = (hru ! j ! 50 \<ge> u_limit L ! 2) \<and>
       bit w' (6 + j) = (of_int (hi ! j ! 50) * ct_ratio L > the (hrmi_limit (i_limit L) (user_c L) 50))) \<and>
    (\<forall>m \<ge> 9. m < 32 \<longrightarrow> bit w' m = bit w m)"
proof -
  let ?cs = "checks L thd hru hi"
  have le: "length (filter fst ?cs) \<le> 297" using length_filter_le [of fst ?cs] by (simp add: length_checks)
  have bits: "bit (alarm_bits ?cs w) m = decided m ?cs (bit w m)" if "m < 32" for m using that by (rule bit_alarm_bits)
  have d: "decided m ?cs b = decided m (concat (map (\<lambda>i. map (\<lambda>j. (of_int (hi ! nat j ! nat i) * ct_ratio L > the (hrmi_limit (i_limit L) (user_c L) i),
        entry (2 * j + 1) i, nat j + 6)) phase_list) order_list))
      (decided m (concat (map (\<lambda>i. map (\<lambda>j. (hru ! nat j ! nat i \<ge> ratio_limit L i, entry (2 * j) i, nat j + 3)) phase_list) order_list))
      (decided m (map (\<lambda>j. (thd ! nat j * 100 > u_limit L ! 0, entry (2 * j) 1, nat j)) phase_list) b))" for m b
    unfolding checks_def decided_append ..
  have "bit (alarm_bits ?cs w) j = (thd ! j * 100 > u_limit L ! 0) \<and>
       bit (alarm_bits ?cs w) (3 + j) = (hru ! j ! 50 \<ge> u_limit L ! 2) \<and>
       bit (alarm_bits ?cs w) (6 + j) = (of_int (hi ! j ! 50) * ct_ratio L > the (hrmi_limit (i_limit L) (user_c L) 50))" if "j < 3" for j
    using that by (simp add: bits d not_decided_orders decided_orders decided_thd ratio_limit_def)
  moreover have "bit (alarm_bits ?cs w) m = bit w m" if "9 \<le> m" "m < 32" for m
    using that by (simp add: bits d not_decided_orders decided_thd)
  ultimately show ?thesis using run_alarms [of 0 ?cs a w] le assms(2) by (simp add: HarmAlarmCheck_runs [OF assms(1)])
qed

definition demo_limits :: harm_limits where
  "demo_limits = \<lparr>u_limit = replicate 50 5, i_limit = replicate 49 10,
     user_c = \<lparr>user_cur3 = 1, user_cur5 = 1, user_cur7 = 1, user_cur11 = 1, user_cur13 = 1, user_cur_oth = 1\<rparr>, ct_ratio = 1\<rparr>"

lemma ratio_checked:
  "i \<in> set order_list \<Longrightarrow> j \<in> set phase_list \<Longrightarrow>
    (hru ! nat j ! nat i \<ge> ratio_limit L i, entry (2 * j) i, nat j + 3) \<in> set (checks L thd hru hi)"
  unfolding checks_def set_append set_concat set_map
  by (rule UnI2, rule UnI1, rule UN_I, rule imageI, assumption, subst set_map, rule imageI)

text \<open>The third harmonic of phase A is beyond its limit: it is in the list, but its bit is not set.\<close>

theorem harmonic_alarms_witness:
  "\<exists>a' n w'. HarmAlarmCheck demo_limits [0, 0, 0] [(replicate 51 0)[3 := 9], replicate 51 0, replicate 51 0] (replicate 3 (replicate 51 0))
      (replicate 297 0, 0) = Some (a', n, w') \<and> entry 0 3 \<in> set (take (nat n) a') \<and> \<not> bit w' 3"
proof -
  let ?h = "[(replicate 51 0)[3 := 9], replicate 51 0, replicate 51 0] :: rat list list" and ?hi = "replicate 3 (replicate 51 0) :: int list list"
  have sh: "alarm_shapes demo_limits [0, 0, 0] ?h ?hi" by (simp add: alarm_shapes_def demo_limits_def)
  have l: "length (replicate 297 0 :: u16 list) = 297" by (rule length_replicate)
  obtain a' n w' where r: "HarmAlarmCheck demo_limits [0, 0, 0] ?h ?hi (replicate 297 0, 0) = Some (a', n, w')"
    "take (nat n) a' = map (fst \<circ> snd) (filter fst (checks demo_limits [0, 0, 0] ?h ?hi))"
    "\<forall>j < 3. bit w' (3 + j) = (?h ! j ! 50 \<ge> u_limit demo_limits ! 2)"
    using harmonic_alarms [OF sh l, of 0] by blast
  have "(?h ! nat 0 ! nat 3 \<ge> ratio_limit demo_limits 3, entry (2 * 0) 3, nat 0 + 3) \<in> set (checks demo_limits [0, 0, 0] ?h ?hi)"
    by (rule ratio_checked) (simp_all add: order_list_def phase_list)
  moreover have "?h ! nat 0 ! nat 3 \<ge> ratio_limit demo_limits 3" by (simp add: demo_limits_def ratio_limit_def)
  ultimately have "entry 0 3 \<in> set (take (nat n) a')" unfolding r(2) by force
  moreover have "\<not> bit w' 3" using r(3) [rule_format, of 0] by (simp add: demo_limits_def)
  ultimately show ?thesis using r(1) by blast
qed


section \<open>The record of interharmonics can be read\<close>

text \<open>The values of one order: their places, amplitudes and phases, for the \<open>r\<close> pairs from cell \<open>p\<close> on.\<close>

definition vals :: "u16 list \<Rightarrow> nat \<Rightarrow> nat \<Rightarrow> (nat \<times> u16 \<times> u16) list" where
  "vals buf p r = map (\<lambda>m. (m, buf ! (p + 2 * m), buf ! (p + 2 * m + 1))) (filter (\<lambda>m. buf ! (p + 2 * m) \<noteq> 0) [0..<r])"

definition places :: "(nat \<times> u16 \<times> u16) list \<Rightarrow> u16" where
  "places vs = fold (\<lambda>v w. w OR push_bit (fst v) 1) vs 0"

definition body :: "(nat \<times> u16 \<times> u16) list \<Rightarrow> u8 list" where
  "body vs = concat (map (\<lambda>(m, x, y). le2 x @ le2 y) vs)"

definition group_bytes :: "int \<Rightarrow> int \<Rightarrow> int \<Rightarrow> (nat \<times> u16 \<times> u16) list \<Rightarrow> u8 list" where
  "group_bytes i j k vs = (if vs = [] then []
     else (word_of_int (j * 64) + word_of_int k) # le2 (word_of_int (i * 2 ^ 15) + places vs) @ body vs)"

lemma vals_Suc: "vals buf p (Suc r) = vals buf p r @ (if buf ! (p + 2 * r) \<noteq> 0 then [(r, buf ! (p + 2 * r), buf ! (p + 2 * r + 1))] else [])"
  by (simp add: vals_def)

lemma length_vals: "length (vals buf p r) \<le> r"
proof (induction r)
  case (Suc r)
  then show ?case by (simp add: vals_Suc)
qed (simp add: vals_def)

lemma places_snoc: "places (vs @ [v]) = places vs OR push_bit (fst v) 1"
  by (simp add: places_def)

lemma length_le2 [simp]: "length (le2 w) = 2"
  by (simp add: le2_def)

lemma length_body: "length (body vs) = 4 * length vs"
  unfolding body_def by (induction vs) auto

lemma bit_places: "m < 16 \<Longrightarrow> bit (places vs) m \<longleftrightarrow> m \<in> fst ` set vs"
proof (induction vs rule: rev_induct)
  case Nil
  then show ?case by (simp add: places_def)
next
  case (snoc v vs)
  have "bit (push_bit (fst v) 1 :: u16) m = (fst v = m)" using snoc.prems by (auto simp: bit_simps)
  then show ?case using snoc by (auto simp: places_snoc bit_or_iff)
qed

lemma places_vals: "r \<le> 15 \<Longrightarrow> places (vals buf p r) = 0 \<longleftrightarrow> vals buf p r = []"
proof
  assume "r \<le> 15" "places (vals buf p r) = 0"
  moreover have "m < 16" if "m \<in> fst ` set (vals buf p r)" for m using that calculation(1) by (auto simp: vals_def)
  ultimately show "vals buf p r = []" using bit_places [of _ "vals buf p r"] by (metis bit_0_eq bot_apply bot_bool_def image_is_empty equals0I set_empty)
qed (simp add: places_def)

lemma aget_int: "n < length xs \<Longrightarrow> aget xs (int n) = Some (xs ! n)"
  by (simp add: aget_def)

lemma aget_int_1: "n + 1 < length xs \<Longrightarrow> aget xs (int n + 1) = Some (xs ! (n + 1))"
  by (simp add: aget_def nat_add_distrib)

lemma pack_values:
  assumes "r \<le> 15" "p + 2 * r \<le> length buf" "length pre + 3 + 4 * r \<le> length (pre @ rest)"
  shows "\<exists>h t. foldO (pack_value buf) [0..int r - 1] (pre @ rest, int (length pre), 0, 0, int p) =
      Some (pre @ h @ body (vals buf p r) @ t, int (length pre + (if vals buf p r = [] then 0 else 3 + 4 * length (vals buf p r))),
        places (vals buf p r), int (length (vals buf p r)), int (p + 2 * r)) \<and>
    length h = (if vals buf p r = [] then 0 else 3) \<and> length (pre @ h @ body (vals buf p r) @ t) = length (pre @ rest)"
  using assms
proof (induction r)
  case 0
  then show ?case by (simp add: vals_def body_def places_def)
next
  case (Suc r)
  let ?v = "vals buf p r"
  obtain h t where ih: "foldO (pack_value buf) [0..int r - 1] (pre @ rest, int (length pre), 0, 0, int p) =
      Some (pre @ h @ body ?v @ t, int (length pre + (if ?v = [] then 0 else 3 + 4 * length ?v)), places ?v, int (length ?v), int (p + 2 * r))"
    "length h = (if ?v = [] then 0 else 3)" "length (pre @ h @ body ?v @ t) = length (pre @ rest)"
    using Suc by auto
  have up: "[0..int (Suc r) - 1] = [0..int r - 1] @ [int r]" using upto_rec2 [of 0 "int r"] by simp
  have x: "aget buf (int (p + 2 * r)) = Some (buf ! (p + 2 * r))" "aget buf (int (p + 2 * r) + 1) = Some (buf ! (p + 2 * r + 1))"
    by (rule aget_int, use Suc.prems(2) in simp) (rule aget_int_1, use Suc.prems(2) in simp)
  have lv: "length ?v \<le> r" by (rule length_vals)
  show ?case
  proof (cases "buf ! (p + 2 * r) = 0")
    case True
    have "vals buf p (Suc r) = ?v" using True by (simp add: vals_Suc)
    moreover have "pack_value buf (int r) (pre @ h @ body ?v @ t, int (length pre + (if ?v = [] then 0 else 3 + 4 * length ?v)), places ?v, int (length ?v), int (p + 2 * r)) =
      Some (pre @ h @ body ?v @ t, int (length pre + (if ?v = [] then 0 else 3 + 4 * length ?v)), places ?v, int (length ?v), int (p + 2 * r) + 2)"
      by (simp only: pack_value_def prod.case x Option.bind.simps True) simp
    moreover have "int (p + 2 * r) + 2 = int (p + 2 * Suc r)" by simp
    ultimately show ?thesis using ih(2,3) by (simp only: up foldO_append ih(1) option.case foldO.simps) blast
  next
    case False
    have lt: "length t \<ge> (if ?v = [] then 7 else 4)" using ih(2,3) Suc.prems(3) lv by (auto simp: length_body split: if_splits)
    obtain h' t' where h': "h @ body ?v @ t = h' @ body ?v @ t'" "length h' = 3" "length t' \<ge> 4" "length (h @ body ?v @ t) = length (h' @ body ?v @ t')"
    proof (cases "?v = []")
      case True
      then show thesis using that [of "take 3 t" "drop 3 t"] ih(2) lt by (simp add: body_def)
    next
      case False
      then show thesis using that [of h t] ih(2) lt by simp
    qed
    obtain a b c d t2 where t': "t' = a # b # c # d # t2" using h'(3) by (metis Suc_le_length_iff numeral_eq_Suc pred_numeral_simps(2,3) BitM.simps)
    define q where "q = pre @ h' @ body ?v"
    let ?x = "buf ! (p + 2 * r)" and ?y = "buf ! (p + 2 * r + 1)"
    have tot: "(if places ?v = 0 then int (length pre + (if ?v = [] then 0 else 3 + 4 * length ?v)) + 3
        else int (length pre + (if ?v = [] then 0 else 3 + 4 * length ?v))) = int (length q)"
      using places_vals [of r buf p] Suc.prems(1) h'(2) by (auto simp: q_def length_body)
    have b1: "blit (pre @ h @ body ?v @ t) (int (length q)) (le2 ?x) = Some (q @ le2 ?x @ c # d # t2)"
      using blit_mid [of "int (length q)" q "[a, b]" "le2 ?x" "c # d # t2"] h'(1) t' by (simp add: q_def)
    have b2: "blit (q @ le2 ?x @ c # d # t2) (int (length q) + 2) (le2 ?y) = Some (q @ le2 ?x @ le2 ?y @ t2)"
      using blit_mid [of "int (length q) + 2" "q @ le2 ?x" "[c, d]" "le2 ?y" t2] by simp
    have "pack_value buf (int r) (pre @ h @ body ?v @ t, int (length pre + (if ?v = [] then 0 else 3 + 4 * length ?v)), places ?v, int (length ?v), int (p + 2 * r)) =
      Some (q @ le2 ?x @ le2 ?y @ t2, int (length q) + 4, places ?v OR push_bit r 1, int (length ?v) + 1, int (p + 2 * r) + 2)"
      using False by (simp only: pack_value_def prod.case x Option.bind.simps Let_def tot b1 b2 nat_int) simp
    then have "foldO (pack_value buf) [0..int (Suc r) - 1] (pre @ rest, int (length pre), 0, 0, int p) =
      Some (q @ le2 ?x @ le2 ?y @ t2, int (length q) + 4, places ?v OR push_bit r 1, int (length ?v) + 1, int (p + 2 * r) + 2)"
      by (simp only: up foldO_append ih(1) option.case foldO.simps)
    moreover have "vals buf p (Suc r) = ?v @ [(r, ?x, ?y)]" using False by (simp add: vals_Suc)
    moreover have "q @ le2 ?x @ le2 ?y @ t2 = pre @ h' @ body (?v @ [(r, ?x, ?y)]) @ t2" by (simp add: q_def body_def)
    moreover have "length (pre @ h' @ body (?v @ [(r, ?x, ?y)]) @ t2) = length (pre @ rest)"
      using ih(3) h'(4) t' by (simp add: length_body)
    ultimately show ?thesis using h'(2)
      by (intro exI [of _ h'] exI [of _ t2]) (simp add: places_snoc q_def length_body)
  qed
qed

lemma pack_order_spec:
  assumes "r \<le> 15" "p + 2 * r \<le> length buf" "length pre + 3 + 4 * r \<le> length (pre @ rest)"
  shows "\<exists>t. pack_order buf (int r + 1) i j k (pre @ rest, int (length pre), n, int p) =
      Some (pre @ group_bytes i j k (vals buf p r) @ t, int (length (pre @ group_bytes i j k (vals buf p r))),
        n + (if vals buf p r = [] then 0 else 1), int (p + 2 * r)) \<and>
    length (pre @ group_bytes i j k (vals buf p r) @ t) = length (pre @ rest)"
proof -
  let ?v = "vals buf p r" and ?g = "group_bytes i j k (vals buf p r)"
  obtain h t where run: "foldO (pack_value buf) [0..int r - 1] (pre @ rest, int (length pre), 0, 0, int p) =
      Some (pre @ h @ body ?v @ t, int (length pre + (if ?v = [] then 0 else 3 + 4 * length ?v)), places ?v, int (length ?v), int (p + 2 * r))"
    "length h = (if ?v = [] then 0 else 3)" "length (pre @ h @ body ?v @ t) = length (pre @ rest)"
    using pack_values [OF assms] by blast
  have loop: "for_loop 0 (int r + 1 - 1) (pack_value buf) (pre @ rest, int (length pre), 0, 0, int p) =
      Some (pre @ h @ body ?v @ t, int (length pre + (if ?v = [] then 0 else 3 + 4 * length ?v)), places ?v, int (length ?v), int (p + 2 * r))"
    using run(1) by (simp add: for_loop_def)
  show ?thesis
  proof (cases "?v = []")
    case True
    have "pack_order buf (int r + 1) i j k (pre @ rest, int (length pre), n, int p) = Some (pre @ h @ body ?v @ t, int (length pre), n, int (p + 2 * r))"
      by (simp only: pack_order_def prod.case loop Option.bind.simps True) simp
    moreover have "h = []" "body ?v = []" "?g = []" using True run(2) by (simp_all add: body_def group_bytes_def)
    ultimately show ?thesis using True run(3) by (intro exI [of _ t]) simp
  next
    case False
    let ?ph = "word_of_int (j * 64) + word_of_int k :: u8" and ?vi = "word_of_int (i * 2 ^ 15) + places ?v"
    obtain a b c where h: "h = [a, b, c]" using run(2) False by (auto simp: numeral_3_eq_3 length_Suc_conv)
    have s1: "aset (pre @ h @ body ?v @ t) (int (length pre)) ?ph = Some (pre @ [?ph, b, c] @ body ?v @ t)"
      by (simp add: aset_def h)
    have s2: "blit (pre @ [?ph, b, c] @ body ?v @ t) (int (length pre) + 1) (le2 ?vi) = Some (pre @ ?g @ t)"
      using blit_mid [of "int (length pre) + 1" "pre @ [?ph]" "[b, c]" "le2 ?vi" "body ?v @ t"] False by (simp add: group_bytes_def)
    have o: "int (length pre + (if ?v = [] then 0 else 3 + 4 * length ?v)) - int (length ?v) * 4 - 3 = int (length pre)"
      "int (length pre + (if ?v = [] then 0 else 3 + 4 * length ?v)) - int (length ?v) * 4 - 2 = int (length pre) + 1"
      using False by simp_all
    have nz: "(int (length ?v) = 0) = False" using False by simp
    have "pack_order buf (int r + 1) i j k (pre @ rest, int (length pre), n, int p) =
      Some (pre @ ?g @ t, int (length pre + (if ?v = [] then 0 else 3 + 4 * length ?v)), n + 1, int (p + 2 * r))"
      by (simp only: pack_order_def prod.case loop Option.bind.simps nz not_False_eq_True if_True o s1 s2)
    moreover have "length ?g = 3 + 4 * length ?v" using False by (simp add: group_bytes_def length_body)
    ultimately show ?thesis using False run(3) h by (auto simp: length_body)
  qed
qed

text \<open>All groups: quantity, phase and order of each, with its values.\<close>

fun groups :: "u16 list \<Rightarrow> nat \<Rightarrow> (int \<times> int \<times> int) list \<Rightarrow> nat \<Rightarrow> (int \<times> int \<times> int \<times> (nat \<times> u16 \<times> u16) list) list" where
  "groups buf r [] p = []"
| "groups buf r ((i, j, k) # os) p = (i, j, k, vals buf p r) # groups buf r os (p + 2 * r)"

definition used :: "(int \<times> int \<times> int \<times> (nat \<times> u16 \<times> u16) list) list \<Rightarrow> (int \<times> int \<times> int \<times> (nat \<times> u16 \<times> u16) list) list" where
  "used = filter (\<lambda>(i, j, k, vs). vs \<noteq> [])"

definition bytes_of :: "(int \<times> int \<times> int \<times> (nat \<times> u16 \<times> u16) list) list \<Rightarrow> u8 list" where
  "bytes_of gs = concat (map (\<lambda>(i, j, k, vs). group_bytes i j k vs) gs)"

lemma bytes_of_used: "bytes_of (used gs) = bytes_of gs"
  unfolding bytes_of_def used_def by (induction gs) (auto simp: group_bytes_def)

lemma pack_orders:
  assumes "r \<le> 15" "p + 2 * r * length os \<le> length buf" "length pre + (3 + 4 * r) * length os \<le> length (pre @ rest)"
  shows "\<exists>t. foldO (\<lambda>(i, j, k). pack_order buf (int r + 1) i j k) os (pre @ rest, int (length pre), n, int p) =
      Some (pre @ bytes_of (groups buf r os p) @ t, int (length (pre @ bytes_of (groups buf r os p))),
        n + int (length (used (groups buf r os p))), int (p + 2 * r * length os)) \<and>
    length (pre @ bytes_of (groups buf r os p) @ t) = length (pre @ rest)"
  using assms
proof (induction os arbitrary: pre rest n p)
  case Nil
  then show ?case by (simp add: bytes_of_def used_def)
next
  case (Cons o1 os)
  obtain i j k where o1: "o1 = (i, j, k)" by (cases o1)
  let ?g = "group_bytes i j k (vals buf p r)"
  obtain t where t: "pack_order buf (int r + 1) i j k (pre @ rest, int (length pre), n, int p) =
      Some (pre @ ?g @ t, int (length (pre @ ?g)), n + (if vals buf p r = [] then 0 else 1), int (p + 2 * r))"
    "length (pre @ ?g @ t) = length (pre @ rest)"
    using pack_order_spec [of r p buf pre rest i j k n] Cons.prems by auto
  have lg: "length ?g \<le> 3 + 4 * r" using length_vals [of buf p r] by (auto simp: group_bytes_def length_body)
  then have "p + 2 * r + 2 * r * length os \<le> length buf" "length (pre @ ?g) + (3 + 4 * r) * length os \<le> length ((pre @ ?g) @ t)"
    using Cons.prems t(2) by simp_all
  from Cons.IH [OF Cons.prems(1) this, of "n + (if vals buf p r = [] then 0 else 1)"] obtain t2 where
    t2: "foldO (\<lambda>(i, j, k). pack_order buf (int r + 1) i j k) os ((pre @ ?g) @ t, int (length (pre @ ?g)), n + (if vals buf p r = [] then 0 else 1), int (p + 2 * r)) =
      Some ((pre @ ?g) @ bytes_of (groups buf r os (p + 2 * r)) @ t2, int (length ((pre @ ?g) @ bytes_of (groups buf r os (p + 2 * r)))),
        n + (if vals buf p r = [] then 0 else 1) + int (length (used (groups buf r os (p + 2 * r)))), int (p + 2 * r + 2 * r * length os))"
    "length ((pre @ ?g) @ bytes_of (groups buf r os (p + 2 * r)) @ t2) = length ((pre @ ?g) @ t)"
    by blast
  have b: "bytes_of (groups buf r (o1 # os) p) = ?g @ bytes_of (groups buf r os (p + 2 * r))" by (simp add: o1 bytes_of_def)
  have u: "int (length (used (groups buf r (o1 # os) p))) = (if vals buf p r = [] then 0 else 1) + int (length (used (groups buf r os (p + 2 * r))))"
    by (simp add: o1 used_def)
  have e: "p + 2 * r * length (o1 # os) = p + 2 * r + 2 * r * length os" by simp
  show ?case unfolding b u e
    using t t2 by (intro exI [of _ t2]) (simp add: o1)
qed

definition inter_orders :: "(int \<times> int \<times> int) list" where
  "inter_orders = concat (map (\<lambda>i. concat (map (\<lambda>j. map (\<lambda>k. (i, j, k)) [0..50]) [0..2])) [0..1])"

lemma length_inter_orders: "length inter_orders = 306"
  by code_simp

lemma inter_orders_range: "(i, j, k) \<in> set inter_orders \<Longrightarrow> (i = 0 \<or> i = 1) \<and> 0 \<le> j \<and> j \<le> 2 \<and> 0 \<le> k \<and> k \<le> 50"
  unfolding inter_orders_def set_concat set_map set_upto by auto

lemma pack_groups_foldO: "pack_groups buf reso st = foldO (\<lambda>(i, j, k). pack_order buf reso i j k) inter_orders st"
proof -
  have n: "2 - 1 = (1 :: int)" "3 - 1 = (2 :: int)" "51 - 1 = (50 :: int)" by simp_all
  show ?thesis unfolding pack_groups_def inter_orders_def for_loop_def n foldO_concat foldO_map prod.case ..
qed

text \<open>Reading a record: the values of a group, a group, and as many groups as the head says.\<close>

fun read_values :: "nat list \<Rightarrow> u8 list \<Rightarrow> (nat \<times> u16 \<times> u16) list \<times> u8 list" where
  "read_values [] bs = ([], bs)"
| "read_values (m # ms) bs =
     (let (vs, rest) = read_values ms (drop 4 bs) in ((m, of_le2 (bs ! 0) (bs ! 1), of_le2 (bs ! 2) (bs ! 3)) # vs, rest))"

definition read_group :: "u8 list \<Rightarrow> (int \<times> int \<times> int \<times> (nat \<times> u16 \<times> u16) list) \<times> u8 list" where
  "read_group bs =
     (let ph = uint (bs ! 0); vi = of_le2 (bs ! 1) (bs ! 2);
          (vs, rest) = read_values (filter (bit vi) [0..<15]) (drop 3 bs)
      in ((if bit vi 15 then 1 else 0, ph div 64, ph mod 64, vs), rest))"

primrec read_groups :: "nat \<Rightarrow> u8 list \<Rightarrow> (int \<times> int \<times> int \<times> (nat \<times> u16 \<times> u16) list) list" where
  "read_groups 0 bs = []"
| "read_groups (Suc n) bs = (let (g, rest) = read_group bs in g # read_groups n rest)"

lemma read_body: "read_values (map fst vs) (body vs @ rest) = (vs, rest)"
  unfolding body_def by (induction vs) (auto simp: le2_def)

lemma read_head:
  assumes "uint x = n" "filter (bit (vi :: u16)) [0..<15] = map fst vs"
  shows "read_group (x # ucast vi # ucast (drop_bit 8 vi) # body vs @ rest) = ((if bit vi 15 then 1 else 0, n div 64, n mod 64, vs), rest)"
  using assms by (simp add: read_group_def Let_def read_body)

lemma bit_vi:
  assumes "i = 0 \<or> i = 1" "r \<le> 15" "m < 16"
  shows "bit (word_of_int (i * 2 ^ 15) + places (vals buf p r)) m = (if m = 15 then i = 1 else m \<in> fst ` set (vals buf p r))"
proof -
  let ?w = "word_of_int (i * 2 ^ 15) :: u16"
  have w: "bit ?w n = (n = 15 \<and> i = 1)" if "n < 16" for n
  proof (cases "i = 1")
    case True
    then have w15: "?w = push_bit 15 1" by (simp add: push_bit_eq_mult)
    show ?thesis unfolding w15 bit_push_bit_iff bit_1_iff using True that by auto
  next
    case False
    then show ?thesis using assms(1) by simp
  qed
  have n15: "15 \<notin> fst ` set (vals buf p r)" using assms(2) by (auto simp: vals_def)
  have "?w AND places (vals buf p r) = 0"
    by (rule bit_word_eqI) (use w n15 bit_places in \<open>auto simp: bit_and_iff\<close>)
  then have "?w + places (vals buf p r) = ?w OR places (vals buf p r)" by (rule disjunctive_add_eq_or)
  then show ?thesis using w [OF assms(3)] bit_places [OF assms(3), of "vals buf p r"] n15 by (auto simp: bit_or_iff)
qed

lemma read_group_bytes:
  assumes "i = 0 \<or> i = 1" "0 \<le> j" "j \<le> 2" "0 \<le> k" "k \<le> 50" "r \<le> 15" "vals buf p r \<noteq> []"
  shows "read_group (group_bytes i j k (vals buf p r) @ rest) = ((i, j, k, vals buf p r), rest)"
proof -
  let ?v = "vals buf p r" and ?vi = "word_of_int (i * 2 ^ 15) + places (vals buf p r)"
  have f: "map fst ?v = filter (\<lambda>m. buf ! (p + 2 * m) \<noteq> 0) [0..<r]" unfolding vals_def by (simp add: comp_def)
  have "filter (bit ?vi) [0..<15] = filter (\<lambda>m. m \<in> fst ` set ?v) [0..<15]"
    by (rule filter_cong) (use bit_vi [OF assms(1,6)] in auto)
  also have "\<dots> = filter (\<lambda>m. m < r \<and> buf ! (p + 2 * m) \<noteq> 0) [0..<15]"
    by (rule filter_cong) (auto simp: vals_def image_iff)
  also have "\<dots> = filter (\<lambda>m. buf ! (p + 2 * m) \<noteq> 0) (filter (\<lambda>m. m < r) [0..<15])" by (simp add: conj_commute)
  also have "filter (\<lambda>m. m < r) [0..<15] = [0..<r]"
    using upt_add_eq_append [of 0 r "15 - r"] assms(6) by (simp add: filter_empty_conv filter_True)
  finally have ms: "filter (bit ?vi) [0..<15] = map fst ?v" using f by simp
  have "j * 64 + k < 2 ^ 8" "0 \<le> j * 64 + k" using assms(2-5) by simp_all
  then have ph: "uint (word_of_int (j * 64) + word_of_int k :: u8) = j * 64 + k"
    unfolding wi_hom_add uint_word_of_int by simp
  have dm: "(j * 64 + k) div 64 = j" "(j * 64 + k) mod 64 = k" using assms(4,5) by auto
  have "group_bytes i j k ?v @ rest = (word_of_int (j * 64) + word_of_int k) # ucast ?vi # ucast (drop_bit 8 ?vi) # body ?v @ rest"
    using assms(7) by (simp add: group_bytes_def le2_def)
  then show ?thesis using read_head [OF ph ms, of rest] bit_vi [OF assms(1,6), of 15 buf p] assms(1) unfolding dm by auto
qed

lemma read_groups_bytes:
  assumes "\<forall>(i, j, k) \<in> set os. (i = 0 \<or> i = 1) \<and> 0 \<le> j \<and> j \<le> 2 \<and> 0 \<le> k \<and> k \<le> 50" "r \<le> 15"
  shows "read_groups (length (used (groups buf r os p))) (bytes_of (groups buf r os p) @ rest) = used (groups buf r os p)"
  using assms(1)
proof (induction os arbitrary: p)
  case Nil
  then show ?case by (simp add: used_def)
next
  case (Cons o1 os)
  obtain i j k where o1: "o1 = (i, j, k)" by (cases o1)
  then have ijk: "i = 0 \<or> i = 1" "0 \<le> j" "j \<le> 2" "0 \<le> k" "k \<le> 50" using Cons.prems by auto
  have b: "bytes_of (groups buf r (o1 # os) p) = group_bytes i j k (vals buf p r) @ bytes_of (groups buf r os (p + 2 * r))"
    by (simp add: o1 bytes_of_def)
  have u: "used (groups buf r (o1 # os) p) = (if vals buf p r = [] then [] else [(i, j, k, vals buf p r)]) @ used (groups buf r os (p + 2 * r))"
    by (simp add: o1 used_def)
  show ?case
  proof (cases "vals buf p r = []")
    case True
    then show ?thesis unfolding b u using Cons by (simp add: group_bytes_def)
  next
    case False
    then show ?thesis unfolding b u using Cons read_group_bytes [OF ijk assms(2) False, of "bytes_of (groups buf r os (p + 2 * r)) @ rest"]
      by (simp add: Let_def)
  qed
qed

lemma length_groups: "length (groups buf r os p) = length os"
  by (induction buf r os p rule: groups.induct) simp_all

lemma length_used: "length (used gs) \<le> length gs"
  by (simp add: used_def)

lemma seven: "length xs = 7 \<Longrightarrow> \<exists>x y a b c d e. xs = [x, y, a, b, c, d, e]"
  by (auto simp: eval_nat_numeral length_Suc_conv)

lemma drop_take_mid: "length h = n \<Longrightarrow> drop n (take (n + length b) (h @ b @ t)) = b"
  by simp

lemma le2_word: "of_le2 (le2 w ! 0) (le2 w ! 1) = w"
  by (simp add: le2_def)

text \<open>
  C14. The record of the interharmonics is complete and fits: at each of the three resolutions, packing the limited values never
  leaves the buffer of 19287 bytes, returns no data exactly if there is no value, and otherwise the bytes, read as a head with
  mark, length, resolution and number of groups and then that many groups, give back every value that is not zero with its quantity, phase, order
  and place.
\<close>

theorem interharmonic_record:
  assumes "rid = 0 \<and> r = 7 \<or> rid = 1 \<and> r = 9 \<or> rid = 2 \<and> r = 15" "length ib = 19287" "2 * r * 306 \<le> length buf"
  shows "\<exists>cnt ib'. make_inter_struct rid buf ib = Some (cnt, ib') \<and> length ib' = 19287 \<and>
    (let gs = used (groups buf r inter_orders 0)
     in (cnt = 0 \<longleftrightarrow> gs = []) \<and> (gs \<noteq> [] \<longrightarrow>
          take 2 ib' = [0xce, 0xcf] \<and> uint (of_le2 (ib' ! 4) (ib' ! 5)) = cnt - 7 \<and> ib' ! 6 = word_of_int rid \<and>
          uint (of_le2 (ib' ! 7) (ib' ! 8)) = int (length gs) \<and>
          read_groups (length gs) (drop 9 (take (nat cnt) ib')) = gs))"
proof -
  let ?gs = "groups buf r inter_orders 0"
  have r: "r \<le> 15" "aget kIntrReso rid = Some (int r + 1)" using assms(1) by (auto simp: kIntrReso_def aget_def)
  define ib1 where "ib1 = le2 0xcfce @ drop 2 ib"
  have b1: "blit ib 0 (le2 0xcfce) = Some ib1" using assms(2) by (simp add: blit_def ib1_def numeral_2_eq_2)
  define pre where "pre = take 9 ib1"
  have pre: "length pre = 9" "pre = 0xce # 0xcf # take 7 (drop 2 ib)" "ib1 = pre @ drop 9 ib1" "length (pre @ drop 9 ib1) = 19287"
    using assms(2) append_take_drop_id [of 7 "drop 2 ib"] by (auto simp: pre_def ib1_def le2_def)
  have "0 + 2 * r * length inter_orders \<le> length buf" "length pre + (3 + 4 * r) * length inter_orders \<le> length (pre @ drop 9 ib1)"
    using assms(3) pre(1,4) r(1) by (simp_all add: length_inter_orders)
  from pack_orders [OF r(1) this, of 0] obtain t where
    t: "pack_groups buf (int r + 1) (ib1, 9, 0, 0) = Some (pre @ bytes_of ?gs @ t, 9 + int (length (bytes_of ?gs)), int (length (used ?gs)), int (2 * r * 306))"
    "length (pre @ bytes_of ?gs @ t) = 19287"
    using pre by (auto simp: pack_groups_foldO length_inter_orders)
  obtain x y a b c d e where p9: "pre = [0xce, 0xcf, x, y, a, b, c, d, e]"
  proof -
    have "length (take 7 (drop 2 ib)) = 7" using assms(2) by simp
    then obtain x y a b c d e where "take 7 (drop 2 ib) = [x, y, a, b, c, d, e]" using seven by blast
    then show thesis using that pre(2) by simp
  qed
  define totl where "totl = 9 + int (length (bytes_of ?gs))"
  define ng where "ng = int (length (used ?gs))"
  let ?z = "[0xce, 0xcf, x, y] @ le2 (word_of_int (totl - 7)) @ [word_of_int rid] @ le2 (word_of_int ng) @ bytes_of ?gs @ t"
  have h: "blit (pre @ bytes_of ?gs @ t) 4 (le2 (word_of_int (totl - 7))) = Some ([0xce, 0xcf, x, y] @ le2 (word_of_int (totl - 7)) @ [c, d, e] @ bytes_of ?gs @ t)"
    "aset ([0xce, 0xcf, x, y] @ le2 (word_of_int (totl - 7)) @ [c, d, e] @ bytes_of ?gs @ t) 6 (word_of_int rid) =
       Some ([0xce, 0xcf, x, y] @ le2 (word_of_int (totl - 7)) @ [word_of_int rid, d, e] @ bytes_of ?gs @ t)"
    "blit ([0xce, 0xcf, x, y] @ le2 (word_of_int (totl - 7)) @ [word_of_int rid, d, e] @ bytes_of ?gs @ t) 7 (le2 (word_of_int ng)) = Some ?z"
    by (simp_all add: p9 blit_def aset_def le2_def eval_nat_numeral)
  have run: "make_inter_struct rid buf ib = Some (if ng \<noteq> 0 then totl else 0, ?z)"
    unfolding make_inter_struct_def r(2) Option.bind.simps b1 t(1) prod.case totl_def [symmetric] ng_def [symmetric] h ..
  have ngb: "ng < 2 ^ 16" "0 \<le> ng" using length_used [of ?gs] by (simp_all add: ng_def length_groups length_inter_orders)
  have tb: "totl - 7 < 2 ^ 16" "0 \<le> totl - 7" using t(2) pre(1) by (simp_all add: totl_def)
  have z: "length ?z = 19287" using t(2) pre(1) by simp
  have u16: "uint (word_of_int n :: u16) = n" if "0 \<le> n" "n < 2 ^ 16" for n
    using that unfolding uint_word_of_int by simp
  have at: "?z ! 4 = le2 (word_of_int (totl - 7)) ! 0" "?z ! 5 = le2 (word_of_int (totl - 7)) ! 1" "?z ! 6 = word_of_int rid"
    "?z ! 7 = le2 (word_of_int ng) ! 0" "?z ! 8 = le2 (word_of_int ng) ! 1"
    by (simp_all add: le2_def eval_nat_numeral)
  have l9: "length ([0xce, 0xcf, x, y] @ le2 (word_of_int (totl - 7)) @ [word_of_int rid] @ le2 (word_of_int ng)) = 9" by simp
  have nt: "nat totl = 9 + length (bytes_of ?gs)" by (simp add: totl_def)
  have d: "drop 9 (take (nat totl) ?z) = bytes_of ?gs" unfolding nt using drop_take_mid [OF l9, of "bytes_of ?gs" t] by (simp only: append_assoc)
  have rd: "read_groups (length (used ?gs)) (bytes_of ?gs) = used ?gs"
    using read_groups_bytes [of inter_orders r buf 0 "[]"] inter_orders_range r(1) by fastforce
  have ne: "ng \<noteq> 0 \<longleftrightarrow> used ?gs \<noteq> []" by (simp add: ng_def)
  have c0: "totl \<noteq> 0" by (simp add: totl_def)
  show ?thesis
  proof (intro exI conjI, rule run, rule z, unfold Let_def, intro conjI impI)
    show "((if ng \<noteq> 0 then totl else 0) = 0) = (used ?gs = [])" using ne c0 by simp
    assume g: "used ?gs \<noteq> []"
    then have cnt: "(if ng \<noteq> 0 then totl else 0) = totl" using ne by simp
    show "take 2 ?z = [0xce, 0xcf]" by simp
    show "uint (of_le2 (?z ! 4) (?z ! 5)) = (if ng \<noteq> 0 then totl else 0) - 7" unfolding at le2_word cnt by (rule u16 [OF tb(2,1)])
    show "?z ! 6 = word_of_int rid" by (rule at(3))
    show "uint (of_le2 (?z ! 7) (?z ! 8)) = int (length (used ?gs))" unfolding at le2_word using u16 [OF ngb(2,1)] by (simp add: ng_def)
    show "read_groups (length (used ?gs)) (drop 9 (take (nat (if ng \<noteq> 0 then totl else 0)) ?z)) = used ?gs" unfolding cnt d by (rule rd)
  qed
qed

theorem interharmonic_record_witness:
  "\<exists>cnt ib'. make_inter_struct 0 ((replicate 4284 0)[2 := 5, 3 := 6]) (replicate 19287 0) = Some (cnt, ib') \<and> length ib' = 19287"
  using interharmonic_record [of 0 7 "replicate 19287 0" "(replicate 4284 0)[2 := 5, 3 := 6]"] by (auto simp: Let_def)


section \<open>The limits of the interharmonics stay inside the buffers\<close>

lemma for_loop_upto:
  assumes "lo \<le> hi" "P lo s" and "\<And>i s. lo \<le> i \<Longrightarrow> i < hi \<Longrightarrow> P i s \<Longrightarrow> \<exists>t. f i s = Some t \<and> P (i + 1) t"
  shows "\<exists>t. for_loop lo hi f s = Some t \<and> P hi t"
  using assms
proof (induction "nat (hi - lo)" arbitrary: lo s)
  case 0
  then show ?case by (simp add: for_loop_empty)
next
  case (Suc n)
  then have lt: "lo < hi" by simp
  then obtain t where t: "f lo s = Some t" "P (lo + 1) t" using Suc.prems(2,3) by blast
  have "\<exists>u. for_loop (lo + 1) hi f t = Some u \<and> P hi u"
    using Suc.hyps(2) lt t(2) Suc.prems(3) by (intro Suc.hyps(1)) auto
  then show ?case using t(1) by (simp add: for_loop_step [OF lt])
qed

abbreviation INTER_CELLS :: int where "INTER_CELLS \<equiv> 9180"

lemma cut_out_total:
  assumes "1 \<le> reso" "reso \<le> 16" "length frm = 9180" "length cells = 9180"
  shows "\<exists>c. cut_out reso frm cells = Some c \<and> length c = 9180"
proof -
  let ?w = "(reso - 1) * 2"
  let ?P = "\<lambda>n (s :: u16 list \<times> int). length (fst s) = 9180 \<and> snd s = (n :: int) \<and> 0 \<le> snd s"
  have w: "0 \<le> ?w" "?w \<le> 30" using assms(1,2) by auto
  have k: "\<exists>t. for_loop 0 ?w (cut_cell frm i j) s = Some t \<and>
      ?P ((i * 51 + j + 1) * ?w) t"
    if i: "0 \<le> i" "i < 6" "0 \<le> j" "j < 51" and s: "?P ((i * 51 + j) * ?w) s" for i j s
  proof -
    have le: "(i * 51 + j + 1) * ?w \<le> 306 * 30" using i w by (intro mult_mono) auto
    have "\<exists>t. for_loop 0 ?w (cut_cell frm i j) s = Some t \<and>
        ?P ((i * 51 + j) * ?w + ?w) t"
    proof (rule for_loop_upto [where P = "\<lambda>k. ?P ((i * 51 + j) * ?w + k)"])
      fix k t assume kt: "0 \<le> k" "k < ?w" "?P ((i * 51 + j) * ?w + k) t"
      have b: "i * 51 * 30 + j * 30 + k < 9180" "0 \<le> i * 51 * 30 + j * 30 + k" using i kt(1,2) w by auto
      have c: "snd t < 9180" using kt le by (simp add: algebra_simps)
      then show "\<exists>u. cut_cell frm i j k t = Some u \<and>
          ?P ((i * 51 + j) * ?w + (k + 1)) u"
        using b kt(3) assms(3) by (cases t) (simp add: cut_cell_def aget_def aset_def)
    qed (use w s in auto)
    then show ?thesis by (simp add: algebra_simps)
  qed
  have j: "\<exists>t. for_loop 0 51 (\<lambda>j. for_loop 0 ?w (cut_cell frm i j)) s = Some t \<and>
      ?P ((i + 1) * 51 * ?w) t"
    if i: "0 \<le> i" "i < 6" and s: "?P (i * 51 * ?w) s" for i s
  proof -
    have "\<exists>t. for_loop 0 51 (\<lambda>j. for_loop 0 ?w (cut_cell frm i j)) s = Some t \<and>
        ?P ((i * 51 + 51) * ?w) t"
      by (rule for_loop_upto [where P = "\<lambda>j. ?P ((i * 51 + j) * ?w)"]) (use i s k [of i] in \<open>simp_all add: add.assoc\<close>)
    then show ?thesis by (simp add: algebra_simps)
  qed
  have "\<exists>t. for_loop 0 6 (\<lambda>i. for_loop 0 51 (\<lambda>j. for_loop 0 ?w (cut_cell frm i j))) (cells, 0) = Some t \<and>
      ?P (6 * 51 * ?w) t"
    by (rule for_loop_upto [where P = "\<lambda>i. ?P (i * 51 * ?w)"]) (use assms(4) j in simp_all)
  then show ?thesis by (auto simp: cut_out_def)
qed

lemma square_sum_total:
  assumes "0 \<le> p" "p + 2 * reso \<le> int (length cells) + 1" "0 \<le> reso"
  shows "\<exists>x. square_sum cells p reso = Some x"
proof -
  have "\<exists>t. for_loop 0 reso (\<lambda>m fi. do { x \<leftarrow> aget cells (p + m * 2); Some (fi + uint x * uint x) }) 0 = Some t \<and> True"
    by (rule for_loop_total) (use assms in \<open>auto simp: aget_def\<close>)
  then show ?thesis by (auto simp: square_sum_def)
qed

lemma copy_cells_total:
  "0 \<le> p \<Longrightarrow> 0 \<le> n \<Longrightarrow> p + n \<le> int (length cells) \<Longrightarrow> length to = length cells \<Longrightarrow>
    \<exists>t. copy_cells cells p n to = Some t \<and> length t = length cells"
  by (auto simp: copy_cells_def aslice_def blit_def)

lemma limit_order_total:
  assumes "reso = 8 \<or> reso = 10 \<or> reso = 16" "length cells = 9180" "length base = 100" "length to = 9180"
    and "0 \<le> i" "i < 2" "1 \<le> k" "k < 51" "0 \<le> n" "n \<le> 304" "p = (reso div 2 - 1) * 2 + n * ((reso - 1) * 2)"
  shows "\<exists>t. limit_order over base slimit hrm_num reso cells i k (to, p) = Some (t, p + (reso - 1) * 2) \<and> length t = 9180"
proof -
  let ?ig = "(reso div 2 - 1) * 2"
  have p: "0 \<le> p - ?ig" "0 \<le> ?ig" "p + (reso + ?ig div 2) * 2 \<le> 9180" "0 \<le> reso" using assms(1,9,10,11) by auto
  then have b: "0 \<le> p" "p + 2 * reso \<le> 9180 + 1" "p - ?ig + (reso + ?ig div 2) * 2 \<le> 9180" "p + reso * 2 \<le> 9180" "0 \<le> (reso + ?ig div 2) * 2" "0 \<le> reso * 2"
    using assms(1) by auto
  obtain x where x: "square_sum cells p reso = Some x" using square_sum_total [of p reso cells] b(1,2) p(4) assms(2) by auto
  have bs: "aget base (i * 50 + k - 1) = Some (base ! nat (i * 50 + k - 1))" using assms(3,5-8) by (simp add: aget_def)
  obtain t1 where t1: "copy_cells cells (p - ?ig) ((reso + ?ig div 2) * 2) to = Some t1" "length t1 = 9180"
    using copy_cells_total [OF p(1) b(5), of cells to] b(3) assms(2,4) by auto
  obtain t2 where t2: "copy_cells cells p ((reso + ?ig div 2) * 2) to = Some t2" "length t2 = 9180"
    using copy_cells_total [OF b(1) b(5), of cells to] p(3) assms(2,4) by auto
  obtain t3 where t3: "copy_cells cells p (reso * 2) to = Some t3" "length t3 = 9180"
    using copy_cells_total [OF b(1) b(6), of cells to] b(4) assms(2,4) by auto
  let ?t = "if over x (base ! nat (i * 50 + k - 1)) \<ge> slimit then (if k = 1 then t1 else if k = hrm_num then t2 else t3) else to"
  have "limit_order over base slimit hrm_num reso cells i k (to, p) = Some (?t, p + (reso - 1) * 2)"
    by (simp only: limit_order_def prod.case Let_def x bs Option.bind.simps t1(1) t2(1) t3(1) split: if_split) simp
  moreover have "length ?t = 9180" using t1(2) t2(2) t3(2) assms(4) by simp
  ultimately show ?thesis by blast
qed

lemma inter_limit_total:
  assumes "reso = 8 \<or> reso = 10 \<or> reso = 16" "length junk = 9180" "length frm = 9180" "length to = 9180" "length base = 100"
  shows "\<exists>t. inter_limit_hdl over base slimit hrm_num reso junk frm to = Some t \<and> length t = 9180"
proof -
  let ?w = "(reso - 1) * 2" and ?ig = "(reso div 2 - 1) * 2"
  obtain cells where c: "cut_out reso frm junk = Some cells" "length cells = 9180"
    using cut_out_total [of reso frm junk] assms by auto
  let ?P = "\<lambda>n (s :: u16 list \<times> int). length (fst s) = 9180 \<and> snd s = ?ig + n * ?w"
  have k: "\<exists>t. for_loop 1 51 (limit_order over base slimit hrm_num reso cells i) s = Some t \<and> ?P ((i * 3 + j) * 51 + 50) t"
    if i: "0 \<le> i" "i < 2" "0 \<le> j" "j < 3" and s: "?P ((i * 3 + j) * 51) s" for i j s
  proof -
    have "\<exists>t. for_loop 1 51 (limit_order over base slimit hrm_num reso cells i) s = Some t \<and> ?P ((i * 3 + j) * 51 + 51 - 1) t"
    proof (rule for_loop_upto [where P = "\<lambda>k. ?P ((i * 3 + j) * 51 + k - 1)"])
      fix k t assume kt: "1 \<le> k" "k < 51" "?P ((i * 3 + j) * 51 + k - 1) t"
      have n: "0 \<le> (i * 3 + j) * 51 + k - 1" "(i * 3 + j) * 51 + k - 1 \<le> 304" using i kt(1,2) by auto
      obtain u where u: "limit_order over base slimit hrm_num reso cells i k (fst t, snd t) = Some (u, snd t + ?w) \<and> length u = 9180"
        using limit_order_total [OF assms(1) c(2) assms(5) _ i(1,2) kt(1,2) n, of "fst t" "snd t"] kt(3) by blast
      have "snd t + ?w = ?ig + ((i * 3 + j) * 51 + (k + 1) - 1) * ?w" using kt(3) by (simp add: algebra_simps)
      then show "\<exists>u. limit_order over base slimit hrm_num reso cells i k t = Some u \<and> ?P ((i * 3 + j) * 51 + (k + 1) - 1) u"
        using u by (intro exI [of _ "(u, snd t + ?w)"]) (simp only: prod.collapse fst_conv snd_conv simp_thms)
    qed (use s in auto)
    moreover have "(i * 3 + j) * 51 + 51 - 1 = (i * 3 + j) * 51 + 50" by simp
    ultimately show ?thesis by (simp only:)
  qed
  let ?row = "\<lambda>i j s. for_loop 1 51 (limit_order over base slimit hrm_num reso cells i) s \<bind> (\<lambda>(to, p). Some (to, p + ?w))"
  have j: "\<exists>t. for_loop 0 3 (?row i) s = Some t \<and> ?P ((i + 1) * 3 * 51) t" if i: "0 \<le> i" "i < 2" and s: "?P (i * 3 * 51) s" for i s
  proof -
    have "\<exists>t. for_loop 0 3 (?row i) s = Some t \<and> ?P ((i * 3 + 3) * 51) t"
    proof (rule for_loop_upto [where P = "\<lambda>j. ?P ((i * 3 + j) * 51)"])
      fix j t assume jt: "0 \<le> j" "j < 3" "?P ((i * 3 + j) * 51) t"
      obtain u where "for_loop 1 51 (limit_order over base slimit hrm_num reso cells i) t = Some u" "?P ((i * 3 + j) * 51 + 50) u"
        using k [OF i jt] by blast
      then show "\<exists>u. ?row i j t = Some u \<and> ?P ((i * 3 + (j + 1)) * 51) u" by (cases u) (simp add: algebra_simps)
    qed (use s in auto)
    then show ?thesis by (simp add: algebra_simps)
  qed
  have "\<exists>t. for_loop 0 2 (\<lambda>i. for_loop 0 3 (?row i)) (to, ?ig) = Some t \<and> ?P (2 * 3 * 51) t"
    by (rule for_loop_upto [where P = "\<lambda>i. ?P (i * 3 * 51)"]) (use assms(4) j in auto)
  then show ?thesis using c(1) by (auto simp: inter_limit_hdl_def)
qed


section \<open>Further facts\<close>

text \<open>A reported phase is within one turn, if the stored one is.\<close>

lemma get_phase_range:
  assumes "get_phase debug phs vc hms half s = Some fi" "get3 (harmphs s) vc phs hms = Some w" "uint w < 3600"
  shows "if half then - 1800 < fi \<and> fi \<le> 1800 else 0 \<le> fi \<and> fi < 3600"
proof -
  obtain n where "uint w = int n" using nonneg_int_cases [of "uint w"] by auto
  then show ?thesis using assms by (auto simp: get_phase_def Let_def split: if_splits)
qed

text \<open>
  Values that rise from above the maximum never reach the minimum: it keeps what it was set to before the aggregation.
\<close>

lemma rising_values_no_minimum:
  assumes "get3 (harm_max s) vc i j = Some m" "m < v" "set3 (harm_max s) vc i j v = Some a"
  shows "max_min vc i j v s = Some (s\<lparr>harm_max := a\<rparr>)"
  using assms by (simp add: max_min_def)

text \<open>
  Of the limits of the voltage ratios only the two of the second and the third order are used, also when each order has its own.
\<close>

lemma two_ratio_limits:
  assumes "\<forall>i < 3. aget us i = aget (u_limit L) i"
  shows "HarmAlarmCheck (L\<lparr>u_limit := us\<rparr>) = HarmAlarmCheck L"
proof -
  have "aget us ((i + 1) mod 2 + 1) = aget (u_limit L) ((i + 1) mod 2 + 1)" for i
    using assms pos_mod_bound [of 2 "i + 1"] by simp
  moreover have "aget us 0 = aget (u_limit L) 0" using assms by simp
  ultimately show ?thesis by (intro ext) (simp add: HarmAlarmCheck_def)
qed

text \<open>
  The base values of the currents begin one cell too early: the last one of the voltages is overwritten by that of the second order, and the last cell
  is never set.
\<close>

lemma current_bases_shifted:
  "\<exists>b. update_IntBase (\<lambda>k. of_int k) (\<lambda>i. 100 + of_int i) (replicate 100 7) = Some b \<and> b ! 49 = 102 \<and> b ! 50 = 102 \<and> b ! 51 = 103 \<and> b ! 99 = 7"
proof -
  have "(case update_IntBase (\<lambda>k. of_int k) (\<lambda>i. 100 + of_int i) (replicate 100 7) of None \<Rightarrow> False
    | Some b \<Rightarrow> b ! 49 = 102 \<and> b ! 50 = 102 \<and> b ! 51 = 103 \<and> b ! 99 = 7)"
    by code_simp
  then show ?thesis by (auto split: option.splits)
qed

end
