(* ===== verification/Net_Para.thy ===== *)
theory Net_Para
  imports Prelude
begin

text \<open>
  The network parameters (\<open>gui/src/device/net.cpp\<close>): addresses and the address of the time server are values of lines of two
  shell scripts, which are read, checked and replaced line by line.  A file is its text, or None when it does not exist; reading
  and writing an existing file succeed.  The results of the operations are None when a buffer is overrun or a null pointer read.
\<close>

section \<open>The functions of the C library\<close>

definition nl :: char where "nl = CHR 0x0A"

definition quot :: char where "quot = CHR 0x22"

text \<open>\<open>fgets\<close> with room for n characters.\<close>

fun fgets :: "nat \<Rightarrow> string \<Rightarrow> string \<times> string" where
  "fgets 0 s = ([], s)"
| "fgets (Suc n) [] = ([], [])"
| "fgets (Suc n) (c # s) = (if c = nl then ([c], s) else (let (a, b) = fgets n s in (c # a, b)))"

lemma fgets_parts: "fgets n s = (a, b) \<Longrightarrow> s = a @ b"
  by (induction n s arbitrary: a b rule: fgets.induct) (auto split: if_splits prod.splits)

lemma fgets_takes: "fgets (Suc n) s = (a, b) \<Longrightarrow> s \<noteq> [] \<Longrightarrow> a \<noteq> []"
  by (cases s) (auto split: if_splits prod.splits)

lemma fgets_shorter: "(a, b) = fgets (Suc n) s \<Longrightarrow> s \<noteq> [] \<Longrightarrow> length b < length s"
  using fgets_parts [of "Suc n" s a b] fgets_takes [of n s a b] by (cases a) auto

definition starts :: "string \<Rightarrow> string \<Rightarrow> bool" where
  "starts p s \<longleftrightarrow> take (length p) s = p"

definition strtok :: "string \<Rightarrow> string \<Rightarrow> string option" where
  "strtok s d = (let r = dropWhile (\<lambda>c. c \<in> set d) s in if r = [] then None else Some (takeWhile (\<lambda>c. c \<notin> set d) r))"

text \<open>\<open>%d\<close>: blanks, a sign and digits; and \<open>%d.%d.%d.%d\<close>, the values that are read.\<close>

definition is_digit :: "char \<Rightarrow> bool" where
  "is_digit c \<longleftrightarrow> 48 \<le> (of_char c :: int) \<and> (of_char c :: int) \<le> 57"

definition is_blank :: "char \<Rightarrow> bool" where
  "is_blank c \<longleftrightarrow> (of_char c :: int) \<in> {9, 10, 11, 12, 13, 32}"

definition value_of :: "string \<Rightarrow> int" where
  "value_of ds = foldl (\<lambda>v c. v * 10 + (of_char c - 48)) 0 ds"

definition scan_digits :: "string \<Rightarrow> (int \<times> string) option" where
  "scan_digits s = (let ds = takeWhile is_digit s in if ds = [] then None else Some (value_of ds, dropWhile is_digit s))"

definition scan_int :: "string \<Rightarrow> (int \<times> string) option" where
  "scan_int s = (case dropWhile is_blank s of [] \<Rightarrow> None
     | c # r \<Rightarrow> if c = CHR ''-'' then map_option (\<lambda>(v, r). (- v, r)) (scan_digits r)
                else if c = CHR ''+'' then scan_digits r
                else scan_digits (c # r))"

fun scan_dots :: "nat \<Rightarrow> string \<Rightarrow> int list" where
  "scan_dots 0 s = []"
| "scan_dots (Suc n) s = (case scan_int s of None \<Rightarrow> []
     | Some (v, r) \<Rightarrow> v # (case r of [] \<Rightarrow> [] | c # r \<Rightarrow> if c = CHR ''.'' then scan_dots n r else []))"

definition scan_quad :: "string \<Rightarrow> int list \<Rightarrow> int list" where
  "scan_quad s vs = (let rs = scan_dots 4 s in rs @ drop (length rs) vs)"

text \<open>\<open>sprintf\<close> of a number that is not negative, and of an address.\<close>

fun dec :: "nat \<Rightarrow> string" where
  "dec n = (if n < 10 then [char_of (48 + n)] else dec (n div 10) @ [char_of (48 + n mod 10)])"

declare dec.simps [simp del]

definition dotted :: "nat list \<Rightarrow> string" where
  "dotted ns = (case ns of [a, b, c, d] \<Rightarrow> dec a @ ''.'' @ dec b @ ''.'' @ dec c @ ''.'' @ dec d | _ \<Rightarrow> [])"

section \<open>Lines of a file\<close>

text \<open>The lines are read in pieces of at most 79 characters; the first piece that starts with the key.\<close>

function first_line :: "string \<Rightarrow> string \<Rightarrow> string option" where
  "first_line key s =
     (if s = [] then None
      else (let (a, b) = fgets 79 s in if starts key a then Some a else first_line key b))"
  by pat_completeness auto
termination
  by (relation "measure (\<lambda>(key, s). length s)") (auto dest: fgets_shorter [of _ _ 78, simplified])

text \<open>Copying to the temporary file up to that piece, and the rest behind the new line.\<close>

function copy_until :: "string \<Rightarrow> string \<Rightarrow> string \<times> bool \<times> string" where
  "copy_until key s =
     (if s = [] then ([], False, [])
      else (let (a, b) = fgets 79 s in
        if starts key a then ([], True, b)
        else (let (t, f, r) = copy_until key b in (a @ t, f, r))))"
  by pat_completeness auto
termination
  by (relation "measure (\<lambda>(key, s). length s)") (auto dest: fgets_shorter [of _ _ 78, simplified])

function copy_rest :: "string \<Rightarrow> string" where
  "copy_rest s = (if s = [] then [] else (let (a, b) = fgets 79 s in a @ copy_rest b))"
  by pat_completeness auto
termination
  by (relation "measure length") (auto dest: fgets_shorter [of _ _ 78, simplified])

declare first_line.simps [simp del] copy_until.simps [simp del] copy_rest.simps [simp del]

definition replace_line :: "string \<Rightarrow> string \<Rightarrow> string \<Rightarrow> string" where
  "replace_line key line s = (let (t, found, r) = copy_until key s in if found then t @ line @ copy_rest r else t)"

section \<open>Address, mask, gateway and hardware address\<close>

definition net_key :: "int \<Rightarrow> string" where
  "net_key type = (if type = 1 then ''IPADDR'' else if type = 2 then ''NETMASK'' else if type = 3 then ''GATEWAY''
     else if type = 4 then ''HWADDR'' else ''UNDEFINE'')"

definition get_net_para :: "int \<Rightarrow> string option \<Rightarrow> string option" where
  "get_net_para type file = (case file of None \<Rightarrow> Some ''No exit''
     | Some s \<Rightarrow> (case first_line (net_key type) s of None \<Rightarrow> Some ''Not found''
        | Some l \<Rightarrow> if 1 \<le> type \<and> type \<le> 4 then strtok (drop (length (net_key type)) l) [CHR ''='', quot]
                    else Some ''Not found''))"

definition set_key :: "int \<Rightarrow> string" where
  "set_key type = (if type = 5 then ''/etc/init.d/S50sshd'' else if type = 6 then ''#/etc/init.d/S50sshd'' else net_key type)"

text \<open>A value that is refused: one of the four numbers is above 255 or missing.\<close>

definition refused :: "string \<Rightarrow> bool" where
  "refused str \<longleftrightarrow> (\<exists>v \<in> set (scan_quad str [666, 666, 666, 666]). v > 255)"

definition checked :: "string \<Rightarrow> string \<Rightarrow> bool" where
  "checked key str \<longleftrightarrow> key = ''GATEWAY'' \<and> str \<noteq> [] \<or> key = ''IPADDR'' \<or> key = ''NETMASK''"

text \<open>The new line; the buffer has 81 cells.\<close>

definition net_line :: "int \<Rightarrow> string \<Rightarrow> string \<Rightarrow> string" where
  "net_line type str old =
     (if type < 5 then set_key type @ ''='' @ [quot] @ str @ [quot, nl]
      else if type = 5 then ''#'' @ set_key type @ '' stop'' @ [nl]
      else if type = 6 then drop 1 (set_key type) @ '' stop'' @ [nl] else old)"

definition set_net_para :: "int \<Rightarrow> string \<Rightarrow> string option \<Rightarrow> string option option" where
  "set_net_para type str file =
     (if checked (set_key type) str \<and> refused str then Some file
      else (case file of None \<Rightarrow> Some None
        | Some s \<Rightarrow> (case first_line (set_key type) s of None \<Rightarrow> Some (Some s)
           | Some old \<Rightarrow> (let line = net_line type str old in
               if length line \<le> 80 then Some (Some (replace_line (set_key type) line s)) else None))))"

text \<open>The commands that apply the parameters; the values are copied to 24 cells each and the command to 64.\<close>

definition apply_net_para :: "string option \<Rightarrow> string list option" where
  "apply_net_para file = do {
     ip \<leftarrow> get_net_para 1 file; mask \<leftarrow> get_net_para 2 file; gw \<leftarrow> get_net_para 3 file;
     if length ip < 24 \<and> length mask < 24 \<and> length gw < 24 then do {
       let c = ''ifconfig eth0 '' @ ip @ '' netmask '' @ mask;
       if length c < 64 then
         (if gw = [] then Some [c]
          else (let d = ''route add default gw '' @ gw @ '' metric 1'' in
            if length d < 64 then Some [c, ''route del default'', d] else None))
       else None }
     else None }"

section \<open>A file that lost lines\<close>

function count_lines :: "string \<Rightarrow> int" where
  "count_lines s = (if s = [] then 0 else 1 + count_lines (snd (fgets 1023 s)))"
  by pat_completeness auto
termination
  by (relation "measure length") (use fgets_shorter [of "fst (fgets 1023 s)" "snd (fgets 1023 s)" 1022 s for s] in auto)

declare count_lines.simps [simp del]

definition get_file_linecount :: "string option \<Rightarrow> int" where
  "get_file_linecount file = (case file of None \<Rightarrow> - 1 | Some s \<Rightarrow> count_lines s)"

text \<open>The file is copied from the original one, and the four values are put back.\<close>

definition chk_net_file :: "string option \<Rightarrow> string option \<Rightarrow> string option option" where
  "chk_net_file file original =
     (let n = get_file_linecount file; m = get_file_linecount original in
      if m \<le> 0 \<or> n \<le> 0 \<or> n \<ge> m then Some file
      else do {
        p1 \<leftarrow> get_net_para 1 file; p2 \<leftarrow> get_net_para 2 file; p3 \<leftarrow> get_net_para 3 file; p4 \<leftarrow> get_net_para 4 file;
        f \<leftarrow> set_net_para 1 p1 original; f \<leftarrow> set_net_para 2 p2 f; f \<leftarrow> set_net_para 3 p3 f; set_net_para 4 p4 f })"

section \<open>The time server\<close>

definition ntp_key :: "int \<Rightarrow> string" where
  "ntp_key type = (if type = 1 then ''Addr'' else if type = 2 then ''Port'' else ''UNDEFINE'')"

definition get_ntp_para :: "int \<Rightarrow> string option \<Rightarrow> string option" where
  "get_ntp_para type file = (case file of None \<Rightarrow> Some ''No exit''
     | Some s \<Rightarrow> (case first_line (ntp_key type) s of None \<Rightarrow> Some ''Not found''
        | Some l \<Rightarrow> if type = 1 \<or> type = 2 then strtok (drop (length (ntp_key type)) l) ''='' else Some ''Not found''))"

definition set_ntp_para :: "int \<Rightarrow> string \<Rightarrow> string option \<Rightarrow> string option option" where
  "set_ntp_para type str file =
     (if ntp_key type = ''Addr'' \<and> refused str then Some file
      else (case file of None \<Rightarrow> Some None
        | Some s \<Rightarrow> (case first_line (ntp_key type) s of None \<Rightarrow> Some (Some s)
           | Some old \<Rightarrow> (let line = ntp_key type @ ''='' @ str @ [nl] in
               if length line \<le> 80 then Some (Some (replace_line (ntp_key type) line s)) else None))))"

text \<open>The script reports its version in the second byte of the result; an old one is replaced, and its address kept.\<close>

definition UpNtpParaFile :: "int \<Rightarrow> string option \<Rightarrow> string option \<Rightarrow> string option option" where
  "UpNtpParaFile ret recover file =
     (if ret div 256 < 2 then do { a \<leftarrow> get_ntp_para 1 file; set_ntp_para 1 a (if recover = None then file else recover) } else Some file)"

section \<open>Lemmas\<close>

lemma starts_append: "starts p x \<Longrightarrow> starts p (x @ y)"
proof -
  assume a: "starts p x"
  then have "length p \<le> length x" unfolding starts_def by (metis length_take min.absorb_iff2 min.commute)
  then show "starts p (x @ y)" using a by (simp add: starts_def)
qed

lemma copy_rest_id [simp]: "copy_rest s = s"
proof (induction s rule: copy_rest.induct)
  case (1 s)
  obtain a b where p: "fgets 79 s = (a, b)" by (cases "fgets 79 s")
  show ?case
  proof (cases "s = []")
    case False
    then show ?thesis using "1.IH" [OF False p [symmetric] refl] fgets_parts [OF p] p False by (subst copy_rest.simps) simp
  qed (simp add: copy_rest.simps)
qed

lemma fgets_again: "fgets n (a @ b) = (a, b) \<Longrightarrow> b \<noteq> [] \<Longrightarrow> fgets n (a @ y) = (a, y)"
proof (induction n arbitrary: a)
  case (Suc n)
  then show ?case by (cases a) (auto split: if_splits prod.splits elim: fgets.elims)
qed simp

text \<open>What is copied are whole pieces: reading the copy goes on behind it as reading the file does.\<close>

lemma read_copied:
  assumes "copy_until key s = (t, True, r)"
  shows "\<exists>l. s = t @ l @ r \<and> l \<noteq> [] \<and> starts key l \<and> fgets 79 (l @ r) = (l, r) \<and>
    (\<forall>k y. y \<noteq> [] \<longrightarrow> first_line k (t @ y) = (case first_line k t of Some a \<Rightarrow> Some a | None \<Rightarrow> first_line k y))"
  using assms
proof (induction key s arbitrary: t rule: copy_until.induct)
  case (1 key s)
  obtain a b where p: "fgets 79 s = (a, b)" by (cases "fgets 79 s")
  have ne: "s \<noteq> []" using "1.prems" by (auto simp: copy_until.simps)
  have ab: "s = a @ b" "a \<noteq> []" using fgets_parts [OF p] fgets_takes [of 78 s a b] p ne by simp_all
  show ?case
  proof (cases "starts key a")
    case True
    then have "t = []" "r = b" using "1.prems" p ne by (simp_all add: copy_until.simps [of key s])
    then show ?thesis using True ab p by (intro exI [of _ a]) (simp add: first_line.simps [of _ "[]"])
  next
    case False
    obtain u where u: "copy_until key b = (u, True, r)" "t = a @ u"
      using "1.prems" p ne False by (auto simp: copy_until.simps [of key s] split: prod.splits)
    obtain l where l: "b = u @ l @ r" "l \<noteq> []" "starts key l" "fgets 79 (l @ r) = (l, r)"
      and rd: "\<And>k y. y \<noteq> [] \<Longrightarrow> first_line k (u @ y) = (case first_line k u of Some a \<Rightarrow> Some a | None \<Rightarrow> first_line k y)"
      using "1.IH" [OF ne p [symmetric] refl False u(1)] by blast
    have g: "fgets 79 (a @ y) = (a, y)" for y
      using fgets_again [of 79 a b y] p ab l(1,2) by simp
    have "first_line k (t @ y) = (case first_line k t of Some a \<Rightarrow> Some a | None \<Rightarrow> first_line k y)" if "y \<noteq> []" for k y
      using rd [OF that] g ab(2) by (simp add: first_line.simps [of k "a @ _"] u(2))
    then show ?thesis using ab(1) l u(2) by (intro exI [of _ l]) simp
  qed
qed

lemma first_line_copied:
  "first_line key s \<noteq> None \<longleftrightarrow> (\<exists>t r. copy_until key s = (t, True, r))"
proof (induction key s rule: copy_until.induct)
  case (1 key s)
  obtain a b where p: "fgets 79 s = (a, b)" by (cases "fgets 79 s")
  show ?case
  proof (cases "s = [] \<or> starts key a")
    case True
    then show ?thesis using p by (auto simp: first_line.simps [of key s] copy_until.simps [of key s])
  next
    case False
    then show ?thesis using "1.IH" p
      by (auto simp: first_line.simps [of key s] copy_until.simps [of key s] split: prod.splits)
  qed
qed

lemma not_in_copied: "copy_until key s = (t, True, r) \<Longrightarrow> first_line key t = None"
proof (induction key s arbitrary: t rule: copy_until.induct)
  case (1 key s)
  obtain a b where p: "fgets 79 s = (a, b)" by (cases "fgets 79 s")
  have ne: "s \<noteq> []" using "1.prems" by (auto simp: copy_until.simps)
  show ?case
  proof (cases "starts key a")
    case True
    then have "t = []" using "1.prems" p ne by (simp add: copy_until.simps [of key s])
    then show ?thesis by (simp add: first_line.simps)
  next
    case False
    obtain u where u: "copy_until key b = (u, True, r)" "t = a @ u"
      using "1.prems" p ne False by (auto simp: copy_until.simps [of key s] split: prod.splits)
    obtain l where l: "b = u @ l @ r" "l \<noteq> []" using read_copied [OF u(1)] by auto
    have "fgets 79 (a @ u) = (a, u)" using fgets_again [of 79 a b u] p fgets_parts [OF p] l by simp
    then show ?thesis using "1.IH" [OF ne p [symmetric] refl False u(1)] False
      by (simp add: u(2) first_line.simps [of key "a @ u"] Let_def)
  qed
qed

lemma fgets_line: "nl \<notin> set x \<Longrightarrow> length x < n \<Longrightarrow> fgets n (x @ nl # r) = (x @ [nl], r)"
proof (induction x arbitrary: n)
  case Nil
  then show ?case by (cases n) simp_all
next
  case (Cons c x)
  then show ?case by (cases n) auto
qed

text \<open>Replacing a line changes what is found under its key, and only this.\<close>

lemma replace_reads:
  assumes "first_line key s = Some old" "starts key x" "nl \<notin> set x" "length x < 79"
    and "\<And>k. k \<in> other \<Longrightarrow> \<not> starts k x \<and> (\<forall>l. starts key l \<longrightarrow> \<not> starts k l)"
  shows "first_line key (replace_line key (x @ [nl]) s) = Some (x @ [nl])"
    and "k \<in> other \<Longrightarrow> \<not> starts k (x @ [nl]) \<Longrightarrow> first_line k (replace_line key (x @ [nl]) s) = first_line k s"
proof -
  obtain t r where c: "copy_until key s = (t, True, r)" using first_line_copied [of key s] assms(1) by auto
  obtain l where l: "s = t @ l @ r" "l \<noteq> []" "starts key l" "fgets 79 (l @ r) = (l, r)"
    and rd: "\<And>k y. y \<noteq> [] \<Longrightarrow> first_line k (t @ y) = (case first_line k t of Some a \<Rightarrow> Some a | None \<Rightarrow> first_line k y)"
    using read_copied [OF c] by blast
  have e: "replace_line key (x @ [nl]) s = t @ x @ nl # r" using c by (simp add: replace_line_def)
  have f: "fgets 79 (x @ nl # r) = (x @ [nl], r)" using assms(3,4) by (intro fgets_line) simp_all
  have s: "starts key (x @ [nl])" by (rule starts_append [OF assms(2)])
  show "first_line key (replace_line key (x @ [nl]) s) = Some (x @ [nl])"
    using rd [of "x @ nl # r" key] not_in_copied [OF c] f s by (simp add: e first_line.simps [of key "x @ nl # r"])
  assume k: "k \<in> other" "\<not> starts k (x @ [nl])"
  show "first_line k (replace_line key (x @ [nl]) s) = first_line k s"
    unfolding e unfolding l(1) using rd [of "x @ nl # r" k] rd [of "l @ r" k] assms(5) [OF k(1)] l(2-4) k(2) f
    by (simp add: first_line.simps [of k "x @ nl # r"] first_line.simps [of k "l @ r"] split: option.split)
qed

text \<open>The numbers of an address survive \<open>sprintf\<close> and \<open>sscanf\<close>.\<close>

lemma digit_char: "k < 10 \<Longrightarrow> is_digit (char_of (48 + k)) \<and> of_char (char_of (48 + k) :: char) = (48 + int k)"
proof -
  assume k: "k < 10"
  have "of_char (char_of (48 + k) :: char) = int (of_char (char_of (48 + k) :: char))" by (simp only: of_nat_of_char)
  then have "of_char (char_of (48 + k) :: char) = 48 + int k" using k by (simp del: of_nat_of_char)
  then show ?thesis using k by (simp add: is_digit_def)
qed

lemma dec_digits: "dec n \<noteq> [] \<and> (\<forall>c \<in> set (dec n). is_digit c) \<and> value_of (dec n) = int n"
proof (induction n rule: dec.induct)
  case (1 n)
  show ?case
  proof (cases "n < 10")
    case True
    then show ?thesis using digit_char [of n] by (simp add: dec.simps [of n] value_of_def)
  next
    case False
    moreover have "int (n div 10) * 10 + int (n mod 10) = int n" by presburger
    ultimately show ?thesis using 1 digit_char [of "n mod 10"] by (simp add: dec.simps [of n] value_of_def)
  qed
qed

lemma digit_char_kinds: "is_digit c \<Longrightarrow> \<not> is_blank c \<and> c \<noteq> CHR ''-'' \<and> c \<noteq> CHR ''+''"
  by (auto simp: is_digit_def is_blank_def)

lemma scan_dec:
  assumes "r = [] \<or> \<not> is_digit (hd r)"
  shows "scan_int (dec n @ r) = Some (int n, r)"
proof -
  note d = dec_digits [of n]
  obtain c ds where c: "dec n = c # ds" "is_digit c" using d by (cases "dec n") auto
  have "takeWhile is_digit (dec n @ r) = dec n" "dropWhile is_digit (dec n @ r) = r"
    using d assms by (cases r; simp add: takeWhile_append dropWhile_append)+
  then have "scan_digits (dec n @ r) = Some (int n, r)" using d by (simp add: scan_digits_def)
  then show ?thesis using c digit_char_kinds [OF c(2)] by (simp add: scan_int_def)
qed

lemma scan_dec_end: "scan_int (dec n) = Some (int n, [])"
  using scan_dec [of "[]" n] by simp

lemma scan_dotted: "scan_quad (dotted [a, b, c, d]) vs = [int a, int b, int c, int d] @ drop 4 vs"
  by (simp add: scan_quad_def dotted_def scan_dec scan_dec_end is_digit_def numeral_eq_Suc)

lemma length_dec: "n < 1000 \<Longrightarrow> length (dec n) \<le> 3"
  by (simp add: dec.simps [of n] dec.simps [of "n div 10"] dec.simps [of "n div 10 div 10"])

text \<open>Characters that a value cannot have.\<close>

definition plain :: "string \<Rightarrow> bool" where
  "plain v \<longleftrightarrow> v \<noteq> [] \<and> set v \<inter> {nl, quot, CHR ''=''} = {}"

lemma plain_dotted: "plain (dotted [a, b, c, d])"
proof -
  have "is_digit x \<Longrightarrow> x \<notin> {nl, quot, CHR ''=''}" for x
    by (auto simp: is_digit_def nl_def quot_def)
  then have "set (dec n) \<inter> {nl, quot, CHR ''=''} = {}" for n using dec_digits [of n] by blast
  moreover have "{CHR ''.''} \<inter> {nl, quot, CHR ''=''} = {}" by (simp add: nl_def quot_def)
  ultimately show ?thesis using dec_digits [of a] by (simp add: plain_def dotted_def Int_Un_distrib2)
qed

section \<open>Properties\<close>

lemma strtok_value: "plain v \<Longrightarrow> strtok (''='' @ [quot] @ v @ [quot, nl]) [CHR ''='', quot] = Some v"
proof -
  assume v: "plain v"
  then obtain c w where c: "v = c # w" "c \<noteq> quot" "c \<noteq> CHR ''=''" by (cases v) (auto simp: plain_def)
  have "takeWhile (\<lambda>c. c \<noteq> CHR ''='' \<and> c \<noteq> quot) (v @ [quot, nl]) = v"
    using v by (subst takeWhile_append2) (auto simp: plain_def)
  then show ?thesis using c by (simp add: strtok_def Let_def)
qed

lemma net_key_differs:
  assumes "1 \<le> t" "t \<le> 4" "t' \<noteq> t" "1 \<le> t'" "t' \<le> 4"
  shows "\<not> starts (net_key t') (net_key t @ x) \<and> (\<forall>l. starts (net_key t) l \<longrightarrow> \<not> starts (net_key t') l)"
proof -
  have h: "starts p l \<Longrightarrow> p \<noteq> [] \<Longrightarrow> l \<noteq> [] \<and> hd l = hd p" for p l
    by (cases l; cases p) (auto simp: starts_def)
  have n: "net_key u \<noteq> []" for u by (simp add: net_key_def)
  have "hd (net_key t') \<noteq> hd (net_key t)"
    using assms by (auto simp: net_key_def)
  then show ?thesis using h n by (metis hd_append2)
qed

text \<open>
  A network parameter that is written is read back, and nothing else of the file changes: if the script has a
  line for the parameter, and the value is not refused, has no line break, quote or equals sign and fits in the buffer, then
  afterwards the file differs in that line alone, the parameter reads as the value, and the three other parameters read as before.
\<close>

lemma net_para_written:
  assumes "1 \<le> t" "t \<le> 4" "first_line (net_key t) s = Some old"
    and "plain v" "length v \<le> 66" "\<not> (checked (net_key t) v \<and> refused v)"
  shows "\<exists>s' a r. set_net_para t v (Some s) = Some (Some s') \<and>
    s = a @ old @ r \<and> s' = a @ net_key t @ ''='' @ [quot] @ v @ [quot, nl] @ r \<and>
    get_net_para t (Some s') = Some v \<and> (\<forall>t'. t' \<noteq> t \<longrightarrow> get_net_para t' (Some s') = get_net_para t' (Some s))"
proof -
  let ?x = "net_key t @ ''='' @ [quot] @ v @ [quot]" and ?k = "net_key t"
  have k: "length ?k \<le> 7" "nl \<notin> set ?k" using assms(1,2) by (auto simp: net_key_def nl_def)
  have x: "starts ?k ?x" "nl \<notin> set ?x" "length ?x < 79"
    using k assms(4,5) by (auto simp: starts_def plain_def nl_def quot_def)
  obtain a r where c: "copy_until ?k s = (a, True, r)" using first_line_copied [of ?k s] assms(3) by auto
  obtain l where l: "s = a @ l @ r" "starts ?k l" "fgets 79 (l @ r) = (l, r)" "l \<noteq> []"
    and rd: "\<And>k y. y \<noteq> [] \<Longrightarrow> first_line k (a @ y) = (case first_line k a of Some a \<Rightarrow> Some a | None \<Rightarrow> first_line k y)"
    using read_copied [OF c] by blast
  have "first_line ?k s = Some l"
    using rd [of "l @ r" ?k] not_in_copied [OF c] l by (simp add: first_line.simps [of ?k "l @ r"])
  then have old: "old = l" using assms(3) by simp
  let ?s = "replace_line ?k (?x @ [nl]) s"
  note d = net_key_differs [OF assms(1,2)]
  have r: "first_line ?k ?s = Some (?x @ [nl])"
    by (rule replace_reads(1) [OF assms(3) x, of "{}"]) simp
  have o: "first_line (net_key t') ?s = first_line (net_key t') s" if "t' \<noteq> t" "1 \<le> t'" "t' \<le> 4" for t'
    by (rule replace_reads(2) [OF assms(3) x, of "{net_key t'}"])
      (use d [OF that, of "''='' @ [quot] @ v @ [quot]"] d [OF that, of "''='' @ [quot] @ v @ [quot] @ [nl]"] in simp_all)
  have sk: "set_key t = ?k" using assms(2) by (simp add: set_key_def)
  have "set_net_para t v (Some s) = Some (Some ?s)"
    using assms(2,3) x(3) sk by (simp only: set_net_para_def assms(6) if_False) (simp add: net_line_def)
  moreover have "?s = a @ ?x @ [nl] @ r" using c by (simp add: replace_line_def)
  moreover have "get_net_para t (Some ?s) = Some v"
    using r strtok_value [OF assms(4)] assms(1,2) by (simp add: get_net_para_def)
  moreover have "get_net_para t' (Some ?s) = get_net_para t' (Some s)" if "t' \<noteq> t" for t'
  proof (cases "1 \<le> t' \<and> t' \<le> 4")
    case True
    then show ?thesis using o [OF that] by (simp add: get_net_para_def)
  qed (auto simp: get_net_para_def split: option.split)
  ultimately show ?thesis using l(1) old by (intro exI [of _ ?s] exI [of _ a] exI [of _ r]) simp
qed

definition demo_script :: string where
  "demo_script = ''HWADDR='' @ [quot] @ ''0A:0B'' @ [quot, nl] @ ''IPADDR='' @ [quot] @ ''1.2.3.4'' @ [quot, nl] @ ''ifconfig'' @ [nl]"

lemma net_para_written_example:
  "\<exists>s'. set_net_para 1 (dotted [192, 168, 0, 9]) (Some demo_script) = Some (Some s') \<and>
     get_net_para 1 (Some s') = Some ''192.168.0.9'' \<and> get_net_para 4 (Some s') = Some ''0A:0B''"
proof -
  have f: "first_line (net_key 1) demo_script = Some (''IPADDR='' @ [quot] @ ''1.2.3.4'' @ [quot, nl])" by code_simp
  have v: "dotted [192, 168, 0, 9] = ''192.168.0.9''" by code_simp
  have p: "plain ''192.168.0.9''" "\<not> refused ''192.168.0.9''" by code_simp+
  have "get_net_para 4 (Some demo_script) = Some ''0A:0B''" by code_simp
  then show ?thesis using net_para_written [OF _ _ f, of "''192.168.0.9''"] p v by fastforce
qed

text \<open>Addresses are never refused and fit in the buffers of the commands that apply them.\<close>

lemma address_accepted:
  assumes "a \<le> 255" "b \<le> 255" "c \<le> 255" "d \<le> 255"
  shows "\<not> refused (dotted [a, b, c, d]) \<and> length (dotted [a, b, c, d]) \<le> 15"
proof
  show "\<not> refused (dotted [a, b, c, d])" using assms by (simp add: refused_def scan_dotted)
  show "length (dotted [a, b, c, d]) \<le> 15"
    using assms length_dec [of a] length_dec [of b] length_dec [of c] length_dec [of d] by (simp add: dotted_def)
qed

lemma addresses_applied:
  assumes "get_net_para 1 file = Some (dotted [a, b, c, d])" "get_net_para 2 file = Some (dotted [e, f, g, h])"
    and "get_net_para 3 file = Some (dotted [i, j, k, l])" "\<forall>n \<in> {a, b, c, d, e, f, g, h, i, j, k, l}. n \<le> 255"
  shows "apply_net_para file = Some
    [''ifconfig eth0 '' @ dotted [a, b, c, d] @ '' netmask '' @ dotted [e, f, g, h], ''route del default'',
     ''route add default gw '' @ dotted [i, j, k, l] @ '' metric 1'']"
proof -
  have n: "length (dotted [a, b, c, d]) \<le> 15" "length (dotted [e, f, g, h]) \<le> 15" "length (dotted [i, j, k, l]) \<le> 15"
    using address_accepted [of a b c d] address_accepted [of e f g h] address_accepted [of i j k l] assms(4) by simp_all
  have "dotted [i, j, k, l] \<noteq> []" using plain_dotted by (auto simp: plain_def)
  then show ?thesis using n assms(1-3) by (simp add: apply_net_para_def)
qed

text \<open>
  A script that lost the line of the hardware address is restored with the text \<open>Not found\<close> as its hardware address, because only
  the other parameters are checked; and a value too long for the 24 cells of a command is copied behind them.
\<close>

definition demo_lost :: string where
  "demo_lost = ''IPADDR='' @ [quot] @ ''1.2.3.9'' @ [quot, nl]"

lemma hardware_address_lost:
  "(case chk_net_file (Some demo_lost) (Some demo_script) of None \<Rightarrow> False
    | Some f \<Rightarrow> get_net_para 1 f = Some ''1.2.3.9'' \<and> get_net_para 4 f = Some ''Not found'')"
  by code_simp

lemma long_value_overruns:
  "get_net_para 1 file = Some v \<Longrightarrow> get_net_para 2 file \<noteq> None \<Longrightarrow> get_net_para 3 file \<noteq> None \<Longrightarrow> 24 \<le> length v \<Longrightarrow>
   apply_net_para file = None"
  by (auto simp: apply_net_para_def)

text \<open>The address of the time server is read with the line break behind it; when the script is replaced, a blank line is added.\<close>

lemma time_server_blank_line:
  "UpNtpParaFile 256 (Some (''Addr=0.0.0.0'' @ [nl])) (Some (''Addr=1.2.3.4'' @ [nl])) = Some (Some (''Addr=1.2.3.4'' @ [nl, nl]))"
  by code_simp

end
