(* ===== verification/Floats.thy ===== *)
theory Floats
  imports Complex_Main Prelude
begin

text \<open>
  The numbers of type \<open>float\<close>: rationals that are rounded to 24 binary digits, to the nearest and from the middle to the even one
  (IEEE 754, binary32), after each operation.  Exponents below those of the type are kept at its least one; beyond the largest
  number of the type, which nothing here reaches, the number is left as it is.
\<close>

definition pow2 :: "int \<Rightarrow> rat" where
  "pow2 e = (if 0 \<le> e then 2 ^ nat e else 1 / 2 ^ nat (- e))"

definition round_even :: "rat \<Rightarrow> int" where
  "round_even x = (let k = \<lfloor>x\<rfloor>; d = x - of_int k in if d < 1 / 2 \<or> d = 1 / 2 \<and> even k then k else k + 1)"

definition exponents :: "int list" where
  "exponents = [- 149..104]"

definition flt :: "rat \<Rightarrow> rat" where
  "flt x = (case find (\<lambda>e. \<bar>x\<bar> < pow2 (e + 24)) exponents of None \<Rightarrow> x
     | Some e \<Rightarrow> of_int (round_even (x / pow2 e)) * pow2 e)"

text \<open>The conversion to \<open>int\<close> drops what is behind the point.\<close>

definition trunc :: "rat \<Rightarrow> int" where
  "trunc x = (if x < 0 then - \<lfloor>- x\<rfloor> else \<lfloor>x\<rfloor>)"

lemma trunc_of_int [simp]: "trunc (of_int n) = n" "trunc (- of_int n) = - n"
  by (simp_all add: trunc_def)

section \<open>Rounding\<close>

lemma round_even_near: "\<bar>of_int (round_even x) - x\<bar> \<le> 1 / 2"
proof -
  have "of_int \<lfloor>x\<rfloor> \<le> x" "x < of_int \<lfloor>x\<rfloor> + 1" using floor_correct [of x] by simp_all
  then show ?thesis by (auto simp: round_even_def Let_def abs_le_iff)
qed

lemma round_even_unique:
  assumes "\<bar>x - of_int k\<bar> < 1 / 2 \<or> \<bar>x - of_int k\<bar> = 1 / 2 \<and> even k"
  shows "round_even x = k"
proof (cases "of_int k \<le> x")
  case True
  then have d: "0 \<le> x - of_int k" "x - of_int k \<le> 1 / 2" using assms by (auto simp: abs_if)
  then have "\<lfloor>x\<rfloor> = k" by (intro floor_unique) linarith+
  then show ?thesis using assms d by (auto simp: round_even_def Let_def abs_if)
next
  case False
  then have d: "- (1 / 2) \<le> x - of_int k" "x - of_int k < 0" using assms by (auto simp: abs_if)
  then have f: "\<lfloor>x\<rfloor> = k - 1" by (intro floor_unique) simp_all
  have "x - of_int (k - 1) \<ge> 1 / 2" using d(1) by simp
  moreover have "x - of_int (k - 1) = 1 / 2 \<longrightarrow> even k" using assms d by (auto simp: abs_if)
  ultimately show ?thesis by (auto simp: round_even_def Let_def f)
qed

lemma round_even_minus: "round_even (- x) = - round_even x"
proof -
  have d: "\<bar>- x - of_int (- \<lfloor>x\<rfloor>)\<bar> = x - of_int \<lfloor>x\<rfloor>"
    using of_int_floor_le [of x] by simp
  have d1: "\<bar>- x - of_int (- (\<lfloor>x\<rfloor> + 1))\<bar> = 1 - (x - of_int \<lfloor>x\<rfloor>)"
    using floor_correct [of x] by simp
  consider "x - of_int \<lfloor>x\<rfloor> < 1 / 2" | "x - of_int \<lfloor>x\<rfloor> = 1 / 2" | "1 / 2 < x - of_int \<lfloor>x\<rfloor>" by linarith
  then show ?thesis
  proof cases
    case 1
    then have "round_even x = \<lfloor>x\<rfloor>" by (simp add: round_even_def Let_def)
    moreover have "round_even (- x) = - \<lfloor>x\<rfloor>"
      by (rule round_even_unique) (simp only: d 1 simp_thms)
    ultimately show ?thesis by simp
  next
    case 2
    show ?thesis
    proof (cases "even \<lfloor>x\<rfloor>")
      case True
      then have "round_even x = \<lfloor>x\<rfloor>" using 2 by (simp add: round_even_def Let_def)
      moreover have "round_even (- x) = - \<lfloor>x\<rfloor>" 
        by (rule round_even_unique) (simp only: d 2 True even_minus simp_thms)
      ultimately show ?thesis by simp
    next
      case False
      then have "round_even x = \<lfloor>x\<rfloor> + 1" using 2 by (simp add: round_even_def Let_def)
      moreover have "round_even (- x) = - (\<lfloor>x\<rfloor> + 1)" 
        by (rule round_even_unique) (use False in \<open>simp only: d1 2 simp_thms, simp\<close>)
      ultimately show ?thesis by simp
    qed
  next
    case 3
    have "round_even (- x) = - (\<lfloor>x\<rfloor> + 1)"
      by (rule round_even_unique) (use 3 in \<open>simp only: d1, simp\<close>)
    then show ?thesis using 3 by (simp add: round_even_def Let_def)
  qed
qed

lemma flt_minus: "flt (- x) = - flt x"
proof -
  have "round_even (- x / pow2 e) = - round_even (x / pow2 e)" for e
    using round_even_minus [of "x / pow2 e"] by simp
  then show ?thesis unfolding flt_def abs_minus_cancel by (simp split: option.split)
qed

lemma trunc_minus: "trunc (- x) = - trunc x"
  by (auto simp: trunc_def)

section \<open>The exponent\<close>

lemma pow2_neg: "pow2 (- int u) = 1 / 2 ^ u"
  by (simp add: pow2_def)

lemma pow2_mono:
  assumes "d \<le> e"
  shows "pow2 d \<le> pow2 e"
proof -
  have one: "(1 :: rat) \<le> 2 ^ n" for n :: nat by simp
  have "(2 :: rat) ^ m \<le> 2 ^ n" if "m \<le> n" for m n :: nat using that by (intro power_increasing) auto
  moreover have "1 / 2 ^ m \<le> 1 / (2 :: rat) ^ n" if "n \<le> m" for m n :: nat
    using that by (intro divide_left_mono power_increasing) auto
  moreover have "1 / 2 ^ m \<le> (2 :: rat) ^ n" for m n :: nat
  proof -
    have "1 / 2 ^ m \<le> (1 :: rat)" using one [of m] by (simp only: divide_le_eq_1) simp
    then show ?thesis using one [of n] by (rule order_trans)
  qed
  ultimately show ?thesis using assms by (auto simp: pow2_def)
qed

lemma find_first:
  assumes "a \<le> e" "e \<le> b" "p e" "\<And>d. d < e \<Longrightarrow> \<not> p d"
  shows "find p [a..b] = Some e"
proof -
  have "[a..b] = [a..e - 1] @ e # [e + 1..b]" using assms(1,2) by (rule upto_split3)
  moreover have "find p (xs @ e # ys) = Some e" if "\<forall>x \<in> set xs. \<not> p x" for xs ys
    using that assms(3) by (induction xs) auto
  ultimately show ?thesis using assms(4) by simp
qed

lemma flt_at:
  assumes "pow2 (e + 23) \<le> \<bar>x\<bar>" "\<bar>x\<bar> < pow2 (e + 24)" "- 149 \<le> e" "e \<le> 104"
  shows "flt x = of_int (round_even (x / pow2 e)) * pow2 e"
proof -
  have "\<not> \<bar>x\<bar> < pow2 (d + 24)" if "d < e" for d
    using assms(1) pow2_mono [of "d + 24" "e + 23"] that by linarith
  then have "find (\<lambda>e. \<bar>x\<bar> < pow2 (e + 24)) exponents = Some e"
    unfolding exponents_def using assms by (intro find_first) auto
  then show ?thesis by (simp add: flt_def)
qed

lemma flt_zero: "flt 0 = 0"
  by (auto simp: flt_def round_even_def pow2_def split: option.split)

lemma pow2_shift: "pow2 (int j - int u) = 2 ^ j / 2 ^ u"
proof (cases "u \<le> j")
  case True
  then show ?thesis by (simp add: pow2_def power_diff nat_diff_distrib)
next
  case False
  then show ?thesis by (simp add: pow2_def power_diff nat_diff_distrib)
qed

lemma flt_scaled:
  assumes "2 ^ (j + 23) \<le> a" "a < 2 ^ (j + 24)" "u \<le> 149" "j \<le> 100"
  shows "flt (a / 2 ^ u) = of_int (round_even (a / 2 ^ j)) * 2 ^ j / 2 ^ u"
proof -
  have "0 \<le> a" using assms(1) by (meson order_trans zero_le_numeral zero_le_power)
  then have a: "\<bar>a / 2 ^ u\<bar> = a / 2 ^ u" by simp
  have e: "int j - int u + 23 = int (j + 23) - int u" "int j - int u + 24 = int (j + 24) - int u" by simp_all
  have "flt (a / 2 ^ u) = of_int (round_even (a / 2 ^ u / pow2 (int j - int u))) * pow2 (int j - int u)"
  proof (rule flt_at)
    show "pow2 (int j - int u + 23) \<le> \<bar>a / 2 ^ u\<bar>"
      unfolding a e pow2_shift using assms(1) by (intro divide_right_mono) simp_all
    show "\<bar>a / 2 ^ u\<bar> < pow2 (int j - int u + 24)"
      unfolding a e pow2_shift using assms(2) by (intro divide_strict_right_mono) simp_all
  qed (use assms(3,4) in simp_all)
  then show ?thesis by (simp add: pow2_shift)
qed

lemma flt_scaled_int:
  assumes "2 ^ (j + 23) \<le> a" "a < 2 ^ (j + 24)" "u \<le> 149" "j \<le> 100"
  shows "flt (of_int a / 2 ^ u) = of_int (round_even (of_int a / 2 ^ j)) * 2 ^ j / 2 ^ u"
proof (rule flt_scaled)
  have "of_int (2 ^ (j + 23)) \<le> (of_int a :: rat)" using assms(1) by (simp only: of_int_le_iff)
  then show "2 ^ (j + 23) \<le> (of_int a :: rat)" by simp
  have "(of_int a :: rat) < of_int (2 ^ (j + 24))" using assms(2) by (simp only: of_int_less_iff)
  then show "(of_int a :: rat) < 2 ^ (j + 24)" by simp
qed (use assms in simp_all)

section \<open>Tenths\<close>

text \<open>
  A tenth of an integer below \<open>2 ^ 23\<close> gives the integer back when it is multiplied by ten.  The tenth is
  \<open>k / 2 ^ u\<close> with the error of half a unit, so that \<open>10 k\<close> is at most 5 away from \<open>n 2 ^ u\<close>; both are even, so it is
  at most 4, which is less than or just half of the last place of the product, and the integer is the even neighbour.
\<close>

lemma tenth_exponent:
  assumes "1 \<le> n" "n < (2 :: int) ^ 23"
  shows "\<exists>u. 4 \<le> u \<and> u \<le> 27 \<and> 10 * 2 ^ 23 \<le> n * 2 ^ u \<and> n * 2 ^ u < 10 * 2 ^ 24"
proof -
  let ?big = "\<lambda>u. 10 * 2 ^ 24 \<le> n * 2 ^ u"
  define m where "m = (LEAST u. ?big u)"
  have b: "?big 28" using assms(1) by simp
  have m: "?big m" unfolding m_def using b by (rule LeastI)
  have le: "m \<le> 28" unfolding m_def using b by (rule Least_le)
  have less: "\<not> ?big u" if "u < m" for u using that unfolding m_def by (rule not_less_Least)
  have four: "n * 2 ^ u < 10 * 2 ^ 24" if "u \<le> 4" for u
  proof -
    have "n * 2 ^ u \<le> n * 2 ^ 4" using assms(1) that by (intro mult_left_mono power_increasing) auto
    also have "\<dots> < 10 * 2 ^ 24" using assms(2) by simp
    finally show ?thesis .
  qed
  have big: "4 < m" using four [of m] m by linarith
  obtain u where u: "m = Suc u" using big by (cases m) auto
  have "10 * 2 ^ 23 \<le> n * 2 ^ u" using m u by simp
  moreover have "n * 2 ^ u < 10 * 2 ^ 24" using less [of u] u by simp
  ultimately show ?thesis using le big u by (intro exI [of _ u]) auto
qed

lemma even_close: "even d \<Longrightarrow> \<bar>d\<bar> \<le> 5 \<Longrightarrow> \<bar>d\<bar> \<le> (4 :: int)"
  by presburger

lemma tenth_back:
  assumes "0 \<le> n" "n < 2 ^ 23"
  shows "flt (flt (of_int n / 10) * 10) = of_int n"
proof (cases "n = 0")
  case True
  then show ?thesis by (simp add: flt_zero)
next
  case False
  then obtain u where u: "4 \<le> u" "u \<le> 27" "10 * 2 ^ 23 \<le> n * 2 ^ u" "n * 2 ^ u < 10 * 2 ^ 24"
    using tenth_exponent [of n] assms by auto
  define N where "N = n * 2 ^ (u - 4)"
  have nu: "n * 2 ^ u = 16 * N"
    using u(1) power_add [of "2 :: int" "u - 4" 4] by (simp add: N_def)
  have n: "of_int n = (16 * of_int N :: rat) / 2 ^ u"
    using arg_cong [OF nu, of "of_int :: int \<Rightarrow> rat"] by (simp add: field_simps)
  define k where "k = round_even (16 * of_int N / 10)"
  have N: "10 * 2 ^ 23 \<le> 16 * N" "16 * N < 10 * 2 ^ 24" using u(3,4) nu by simp_all
  have "flt (of_int n / 10) = flt ((16 * of_int N / 10) / 2 ^ u)" by (simp add: n)
  also have "\<dots> = of_int (round_even ((16 * of_int N / 10) / 2 ^ 0)) * 2 ^ 0 / 2 ^ u"
    using N u(2) by (intro flt_scaled) auto
  finally have t: "flt (of_int n / 10) * 10 = of_int (10 * k) / 2 ^ u" by (simp add: k_def)
  have "\<bar>of_int k - 16 * of_int N / (10 :: rat)\<bar> \<le> 1 / 2" unfolding k_def by (rule round_even_near)
  then have "- (1 / 2) \<le> of_int k - 16 * of_int N / (10 :: rat)" "of_int k - 16 * of_int N / (10 :: rat) \<le> 1 / 2"
    by (simp_all only: abs_le_iff) linarith+
  then have "- 5 \<le> (of_int (10 * k - 16 * N) :: rat)" "(of_int (10 * k - 16 * N) :: rat) \<le> 5"
    by (simp_all only: of_int_diff of_int_mult of_int_numeral)
  then have "\<bar>10 * k - 16 * N\<bar> \<le> 5" by linarith
  then have d: "\<bar>10 * k - 16 * N\<bar> \<le> 4" by (intro even_close) simp_all
  then have r: "- 4 \<le> of_int (10 * k) - 16 * (of_int N :: rat)" "of_int (10 * k) - 16 * (of_int N :: rat) \<le> 4"
    by linarith+
  show ?thesis
  proof (cases "10 * k < 2 ^ 27")
    case True
    have "flt (of_int (10 * k) / 2 ^ u) = of_int (round_even (of_int (10 * k) / 2 ^ 3)) * 2 ^ 3 / 2 ^ u"
      using True N(1) d u(2) by (intro flt_scaled_int) simp_all
    moreover have "round_even (of_int (10 * k) / 2 ^ 3) = 2 * N"
      using r by (intro round_even_unique) (auto simp: abs_if)
    ultimately show ?thesis unfolding t by (simp add: n)
  next
    case False
    have "flt (of_int (10 * k) / 2 ^ u) = of_int (round_even (of_int (10 * k) / 2 ^ 4)) * 2 ^ 4 / 2 ^ u"
      using False N(2) d u(2) by (intro flt_scaled_int) simp_all
    moreover have "round_even (of_int (10 * k) / 2 ^ 4) = N"
      using r by (intro round_even_unique) (auto simp: abs_if)
    ultimately show ?thesis unfolding t by (simp add: n)
  qed
qed

text \<open>Above \<open>2 ^ 23\<close> it may be one more.\<close>

lemma tenth_not_back: "trunc (flt (flt (12757827 / 10) * 10)) = 12757828"
proof -
  have "flt (12757827 / 10) = flt (10206261.6 * 2 ^ 0 / 2 ^ 3)" by simp
  also have "\<dots> = of_int (round_even 10206261.6) / 2 ^ 3" using flt_scaled [of 0 "10206261.6" 3] by simp
  also have "round_even 10206261.6 = 10206262" by (intro round_even_unique) simp
  finally have t: "flt (12757827 / 10) * 10 = 102062620 / 2 ^ 3" by simp
  have f: "flt (102062620 / 2 ^ 3) = of_int (round_even (102062620 / 2 ^ 3)) * 2 ^ 3 / 2 ^ 3"
    by (rule flt_scaled) simp_all
  have r: "round_even (102062620 / 2 ^ 3) = 12757828" by (intro round_even_unique) simp
  show ?thesis unfolding t f r by (simp add: trunc_def)
qed

lemma tenth_read:
  assumes "0 \<le> n" "n < 2 ^ 23"
  shows "trunc (flt (flt (of_int n / 10) * 10)) = n" "trunc (flt (flt (- of_int n / 10) * 10)) = - n"
  using tenth_back [OF assms] flt_minus [of "of_int n / 10"] flt_minus [of "flt (of_int n / 10) * 10"] by simp_all

end
