(* ===== verification/App_Param.thy ===== *)
theory App_Param
  imports App_PqB Net_Para Harm_Func Generic Floats
begin

text \<open>
  The parameter requests of the remote session (\<open>common/commu/protocol/app_prtcl_pq.cpp\<close>: \<open>set_para\<close>, \<open>set_syspar\<close>, \<open>tx_syspar\<close>,
  \<open>cvt_modify_handle\<close>, \<open>tx_real\<close>, the version and the firmware of the sampling board), which the command handler of \<open>App_PqB\<close> calls.
  The parameters live in the outside state: the structure \<open>SysPara\<close> as a record, the setters and getters of the configuration
  object (not in the repository) as a store indexed by their names, the scripts of the network as texts (\<open>Net_Para\<close>).
  The receive buffer is, as in \<open>App_Pq\<close>, a list of 2048 bytes indexed by constants.
\<close>

section \<open>State\<close>

text \<open>The fields of \<open>SysPara\<close> and of its part \<open>sys_para_sg\<close> that are read or written here.\<close>

record sys_par =
  cu_level :: int
  pt1 :: int
  pt2 :: int
  ct1 :: int
  ct2 :: int
  short_cap :: rat
  user_cap :: rat
  supp_cap :: rat
  warp_up :: rat
  warp_down :: rat
  vvr_limit :: "u16 list"
  transt_monitor :: u16
  unbalance_thr :: "u16 list"
  neg_sequence_Ithr :: u16
  tb_low_limit :: u16
  tb_high_limit :: u16
  transt_tb_enable :: u8
  transt_end_num :: u16
  sc_limit :: u16
  start_cur_en :: u8
  ivr_limit :: "u16 list"
  transt_i_monitor :: u16
  fluct_enable :: u16
  fluct_db :: u16
  harm_rcd_space :: u16
  freq_rcd_space :: u16
  unbalance_rcd_space :: u16
  voltdv_rcd_space :: u16
  hrm_save_type :: u8
  freq_save_type :: u8
  unbalance_save_type :: u8
  voltdv_save_type :: u8
  gps_pulse_type :: u8
  proof_time_intr :: "u16 list"
  b_time_intr :: u16
  cvt_modify_group :: u8
  cvt_modify_unit :: u8
  device_num :: u8
  baud_rate :: "int list"
  current_clamp_enable :: u8
  passwd :: u32
  device_sn :: "u8 list"

datatype cfg_key = Zero_thr int | Pst_enable | Save_wave_en | Harmrec_svmax | Harmrec_sven | Aggrgt_time_en | Uextrm
  | Fltrcpx | Hrtbt_61850 | Security_en | Time_diff | Gps_single_type | Timezone int | Connect_type | Comm_protocol int
  | Socket_server_port | Inter_enable | Inter_limit | Transt_rcd_time | Manual_rec_enable | Reset_hyst_time | Rcd_wv_fmt
  | Inharm_type | Cvt_modify_en | Cvt_modify int | Cclamp_para int

datatype update_flag = BaudrateUpdate | SocketPortIPUpdate | SerialPrtclUpdate | SocketPrtclUpdate | DaramUpdate

text \<open>The file of the firmware: whether \<open>fp\<close> is open, what was written, and the global flag that it is complete.\<close>

record firmware =
  fp_open :: bool
  fw_data :: "u8 list"
  updsp_syn :: int

record 'e param_env =
  penv :: "'e pq_env"
  sys :: "'e \<Rightarrow> sys_par"
  put_sys :: "sys_par \<Rightarrow> 'e \<Rightarrow> 'e"
  cfg :: "'e \<Rightarrow> cfg_key \<Rightarrow> int"
  set_cfg :: "cfg_key \<Rightarrow> int \<Rightarrow> 'e \<Rightarrow> 'e"
  set_update :: "update_flag \<Rightarrow> 'e \<Rightarrow> 'e"
  net_script :: "'e \<Rightarrow> string option"
  put_net_script :: "string option \<Rightarrow> 'e \<Rightarrow> 'e"
  ntp_script :: "'e \<Rightarrow> string option"
  put_ntp_script :: "string option \<Rightarrow> 'e \<Rightarrow> 'e"
  run_commands :: "string list \<Rightarrow> 'e \<Rightarrow> 'e"
  notice_trigger :: "'e \<Rightarrow> 'e"
  get_dcval_stat :: "'e \<Rightarrow> int"
  start_get_dc_val :: "'e \<Rightarrow> 'e"
  ee_param :: "u8 \<Rightarrow> 'e \<Rightarrow> u8 list"
  put_ee_param :: "u8 \<Rightarrow> u8 list \<Rightarrow> 'e \<Rightarrow> 'e"
  ee_update :: "int \<Rightarrow> 'e \<Rightarrow> 'e"
  read_real :: "'e \<Rightarrow> u8 list"
  pqmtype :: "'e \<Rightarrow> u8"
  dsp_ver :: "'e \<Rightarrow> u16"
  dsp_type :: "'e \<Rightarrow> u16"
  fw :: "'e \<Rightarrow> firmware"
  put_fw :: "firmware \<Rightarrow> 'e \<Rightarrow> 'e"
  get_dsp_update_state :: "'e \<Rightarrow> 'e"
  updsp_flag :: "'e \<Rightarrow> u8"
  set_updsp_flag :: "u8 \<Rightarrow> 'e \<Rightarrow> 'e"
  versions :: "u8 list"
  MAX_PT1 :: int
  MAX_PT2 :: int
  MAX_CT1 :: int
  MAX_CT2 :: int

definition upd :: "'e param_env \<Rightarrow> (sys_par \<Rightarrow> sys_par) \<Rightarrow> 'e app_pq \<Rightarrow> 'e app_pq" where
  "upd P f s = s\<lparr>world := put_sys P (f (sys P (world s))) (world s)\<rparr>"

definition setc :: "'e param_env \<Rightarrow> cfg_key \<Rightarrow> int \<Rightarrow> 'e app_pq \<Rightarrow> 'e app_pq" where
  "setc P k v s = s\<lparr>world := set_cfg P k v (world s)\<rparr>"

definition getc :: "'e param_env \<Rightarrow> 'e app_pq \<Rightarrow> cfg_key \<Rightarrow> int" where
  "getc P s = cfg P (world s)"

definition flag_update :: "'e param_env \<Rightarrow> update_flag \<Rightarrow> 'e app_pq \<Rightarrow> 'e app_pq" where
  "flag_update P u s = s\<lparr>world := set_update P u (world s)\<rparr>"

abbreviation setting :: "'e param_env \<Rightarrow> string \<Rightarrow> 'e app_pq \<Rightarrow> 'e app_pq" where
  "setting P detail s \<equiv> audit (penv P) ''setting'' detail 1 s"

text \<open>The bytes of an integer, and integers read from bytes: two (high first) and four (a 32-bit \<open>long\<close>).\<close>

definition hi_byte :: "int \<Rightarrow> u8" where "hi_byte k = word_of_int (k div 256)"

definition byte_at :: "u8 list \<Rightarrow> nat \<Rightarrow> int" where "byte_at b i = uint (b ! i)"

definition be2 :: "u8 list \<Rightarrow> nat \<Rightarrow> int" where "be2 b i = byte_at b i * 256 + byte_at b (i + 1)"

definition be3 :: "u8 list \<Rightarrow> nat \<Rightarrow> int" where "be3 b i = byte_at b i * 65536 + be2 b (i + 1)"

definition be4 :: "u8 list \<Rightarrow> nat \<Rightarrow> int" where "be4 b i = slong (byte_at b i * 16777216 + be3 b (i + 1))"

definition short_at :: "u8 list \<Rightarrow> nat \<Rightarrow> u16" where
  "short_at b i = ucast (b ! i) OR push_bit 8 (ucast (b ! (i + 1)))"

definition short_bytes :: "u16 \<Rightarrow> u8 list" where "short_bytes w = [ucast w, ucast (drop_bit 8 w)]"

definition one_at_most :: "u8 \<Rightarrow> u8" where "one_at_most b = (if b > 1 then 1 else b)"

section \<open>Single parameters: \<open>set_para\<close>\<close>

text \<open>
  Each command gets the receive buffer and returns it, as far as it answers in it, with the number of bytes that are sent; the
  first byte tells writing from reading.
\<close>

definition set_device_num :: "'e param_env \<Rightarrow> u8 list \<Rightarrow> 'e app_pq \<Rightarrow> u8 list \<times> 'e app_pq \<times> int" where
  "set_device_num P r s = (r, setting P ''CMD_SETDEVNUM'' (upd P (\<lambda>p. p\<lparr>device_num := r ! 0\<rparr>) s), 1)"

definition readjusted :: "u16 \<Rightarrow> int \<Rightarrow> int \<Rightarrow> u16" where
  "readjusted old k type = (if uint old \<noteq> k then word_of_int (AdjSaveSpc k type) else old)"

definition set_save_space :: "'e param_env \<Rightarrow> u8 list \<Rightarrow> int \<Rightarrow> 'e app_pq \<Rightarrow> u8 list \<times> 'e app_pq \<times> int" where
  "set_save_space P r rsz s =
     (let s = (if r ! 0 \<noteq> 0 then
          (let s = upd P (\<lambda>p. p\<lparr>harm_rcd_space := word_of_int (AdjSaveSpc (be2 r 1) 0)\<rparr>) (setting P ''CMD_SAVE_SPACE'' s)
           in if rsz \<ge> 9 then upd P (\<lambda>p. p\<lparr>freq_rcd_space := readjusted (freq_rcd_space p) (be2 r 3) 1,
                 unbalance_rcd_space := readjusted (unbalance_rcd_space p) (be2 r 5) 0,
                 voltdv_rcd_space := readjusted (voltdv_rcd_space p) (be2 r 7) 0\<rparr>) s
              else s)
        else s);
        p = sys P (world s)
      in (put_bytes 1 (be_bytes (harm_rcd_space p) @ be_bytes (freq_rcd_space p) @ be_bytes (unbalance_rcd_space p) @
            be_bytes (voltdv_rcd_space p)) r, s, 9))"

text \<open>The serial port 0 is RS-485; the rate of the other one is not changed.\<close>

definition set_baudrate :: "'e param_env \<Rightarrow> u8 list \<Rightarrow> 'e app_pq \<Rightarrow> u8 list \<times> 'e app_pq \<times> int" where
  "set_baudrate P r s =
     (let uli = byte_at r 0 + byte_at r 1 * 256 + byte_at r 2 * 65536 + byte_at r 3 * 16777216
      in (r, if r ! 4 = 0 then flag_update P BaudrateUpdate (upd P (\<lambda>p. p\<lparr>baud_rate := (baud_rate p)[0 := uli]\<rparr>) s) else s, 1))"

text \<open>
  Addresses.  \<open>junk\<close> are the four cells of \<open>aryi\<close> and \<open>k\<close>, neither initialised; the texts have 32 cells.
\<close>

definition write_address :: "'e param_env \<Rightarrow> u8 list \<Rightarrow> 'e app_pq \<Rightarrow> 'e app_pq option" where
  "write_address P r s =
     (let t = byte_at r 1; quad = dotted (map (\<lambda>i. unat (r ! i)) [2, 3, 4, 5]) in
      if t < 5 then do {
        f \<leftarrow> set_net_para t quad (net_script P (world s));
        let s = s\<lparr>world := put_net_script P f (world s)\<rparr>;
        cs \<leftarrow> apply_net_para (net_script P (world s));
        Some (flag_update P SocketPortIPUpdate (s\<lparr>world := run_commands P cs (world s)\<rparr>)) }
      else if t = 11 \<or> t = 12 then do {
        f \<leftarrow> set_ntp_para (t - 10) (if t = 11 then quad else dec (nat (be2 r 2))) (ntp_script P (world s));
        let s = s\<lparr>world := put_ntp_script P f (world s)\<rparr>;
        Some (s\<lparr>world := run_commands P [''. /boyuu/save/ntpclient.sh''] (world s)\<rparr>) }
      else if t = 10 then Some (flag_update P SocketPortIPUpdate (setc P Socket_server_port (be2 r 2) s))
      else Some s)"

definition read_address :: "'e param_env \<Rightarrow> int list \<times> int \<Rightarrow> u8 list \<Rightarrow> 'e app_pq \<Rightarrow> int list option" where
  "read_address P junk r s =
     (let t = byte_at r 1 in
      if t < 5 then do {
        v \<leftarrow> get_net_para t (net_script P (world s));
        if length v < 32 then Some (scan_quad v [0, 0, 0, 0]) else None }
      else if t = 11 \<or> t = 12 then do {
        v \<leftarrow> get_ntp_para (t - 10) (ntp_script P (world s));
        if length v < 32 then
          Some (if t = 11 then scan_quad v [0, 0, 0, 0]
                else (let k = (case scan_int v of None \<Rightarrow> snd junk | Some (k, _) \<Rightarrow> k) in [k div 256, k mod 256, 0, 0]))
        else None }
      else if t = 10 then (let k = getc P s Socket_server_port in Some [k div 256, k mod 256, fst junk ! 2, fst junk ! 3])
      else Some (fst junk))"

definition ip_addr :: "'e param_env \<Rightarrow> int list \<times> int \<Rightarrow> u8 list \<Rightarrow> 'e app_pq \<Rightarrow> (u8 list \<times> 'e app_pq \<times> int) option" where
  "ip_addr P junk r s = do {
     (s, a) \<leftarrow> (if r ! 0 \<noteq> 0 then do { s \<leftarrow> write_address P r s; Some (setting P ''CMD_IP_ADDR'' s, fst junk) }
                else do { a \<leftarrow> read_address P junk r s; Some (s, a) });
     Some (put_bytes 2 (map byte (take 4 a)) r, s, 6) }"

definition port_num :: "'e param_env \<Rightarrow> u8 list \<Rightarrow> 'e app_pq \<Rightarrow> u8 list \<times> 'e app_pq \<times> int" where
  "port_num P r s =
     (if r ! 0 \<noteq> 0 then (r, setting P ''CMD_PORT_NUM'' (flag_update P SocketPortIPUpdate (setc P Socket_server_port (be2 r 1) s)), 3)
      else (let k = getc P s Socket_server_port in (put_bytes 1 [hi_byte k, byte k] r, s, 3)))"

definition comm_protocols :: "'e param_env \<Rightarrow> u8 list \<Rightarrow> 'e app_pq \<Rightarrow> u8 list \<times> 'e app_pq \<times> int" where
  "comm_protocols P r s =
     (let s = (if r ! 0 \<noteq> 0 then
          setting P ''CMD_SET_PROTOCOL'' (flag_update P SocketPrtclUpdate (flag_update P SerialPrtclUpdate
            (setc P (Comm_protocol 1) (uint (one_at_most (r ! 2))) (setc P (Comm_protocol 0) (uint (one_at_most (r ! 1))) s))))
        else s)
      in (put_bytes 1 [byte (getc P s (Comm_protocol 0)), byte (getc P s (Comm_protocol 1))] r, s, 3))"

definition save_types :: "'e param_env \<Rightarrow> u8 list \<Rightarrow> 'e app_pq \<Rightarrow> u8 list \<times> 'e app_pq \<times> int" where
  "save_types P r s =
     (let s = (if r ! 0 \<noteq> 0 then
          setting P ''CMD_SAVE_TYPE'' (upd P (\<lambda>p. p\<lparr>hrm_save_type := one_at_most (r ! 1), freq_save_type := one_at_most (r ! 2),
            unbalance_save_type := one_at_most (r ! 3), voltdv_save_type := one_at_most (r ! 4)\<rparr>) s)
        else s);
        p = sys P (world s)
      in (put_bytes 1 [hrm_save_type p, freq_save_type p, unbalance_save_type p, voltdv_save_type p] r, s, 5))"

definition syshide_param :: "'e param_env \<Rightarrow> u8 list \<Rightarrow> 'e app_pq \<Rightarrow> u8 list \<times> 'e app_pq \<times> int" where
  "syshide_param P r s =
     (if r ! 0 \<noteq> 0 then
        (let s = setc P Save_wave_en (byte_at r 4) (setc P Pst_enable (byte_at r 3)
                   (setc P (Zero_thr 1) (byte_at r 2) (setc P (Zero_thr 0) (byte_at r 1) s)));
             s = (if be2 r 5 \<noteq> getc P s Harmrec_svmax
                  then (let s = setc P Harmrec_svmax (be2 r 5) s in s\<lparr>world := notice_trigger P (world s)\<rparr>) else s);
             s = setc P Fltrcpx (byte_at r 10) (setc P Uextrm (byte_at r 9) (setc P Aggrgt_time_en (byte_at r 8)
                   (setc P Harmrec_sven (byte_at r 7) s)));
             s = setc P Time_diff (byte_at r 13) (setc P Security_en (byte_at r 12)
                   (setc P Hrtbt_61850 (if r ! 11 = 0 then 0 else 0x79) s))
         in (r, setting P ''CMD_SYSHIDE_PARAM'' s, 14))
      else
        (put_bytes 1 (map byte [getc P s (Zero_thr 0), getc P s (Zero_thr 1), getc P s Pst_enable, getc P s Save_wave_en,
            getc P s Harmrec_svmax div 256, getc P s Harmrec_svmax, getc P s Harmrec_sven, getc P s Aggrgt_time_en,
            getc P s Uextrm, getc P s Fltrcpx, if getc P s Hrtbt_61850 = 0x79 then 1 else 0, getc P s Security_en,
            getc P s Time_diff]) r, s, 14))"

definition timesyn_param :: "'e param_env \<Rightarrow> u8 list \<Rightarrow> 'e app_pq \<Rightarrow> u8 list \<times> 'e app_pq \<times> int" where
  "timesyn_param P r s =
     (if r ! 0 \<noteq> 0 then
        (let s = upd P (\<lambda>p. p\<lparr>gps_pulse_type := r ! 2,
                     proof_time_intr := (proof_time_intr p)[0 := be16 r 3, 1 := be16 r 5], b_time_intr := be16 r 7\<rparr>)
                   (setc P Gps_single_type (byte_at r 1) s);
             s = setc P (Timezone 1) (byte_at r 10) (setc P (Timezone 0) (byte_at r 9) s)
         in (r, setting P ''CMD_TIMESYN_PARAM'' s, 11))
      else
        (let p = sys P (world s)
         in (put_bytes 1 ([byte (getc P s Gps_single_type), gps_pulse_type p] @ be_bytes (proof_time_intr p ! 0) @
               be_bytes (proof_time_intr p ! 1) @ be_bytes (b_time_intr p) @
               [byte (getc P s (Timezone 0)), byte (getc P s (Timezone 1))]) r, s, 11)))"

definition connection :: "'e param_env \<Rightarrow> u8 list \<Rightarrow> 'e app_pq \<Rightarrow> u8 list \<times> 'e app_pq \<times> int" where
  "connection P r s =
     (if r ! 0 \<noteq> 0 then (r, setting P ''CMD_CONNECTION'' (flag_update P DaramUpdate (setc P Connect_type (byte_at r 1) s)), 2)
      else (put_bytes 1 [byte (getc P s Connect_type)] r, s, 2))"

definition dc_component :: "'e param_env \<Rightarrow> u8 list \<Rightarrow> 'e app_pq \<Rightarrow> u8 list \<times> 'e app_pq \<times> int" where
  "dc_component P r s =
     (let k = get_dcval_stat P (world s);
          s = (if k = 0 then s\<lparr>world := start_get_dc_val P (world s)\<rparr> else s)
      in (put_bytes 0 [byte k] r, setting P ''CMD_DC_COMPONENT'' s, 1))"

text \<open>The parameters of the early warning are blocks of memory, copied as they are; those of two commands go to the sampling board, too.\<close>

definition eew_block :: "'e param_env \<Rightarrow> u8 \<Rightarrow> u8 list \<Rightarrow> 'e app_pq \<Rightarrow> (u8 list \<times> 'e app_pq \<times> int) option" where
  "eew_block P c r s =
     (let n = length (ee_param P c (world s)) in
      if n \<le> 2027 then
        (if r ! 0 \<noteq> 0 then
           (let w = put_ee_param P c (take n (drop 1 r)) (world s)
            in Some (r, s\<lparr>world := ee_update P (if c = 44 \<or> c = 45 then 3 else 1) w\<rparr>, int n + 1))
         else Some (put_bytes 1 (ee_param P c (world s)) r, s, int n + 1))
      else None)"

definition para_cmd :: "'e param_env \<Rightarrow> int list \<times> int \<Rightarrow> int \<Rightarrow> u8 \<Rightarrow> u8 list \<Rightarrow> 'e app_pq \<Rightarrow>
    (u8 list \<times> 'e app_pq \<times> int) option" where
  "para_cmd P junk rsz c r s =
     (if c = 19 then Some (set_device_num P r s)
      else if c = 21 then Some (set_save_space P r rsz s)
      else if c = 20 then Some (set_baudrate P r s)
      else if c = 22 then ip_addr P junk r s
      else if c = 23 then Some (port_num P r s)
      else if c = 25 then Some (comm_protocols P r s)
      else if c = 29 then Some (save_types P r s)
      else if c = 49 then Some (syshide_param P r s)
      else if c = 50 then Some (timesyn_param P r s)
      else if c = 37 then Some (connection P r s)
      else if c = 52 then Some (dc_component P r s)
      else if c = 43 \<or> c = 44 \<or> c = 45 \<or> c = 47 then eew_block P c r s
      else Some (r, s, 1))"

text \<open>What is answered is copied from the receive buffer.\<close>

definition set_para :: "'e param_env \<Rightarrow> int list \<times> int \<Rightarrow> int \<Rightarrow> u8 \<Rightarrow> u8 list \<Rightarrow> 'e app_pq \<Rightarrow>
    (u8 list \<times> 'e app_pq \<times> int) option" where
  "set_para P junk rsz c r s =
     map_option (\<lambda>(r, s, n). (r, put_body (take (nat n) r) s, n)) (para_cmd P junk rsz c r s)"

section \<open>The system parameters: \<open>set_syspar\<close> and \<open>tx_syspar\<close>\<close>

text \<open>A ratio is cut to its maximum and ignored when it is not positive.\<close>

definition limited :: "int \<Rightarrow> int \<Rightarrow> int \<Rightarrow> int" where
  "limited mx li old = (let li = (if li > mx then mx else li) in if li > 0 then li else old)"

text \<open>
  The line: level, ratios and capacities.  With a current clamp the ratio of the currents stays; the capacities and the limits of
  the voltage are tenths, \<open>float\<close> numbers that are rounded (\<open>Floats\<close>).
\<close>

definition set_ratios :: "'e param_env \<Rightarrow> u8 list \<Rightarrow> 'e app_pq \<Rightarrow> 'e app_pq" where
  "set_ratios P r s =
     (let clamp = current_clamp_enable (sys P (world s)) \<noteq> 0;
          s = upd P (\<lambda>p. p\<lparr>cu_level := byte_at r 0, pt1 := limited (MAX_PT1 P) (be4 r 1) (pt1 p),
                pt2 := limited (MAX_PT2 P) (be2 r 5) (pt2 p)\<rparr>) s;
          li = (if be2 r 7 > MAX_CT1 P then MAX_CT1 P else be2 r 7);
          s = (if li > 0 \<and> \<not> clamp then setc P (Cclamp_para 3) li (upd P (\<lambda>p. p\<lparr>ct1 := li\<rparr>) s) else s)
      in if r ! 9 \<noteq> 0xff \<and> r ! 9 > 0 \<and> \<not> clamp then upd P (\<lambda>p. p\<lparr>ct2 := byte_at r 9\<rparr>) s else s)"

definition set_capacities :: "'e param_env \<Rightarrow> u8 list \<Rightarrow> 'e app_pq \<Rightarrow> 'e app_pq" where
  "set_capacities P r = upd P (\<lambda>p. p\<lparr>short_cap := flt (of_int (be3 r 10) / 10), user_cap := flt (of_int (be3 r 13) / 10),
     supp_cap := flt (of_int (be3 r 16) / 10), warp_up := flt (of_int (be2 r 19) / 10), warp_down := flt (- of_int (be2 r 21) / 10)\<rparr>)"

definition clip :: "u16 \<Rightarrow> u16 \<Rightarrow> u16 \<Rightarrow> u16" where
  "clip l u w = (if w < l then l else if w > u then u else w)"

definition set_events :: "'e param_env \<Rightarrow> u8 list \<Rightarrow> 'e app_pq \<Rightarrow> 'e app_pq" where
  "set_events P r s =
     (let s = upd P (\<lambda>p. p\<lparr>vvr_limit := (vvr_limit p)[1 := clip 0 1000 (short_at r 23), 0 := clip 1000 9999 (short_at r 25)],
                transt_monitor := ucast (r ! 27)\<rparr>) s;
          s = setc P Inter_limit (uint (short_at r 29)) (setc P Inter_enable (byte_at r 28) s);
          s = upd P (\<lambda>p. p\<lparr>unbalance_thr := (unbalance_thr p)[0 := be16 r 31, 1 := be16 r 33], neg_sequence_Ithr := be16 r 35,
                tb_low_limit := be16 r 37, tb_high_limit := be16 r 39, transt_tb_enable := r ! 41 AND 7,
                transt_end_num := (be16 r 42 div 5) * 5\<rparr>) s
      in setc P Manual_rec_enable (uint (r ! 46 AND 1)) (setc P Transt_rcd_time (uint (clip 2 60 (be16 r 44))) s))"

text \<open>A second ratio of the currents from 255 on comes later in the request (and is then set with a clamp, too).\<close>

definition set_ratio_ext :: "'e param_env \<Rightarrow> u8 list \<Rightarrow> 'e app_pq \<Rightarrow> 'e app_pq" where
  "set_ratio_ext P r s =
     (let usi = (if be2 r 47 > MAX_CT2 P then MAX_CT2 P else be2 r 47);
          s = (if r ! 9 = 0xff \<and> usi > 0 then upd P (\<lambda>p. p\<lparr>ct2 := usi\<rparr>) s else s)
      in if be2 r 49 > 0 then setc P Reset_hyst_time (be2 r 49) s else s)"

definition set_currents :: "'e param_env \<Rightarrow> u8 list \<Rightarrow> 'e app_pq \<Rightarrow> 'e app_pq" where
  "set_currents P r s =
     (let s = upd P (\<lambda>p. p\<lparr>vvr_limit := (vvr_limit p)[2 := clip 0 1000 (be16 r 51)], sc_limit := be16 r 53,
                start_cur_en := r ! 55, ivr_limit := (ivr_limit p)[1 := be16 r 56, 0 := be16 r 58],
                transt_i_monitor := ucast (r ! 60)\<rparr>) s;
          s = setc P Rcd_wv_fmt (byte_at r 61) s;
          s = upd P (\<lambda>p. p\<lparr>fluct_enable := ucast (r ! 62), fluct_db := be16 r 63\<rparr>) s
      in setc P Inharm_type (byte_at r 65) s)"

definition set_syspar :: "'e param_env \<Rightarrow> u8 list \<Rightarrow> int \<Rightarrow> 'e app_pq \<Rightarrow> 'e app_pq \<times> int" where
  "set_syspar P r rsz s =
     (let s = set_ratio_ext P r (set_events P r (set_capacities P r (set_ratios P r s)));
          s = (if rsz > 60 then set_currents P r s else s)
      in (setting P ''CMD_WTSET'' (put_body [r ! 0] (flag_update P DaramUpdate s)), 1))"

definition bytes2 :: "int \<Rightarrow> u8 list" where "bytes2 k = [byte (k div 256), byte k]"

definition bytes3 :: "int \<Rightarrow> u8 list" where "bytes3 k = byte (k div 65536) # bytes2 k"

definition bytes4 :: "int \<Rightarrow> u8 list" where "bytes4 k = byte (k div 16777216) # bytes3 k"

definition line_bytes :: "sys_par \<Rightarrow> u8 list" where
  "line_bytes p = [byte (cu_level p + 1)] @ bytes4 (pt1 p) @ bytes2 (pt2 p) @ bytes2 (ct1 p) @
     [if ct2 p \<ge> 255 then 0xff else byte (ct2 p)] @ bytes3 (trunc (flt (short_cap p * 10))) @ bytes3 (trunc (flt (user_cap p * 10))) @
     bytes3 (trunc (flt (supp_cap p * 10))) @ bytes2 (trunc (flt (warp_up p * 10))) @ bytes2 (- trunc (flt (warp_down p * 10)))"

definition event_bytes :: "sys_par \<Rightarrow> (cfg_key \<Rightarrow> int) \<Rightarrow> u8 list" where
  "event_bytes p c = short_bytes (vvr_limit p ! 1) @ short_bytes (vvr_limit p ! 0) @ [ucast (transt_monitor p), byte (c Inter_enable)] @
     short_bytes (word_of_int (c Inter_limit)) @ be_bytes (unbalance_thr p ! 0) @ be_bytes (unbalance_thr p ! 1) @
     be_bytes (neg_sequence_Ithr p) @ be_bytes (tb_low_limit p) @ be_bytes (tb_high_limit p) @ [transt_tb_enable p] @
     be_bytes (transt_end_num p) @ bytes2 (c Transt_rcd_time) @ [byte (c Manual_rec_enable)] @
     (if ct2 p \<ge> 255 then bytes2 (ct2 p) else [0, 0]) @ bytes2 (c Reset_hyst_time)"

definition current_bytes :: "sys_par \<Rightarrow> (cfg_key \<Rightarrow> int) \<Rightarrow> u8 list" where
  "current_bytes p c = be_bytes (vvr_limit p ! 2) @ be_bytes (sc_limit p) @ [start_cur_en p] @ be_bytes (ivr_limit p ! 1) @
     be_bytes (ivr_limit p ! 0) @ [ucast (transt_i_monitor p), byte (c Rcd_wv_fmt), ucast (fluct_enable p)] @
     be_bytes (fluct_db p) @ [byte (c Inharm_type)]"

definition passwd_bytes :: "u32 \<Rightarrow> u8 list" where
  "passwd_bytes w = [ucast (drop_bit 24 w), ucast (drop_bit 16 w), ucast (drop_bit 8 w), ucast w]"

definition tx_syspar :: "'e param_env \<Rightarrow> 'e app_pq \<Rightarrow> 'e app_pq \<times> int" where
  "tx_syspar P s =
     (let p = sys P (world s); c = getc P s;
          vs = line_bytes p @ passwd_bytes (passwd p) @ event_bytes p c @ current_bytes p c
      in (put_body vs s, int (length vs)))"

section \<open>Correction factors, readings, versions\<close>

definition cvt_modify_handle :: "'e param_env \<Rightarrow> u8 list \<Rightarrow> 'e app_pq \<Rightarrow> 'e app_pq \<times> int" where
  "cvt_modify_handle P r s =
     (let s = put_body [r ! 0] s in
      if r ! 0 \<noteq> 0 then
        (let s = setc P Cvt_modify_en (byte_at r 3) (upd P (\<lambda>p. p\<lparr>cvt_modify_group := r ! 1, cvt_modify_unit := r ! 2\<rparr>) s);
             s = fold (\<lambda>i. setc P (Cvt_modify (int i)) (be2 r (4 + 2 * i))) [0..<49] s
         in (setting P ''CMD_CVT_MODIFY'' s, 1))
      else
        (let p = sys P (world s);
             vs = [cvt_modify_group p, cvt_modify_unit p, byte (getc P s Cvt_modify_en)] @
               concat (map (\<lambda>i. bytes2 (getc P s (Cvt_modify (int i)))) [0..<49])
         in (s\<lparr>m_tx_buffer := put_bytes (kDataHdSz + 1) vs (m_tx_buffer s)\<rparr>, int (kDataHdSz + 1 + length vs))))"

text \<open>The readings, with type and version of the device put in; the four phases behind byte 1040 are looked at for a message.\<close>

definition tx_real :: "'e param_env \<Rightarrow> u8 list \<Rightarrow> 'e app_pq \<Rightarrow> ('e app_pq \<times> int) option" where
  "tx_real P heap s =
     (let t = read_real P (world s); b = take kDataHdSz heap @ t in
      if length t < 1048 then None
      else Some (s\<lparr>ptx_bufd := Some (b[kDataHdSz + 634 := pqmtype P (world s), kDataHdSz + 639 := 0])\<rparr>, int (length t)))"

definition tx_smp_ver :: "'e param_env \<Rightarrow> u8 list \<Rightarrow> 'e app_pq \<Rightarrow> 'e app_pq \<times> int" where
  "tx_smp_ver P r s =
     (if r ! 0 = 173 then (s, 1)
      else (let v = dsp_ver P (world s)
            in (put_body ([pqmtype P (world s)] @ device_sn (sys P (world s)) @
                  [ucast (drop_bit 12 v), ucast (drop_bit 6 (v AND 0x0fc0)), ucast (v AND 0x3f)] @ versions P @
                  short_bytes (dsp_type P (world s))) s, 32)))"

section \<open>The firmware of the sampling board\<close>

text \<open>
  A package has the number of packages, its own number and its length, each a \<open>short\<close>, and the data.  The first one creates
  the file; the answer is 1 for a package with a number up to that of the last one, which closes the file.
\<close>

definition fw_package :: "u8 list \<Rightarrow> firmware \<Rightarrow> (firmware \<times> u8) option" where
  "fw_package r f =
     (let total = short_at r 0; num = short_at r 2; n = short_at r 4;
          f = (if num = 1 then f\<lparr>fp_open := True, fw_data := []\<rparr> else f) in
      if num \<le> total then
        (if fp_open f then do {
           d \<leftarrow> aslice r 6 (uint n);
           let f = f\<lparr>fw_data := fw_data f @ d\<rparr>;
           Some (if num = total then f\<lparr>fp_open := False, updsp_syn := 1\<rparr> else f, 1) }
         else None)
      else Some (f, 0))"

definition tx_smp_data :: "'e param_env \<Rightarrow> u8 list \<Rightarrow> 'e app_pq \<Rightarrow> ('e app_pq \<times> int) option" where
  "tx_smp_data P r s =
     map_option (\<lambda>(f, a). (put_body [a] (s\<lparr>world := put_fw P f (world s)\<rparr>), 1)) (fw_package r (fw P (world s)))"

definition tx_smp_suc :: "'e param_env \<Rightarrow> 'e app_pq \<Rightarrow> 'e app_pq \<times> int" where
  "tx_smp_suc P s =
     (let s = (if updsp_syn (fw P (world s)) = 0 then s\<lparr>world := get_dsp_update_state P (world s)\<rparr> else s);
          k = updsp_flag P (world s);
          s = (if k = 1 then audit (penv P) ''app'' ''Update dsp firmware'' 1 s
               else if k > 2 then audit (penv P) ''app'' ''Update dsp firmware'' 2 s else s);
          s = (if k \<noteq> 2 then s\<lparr>world := set_updsp_flag P 2 (world s)\<rparr> else s)
      in (put_body [k] s, 1))"

section \<open>As handlers of the command switch\<close>

text \<open>The calls of \<open>App_PqB\<close> that are modelled here; \<open>rest\<close> are the others.\<close>

definition param_call :: "'e param_env \<Rightarrow> int list \<times> int \<Rightarrow> u8 list \<Rightarrow>
    (pq_call \<Rightarrow> u8 list \<Rightarrow> u16 \<Rightarrow> u8 \<Rightarrow> 'e app_pq \<Rightarrow> (u8 list \<times> 'e app_pq \<times> int) option) \<Rightarrow>
    pq_call \<Rightarrow> u8 list \<Rightarrow> u16 \<Rightarrow> u8 \<Rightarrow> 'e app_pq \<Rightarrow> (u8 list \<times> 'e app_pq \<times> int) option" where
  "param_call P junk heap rest k r n c s =
     (case k of
        Set_para \<Rightarrow> set_para P junk (uint n) c r s
      | Set_syspar \<Rightarrow> Some (r, set_syspar P r (uint n) s)
      | Tx_syspar \<Rightarrow> Some (r, tx_syspar P s)
      | Cvt_modify_handle \<Rightarrow> Some (r, cvt_modify_handle P r s)
      | Tx_real \<Rightarrow> map_option (Pair r) (tx_real P heap s)
      | Tx_smp_ver \<Rightarrow> Some (r, tx_smp_ver P r s)
      | Tx_smp_data \<Rightarrow> map_option (Pair r) (tx_smp_data P r s)
      | Tx_smp_suc \<Rightarrow> Some (r, tx_smp_suc P s)
      | _ \<Rightarrow> rest k r n c s)"

section \<open>Lemmas\<close>

text \<open>
  The fields of the structure and the values of the configuration object are stored independently of each other; the flags
  for the update and the audit log are none of them.
\<close>

definition store_laws :: "'e param_env \<Rightarrow> bool" where
  "store_laws P \<longleftrightarrow>
     (\<forall>p w. sys P (put_sys P p w) = p \<and> cfg P (put_sys P p w) = cfg P w) \<and>
     (\<forall>k v w. sys P (set_cfg P k v w) = sys P w \<and> cfg P (set_cfg P k v w) = (cfg P w)(k := v)) \<and>
     (\<forall>u w. sys P (set_update P u w) = sys P w \<and> cfg P (set_update P u w) = cfg P w) \<and>
     (\<forall>a n d k w. sys P (SetAudit (penv P) a n d k w) = sys P w \<and> cfg P (SetAudit (penv P) a n d k w) = cfg P w)"

lemma store_simps:
  assumes "store_laws P"
  shows "sys P (world (upd P f s)) = f (sys P (world s))" "getc P (upd P f s) = getc P s"
    "sys P (world (setc P k v s)) = sys P (world s)" "getc P (setc P k v s) = (getc P s)(k := v)"
    "sys P (world (flag_update P u s)) = sys P (world s)" "getc P (flag_update P u s) = getc P s"
    "sys P (world (audit (penv P) a d n s)) = sys P (world s)" "getc P (audit (penv P) a d n s) = getc P s"
    "sys P (world (put_body vs s)) = sys P (world s)" "getc P (put_body vs s) = getc P s"
  using assms by (simp_all add: store_laws_def upd_def setc_def getc_def flag_update_def audit_def)

lemma byte_byte_at [simp]: "byte (byte_at r i) = r ! i"
  by (simp add: byte_def byte_at_def)

lemma byte_at_range: "0 \<le> byte_at r i" "byte_at r i < 256"
  using uint_lt2p [of "r ! i"] by (simp_all add: byte_at_def)

lemma byte_low: "byte (256 * a + b) = byte b"
  unfolding byte_def by transfer (simp add: take_bit_eq_mod)

text \<open>The bytes of a number that is put together from four.\<close>

lemma put_together:
  fixes a b c d :: int
  assumes "0 \<le> b" "b < 256" "0 \<le> c" "c < 256" "0 \<le> d" "d < 256"
  shows "(256 * c + d) div 256 = c" "(65536 * b + 256 * c + d) div 256 = 256 * b + c" "(65536 * b + 256 * c + d) div 65536 = b"
    "(16777216 * a + 65536 * b + 256 * c + d) div 256 = 65536 * a + 256 * b + c"
    "(16777216 * a + 65536 * b + 256 * c + d) div 65536 = 256 * a + b"
    "(16777216 * a + 65536 * b + 256 * c + d) div 16777216 = a"
    "byte (65536 * b + 256 * c + d) = byte d" "byte (16777216 * a + 65536 * b + 256 * c + d) = byte d"
    "byte (65536 * a + 256 * b + c) = byte c"
proof -
  show "(256 * c + d) div 256 = c" using assms by simp
  show "(65536 * b + 256 * c + d) div 256 = 256 * b + c"
    by (rule int_div_pos_eq [of _ _ _ d]) (use assms in simp_all)
  show "(65536 * b + 256 * c + d) div 65536 = b"
    by (rule int_div_pos_eq [of _ _ _ "256 * c + d"]) (use assms in simp_all)
  show "(16777216 * a + 65536 * b + 256 * c + d) div 256 = 65536 * a + 256 * b + c"
    by (rule int_div_pos_eq [of _ _ _ d]) (use assms in simp_all)
  show "(16777216 * a + 65536 * b + 256 * c + d) div 65536 = 256 * a + b"
    by (rule int_div_pos_eq [of _ _ _ "256 * c + d"]) (use assms in simp_all)
  show "(16777216 * a + 65536 * b + 256 * c + d) div 16777216 = a"
    by (rule int_div_pos_eq [of _ _ _ "65536 * b + 256 * c + d"]) (use assms in simp_all)
  show "byte (65536 * b + 256 * c + d) = byte d" using byte_low [of "256 * b + c" d] by (simp add: algebra_simps)
  show "byte (16777216 * a + 65536 * b + 256 * c + d) = byte d"
    using byte_low [of "65536 * a + 256 * b + c" d] by (simp add: algebra_simps)
  show "byte (65536 * a + 256 * b + c) = byte c" using byte_low [of "256 * a + b" c] by (simp add: algebra_simps)
qed

lemma bytes2_be2 [simp]: "bytes2 (be2 r i) = [r ! i, r ! (i + 1)]"
proof -
  have "be2 r i = 256 * byte_at r i + byte_at r (i + 1)" by (simp add: be2_def)
  then show ?thesis using put_together(1) [OF byte_at_range byte_at_range byte_at_range] byte_low by (simp add: bytes2_def)
qed

lemma bytes3_be3 [simp]: "bytes3 (be3 r i) = [r ! i, r ! (i + 1), r ! (i + 2)]"
proof -
  have e: "be3 r i = 65536 * byte_at r i + 256 * byte_at r (i + 1) + byte_at r (i + 2)" by (simp add: be3_def be2_def)
  note p = put_together [OF byte_at_range byte_at_range byte_at_range]
  show ?thesis unfolding bytes3_def bytes2_def e p(2,3,7) using byte_low by simp
qed

lemma bytes4_be4: "0 \<le> be4 r i \<Longrightarrow> bytes4 (be4 r i) = [r ! i, r ! (i + 1), r ! (i + 2), r ! (i + 3)]"
proof -
  assume p: "0 \<le> be4 r i"
  let ?n = "16777216 * byte_at r i + 65536 * byte_at r (i + 1) + 256 * byte_at r (i + 2) + byte_at r (i + 3)"
  have b: "byte_at r i * 16777216 + be3 r (i + 1) = ?n" by (simp add: be3_def be2_def eval_nat_numeral)
  have n: "0 \<le> ?n" "?n < 4294967296"
    using byte_at_range [of r i] byte_at_range [of r "i + 1"] byte_at_range [of r "i + 2"] byte_at_range [of r "i + 3"]
    by linarith+
  have "be4 r i = ?n"
  proof (cases "?n < 2 ^ 31")
    case True
    then have "(?n + 2 ^ 31) mod 2 ^ 32 = ?n + 2 ^ 31" using n by (intro mod_pos_pos_trivial) simp_all
    then show ?thesis unfolding be4_def slong_def b by simp
  next
    case False
    then have "(?n + 2 ^ 31) mod 2 ^ 32 < 2 ^ 31"
      using n by (subst mod_pos_geq) simp_all
    then show ?thesis using p unfolding be4_def slong_def b by simp
  qed
  note e = this
  note q = put_together(4-6,8) [of _ _ _ "byte_at r i", OF byte_at_range byte_at_range byte_at_range]
  have "byte (65536 * byte_at r i + 256 * byte_at r (i + 1) + byte_at r (i + 2)) = r ! (i + 2)"
    using put_together(9) [of "byte_at r (i + 1)" "byte_at r (i + 2)" 0 "byte_at r i"] byte_at_range by simp
  then show ?thesis unfolding bytes4_def bytes3_def bytes2_def e q using byte_low by simp
qed

lemma short_bytes_at [simp]: "short_bytes (short_at r i) = [r ! i, r ! (i + 1)]"
proof -
  have "ucast (ucast a OR push_bit 8 (ucast b) :: u16) = (a :: u8)"
    "ucast (drop_bit 8 (ucast a OR push_bit 8 (ucast b) :: u16)) = b" for a b :: u8
    by (rule bit_word_eqI; auto simp: bit_simps dest: bit_imp_le_length)+
  then show ?thesis by (simp add: short_bytes_def short_at_def)
qed

lemma ucast_up_down [simp]: "ucast (ucast b :: u16) = (b :: u8)"
  by (rule bit_word_eqI) (auto simp: bit_simps dest: bit_imp_le_length)

lemma bytes2_uint [simp]: "bytes2 (uint w) = be_bytes (w :: u16)"
proof -
  have "uint (drop_bit 8 w) = uint w div 256" by (simp add: uint_div_distrib drop_bit_eq_div uint_div)
  then have "byte (uint w div 256) = ucast (drop_bit 8 w)" by (simp only: byte_def ucast_eq)
  moreover have "byte (uint w) = ucast w" by (simp only: byte_def ucast_eq)
  ultimately show ?thesis by (simp only: bytes2_def be_bytes_def)
qed

lemma be_bytes_at [simp]: "be_bytes (be16 r i) = [r ! i, r ! (i + 1)]"
  by (rule be_bytes_be16)

lemma and_small: "(b :: u8) \<le> 7 \<Longrightarrow> b AND 7 = b" "(b :: u8) \<le> 1 \<Longrightarrow> b AND 1 = b"
proof -
  have m: "(7 :: u8) = mask 3" "(1 :: u8) = mask 1" by (simp_all add: mask_eq_exp_minus_1)
  have t: "take_bit n b = b" if "uint b < 2 ^ n" for n
    using that by (simp add: word_uint_eq_iff unsigned_take_bit_eq take_bit_int_eq_self)
  show "b \<le> 7 \<Longrightarrow> b AND 7 = b" unfolding m(1) take_bit_eq_mask [symmetric]
    using t [of 3] by (simp add: mask_eq_exp_minus_1 word_le_def)
  show "b \<le> 1 \<Longrightarrow> b AND 1 = b" unfolding m(2) take_bit_eq_mask [symmetric]
    using t [of 1] by (simp add: mask_eq_exp_minus_1 word_le_def)
qed

text \<open>
  A request whose values need no correction, on a line without current clamp; the capacities are below \<open>2 ^ 23\<close> tenths, from
  where on a \<open>float\<close> need not give them back (\<open>tenth_not_back\<close>).
\<close>

definition in_range :: "'e param_env \<Rightarrow> u8 list \<Rightarrow> bool" where
  "in_range P r \<longleftrightarrow>
     0 < be4 r 1 \<and> be4 r 1 \<le> MAX_PT1 P \<and> 0 < be2 r 5 \<and> be2 r 5 \<le> MAX_PT2 P \<and> 0 < be2 r 7 \<and> be2 r 7 \<le> MAX_CT1 P \<and>
     0 < r ! 9 \<and> r ! 9 < 255 \<and> be3 r 10 < 2 ^ 23 \<and> be3 r 13 < 2 ^ 23 \<and> be3 r 16 < 2 ^ 23 \<and> short_at r 23 \<le> 1000 \<and> 1000 \<le> short_at r 25 \<and> short_at r 25 \<le> 9999 \<and>
     r ! 41 \<le> 7 \<and> be16 r 42 div 5 * 5 = be16 r 42 \<and> 2 \<le> be16 r 44 \<and> be16 r 44 \<le> 60 \<and> r ! 46 \<le> 1 \<and>
     r ! 47 = 0 \<and> r ! 48 = 0 \<and> 0 < be2 r 49 \<and> be16 r 51 \<le> 1000"

lemma clip_inside: "l \<le> w \<Longrightarrow> w \<le> u \<Longrightarrow> clip l u w = w"
  by (auto simp: clip_def)

lemma in_range_byte9: "in_range P r \<Longrightarrow> r ! 9 \<noteq> 0xff \<and> 0 < r ! 9"
  by (auto simp: in_range_def)

lemma ratios_set:
  assumes "store_laws P" "in_range P r" "current_clamp_enable (sys P (world s)) = 0"
  shows "sys P (world (set_ratios P r s)) = (sys P (world s))\<lparr>cu_level := byte_at r 0, pt1 := be4 r 1, pt2 := be2 r 5,
      ct1 := be2 r 7, ct2 := byte_at r 9\<rparr>"
    "getc P (set_ratios P r s) = (getc P s)(Cclamp_para 3 := be2 r 7)"
  using assms(2,3) in_range_byte9 [OF assms(2)] by (simp_all add: set_ratios_def in_range_def limited_def store_simps [OF assms(1)] Let_def)

lemma events_set:
  assumes "store_laws P" "in_range P r"
  shows "sys P (world (set_events P r s)) = (sys P (world s))\<lparr>
      vvr_limit := (vvr_limit (sys P (world s)))[1 := short_at r 23, 0 := short_at r 25], transt_monitor := ucast (r ! 27),
      unbalance_thr := (unbalance_thr (sys P (world s)))[0 := be16 r 31, 1 := be16 r 33], neg_sequence_Ithr := be16 r 35,
      tb_low_limit := be16 r 37, tb_high_limit := be16 r 39, transt_tb_enable := r ! 41, transt_end_num := be16 r 42\<rparr>"
    "getc P (set_events P r s) = (getc P s)(Inter_enable := byte_at r 28, Inter_limit := uint (short_at r 29),
      Transt_rcd_time := uint (be16 r 44), Manual_rec_enable := byte_at r 46)"
  using assms(2)
  by (simp_all add: set_events_def in_range_def clip_inside and_small store_simps [OF assms(1)] Let_def byte_at_def)

lemma ratio_ext_set:
  assumes "store_laws P" "in_range P r"
  shows "sys P (world (set_ratio_ext P r s)) = sys P (world s)"
    "getc P (set_ratio_ext P r s) = (getc P s)(Reset_hyst_time := be2 r 49)"
  using assms(2) in_range_byte9 [OF assms(2)] by (simp_all add: set_ratio_ext_def in_range_def store_simps [OF assms(1)] Let_def)

lemma currents_set:
  assumes "store_laws P" "in_range P r"
  shows "sys P (world (set_currents P r s)) = (sys P (world s))\<lparr>
      vvr_limit := (vvr_limit (sys P (world s)))[2 := be16 r 51], sc_limit := be16 r 53, start_cur_en := r ! 55,
      ivr_limit := (ivr_limit (sys P (world s)))[1 := be16 r 56, 0 := be16 r 58], transt_i_monitor := ucast (r ! 60),
      fluct_enable := ucast (r ! 62), fluct_db := be16 r 63\<rparr>"
    "getc P (set_currents P r s) = (getc P s)(Rcd_wv_fmt := byte_at r 61, Inharm_type := byte_at r 65)"
  using assms(2) by (simp_all add: set_currents_def in_range_def clip_inside store_simps [OF assms(1)] Let_def)

lemma capacities_set:
  assumes "store_laws P"
  shows "sys P (world (set_capacities P r s)) = (sys P (world s))\<lparr>short_cap := flt (of_int (be3 r 10) / 10),
      user_cap := flt (of_int (be3 r 13) / 10), supp_cap := flt (of_int (be3 r 16) / 10), warp_up := flt (of_int (be2 r 19) / 10),
      warp_down := flt (- of_int (be2 r 21) / 10)\<rparr>"
    "getc P (set_capacities P r s) = getc P s"
  by (simp_all add: set_capacities_def store_simps [OF assms])

lemma be_bounds: "0 \<le> be3 r i" "0 \<le> be2 r i" "be2 r i < 2 ^ 23"
  using byte_at_range [of r i] byte_at_range [of r "i + 1"] byte_at_range [of r "i + 2"]
  unfolding be3_def be2_def by simp_all

text \<open>The three parts of the answer after the request.\<close>

lemma parts_set:
  assumes "store_laws P" "in_range P r" "current_clamp_enable (sys P (world s)) = 0" "rsz > 60"
    and "length (vvr_limit (sys P (world s))) = 3" "length (unbalance_thr (sys P (world s))) = 2"
    and "length (ivr_limit (sys P (world s))) = 2"
  defines "p \<equiv> sys P (world (fst (set_syspar P r rsz s)))" and "c \<equiv> getc P (fst (set_syspar P r rsz s))"
  shows "line_bytes p = (r ! 0 + 1) # map ((!) r) [1..<23]"
    and "event_bytes p c = map ((!) r) [23..<51]"
    and "current_bytes p c = map ((!) r) [51..<66]"
    and "passwd p = passwd (sys P (world s))"
proof -
  note set = ratios_set [OF assms(1-3)] capacities_set [OF assms(1)] events_set [OF assms(1,2)] ratio_ext_set [OF assms(1,2)]
    currents_set [OF assms(1,2)]
  let ?s = "set_currents P r (set_ratio_ext P r (set_events P r (set_capacities P r (set_ratios P r s))))"
  have fs: "fst (set_syspar P r rsz s) = setting P ''CMD_WTSET'' (put_body [r ! 0] (flag_update P DaramUpdate ?s))"
    using assms(4) by (simp add: set_syspar_def Let_def)
  have p: "p = sys P (world ?s)" and c: "c = getc P ?s"
    by (simp_all add: p_def c_def fs store_simps [OF assms(1)])
  have r: "0 < be4 r 1" "r ! 9 < 255" "r ! 47 = 0" "r ! 48 = 0" using assms(2) by (simp_all add: in_range_def)
  have n: "byte (byte_at r 0 + 1) = r ! 0 + 1" by (simp add: byte_def byte_at_def)
  have nine: "byte_at r 9 < 255" using r(2) by (simp add: byte_at_def word_less_def)
  show "passwd p = passwd (sys P (world s))" by (simp add: p set)
  have "bytes4 (be4 r 1) = [r ! 1, r ! 2, r ! 3, r ! 4]"
    using r bytes4_be4 [of r 1] by (simp add: eval_nat_numeral)
  moreover have "[1..<23] = 1 # [2..<23::nat]" by code_simp
  moreover have "be3 r 10 < 2 ^ 23" "be3 r 13 < 2 ^ 23" "be3 r 16 < 2 ^ 23" using assms(2) by (simp_all only: in_range_def)
  note tenths = tenth_read(1) [OF be_bounds(1) this(1)] tenth_read(1) [OF be_bounds(1) this(2)] tenth_read(1) [OF be_bounds(1) this(3)]
    tenth_read [OF be_bounds(2,3)]
  ultimately show "line_bytes p = (r ! 0 + 1) # map ((!) r) [1..<23]"
    using nine by (simp add: p set line_bytes_def n tenths tenths [simplified] del: One_nat_def)
  show "event_bytes p c = map ((!) r) [23..<51]"
    using assms(5,6) r nine by (simp add: p c set event_bytes_def)
  show "current_bytes p c = map ((!) r) [51..<66]"
    using assms(5,7) by (simp add: p c set current_bytes_def)
qed

text \<open>A request that passes the gate, asks for one frame and is answered from the static buffer.\<close>

abbreviation first_loc :: loc where
  "first_loc \<equiv> \<lparr>ack = True, tx_buf = False, syspara_update = 0, cyc_1st = True\<rparr>"

lemma one_reply:
  assumes "receive_body E (head_of rbuf) rbuf (m_rx_buffer s) = Some (rx, True)"
    and "security_en E (world (base s)) \<noteq> 0" "logged (base s) \<or> hd_cmd (head_of rbuf) \<in> open_cmds" "window_sz (head_of rbuf) \<le> 1"
    and "switch_cmd E now junk heap first_loc (s\<lparr>m_rx_buffer := rx, cmd_hd := reply_head E (world (base s)) (head_of rbuf)\<rparr>) = Some (l, s1)"
    and "ack l" "\<not> tx_buf l" "kDataHdSz + unat (body_len (cmd_hd s1)) \<le> length (m_tx_buffer (base s1))"
    and "window_sz (cmd_hd s1) = 1"
  shows "\<exists>s' f. CmdReceive E now junk heap rbuf s = Some (s', [f]) \<and> logged (base s') = logged (base s1) \<and>
    world (base s') = (if syspara_update l = 2 then notice_init_unit E (world (base s1))
      else if syspara_update l \<noteq> 0 then notice_sys_param E (world (base s1)) else world (base s1))"
proof -
  let ?h = "reply_head E (world (base s)) (head_of rbuf)"
  let ?s = "s\<lparr>m_rx_buffer := rx, cmd_hd := ?h\<rparr>"
  have h: "window_sz ?h = 1" using window_one [OF assms(4)] by (simp add: reply_head_def)
  obtain s2 f where em: "emit_frame l s1 = Some (s2, f)" "world (base s2) = world (base s1)"
      "logged (base s2) = logged (base s1)" "window_sz (cmd_hd s2) = 1"
    using assms(7-9) by (simp add: emit_frame_def Let_def not_less)
  have "reply_loop E now junk heap 1 l s2 = Some (l, s2, Some [])"
    using em(4) by (subst reply_loop.simps) simp
  then have rl: "reply_loop E now junk heap 0 first_loc ?s = Some (l, s2, Some [f])"
    using assms(5,6) em(1) h by (subst reply_loop.simps) simp
  have "\<not> (\<not> logged (base s) \<and> hd_cmd ?h \<notin> open_cmds)" using assms(3) by (auto simp: reply_head_def)
  then show ?thesis using assms(1,2) em(2,3) rl by (simp add: CmdReceive_def on_world_def Let_def)
qed

text \<open>Without security every usable request is handled as that of a logged in session.\<close>

lemma unsecured:
  assumes "security_en E (world (base s)) = 0" "receive_body E (head_of rbuf) rbuf (m_rx_buffer s) = Some (rx, True)"
  shows "CmdReceive E now junk heap rbuf s = CmdReceive E now junk heap rbuf (s\<lparr>base := (base s)\<lparr>logged := True\<rparr>\<rparr>)"
proof -
  have "(base s)\<lparr>logged := True, logged := True\<rparr> = (base s)\<lparr>logged := True\<rparr>" by simp
  then show ?thesis using assms by (simp add: CmdReceive_def Let_def)
qed

section \<open>A world for the examples\<close>

text \<open>The two stores, the scripts and the firmware.\<close>

record demo_world =
  dw_sys :: sys_par
  dw_cfg :: "cfg_key \<Rightarrow> int"
  dw_net :: "string option"
  dw_ntp :: "string option"
  dw_fw :: firmware

definition demo_penv :: "demo_world pq_env" where
  "demo_penv = \<lparr>FindUser = (\<lambda>n w. - 1), CheckPasswd = (\<lambda>p i t w. (w, 1)), AddUser = (\<lambda>a b c w. (w, 0)), DelUser = (\<lambda>a w. (w, 0)),
     SetPasswd = (\<lambda>a b c w. w), SetAudit = (\<lambda>a b c k w. w), ReadAuditRec = (\<lambda>a b c w. (w, [], 0)), usr_name = (\<lambda>w i. [97]),
     usr_num = (\<lambda>w. 1), DecryptoStr = (\<lambda>w b. b), rand_key = (\<lambda>w. replicate 16 9), UpdateKey = (\<lambda>w. w),
     Authenticate = (\<lambda>b w. (w, 0)), lcm_dely_time = (\<lambda>w. 10), set_device_sn = (\<lambda>b w. w), save_sm4_key = (\<lambda>b w. w),
     set_time_buf = (\<lambda>c w. w), gps_single_type = (\<lambda>w. 3)\<rparr>"

definition demo_param :: "demo_world param_env" where
  "demo_param = \<lparr>penv = demo_penv, sys = dw_sys, put_sys = (\<lambda>p w. w\<lparr>dw_sys := p\<rparr>), cfg = dw_cfg,
     set_cfg = (\<lambda>k v w. w\<lparr>dw_cfg := (dw_cfg w)(k := v)\<rparr>), set_update = (\<lambda>u w. w), net_script = dw_net,
     put_net_script = (\<lambda>f w. w\<lparr>dw_net := f\<rparr>), ntp_script = dw_ntp, put_ntp_script = (\<lambda>f w. w\<lparr>dw_ntp := f\<rparr>),
     run_commands = (\<lambda>cs w. w), notice_trigger = (\<lambda>w. w), get_dcval_stat = (\<lambda>w. 0), start_get_dc_val = (\<lambda>w. w),
     ee_param = (\<lambda>c w. []), put_ee_param = (\<lambda>c b w. w), ee_update = (\<lambda>k w. w), read_real = (\<lambda>w. replicate 1048 0),
     pqmtype = (\<lambda>w. 1), dsp_ver = (\<lambda>w. 0), dsp_type = (\<lambda>w. 0), fw = dw_fw, put_fw = (\<lambda>f w. w\<lparr>dw_fw := f\<rparr>),
     get_dsp_update_state = (\<lambda>w. w), updsp_flag = (\<lambda>w. 2), set_updsp_flag = (\<lambda>v w. w), versions = [1, 2, 3, 4],
     MAX_PT1 = 1000000, MAX_PT2 = 400, MAX_CT1 = 50000, MAX_CT2 = 1000\<rparr>"

definition demo_sys :: sys_par where
  "demo_sys = \<lparr>cu_level = 0, pt1 = 10000, pt2 = 100, ct1 = 300, ct2 = 5, short_cap = 0, user_cap = 0, supp_cap = 0, warp_up = 7,
     warp_down = - 7, vvr_limit = [0, 0, 0], transt_monitor = 0, unbalance_thr = [0, 0], neg_sequence_Ithr = 0, tb_low_limit = 0,
     tb_high_limit = 0, transt_tb_enable = 0, transt_end_num = 0, sc_limit = 0, start_cur_en = 0, ivr_limit = [0, 0],
     transt_i_monitor = 0, fluct_enable = 0, fluct_db = 0, harm_rcd_space = 3, freq_rcd_space = 1, unbalance_rcd_space = 3,
     voltdv_rcd_space = 3, hrm_save_type = 0, freq_save_type = 0, unbalance_save_type = 0, voltdv_save_type = 0,
     gps_pulse_type = 0, proof_time_intr = [0, 0], b_time_intr = 0, cvt_modify_group = 0, cvt_modify_unit = 0, device_num = 1,
     baud_rate = [9600, 1200], current_clamp_enable = 0, passwd = 0x01020304, device_sn = [1, 2, 3, 4]\<rparr>"

definition demo_base :: "demo_world app_pq" where
  "demo_base = AppPrtclPQ \<lparr>dw_sys = demo_sys, dw_cfg = (\<lambda>k. 1), dw_net = Some demo_script, dw_ntp = None,
     dw_fw = \<lparr>fp_open = False, fw_data = [], updsp_syn = 0\<rparr>\<rparr> (replicate 2048 0) App_Pq.demo_limits"

definition demo_pqb_param :: "demo_world pqb_env" where
  "demo_pqb_param = \<lparr>pq = demo_penv, uncompress = (\<lambda>b n. (b, 0)),
     other_call = param_call demo_param ([0, 0, 0, 0], 0) [] (\<lambda>k rx n c b. None), pqm_type = (\<lambda>w. 1), units_type = (\<lambda>w n. 0),
     security_en = (\<lambda>w. dw_cfg w Security_en), alarm_word = (\<lambda>w. 0), ReadHarms2Buf = (\<lambda>a b w. (w, 0)),
     GetHarmFrmBuf = (\<lambda>w. (w, [])), manual_rec_enable = (\<lambda>w. False), set_stdy_event = (\<lambda>w. w), manual_state = (\<lambda>w. 0),
     eew_para_update = (\<lambda>w. w), ColdReboot = (\<lambda>w. w), switch_sshd = (\<lambda>b w. w), notice_init_unit = (\<lambda>w. w),
     notice_sys_param = (\<lambda>w. w)\<rparr>"

lemma demo_laws: "store_laws demo_param"
  by (simp add: store_laws_def demo_param_def demo_penv_def)

text \<open>Level 3, ratios 10000:100 and 600:5, and all other values at the ends of their ranges.\<close>

definition demo_params :: "u8 list" where
  "demo_params = [3, 0, 0, 39, 16, 0, 100, 2, 88, 5, 1, 2, 3, 4, 5, 6, 7, 8, 9, 0, 70, 0, 80, 232, 3, 15, 39, 1, 1, 50, 0, 0, 40, 0, 41, 0,
     42, 1, 0, 2, 0, 7, 0, 10, 0, 60, 1, 0, 0, 0, 5, 3, 232, 0, 9, 1, 0, 8, 0, 7, 1, 2, 1, 0, 6, 1]"

section \<open>Properties\<close>

text \<open>
  C9. The system parameters that a client writes are the ones it reads back: after a request whose values are in their ranges (the
  capacities below 2 ^ 23 tenths, which a \<open>float\<close> divided by ten still gives back, see \<open>tenth_not_back\<close> for one that is lost), on a line without current clamp, the answer to the reading request has 70 bytes, which are the 66 of the request in their order, the
  level one higher than it was written, and between the 23rd and the 24th the four bytes of the device's password in clear.
\<close>

theorem parameters_read_back:
  assumes "store_laws P" "in_range P r" "current_clamp_enable (sys P (world s)) = 0" "rsz > 60"
    and "length (vvr_limit (sys P (world s))) = 3" "length (unbalance_thr (sys P (world s))) = 2"
    and "length (ivr_limit (sys P (world s))) = 2" "length (m_tx_buffer s) = 2048"
  shows "let (s1, n1) = set_syspar P r rsz s; (s2, n2) = tx_syspar P s1
    in n1 = 1 \<and> n2 = 70 \<and> take 70 (drop 20 (m_tx_buffer s2)) =
       (r ! 0 + 1) # map ((!) r) [1..<23] @ passwd_bytes (passwd (sys P (world s))) @ map ((!) r) [23..<66]"
proof -
  note b = parts_set [OF assms(1-7)]
  let ?s = "fst (set_syspar P r rsz s)"
  let ?vs = "(r ! 0 + 1) # map ((!) r) [1..<23] @ passwd_bytes (passwd (sys P (world s))) @ map ((!) r) [23..<66]"
  have m: "map ((!) r) [23..<66] = map ((!) r) [23..<51] @ map ((!) r) [51..<66]"
    using upt_add_eq_append [of 23 51 15] by simp
  have t: "tx_syspar P ?s = (put_body ?vs ?s, 70)"
    unfolding tx_syspar_def Let_def b m by (simp add: passwd_bytes_def)
  have l: "length (m_tx_buffer ?s) = 2048"
    using assms(8) by (simp add: set_syspar_def set_ratios_def set_capacities_def set_events_def set_ratio_ext_def set_currents_def
      upd_def setc_def flag_update_def put_body_def audit_def Let_def)
  have "take 70 (drop 20 (put_bytes 20 ?vs (m_tx_buffer ?s))) = ?vs"
    using put_bytes_slice [of 20 ?vs "m_tx_buffer ?s"] l by (simp add: passwd_bytes_def)
  then show ?thesis using t by (simp add: put_body_def set_syspar_def Let_def split_beta)
qed

theorem parameters_read_back_witness:
  "let (s1, n1) = set_syspar demo_param demo_params 66 demo_base; (s2, n2) = tx_syspar demo_param s1
   in take 70 (drop 20 (m_tx_buffer s2)) = 4 # take 22 (drop 1 demo_params) @ [1, 2, 3, 4] @ drop 23 demo_params"
proof -
  have "in_range demo_param demo_params" by code_simp
  moreover have "4 # take 22 (drop 1 demo_params) @ [1, 2, 3, 4] @ drop 23 demo_params = (demo_params ! 0 + 1) #
      map ((!) demo_params) [1..<23] @ passwd_bytes 0x01020304 @ map ((!) demo_params) [23..<66]" by code_simp
  moreover have "current_clamp_enable (sys demo_param (world demo_base)) = 0" "passwd (sys demo_param (world demo_base)) = 0x01020304"
    "length (vvr_limit (sys demo_param (world demo_base))) = 3" "length (unbalance_thr (sys demo_param (world demo_base))) = 2"
    "length (ivr_limit (sys demo_param (world demo_base))) = 2" "length (m_tx_buffer demo_base) = 2048"
    by (simp_all add: demo_param_def demo_base_def AppPrtclPQ_def demo_sys_def)
  ultimately show ?thesis
    using parameters_read_back [OF demo_laws, of demo_params demo_base 66] by (simp add: Let_def split_beta)
qed

text \<open>
  C8. The log in can be switched off by anyone.  The hidden parameters are among the requests that are answered before a log in, and
  one of them is whether a log in is needed: on a session that is not logged in, with log in required, a request that writes them with
  a 0 in that place is answered, log in is not required afterwards, and every later request is handled as if the session were logged in.
\<close>

theorem hidden_parameters_open_gate:
  assumes "store_laws P" "\<And>w. cfg P (notice_trigger P w) = cfg P w"
    and "pq E = penv P" "other_call E = param_call P j hp rest" "\<And>w. security_en E w = cfg P w Security_en"
    and "\<And>w. cfg P (notice_sys_param E w) = cfg P w"
    and "\<not> logged (base s)" "security_en E (world (base s)) \<noteq> 0" "length (m_tx_buffer (base s)) = 2048"
    and "hd_cmd (head_of rbuf) = 49" "window_sz (head_of rbuf) \<le> 1"
    and "receive_body E (head_of rbuf) rbuf (m_rx_buffer s) = Some (rx, True)" "rx ! 0 \<noteq> 0" "rx ! 12 = 0"
  shows "\<exists>s' f. CmdReceive E now junk heap rbuf s = Some (s', [f]) \<and> \<not> logged (base s') \<and> security_en E (world (base s')) = 0 \<and>
    (\<forall>now junk heap req body. receive_body E (head_of req) req (m_rx_buffer s') = Some (body, True) \<longrightarrow>
       CmdReceive E now junk heap req s' = CmdReceive E now junk heap req (s'\<lparr>base := (base s')\<lparr>logged := True\<rparr>\<rparr>))"
proof -
  let ?h = "reply_head E (world (base s)) (head_of rbuf)"
  let ?s = "s\<lparr>m_rx_buffer := rx, cmd_hd := ?h\<rparr>"
  let ?n = "uint (body_len ?h)"
  obtain r b where sp: "set_para P j ?n 49 rx (base s) = Some (r, b, 14)" "logged b = logged (base s)"
      "cfg P (world b) Security_en = 0" "length (m_tx_buffer b) = 2048"
    using assms(1,2,9,13,14)
    by (simp add: set_para_def para_cmd_def syshide_param_def setc_def getc_def audit_def put_body_def byte_at_def store_laws_def Let_def)
  have h: "hd_cmd ?h = 49" "window_sz ?h = 1" using assms(10) window_one [OF assms(11)] by (simp_all add: reply_head_def)
  let ?s1 = "set_len 14 (?s\<lparr>base := b, m_rx_buffer := r\<rparr>)" and ?l = "first_loc\<lparr>syspara_update := 1\<rparr>"
  have "switch_cmd E now junk heap first_loc ?s = Some (?l, ?s1)"
    using h(1) sp(1) assms(4) by (simp add: switch_cmd_def on_other_def param_call_def update_cmds_def Let_def)
  moreover have "logged (base s) \<or> hd_cmd (head_of rbuf) \<in> open_cmds" using assms(10) by (simp add: open_cmds_def)
  ultimately obtain s' f where r: "CmdReceive E now junk heap rbuf s = Some (s', [f])" "logged (base s') = logged b"
      "world (base s') = notice_sys_param E (world b)"
    using one_reply [OF assms(12,8) _ assms(11), of now junk heap ?l ?s1] sp(4) h(2) by (auto simp: set_len_def)
  have "security_en E (world (base s')) = 0" using r(3) sp(3) assms(5,6) by simp
  then show ?thesis using r(1,2) sp(2) assms(7) unsecured by blast
qed

theorem hidden_parameters_open_gate_witness:
  "let s = \<lparr>base = demo_base, cmd_hd = blank_head, m_rx_buffer = replicate 2048 0\<rparr> in
   \<not> logged (base s) \<and> security_en demo_pqb_param (world (base s)) = 1 \<and>
   (\<exists>s' f. CmdReceive demo_pqb_param 0 0 [] (demo_request 49 1 (1 # replicate 13 0)) s = Some (s', [f]) \<and>
      security_en demo_pqb_param (world (base s')) = 0)"
proof -
  let ?s = "\<lparr>base = demo_base, cmd_hd = blank_head, m_rx_buffer = replicate 2048 0\<rparr>"
  let ?r = "demo_request 49 1 (1 # replicate 13 0)" and ?rx = "(1 # replicate 13 0) @ replicate 2034 0 :: u8 list"
  have r: "receive_body demo_pqb_param (head_of ?r) ?r (m_rx_buffer ?s) = Some (?rx, True)"
    "hd_cmd (head_of ?r) = 49" "window_sz (head_of ?r) \<le> 1" "?rx ! 0 \<noteq> 0" "?rx ! 12 = 0" by code_simp+
  have e: "pq demo_pqb_param = penv demo_param" "\<And>w. cfg demo_param (notice_trigger demo_param w) = cfg demo_param w"
    "other_call demo_pqb_param = param_call demo_param ([0, 0, 0, 0], 0) [] (\<lambda>k rx n c b. None)"
    "\<And>w. security_en demo_pqb_param w = cfg demo_param w Security_en"
    "\<And>w. cfg demo_param (notice_sys_param demo_pqb_param w) = cfg demo_param w"
    by (simp_all add: demo_pqb_param_def demo_param_def)
  have s: "\<not> logged (base ?s)" "security_en demo_pqb_param (world (base ?s)) = 1" "length (m_tx_buffer (base ?s)) = 2048"
    by (simp_all add: demo_base_def AppPrtclPQ_def demo_pqb_param_def)
  then have "security_en demo_pqb_param (world (base ?s)) \<noteq> 0" by simp
  note h = hidden_parameters_open_gate [OF demo_laws e(2,1,3-5) s(1) this s(3) r(2,3,1,4,5)]
  show ?thesis using h [of 0 0 "[]"] s(1,2) unfolding Let_def by blast
qed

definition is_package :: "u8 list \<Rightarrow> u16 \<Rightarrow> u16 \<Rightarrow> u8 list \<Rightarrow> bool" where
  "is_package r tot num d \<longleftrightarrow> short_at r 0 = tot \<and> short_at r 2 = num \<and> uint (short_at r 4) = int (length d) \<and>
     take (length d) (drop 6 r) = d \<and> 6 + length d \<le> length r"

definition send_packages :: "'e param_env \<Rightarrow> u8 list list \<Rightarrow> 'e app_pq \<Rightarrow> 'e app_pq option" where
  "send_packages P rs s = foldO (\<lambda>r s. map_option fst (tx_smp_data P r s)) rs s"

lemma one_package:
  assumes "is_package r tot num d" "num \<le> tot" "num = 1 \<or> fp_open f"
  shows "fw_package r f = Some (\<lparr>fp_open = (num \<noteq> tot), fw_data = (if num = 1 then [] else fw_data f) @ d,
    updsp_syn = (if num = tot then 1 else updsp_syn f)\<rparr>, 1)"
  using assms by (auto simp: fw_package_def is_package_def Let_def aslice_def)

lemma uint_short: "n < 65536 \<Longrightarrow> uint (of_nat n :: u16) = int n"
  by (simp add: unsigned_of_nat take_bit_nat_eq_self)

lemma take_last: "xs \<noteq> [] \<Longrightarrow> xs = take (length xs - 1) xs @ [xs ! (length xs - 1)]"
  by (metis append_butlast_last_id butlast_conv_take last_conv_nth)

lemma packages_before_last:
  assumes "\<And>f w. fw P (put_fw P f w) = f" "length rs = length ds" "length ds \<le> 65535"
    and "\<forall>i < length ds. is_package (rs ! i) (of_nat (length ds)) (of_nat (Suc i)) (ds ! i)" "0 < k" "k < length ds"
  shows "\<exists>s'. send_packages P (take k rs) s = Some s' \<and>
    fw P (world s') = \<lparr>fp_open = True, fw_data = concat (take k ds), updsp_syn = updsp_syn (fw P (world s))\<rparr>"
  using assms(5,6)
proof (induction k)
  case (Suc k)
  define w n :: u16 where "w = of_nat (Suc k)" and "n = of_nat (length ds)"
  have k: "uint w = int (Suc k)" "uint n = int (length ds)"
    unfolding w_def n_def using Suc.prems assms(3) by (intro uint_short; simp)+
  have num: "w \<le> n" "w \<noteq> n" "w = 1 \<longleftrightarrow> k = 0"
    using k Suc.prems by (simp_all add: word_le_def word_uint_eq_iff)
  have pk: "is_package (rs ! k) n w (ds ! k)" unfolding w_def n_def by (rule assms(4) [rule_format, OF Suc.prems(2) [THEN Suc_lessD]])
  have tk: "take (Suc k) rs = take k rs @ [rs ! k]" "take (Suc k) ds = take k ds @ [ds ! k]"
    using Suc.prems assms(2) by (simp_all add: take_Suc_conv_app_nth)
  obtain s1 where s1: "send_packages P (take k rs) s = Some s1" "updsp_syn (fw P (world s1)) = updsp_syn (fw P (world s))"
      "k \<noteq> 0 \<longrightarrow> fp_open (fw P (world s1)) \<and> fw_data (fw P (world s1)) = concat (take k ds)"
    using Suc by (cases "k = 0") (auto simp: send_packages_def)
  have "w = 1 \<or> fp_open (fw P (world s1))" using s1(3) num(3) by auto
  note o = one_package [OF pk num(1) this]
  then obtain s2 where "tx_smp_data P (rs ! k) s1 = Some (s2, 1)" "fw P (world s2) =
      \<lparr>fp_open = True, fw_data = concat (take (Suc k) ds), updsp_syn = updsp_syn (fw P (world s))\<rparr>"
    using num(2,3) s1(2,3) assms(1) by (auto simp: tx_smp_data_def tk)
  then show ?case using s1(1) by (simp add: send_packages_def tk foldO_append)
qed simp

text \<open>
  C11. The firmware of the sampling board is put together from its packages: n packages in their order give a file with their
  data one after the other, which is closed and marked as complete by the last package and not before.
\<close>

theorem firmware_assembled:
  assumes "\<And>f w. fw P (put_fw P f w) = f" "length rs = length ds" "0 < length ds" "length ds \<le> 65535"
    and "\<forall>i < length ds. is_package (rs ! i) (of_nat (length ds)) (of_nat (Suc i)) (ds ! i)"
  shows "(\<exists>s'. send_packages P rs s = Some s' \<and> fw P (world s') = \<lparr>fp_open = False, fw_data = concat ds, updsp_syn = 1\<rparr>) \<and>
    (\<forall>k. 0 < k \<and> k < length ds \<longrightarrow> (\<exists>s'. send_packages P (take k rs) s = Some s' \<and>
       fw P (world s') = \<lparr>fp_open = True, fw_data = concat (take k ds), updsp_syn = updsp_syn (fw P (world s))\<rparr>))"
proof
  let ?m = "length ds - 1"
  define n :: u16 where "n = of_nat (length ds)"
  have "uint n = int (length ds)" unfolding n_def using assms(4) by (intro uint_short) simp
  then have "n = 1 \<longleftrightarrow> int (length ds) = 1" by (simp only: word_uint_eq_iff) simp
  then have n: "Suc ?m = length ds" "n = 1 \<longleftrightarrow> ?m = 0" using assms(3) by linarith+
  have "?m < length ds" using assms(3) by simp
  then have "is_package (rs ! ?m) (of_nat (length ds)) (of_nat (Suc ?m)) (ds ! ?m)" using assms(5) by blast
  then have pk: "is_package (rs ! ?m) n n (ds ! ?m)" unfolding n(1) n_def .
  have tk: "rs = take ?m rs @ [rs ! ?m]" "ds = take ?m ds @ [ds ! ?m]"
    using take_last [of rs] take_last [of ds] assms(2,3) by (metis length_greater_0_conv)+
  obtain s1 where s1: "send_packages P (take ?m rs) s = Some s1"
      "?m \<noteq> 0 \<longrightarrow> fp_open (fw P (world s1)) \<and> fw_data (fw P (world s1)) = concat (take ?m ds)"
    using packages_before_last [OF assms(1,2,4,5), of ?m s] assms(3) by (cases "?m = 0") (auto simp: send_packages_def)
  have "n = 1 \<or> fp_open (fw P (world s1))" using s1(2) n by auto
  note o = one_package [OF pk order_refl this]
  have "concat ds = concat (take ?m ds @ [ds ! ?m])" by (rule arg_cong [OF tk(2)])
  then have "(if n = 1 then [] else fw_data (fw P (world s1))) @ ds ! ?m = concat ds"
    using s1(2) n(2) by (cases "?m = 0") simp_all
  then obtain s2 where s2: "tx_smp_data P (rs ! ?m) s1 = Some (s2, 1)"
      "fw P (world s2) = \<lparr>fp_open = False, fw_data = concat ds, updsp_syn = 1\<rparr>"
    using o assms(1) by (auto simp: tx_smp_data_def)
  have "send_packages P (take ?m rs @ [rs ! ?m]) s = Some s2"
    using s1(1) s2(1) by (simp add: send_packages_def foldO_append)
  then show "\<exists>s'. send_packages P rs s = Some s' \<and> fw P (world s') = \<lparr>fp_open = False, fw_data = concat ds, updsp_syn = 1\<rparr>"
    using s2(2) tk(1) by metis
  show "\<forall>k. 0 < k \<and> k < length ds \<longrightarrow> (\<exists>s'. send_packages P (take k rs) s = Some s' \<and>
       fw P (world s') = \<lparr>fp_open = True, fw_data = concat (take k ds), updsp_syn = updsp_syn (fw P (world s))\<rparr>)"
    using packages_before_last [OF assms(1,2,4,5)] by blast
qed

theorem firmware_assembled_witness:
  "\<exists>s'. send_packages demo_param [[2, 0, 1, 0, 3, 0, 10, 11, 12], [2, 0, 2, 0, 1, 0, 13, 99]] demo_base = Some s' \<and>
     fw demo_param (world s') = \<lparr>fp_open = False, fw_data = [10, 11, 12, 13], updsp_syn = 1\<rparr>"
proof -
  let ?rs = "[[2, 0, 1, 0, 3, 0, 10, 11, 12], [2, 0, 2, 0, 1, 0, 13, 99]] :: u8 list list"
  have "is_package (?rs ! 0) 2 1 [10, 11, 12]" "is_package (?rs ! 1) 2 2 [13]" by code_simp+
  then have "\<forall>i < length [[10, 11, 12], [13]]. is_package (?rs ! i) (of_nat (length [[10, 11, 12], [13 :: u8]])) (of_nat (Suc i))
      ([[10, 11, 12], [13]] ! i)" by (auto simp: less_Suc_eq nth_Cons split: nat.splits)
  moreover have "fw demo_param (put_fw demo_param f w) = f" for f w by (simp add: demo_param_def)
  ultimately show ?thesis using firmware_assembled [of demo_param ?rs "[[10, 11, 12], [13]]" demo_base] by simp
qed

text \<open>A request of the parameter group whose first byte is 0, from the handler's side.\<close>

lemma set_para_reading:
  assumes "set_para P junk rsz c r s = Some (r', s', n)" "r ! 0 = 0" "c \<notin> {19, 20, 52}"
  shows "s' = put_body (take (nat n) r') s \<and> 0 < n \<and> length r' = length r"
  using assms
  by (auto simp: set_para_def para_cmd_def ip_addr_def set_save_space_def port_num_def comm_protocols_def save_types_def
    syshide_param_def timesyn_param_def connection_def eew_block_def Let_def Option.bind_eq_Some_conv split: if_splits)

lemma read_switch:
  assumes "other_call E = param_call P j hp rest" "hd_cmd (cmd_hd s) \<in> update_cmds \<union> param_cmds"
    and "hd_cmd (cmd_hd s) \<notin> {19, 20, 52}" "m_rx_buffer s ! 0 = 0" "switch_cmd E now junk heap first_loc s = Some (l, s1)"
  shows "l = first_loc\<lparr>syspara_update := (if hd_cmd (cmd_hd s) \<in> update_cmds then 1 else 0)\<rparr> \<and>
    (\<exists>tx rx n. s1 = set_len n (s\<lparr>base := (base s)\<lparr>m_tx_buffer := tx\<rparr>, m_rx_buffer := rx\<rparr>))"
proof -
  let ?c = "hd_cmd (cmd_hd s)"
  have sw: "switch_cmd E now junk heap first_loc s =
      map_option (Pair (first_loc\<lparr>syspara_update := (if ?c \<in> update_cmds then 1 else 0)\<rparr>)) (on_other E Set_para s)"
    using assms(2) by (auto simp: switch_cmd_def update_cmds_def param_cmds_def Let_def)
  obtain r' b n where sp: "set_para P j (uint (body_len (cmd_hd s))) ?c (m_rx_buffer s) (base s) = Some (r', b, n)"
      "s1 = set_len n (s\<lparr>base := b, m_rx_buffer := r'\<rparr>)"
      "l = first_loc\<lparr>syspara_update := (if ?c \<in> update_cmds then 1 else 0)\<rparr>"
    using assms(1,5) by (auto simp: sw on_other_def param_call_def split: option.splits)
  have "b = put_body (take (nat n) r') (base s)" using set_para_reading [OF sp(1) assms(4,3)] by simp
  then show ?thesis using sp(2,3) by (auto simp: put_body_def)
qed

text \<open>The command handler on a logged in session.\<close>

lemma logged_in:
  assumes "logged (base s)" "receive_body E (head_of rbuf) rbuf (m_rx_buffer s) = Some (rx, True)"
  shows "CmdReceive E now junk heap rbuf s =
    (case reply_loop E now junk heap 0 first_loc
        (s\<lparr>m_rx_buffer := rx, cmd_hd := reply_head E (world (base s)) (head_of rbuf)\<rparr>) of None \<Rightarrow> None
      | Some (l, s4, None) \<Rightarrow> Some (s4, [])
      | Some (l, s4, Some fs) \<Rightarrow>
        (let s5 = (if hd_cmd (cmd_hd s4) \<noteq> 7 then s4\<lparr>base := (base s4)\<lparr>timer_logout :=
               timer_Start now (lcm_dely_time (pq E) (world (base s4)) * 60) (timer_logout (base s4))\<rparr>\<rparr> else s4);
             s6 = (if syspara_update l = 2 then on_world (notice_init_unit E) s5
                   else if syspara_update l \<noteq> 0 then on_world (notice_sys_param E) s5 else s5)
         in Some (s6, fs)))"
proof -
  obtain b h r where s: "s = \<lparr>base = b, cmd_hd = h, m_rx_buffer = r\<rparr>" by (cases s)
  have lg: "b\<lparr>logged := True\<rparr> = b" using assms(1) s by simp
  show ?thesis using assms unfolding CmdReceive_def Let_def s by (simp add: lg)
qed

text \<open>
  C12. Reading parameters changes none: a request of the parameter group whose first byte is 0, on a logged in session and for one
  frame, is answered by one frame and leaves the session as it was, apart from the reply buffer and the log out timer; outside it does
  nothing but, for the commands that could also have written system parameters, notify the saving thread, although none has
  changed.  The requests for the device number, the rate of the serial port and the direct component have no reading form.
\<close>

theorem reading_changes_nothing:
  assumes "other_call E = param_call P j hp rest" "logged (base s)" "window_sz (head_of rbuf) \<le> 1"
    and "hd_cmd (head_of rbuf) \<in> update_cmds \<union> param_cmds" "hd_cmd (head_of rbuf) \<notin> {19, 20, 52}"
    and "receive_body E (head_of rbuf) rbuf (m_rx_buffer s) = Some (rx, True)" "rx ! 0 = 0"
    and "CmdReceive E now junk heap rbuf s = Some (s', fs)"
  shows "length fs = 1 \<and> (\<exists>tx tm. base s' = (base s)\<lparr>m_tx_buffer := tx, timer_logout := tm, world :=
    (if hd_cmd (head_of rbuf) \<in> update_cmds then notice_sys_param E (world (base s)) else world (base s))\<rparr>)"
proof -
  let ?h = "reply_head E (world (base s)) (head_of rbuf)"
  let ?s = "s\<lparr>m_rx_buffer := rx, cmd_hd := ?h\<rparr>"
  let ?c = "hd_cmd (head_of rbuf)"
  have h: "hd_cmd ?h = ?c" "window_sz ?h = 1" using window_one [OF assms(3)] by (simp_all add: reply_head_def)
  note cr = logged_in [OF assms(2,6), of now junk heap]
  have "switch_cmd E now junk heap first_loc ?s \<noteq> None"
    using assms(8) h(2) unfolding cr by (subst (asm) reply_loop.simps) (auto split: option.splits)
  then obtain l s1 where sw: "switch_cmd E now junk heap first_loc ?s = Some (l, s1)" by auto
  have l: "l = first_loc\<lparr>syspara_update := (if ?c \<in> update_cmds then 1 else 0)\<rparr>"
    and "\<exists>tx rx n. s1 = set_len n (?s\<lparr>base := (base ?s)\<lparr>m_tx_buffer := tx\<rparr>, m_rx_buffer := rx\<rparr>)"
    using read_switch [OF assms(1) _ _ _ sw] assms(4,5,7) h(1) by simp_all
  then obtain tx rx' n where s1: "s1 = set_len n (?s\<lparr>base := (base s)\<lparr>m_tx_buffer := tx\<rparr>, m_rx_buffer := rx'\<rparr>)" by auto
  have "emit_frame l s1 \<noteq> None"
    using assms(8) h(2) sw l unfolding cr by (subst (asm) reply_loop.simps) (auto split: option.splits)
  then obtain s2 f where em: "emit_frame l s1 = Some (s2, f)" by auto
  then obtain tx' where s2: "base s2 = (base s)\<lparr>m_tx_buffer := tx'\<rparr>" "hd_cmd (cmd_hd s2) = ?c" "window_sz (cmd_hd s2) = 1"
    using h by (auto simp: emit_frame_def l s1 set_len_def Let_def split: if_splits)
  have "reply_loop E now junk heap 1 l s2 = Some (l, s2, Some [])"
    using s2(3) by (subst reply_loop.simps) simp
  then have "reply_loop E now junk heap 0 first_loc ?s = Some (l, s2, Some [f])"
    using sw em h(2) l by (subst reply_loop.simps) simp
  then show ?thesis using assms(8) s2(1,2) unfolding cr
    by (cases "base s") (auto simp: l on_world_def Let_def split: if_splits)
qed

theorem reading_changes_nothing_witness:
  "let s = \<lparr>base = demo_base\<lparr>logged := True\<rparr>, cmd_hd = blank_head, m_rx_buffer = replicate 2048 0\<rparr> in
   \<exists>s' f tx tm. CmdReceive demo_pqb_param 0 0 [] (demo_request 21 1 [0]) s = Some (s', [f]) \<and>
     base s' = (base s)\<lparr>m_tx_buffer := tx, timer_logout := tm\<rparr>"
proof -
  let ?s = "\<lparr>base = demo_base\<lparr>logged := True\<rparr>, cmd_hd = blank_head, m_rx_buffer = replicate 2048 0\<rparr>"
  let ?r = "demo_request 21 1 [0]" and ?rx = "replicate 2048 0 :: u8 list"
  have r: "receive_body demo_pqb_param (head_of ?r) ?r (m_rx_buffer ?s) = Some (?rx, True)"
    "hd_cmd (head_of ?r) = 21" "window_sz (head_of ?r) \<le> 1" "?rx ! 0 = 0" by code_simp+
  have c: "21 \<in> update_cmds \<union> param_cmds" "21 \<notin> {19, 20, 52 :: u8}" by (simp_all add: update_cmds_def)
  have "CmdReceive demo_pqb_param 0 0 [] ?r ?s \<noteq> None" by code_simp
  then obtain s' fs where run: "CmdReceive demo_pqb_param 0 0 [] ?r ?s = Some (s', fs)" by auto
  have e: "other_call demo_pqb_param = param_call demo_param ([0, 0, 0, 0], 0) [] (\<lambda>k rx n c b. None)"
    by (simp add: demo_pqb_param_def)
  have n: "notice_sys_param demo_pqb_param w = w" for w by (simp add: demo_pqb_param_def)
  have c': "hd_cmd (head_of ?r) \<in> update_cmds \<union> param_cmds" "hd_cmd (head_of ?r) \<notin> {19, 20, 52}" using c by (simp_all add: r(2))
  have lg: "logged (base ?s)" by simp
  note t = reading_changes_nothing [OF e lg r(3) c' r(1,4) run]
  obtain tx tm where b: "base s' = (base ?s)\<lparr>m_tx_buffer := tx, timer_logout := tm, world := world (base ?s)\<rparr>"
    using t unfolding n if_cancel by (elim conjE exE) (rule that)
  have keep: "b\<lparr>m_tx_buffer := tx, timer_logout := tm, world := world b\<rparr> = b\<lparr>m_tx_buffer := tx, timer_logout := tm\<rparr>"
    for b :: "demo_world app_pq" by (cases b) simp
  obtain f where "fs = [f]" using t by (auto simp: length_Suc_conv)
  then show ?thesis unfolding Let_def using run b [unfolded keep] by blast
qed

definition net_laws :: "'e param_env \<Rightarrow> bool" where
  "net_laws P \<longleftrightarrow> (\<forall>f w. net_script P (put_net_script P f w) = f) \<and> (\<forall>cs w. net_script P (run_commands P cs w) = net_script P w) \<and>
     (\<forall>u w. net_script P (set_update P u w) = net_script P w) \<and>
     (\<forall>a n d k w. net_script P (SetAudit (penv P) a n d k w) = net_script P w)"

text \<open>
  C10. An address that a client writes is the one it reads back, through the text of the start script: if the script has
  lines for address, mask and gateway whose values are not longer than an address, a request that writes one of the three is carried out,
  and the four bytes of the answer to the reading request after it are those that were written.
\<close>

theorem address_read_back:
  assumes "net_laws P" "net_script P (world s) = Some t" "r ! 0 \<noteq> 0" "r ! 1 \<in> {1, 2, 3}" "rd ! 0 = 0" "rd ! 1 = r ! 1"
    and "\<forall>k \<in> {1, 2, 3}. first_line (net_key k) t \<noteq> None \<and> (\<exists>v. get_net_para k (Some t) = Some v \<and> length v \<le> 15)"
    and "6 \<le> length rd"
  shows "\<exists>r1 s1 r2 s2. ip_addr P junk r s = Some (r1, s1, 6) \<and> ip_addr P junk rd s1 = Some (r2, s2, 6) \<and>
    take 4 (drop 2 r2) = map ((!) r) [2, 3, 4, 5]"
proof -
  let ?k = "byte_at r 1" and ?v = "dotted [unat (r ! 2), unat (r ! 3), unat (r ! 4), unat (r ! 5)]"
  have k: "?k \<in> {1, 2, 3}" using assms(4) by (auto simp: byte_at_def)
  have b: "unat (r ! i) \<le> 255" for i using unsigned_less [of "r ! i", where ?'a = nat] by simp
  have v: "\<not> refused ?v" "length ?v \<le> 15" using address_accepted [OF b b b b] by simp_all
  obtain old where old: "first_line (net_key ?k) t = Some old" using assms(7) k by blast
  obtain t' where t': "set_net_para ?k ?v (Some t) = Some (Some t')" "get_net_para ?k (Some t') = Some ?v"
      "\<forall>j. j \<noteq> ?k \<longrightarrow> get_net_para j (Some t') = get_net_para j (Some t)"
    using net_para_written [OF _ _ old plain_dotted, of "unat (r ! 2)" "unat (r ! 3)" "unat (r ! 4)" "unat (r ! 5)"] k v by fastforce
  have g: "\<exists>w. get_net_para j (Some t') = Some w \<and> length w \<le> 15" if "j \<in> {1, 2, 3}" for j
    using t'(2,3) v(2) assms(7) that by (cases "j = ?k") auto
  obtain w1 w2 w3 where w: "get_net_para 1 (Some t') = Some w1" "get_net_para 2 (Some t') = Some w2"
      "get_net_para 3 (Some t') = Some w3" "length w1 \<le> 15" "length w2 \<le> 15" "length w3 \<le> 15"
    using g [of 1] g [of 2] g [of 3] by auto
  then obtain cs where cs: "apply_net_para (Some t') = Some cs" by (cases "w3 = []") (auto simp: apply_net_para_def Let_def)
  let ?s1 = "setting P ''CMD_IP_ADDR'' (flag_update P SocketPortIPUpdate
      (s\<lparr>world := run_commands P cs (put_net_script P (Some t') (world s))\<rparr>))"
  have n: "net_script P (world ?s1) = Some t'"
    using assms(1) by (simp add: net_laws_def audit_def flag_update_def)
  have "ip_addr P junk r s = Some (put_bytes 2 (map byte (take 4 (fst junk))) r, ?s1, 6)"
    using assms(1-3) k t'(1) cs by (auto simp: ip_addr_def write_address_def net_laws_def)
  moreover have "ip_addr P junk rd ?s1 = Some (put_bytes 2 (map ((!) r) [2, 3, 4, 5]) rd, ?s1, 6)"
  proof -
    have "byte_at rd 1 = ?k" using assms(6) by (simp add: byte_at_def)
    then have "read_address P junk rd ?s1 = Some [uint (r ! 2), uint (r ! 3), uint (r ! 4), uint (r ! 5)]"
      using k t'(2) v(2) n by (auto simp: read_address_def scan_dotted)
    moreover have "byte (uint x) = x" for x by (simp add: byte_def)
    ultimately show ?thesis using assms(5) by (simp add: ip_addr_def)
  qed
  moreover have "take 4 (drop 2 (put_bytes 2 (map ((!) r) [2, 3, 4, 5]) rd)) = map ((!) r) [2, 3, 4, 5]"
    using put_bytes_slice [of 2 "map ((!) r) [2, 3, 4, 5]" rd] assms(8) by (simp add: eval_nat_numeral)
  ultimately show ?thesis by blast
qed

definition demo_net :: string where
  "demo_net = demo_script @ ''NETMASK='' @ [quot] @ ''255.0.0.0'' @ [quot, nl] @ ''GATEWAY='' @ [quot] @ ''1.2.3.1'' @ [quot, nl]"

theorem address_read_back_witness:
  "\<exists>r1 s1 r2 s2. ip_addr demo_param ([9, 9, 9, 9], 0) [1, 3, 192, 168, 0, 7] (demo_base\<lparr>world := (world demo_base)\<lparr>dw_net := Some demo_net\<rparr>\<rparr>) =
       Some (r1, s1, 6) \<and> ip_addr demo_param ([9, 9, 9, 9], 0) [0, 3, 0, 0, 0, 0] s1 = Some (r2, s2, 6) \<and>
     take 4 (drop 2 r2) = [192, 168, 0, 7]"
proof -
  have "get_net_para 1 (Some demo_net) = Some ''1.2.3.4''" "get_net_para 2 (Some demo_net) = Some ''255.0.0.0''"
    "get_net_para 3 (Some demo_net) = Some ''1.2.3.1''" "first_line (net_key 1) demo_net \<noteq> None"
    "first_line (net_key 2) demo_net \<noteq> None" "first_line (net_key 3) demo_net \<noteq> None"
    by code_simp+
  moreover have "net_laws demo_param" by (simp add: net_laws_def demo_param_def demo_penv_def)
  moreover have "net_script demo_param (world (demo_base\<lparr>world := (world demo_base)\<lparr>dw_net := Some demo_net\<rparr>\<rparr>)) = Some demo_net"
    by (simp add: demo_param_def)
  ultimately show ?thesis
    using address_read_back [of demo_param "demo_base\<lparr>world := (world demo_base)\<lparr>dw_net := Some demo_net\<rparr>\<rparr>" demo_net
      "[1, 3, 192, 168, 0, 7]" "[0, 3, 0, 0, 0, 0]" "([9, 9, 9, 9], 0)"] by simp
qed

text \<open>What is answered to a written address are the four cells that were not set.\<close>

lemma address_answer_uninitialised:
  assumes "ip_addr P junk r s = Some (r', s', n)" "r ! 0 \<noteq> 0" "6 \<le> length r" "length (fst junk) = 4"
  shows "take 4 (drop 2 r') = map byte (fst junk)"
  using assms put_bytes_slice [of 2 "map byte (fst junk)" r] by (auto simp: ip_addr_def Option.bind_eq_Some_conv)

text \<open>The hardware address takes part in the group of the addresses: four bytes written to it replace it with a dotted address.\<close>

lemma hardware_address_overwritten:
  "(case write_address demo_param [1, 4, 1, 2, 3, 4] (demo_base\<lparr>world := (world demo_base)\<lparr>dw_net := Some demo_net\<rparr>\<rparr>) of
     None \<Rightarrow> False | Some s \<Rightarrow> get_net_para 4 (dw_net (world s)) = Some ''1.2.3.4'')"
  by code_simp

text \<open>
  The level of the line is stored as it comes: any level from 10 on makes the national limits of the harmonics
  (\<open>CHarmBase::set_harm_limit\<close>) read behind their table.
\<close>

lemma level_stored: "store_laws P \<Longrightarrow> cu_level (sys P (world (fst (set_syspar P r rsz s)))) = byte_at r 0"
  by (simp add: set_syspar_def set_ratios_def set_capacities_def set_events_def set_ratio_ext_def set_currents_def store_simps Let_def)

lemma level_out_of_table:
  assumes "store_laws P" "10 \<le> r ! 0"
  shows "set_harm_limit False (cu_level (sys P (world (fst (set_syspar P r rsz s))))) national ulim ilim lims = None"
proof -
  have "10 \<le> byte_at r 0" using assms(2) by (simp add: byte_at_def word_le_def)
  then show ?thesis by (simp add: set_harm_limit_def level_stored [OF assms(1)] aget_def HamULimit_def)
qed

text \<open>
  A second ratio of the currents of 255 or more is set although a current clamp forbids it, and the answer to a reading request
  for the correction factors announces 20 bytes more than were written, as that for the custom limits does.
\<close>

lemma ratio_ext_ignores_clamp:
  assumes "store_laws P" "r ! 9 = 0xff" "0 < be2 r 47" "be2 r 47 \<le> MAX_CT2 P"
  shows "ct2 (sys P (world (set_ratio_ext P r s))) = be2 r 47"
  using assms(2-4) by (simp add: set_ratio_ext_def store_simps [OF assms(1)] Let_def)

lemma correction_answer_too_long:
  "r ! 0 = 0 \<Longrightarrow> snd (cvt_modify_handle P r s) = 20 + 1 + 3 + 2 * 49"
proof -
  have "length (concat (map (\<lambda>i. bytes2 (f i)) xs)) = 2 * length xs" for f and xs :: "nat list"
    by (induction xs) (simp_all add: bytes2_def)
  then show "r ! 0 = 0 \<Longrightarrow> ?thesis" by (simp add: cvt_modify_handle_def Let_def)
qed

text \<open>A package of the firmware before the first one goes to a file that is not open, and its length is not compared with what came.\<close>

lemma package_without_file:
  "short_at r 2 \<noteq> 1 \<Longrightarrow> short_at r 2 \<le> short_at r 0 \<Longrightarrow> \<not> fp_open (fw P (world s)) \<Longrightarrow> tx_smp_data P r s = None"
  by (simp add: tx_smp_data_def fw_package_def Let_def)

lemma package_too_long:
  "short_at r 2 \<le> short_at r 0 \<Longrightarrow> int (length r) < 6 + uint (short_at r 4) \<Longrightarrow> tx_smp_data P r s = None"
  by (auto simp: tx_smp_data_def fw_package_def aslice_def Let_def)

end
