(* ===== verification/Harm_Calc.thy ===== *)
theory Harm_Calc
  imports Prelude Complex_Main
begin

text \<open>
  What is computed from the harmonics (\<open>main/src/pqm_func/harmbase.cpp\<close>, \<open>harmfunc.cpp\<close>, \<open>common/misc/math_ext.cpp\<close>): ratios, distortion,
  effective values, sequence components, powers, and their averages over an interval.  \<open>float\<close> and \<open>double\<close> values are real numbers
  (no rounding, no overflow), with the sine, cosine and root of the library.  The arrays have constant bounds that all indices of the code
  respect: they are functions of their indices (voltage 0 or current 1, phase, order), and a loop that assigns cells independently of each
  other is the function of the new cells.  A quotient by 0, which is no number in the code, is 0 here: the statements exclude it or hold for
  both.
\<close>

section \<open>Vectors and waves\<close>

type_synonym complex_num = "real \<times> real"

definition kSqrt3 :: real where "kSqrt3 = 17320508 / 10000000"

definition trunc_real :: "real \<Rightarrow> int" where
  "trunc_real x = (if x < 0 then - \<lfloor>- x\<rfloor> else \<lfloor>x\<rfloor>)"

text \<open>A wave of period 1 that is high for \<open>dtyr\<close> percent of it.\<close>

definition SquareWave :: "real \<Rightarrow> real \<Rightarrow> real" where
  "SquareWave time dtyr =
     (let d = dtyr / 100; t = of_int (trunc_real time) in
      if time < 0 then (if time - t \<ge> - d then - 1 else 1)
      else (if time - t \<ge> d then - 1 else 1))"

definition RotateVec :: "complex_num \<Rightarrow> bool \<Rightarrow> complex_num" where
  "RotateVec c two_thirds =
     (let co = - 1 / 2; si = (if two_thirds then - kSqrt3 / 2 else kSqrt3 / 2); (re, im) = c
      in (re * co - im * si, re * si + im * co))"

definition VectorsSum :: "complex_num list \<Rightarrow> real" where
  "VectorsSum cs = (let re = sum_list (map fst cs); im = sum_list (map snd cs) in sqrt (re * re + im * im))"

definition VectorsDiff :: "complex_num \<Rightarrow> complex_num \<Rightarrow> real" where
  "VectorsDiff a b = (let re = fst a - fst b; im = snd a - snd b in sqrt (re * re + im * im))"

section \<open>Input\<close>

text \<open>
  Amplitudes (in units of \<open>units\<close>), interharmonic groups, phases in tenths of a degree, and the parameters of the line; \<open>delta\<close> is
  the connection without neutral.  \<open>vect_sum_three\<close> and \<open>vect_sub_amp\<close>, the amplitudes of a sum and a difference of
  vectors given by amplitude and degrees, are not in the repository.
\<close>

type_synonym cells = "nat \<Rightarrow> nat \<Rightarrow> nat \<Rightarrow> real"

record hin =
  rms :: cells
  inter_rms :: cells
  phs :: "nat \<Rightarrow> nat \<Rightarrow> nat \<Rightarrow> int"
  PT1 :: real
  PT2 :: real
  CT1 :: real
  CT2 :: real
  units :: "nat \<Rightarrow> real"
  delta :: bool
  PI2 :: real
  vect_sum_three :: "real \<times> real \<Rightarrow> real \<times> real \<Rightarrow> real \<times> real \<Rightarrow> real"
  vect_sub_amp :: "real \<times> real \<Rightarrow> real \<times> real \<Rightarrow> real"

section \<open>Ratios, distortion, effective values\<close>

definition base1 :: "hin \<Rightarrow> nat \<Rightarrow> nat \<Rightarrow> real" where
  "base1 h vc j = (if rms h vc j 1 = 0 then 50000 else rms h vc j 1)"

definition HRui :: "hin \<Rightarrow> cells" where
  "HRui h vc j i = rms h vc j i * 100 / base1 h vc j"

definition HRU_in :: "hin \<Rightarrow> nat \<Rightarrow> nat \<Rightarrow> real" where
  "HRU_in h j i = inter_rms h 0 j i * 100 / base1 h 0 j"

text \<open>The total (0), odd (1) and even (2) distortion from the ratios.\<close>

definition squares :: "(nat \<Rightarrow> bool) \<Rightarrow> (nat \<Rightarrow> real) \<Rightarrow> real" where
  "squares p f = (\<Sum>i\<in>{2..50}. if p i then f i * f i else 0)"

definition THD :: "cells \<Rightarrow> nat \<Rightarrow> nat \<Rightarrow> nat \<Rightarrow> real" where
  "THD hr k kind j =
     (let o2 = squares odd (hr k j); e2 = squares even (hr k j)
      in if kind = 0 then sqrt (o2 + e2) else if kind = 1 then sqrt o2 else sqrt e2)"

definition CalcUivalid :: "hin \<Rightarrow> nat \<Rightarrow> nat \<Rightarrow> real" where
  "CalcUivalid h j vc = sqrt (\<Sum>i\<in>{1..50}. (rms h vc j i / units h vc) * (rms h vc j i / units h vc))"

text \<open>Effective value and deviation of a voltage in percent.\<close>

definition CalcVoltdv :: "hin \<Rightarrow> nat \<Rightarrow> real \<times> real" where
  "CalcVoltdv h j =
     (if rms h 0 j 1 \<le> 3 then (0, 0)
      else (let u = CalcUivalid h j 0 in
        if PT2 h = 0 then (u, 0)
        else (u, ((if delta h then u else u * 1.732) - PT2 h) * 100 / PT2 h)))"

definition CalcRmsppv :: "hin \<Rightarrow> (nat \<Rightarrow> real) \<Rightarrow> nat \<Rightarrow> real" where
  "CalcRmsppv h phv i =
     (if delta h then phv i
      else (let j = (if i < 2 then i + 1 else 0)
        in vect_sub_amp h (phv i, of_int (phs h 0 i 1) / 10) (phv j, of_int (phs h 0 j 1) / 10)))"

text \<open>The permitted currents of the user: powers of its share in the capacity.\<close>

definition calc_user_cur :: "real \<Rightarrow> real \<Rightarrow> real \<Rightarrow> real \<Rightarrow> nat \<Rightarrow> real" where
  "calc_user_cur short_cap datum user_cap supp_cap n =
     (let d1 = short_cap / datum; d2 = user_cap / supp_cap in
      d1 * (if n = 3 then d2 powr 0.9091 else if n = 5 then d2 powr 0.8333 else if n = 7 then d2 powr 0.7143
        else if n = 11 then d2 powr 0.5556 else if n = 13 then d2 powr 0.5263 else sqrt d2))"

definition get_harm_data :: "hin \<Rightarrow> int \<Rightarrow> nat \<Rightarrow> nat \<Rightarrow> nat \<Rightarrow> real" where
  "get_harm_data h type j vc n =
     (let vc = (if vc = 0 then 0 else 1) in
      if j > 2 \<or> n > 50 then 0
      else if type = 0 then rms h vc j n * (if vc = 0 then PT1 h / PT2 h else CT1 h / CT2 h) / units h vc
      else if type = 8 then rms h vc j n
      else if type = 1 then HRui h vc j n
      else if type = 2 then THD (HRui h) vc 0 j
      else 0)"

section \<open>Sequence components\<close>

text \<open>Zero (0), positive (1) and negative (2) sequence: the second and third phase are turned before the sum.\<close>

definition seq_turn :: "nat \<Rightarrow> nat \<Rightarrow> int" where
  "seq_turn type j = (if type = 0 \<or> j = 0 then 0 else if (type = 1) = (j = 1) then 1200 else 2400)"

definition calc_uiph3 :: "hin \<Rightarrow> nat \<Rightarrow> nat \<Rightarrow> real" where
  "calc_uiph3 h type vc =
     (if type = 0 \<and> delta h then 0
      else (let v = (\<lambda>j. (get_harm_data h 0 j vc 1, of_int (phs h vc j 1 + seq_turn type j) / 10))
        in vect_sum_three h (v 0) (v 1) (v 2) / 3))"

definition CalcUnbalance :: "hin \<Rightarrow> nat \<Rightarrow> nat \<Rightarrow> real" where
  "CalcUnbalance h vc k =
     (if k < 3 then calc_uiph3 h k vc
      else if calc_uiph3 h 1 vc = 0 then 0 else calc_uiph3 h 2 vc * 100 / calc_uiph3 h 1 vc)"

section \<open>Powers\<close>

text \<open>An angle that is negative is raised by full turns.\<close>

function raise_angle :: "int \<Rightarrow> int" where
  "raise_angle f = (if f < 0 then raise_angle (f + 3600) else f)"
  by pat_completeness auto
termination
  by (relation "measure (\<lambda>f. nat (- f))") auto

declare raise_angle.simps [simp del]

definition primary :: "hin \<Rightarrow> nat \<Rightarrow> nat \<Rightarrow> nat \<Rightarrow> real" where
  "primary h vc j i = rms h vc j i * (if vc = 0 then PT1 h / PT2 h else CT1 h / CT2 h) / units h vc"

definition radian :: "hin \<Rightarrow> int \<Rightarrow> real" where
  "radian h f = PI2 h * of_int f / 3600"

text \<open>
  Active (0), reactive (1) and apparent (2) power and power factor (3) of an order: with two watt meters, or for each phase.  In the former
  case the first of the two meters is in thousands, the second is not; in the latter the power factors of all phases are tested against the
  apparent power of phase A.
\<close>

definition two_meters :: "hin \<Rightarrow> nat \<Rightarrow> nat \<Rightarrow> real" where
  "two_meters h m i =
     (let s1 = primary h 0 0 i * primary h 1 0 i; a1 = radian h (raise_angle (phs h 0 0 i - phs h 1 0 i));
          s2 = primary h 0 1 i * primary h 1 2 i; a2 = radian h (raise_angle (phs h 0 1 i - 1800 - phs h 1 2 i));
          p = s1 * cos a1 / 1000 + s2 * cos a2; q = s1 * sin a1 / 1000 + s2 * sin a2; s = sqrt (p * p + q * q)
      in if m = 0 then p else if m = 1 then q else if m = 2 then s else if s > 0 then p / s else 0)"

definition three_meters :: "hin \<Rightarrow> nat \<Rightarrow> nat \<Rightarrow> nat \<Rightarrow> real" where
  "three_meters h m j i =
     (let s = (\<lambda>j. primary h 0 j i * primary h 1 j i); d = phs h 0 j i - phs h 1 j i; a = radian h (if d < 0 then d + 3600 else d)
      in if m = 0 then s j * cos a else if m = 1 then s j * sin a else if m = 2 then s j
         else if s 0 > 0 then s j * cos a / s j else 0)"

definition hm_power :: "hin \<Rightarrow> nat \<Rightarrow> nat \<Rightarrow> nat \<Rightarrow> real" where
  "hm_power h m j i = (if delta h then (if j = 0 then two_meters h m i else 0) else three_meters h m j i)"

text \<open>
  The totals of a phase (0 to 2) over all orders, and of all phases (3); with \<open>from = 2\<close> without the fundamental.  A power factor of the
  harmonics whose apparent power is 0 keeps its former value \<open>old\<close>.
\<close>

definition phase_total :: "hin \<Rightarrow> nat \<Rightarrow> (nat \<Rightarrow> real) \<Rightarrow> nat \<Rightarrow> nat \<Rightarrow> real" where
  "phase_total h from old m j =
     (let p = (\<Sum>i\<in>{1..50}. hm_power h 0 j i) - (if from = 2 then hm_power h 0 j 1 else 0);
          q = (\<Sum>i\<in>{1..50}. hm_power h 1 j i) - (if from = 2 then hm_power h 1 j 1 else 0);
          s = sqrt (p * p + q * q)
      in if m = 0 then p else if m = 1 then q else if m = 2 then s
         else if s > 0 then p / s else if from = 2 then old j else 0)"

definition total_power :: "hin \<Rightarrow> nat \<Rightarrow> (nat \<Rightarrow> real) \<Rightarrow> nat \<Rightarrow> nat \<Rightarrow> real" where
  "total_power h from old m j =
     (let all = (\<lambda>m. phase_total h from old m 0 + phase_total h from old m 1 + phase_total h from old m 2)
      in if j < 3 then phase_total h from old m j
         else if m < 3 then all m
         else if all 2 > 0 then all 0 / all 2 else 0)"

definition get_power :: "hin \<Rightarrow> (nat \<Rightarrow> real) \<Rightarrow> int \<Rightarrow> nat \<Rightarrow> nat \<Rightarrow> real option" where
  "get_power h old type j n =
     (if type \<in> {0, 1} \<and> j < 3 \<and> 1 \<le> n \<and> n \<le> 50 then Some (hm_power h (nat type) j n / 1000)
      else if type \<in> {2, 3, 4} \<and> j < 4 then Some (total_power h 1 old (nat type - 2) j / 1000)
      else if type = 5 \<and> j < 4 then Some (total_power h 1 old 3 j)
      else if type = 6 \<and> j < 3 then Some (hm_power h 3 j 1)
      else None)"

text \<open>The loss of a transformer: the largest factors and the largest fundamental current of the three phases.\<close>

definition CalcTrnsfmrLoss :: "hin \<Rightarrow> real \<times> real \<times> real" where
  "CalcTrnsfmrLoss h =
     (let pc = (\<lambda>j. THD (HRui h) 1 0 j * THD (HRui h) 1 0 j / 10000 + 1);
          pe = (\<lambda>j. (\<Sum>i\<in>{2..50}. HRui h 1 j i * HRui h 1 j i * of_nat i) / 10000 + 1);
          top = (\<lambda>f. foldl (\<lambda>m j. if m < f j then f j else m) 0 [0, 1, 2 :: nat])
      in (top pc, top pe, top (\<lambda>j. rms h 1 j 1) * CT1 h / CT2 h / units h 1))"

section \<open>Aggregation\<close>

text \<open>Maximum, sum or average, and minimum of a value over an interval.\<close>

record agg =
  amax :: real
  aavg :: real
  amin :: real

definition stat :: "real \<Rightarrow> real \<Rightarrow> agg \<Rightarrow> agg" where
  "stat sq x a = (if x > amax a then a\<lparr>amax := x\<rparr> else if x < amin a then a\<lparr>amin := x\<rparr> else a)\<lparr>aavg := aavg a + sq\<rparr>"

text \<open>
  The ratios keep only maximum and minimum, the distortion the sum of its squares, the powers their sum; \<open>hpf\<close> is the power factor of the
  harmonics of each phase.  \<open>avgbuf\<close> and \<open>harm_in\<close> are the sums of \<open>write_hamp\<close> and \<open>write_interhamp\<close> (of \<open>Harm_Func\<close>): of the values for
  order 0 of the harmonics, of their squares for the others; the averages of the interharmonics replace their sums.  \<open>harm_avg\<close>, \<open>harm_in\<close>
  and \<open>harm_max\<close> are amplitudes in whole units.
\<close>

record aggs =
  hru_aggr :: "nat \<Rightarrow> nat \<Rightarrow> agg"
  hru_in_aggr :: "nat \<Rightarrow> nat \<Rightarrow> agg"
  thd_aggr :: "nat \<Rightarrow> nat \<Rightarrow> nat \<Rightarrow> agg"
  hm_aggr :: "nat \<Rightarrow> nat \<Rightarrow> nat \<Rightarrow> agg"
  hm3_aggr :: "nat \<Rightarrow> nat \<Rightarrow> agg"
  tot_aggr :: "nat \<Rightarrow> nat \<Rightarrow> agg"
  htot_aggr :: "nat \<Rightarrow> nat \<Rightarrow> agg"
  hpf :: "nat \<Rightarrow> real"
  avgbuf :: cells
  harm_in :: "nat \<Rightarrow> nat \<Rightarrow> nat \<Rightarrow> int"
  harm_avg :: "nat \<Rightarrow> nat \<Rightarrow> nat \<Rightarrow> int"
  harm_max :: "nat \<Rightarrow> nat \<Rightarrow> nat \<Rightarrow> int"
  refresh_cnt :: int

definition stat_hr_thd :: "hin \<Rightarrow> aggs \<Rightarrow> aggs" where
  "stat_hr_thd h a = a\<lparr>
     hru_aggr := (\<lambda>j i. if 2 \<le> i then stat 0 (HRui h 0 j i) (hru_aggr a j i) else hru_aggr a j i),
     hru_in_aggr := (\<lambda>j i. if 2 \<le> i then stat 0 (HRU_in h j i) (hru_in_aggr a j i) else hru_in_aggr a j i),
     thd_aggr := (\<lambda>vc k j. let x = THD (HRui h) vc k j in stat (x * x) x (thd_aggr a vc k j))\<rparr>"

definition stat_hpower :: "hin \<Rightarrow> aggs \<Rightarrow> aggs" where
  "stat_hpower h a = a\<lparr>
     hm_aggr := (\<lambda>m j i. if 1 \<le> i then (let x = hm_power h m j i in stat x x (hm_aggr a m j i)) else hm_aggr a m j i),
     hm3_aggr := (\<lambda>m i. if 1 \<le> i then
         (let x = hm_power h m 0 i + hm_power h m 1 i + hm_power h m 2 i; x = (if m = 3 then x / 3 else x) in stat x x (hm3_aggr a m i))
       else hm3_aggr a m i)\<rparr>"

definition stat_glpower :: "hin \<Rightarrow> aggs \<Rightarrow> aggs" where
  "stat_glpower h a = a\<lparr>
     tot_aggr := (\<lambda>m j. let x = total_power h 1 (hpf a) m j in stat x x (tot_aggr a m j)),
     htot_aggr := (\<lambda>m j. let x = total_power h 2 (hpf a) m j in stat x x (htot_aggr a m j)),
     hpf := total_power h 2 (hpf a) 3\<rparr>"

text \<open>One refresh; the effective values, deviations, sequence components and losses that it computes besides are the functions above.\<close>

definition CalcDerivedData :: "hin \<Rightarrow> aggs \<Rightarrow> aggs" where
  "CalcDerivedData h a = (let a = stat_glpower h (stat_hpower h (stat_hr_thd h a)) in a\<lparr>refresh_cnt := refresh_cnt a + 1\<rparr>)"

text \<open>
  The start of an interval; \<open>low\<close>, \<open>high\<close> and \<open>most\<close> are the values of the bytes \<open>d3\<close>, \<open>55\<close> and \<open>45\<close> repeated.  The powers of the three phases
  together are not reset.
\<close>

definition InitAggregation :: "real \<Rightarrow> real \<Rightarrow> real \<Rightarrow> aggs \<Rightarrow> aggs" where
  "InitAggregation low high most a =
     (let z = \<lparr>amax = 0, aavg = 0, amin = most\<rparr>; p = \<lparr>amax = low, aavg = 0, amin = high\<rparr>
      in a\<lparr>hru_aggr := (\<lambda>j i. z), hru_in_aggr := (\<lambda>j i. z), thd_aggr := (\<lambda>vc k j. z), hm_aggr := (\<lambda>m j i. p),
           tot_aggr := (\<lambda>m j. p), htot_aggr := (\<lambda>m j. p), avgbuf := (\<lambda>vc j i. 0), harm_in := (\<lambda>vc j i. 0),
           harm_avg := (\<lambda>vc j i. 0), harm_max := (\<lambda>vc j i. 0), refresh_cnt := 0\<rparr>)"

text \<open>
  The averages.  Order 0 is divided like the sum it is, and then overwritten by the loop over all orders, which takes the root.  A power factor
  is that of the averages when the apparent power is not 0.
\<close>

definition avg_by :: "real \<Rightarrow> agg \<Rightarrow> agg" where
  "avg_by n a = a\<lparr>aavg := aavg a / n\<rparr>"

definition avg_power :: "real \<Rightarrow> (real \<Rightarrow> bool) \<Rightarrow> (nat \<Rightarrow> agg) \<Rightarrow> nat \<Rightarrow> agg" where
  "avg_power n some f m =
     (if m < 3 then avg_by n (f m)
      else if some (aavg (f 2) / n) then (f 3)\<lparr>aavg := (aavg (f 0) / n) / (aavg (f 2) / n)\<rparr> else f m)"

definition root_mean :: "real \<Rightarrow> real \<Rightarrow> int" where
  "root_mean n x = trunc_real (sqrt (x / n))"

definition hrm_prehandle :: "aggs \<Rightarrow> aggs" where
  "hrm_prehandle a =
     (let n = (if refresh_cnt a \<le> 0 then 1 else of_int (refresh_cnt a));
          havg = (\<lambda>vc j i. if i = 0 then trunc_real (avgbuf a vc j 0 / n) else harm_avg a vc j i);
          havg = (\<lambda>vc j i. if i \<le> 50 then root_mean n (avgbuf a vc j i) else havg vc j i);
          iavg = (\<lambda>vc j i. root_mean n (of_int (harm_in a vc j i)))
      in a\<lparr>
        harm_avg := havg,
        hru_aggr := (\<lambda>j i. (hru_aggr a j i)\<lparr>aavg := of_int (havg 0 j i) * 100 / of_int (root_mean n (avgbuf a 0 j 1))\<rparr>),
        harm_in := iavg,
        hru_in_aggr := (\<lambda>j i. (hru_in_aggr a j i)\<lparr>aavg := of_int (iavg 0 j i) * 100 / of_int (root_mean n (avgbuf a 0 j 1))\<rparr>),
        hm_aggr := (\<lambda>m j i. avg_power n (\<lambda>s. s \<noteq> 0) (\<lambda>m. hm_aggr a m j i) m),
        thd_aggr := (\<lambda>vc k j. (thd_aggr a vc k j)\<lparr>aavg := sqrt (aavg (thd_aggr a vc k j) / n)\<rparr>),
        hm3_aggr := (\<lambda>m i. avg_power n (\<lambda>s. s > 0) (\<lambda>m. hm3_aggr a m i) m),
        tot_aggr := (\<lambda>m j. avg_power n (\<lambda>s. s > 0) (\<lambda>m. tot_aggr a m j) m),
        htot_aggr := (\<lambda>m j. avg_power n (\<lambda>s. s > 0) (\<lambda>m. htot_aggr a m j) m)\<rparr>)"

text \<open>
  What is saved of an interval: the averages, or the maxima, which for the voltages are taken from the largest ratios.  The distortion is saved
  in hundredths of a percent, voltage and current, in 16 bits.
\<close>

definition AggregateData :: "bool \<Rightarrow> aggs \<Rightarrow> aggs" where
  "AggregateData average a =
     (let a = hrm_prehandle a in
      if average then a
      else a\<lparr>harm_max := (\<lambda>vc j i. if vc = 0 \<and> 2 \<le> i then trunc_real (of_int (harm_avg a 0 j 1) * amax (hru_aggr a j i) / 100)
                               else harm_max a vc j i)\<rparr>)"

definition get_thd_rcd :: "bool \<Rightarrow> aggs \<Rightarrow> u16 list" where
  "get_thd_rcd average a = concat (map (\<lambda>vc. map (\<lambda>j.
     word_of_int (trunc_real ((if average then aavg (thd_aggr a vc 0 j) else amax (thd_aggr a vc 0 j)) * 100 + 0.5))) [0, 1, 2]) [0, 1])"

section \<open>Effective values and powers\<close>

lemma split_first: "(\<Sum>i\<in>{1..50}. f i) = f 1 + (\<Sum>i\<in>{2..50 :: nat}. f i :: real)"
proof -
  have "{1..50 :: nat} = insert 1 {2..50}" by auto
  then show ?thesis by simp
qed

lemma odd_even: "squares odd f + squares even f = (\<Sum>i\<in>{2..50}. f i * f i)"
  unfolding squares_def by (simp flip: sum.distrib add: if_distrib cong: if_cong)

lemma squares_nonneg: "0 \<le> squares p f"
  unfolding squares_def by (rule sum_nonneg) auto

lemma THD_square: "THD hr k 0 j * THD hr k 0 j = (\<Sum>i\<in>{2..50}. hr k j i * hr k j i)"
  unfolding THD_def Let_def by (simp add: squares_nonneg flip: odd_even)

text \<open>
  C15. Effective value and distortion agree, although each is computed from the harmonics on its own: when there is a fundamental, the
  effective value of a voltage or a current is that of the fundamental, raised by the total distortion,
  \<open>h1 / unit * sqrt (1 + (THD / 100)^2)\<close>.  This is said of real numbers: amplitudes are below the limit of \<open>long\<close>, and the
  rounding of \<open>float\<close> is left out.
\<close>

theorem rms_from_distortion:
  assumes "0 < rms h vc j 1" and "0 < units h vc"
  shows "CalcUivalid h j vc = rms h vc j 1 / units h vc * sqrt (1 + (THD (HRui h) vc 0 j / 100) * (THD (HRui h) vc 0 j / 100))"
proof -
  let ?b = "rms h vc j 1" and ?t = "THD (HRui h) vc 0 j" and ?f = "\<lambda>i. rms h vc j i"
  have t: "?t * ?t = (\<Sum>i\<in>{2..50}. (?f i * 100 / ?b) * (?f i * 100 / ?b))"
    unfolding THD_square using assms(1) by (simp add: HRui_def base1_def)
  have one: "(?f i / units h vc) * (?f i / units h vc) = (?b / units h vc)\<^sup>2 * ((?f i * 100 / ?b) * (?f i * 100 / ?b) / 10000)" for i
    using assms by (simp add: field_simps power2_eq_square)
  have "(\<Sum>i\<in>{2..50}. (?f i / units h vc) * (?f i / units h vc)) = (?b / units h vc)\<^sup>2 * (?t * ?t / 10000)"
    unfolding one t by (simp add: sum_distrib_left sum_divide_distrib)
  then have "(\<Sum>i\<in>{1..50}. (?f i / units h vc) * (?f i / units h vc)) = (?b / units h vc)\<^sup>2 * (1 + (?t / 100) * (?t / 100))"
    unfolding split_first by (simp add: algebra_simps power2_eq_square)
  then show ?thesis
    unfolding CalcUivalid_def using assms by (simp add: real_sqrt_mult)
qed

theorem rms_from_distortion_witness:
  "\<exists>h. rms h 0 0 1 = 100000 \<and> rms h 0 0 3 = 5000 \<and> CalcUivalid h 0 0 = 100 * sqrt (1 + (THD (HRui h) 0 0 0 / 100) * (THD (HRui h) 0 0 0 / 100))"
  by (rule exI [of _ "\<lparr>rms = (\<lambda>vc j i. if i = 1 then 100000 else if i = 3 then 5000 else 0), inter_rms = (\<lambda>vc j i. 0), phs = (\<lambda>vc j i. 0),
      PT1 = 100, PT2 = 100, CT1 = 5, CT2 = 5, units = (\<lambda>vc. 1000), delta = False, PI2 = 2 * pi,
      vect_sum_three = (\<lambda>a b c. 0), vect_sub_amp = (\<lambda>a b. 0)\<rparr>"]) (simp add: rms_from_distortion)

lemma wye_order:
  assumes "\<not> delta h"
  shows "hm_power h 0 j i * hm_power h 0 j i + hm_power h 1 j i * hm_power h 1 j i = hm_power h 2 j i * hm_power h 2 j i"
proof -
  have one: "cos a * cos a = 1 - sin a * sin a" for a :: real
    using sin_cos_squared_add3 [of a] by linarith
  have "(s * cos a) * (s * cos a) + (s * sin a) * (s * sin a) = s * s * (cos a * cos a) + s * s * (sin a * sin a)" for s a :: real
    by (simp add: algebra_simps)
  then have "(s * cos a) * (s * cos a) + (s * sin a) * (s * sin a) = s * s" for s a :: real
    by (simp only: one) (simp add: algebra_simps)
  then show ?thesis using assms by (simp add: hm_power_def three_meters_def Let_def)
qed

lemma phase_square:
  "phase_total h from old 2 j * phase_total h from old 2 j =
   phase_total h from old 0 j * phase_total h from old 0 j + phase_total h from old 1 j * phase_total h from old 1 j"
  by (simp add: phase_total_def Let_def)

lemma active_at_most: "\<bar>phase_total h from old 0 j\<bar> \<le> phase_total h from old 2 j"
  by (auto simp: phase_total_def Let_def power2_eq_square intro!: real_le_rsqrt)

lemma abs_ratio: "\<bar>p\<bar> \<le> s \<Longrightarrow> \<bar>if s > 0 then p / s else 0\<bar> \<le> (1 :: real)"
  by (auto simp: divide_le_eq abs_divide)

text \<open>
  The powers: apparent, active and reactive power of a phase form a right triangle; those of the three phases together are their
  sums; and no power factor, of a phase or of all, exceeds 1, whatever the connection.
\<close>

lemma power_triangle:
  "(\<forall>j\<in>{0, 1, 2}. (total_power h from old 0 j)\<^sup>2 + (total_power h from old 1 j)\<^sup>2 = (total_power h from old 2 j)\<^sup>2) \<and>
   (\<forall>m\<in>{0, 1, 2}. total_power h from old m 3 = total_power h from old m 0 + total_power h from old m 1 + total_power h from old m 2) \<and>
   (\<forall>j\<in>{0, 1, 2, 3}. \<bar>total_power h 1 old 3 j\<bar> \<le> 1)"
proof (intro conjI ballI)
  fix j :: nat assume "j \<in> {0, 1, 2}"
  then show "(total_power h from old 0 j)\<^sup>2 + (total_power h from old 1 j)\<^sup>2 = (total_power h from old 2 j)\<^sup>2"
    by (auto simp: total_power_def power2_eq_square phase_square)
next
  fix m :: nat assume "m \<in> {0, 1, 2}"
  then show "total_power h from old m 3 = total_power h from old m 0 + total_power h from old m 1 + total_power h from old m 2"
    by (auto simp: total_power_def)
next
  fix j :: nat assume j: "j \<in> {0, 1, 2, 3}"
  let ?p = "\<lambda>j. phase_total h 1 old 0 j" and ?s = "\<lambda>j. phase_total h 1 old 2 j"
  have "\<bar>?p 0 + ?p 1 + ?p 2\<bar> \<le> ?s 0 + ?s 1 + ?s 2"
    using active_at_most [of h 1 old 0] active_at_most [of h 1 old 1] active_at_most [of h 1 old 2] by linarith
  moreover have "phase_total h 1 old 3 j = (if ?s j > 0 then ?p j / ?s j else 0)" for j
    by (simp add: phase_total_def Let_def)
  ultimately show "\<bar>total_power h 1 old 3 j\<bar> \<le> 1"
    using j abs_ratio [OF active_at_most [of h 1 old j]] by (auto simp: total_power_def Let_def abs_ratio)
qed

section \<open>Sequence components\<close>

text \<open>A vector as a complex number, its phase in degrees; \<open>third\<close> turns by a third of a circle.\<close>

definition phasor :: "real \<times> real \<Rightarrow> complex" where
  "phasor v = complex_of_real (fst v) * cis (snd v * pi / 180)"

definition third :: complex where "third = cis (2 * pi / 3)"

definition volt :: "hin \<Rightarrow> nat \<Rightarrow> nat \<Rightarrow> complex" where
  "volt h vc j = phasor (get_harm_data h 0 j vc 1, of_int (phs h vc j 1) / 10)"

lemma third_cubed: "third * third * third = 1"
  by (simp add: third_def cis_mult)

lemma third_sum: "1 + third + third * third = 0"
proof -
  have "third \<noteq> 1"
    using sin_120 by (auto simp: third_def cis.ctr one_complex.ctr complex_eq_iff cos_120)
  moreover have "(third - 1) * (1 + third + third * third) = 0"
    using third_cubed by (simp add: algebra_simps)
  ultimately show ?thesis by simp
qed

lemma phasor_turned:
  "phasor (a, of_int (p + 1200) / 10) = third * phasor (a, of_int p / 10)"
  "phasor (a, of_int (p + 2400) / 10) = third * third * phasor (a, of_int p / 10)"
  by (auto simp: phasor_def third_def cis_mult add_divide_distrib distrib_left algebra_simps)

text \<open>Three components in the vectors of the phases: each sum of the turned vectors leaves one of them.\<close>

lemma component_sums:
  assumes "v 0 = Z + P + N" and "v 1 = Z + third * third * P + third * N" and "v 2 = Z + third * P + third * third * (N :: complex)"
  shows "v 0 + v 1 + v 2 = 3 * Z" and "v 0 + third * v 1 + third * third * v (2 :: nat) = 3 * P"
    and "v 0 + third * third * v 1 + third * v 2 = 3 * N"
proof -
  let ?s = "1 + third + third * third"
  have c: "third * third * third = 1" "third * third * third * third = third" "1 + third * third + third = 0"
    using third_sum by (simp_all only: third_cubed mult_1) (metis add.assoc add.commute)
  have "v 0 + v 1 + v 2 = 3 * Z + ?s * P + ?s * N" using assms by (simp add: algebra_simps)
  then show "v 0 + v 1 + v 2 = 3 * Z" by (simp add: third_sum)
  have "v 0 + third * v 1 + third * third * v 2 =
      ?s * Z + (1 + third * third * third + third * third * third) * P + (1 + third * third + third * third * third * third) * N"
    using assms by (simp add: algebra_simps)
  then show "v 0 + third * v 1 + third * third * v 2 = 3 * P" by (simp only: c third_sum mult_1) simp
  have "v 0 + third * third * v 1 + third * v 2 =
      ?s * Z + (1 + third * third * third * third + third * third) * P + (1 + third * third * third + third * third * third) * N"
    using assms by (simp add: algebra_simps)
  then show "v 0 + third * third * v 1 + third * v 2 = 3 * N" by (simp only: c third_sum mult_1) simp
qed

text \<open>
  The unbalance, provided that \<open>vect_sum_three\<close>, which is not in the repository, is the size of the sum of three vectors given by their sizes and
  their phases in degrees: when the vectors of the three phases are a zero, a positive and a negative sequence \<open>Z\<close>, \<open>P\<close>, \<open>N\<close> (the phases B and C of
  the positive sequence 120 degrees behind and ahead, those of the negative sequence the other way round), the components that the
  code computes are the sizes of \<open>Z\<close> (with two watt meters it is not computed), \<open>P\<close> and \<open>N\<close>, and the unbalance is the percentage of \<open>N\<close> in \<open>P\<close>.
\<close>

lemma sequence_components:
  assumes "\<And>a b c. vect_sum_three h a b c = cmod (phasor a + phasor b + phasor c)" and "volt h vc 0 = Z + P + N"
    and "volt h vc 1 = Z + third * third * P + third * N" and "volt h vc 2 = Z + third * P + third * third * N"
  shows "map (CalcUnbalance h vc) [0, 1, 2, 3] =
    [if delta h then 0 else cmod Z, cmod P, cmod N, if P = 0 then 0 else cmod N * 100 / cmod P]"
proof -
  have one: "calc_uiph3 h 0 vc = (if delta h then 0 else cmod (volt h vc 0 + volt h vc 1 + volt h vc 2) / 3)"
    "calc_uiph3 h 1 vc = cmod (volt h vc 0 + third * volt h vc 1 + third * third * volt h vc 2) / 3"
    "calc_uiph3 h 2 vc = cmod (volt h vc 0 + third * third * volt h vc 1 + third * volt h vc 2) / 3"
    using assms(1) by (simp_all only: calc_uiph3_def Let_def seq_turn_def volt_def) (simp_all add: phasor_turned flip: of_int_add)
  have "calc_uiph3 h 0 vc = (if delta h then 0 else cmod Z)" "calc_uiph3 h 1 vc = cmod P" "calc_uiph3 h 2 vc = cmod N"
    unfolding one component_sums [of "volt h vc", OF assms(2, 3, 4)] by (simp_all add: norm_mult)
  then show ?thesis by (simp add: CalcUnbalance_def numeral_2_eq_2)
qed

lemma sequence_components_example:
  "\<exists>h. rms h 1 0 1 = 3000000 \<and> rms h 1 1 1 = 0 \<and> rms h 1 2 1 = 0 \<and> map (CalcUnbalance h 1) [0, 1, 2, 3] = [100, 100, 100, 100]"
proof (rule exI)
  let ?h = "\<lparr>rms = (\<lambda>vc j i. if j = 0 \<and> i = 1 then 3000000 else 0), inter_rms = (\<lambda>vc j i. 0), phs = (\<lambda>vc j i. 0),
    PT1 = 100, PT2 = 100, CT1 = 5, CT2 = 5, units = (\<lambda>vc. 10000), delta = False, PI2 = 2 * pi,
    vect_sum_three = (\<lambda>a b c. cmod (phasor a + phasor b + phasor c)), vect_sub_amp = (\<lambda>a b. 0)\<rparr>"
  have v: "volt ?h 1 0 = 300" "volt ?h 1 1 = 0" "volt ?h 1 2 = 0"
    by (simp_all add: volt_def phasor_def get_harm_data_def Let_def)
  have t: "100 + third * third * 100 + third * 100 = 0" "100 + third * 100 + third * third * 100 = 0"
    using third_sum by algebra+
  have "map (CalcUnbalance ?h 1) [0, 1, 2, 3] = [if delta ?h then 0 else cmod 100, cmod 100, cmod 100, if (100 :: complex) = 0 then 0 else cmod 100 * 100 / cmod 100]"
    by (rule sequence_components) (simp_all add: v [unfolded One_nat_def] t)
  then show "rms ?h 1 0 1 = 3000000 \<and> rms ?h 1 1 1 = 0 \<and> rms ?h 1 2 1 = 0 \<and> map (CalcUnbalance ?h 1) [0, 1, 2, 3] = [100, 100, 100, 100]"
    by simp
qed

section \<open>An interval\<close>

definition refreshes :: "hin list \<Rightarrow> aggs \<Rightarrow> aggs" where
  "refreshes hs a = foldl (\<lambda>a h. CalcDerivedData h a) a hs"

lemma total_power_fresh: "total_power h 1 old = total_power h 1 old'"
  by (rule ext)+ (simp add: total_power_def phase_total_def Let_def)

lemma stat_run:
  "aavg (foldl (\<lambda>a h. stat (sq h) (x h) a) a hs) = aavg a + sum_list (map sq hs) \<and>
   amax (foldl (\<lambda>a h. stat (sq h) (x h) a) a hs) = foldl max (amax a) (map x hs)"
  by (induction hs arbitrary: a) (auto simp: stat_def max_def)

lemma derived_fields:
  "thd_aggr (CalcDerivedData h a) vc k j = stat (THD (HRui h) vc k j * THD (HRui h) vc k j) (THD (HRui h) vc k j) (thd_aggr a vc k j)"
  "refresh_cnt (CalcDerivedData h a) = refresh_cnt a + 1"
  by (simp_all add: CalcDerivedData_def stat_glpower_def stat_hpower_def stat_hr_thd_def Let_def)

lemma derived_total:
  "tot_aggr (CalcDerivedData h a) m j = stat (total_power h 1 old m j) (total_power h 1 old m j) (tot_aggr a m j)"
  unfolding total_power_fresh [of h old "hpf a"]
  by (simp add: CalcDerivedData_def stat_glpower_def stat_hpower_def stat_hr_thd_def Let_def)

lemma derived_powers:
  "1 \<le> i \<Longrightarrow> hm_aggr (CalcDerivedData h a) m j i = stat (hm_power h m j i) (hm_power h m j i) (hm_aggr a m j i)"
  "m < 3 \<Longrightarrow> htot_aggr (CalcDerivedData h a) m j = stat (total_power h 2 old m j) (total_power h 2 old m j) (htot_aggr a m j)"
proof -
  show "1 \<le> i \<Longrightarrow> hm_aggr (CalcDerivedData h a) m j i = stat (hm_power h m j i) (hm_power h m j i) (hm_aggr a m j i)"
    by (simp add: CalcDerivedData_def stat_glpower_def stat_hpower_def stat_hr_thd_def Let_def)
  assume "m < 3"
  then have "total_power h 2 (hpf a) m j = total_power h 2 old m j" by (auto simp: total_power_def phase_total_def Let_def)
  then show "htot_aggr (CalcDerivedData h a) m j = stat (total_power h 2 old m j) (total_power h 2 old m j) (htot_aggr a m j)"
    by (simp add: CalcDerivedData_def stat_glpower_def stat_hpower_def stat_hr_thd_def Let_def)
qed

lemma refreshes_powers:
  "1 \<le> i \<Longrightarrow> hm_aggr (refreshes hs a) m j i = foldl (\<lambda>a h. stat (hm_power h m j i) (hm_power h m j i) a) (hm_aggr a m j i) hs"
  "m < 3 \<Longrightarrow> htot_aggr (refreshes hs a) m j = foldl (\<lambda>a h. stat (total_power h 2 old m j) (total_power h 2 old m j) a) (htot_aggr a m j) hs"
  unfolding refreshes_def by (induction hs arbitrary: a) (simp_all add: derived_powers(1) derived_powers(2) [where old = old])

lemma refreshes_fields:
  "thd_aggr (refreshes hs a) vc k j = foldl (\<lambda>a h. stat (THD (HRui h) vc k j * THD (HRui h) vc k j) (THD (HRui h) vc k j) a) (thd_aggr a vc k j) hs"
  "tot_aggr (refreshes hs a) m j = foldl (\<lambda>a h. stat (total_power h 1 old m j) (total_power h 1 old m j) a) (tot_aggr a m j) hs"
  "refresh_cnt (refreshes hs a) = refresh_cnt a + int (length hs)"
  unfolding refreshes_def by (induction hs arbitrary: a) (simp_all add: derived_fields derived_total [of _ _ m j old])

lemma interval_results:
  assumes "hs \<noteq> []" and "a' = hrm_prehandle (refreshes hs (InitAggregation low high most a))"
    and "n = real (length hs)"
  shows "aavg (thd_aggr a' vc k j) = sqrt (sum_list (map (\<lambda>h. (THD (HRui h) vc k j)\<^sup>2) hs) / n)"
    and "amax (thd_aggr a' vc k j) = foldl max 0 (map (\<lambda>h. THD (HRui h) vc k j) hs)"
    and "m < 3 \<Longrightarrow> aavg (tot_aggr a' m j) = sum_list (map (\<lambda>h. total_power h 1 old m j) hs) / n"
    and "m < 3 \<Longrightarrow> aavg (htot_aggr a' m j) = sum_list (map (\<lambda>h. total_power h 2 old m j) hs) / n"
    and "m < 3 \<Longrightarrow> 1 \<le> i \<Longrightarrow> aavg (hm_aggr a' m j i) = sum_list (map (\<lambda>h. hm_power h m j i) hs) / n"
    and "aavg (tot_aggr a' 2 j) > 0 \<Longrightarrow> aavg (tot_aggr a' 3 j) = aavg (tot_aggr a' 0 j) / aavg (tot_aggr a' 2 j)"
proof -
  let ?b = "refreshes hs (InitAggregation low high most a)"
  have n: "(if refresh_cnt ?b \<le> 0 then 1 else of_int (refresh_cnt ?b)) = n"
    using assms(1, 3) by (simp add: refreshes_fields InitAggregation_def Let_def)
  have i: "thd_aggr (InitAggregation low high most a) vc k j = \<lparr>amax = 0, aavg = 0, amin = most\<rparr>"
    "tot_aggr (InitAggregation low high most a) m j = \<lparr>amax = low, aavg = 0, amin = high\<rparr>" for m
    by (simp_all add: InitAggregation_def Let_def)
  show "aavg (thd_aggr a' vc k j) = sqrt (sum_list (map (\<lambda>h. (THD (HRui h) vc k j)\<^sup>2) hs) / n)"
    "amax (thd_aggr a' vc k j) = foldl max 0 (map (\<lambda>h. THD (HRui h) vc k j) hs)"
    unfolding assms(2) hrm_prehandle_def n Let_def by (simp_all add: refreshes_fields stat_run i power2_eq_square)
  have z: "aavg (htot_aggr (InitAggregation low high most a) m j) = 0" "aavg (hm_aggr (InitAggregation low high most a) m j i) = 0" for m
    by (simp_all add: InitAggregation_def Let_def)
  have p: "htot_aggr a' m j = avg_power n (\<lambda>s. s > 0) (\<lambda>m. htot_aggr ?b m j) m"
    "hm_aggr a' m j i = avg_power n (\<lambda>s. s \<noteq> 0) (\<lambda>m. hm_aggr ?b m j i) m"
    unfolding assms(2) hrm_prehandle_def n Let_def by simp_all
  show "m < 3 \<Longrightarrow> aavg (htot_aggr a' m j) = sum_list (map (\<lambda>h. total_power h 2 old m j) hs) / n"
    "m < 3 \<Longrightarrow> 1 \<le> i \<Longrightarrow> aavg (hm_aggr a' m j i) = sum_list (map (\<lambda>h. hm_power h m j i) hs) / n"
    unfolding p by (simp_all add: avg_power_def avg_by_def refreshes_powers(1) refreshes_powers(2) [where old = old] stat_run z)
  have t: "tot_aggr a' m j = avg_power n (\<lambda>s. s > 0) (\<lambda>m. tot_aggr ?b m j) m" for m
    unfolding assms(2) hrm_prehandle_def n Let_def by simp
  show "m < 3 \<Longrightarrow> aavg (tot_aggr a' m j) = sum_list (map (\<lambda>h. total_power h 1 old m j) hs) / n"
    unfolding t by (simp add: avg_power_def avg_by_def refreshes_fields(2) [where old = old] stat_run i)
  show "aavg (tot_aggr a' 2 j) > 0 \<Longrightarrow> aavg (tot_aggr a' 3 j) = aavg (tot_aggr a' 0 j) / aavg (tot_aggr a' 2 j)"
    unfolding t by (simp add: avg_power_def avg_by_def)
qed



section \<open>What the code does besides\<close>

text \<open>
  The average of the direct component, whose values are summed and not squared, is its square root: of 100 units in every refresh, 10 are saved.
\<close>

lemma direct_component_rooted:
  assumes "0 < refresh_cnt a" and "avgbuf a vc j 0 = 100 * of_int (refresh_cnt a)"
  shows "harm_avg (hrm_prehandle a) vc j 0 = 10"
proof -
  have "sqrt (100 :: real) = 10" by (rule real_sqrt_unique) auto
  then show ?thesis using assms by (simp add: hrm_prehandle_def root_mean_def trunc_real_def Let_def)
qed

text \<open>
  With two watt meters the first is in thousands, the second is not: with equal currents in phase with the voltages the second counts a thousand
  times as much.
\<close>

lemma two_meters_mixed:
  "two_meters h 0 i =
     primary h 0 0 i * primary h 1 0 i * cos (radian h (raise_angle (phs h 0 0 i - phs h 1 0 i))) / 1000 +
     primary h 0 1 i * primary h 1 2 i * cos (radian h (raise_angle (phs h 0 1 i - 1800 - phs h 1 2 i)))"
  by (simp add: two_meters_def Let_def)

text \<open>The power factor of phases B and C is 0 when phase A carries no power.\<close>

lemma power_factor_needs_phase_a:
  "\<lbrakk>\<not> delta h; three_meters h 2 0 i = 0\<rbrakk> \<Longrightarrow> hm_power h 3 j i = 0"
  by (auto simp: hm_power_def three_meters_def Let_def)

text \<open>The powers of the three phases of an order go on being summed from one interval to the next, and are divided by the refreshes of one only.\<close>

lemma three_phase_sums_not_reset: "hm3_aggr (InitAggregation low high most a) = hm3_aggr a"
  by (simp add: InitAggregation_def Let_def)

text \<open>A distortion of 656 percent is saved as 0.64 percent: the hundredths do not fit into 16 bits.\<close>

lemma large_distortion_wraps:
  "amax (thd_aggr a 0 0 0) = 656 \<Longrightarrow> hd (get_thd_rcd False a) = 64"
  by (simp add: get_thd_rcd_def trunc_real_def)

text \<open>Before time 0, a wave that is high for 25 percent of its period is high from \<open>-1\<close> to \<open>-0.25\<close>.\<close>

lemma square_wave_before_zero:
  "SquareWave (- 1 / 2) 25 = 1" "SquareWave (1 / 2) 25 = - 1"
  by (simp_all add: SquareWave_def trunc_real_def Let_def)

end
