(* ===== verification/Chart.thy ===== *)
theory Chart
  imports Widgets Net_Para Complex_Main
begin

text \<open>
  Charts (\<open>gui/src/GUI/component/chart.cpp\<close>, \<open>chart.h\<close>): series of points between two axes, drawn as curves, bars or dots.  A data set
  is three arrays of \<open>width\<close> cells; an access outside of them is the value None, like one outside the display buffer.  Values are
  exact rationals.  \<open>float_fmt\<close>, which chooses the number of decimals of a label, is not in the repository; the numbers themselves are
  formatted by \<open>sprintf\<close>, which is defined here for the conversions that the code uses.
\<close>

section \<open>Formatted numbers\<close>

definition trunc_rat :: "rat \<Rightarrow> int" where
  "trunc_rat x = (if x < 0 then - \<lfloor>- x\<rfloor> else \<lfloor>x\<rfloor>)"

definition half_even :: "rat \<Rightarrow> int" where
  "half_even x = (let n = \<lfloor>x\<rfloor>; r = x - of_int n in if r < 1 / 2 \<or> r = 1 / 2 \<and> even n then n else n + 1)"

definition fixed_point :: "nat \<Rightarrow> rat \<Rightarrow> string" where
  "fixed_point p x =
     (let n = nat (half_even (\<bar>x\<bar> * 10 ^ p)); f = dec (n mod 10 ^ p)
      in (if x < 0 then ''-'' else []) @ dec (n div 10 ^ p) @
         (if p = 0 then [] else ''.'' @ replicate (p - length f) (CHR ''0'') @ f))"

text \<open>\<open>%*.*f\<close> and \<open>%-*.*f\<close>: a negative precision counts as 6, a negative width adjusts to the left.\<close>

definition float_text :: "bool \<Rightarrow> int \<Rightarrow> int \<Rightarrow> rat \<Rightarrow> string" where
  "float_text to_left w p x =
     (let s = fixed_point (if p < 0 then 6 else nat p) x; pad = replicate (nat \<bar>w\<bar> - length s) (CHR '' '')
      in if to_left \<or> w < 0 then s @ pad else pad @ s)"

definition to_bytes :: "string \<Rightarrow> u8 list" where
  "to_bytes = map (\<lambda>c. of_nat (of_char c))"

section \<open>Charts\<close>

record axis =
  ax_visible :: bool
  ax_color :: u32
  position :: int
  axis_border :: int
  ticks_spc :: int
  ticks_len :: int
  ticks_origin :: bool
  ticks_grid :: bool
  ticks_grid_border :: int
  minor_len :: int
  minor_num :: int
  minor_grid :: bool
  minor_grid_border :: int
  labels_visible :: bool
  labels_font :: sfont
  labels_align :: bool
  labels_x :: int
  labels_y :: int
  start_value :: rat
  scale_value :: rat
  val_prec :: int
  val_decimal :: int
  val_unit :: "u8 list"
  labels_1st_minor :: bool
  title :: "u8 list"
  title_font :: sfont
  title_x :: int
  title_y :: int
  top_margin :: int
  left_margin :: int
  bottom_margin :: int
  right_margin :: int

datatype series = kSeriesQLine | kSeriesLine | kSeriesBar | kSeriesPoint | Other_type

record chart = widget +
  ch_border :: sedges
  axis_x :: axis
  axis_y :: axis
  bar_width :: int
  x_dotnum :: int
  start_point :: int
  draw_range :: int
  wide_line :: bool
  ch_visible :: bool
  ch_update :: bool
  axisx_update :: bool
  axisy_update :: bool
  series_type :: "series list"
  y_scale :: rat
  last_tick :: bool
  data_value :: "int list list"
  data_color :: "u32 list list"
  data_yn :: "bool list list"

definition dataset_num :: "chart \<Rightarrow> int" where
  "dataset_num c = int (length (series_type c))"

definition init_axis :: "palette \<Rightarrow> axis" where
  "init_axis col =
     (let f = \<lparr>asc_size = 8, cn_size = 12, space = - 2, f_color = col kVGA_Default\<rparr> in
      \<lparr>ax_visible = True, ax_color = col kVGA_Default, position = 500, axis_border = 0,
       ticks_spc = 300, ticks_len = 6, ticks_origin = True, ticks_grid = True, ticks_grid_border = 1,
       minor_len = 3, minor_num = 4, minor_grid = False, minor_grid_border = 1,
       labels_visible = True, labels_font = f, labels_align = False, labels_x = 0, labels_y = 0,
       start_value = 0, scale_value = 20, val_prec = 3, val_decimal = 0, val_unit = [], labels_1st_minor = False,
       title = [], title_font = f, title_x = 50, title_y = 0,
       top_margin = 0, left_margin = 0, bottom_margin = 0, right_margin = 0\<rparr>)"

text \<open>
  What \<open>new\<close> leaves in the arrays, and the flags that the constructor does not set, are arguments: \<open>fresh\<close> gives the contents of the
  arrays of one size, of which \<open>ClearData\<close> clears those that tell whether there is a point.
\<close>

record memory =
  m_types :: "series list"
  m_values :: "int list"
  m_colors :: "u32 list"

definition fits :: "memory \<Rightarrow> nat \<Rightarrow> nat \<Rightarrow> bool" where
  "fits m w n \<longleftrightarrow> length (m_types m) = n \<and> length (m_values m) = w \<and> length (m_colors m) = w"

definition ClearRange :: "int \<Rightarrow> int \<Rightarrow> chart \<Rightarrow> chart option" where
  "ClearRange p sz c =
     (if p + sz > dataset_num c then Some c
      else map_option (\<lambda>yn. c\<lparr>data_yn := yn\<rparr>)
        (for_loop p (p + sz) (\<lambda>i yn. map_option (\<lambda>row. yn[nat i := replicate (length row) False]) (aget yn i)) (data_yn c)))"

definition ClearData :: "chart \<Rightarrow> chart option" where
  "ClearData c = ClearRange 0 (dataset_num c) c"

text \<open>\<open>ALLOC_MEM\<close> and the clearing that follows it.\<close>

definition alloc_mem :: "memory \<Rightarrow> nat \<Rightarrow> chart \<Rightarrow> chart" where
  "alloc_mem m n c = c\<lparr>series_type := m_types m, data_value := replicate n (m_values m), data_color := replicate n (m_colors m),
     data_yn := replicate n (replicate (nat (width c)) False)\<rparr>"

definition new_chart :: "palette \<Rightarrow> memory \<Rightarrow> bool \<Rightarrow> bool \<Rightarrow> int \<Rightarrow> int \<Rightarrow> nat \<Rightarrow> chart" where
  "new_chart col m ux uy w h n =
     (alloc_mem m n
       \<lparr>left = 0, topp = 0, width = w, height = h,
        ch_border = \<lparr>left_width = 1, top_width = 1, right_width = 1, bottom_width = 1, e_color = col kVGA_Default\<rparr>,
        axis_x = (init_axis col)\<lparr>labels_align := True\<rparr>, axis_y = init_axis col, bar_width = 3, x_dotnum = 0, start_point = 0,
        draw_range = w, wide_line = False, ch_visible = True, ch_update = True, axisx_update = ux, axisy_update = uy,
        series_type = [], y_scale = of_int (ticks_spc (init_axis col)), last_tick = False,
        data_value = [], data_color = [], data_yn = []\<rparr>)\<lparr>series_type := replicate n kSeriesQLine\<rparr>"

definition set_sz :: "memory \<Rightarrow> int \<Rightarrow> int \<Rightarrow> chart \<Rightarrow> chart" where
  "set_sz m w h c = alloc_mem m (length (series_type c)) (c\<lparr>width := w, height := h\<rparr>)"

text \<open>The types are those of the other chart, as many as this one has data sets.\<close>

definition chart_assign :: "memory \<Rightarrow> chart \<Rightarrow> chart \<Rightarrow> chart option" where
  "chart_assign m other c =
     (let c = set_sz m (width other) (height other) c;
          c = c\<lparr>left := left other, topp := topp other, ch_border := ch_border other, axis_x := axis_x other, axis_y := axis_y other,
                bar_width := bar_width other, y_scale := y_scale other, x_dotnum := x_dotnum other, start_point := start_point other,
                draw_range := draw_range other, wide_line := wide_line other\<rparr>
      in map_option (\<lambda>ts. c\<lparr>series_type := ts\<rparr>)
        (for_loop 0 (dataset_num c) (\<lambda>i ts. Option.bind (aget (series_type other) i) (\<lambda>t. aset ts i t)) (series_type c)))"

definition set_scale_val :: "bool \<Rightarrow> rat \<Rightarrow> chart \<Rightarrow> chart" where
  "set_scale_val y val c =
     (if y then c\<lparr>axis_y := (axis_y c)\<lparr>scale_value := val\<rparr>, axisy_update := True, ch_update := True\<rparr>
      else c\<lparr>axis_x := (axis_x c)\<lparr>scale_value := val\<rparr>, axisx_update := True, ch_update := True\<rparr>)"

definition set_start_val :: "bool \<Rightarrow> rat \<Rightarrow> chart \<Rightarrow> chart" where
  "set_start_val y val c =
     (if y then c\<lparr>axis_y := (axis_y c)\<lparr>start_value := val\<rparr>, axisy_update := True, ch_update := True\<rparr>
      else c\<lparr>axis_x := (axis_x c)\<lparr>start_value := val\<rparr>, axisx_update := True, ch_update := True\<rparr>)"

definition set_series_type :: "series \<Rightarrow> int \<Rightarrow> chart \<Rightarrow> chart option" where
  "set_series_type t grp c = map_option (\<lambda>ts. c\<lparr>series_type := ts\<rparr>) (aset (series_type c) grp t)"

definition set_y_scale :: "rat \<Rightarrow> chart \<Rightarrow> chart" where
  "set_y_scale v c = c\<lparr>y_scale := v\<rparr>"

definition set_last_tick :: "bool \<Rightarrow> chart \<Rightarrow> chart" where
  "set_last_tick b c = c\<lparr>last_tick := b\<rparr>"

definition set_update :: "chart \<Rightarrow> chart" where
  "set_update c = c\<lparr>ch_update := True\<rparr>"

definition get_dotnum :: "chart \<Rightarrow> int" where
  "get_dotnum c = (if x_dotnum c = 0 then width c else x_dotnum c)"

section \<open>Data\<close>

text \<open>A value in pixels, rounded away from 0 at halves; a scale of 0 gives no value that fits into an integer.\<close>

definition pixels :: "chart \<Rightarrow> rat \<Rightarrow> int option" where
  "pixels c data =
     (let fi = data * (of_int (height c * ticks_spc (axis_y c)) / 1000) / y_scale c
      in if y_scale c = 0 then None else Some (trunc_rat (if fi \<ge> 0 then fi + 1 / 2 else fi - 1 / 2)))"

definition put_point :: "int \<Rightarrow> int \<Rightarrow> int \<Rightarrow> u32 \<Rightarrow> chart \<Rightarrow> chart option" where
  "put_point grp j v color c = do {
     yn \<leftarrow> aget (data_yn c) grp; yn \<leftarrow> aset yn j True; yns \<leftarrow> aset (data_yn c) grp yn;
     co \<leftarrow> aget (data_color c) grp; co \<leftarrow> aset co j color; cos \<leftarrow> aset (data_color c) grp co;
     va \<leftarrow> aget (data_value c) grp; va \<leftarrow> aset va j v; vas \<leftarrow> aset (data_value c) grp va;
     Some (c\<lparr>data_yn := yns, data_color := cos, data_value := vas\<rparr>) }"

definition dots :: "chart \<Rightarrow> int" where
  "dots c = (if x_dotnum c = 0 then draw_range c else x_dotnum c)"

text \<open>The column of position \<open>p\<close>; dividing by no points fails.\<close>

definition column :: "chart \<Rightarrow> int \<Rightarrow> int option" where
  "column c p = (if dots c = 0 then None else Some ((p * draw_range c) sdiv dots c + start_point c))"

definition add_data :: "int \<Rightarrow> rat \<Rightarrow> u32 \<Rightarrow> int \<Rightarrow> chart \<Rightarrow> chart option" where
  "add_data p data color grp c =
     (if p \<ge> dots c then Some c
      else do { j \<leftarrow> column c (p + 1);
                v \<leftarrow> pixels c data; c \<leftarrow> put_point grp j v color c;
                Some (c\<lparr>ch_update := True\<rparr>) })"

text \<open>A data set is stored until its end or the first column outside the chart.\<close>

fun add_points :: "int \<Rightarrow> rat list \<Rightarrow> u32 \<Rightarrow> int \<Rightarrow> chart \<Rightarrow> chart option" where
  "add_points p [] color grp c = Some c"
| "add_points p (x # xs) color grp c = do {
     j \<leftarrow> column c p;
     if j < width c then Option.bind (pixels c x) (\<lambda>v. Option.bind (put_point grp j v color c) (add_points (p + 1) xs color grp)) else Some c }"

definition add_dataset :: "int \<Rightarrow> rat list \<Rightarrow> u32 \<Rightarrow> int \<Rightarrow> chart \<Rightarrow> chart option" where
  "add_dataset p xs color grp c =
     (if p \<ge> dots c then Some c
      else do { j \<leftarrow> column c p; c \<leftarrow> add_points p xs color grp c; Some (c\<lparr>ch_update := True\<rparr>) })"

section \<open>Drawing\<close>

text \<open>
  The environment: the contents of a variable that \<open>line\<close> does not initialise, the byte behind a string, and the
  number of decimals of a label.
\<close>

record chart_env =
  ch_junk :: int
  ch_behind :: u8
  float_fmt :: "rat \<Rightarrow> int \<Rightarrow> int \<Rightarrow> int"

type_synonym drawing = "disbuf \<Rightarrow> disbuf option"

text \<open>A label of a tick, in an array of 24 characters; \<open>xl\<close>, \<open>yl\<close> is its place.\<close>

definition put_label :: "chart_env \<Rightarrow> axis \<Rightarrow> int \<Rightarrow> rat \<Rightarrow> int \<Rightarrow> int \<Rightarrow> bool \<Rightarrow> drawing" where
  "put_label env a decimals v xl yl shown d =
     (let s = to_bytes (float_text (labels_align a) (val_prec a + 1) decimals v) @ val_unit a;
          d = set_font (cn_size (labels_font a)) (asc_size (labels_font a)) d
      in if length s + 1 > 24 then None
         else if shown then puts (c_string (ch_behind env) s) xl yl (f_color (labels_font a)) (space (labels_font a)) d
         else Some d)"

text \<open>
  The staff at one tick: \<open>pos\<close> is its place in thousandths, \<open>sn\<close> its number, \<open>vert\<close> the direction of the axis, \<open>neg\<close> the
  side of the origin.
\<close>

definition minor_ticks :: "axis \<Rightarrow> int \<Rightarrow> int \<Rightarrow> int list" where
  "minor_ticks a sg pos =
     (let i = (sg * (minor_num a + 1)) sdiv 2;
          n = (\<lambda>m. (m * ticks_spc a + i) sdiv (minor_num a + 1))
      in map n (takeWhile (\<lambda>m. pos + n m > 0 \<and> pos + n m < 1000) (map (\<lambda>k. sg * k) [1..minor_num a])))"

definition draw_minor :: "chart_env \<Rightarrow> axis \<Rightarrow> bool \<Rightarrow> int \<Rightarrow> int \<Rightarrow> int \<Rightarrow> int \<Rightarrow> int \<Rightarrow> int \<Rightarrow> int \<Rightarrow> int \<Rightarrow> drawing" where
  "draw_minor env a vert pos w sg x y lh lv n d =
     (let v = (if vert then 0 else 1); h = (if vert then 1 else 0);
          n = (n * w + sg * 499) sdiv 1000; shown = pos + ticks_spc a < 980 \<or> vert
      in do {
        d \<leftarrow> (if minor_grid a \<and> shown then line (ch_junk env) (x + v * n) (y - h * n) (x + v * n + lh) (y - h * n + lv) (ax_color a) (ticks_grid_border a) d else Some d);
        if minor_len a \<noteq> 0 \<and> shown
        then line (ch_junk env) (x + v * n) (y - h * n) (x + v * n - h * minor_len a) (y - h * n + v * minor_len a) (ax_color a) 0 d
        else Some d })"

definition draw_staff :: "chart_env \<Rightarrow> chart \<Rightarrow> axis \<Rightarrow> bool \<Rightarrow> int \<Rightarrow> int \<Rightarrow> bool \<Rightarrow> drawing" where
  "draw_staff env c a vert pos sn neg d =
     (let sg = (if neg then - 1 else 1); v = (if vert then 0 else 1); h = (if vert then 1 else 0);
          w = (if vert then height c else width c);
          i = (pos * w + sg * 499) sdiv 1000;
          x = (if vert then left c else left c + i);
          y = (if vert then topp c + height c - 1 - i else topp c + height c - 1);
          lv = (if vert then 0 else - height c); lh = (if vert then width c else 0);
          k = labels_x a - h * asc_size (labels_font a) * (val_prec a + 1);
          j = labels_y a + v * cn_size (labels_font a);
          tick = sn \<noteq> 0 \<or> ticks_origin a \<and> \<not> neg
      in do {
        d \<leftarrow> (if ticks_grid a \<and> sn \<noteq> 0 then line (ch_junk env) x y (x + lh) (y + lv) (ax_color a) (ticks_grid_border a) d else Some d);
        d \<leftarrow> (if tick \<and> ticks_len a \<noteq> 0 then line (ch_junk env) x y (x - h * ticks_len a) (y + v * ticks_len a) (ax_color a) 0 d else Some d);
        d \<leftarrow> (if tick \<and> labels_visible a then
                (let fi = start_value a + scale_value a * of_int sn;
                     dec = (if sn = 0 then trunc_rat (start_value a) else float_fmt env fi (val_prec a) (val_decimal a))
                 in put_label env a dec fi (x + k) (y + j) (pos + ticks_spc a < 1010 \<or> last_tick c \<or> vert) d)
              else Some d);
        d \<leftarrow> (if minor_num a + 1 = 0 then None else foldO (draw_minor env a vert pos w sg x y lh lv) (minor_ticks a sg pos) d);
        if labels_1st_minor a \<and> sn = 0 then
          (let n = sg * (((w * ticks_spc a + 499) sdiv (minor_num a + 1)) sdiv 1000);
               fi = scale_value a / of_int (minor_num a + 1)
           in put_label env a (float_fmt env fi (val_prec a) (val_decimal a)) fi (x + n * v + k) (y + n * h + j) True d)
        else Some d })"

text \<open>
  The ticks of both sides of the origin.  With a negative spacing the loops do not leave the axis: they do not return.
\<close>

function staff_up :: "(int \<Rightarrow> int \<Rightarrow> drawing) \<Rightarrow> int \<Rightarrow> int \<Rightarrow> int \<Rightarrow> drawing" where
  "staff_up f spc i j d =
     (if i < 998 then (if spc \<le> 0 then None else Option.bind (f i j d) (staff_up f spc (i + spc) (j + 1))) else Some d)"
  by pat_completeness auto
termination by (relation "measure (\<lambda>(f, spc, i, j, d). nat (998 - i))") auto

function staff_down :: "(int \<Rightarrow> int \<Rightarrow> drawing) \<Rightarrow> int \<Rightarrow> int \<Rightarrow> int \<Rightarrow> drawing" where
  "staff_down f spc i j d =
     (if i > 10 then (if spc \<le> 0 then None else Option.bind (f i j d) (staff_down f spc (i - spc) (j - 1))) else Some d)"
  by pat_completeness auto
termination by (relation "measure (\<lambda>(f, spc, i, j, d). nat (i - 10))") auto

declare staff_up.simps [simp del] staff_down.simps [simp del]

definition draw_axis :: "chart_env \<Rightarrow> chart \<Rightarrow> axis \<Rightarrow> int \<Rightarrow> bool \<Rightarrow> drawing" where
  "draw_axis env c a pos vert d =
     (let x = (if vert then left c + (width c * position a + 499) sdiv 1000 else left c);
          y = (if vert then topp c else topp c + height c - 1 - (height c * position a + 499) sdiv 1000);
          lh = (if vert then 0 else width c); lv = (if vert then height c else 0)
      in do {
        d \<leftarrow> line (ch_junk env) x y (x + lh) (y + lv) (ax_color a) (axis_border a) d;
        d \<leftarrow> (if ticks_spc a \<noteq> 0 then
                Option.bind (staff_up (\<lambda>i j. draw_staff env c a vert i j False) (ticks_spc a) pos 0 d)
                  (staff_down (\<lambda>i j. draw_staff env c a vert i j True) (ticks_spc a) pos 0)
              else Some d);
        puts (c_string (ch_behind env) (title a)) (left c + title_x a) (topp c + title_y a) (f_color (title_font a)) (space (title_font a))
          (set_font (cn_size (title_font a)) (asc_size (title_font a)) (setmode DISOPUN d)) })"

definition chart_frame :: "chart_env \<Rightarrow> chart \<Rightarrow> drawing" where
  "chart_frame env c d = do {
     d \<leftarrow> draw_border (ch_junk env) (ch_border c) (left c) (topp c) (width c) (height c) d;
     d \<leftarrow> (if ax_visible (axis_y c) then draw_axis env c (axis_y c) (position (axis_x c)) True d else Some d);
     if ax_visible (axis_x c) then draw_axis env c (axis_x c) (position (axis_y c)) False d else Some d }"

section \<open>Drawing the data\<close>

text \<open>The row of a value, its row kept in the chart, and the drawing of a piece of a curve.\<close>

definition base_row :: "chart \<Rightarrow> int" where
  "base_row c = topp c + height c - 1 - (position (axis_x c) * height c) sdiv 1000"

definition clip_row :: "chart \<Rightarrow> int \<Rightarrow> int" where
  "clip_row c y =
     (let y = (if y < topp c then topp c else y) in if y \<ge> topp c + height c then topp c + height c - 1 else y)"

definition curve_dot :: "chart \<Rightarrow> int \<Rightarrow> int \<Rightarrow> u32 \<Rightarrow> drawing" where
  "curve_dot c x y color = (if wide_line c then set_wpixel x y color else set_pixel x y color)"

definition curve_line :: "chart_env \<Rightarrow> chart \<Rightarrow> int \<Rightarrow> int \<Rightarrow> int \<Rightarrow> int \<Rightarrow> u32 \<Rightarrow> drawing" where
  "curve_line env c x1 y1 x y color d =
     Option.bind (if wide_line c then wline x1 y1 x y color 0 d else line (ch_junk env) x1 y1 x y color 0 d) (curve_dot c x y color)"

text \<open>The quick curve: one column; \<open>start\<close> says that no point precedes.\<close>

definition quick_column :: "chart_env \<Rightarrow> chart \<Rightarrow> int \<Rightarrow> int \<Rightarrow> int \<times> int \<times> bool \<times> disbuf \<Rightarrow> (int \<times> int \<times> bool \<times> disbuf) option" where
  "quick_column env c grp i st =
     (case st of (x1, y1, start, d) \<Rightarrow>
        let x = left c + i + 1 in do {
          yn \<leftarrow> aget (data_yn c) grp; b \<leftarrow> aget yn i;
          if \<not> b then Some (x, y1, True, d)
          else do {
            va \<leftarrow> aget (data_value c) grp; v \<leftarrow> aget va i;
            co \<leftarrow> aget (data_color c) grp; color \<leftarrow> aget co i;
            let y = base_row c - v in
            if y < topp c then Some (x, topp c, start, d)
            else if y > topp c + height c - 1 then Some (x, topp c + height c, start, d)
            else do {
              d \<leftarrow> (if y - y1 < 2 \<and> y - y1 > - 2 \<and> x - x1 < 2 \<and> x - x1 > - 2 \<or> start then curve_dot c x y color d
                   else curve_line env c x1 y1 x y color d);
              Some (x, y, False, d) } } })"

definition quick_curve :: "chart_env \<Rightarrow> chart \<Rightarrow> int \<Rightarrow> drawing" where
  "quick_curve env c grp d =
     map_option (\<lambda>(x, y, start, d). d) (for_loop 0 (width c - 1) (quick_column env c grp) (left c + 1, base_row c, True, d))"

text \<open>The general curve: it starts at the first point, and its loop reads the cell behind the last column.\<close>

function first_point :: "bool list \<Rightarrow> int \<Rightarrow> int \<Rightarrow> int option" where
  "first_point yn w i = Option.bind (aget yn i) (\<lambda>b. if \<not> b \<and> i < w then first_point yn w (i + 1) else Some i)"
  by pat_completeness auto
termination by (relation "measure (\<lambda>(yn, w, i). nat (w - i))") auto

declare first_point.simps [simp del]

definition line_column :: "chart_env \<Rightarrow> chart \<Rightarrow> int \<Rightarrow> int \<Rightarrow> int \<times> int \<times> disbuf \<Rightarrow> (int \<times> int \<times> disbuf) option" where
  "line_column env c grp i st =
     (case st of (x1, y1, d) \<Rightarrow> do {
        yn \<leftarrow> aget (data_yn c) grp; b \<leftarrow> aget yn i;
        if \<not> b then Some (x1, y1, d)
        else do {
          va \<leftarrow> aget (data_value c) grp; v \<leftarrow> aget va i;
          co \<leftarrow> aget (data_color c) grp; color \<leftarrow> aget co i;
          let x = left c + i + 1; y = base_row c - v in
          if y < topp c then Some (x, topp c, d)
          else if y > topp c + height c - 1 then Some (x, topp c + height c, d)
          else map_option (\<lambda>d. (x, y, d)) (curve_line env c x1 y1 x y color d) } })"

definition general_curve :: "chart_env \<Rightarrow> chart \<Rightarrow> int \<Rightarrow> drawing" where
  "general_curve env c grp d = do {
     yn \<leftarrow> aget (data_yn c) grp; i \<leftarrow> first_point yn (width c) 0;
     va \<leftarrow> aget (data_value c) grp; v \<leftarrow> aget va i;
     map_option (\<lambda>(x, y, d). d)
       (for_loop i (width c + 1) (line_column env c grp) (left c + i + 1, base_row c - v, d)) }"

text \<open>Bars and dots; \<open>f\<close> draws the mark at a column and row.\<close>

definition marks :: "chart \<Rightarrow> int \<Rightarrow> (int \<Rightarrow> int \<Rightarrow> u32 \<Rightarrow> drawing) \<Rightarrow> drawing" where
  "marks c grp f = for_loop 0 (width c) (\<lambda>i d. do {
     yn \<leftarrow> aget (data_yn c) grp; b \<leftarrow> aget yn i;
     if \<not> b then Some d
     else do {
       va \<leftarrow> aget (data_value c) grp; v \<leftarrow> aget va i;
       co \<leftarrow> aget (data_color c) grp; color \<leftarrow> aget co i;
       f (left c + i) (clip_row c (base_row c - v)) color d } })"

definition draw_data :: "chart_env \<Rightarrow> chart \<Rightarrow> int \<Rightarrow> drawing" where
  "draw_data env c grp d = do {
     t \<leftarrow> aget (series_type c) grp;
     d \<leftarrow> (case t of
         kSeriesQLine \<Rightarrow> quick_curve env c grp d
       | kSeriesLine \<Rightarrow> general_curve env c grp d
       | kSeriesBar \<Rightarrow> marks c grp (\<lambda>x y color. wline x (base_row c) x y color (bar_width c)) d
       | kSeriesPoint \<Rightarrow> marks c grp (\<lambda>x y color. rectangle (x - 1) (y - 1) (x + 2) (y + 2) color) d
       | Other_type \<Rightarrow> Some d);
     Some (setmode DISOPUN d) }"

definition chart_draw :: "chart_env \<Rightarrow> chart \<Rightarrow> disbuf \<Rightarrow> (chart \<times> disbuf) option" where
  "chart_draw env c d =
     (let c = c\<lparr>ch_update := False\<rparr> in
      if \<not> ch_visible c then Some (c, d)
      else let c = c\<lparr>axisx_update := False, axisy_update := False\<rparr> in do {
        d \<leftarrow> chart_frame env c d;
        d \<leftarrow> for_loop 0 (dataset_num c) (draw_data env c) d;
        Some (c, d) })"

section \<open>Showing\<close>

definition below_axis :: "chart \<Rightarrow> int" where
  "below_axis c = labels_y (axis_x c) + cn_size (labels_font (axis_x c))"

definition left_of_axis :: "chart \<Rightarrow> int" where
  "left_of_axis c = (7 - space (labels_font (axis_y c))) * (val_prec (axis_y c) + 1) - labels_x (axis_y c)"

definition chart_set_visible :: "bool \<Rightarrow> chart \<Rightarrow> screen \<Rightarrow> (chart \<times> screen) option" where
  "chart_set_visible yn c s =
     (let c = c\<lparr>ch_visible := yn, ch_update := True, axisx_update := True, axisy_update := True\<rparr>;
          l = left c; t = topp c; w = width c; h = height c
      in map_option (Pair c)
        (if yn then Some s
         else do { s \<leftarrow> scr_clear l t (l + w) (t + h) s;
                   s \<leftarrow> scr_clear l (t + h) (l + w) (t + h + below_axis c) s;
                   scr_clear (l - left_of_axis c) t l (t + h) s }))"

text \<open>The rectangles of the two axes are those that are cleared before, and copied after, the drawing.\<close>

definition x_area :: "chart \<Rightarrow> (int \<Rightarrow> int \<Rightarrow> int \<Rightarrow> int \<Rightarrow> screen \<Rightarrow> screen option) \<Rightarrow> screen \<Rightarrow> screen option" where
  "x_area c f = (let a = axis_x c in
     f (left c - left_margin a) (topp c + height c - top_margin a) (left c + width c + right_margin a) (topp c + height c + below_axis c + bottom_margin a))"

definition y_area :: "chart \<Rightarrow> (int \<Rightarrow> int \<Rightarrow> int \<Rightarrow> int \<Rightarrow> screen \<Rightarrow> screen option) \<Rightarrow> screen \<Rightarrow> screen option" where
  "y_area c f = (let a = axis_y c in
     f (left c - left_of_axis c - left_margin a) (topp c - top_margin a) (left c + right_margin a) (topp c + height c + bottom_margin a))"

definition chart_refresh :: "chart_env \<Rightarrow> chart \<Rightarrow> screen \<Rightarrow> (chart \<times> screen) option" where
  "chart_refresh env c s =
     (if \<not> ch_update c \<or> \<not> ch_visible c then Some (c, s)
      else let ux = axisx_update c; uy = axisy_update c; l = left c; t = topp c; w = width c; h = height c in do {
        s \<leftarrow> (if ux then x_area c scr_clear s else Some s);
        s \<leftarrow> (if uy then y_area c scr_clear s else Some s);
        s \<leftarrow> scr_clear l t (l + w) (t + h) s;
        (c, d) \<leftarrow> chart_draw env c (sc_dis s);
        s \<leftarrow> scr_refresh l t (l + w) (t + h) (s\<lparr>sc_dis := d\<rparr>);
        s \<leftarrow> (if ux then x_area c scr_refresh s else Some s);
        s \<leftarrow> (if uy then y_area c scr_refresh s else Some s);
        Some (c, s) })"

section \<open>Drawing inside an area\<close>

text \<open>
  \<open>paints P f\<close>: on a display of which all points of \<open>P\<close> are pixels, \<open>f\<close> succeeds and changes no pixel outside \<open>P\<close>.  The rules compose
  it along the structure of a drawing.
\<close>

named_theorems paints_intros \<open>drawing inside an area\<close>

definition area_ok :: "(int \<times> int \<Rightarrow> bool) \<Rightarrow> disbuf \<Rightarrow> bool" where
  "area_ok P d \<longleftrightarrow> wf_dis d \<and> op_mode d = DISOPUN \<and> (\<forall>p. P p \<longrightarrow> inner_pix d p)"

definition changed_in :: "(int \<times> int \<Rightarrow> bool) \<Rightarrow> disbuf \<Rightarrow> disbuf \<Rightarrow> bool" where
  "changed_in P d e \<longleftrightarrow> same_shape d e \<and> (\<forall>q. inner_pix d q \<longrightarrow> \<not> P q \<longrightarrow> pix e q = pix d q)"

definition paints :: "(int \<times> int \<Rightarrow> bool) \<Rightarrow> drawing \<Rightarrow> bool" where
  "paints P f \<longleftrightarrow> (\<forall>d. area_ok P d \<longrightarrow> (\<exists>e. f d = Some e \<and> changed_in P d e))"

lemma changed_refl: "changed_in P d d"
  by (simp add: changed_in_def dis.same_refl)

lemma changed_trans: "changed_in P d e \<Longrightarrow> changed_in P e g \<Longrightarrow> changed_in P d g"
  unfolding changed_in_def using dis.same_trans dis.same_inner by metis

lemma changed_ok: "changed_in P d e \<Longrightarrow> area_ok P d \<Longrightarrow> area_ok P e"
  unfolding changed_in_def area_ok_def using dis.same_ok dis.same_inner by (metis same_shape_def disbuf.select_convs disbuf.surjective disbuf.update_convs)

lemma paints_Some [paints_intros]: "paints P Some"
  by (simp add: paints_def changed_refl)

lemma paints_bind [paints_intros]: "paints P f \<Longrightarrow> paints P g \<Longrightarrow> paints P (\<lambda>d. Option.bind (f d) g)"
  unfolding paints_def using changed_ok changed_trans by (metis Option.bind.bind_lunit)

lemma paints_if [paints_intros]: "(b \<Longrightarrow> paints P f) \<Longrightarrow> (\<not> b \<Longrightarrow> paints P g) \<Longrightarrow> paints P (\<lambda>d. if b then f d else g d)"
  by (cases b) simp_all

lemma paints_foldO [paints_intros]: "(\<And>i. i \<in> set is \<Longrightarrow> paints P (f i)) \<Longrightarrow> paints P (foldO f is)"
proof (induction "is")
  case Nil
  then show ?case by (simp add: paints_def changed_refl)
next
  case (Cons i "is")
  have "foldO f (i # is) = (\<lambda>d. Option.bind (f i d) (foldO f is))"
    by (rule ext) (simp split: option.splits)
  then show ?case using paints_bind [of P "f i" "foldO f is"] Cons by simp
qed

lemma paints_for_loop [paints_intros]: "(\<And>i. lo \<le> i \<Longrightarrow> i < hi \<Longrightarrow> paints P (f i)) \<Longrightarrow> paints P (for_loop lo hi f)"
  unfolding for_loop_def by (rule paints_foldO) auto

lemma paints_plot [paints_intros]: "P p \<Longrightarrow> paints P (plot f p)"
  unfolding paints_def area_ok_def changed_in_def using plot_inside by metis

lemma paints_set_pixel [paints_intros]: "P (x, y) \<Longrightarrow> paints P (set_pixel x y c)"
  unfolding set_pixel_def by (rule paints_plot)

lemma paints_set_wpixel [paints_intros]:
  "P (x, y - 1) \<Longrightarrow> P (x, y) \<Longrightarrow> P (x, y + 1) \<Longrightarrow> paints P (set_wpixel x y c)"
  unfolding set_wpixel_def by (intro paints_intros)

lemma paints_rectangle [paints_intros]:
  "(\<And>x y. x1 \<le> x \<Longrightarrow> x < x2 \<Longrightarrow> y1 \<le> y \<Longrightarrow> y < y2 \<Longrightarrow> P (x, y)) \<Longrightarrow> paints P (rectangle x1 y1 x2 y2 c)"
  unfolding rectangle_def by (intro paints_intros) auto

text \<open>The box of two points, with a margin.\<close>

definition near :: "int \<Rightarrow> int \<Rightarrow> int \<Rightarrow> int \<Rightarrow> int \<Rightarrow> int \<times> int \<Rightarrow> bool" where
  "near x1 y1 x2 y2 r p \<longleftrightarrow>
     min x1 x2 - r \<le> fst p \<and> fst p \<le> max x1 x2 + r \<and> min y1 y2 - r \<le> snd p \<and> snd p \<le> max y1 y2 + r"

lemma line_point_near:
  assumes "0 \<le> t" "t < Canvas.line_length x1 y1 x2 y2" "\<bar>w\<bar> \<le> r" "\<bar>v\<bar> \<le> r" "line_point x1 y1 x2 y2 t = (x, y)"
  shows "near x1 y1 x2 y2 r (x + w, y + v)"
proof (cases "\<bar>x2 - x1\<bar> > \<bar>y2 - y1\<bar>")
  case True
  then have "t < \<bar>x2 - x1\<bar>" using assms(2) by (simp add: Canvas.line_length_def)
  then show ?thesis using nearest_range [of t "\<bar>x2 - x1\<bar>" "\<bar>y2 - y1\<bar>"] assms True
    by (auto simp: near_def line_point_def Let_def split: if_splits)
next
  case False
  then have "t < \<bar>y2 - y1\<bar>" using assms(2) by (simp add: Canvas.line_length_def)
  then show ?thesis using nearest_range [of t "\<bar>y2 - y1\<bar>" "\<bar>x2 - x1\<bar>"] assms False
    by (auto simp: near_def line_point_def Let_def split: if_splits)
qed

lemma short_area: "area_ok P d \<Longrightarrow> P (x1, y1) \<Longrightarrow> P (x2, y2) \<Longrightarrow> short_line x1 y1 x2 y2"
  by (rule short_inside [of d]) (auto simp: area_ok_def inner_pix_def)

lemma paints_line [paints_intros]:
  assumes "\<And>p. near x1 y1 x2 y2 0 p \<Longrightarrow> P p" "ty \<in> {0, 1, 2, 3}"
  shows "paints P (line junk x1 y1 x2 y2 c ty)"
proof -
  have p: "P (line_point x1 y1 x2 y2 t)" if "0 \<le> t" "t < Canvas.line_length x1 y1 x2 y2" for t
    using line_point_near [OF that, of 0 0 0] assms(1) by (cases "line_point x1 y1 x2 y2 t") auto
  have "\<exists>e. line junk x1 y1 x2 y2 c ty d = Some e \<and> changed_in P d e" if ok: "area_ok P d" for d
  proof -
    let ?ps = "map (line_point x1 y1 x2 y2) (filter (\<lambda>t. t mod (line_pattern junk ty + 4) < line_pattern junk ty)
      [0..Canvas.line_length x1 y1 x2 y2 - 1])"
    have "paints P (foldO (plot (mode_fun (op_mode d) c)) ?ps)" by (intro paints_intros) (auto intro: p)
    moreover have "short_line x1 y1 x2 y2" by (rule short_area [OF ok]) (auto intro!: assms(1) simp: near_def)
    ultimately show ?thesis using ok line_points [of d ty x1 y1 x2 y2 junk c] assms(2) unfolding paints_def area_ok_def by auto
  qed
  then show ?thesis by (simp add: paints_def)
qed

lemma paints_plot_all [paints_intros]: "(\<And>p. p \<in> set ps \<Longrightarrow> P p) \<Longrightarrow> paints P (plot_all c ps)"
  unfolding plot_all_def by (intro paints_intros)

lemma paints_wline_turn:
  assumes "\<And>p. near x1 y1 x2 y2 r p \<Longrightarrow> P p" "\<And>w. w \<in> set ws \<Longrightarrow> \<bar>w\<bar> \<le> r" "0 \<le> r"
  shows "paints P (wline_turn x1 y1 x2 y2 c ws)"
proof -
  have across: "P p" if "p \<in> set (map (\<lambda>w. (a, b + w)) ws)" "(a, b) = line_point x1 y1 x2 y2 t" "0 \<le> t" "t < Canvas.line_length x1 y1 x2 y2" for a b t p
    using that(1) assms(2) line_point_near [OF that(3,4), of 0 r _ a b] that(2) assms(1) by force
  have along: "P p" if "p \<in> set (map (\<lambda>w. (a + w, b)) ws)" "(a, b) = line_point x1 y1 x2 y2 t" "0 \<le> t" "t < Canvas.line_length x1 y1 x2 y2" for a b t p
    using that(1) assms(2) line_point_near [OF that(3,4), of _ r 0 a b] that(2) assms(1) by force
  have e: "P (x2 + w, y2)" "P (x2, y2 + w)" if "w \<in> set ws" for w
    using assms(2) [OF that] by (auto intro!: assms(1) simp: near_def)
  have short: "paints P (wline_turn x1 y1 x2 y2 c ws)" if sh: "short_line x1 y1 x2 y2"
  proof -
    note start = wline_turn_def Let_def sign_split prod.case short_eighths [OF sh, THEN conjunct1] short_eighths [OF sh, THEN conjunct2]
      Option.bind.bind_lunit
    show ?thesis
    proof (cases "\<bar>x2 - x1\<bar> > \<bar>y2 - y1\<bar>")
      case True
      have len: "Canvas.line_length x1 y1 x2 y2 = \<bar>x2 - x1\<bar>" using True by (simp add: Canvas.line_length_def)
      have m: "\<bar>x2 - x1\<bar> \<le> 8192" using sh by (simp add: short_line_def)
      note r = raster_wide [OF True m]
      show ?thesis
        unfolding start if_P [OF True]
      proof (intro paints_intros)
        fix t assume t: "0 \<le> t" "t < \<bar>x2 - x1\<bar>"
        show "paints P (\<lambda>d. raster_at (if x2 - x1 < 0 then - 1 else 1) ((y2 - y1) * 8)
            (((if y2 - y1 < 0 then - 1 else 1) * ((x2 - x1) * 8)) sdiv 2) ((x2 - x1) * 8) t \<bind>
            (\<lambda>y. plot_all c (map (\<lambda>w. (x1 + t * (if x2 - x1 < 0 then - 1 else 1), y1 + y + w)) ws) d))"
          unfolding r(1) [OF t] Option.bind.bind_lunit
          by (intro paints_plot_all, erule across [OF _ r(2) [OF t] t(1)]) (use t in \<open>simp add: len\<close>)
      qed (use e in auto)
    next
      case False
      have len: "Canvas.line_length x1 y1 x2 y2 = \<bar>y2 - y1\<bar>" using False by (simp add: Canvas.line_length_def)
      have m: "\<bar>y2 - y1\<bar> \<le> 8192" using sh by (simp add: short_line_def)
      note r = raster_steep [OF False m]
      show ?thesis
        unfolding start if_not_P [OF False]
      proof (intro paints_intros)
        fix t assume t: "0 \<le> t" "t < \<bar>y2 - y1\<bar>"
        show "paints P (\<lambda>d. raster_at (if y2 - y1 < 0 then - 1 else 1) ((x2 - x1) * 8)
            (((if x2 - x1 < 0 then - 1 else 1) * ((y2 - y1) * 8)) sdiv 2) ((y2 - y1) * 8) t \<bind>
            (\<lambda>x. plot_all c (map (\<lambda>w. (x1 + x + w, y1 + t * (if y2 - y1 < 0 then - 1 else 1))) ws) d))"
          unfolding r(1) [OF t] Option.bind.bind_lunit
          by (intro paints_plot_all, erule along [OF _ r(2) [OF t] t(1)]) (use t in \<open>simp add: len\<close>)
      qed (use e in auto)
    qed
  qed
  have "\<exists>e. wline_turn x1 y1 x2 y2 c ws d = Some e \<and> changed_in P d e" if ok: "area_ok P d" for d
  proof -
    have "near x1 y1 x2 y2 r (x1, y1)" "near x1 y1 x2 y2 r (x2, y2)" using assms(3) by (auto simp: near_def)
    then have "short_line x1 y1 x2 y2" using short_area [OF ok] assms(1) by blast
    then show ?thesis using short ok by (simp add: paints_def)
  qed
  then show ?thesis by (simp add: paints_def)
qed

lemma paints_wline [paints_intros]:
  assumes "\<And>p. near x1 y1 x2 y2 r p \<Longrightarrow> P p" "1 \<le> r" "wd sdiv 2 \<le> r"
  shows "paints P (wline x1 y1 x2 y2 c wd)"
  using assms(3)
proof (induction "nat wd" arbitrary: wd rule: less_induct)
  case less
  show ?case
  proof (cases "wd > 3")
    case True
    have "paints P (wline_turn x1 y1 x2 y2 c [- (wd sdiv 2), wd sdiv 2])"
      using True less.prems assms(2) by (intro paints_wline_turn [OF assms(1)]) (auto simp: sdiv_nonneg)
    moreover have "paints P (wline x1 y1 x2 y2 c (wd - 2))"
      using True less.prems by (intro less.hyps) (auto simp: sdiv_nonneg)
    moreover have "wline x1 y1 x2 y2 c wd =
        (\<lambda>d. Option.bind (wline_turn x1 y1 x2 y2 c [- (wd sdiv 2), wd sdiv 2] d) (wline x1 y1 x2 y2 c (wd - 2)))"
      using True by (intro ext, subst wline.simps) (simp split: option.splits)
    ultimately show ?thesis by (simp add: paints_bind)
  next
    case False
    then have "wline x1 y1 x2 y2 c wd = wline_turn x1 y1 x2 y2 c [- 1, 0, 1]"
      by (intro ext, subst wline.simps) simp
    moreover have "paints P (wline_turn x1 y1 x2 y2 c [- 1, 0, 1])"
      by (rule paints_wline_turn [where r = r]) (use assms in auto)
    ultimately show ?thesis by simp
  qed
qed

section \<open>Charts stay in their area\<close>

definition chart_ok :: "chart \<Rightarrow> bool" where
  "chart_ok c \<longleftrightarrow> 0 \<le> width c \<and> 0 < height c \<and>
     length (data_yn c) = length (series_type c) \<and> length (data_value c) = length (series_type c) \<and>
     length (data_color c) = length (series_type c) \<and>
     (\<forall>r\<in>set (data_yn c). int (length r) = width c) \<and> (\<forall>r\<in>set (data_value c). int (length r) = width c) \<and>
     (\<forall>r\<in>set (data_color c). int (length r) = width c)"

lemma chart_cells:
  assumes "chart_ok c" "0 \<le> grp" "grp < dataset_num c"
  shows "aget (data_yn c) grp = Some (data_yn c ! nat grp) \<and> aget (data_value c) grp = Some (data_value c ! nat grp) \<and>
    aget (data_color c) grp = Some (data_color c ! nat grp) \<and> aget (series_type c) grp = Some (series_type c ! nat grp) \<and>
    int (length (data_yn c ! nat grp)) = width c \<and> int (length (data_value c ! nat grp)) = width c \<and>
    int (length (data_color c ! nat grp)) = width c"
  using assms unfolding chart_ok_def dataset_num_def by (auto simp: mem_simps nat_less_iff)

text \<open>The chart, the row below it and a margin.\<close>

definition chart_area :: "chart \<Rightarrow> int \<Rightarrow> int \<times> int \<Rightarrow> bool" where
  "chart_area c r p \<longleftrightarrow> left c - r \<le> fst p \<and> fst p < left c + width c + r \<and> topp c - r \<le> snd p \<and> snd p \<le> topp c + height c + r"

definition margin :: "chart \<Rightarrow> int" where
  "margin c = max 1 (bar_width c sdiv 2)"

lemma near_area:
  assumes "near x1 y1 x2 y2 r p" "r \<le> m"
    and "left c \<le> x1" "x1 < left c + width c" "left c \<le> x2" "x2 < left c + width c"
    and "topp c \<le> y1" "y1 \<le> topp c + height c" "topp c \<le> y2" "y2 \<le> topp c + height c"
  shows "chart_area c m p"
  using assms by (auto simp: near_def chart_area_def)

lemma paints_curve_dot:
  "left c \<le> x \<Longrightarrow> x < left c + width c \<Longrightarrow> topp c \<le> y \<Longrightarrow> y \<le> topp c + height c \<Longrightarrow> 1 \<le> m \<Longrightarrow>
   paints (chart_area c m) (curve_dot c x y color)"
  unfolding curve_dot_def by (cases "wide_line c") (auto intro!: paints_intros simp: chart_area_def)

lemma paints_curve_line:
  assumes "left c \<le> x1" "x1 < left c + width c" "left c \<le> x" "x < left c + width c"
    and "topp c \<le> y1" "y1 \<le> topp c + height c" "topp c \<le> y" "y \<le> topp c + height c" "1 \<le> m"
  shows "paints (chart_area c m) (curve_line env c x1 y1 x y color)"
proof -
  have a: "chart_area c m p" if "near x1 y1 x y r p" "r \<le> 1" for r p
    using near_area [OF that(1), of m c] that(2) assms by auto
  have "paints (chart_area c m) (\<lambda>d. if wide_line c then wline x1 y1 x y color 0 d else line (ch_junk env) x1 y1 x y color 0 d)"
    using a [of 1] a [of 0] by (intro paints_if paints_wline [where r = 1] paints_line) auto
  then show ?thesis
    unfolding curve_line_def using paints_curve_dot [of c x y m color] assms by (intro paints_bind) auto
qed

text \<open>The state of the quick curve between two columns: the former place is in the chart, unless no point precedes.\<close>

definition quick_ok :: "chart \<Rightarrow> int \<Rightarrow> disbuf \<Rightarrow> int \<times> int \<times> bool \<times> disbuf \<Rightarrow> bool" where
  "quick_ok c m d st = (case st of (x1, y1, start, e) \<Rightarrow>
     changed_in (chart_area c m) d e \<and> (start \<or> left c \<le> x1 \<and> x1 < left c + width c \<and> topp c \<le> y1 \<and> y1 \<le> topp c + height c))"

lemma quick_column_step:
  assumes "chart_ok c" "0 \<le> grp" "grp < dataset_num c" "0 \<le> i" "i < width c - 1" "1 \<le> m" "area_ok (chart_area c m) d" "quick_ok c m d st"
  shows "\<exists>st'. quick_column env c grp i st = Some st' \<and> quick_ok c m d st'"
proof -
  obtain x1 y1 start e where st: "st = (x1, y1, start, e)" by (cases st)
  let ?x = "left c + i + 1" and ?y = "base_row c - data_value c ! nat grp ! nat i" and ?color = "data_color c ! nat grp ! nat i"
  have e: "changed_in (chart_area c m) d e" "area_ok (chart_area c m) e"
    using assms(7,8) changed_ok by (auto simp: st quick_ok_def)
  have paint: "\<exists>g. f e = Some g \<and> changed_in (chart_area c m) d g" if "paints (chart_area c m) f" for f
    using that e changed_trans unfolding paints_def by blast
  have x: "left c \<le> ?x" "?x < left c + width c" using assms(4,5) by auto
  have cells: "aget (data_yn c ! nat grp) i = Some (data_yn c ! nat grp ! nat i)"
    "aget (data_value c ! nat grp) i = Some (data_value c ! nat grp ! nat i)"
    "aget (data_color c ! nat grp) i = Some (data_color c ! nat grp ! nat i)"
    using chart_cells [OF assms(1-3)] assms(4,5) by (auto simp: mem_simps)
  have dot: "\<exists>g. curve_dot c ?x ?y ?color e = Some g \<and> changed_in (chart_area c m) d g" if "topp c \<le> ?y" "?y \<le> topp c + height c"
    using that x assms(6) by (intro paint paints_curve_dot)
  have ln: "\<exists>g. curve_line env c x1 y1 ?x ?y ?color e = Some g \<and> changed_in (chart_area c m) d g"
    if "topp c \<le> ?y" "?y \<le> topp c + height c" "\<not> start"
    using that x assms(6,8) by (intro paint paints_curve_line) (auto simp: st quick_ok_def)
  note g = chart_cells [OF assms(1-3)]
  have run: "quick_column env c grp i st =
     (if \<not> data_yn c ! nat grp ! nat i then Some (?x, y1, True, e)
      else if ?y < topp c then Some (?x, topp c, start, e)
      else if ?y > topp c + height c - 1 then Some (?x, topp c + height c, start, e)
      else Option.bind (if ?y - y1 < 2 \<and> ?y - y1 > - 2 \<and> ?x - x1 < 2 \<and> ?x - x1 > - 2 \<or> start then curve_dot c ?x ?y ?color e
                        else curve_line env c x1 y1 ?x ?y ?color e) (\<lambda>d. Some (?x, ?y, False, d)))"
    by (simp only: quick_column_def st prod.case Let_def g Option.bind.bind_lunit cells)
  have h: "0 < height c" using assms(1) by (simp add: chart_ok_def)
  show ?thesis
  proof (cases "data_yn c ! nat grp ! nat i \<and> \<not> ?y < topp c \<and> \<not> ?y > topp c + height c - 1")
    case True
    then have y: "topp c \<le> ?y" "?y \<le> topp c + height c" by auto
    have "\<exists>g. (if ?y - y1 < 2 \<and> ?y - y1 > - 2 \<and> ?x - x1 < 2 \<and> ?x - x1 > - 2 \<or> start then curve_dot c ?x ?y ?color e
        else curve_line env c x1 y1 ?x ?y ?color e) = Some g \<and> changed_in (chart_area c m) d g"
      using dot [OF y] ln [OF y] by presburger
    then obtain g where "quick_column env c grp i st = Some (?x, ?y, False, g)" "changed_in (chart_area c m) d g"
      unfolding run using True by auto
    then show ?thesis using x y by (simp add: quick_ok_def)
  next
    case False
    then show ?thesis
      unfolding run using x h e(1) assms(8) by (auto simp: quick_ok_def st)
  qed
qed

lemma paints_quick_curve:
  assumes "chart_ok c" "0 \<le> grp" "grp < dataset_num c" "1 \<le> m"
  shows "paints (chart_area c m) (quick_curve env c grp)"
proof -
  have "\<exists>e. quick_curve env c grp d = Some e \<and> changed_in (chart_area c m) d e" if d: "area_ok (chart_area c m) d" for d
  proof -
    have "\<exists>st. for_loop 0 (width c - 1) (quick_column env c grp) (left c + 1, base_row c, True, d) = Some st \<and> quick_ok c m d st"
      by (rule for_loop_total [where P = "quick_ok c m d"])
        (simp add: quick_ok_def changed_refl, rule quick_column_step [OF assms(1-3) _ _ assms(4) d])
    then show ?thesis unfolding quick_curve_def quick_ok_def by auto
  qed
  then show ?thesis by (simp add: paints_def)
qed

lemma paints_marks:
  assumes "chart_ok c" "0 \<le> grp" "grp < dataset_num c"
    and "\<And>x y color. left c \<le> x \<Longrightarrow> x < left c + width c \<Longrightarrow> topp c \<le> y \<Longrightarrow> y < topp c + height c \<Longrightarrow> paints P (f x y color)"
  shows "paints P (marks c grp f)"
  unfolding marks_def
proof (rule paints_for_loop)
  fix i assume i: "0 \<le> i" "i < width c"
  note g = chart_cells [OF assms(1-3)]
  have cells: "aget (data_yn c ! nat grp) i = Some (data_yn c ! nat grp ! nat i)"
    "aget (data_value c ! nat grp) i = Some (data_value c ! nat grp ! nat i)"
    "aget (data_color c ! nat grp) i = Some (data_color c ! nat grp ! nat i)"
    using g i by (auto simp: mem_simps)
  let ?y = "clip_row c (base_row c - data_value c ! nat grp ! nat i)"
  have y: "topp c \<le> ?y" "?y < topp c + height c"
    using assms(1) by (auto simp: clip_row_def chart_ok_def Let_def)
  have "paints P (\<lambda>d. if \<not> data_yn c ! nat grp ! nat i then Some d else f (left c + i) ?y (data_color c ! nat grp ! nat i) d)"
    by (rule paints_if [OF paints_Some assms(4)]) (use i y in auto)
  then show "paints P (\<lambda>d. do { yn \<leftarrow> aget (data_yn c) grp; b \<leftarrow> aget yn i; if \<not> b then Some d
      else do { va \<leftarrow> aget (data_value c) grp; v \<leftarrow> aget va i; co \<leftarrow> aget (data_color c) grp; color \<leftarrow> aget co i;
                f (left c + i) (clip_row c (base_row c - v)) color d } })"
    by (simp only: g cells Option.bind.bind_lunit)
qed

text \<open>
  C17. Drawing the data of a chart that lies in the display (of at most 8192 by 8192 pixels), with a margin for wide bars, never leaves the
  display buffer, whatever the values are, and changes no pixel outside the chart, the row below it and the margin: for all kinds of series but the general curve.
\<close>

theorem chart_data_drawn:
  assumes "chart_ok c" "0 \<le> grp" "grp < dataset_num c" "series_type c ! nat grp \<noteq> kSeriesLine"
    and "0 \<le> position (axis_x c)" "position (axis_x c) < 1000" "area_ok (chart_area c (margin c)) d"
  shows "\<exists>e. draw_data env c grp d = Some e \<and> changed_in (chart_area c (margin c)) d e"
proof -
  let ?P = "chart_area c (margin c)"
  have m: "1 \<le> margin c" "bar_width c sdiv 2 \<le> margin c" by (simp_all add: margin_def)
  have h: "0 < height c" using assms(1) by (simp add: chart_ok_def)
  have less: "n div 1000 < k" if "n \<le> 999 * k" "0 < k" for n k :: int
    using that mult_div_mod_eq [of 1000 n] pos_mod_sign [of 1000 n] by linarith
  have "position (axis_x c) * height c \<le> 999 * height c"
    using assms(6) h by (intro mult_right_mono) auto
  then have "(position (axis_x c) * height c) div 1000 < height c"
    using h by (rule less)
  moreover have "0 \<le> (position (axis_x c) * height c) div 1000" using assms(5) h by (simp add: pos_imp_zdiv_nonneg_iff)
  ultimately have b: "topp c \<le> base_row c" "base_row c < topp c + height c"
    using assms(5) h by (auto simp: base_row_def sdiv_nonneg)
  have "paints ?P (marks c grp (\<lambda>x y color. wline x (base_row c) x y color (bar_width c)))"
    using b m by (intro paints_marks [OF assms(1-3)] paints_wline [where r = "margin c"]) (auto intro: near_area)
  moreover have "paints ?P (marks c grp (\<lambda>x y color. rectangle (x - 1) (y - 1) (x + 2) (y + 2) color))"
    using m by (intro paints_marks [OF assms(1-3)] paints_rectangle) (auto simp: chart_area_def)
  moreover have "paints ?P (quick_curve env c grp)"
    by (rule paints_quick_curve [OF assms(1-3) m(1)])
  ultimately have "\<exists>e. (case series_type c ! nat grp of kSeriesQLine \<Rightarrow> quick_curve env c grp d
       | kSeriesLine \<Rightarrow> general_curve env c grp d
       | kSeriesBar \<Rightarrow> marks c grp (\<lambda>x y color. wline x (base_row c) x y color (bar_width c)) d
       | kSeriesPoint \<Rightarrow> marks c grp (\<lambda>x y color. rectangle (x - 1) (y - 1) (x + 2) (y + 2) color) d
       | Other_type \<Rightarrow> Some d) = Some e \<and> changed_in ?P d e"
    using assms(4,7) changed_refl [of ?P d] unfolding paints_def by (cases "series_type c ! nat grp") auto
  then obtain e where e: "draw_data env c grp d = Some (setmode DISOPUN e)" "changed_in ?P d e"
    using chart_cells [OF assms(1-3)] unfolding draw_data_def by auto
  have "setmode DISOPUN e = e"
    using changed_ok [OF e(2) assms(7)] by (simp add: area_ok_def setmode_def)
  then show ?thesis using e by auto
qed

definition demo_chart :: chart where
  "demo_chart = (new_chart (\<lambda>_. 7) \<lparr>m_types = [kSeriesBar], m_values = [0, 0, 0, 0], m_colors = [5, 5, 5, 5]\<rparr> False False 4 3 1)
     \<lparr>left := 2, topp := 2, data_yn := [[True, True, False, True]], data_value := [[0, 100, 0, - 7]]\<rparr>"

definition demo_display :: disbuf where
  "demo_display = new_disbuf (replicate 240 0) 12 10 10 8"

theorem chart_data_drawn_witness:
  "\<exists>e. draw_data \<lparr>ch_junk = 0, ch_behind = 0, float_fmt = (\<lambda>x m n. 0)\<rparr> demo_chart 0 demo_display = Some e \<and> pix e (0, 0) = 0"
proof -
  have c: "chart_ok demo_chart" "dataset_num demo_chart = 1" "series_type demo_chart ! 0 = kSeriesQLine" "margin demo_chart = 1"
    "position (axis_x demo_chart) = 500"
    by (simp_all add: demo_chart_def new_chart_def alloc_mem_def chart_ok_def dataset_num_def margin_def init_axis_def Let_def sdiv_nonneg)
  have d: "inner_pix demo_display (x, y) = (0 \<le> x \<and> x < 10 \<and> 0 \<le> y \<and> y < 8)" for x y
    by (simp add: inner_pix_def inside_def demo_display_def new_disbuf_def)
  have "area_ok (chart_area demo_chart 1) demo_display"
    by (auto simp: area_ok_def chart_area_def d) (simp_all add: demo_chart_def new_chart_def alloc_mem_def demo_display_def new_disbuf_def wf_dis_def DISOPUN_def)
  then obtain e where e: "draw_data \<lparr>ch_junk = 0, ch_behind = 0, float_fmt = (\<lambda>x m n. 0)\<rparr> demo_chart 0 demo_display = Some e"
    "changed_in (chart_area demo_chart 1) demo_display e"
    using chart_data_drawn [of demo_chart 0 demo_display "\<lparr>ch_junk = 0, ch_behind = 0, float_fmt = (\<lambda>x m n. 0)\<rparr>"] c by auto
  have "\<not> chart_area demo_chart 1 (0, 0)"
    by (simp add: chart_area_def demo_chart_def new_chart_def alloc_mem_def)
  then have "pix e (0, 0) = pix demo_display (0, 0)"
    using e(2) d [of 0 0] by (simp add: changed_in_def)
  also have "\<dots> = 0" by (simp add: pix_def demo_display_def new_disbuf_def)
  finally show ?thesis using e(1) by blast
qed

section \<open>Points\<close>

text \<open>A point is stored in its column, when the range that is drawn ends before the last column, and the chart stays as it is otherwise.\<close>

lemma column_range:
  assumes "0 \<le> p" "p \<le> dots c" "0 < dots c" "0 \<le> draw_range c"
  shows "\<exists>j. column c p = Some j \<and> start_point c \<le> j \<and> j \<le> start_point c + draw_range c"
proof -
  have "p * draw_range c \<le> dots c * draw_range c" using assms by (intro mult_right_mono)
  then have "(p * draw_range c) div dots c \<le> (draw_range c * dots c) div dots c"
    using assms(3) by (intro zdiv_mono1) (simp_all add: mult.commute)
  then show ?thesis
    using assms by (auto simp: column_def sdiv_nonneg pos_imp_zdiv_nonneg_iff)
qed

definition stored :: "int \<Rightarrow> int \<Rightarrow> int \<Rightarrow> u32 \<Rightarrow> chart \<Rightarrow> chart" where
  "stored grp j v color c =
     c\<lparr>data_yn := (data_yn c)[nat grp := (data_yn c ! nat grp)[nat j := True]],
       data_color := (data_color c)[nat grp := (data_color c ! nat grp)[nat j := color]],
       data_value := (data_value c)[nat grp := (data_value c ! nat grp)[nat j := v]]\<rparr>"

lemma rows_stay:
  assumes "\<forall>r\<in>set xs. int (length r) = w" "int (length q) = w"
  shows "\<forall>r\<in>set (xs[n := q]). int (length r) = w"
  using assms set_update_subset_insert [of xs n q] by auto

lemma stored_ok:
  assumes "chart_ok c" "0 \<le> grp" "grp < dataset_num c"
  shows "chart_ok (stored grp j v color c)"
proof -
  have l: "int (length (data_yn c ! nat grp)) = width c" "int (length (data_value c ! nat grp)) = width c"
    "int (length (data_color c ! nat grp)) = width c"
    using chart_cells [OF assms] by auto
  have e: "width (stored grp j v color c) = width c" "height (stored grp j v color c) = height c"
    "series_type (stored grp j v color c) = series_type c"
    "data_yn (stored grp j v color c) = (data_yn c)[nat grp := (data_yn c ! nat grp)[nat j := True]]"
    "data_value (stored grp j v color c) = (data_value c)[nat grp := (data_value c ! nat grp)[nat j := v]]"
    "data_color (stored grp j v color c) = (data_color c)[nat grp := (data_color c ! nat grp)[nat j := color]]"
    by (simp_all add: stored_def)
  show ?thesis
    using assms(1) unfolding chart_ok_def e length_list_update
    by (elim conjE) (intro conjI rows_stay, simp_all only: length_list_update l)
qed

lemma put_point_stored:
  assumes "chart_ok c" "0 \<le> grp" "grp < dataset_num c" "0 \<le> j" "j < width c"
  shows "put_point grp j v color c = Some (stored grp j v color c)"
proof -
  note g = chart_cells [OF assms(1-3)]
  have l: "int (length (data_yn c)) = dataset_num c" "int (length (data_value c)) = dataset_num c" "int (length (data_color c)) = dataset_num c"
    using assms(1) by (simp_all add: chart_ok_def dataset_num_def)
  have s: "aset (data_yn c ! nat grp) j True = Some ((data_yn c ! nat grp)[nat j := True])"
    "aset (data_value c ! nat grp) j v = Some ((data_value c ! nat grp)[nat j := v])"
    "aset (data_color c ! nat grp) j color = Some ((data_color c ! nat grp)[nat j := color])"
    using g assms(4,5) by (simp_all add: aset_def)
  have t: "aset (data_yn c) grp x = Some ((data_yn c)[nat grp := x])"
    "aset (data_value c) grp y = Some ((data_value c)[nat grp := y])"
    "aset (data_color c) grp z = Some ((data_color c)[nat grp := z])" for x y z
    using l assms(2,3) by (simp_all add: aset_def)
  show ?thesis
    by (simp only: put_point_def g s t Option.bind.bind_lunit stored_def)
qed

text \<open>
  A point of a chart whose drawn range ends before the last column is stored in its column.
\<close>

lemma add_data_stored:
  assumes "chart_ok c" "0 \<le> grp" "grp < dataset_num c" "0 \<le> p" "p < dots c" "y_scale c \<noteq> 0"
    and "0 \<le> start_point c" "0 \<le> draw_range c" "start_point c + draw_range c < width c"
  shows "\<exists>j v. column c (p + 1) = Some j \<and> pixels c x = Some v \<and>
    add_data p x color grp c = Some ((stored grp j v color c)\<lparr>ch_update := True\<rparr>)"
proof -
  obtain j where j: "column c (p + 1) = Some j" "0 \<le> j" "j < width c"
    using column_range [of "p + 1" c] assms(4,5,7-9) by fastforce
  moreover obtain v where "pixels c x = Some v" using assms(6) by (simp add: pixels_def Let_def)
  ultimately show ?thesis
    using put_point_stored [OF assms(1-3) j(2,3)] assms(5) by (simp add: add_data_def)
qed

text \<open>With the default range, which is the width of the chart, the last point is written behind the arrays.\<close>

lemma last_point_outside:
  assumes "chart_ok c" "0 \<le> grp" "grp < dataset_num c" "start_point c = 0" "draw_range c = width c" "x_dotnum c = 0" "0 < width c"
  shows "add_data (width c - 1) x color grp c = None"
proof -
  have "column c (width c) = Some (width c)"
    using assms by (simp add: column_def dots_def sdiv_nonneg)
  moreover have "put_point grp (width c) v color c = None" for v
    using chart_cells [OF assms(1-3)] by (simp add: put_point_def aset_def)
  ultimately show ?thesis
    using assms by (cases "pixels c x") (simp_all add: add_data_def dots_def)
qed

section \<open>Defects\<close>

text \<open>The general curve always reads behind the last column.\<close>

lemma first_point_inside: "first_point yn (int (length yn)) i = Some k \<Longrightarrow> k < int (length yn)"
proof (induction yn "int (length yn)" i rule: first_point.induct)
  case (1 yn i)
  show ?case using "1.prems" "1.hyps"
    by (subst (asm) first_point.simps) (auto simp: aget_def Option.bind_eq_Some_conv split: if_splits)
qed

lemma line_series_overruns:
  assumes "chart_ok c" "0 \<le> grp" "grp < dataset_num c" "series_type c ! nat grp = kSeriesLine"
  shows "draw_data env c grp d = None"
proof -
  note g = chart_cells [OF assms(1-3)]
  let ?yn = "data_yn c ! nat grp"
  have out: "aget ?yn (width c) = None" using g by (simp add: aget_def)
  have "for_loop i (width c + 1) (line_column env c grp) st = None" if "i < width c" for i st
  proof -
    have "[i..width c] = [i..width c - 1] @ [width c]" using that upto_rec2 [of i "width c"] by simp
    moreover have "line_column env c grp (width c) st' = None" for st'
      using g out by (cases st') (simp add: line_column_def)
    ultimately show ?thesis by (simp add: for_loop_def foldO_append split: option.splits)
  qed
  then have "general_curve env c grp d = None"
    using g first_point_inside [of ?yn 0] by (auto simp: general_curve_def Option.bind_eq_None_conv split: bind_split)
  then show ?thesis using g assms(4) by (simp add: draw_data_def)
qed

text \<open>
  The number of decimals of the label at the origin is the value there: from 22 on, the text does not fit into its 24 characters.
\<close>

lemma fixed_point_length: "0 < p \<Longrightarrow> p + 2 \<le> length (fixed_point p x)"
proof -
  assume p: "0 < p"
  let ?n = "nat (half_even (\<bar>x\<bar> * 10 ^ p))"
  have "dec n \<noteq> []" for n by (subst dec.simps) auto
  then have "1 \<le> length (dec (?n div 10 ^ p))" by (simp add: Suc_le_eq)
  moreover have "length (fixed_point p x) = (if x < 0 then 1 else 0) + length (dec (?n div 10 ^ p)) + 1 +
      (p - length (dec (?n mod 10 ^ p)) + length (dec (?n mod 10 ^ p)))"
    using p by (simp add: fixed_point_def Let_def)
  ultimately show ?thesis by linarith
qed

lemma origin_label_overruns:
  assumes "labels_visible a" "ticks_origin a" "22 \<le> start_value a"
  shows "draw_staff env c a vert p 0 False d = None"
proof -
  have t: "22 \<le> trunc_rat (start_value a)" using assms(3) by (simp add: trunc_rat_def le_floor_iff)
  have len: "24 \<le> length (float_text (labels_align a) (val_prec a + 1) (trunc_rat (start_value a)) x)" for x
    using fixed_point_length [of "nat (trunc_rat (start_value a))" x] t by (auto simp: float_text_def Let_def)
  have "\<not> length (to_bytes (float_text (labels_align a) (val_prec a + 1) (trunc_rat (start_value a)) x) @ val_unit a) + 1 \<le> 24" for x
    using len [of x] by (simp add: to_bytes_def)
  then have "put_label env a (trunc_rat (start_value a)) x xl yl shown e = None" for x xl yl shown e
    unfolding put_label_def Let_def by (simp only: not_le if_True)
  then show ?thesis
    using assms by (auto simp: draw_staff_def Let_def Option.bind_eq_None_conv)
qed

end
