(* ===== verification/Spec2Isabelle.thy ===== *)
theory Spec2Isabelle
  imports Loop_Buf_Sort Msg_Queue Phy_PqB Irig Md5 Canvas Vga Rec_File Transt Generic Dispatch Widgets Set_Login Other_Func Transt_Anal Gui_Proto Harm_Func Net_Para App_Param Harm_Calc Chart
begin

text \<open>
  Verification development of the power quality monitor (dpqnet-emctrl).

  \<^bold>\<open>The program.\<close>  Two processes on an embedded target.  The measuring process (\<open>main/src\<close>) takes samples and
  spectra of the voltages and currents, derives steady state data, watches limits, records rapid changes, saves
  records to files of one day each and answers a remote station over a serial line or a socket.  The screen process
  (\<open>gui/src\<close>) draws the data into a display buffer, copies it to a frame buffer and lets an operator change
  the settings from a keyboard.  Both use the library \<open>common\<close>: ring buffers, queues between threads, the
  communication stack, and the time of day.

  How the parts interact: a device gives bytes to the dispatcher (\<open>CommuDisptchr::CeiveTrans\<close>), which lets
  the physical layer cut frames out of them and hands each frame to the command handler (\<open>AppPrtclPqB\<close>); its
  answers go back through the physical layer.  The command handler logs users in, reads records with the record files
  and looks events up in the ring of event times.  A handler that runs every second (\<open>SaveFunc::OnTime\<close>)
  notifies the save thread through the linked queues, which appends to the record files, whose dates are kept in a sorted
  ring.  The settings pages drive the editing of values and the pass word checks; labels, tabs and figures draw through the
  display buffer.

  \<^bold>\<open>Theories\<close>, in the order of their imports (paths under \<open>src/\<close>).

  \<^item> \<open>Prelude\<close>: arrays as lists whose accesses fail (None) outside their bounds (\<open>aget\<close>, \<open>aset\<close>, \<open>aslice\<close>,
    \<open>blit\<close>), counting loops \<open>for_loop\<close> with their total and invariant rules, masks, truncating division, bytes of an integer.
  \<^item> \<open>Loop_Buf\<close>: \<open>LoopBufBase\<close>, \<open>LoopBuffer\<close>, \<open>LoopPointer\<close>, \<open>LoopBufSV\<close> (\<open>common/misc\<close>,
    \<open>main/src/IED/loopbuf_sv.h\<close>).  \<open>lb_list\<close> abstracts a ring to the list of its elements; the locale \<open>bounded_queue\<close>
    states what a ring promises and is interpreted on the rings of values and of pointers.  The clients below rest on its facts.
  \<^item> \<open>Loop_Buf_Sort\<close>: \<open>LoopBufSort\<close> with its file; the locale \<open>keyed_cmp\<close> is the contract of the
    comparison function, interpreted on \<open>CompareInt\<close> of \<open>Generic\<close> (\<open>common/misc/generic.cpp\<close>, \<open>format_convrt.cpp\<close>).
  \<^item> \<open>Thread_Queue\<close>, \<open>Msg_Queue\<close>: \<open>common/thread\<close> and \<open>common/data/message_queue.cpp\<close> with both of its
    clients; nodes in a heap, the locale \<open>fifo\<close> interpreted on \<open>queue_put\<close> and \<open>queue_get\<close>.
  \<^item> \<open>Phy_PqB\<close>, \<open>App_Pq\<close>, \<open>App_PqB\<close>, \<open>Dispatch\<close>: the communication stack (\<open>common/commu\<close>): framing and check
    sum, the remote session (log in, users, limits), the command handler with its gate and reply window, the dispatcher.  The
    locale \<open>gated_layer\<close> is what the dispatcher needs of a handler to keep strangers out; \<open>CmdReceive\<close> fills it.
  \<^item> \<open>Floats\<close>: the values of the type \<open>float\<close> and the rounding to them, for the capacities that \<open>App_Param\<close> stores in tenths.
  \<^item> \<open>App_Param\<close>, \<open>Net_Para\<close>: the parameter requests of the remote session (\<open>app_prtcl_pq.cpp\<close>: parameters of the line, limits of
    events, ratios, hidden parameters, addresses, firmware), and the scripts in which the network settings are kept (\<open>gui/src/device/net.cpp\<close>);
    a request is followed through the command handler (\<open>hidden_parameters_open_gate\<close>) and into the script (\<open>address_read_back\<close>).
  \<^item> \<open>Gui_Proto\<close>: the protocol between the two processes (\<open>common/commu/protocol/app_prtcl_guic.cpp\<close>, \<open>app_prtcl_guis.cpp\<close>) over the message queues.
  \<^item> \<open>Irig\<close>: the GPS clock (\<open>app_prtcl_gps.cpp\<close>), a decoder of IRIG-B elements that sets the clock.
  \<^item> \<open>Clock\<close>, \<open>Save_Sched\<close>, \<open>Rec_File\<close>, \<open>Transt\<close>: the calendar and timers (\<open>common/time\<close>), when records are due
    and the record files (\<open>main/src/pqm_func/save_func.cpp\<close>), the search for events (\<open>app_prtcl_pqb.cpp\<close>).
  \<^item> \<open>Pqm_Func\<close>, \<open>Other_Func\<close>, \<open>Transt_Anal\<close>, \<open>Harm_Func\<close>: the measured data (\<open>main/src/pqm_func\<close>: \<open>pqmfunc.cpp\<close>, \<open>other_func.cpp\<close>,
    \<open>transt_analysis.cpp\<close>, \<open>harmfunc.cpp\<close>, \<open>harmbase.cpp\<close>): alignment of phases and time stamps, calibration, direct component, frequency,
    alarms, flicker, dips and swells; amplitudes and phases of the harmonics, their limits, the record of the interharmonics.
  \<^item> \<open>Harm_Calc\<close>: what is computed from the harmonics (\<open>harmbase.cpp\<close>, \<open>harmfunc.cpp\<close>, \<open>common/misc/math_ext.cpp\<close>) with real
    numbers: ratios, distortion, effective values, sequence components, powers, and their averages over an interval.
  \<^item> \<open>Md5\<close>: \<open>gui/src/security/md5.cpp\<close> against RFC 1321; the locale \<open>stream_hash\<close> is interpreted on its three operations.
  \<^item> \<open>Display\<close>, \<open>Canvas\<close>, \<open>Vga\<close>: drawing into the display buffer (\<open>display_buf.cpp\<close>), and the frame buffer
    (\<open>vga.c\<close>, \<open>vga_color.cpp\<close>); the locale \<open>canvas\<close> is the contract of a pixel, from which lines, rectangles
    and characters are proved.
  \<^item> \<open>Label\<close>, \<open>Widgets\<close>, \<open>Chart\<close>: the components of the screen (\<open>gui/src/GUI/component\<close>); \<open>paints\<close> of \<open>Chart\<close> is a calculus for
    drawings that stay inside an area.
  \<^item> \<open>Set_Menu\<close>, \<open>Set_Edit\<close>, \<open>Set_View\<close>, \<open>Set_Login\<close>: the settings pages (\<open>viewset.cpp\<close>, \<open>viewset_sub.cpp\<close>,
    \<open>viewset_menu.h\<close>) as a machine driven by keys.

  \<^bold>\<open>Conventions.\<close>  A class is a record of its members, an operation a function from state to state; \<open>option\<close> means
  that a call may access memory outside an array, divide by zero, wait for a mutex for ever or run for ever, and a theorem that
  says \<open>f x = Some y\<close> says that none of this happens.  A C \<open>int\<close> is an unbounded integer where the theorems bound it, a
  word or an integer with the wrap-around written out where the code depends on its width.  \<open>float\<close> values are
  integers, exact rationals or, where roots and sines occur, real numbers; where the rounding
  matters it is defined (\<open>f32\<close> for the squares of samples, \<open>flt\<close> for tenths that are stored and read back).  Memory that the
  code does not initialise, and what the system, the configuration and libraries without source return (zlib, the user
  table, the cipher, fonts, \<open>read\<close>), are arguments; a mutex is whether it is held.

  \<^bold>\<open>Properties.\<close>  The ring, the sorted ring, the linked queue, the record file and the edited number refine a list (or a text
  with a cursor); frames, dates, times and time codes survive a round trip; bytes from the wire never leave the buffers, and a
  session that is not logged in gets only what the open commands give; guesses at a pass word are bounded on the line and on
  the screen; drawing stays inside the display and can be undone; the optimised MD5 transformation, the packing of
  pixels and the halving search agree with their references; the loops without a bound of their own end; what is
  measured is aligned, counted and reported as the code announces, and effective values and averages are those that
  their names promise.  Several theorems state a defect of the code as it is (a set of labels
  leaves old text, users can be added by anyone, the link to the screen stops); the manifest lists them as findings.

  \<^bold>\<open>Bounds and fuel.\<close>  Loops that the code leaves without a bound are \<open>partial_function\<close>s, and it is proved that they
  return (\<open>Rec_File.next_hour_returns\<close>) or that they do not.  The halving searches of \<open>Transt\<close> make at most 12 rounds, as in the code, which is
  enough for 4097 events.  Rings are bounded by 131071 cells, the largest mask of the constructor.  Displays have at most
  8192 by 8192 pixels, so that the products of a line stay in the range of \<open>int\<close> (\<open>line\<close> is None beyond it and for a division by
  zero); the dispatcher is None for more than the 16 answer frames it has room for, while the command handler makes up to 255.

  \<^bold>\<open>Not modelled.\<close>  The statistics of the flicker and the percentiles are floating point signal processing; the IEC 61850 device
  (\<open>main/src/IED\<close>) and the servers of shared memory copy fields between structures that the repository does not contain or does not
  compile; forms are positions, captions and formatted numbers;
  sockets, serial lines, watchdog, keyboard and the main programs are system calls and endless loops around the components above.
\<close>

end
